(* ===== verification/JsPrelude.thy ===== *)
theory JsPrelude
  imports Main "HOL-Library.AList" "HOL-Library.Word"
begin

text \<open>
  Shared by every component: the JavaScript \<^verbatim>\<open>Map\<close> as an association list that keeps insertion
  order, the Latin-1 part of the JavaScript string methods the sources call, the time-window
  filter that every rate limit uses, and the two interface locales the components interpret:
  \<open>js_map\<close> (what a client may rely on from a \<^verbatim>\<open>Map\<close>) and \<open>step_system\<close> (an operation set that keeps
  an invariant, and so keeps it along any sequence of calls).

  A string is a list of 8-bit characters: JavaScript strings are sequences of 16-bit code units,
  and the model covers those below 256. Times are milliseconds.
\<close>

section \<open>JavaScript maps\<close>

text \<open>
  \<^verbatim>\<open>Map.set\<close> overwrites in place or appends, \<^verbatim>\<open>Map.delete\<close> removes, and iteration follows insertion
  order: exactly \<open>AList.update\<close> and \<open>AList.delete\<close> on a list with distinct keys.
\<close>

type_synonym ('k, 'v) jmap = "('k \<times> 'v) list"

abbreviation jget :: "('k, 'v) jmap \<Rightarrow> 'k \<Rightarrow> 'v option" where
  "jget \<equiv> map_of"

abbreviation jset :: "'k \<Rightarrow> 'v \<Rightarrow> ('k, 'v) jmap \<Rightarrow> ('k, 'v) jmap" where
  "jset \<equiv> AList.update"

abbreviation jdel :: "'k \<Rightarrow> ('k, 'v) jmap \<Rightarrow> ('k, 'v) jmap" where
  "jdel \<equiv> AList.delete"

abbreviation jkeys :: "('k, 'v) jmap \<Rightarrow> 'k list" where
  "jkeys m \<equiv> map fst m"

abbreviation jvals :: "('k, 'v) jmap \<Rightarrow> 'v list" where
  "jvals m \<equiv> map snd m"

definition jhas :: "('k, 'v) jmap \<Rightarrow> 'k \<Rightarrow> bool" where
  "jhas m k \<longleftrightarrow> map_of m k \<noteq> None"

definition jmap_ok :: "('k, 'v) jmap \<Rightarrow> bool" where
  "jmap_ok m \<longleftrightarrow> distinct (jkeys m)"

text \<open>\<^verbatim>\<open>for (const [k, v] of map) if (!keep) map.delete(k)\<close> and an in-place update of every value.\<close>

definition jkeep :: "('k \<Rightarrow> 'v \<Rightarrow> bool) \<Rightarrow> ('k, 'v) jmap \<Rightarrow> ('k, 'v) jmap" where
  "jkeep p m = filter (\<lambda>(k, v). p k v) m"

definition jmapv :: "('v \<Rightarrow> 'w) \<Rightarrow> ('k, 'v) jmap \<Rightarrow> ('k, 'w) jmap" where
  "jmapv f m = map (\<lambda>(k, v). (k, f v)) m"

text \<open>\<^verbatim>\<open>Set.add\<close> on a set kept in insertion order.\<close>

definition add_new :: "'a \<Rightarrow> 'a list \<Rightarrow> 'a list" where
  "add_new x xs = (if x \<in> set xs then xs else xs @ [x])"

text \<open>
  \<^verbatim>\<open>if (map.size >= n && !map.has(k)) map.delete(map.keys().next().value)\<close>: the oldest entry makes room
  for a new key.
\<close>

definition jevict :: "nat \<Rightarrow> 'k \<Rightarrow> ('k, 'v) jmap \<Rightarrow> ('k, 'v) jmap" where
  "jevict n k m = (if n \<le> length m \<and> \<not> jhas m k then drop 1 m else m)"

lemma set_add_new [simp]: "set (add_new x xs) = insert x (set xs)"
  by (auto simp: add_new_def)

lemma distinct_add_new [simp]: "distinct (add_new x xs) \<longleftrightarrow> distinct xs"
  by (auto simp: add_new_def)

lemma jhas_iff: "jhas m k \<longleftrightarrow> k \<in> fst ` set m"
  by (simp add: jhas_def map_of_eq_None_iff)

lemma jhas_Nil [simp]: "\<not> jhas [] k"
  by (simp add: jhas_def)

lemma jget_jset [simp]: "jget (jset k v m) k' = (if k' = k then Some v else jget m k')"
  by (simp add: update_conv')

lemma jget_jdel [simp]: "jget (jdel k m) k' = (if k' = k then None else jget m k')"
  by (simp add: delete_conv')

lemma jhas_jset [simp]: "jhas (jset k v m) k' \<longleftrightarrow> k' = k \<or> jhas m k'"
  by (simp add: jhas_def)

lemma jhas_jdel [simp]: "jhas (jdel k m) k' \<longleftrightarrow> k' \<noteq> k \<and> jhas m k'"
  by (simp add: jhas_def)

lemma image_fst_jset [simp]: "fst ` set (jset k v m) = insert k (fst ` set m)"
  by (induction m) auto

lemma jmap_ok_Nil [simp]: "jmap_ok []"
  by (simp add: jmap_ok_def)

lemma jmap_ok_jset [simp]: "jmap_ok m \<Longrightarrow> jmap_ok (jset k v m)"
  by (simp add: jmap_ok_def distinct_update)

lemma jmap_ok_jdel [simp]: "jmap_ok m \<Longrightarrow> jmap_ok (jdel k m)"
  by (simp add: jmap_ok_def distinct_delete)

lemma jmap_ok_jkeep [simp]: "jmap_ok m \<Longrightarrow> jmap_ok (jkeep p m)"
  by (simp add: jmap_ok_def jkeep_def distinct_map_filter)

lemma jkeys_jmapv [simp]: "jkeys (jmapv f m) = jkeys m"
  by (simp add: jmapv_def case_prod_beta)

lemma jmap_ok_jmapv [simp]: "jmap_ok (jmapv f m) \<longleftrightarrow> jmap_ok m"
  by (simp add: jmap_ok_def)

lemma jget_jmapv [simp]: "jget (jmapv f m) k = map_option f (jget m k)"
  by (induction m) (auto simp: jmapv_def)

lemma length_jmapv [simp]: "length (jmapv f m) = length m"
  by (simp add: jmapv_def)

lemma jmap_ok_jevict [simp]: "jmap_ok m \<Longrightarrow> jmap_ok (jevict n k m)"
  by (cases m) (auto simp: jevict_def jmap_ok_def)

lemma jget_in_set: "jget m k = Some v \<Longrightarrow> (k, v) \<in> set m"
  by (rule map_of_SomeD)

lemma in_set_jget: "jmap_ok m \<Longrightarrow> (k, v) \<in> set m \<longleftrightarrow> jget m k = Some v"
  by (simp add: jmap_ok_def)

lemma jget_jkeep: "jmap_ok m \<Longrightarrow> jget (jkeep p m) k =
   (case jget m k of Some v \<Rightarrow> if p k v then Some v else None | None \<Rightarrow> None)"
  by (induction m)
    (auto simp: jkeep_def jmap_ok_def map_of_eq_None_iff split: option.splits)

lemma jget_jkeep_SomeD: "jget (jkeep p m) k = Some v \<Longrightarrow> p k v"
  by (auto simp: jkeep_def dest!: map_of_SomeD)

lemma set_jset: "jmap_ok m \<Longrightarrow> set (jset k v m) = {(k, v)} \<union> {p \<in> set m. fst p \<noteq> k}"
proof (intro set_eqI)
  fix p
  assume ok: "jmap_ok m"
  show "p \<in> set (jset k v m) \<longleftrightarrow> p \<in> {(k, v)} \<union> {p \<in> set m. fst p \<noteq> k}"
    using in_set_jget [OF ok, of "fst p" "snd p"]
      in_set_jget [OF jmap_ok_jset [OF ok, of k v], of "fst p" "snd p"]
    by (cases p) auto
qed

lemma set_jset_subset: "set (jset k v m) \<subseteq> insert (k, v) (set m)"
  by (induction m) auto

lemma set_jdel: "set (jdel k m) = {p \<in> set m. fst p \<noteq> k}"
  by (auto simp: AList.delete_eq)

lemma length_jset: "length (jset k v m) = (if jhas m k then length m else Suc (length m))"
  by (induction m) (auto simp: jhas_def split: if_splits)

lemma length_jdel_le: "length (jdel k m) \<le> length m"
  by (rule length_delete_le)

lemma length_jkeep_le: "length (jkeep p m) \<le> length m"
  by (simp add: jkeep_def)

lemma set_jkeep_subset: "set (jkeep p m) \<subseteq> set m"
  by (auto simp: jkeep_def)

lemma length_jevict_jset: "0 < n \<Longrightarrow> length m \<le> n \<Longrightarrow> length (jset k v (jevict n k m)) \<le> n"
  by (auto simp: jevict_def length_jset jhas_iff)

lemma set_jevict: "set (jevict n k m) \<subseteq> set m"
  by (auto simp: jevict_def dest: in_set_dropD)

lemma jget_jevict_same: "jmap_ok m \<Longrightarrow> jget (jevict n k m) k = jget m k"
  by (cases m) (auto simp: jevict_def jhas_def jmap_ok_def map_of_eq_None_iff split: if_splits)

lemmas jmap_simps = jget_jkeep in_set_jget set_jset set_jdel length_jset

section \<open>Interfaces\<close>

text \<open>What the components rely on from a \<^verbatim>\<open>Map\<close>.\<close>

locale js_map =
  fixes get :: "'m \<Rightarrow> 'k \<Rightarrow> 'v option"
    and put :: "'k \<Rightarrow> 'v \<Rightarrow> 'm \<Rightarrow> 'm"
    and del :: "'k \<Rightarrow> 'm \<Rightarrow> 'm"
    and size_of :: "'m \<Rightarrow> nat"
    and ok :: "'m \<Rightarrow> bool"
  assumes get_put: "get (put k v m) k' = (if k' = k then Some v else get m k')"
    and get_del: "get (del k m) k' = (if k' = k then None else get m k')"
    and ok_put: "ok m \<Longrightarrow> ok (put k v m)"
    and ok_del: "ok m \<Longrightarrow> ok (del k m)"
    and size_put: "ok m \<Longrightarrow> size_of (put k v m) = (if get m k = None then Suc (size_of m) else size_of m)"
    and size_del: "ok m \<Longrightarrow> size_of (del k m) = (if get m k = None then size_of m else size_of m - 1)"
begin

text \<open>Moving an entry to the end (delete, then set) changes no lookup and no size.\<close>

lemma move_to_end_get: "get m k = Some v \<Longrightarrow> get (put k v (del k m)) k' = get m k'"
  by (simp add: get_put get_del)

lemma move_to_end_size: "ok m \<Longrightarrow> get m k = Some v \<Longrightarrow> 0 < size_of m \<Longrightarrow>
    size_of (put k v (del k m)) = size_of m"
  by (simp add: size_put size_del ok_del get_del)

lemma put_twice_get: "get (put k v (put k w m)) k' = get (put k v m) k'"
  by (simp add: get_put)

lemma del_put_get: "get (del k (put k v m)) k' = get (del k m) k'"
  by (simp add: get_put get_del)

end

interpretation alist_map: js_map "map_of" "AList.update" "AList.delete" length jmap_ok
proof
  fix m :: "('a, 'b) jmap" and k v k'
  assume ok: "jmap_ok m"
  show "length (jset k v m) = (if jget m k = None then Suc (length m) else length m)"
    by (simp add: length_jset jhas_def)
  show "length (jdel k m) = (if jget m k = None then length m else length m - 1)"
    using ok
  proof (induction m)
    case Nil
    then show ?case by simp
  next
    case (Cons p m)
    then have "p = (fst p, snd p)" and "fst p = k \<Longrightarrow> jdel k m = m"
      by (auto simp: jmap_ok_def)
    with Cons show ?case
      by (cases m) (auto simp: jmap_ok_def map_of_eq_None_iff split: if_splits)
  qed
qed auto

text \<open>Operations that keep an invariant keep it along every sequence of calls.\<close>

definition run :: "('s \<Rightarrow> 'e \<Rightarrow> 's) \<Rightarrow> 's \<Rightarrow> 'e list \<Rightarrow> 's" where
  "run step s es = fold (\<lambda>e s. step s e) es s"

lemma run_Nil [simp]: "run step s [] = s"
  by (simp add: run_def)

lemma run_Cons [simp]: "run step s (e # es) = run step (step s e) es"
  by (simp add: run_def)

locale step_system =
  fixes step :: "'s \<Rightarrow> 'e \<Rightarrow> 's"
    and inv :: "'s \<Rightarrow> bool"
  assumes step_inv: "inv s \<Longrightarrow> inv (step s e)"
begin

lemma run_inv: "inv s \<Longrightarrow> inv (run step s es)"
  by (induction es arbitrary: s) (simp_all add: step_inv)

lemma run_inv_imp: "inv s \<Longrightarrow> (\<And>s. inv s \<Longrightarrow> P s) \<Longrightarrow> P (run step s es)"
  using run_inv by blast

end

text \<open>The same where the callers keep a rule on the calls they make.\<close>

locale guarded_system =
  fixes step :: "'s \<Rightarrow> 'e \<Rightarrow> 's"
    and inv :: "'s \<Rightarrow> bool"
    and allowed :: "'e \<Rightarrow> bool"
  assumes guarded_step: "inv s \<Longrightarrow> allowed e \<Longrightarrow> inv (step s e)"
begin

lemma guarded_run: "inv s \<Longrightarrow> list_all allowed es \<Longrightarrow> inv (run step s es)"
  by (induction es arbitrary: s) (simp_all add: guarded_step)

end

sublocale step_system \<subseteq> unguarded: guarded_system step inv "\<lambda>_. True"
  by unfold_locales (rule step_inv)

text \<open>
  A token that can be spent once. \<open>spend a t s\<close> says whether the token was accepted and gives the next
  state; \<open>other s e\<close> is any operation that does not issue a token. The client's guarantee is that no
  sequence of calls accepts one token twice.
\<close>

fun times_spent ::
  "('a \<Rightarrow> 't \<Rightarrow> 's \<Rightarrow> bool \<times> 's) \<Rightarrow> ('s \<Rightarrow> 'e \<Rightarrow> 's) \<Rightarrow> 't \<Rightarrow> 's \<Rightarrow> ('a \<times> 't + 'e) list \<Rightarrow> nat" where
  "times_spent spend other t s [] = 0"
| "times_spent spend other t s (Inl (a, u) # es) =
     (if u = t \<and> fst (spend a u s) then 1 else 0) + times_spent spend other t (snd (spend a u s)) es"
| "times_spent spend other t s (Inr e # es) = times_spent spend other t (other s e) es"

locale one_shot =
  fixes spend :: "'a \<Rightarrow> 't \<Rightarrow> 's \<Rightarrow> bool \<times> 's"
    and other :: "'s \<Rightarrow> 'e \<Rightarrow> 's"
    and live :: "'s \<Rightarrow> 't \<Rightarrow> bool"
  assumes spend_live: "fst (spend a t s) \<Longrightarrow> live s t"
    and spend_dead: "fst (spend a t s) \<Longrightarrow> \<not> live (snd (spend a t s)) t"
    and spend_keeps_dead: "\<not> live s t \<Longrightarrow> \<not> live (snd (spend a u s)) t"
    and other_keeps_dead: "\<not> live s t \<Longrightarrow> \<not> live (other s e) t"
begin

lemma dead_never_spent: "\<not> live s t \<Longrightarrow> times_spent spend other t s es = 0"
proof (induction es arbitrary: s)
  case Nil
  then show ?case by simp
next
  case (Cons x es)
  show ?case
  proof (cases x)
    case (Inl au)
    with Cons spend_live spend_keeps_dead show ?thesis by (cases au) auto
  next
    case (Inr e)
    with Cons other_keeps_dead show ?thesis by simp
  qed
qed

lemma spent_at_most_once: "times_spent spend other t s es \<le> 1"
proof (induction es arbitrary: s)
  case Nil
  then show ?case by simp
next
  case (Cons x es)
  show ?case
  proof (cases x)
    case (Inl au)
    with Cons.IH spend_dead dead_never_spent show ?thesis by (cases au) auto
  next
    case (Inr e)
    with Cons.IH show ?thesis by simp
  qed
qed

end

section \<open>Time windows\<close>

text \<open>\<^verbatim>\<open>times.filter((time) => now - time < windowMs)\<close>, the same expression in every limiter.\<close>

definition recent :: "int list \<Rightarrow> int \<Rightarrow> int \<Rightarrow> int list" where
  "recent ts now windowMs = filter (\<lambda>time. now - time < windowMs) ts"

lemma length_recent_le: "length (recent ts now w) \<le> length ts"
  by (simp add: recent_def)

lemma set_recent: "set (recent ts now w) = {t \<in> set ts. now - t < w}"
  by (auto simp: recent_def)

lemma recent_recent: "now \<le> now' \<Longrightarrow> recent (recent ts now w) now' w = recent ts now' w"
  by (auto simp: recent_def intro: filter_cong)

lemma recent_append: "recent (ts @ us) now w = recent ts now w @ recent us now w"
  by (simp add: recent_def)

lemma recent_Nil [simp]: "recent [] now w = []"
  by (simp add: recent_def)

text \<open>How many of the logged times lie in the window of length \<open>w\<close> that ends at \<open>T\<close>.\<close>

definition window_count :: "int list \<Rightarrow> int \<Rightarrow> int \<Rightarrow> nat" where
  "window_count ts T w = length (filter (\<lambda>t. T - w < t \<and> t \<le> T) ts)"

lemma window_count_Nil [simp]: "window_count [] T w = 0"
  by (simp add: window_count_def)

lemma window_count_add:
  assumes "\<And>T. window_count ts T w \<le> n" "\<forall>t \<in> set ts. t \<le> now" "length (recent ts now w) < n"
  shows "window_count (ts @ [now]) T w \<le> n"
proof (cases "now \<le> T")
  case False
  then have "window_count (ts @ [now]) T w = window_count ts T w"
    by (simp add: window_count_def)
  with assms(1) show ?thesis by simp
next
  case True
  have "length (filter (\<lambda>t. T - w < t \<and> t \<le> T) ts) \<le> length (recent ts now w)"
    using True unfolding recent_def by (induction ts) auto
  with assms(3) show ?thesis by (simp add: window_count_def)
qed

text \<open>
  A limiter counts some attempts against a row of times, ignores others, and may forget the row.
  The log of counted attempts since the row was last forgotten is what its client cares about.
\<close>

datatype effect = Counted | Unchanged | Cleared

fun counted_log ::
  "('e \<Rightarrow> int \<Rightarrow> 's \<Rightarrow> effect \<times> 's) \<Rightarrow> int list \<Rightarrow> 's \<Rightarrow> (int \<times> 'e) list \<Rightarrow> int list" where
  "counted_log attempt log s [] = log"
| "counted_log attempt log s ((now, e) # es) =
     (case attempt e now s of
        (Counted, s') \<Rightarrow> counted_log attempt (log @ [now]) s' es
      | (Unchanged, s') \<Rightarrow> counted_log attempt log s' es
      | (Cleared, s') \<Rightarrow> counted_log attempt [] s' es)"

locale window_limiter =
  fixes attempt :: "'e \<Rightarrow> int \<Rightarrow> 's \<Rightarrow> effect \<times> 's"
    and row :: "'s \<Rightarrow> int list"
    and limit :: nat
    and window :: int
    and inv :: "'s \<Rightarrow> bool"
    and ok_event :: "'e \<Rightarrow> int \<Rightarrow> bool"
    and clk :: "'s \<Rightarrow> int"
  assumes inv_step: "inv s \<Longrightarrow> ok_event e now \<Longrightarrow> clk s \<le> now \<Longrightarrow> attempt e now s = (eff, s') \<Longrightarrow>
      inv s' \<and> clk s' \<le> now"
    and counted_room: "inv s \<Longrightarrow> ok_event e now \<Longrightarrow> clk s \<le> now \<Longrightarrow> attempt e now s = (Counted, s') \<Longrightarrow>
      length (recent (row s) now window) < limit"
    and counted_row: "inv s \<Longrightarrow> ok_event e now \<Longrightarrow> clk s \<le> now \<Longrightarrow> attempt e now s = (Counted, s') \<Longrightarrow> now \<le> t \<Longrightarrow>
      recent (row s') t window = recent (row s @ [now]) t window"
    and same_row: "inv s \<Longrightarrow> ok_event e now \<Longrightarrow> clk s \<le> now \<Longrightarrow> attempt e now s = (Unchanged, s') \<Longrightarrow> now \<le> t \<Longrightarrow>
      recent (row s') t window = recent (row s) t window"
    and cleared_row: "inv s \<Longrightarrow> ok_event e now \<Longrightarrow> clk s \<le> now \<Longrightarrow> attempt e now s = (Cleared, s') \<Longrightarrow> row s' = []"
begin

lemma limit_kept:
  assumes "inv s" "\<forall>(now, e) \<in> set es. ok_event e now" "sorted (map fst es)" "\<forall>(now, e) \<in> set es. start \<le> now"
    and "\<And>t. start \<le> t \<Longrightarrow> recent (row s) t window = recent log t window"
    and "\<forall>t \<in> set log. t \<le> start" "\<And>T. window_count log T window \<le> limit" "clk s \<le> start"
  shows "window_count (counted_log attempt log s es) T window \<le> limit"
  using assms
proof (induction es arbitrary: s log start)
  case Nil
  then show ?case by simp
next
  case (Cons x es)
  obtain now e where x: "x = (now, e)" by fastforce
  obtain eff s' where a: "attempt e now s = (eff, s')" by fastforce
  have now: "start \<le> now" using Cons.prems(4) x by auto
  then have inv: "inv s" "ok_event e now" "clk s \<le> now" using Cons.prems(1,2,8) x by auto
  have tail: "inv s'" "\<forall>(now, e) \<in> set es. ok_event e now" "sorted (map fst es)" "\<forall>(n, e) \<in> set es. now \<le> n"
    and clk: "clk s' \<le> now"
    using inv_step [OF inv a] Cons.prems(2,3) by (auto simp: x)
  have old: "\<forall>t \<in> set log. t \<le> now" using Cons.prems(6) now by fastforce
  have same: "recent (row s) t window = recent log t window" if "now \<le> t" for t
    using Cons.prems(5) that now by simp
  show ?case
  proof (cases eff)
    case Counted
    note a = a [unfolded Counted]
    have "window_count (counted_log attempt (log @ [now]) s' es) T window \<le> limit"
    proof (rule Cons.IH [OF tail])
      show "recent (row s') t window = recent (log @ [now]) t window" if "now \<le> t" for t
        using counted_row [OF inv a that] same [OF that] by (simp add: recent_append)
      show "window_count (log @ [now]) T window \<le> limit" for T
        using counted_room [OF inv a] same [of now] Cons.prems(7) old by (intro window_count_add) simp_all
      show "\<forall>t \<in> set (log @ [now]). t \<le> now" using old by simp
    qed (rule clk)
    with a x show ?thesis by simp
  next
    case Unchanged
    note a = a [unfolded Unchanged]
    have "window_count (counted_log attempt log s' es) T window \<le> limit"
      using same_row [OF inv a] same old Cons.prems(7) clk by (intro Cons.IH [OF tail]) simp_all
    with a x show ?thesis by simp
  next
    case Cleared
    note a = a [unfolded Cleared]
    have "window_count (counted_log attempt [] s' es) T window \<le> limit"
      using cleared_row [OF inv a] clk by (intro Cons.IH [OF tail]) simp_all
    with a x show ?thesis by simp
  qed
qed

lemma limit_from_start:
  assumes "inv s" "row s = []" "\<forall>(now, e) \<in> set es. ok_event e now" "sorted (map fst es)"
    and "es \<noteq> [] \<Longrightarrow> clk s \<le> fst (hd es)"
  shows "window_count (counted_log attempt [] s es) T window \<le> limit"
proof (cases es)
  case Nil
  then show ?thesis by simp
next
  case (Cons x es')
  then have "\<forall>(now, e) \<in> set es. fst x \<le> now" using assms(4) by auto
  then show ?thesis using assms Cons by (intro limit_kept) auto
qed

end

section \<open>Numbers and results\<close>

text \<open>
  A value checked with \<^verbatim>\<open>Number.isInteger\<close>: an integer, or anything else (a fraction, \<^verbatim>\<open>NaN\<close>, a value
  of another type), which all those checks treat alike.
\<close>

datatype jsvalue = Whole int | NotWhole

definition MAX_SAFE_INTEGER :: int where
  "MAX_SAFE_INTEGER = 9007199254740991"

definition is_integer :: "jsvalue \<Rightarrow> bool" where
  "is_integer v \<longleftrightarrow> (case v of Whole _ \<Rightarrow> True | NotWhole \<Rightarrow> False)"

definition is_safe_integer :: "jsvalue \<Rightarrow> bool" where
  "is_safe_integer v \<longleftrightarrow> (case v of Whole n \<Rightarrow> \<bar>n\<bar> \<le> MAX_SAFE_INTEGER | NotWhole \<Rightarrow> False)"

definition whole_between :: "int \<Rightarrow> int \<Rightarrow> jsvalue \<Rightarrow> bool" where
  "whole_between lo hi v \<longleftrightarrow> (case v of Whole n \<Rightarrow> lo \<le> n \<and> n \<le> hi | NotWhole \<Rightarrow> False)"

definition whole_value :: "jsvalue \<Rightarrow> int" where
  "whole_value v = (case v of Whole n \<Rightarrow> n | NotWhole \<Rightarrow> 0)"

text \<open>A call that may throw: the error's message, or the value.\<close>

type_synonym 'a result = "string + 'a"

definition is_ok :: "'a result \<Rightarrow> bool" where
  "is_ok r \<longleftrightarrow> (case r of Inr _ \<Rightarrow> True | Inl _ \<Rightarrow> False)"

lemma is_ok_simps [simp]: "is_ok (Inr x)" "\<not> is_ok (Inl e)"
  by (simp_all add: is_ok_def)

lemma whole_betweenE: "whole_between lo hi v \<Longrightarrow> \<exists>n. v = Whole n \<and> lo \<le> n \<and> n \<le> hi"
  by (cases v) (simp_all add: whole_between_def)

section \<open>Characters and strings\<close>

definition code :: "char \<Rightarrow> nat" where
  "code c = of_char c"

definition is_digit :: "char \<Rightarrow> bool" where
  "is_digit c \<longleftrightarrow> 48 \<le> code c \<and> code c \<le> 57"

definition is_upper :: "char \<Rightarrow> bool" where
  "is_upper c \<longleftrightarrow> 65 \<le> code c \<and> code c \<le> 90"

definition is_lower :: "char \<Rightarrow> bool" where
  "is_lower c \<longleftrightarrow> 97 \<le> code c \<and> code c \<le> 122"

definition is_alnum :: "char \<Rightarrow> bool" where
  "is_alnum c \<longleftrightarrow> is_digit c \<or> is_upper c \<or> is_lower c"

text \<open>White space as \<^verbatim>\<open>String.prototype.trim\<close> and \<^verbatim>\<open>\s\<close> know it (the Latin-1 part).\<close>

definition is_space :: "char \<Rightarrow> bool" where
  "is_space c \<longleftrightarrow> 9 \<le> code c \<and> code c \<le> 13 \<or> code c = 32 \<or> code c = 160"

definition js_trim :: "string \<Rightarrow> string" where
  "js_trim s = rev (dropWhile is_space (rev (dropWhile is_space s)))"

text \<open>
  \<^verbatim>\<open>toUpperCase\<close>: ASCII and Latin-1 letters move down by 32 and the sharp s becomes two letters. The
  two Latin-1 letters whose capitals lie outside Latin-1 (181 and 255) are left alone; neither
  they nor their capitals occur in any pattern of the sources.
\<close>

definition upper_char :: "char \<Rightarrow> string" where
  "upper_char c =
     (if is_lower c \<or> (224 \<le> code c \<and> code c \<le> 254 \<and> code c \<noteq> 247)
      then [char_of (code c - 32)]
      else if code c = 223 then ''SS'' else [c])"

definition js_upper :: "string \<Rightarrow> string" where
  "js_upper s = concat (map upper_char s)"

definition lower_char :: "char \<Rightarrow> char" where
  "lower_char c =
     (if is_upper c \<or> (192 \<le> code c \<and> code c \<le> 222 \<and> code c \<noteq> 215)
      then char_of (code c + 32) else c)"

definition js_lower :: "string \<Rightarrow> string" where
  "js_lower s = map lower_char s"

definition starts_with :: "string \<Rightarrow> string \<Rightarrow> bool" where
  "starts_with s p \<longleftrightarrow> take (length p) s = p"

text \<open>\<^verbatim>\<open>s.split(c)\<close> for a one-character separator, and \<^verbatim>\<open>parts.join(c)\<close>.\<close>

fun split_on :: "char \<Rightarrow> string \<Rightarrow> string list" where
  "split_on c [] = [[]]"
| "split_on c (x # xs) =
     (if x = c then [] # split_on c xs
      else case split_on c xs of p # ps \<Rightarrow> (x # p) # ps | [] \<Rightarrow> [[x]])"

fun join_with :: "string \<Rightarrow> string list \<Rightarrow> string" where
  "join_with sep [] = []"
| "join_with sep [p] = p"
| "join_with sep (p # q # ps) = p @ sep @ join_with sep (q # ps)"

lemma char_of_code [simp]: "char_of (code c) = c"
  by (simp add: code_def)

lemma code_char_of: "code (char_of n) = n mod 256"
  by (simp add: code_def)

lemma code_inject: "code c = code d \<longleftrightarrow> c = d"
  by (metis char_of_code)

lemma code_of_char: "of_char c = int (code c)"
  by (simp only: code_def of_nat_of_char)

lemma code_dash: "code (CHR ''-'') = 45"
  by (simp add: code_def)

lemma split_on_nonempty [simp]: "split_on c s \<noteq> []"
  by (induction s) (auto split: list.splits)

lemma split_on_no_sep: "p \<in> set (split_on c s) \<Longrightarrow> c \<notin> set p"
proof (induction s arbitrary: p)
  case Nil
  then show ?case by simp
next
  case (Cons x s)
  then show ?case
    by (cases "split_on c s") (auto split: if_splits)
qed

lemma join_split: "join_with [c] (split_on c s) = s"
proof (induction s)
  case Nil
  then show ?case by simp
next
  case (Cons x s)
  then show ?case
    by (cases "split_on c s"; cases "tl (split_on c s)") auto
qed

lemma split_on_no_char: "c \<notin> set s \<Longrightarrow> split_on c s = [s]"
  by (induction s) auto

lemma split_on_append: "c \<notin> set p \<Longrightarrow> split_on c (p @ c # s) = p # split_on c s"
  by (induction p) auto

lemma split_join: "ps \<noteq> [] \<Longrightarrow> (\<forall>p \<in> set ps. c \<notin> set p) \<Longrightarrow> split_on c (join_with [c] ps) = ps"
proof (induction "[c]" ps rule: join_with.induct)
  case (3 p q ps)
  then show ?case by (simp add: split_on_append)
qed (simp_all add: split_on_no_char)

lemma dropWhile_none: "\<forall>c \<in> set s. \<not> p c \<Longrightarrow> dropWhile p s = s"
  by (cases s) auto

lemma js_trim_id: "\<forall>c \<in> set s. \<not> is_space c \<Longrightarrow> js_trim s = s"
  by (simp add: js_trim_def dropWhile_none)

lemma js_upper_id: "\<forall>c \<in> set s. upper_char c = [c] \<Longrightarrow> js_upper s = s"
  by (induction s) (auto simp: js_upper_def)

lemma js_trim_spaces: "\<forall>c \<in> set s. is_space c \<Longrightarrow> js_trim s = []"
proof -
  assume "\<forall>c \<in> set s. is_space c"
  then have "dropWhile is_space s = []" by (simp only: dropWhile_eq_Nil_conv)
  then show ?thesis unfolding js_trim_def by (simp only: rev.simps dropWhile.simps)
qed

lemma js_trim_pad:
  assumes "\<forall>c \<in> set a. is_space c" "\<forall>c \<in> set b. is_space c" "\<forall>c \<in> set s. \<not> is_space c"
  shows "js_trim (a @ s @ b) = s"
proof (cases "s = []")
  case True
  with assms have "\<forall>c \<in> set (a @ s @ b). is_space c" by auto
  with True show ?thesis by (simp only: js_trim_spaces)
next
  case False
  have "dropWhile is_space (a @ s @ b) = s @ b"
    using assms False by (simp add: dropWhile_append2) (cases s; simp)
  moreover have "dropWhile is_space (rev (s @ b)) = rev s"
  proof -
    have "dropWhile is_space (rev (s @ b)) = dropWhile is_space (rev s)"
      unfolding rev_append using assms(2) by (intro dropWhile_append2) auto
    also have "\<dots> = rev s" using assms(3) by (intro dropWhile_none) auto
    finally show ?thesis .
  qed
  ultimately show ?thesis by (simp add: js_trim_def)
qed

end
