(* ===== verification/Json.thy ===== *)
theory Json
  imports JsPrelude
begin

text \<open>
  JSON values as the sources' validators see them: what \<^verbatim>\<open>JSON.parse\<close> delivers or a plain object built
  in the program. An object keeps its keys in insertion order; a number is an integer or, for any
  other number, its decimal text. \<^verbatim>\<open>undefined\<close> (a missing key) is \<open>None\<close>. Also the checks that the
  validators share: a list of conditions with their messages, of which the first that fails is
  thrown.
\<close>

section \<open>Values\<close>

datatype json =
    JNull
  | JBool bool
  | JInt int
  | JDec string
  | JStr string
  | JArr "json list"
  | JObj "(string \<times> json) list"

text \<open>Decimal digits of a number that is not negative, and \<^verbatim>\<open>String(n)\<close>.\<close>

function dec_pos :: "int \<Rightarrow> string" where
  "dec_pos n = (if n < 10 then [char_of (48 + n)] else dec_pos (n div 10) @ [char_of (48 + n mod 10)])"
  by pat_completeness auto
termination by (relation "measure nat") auto

declare dec_pos.simps [simp del]

definition dec :: "int \<Rightarrow> string" where
  "dec n = (if n < 0 then CHR ''-'' # dec_pos (- n) else dec_pos n)"

definition index_key :: "nat \<Rightarrow> string" where
  "index_key i = dec_pos (int i)"

text \<open>\<^verbatim>\<open>value?.[key]\<close>, \<^verbatim>\<open>Object.keys(value)\<close> and \<^verbatim>\<open>{ ...value }\<close>.\<close>

definition jfield :: "string \<Rightarrow> json \<Rightarrow> json option" where
  "jfield k v = (case v of JObj m \<Rightarrow> jget m k | _ \<Rightarrow> None)"

definition jspread :: "json \<Rightarrow> (string \<times> json) list" where
  "jspread v = (case v of
      JObj m \<Rightarrow> m
    | JArr xs \<Rightarrow> zip (map index_key [0..<length xs]) xs
    | JStr s \<Rightarrow> zip (map index_key [0..<length s]) (map (\<lambda>c. JStr [c]) s)
    | _ \<Rightarrow> [])"

text \<open>\<^verbatim>\<open>value && typeof value === 'object'\<close> holds of arrays too.\<close>

definition is_object_like :: "json \<Rightarrow> bool" where
  "is_object_like v = (case v of JObj _ \<Rightarrow> True | JArr _ \<Rightarrow> True | _ \<Rightarrow> False)"

definition is_plain_object :: "json \<Rightarrow> bool" where
  "is_plain_object v = (case v of JObj _ \<Rightarrow> True | _ \<Rightarrow> False)"

text \<open>\<^verbatim>\<open>Object.hasOwn(value, key)\<close>; an array owns its indices.\<close>

definition has_own :: "string \<Rightarrow> json \<Rightarrow> bool" where
  "has_own k v \<longleftrightarrow> jhas (jspread v) k"

text \<open>\<^verbatim>\<open>Object.hasOwn(value, key) ? value : { ...value, [key]: fallback }\<close> for an object-like value.\<close>

definition with_default :: "string \<Rightarrow> json \<Rightarrow> json \<Rightarrow> json" where
  "with_default k d v = (if is_object_like v \<and> \<not> has_own k v then JObj (jset k d (jspread v)) else v)"

definition put_field :: "string \<Rightarrow> json \<Rightarrow> json \<Rightarrow> json" where
  "put_field k x v = (case v of JObj m \<Rightarrow> JObj (jset k x m) | _ \<Rightarrow> v)"

definition del_field :: "string \<Rightarrow> json \<Rightarrow> json" where
  "del_field k v = (case v of JObj m \<Rightarrow> JObj (jdel k m) | _ \<Rightarrow> v)"

definition map_field :: "string \<Rightarrow> (json \<Rightarrow> json) \<Rightarrow> json \<Rightarrow> json" where
  "map_field k f v = (case jfield k v of Some x \<Rightarrow> put_field k (f x) v | None \<Rightarrow> v)"

definition arr_of :: "json option \<Rightarrow> json list" where
  "arr_of v = (case v of Some (JArr xs) \<Rightarrow> xs | _ \<Rightarrow> [])"

definition obj_of :: "json option \<Rightarrow> (string \<times> json) list" where
  "obj_of v = (case v of Some (JObj m) \<Rightarrow> m | _ \<Rightarrow> [])"

definition str_of :: "json option \<Rightarrow> string" where
  "str_of v = (case v of Some (JStr s) \<Rightarrow> s | _ \<Rightarrow> [])"

definition int_of :: "json option \<Rightarrow> int" where
  "int_of v = (case v of Some (JInt n) \<Rightarrow> n | _ \<Rightarrow> 0)"

definition is_str :: "json option \<Rightarrow> bool" where
  "is_str v = (case v of Some (JStr _) \<Rightarrow> True | _ \<Rightarrow> False)"

definition is_bool :: "json option \<Rightarrow> bool" where
  "is_bool v = (case v of Some (JBool _) \<Rightarrow> True | _ \<Rightarrow> False)"

definition is_arr :: "json option \<Rightarrow> bool" where
  "is_arr v = (case v of Some (JArr _) \<Rightarrow> True | _ \<Rightarrow> False)"

section \<open>Checks\<close>

type_synonym checks = "(bool \<times> string) list"

fun first_error :: "checks \<Rightarrow> string option" where
  "first_error [] = None"
| "first_error ((ok, message) # cs) = (if ok then first_error cs else Some message)"

definition checked :: "checks \<Rightarrow> 'a \<Rightarrow> 'a result" where
  "checked cs v = (case first_error cs of Some e \<Rightarrow> Inl e | None \<Rightarrow> Inr v)"

lemma first_error_None: "first_error cs = None \<longleftrightarrow> (\<forall>(ok, message) \<in> set cs. ok)"
  by (induction cs rule: first_error.induct) auto

lemma first_error_append: "first_error (cs @ ds) = (case first_error cs of None \<Rightarrow> first_error ds | Some e \<Rightarrow> Some e)"
  by (induction cs rule: first_error.induct) auto

lemma checked_Inr: "checked cs v = Inr w \<longleftrightarrow> w = v \<and> first_error cs = None"
  by (auto simp: checked_def split: option.splits)

text \<open>\<^verbatim>\<open>value !== null && typeof value === 'object' && !Array.isArray(value)\<close> with exactly these keys.\<close>

definition object_checks :: "json option \<Rightarrow> string list \<Rightarrow> string \<Rightarrow> checks" where
  "object_checks v keys label =
     [((case v of Some x \<Rightarrow> is_plain_object x | None \<Rightarrow> False), label @ '' must be an object''),
      ((\<forall>k \<in> set (jkeys (obj_of v)). k \<in> set keys) \<and> (\<forall>k \<in> set keys. jhas (obj_of v) k),
       label @ '' has missing or unknown fields'')]"

definition safe_int :: "int \<Rightarrow> int \<Rightarrow> json option \<Rightarrow> bool" where
  "safe_int lo hi v = (case v of Some (JInt n) \<Rightarrow> \<bar>n\<bar> \<le> MAX_SAFE_INTEGER \<and> lo \<le> n \<and> n \<le> hi | _ \<Rightarrow> False)"

definition integer_check :: "json option \<Rightarrow> int \<Rightarrow> int \<Rightarrow> string \<Rightarrow> checks" where
  "integer_check v lo hi label =
     [(safe_int lo hi v, label @ '' must be an integer from '' @ dec lo @ '' to '' @ dec hi)]"

text \<open>The codes below 32, by their bits.\<close>

definition below32 :: "char \<Rightarrow> bool" where
  "below32 c \<longleftrightarrow> \<not> digit5 c \<and> \<not> digit6 c \<and> \<not> digit7 c"

lemma below32_code: "below32 c \<longleftrightarrow> code c < 32"
  by (cases c) (simp add: below32_def code_def of_char_def)

definition is_control :: "char \<Rightarrow> bool" where
  "is_control c \<longleftrightarrow> below32 c \<or> c = CHR 0x7F"

definition text_check :: "json option \<Rightarrow> nat \<Rightarrow> nat \<Rightarrow> string \<Rightarrow> checks" where
  "text_check v lo hi label =
     [(is_str v \<and> lo \<le> length (js_trim (str_of v)) \<and> length (str_of v) \<le> hi
         \<and> list_all (\<lambda>c. \<not> is_control c) (str_of v), label @ '' is invalid'')]"

text \<open>
  The duplicates are found by comparing the \<^verbatim>\<open>JSON.stringify\<close> texts, which is comparison of the values
  with their keys in order.
\<close>

definition list_check :: "json option \<Rightarrow> string \<Rightarrow> checks" where
  "list_check v label =
     [(is_arr v \<and> arr_of v \<noteq> [] \<and> length (arr_of v) \<le> 64, label @ '' requires 1-64 choices''),
      (distinct (arr_of v), label @ '' contains duplicates'')]"

section \<open>Printing\<close>

definition hex_digit :: "nat \<Rightarrow> char" where
  "hex_digit n = (if n < 10 then char_of (48 + n) else char_of (87 + n))"

definition escape_char :: "char \<Rightarrow> string" where
  "escape_char c =
     (if c = CHR 0x22 \<or> c = CHR 0x5C then [CHR 0x5C, c]
      else if c = CHR 0x08 then [CHR 0x5C, CHR ''b'']
      else if c = CHR 0x0C then [CHR 0x5C, CHR ''f'']
      else if c = CHR 0x0A then [CHR 0x5C, CHR ''n'']
      else if c = CHR 0x0D then [CHR 0x5C, CHR ''r'']
      else if c = CHR 0x09 then [CHR 0x5C, CHR ''t'']
      else if below32 c then CHR 0x5C # ''u00'' @ [hex_digit (code c div 16), hex_digit (code c mod 16)]
      else [c])"

definition quote_str :: "string \<Rightarrow> string" where
  "quote_str s = [CHR 0x22] @ concat (map escape_char s) @ [CHR 0x22]"

fun stringify :: "json \<Rightarrow> string" where
  "stringify JNull = ''null''"
| "stringify (JBool b) = (if b then ''true'' else ''false'')"
| "stringify (JInt n) = dec n"
| "stringify (JDec s) = s"
| "stringify (JStr s) = quote_str s"
| "stringify (JArr xs) = ''['' @ join_with '','' (map stringify xs) @ '']''"
| "stringify (JObj m) = ''{'' @ join_with '','' (map (\<lambda>(k, v). quote_str k @ '':'' @ stringify v) m) @ ''}''"

text \<open>\<^verbatim>\<open>String(value)\<close> of a field, as in a template.\<close>

fun show_value :: "json \<Rightarrow> string" where
  "show_value JNull = ''null''"
| "show_value (JBool b) = (if b then ''true'' else ''false'')"
| "show_value (JInt n) = dec n"
| "show_value (JDec s) = s"
| "show_value (JStr s) = s"
| "show_value (JArr xs) = join_with '','' (map (\<lambda>x. if x = JNull then [] else show_value x) xs)"
| "show_value (JObj _) = ''[object Object]''"

definition show_field :: "string \<Rightarrow> json \<Rightarrow> string" where
  "show_field key message = (case jfield key message of Some v \<Rightarrow> show_value v | None \<Rightarrow> ''undefined'')"

text \<open>Which values count as true.\<close>

fun truthy :: "json \<Rightarrow> bool" where
  "truthy JNull = False"
| "truthy (JBool b) = b"
| "truthy (JInt n) = (n \<noteq> 0)"
| "truthy (JDec s) = True"
| "truthy (JStr s) = (s \<noteq> [])"
| "truthy (JArr xs) = True"
| "truthy (JObj m) = True"

definition truthy_field :: "json option \<Rightarrow> bool" where
  "truthy_field v = (case v of Some x \<Rightarrow> truthy x | None \<Rightarrow> False)"

text \<open>\<^verbatim>\<open>Buffer.byteLength\<close>: UTF-8 takes two bytes for the characters from 128 on, whose bit 7 is set.\<close>

definition byteLength :: "string \<Rightarrow> int" where
  "byteLength s = sum_list (map (\<lambda>c. if digit7 c then 2 else 1) s)"

section \<open>Lemmas\<close>

lemma jset_same: "jget m k = Some v \<Longrightarrow> jset k v m = m"
  by (induction m) (auto split: if_splits)

lemma first_error_pair: "first_error (cs @ ds) = None \<longleftrightarrow> first_error cs = None \<and> first_error ds = None"
  by (auto simp: first_error_append split: option.splits)

lemma first_error_concat: "first_error (concat css) = None \<longleftrightarrow> (\<forall>cs \<in> set css. first_error cs = None)"
  by (induction css) (auto simp: first_error_pair)

lemma object_checks_pass:
  "first_error (object_checks v keys label) = None \<longleftrightarrow>
     (\<exists>m. v = Some (JObj m) \<and> set (jkeys m) \<subseteq> set keys \<and> (\<forall>k \<in> set keys. jhas m k))"
  by (auto simp: object_checks_def is_plain_object_def obj_of_def split: option.splits json.splits if_splits)

lemma integer_check_pass: "first_error (integer_check v lo hi label) = None \<longleftrightarrow> safe_int lo hi v"
  by (simp add: integer_check_def)

lemmas checks_pass = first_error_pair first_error_concat object_checks_pass integer_check_pass

lemma jget_spread_obj [simp]: "jspread (JObj m) = m"
  by (simp add: jspread_def)

lemma is_object_like_obj [simp]: "is_object_like (JObj m)"
  by (simp add: is_object_like_def)

lemma with_default_present: "has_own k v \<Longrightarrow> with_default k d v = v"
  by (simp add: with_default_def)

lemma with_default_obj: "with_default k d (JObj m) = (if jhas m k then JObj m else JObj (jset k d m))"
  by (simp add: with_default_def has_own_def)

lemma jfield_obj [simp]: "jfield k (JObj m) = jget m k"
  by (simp add: jfield_def)

lemma safe_intD: "safe_int lo hi v \<Longrightarrow> v = Some (JInt (int_of v)) \<and> lo \<le> int_of v \<and> int_of v \<le> hi"
  by (auto simp: safe_int_def int_of_def split: option.splits json.splits)

section \<open>Decimal texts\<close>

lemma dec_digit: "0 \<le> m \<Longrightarrow> m < 10 \<Longrightarrow> int (code (char_of (48 + m))) = 48 + (m :: int)"
proof -
  assume "0 \<le> m" "m < 10"
  have "int (code (char_of (48 + m))) = of_char (char_of (48 + m) :: char)" by (rule code_of_char [symmetric])
  also have "\<dots> = (48 + m) mod 256" by (rule of_char_of)
  finally show ?thesis using \<open>0 \<le> m\<close> \<open>m < 10\<close> by simp
qed

lemma dec_pos_parse: "0 \<le> n \<Longrightarrow> foldl (\<lambda>a c. a * 10 + (int (code c) - 48)) 0 (dec_pos n) = n"
proof (induction n rule: dec_pos.induct)
  case (1 n)
  show ?case
  proof (cases "n < 10")
    case True
    then show ?thesis using 1 dec_digit [of n] by (simp add: dec_pos.simps)
  next
    case False
    then show ?thesis using 1 dec_digit [of "n mod 10"] by (subst dec_pos.simps) simp
  qed
qed

lemma dec_inj: "0 \<le> m \<Longrightarrow> 0 \<le> n \<Longrightarrow> dec m = dec n \<longleftrightarrow> m = n"
  using dec_pos_parse unfolding dec_def by (metis not_less)

lemma dec_pos_small: "0 \<le> n \<Longrightarrow> n < 10 ^ k \<Longrightarrow> 0 < k \<Longrightarrow> length (dec_pos n) \<le> k"
proof (induction n arbitrary: k rule: dec_pos.induct)
  case (1 n)
  show ?case
  proof (cases "n < 10")
    case True
    then show ?thesis using 1 by (simp add: dec_pos.simps)
  next
    case False
    then have "k \<noteq> 1" using 1(3) by auto
    then obtain j where k: "k = Suc j" "0 < j" using 1(4) by (cases k) auto
    then have "length (dec_pos (n div 10)) \<le> j" using 1 False by (intro 1) auto
    then show ?thesis using k by (subst dec_pos.simps) simp
  qed
qed

lemma dec_pos_digits: "0 \<le> n \<Longrightarrow> list_all is_digit (dec_pos n)"
proof (induction n rule: dec_pos.induct)
  case (1 n)
  have d: "is_digit (char_of (48 + m))" if "0 \<le> m" "m < 10" for m :: int
    using dec_digit [OF that] that by (simp add: is_digit_def)
  show ?case using 1 d [of n] d [of "n mod 10"] by (subst dec_pos.simps) simp
qed

end
