(* ===== verification/StreamHealth.thy ===== *)
theory StreamHealth
  imports Json Complex_Main
begin

text \<open>
  What the host is told of a stream: \<^verbatim>\<open>apps/server/src/recovery.mjs\<close> (when a viewer's counters ask for a keyframe),
  \<^verbatim>\<open>diagnostics.mjs\<close> (the samples that are kept), \<^verbatim>\<open>media-sample.mjs\<close>, \<^verbatim>\<open>session-stability.mjs\<close> (the
  events of the last minute) and \<^verbatim>\<open>host-status.mjs\<close> (the row of a session). A sample is the map of its fields that are
  finite numbers; the sources treat a field that is none as missing. Times are numbers too.
\<close>

type_synonym sample = "(string, rat) jmap"

section \<open>Recovery\<close>

record recovery =
  rv_previous :: "(int option \<times> int option) option"
  rv_last :: "int option"

definition new_recovery :: recovery where
  "new_recovery = \<lparr>rv_previous = None, rv_last = None\<rparr>"

definition RECOVERY_MS :: int where "RECOVERY_MS = 3000"

text \<open>\<^verbatim>\<open>Number.isSafeInteger(value) && value >= 0 ? value : null\<close>.\<close>

definition counter_of :: "string \<Rightarrow> sample \<Rightarrow> int option" where
  "counter_of name sample =
     (case jget sample name of
        None \<Rightarrow> None
      | Some v \<Rightarrow> if rat_of_int \<lfloor>v\<rfloor> = v \<and> 0 \<le> v \<and> \<lfloor>v\<rfloor> \<le> MAX_SAFE_INTEGER then Some \<lfloor>v\<rfloor> else None)"

definition counter_rose :: "int option \<Rightarrow> int option \<Rightarrow> bool" where
  "counter_rose before now = (case (before, now) of (Some b, Some n) \<Rightarrow> b < n | _ \<Rightarrow> False)"

definition observe :: "sample \<Rightarrow> int \<Rightarrow> recovery \<Rightarrow> bool \<times> recovery" where
  "observe sample now r =
     (let current = (counter_of ''pliCount'' sample, counter_of ''firCount'' sample);
          increased = (case rv_previous r of
                         None \<Rightarrow> False
                       | Some previous \<Rightarrow> counter_rose (fst previous) (fst current) \<or> counter_rose (snd previous) (snd current));
          r = r\<lparr>rv_previous := Some current\<rparr>
      in if \<not> increased \<or> (case rv_last r of None \<Rightarrow> False | Some before \<Rightarrow> now - before < RECOVERY_MS) then (False, r)
         else (True, r\<lparr>rv_last := Some now\<rparr>))"

text \<open>The times at which a recovery asked for a keyframe.\<close>

fun asked :: "recovery \<Rightarrow> (int \<times> sample) list \<Rightarrow> int list" where
  "asked r [] = []"
| "asked r ((now, sample) # es) =
     (if fst (observe sample now r) then now # asked (snd (observe sample now r)) es else asked (snd (observe sample now r)) es)"

section \<open>Diagnostics\<close>

definition SERVER_FIELDS :: "string list" where
  "SERVER_FIELDS =
     [''elapsedMs'', ''captureFrames'', ''encoderInputFrames'', ''encodedFrames'', ''encodedBytes'', ''captureFps'', ''encodeFps'',
      ''encodedMbps'', ''maxFrameBytes'', ''captureGapMaxMs'', ''pendingFrames'', ''encodeMeanMs'', ''encodeMaxMs'', ''qosEvents'',
      ''qosDroppedMax'', ''audioCaptureBuffers'', ''audioEncodedPackets'', ''audioEncodedBytes'', ''forceKeyUnitEvents'',
      ''encodedKeyframes'', ''spsProfile'', ''spsLevel'', ''videoRtpPackets'', ''videoRtpBytes'', ''videoRtpPeak1msBytes'',
      ''videoRtpPeak10msBytes'', ''videoRtpWindowTruncated'', ''iceInputPackets'', ''iceInputBytes'', ''iceInputPeak1msBytes'',
      ''iceInputPeak10msBytes'', ''iceInputWindowTruncated'', ''rtxSenders'', ''rtxRequests'', ''rtxPackets'',
      ''queueMaxBytesSampled'', ''queueMaxMsSampled'']"

definition CLIENT_FIELDS :: "string list" where
  "CLIENT_FIELDS =
     [''receiveMbps'', ''decodeFps'', ''framesReceived'', ''framesDecoded'', ''framesDropped'', ''packetsLost'', ''packetsReceived'',
      ''lostInterval'', ''nackCount'', ''pliCount'', ''firCount'', ''keyFramesDecoded'', ''completeFrameFps'', ''videoPaused'',
      ''videoReadyState'', ''jitterMs'', ''decodeMs'', ''jitterBufferMs'', ''freezeCount'', ''freezeSeconds'', ''rttMs'',
      ''frameWidth'', ''frameHeight'', ''audioPacketsLost'', ''audioPacketsReceived'', ''audioJitterMs'', ''audioConcealedSamples'']"

datatype origin = From_Server | From_Client

record kept_sample =
  ks_origin :: origin
  ks_at :: rat
  ks_values :: sample

record diagnostics =
  dg_limit :: nat
  dg_history :: "kept_sample list"
  dg_server :: "kept_sample option"
  dg_client :: "kept_sample option"
  dg_configuration :: "(string \<times> json) list option"
  dg_pending :: nat
  dg_directory :: bool
  dg_logError :: "string option"

definition new_diagnostics :: "nat \<Rightarrow> bool \<Rightarrow> diagnostics" where
  "new_diagnostics limit directory =
     \<lparr>dg_limit = limit, dg_history = [], dg_server = None, dg_client = None, dg_configuration = None, dg_pending = 0,
      dg_directory = directory, dg_logError = None\<rparr>"

definition LOG_WRITES :: nat where "LOG_WRITES = 8"

definition kept_values :: "origin \<Rightarrow> sample \<Rightarrow> sample" where
  "kept_values source input =
     concat (map (\<lambda>key. case jget input key of
                           Some v \<Rightarrow> if \<bar>v\<bar> < 1000000000000000 then [(key, v)] else []
                         | None \<Rightarrow> [])
       (case source of From_Server \<Rightarrow> SERVER_FIELDS | From_Client \<Rightarrow> CLIENT_FIELDS))"

text \<open>
  An input that is no object, or a source that is none of the two, is refused (\<open>None\<close>). The log is written after
  this call, and its end counts the pending writes down.
\<close>

definition record_sample :: "rat \<Rightarrow> origin option \<Rightarrow> sample option \<Rightarrow> diagnostics \<Rightarrow> bool \<times> diagnostics" where
  "record_sample now source input d =
     (case (source, input) of
        (Some src, Some values) \<Rightarrow>
          (let sample = \<lparr>ks_origin = src, ks_at = now, ks_values = kept_values src values\<rparr>;
               d = (case src of From_Server \<Rightarrow> d\<lparr>dg_server := Some sample\<rparr> | From_Client \<Rightarrow> d\<lparr>dg_client := Some sample\<rparr>);
               history = dg_history d @ [sample];
               d = d\<lparr>dg_history := (if dg_limit d < length history then tl history else history)\<rparr>
           in (True, if dg_directory d \<and> dg_pending d < LOG_WRITES then d\<lparr>dg_pending := dg_pending d + 1\<rparr> else d))
      | _ \<Rightarrow> (False, d))"

definition log_written :: "string option \<Rightarrow> diagnostics \<Rightarrow> diagnostics" where
  "log_written failure d =
     d\<lparr>dg_pending := dg_pending d - 1, dg_logError := (case failure of Some e \<Rightarrow> Some e | None \<Rightarrow> dg_logError d)\<rparr>"

definition reset_diagnostics :: "(string \<times> json) list option \<Rightarrow> diagnostics \<Rightarrow> diagnostics" where
  "reset_diagnostics configuration d =
     d\<lparr>dg_server := None, dg_client := None, dg_history := [], dg_configuration := configuration\<rparr>"

definition setEncoder :: "json option \<Rightarrow> diagnostics \<Rightarrow> diagnostics" where
  "setEncoder encoder d =
     (case dg_configuration d of
        None \<Rightarrow> d
      | Some c \<Rightarrow> d\<lparr>dg_configuration := Some (jset ''encoder'' (case encoder of Some e \<Rightarrow> e | None \<Rightarrow> JNull) c)\<rparr>)"

definition DISPLAY_FIELDS :: "string list" where
  "DISPLAY_FIELDS = [''id'', ''number'', ''name'', ''width'', ''height'', ''x'', ''y'', ''rotation'', ''primary'']"

definition startStream ::
  "(string \<times> json) list \<Rightarrow> string \<Rightarrow> (string \<times> json) list option \<Rightarrow> string option \<Rightarrow> diagnostics \<Rightarrow> diagnostics" where
  "startStream profile audioMode display codec d =
     (let phone = (jget profile ''fps'' = Some (JInt 15))
      in reset_diagnostics (Some
           ([(''profile'', JObj profile),
             (''audio'', JObj [(''enabled'', JBool (audioMode \<noteq> ''off'')), (''codec'', JStr ''Opus''),
                (''channels'', JInt (if phone then 1 else 2)), (''bitrateKbps'', JInt (if phone then 32 else 96))]),
             (''display'', case display of
                None \<Rightarrow> JNull
              | Some d \<Rightarrow> JObj (concat (map (\<lambda>key. case jget d key of Some v \<Rightarrow> [(key, v)] | None \<Rightarrow> []) DISPLAY_FIELDS)))]
            @ (case codec of Some c \<Rightarrow> [(''codec'', JStr c)] | None \<Rightarrow> []) @ [(''encoder'', JNull)])) d)"

record metrics =
  mt_at :: rat
  mt_client :: "kept_sample option"
  mt_clientAge :: "rat option"
  mt_serverAge :: "rat option"
  mt_history :: "kept_sample list"

definition snapshot :: "rat \<Rightarrow> diagnostics \<Rightarrow> metrics" where
  "snapshot now d =
     \<lparr>mt_at = now, mt_client = dg_client d, mt_clientAge = map_option (\<lambda>s. now - ks_at s) (dg_client d),
      mt_serverAge = map_option (\<lambda>s. now - ks_at s) (dg_server d), mt_history = dg_history d\<rparr>"

text \<open>\<^verbatim>\<open>peerSample\<close>: the fields of the source and, over them, those of the peer.\<close>

definition peerSample :: "json \<Rightarrow> string \<Rightarrow> (string \<times> json) list" where
  "peerSample message peerId =
     (let source = jdel ''peers'' (obj_of (Some message));
          own = (case jfield ''peers'' message of Some peers \<Rightarrow> (case jfield peerId peers of Some p \<Rightarrow> jspread p | None \<Rightarrow> []) | None \<Rightarrow> [])
      in fold (\<lambda>(k, v). jset k v) own source)"

section \<open>Stability\<close>

record generated_point =
  gp_at :: rat
  gp_captureFps :: "rat option"
  gp_encodeFps :: "rat option"

record point =
  pt_at :: rat
  pt_interval :: "rat option"
  pt_fps :: "rat option"
  pt_drops :: "rat option"
  pt_freezes :: "rat option"
  pt_recovery :: "rat option"
  pt_lost :: "rat option"
  pt_rtt :: "rat option"
  pt_jitter :: "rat option"

definition valid_value :: "string \<Rightarrow> kept_sample \<Rightarrow> rat option" where
  "valid_value key s = (case jget (ks_values s) key of Some v \<Rightarrow> if 0 \<le> v then Some v else None | None \<Rightarrow> None)"

definition delta :: "kept_sample option \<Rightarrow> kept_sample \<Rightarrow> string \<Rightarrow> rat option" where
  "delta previous s key =
     (case previous of
        None \<Rightarrow> None
      | Some p \<Rightarrow> (case (valid_value key p, valid_value key s) of
                     (Some a, Some b) \<Rightarrow> if a \<le> b then Some (b - a) else None
                   | _ \<Rightarrow> None))"

definition counter_fell :: "kept_sample option \<Rightarrow> kept_sample \<Rightarrow> string \<Rightarrow> bool" where
  "counter_fell previous s key =
     (case previous of
        None \<Rightarrow> False
      | Some p \<Rightarrow> (case (valid_value key p, valid_value key s) of (Some a, Some b) \<Rightarrow> b < a | _ \<Rightarrow> False))"

definition zero_if_missing :: "rat option \<Rightarrow> rat" where
  "zero_if_missing v = (case v of Some x \<Rightarrow> x | None \<Rightarrow> 0)"

definition recovery_count :: "kept_sample option \<Rightarrow> kept_sample \<Rightarrow> rat option" where
  "recovery_count previous s =
     (let pli = delta previous s ''pliCount''; fir = delta previous s ''firCount'';
          reset = (counter_fell previous s ''pliCount'' \<or> counter_fell previous s ''firCount'')
      in if reset \<or> (pli = None \<and> fir = None) then None else Some (zero_if_missing pli + zero_if_missing fir))"

definition point_of :: "kept_sample option \<Rightarrow> kept_sample \<Rightarrow> point" where
  "point_of previous s =
     \<lparr>pt_at = ks_at s, pt_interval = map_option (\<lambda>p. ks_at s - ks_at p) previous, pt_fps = valid_value ''decodeFps'' s,
      pt_drops = delta previous s ''framesDropped'', pt_freezes = delta previous s ''freezeCount'',
      pt_recovery = recovery_count previous s, pt_lost = delta previous s ''packetsLost'',
      pt_rtt = valid_value ''rttMs'' s, pt_jitter = valid_value ''jitterMs'' s\<rparr>"

definition WINDOW_MS :: rat where "WINDOW_MS = 60000"

text \<open>The walk over the samples: the host's points with their last time, the viewer's points with the last sample.\<close>

record walk =
  wl_generated :: "generated_point list"
  wl_serverAt :: "rat option"
  wl_points :: "point list"
  wl_previous :: "kept_sample option"

definition walk_server :: "rat \<Rightarrow> rat \<Rightarrow> kept_sample \<Rightarrow> walk \<Rightarrow> walk" where
  "walk_server until since s w =
     (if ks_origin s = From_Server \<and> since \<le> ks_at s \<and> until - WINDOW_MS \<le> ks_at s \<and> ks_at s \<le> until
         \<and> (case wl_serverAt w of None \<Rightarrow> True | Some t \<Rightarrow> t < ks_at s)
      then w\<lparr>wl_generated := wl_generated w @ [\<lparr>gp_at = ks_at s, gp_captureFps = valid_value ''captureFps'' s,
               gp_encodeFps = valid_value ''encodeFps'' s\<rparr>], wl_serverAt := Some (ks_at s)\<rparr>
      else w)"

definition walk_client :: "rat \<Rightarrow> rat \<Rightarrow> kept_sample \<Rightarrow> walk \<Rightarrow> walk" where
  "walk_client until since s w =
     (if ks_origin s \<noteq> From_Client \<or> ks_at s < since \<or> until < ks_at s
         \<or> (case wl_previous w of None \<Rightarrow> False | Some p \<Rightarrow> ks_at s \<le> ks_at p)
      then w
      else (let w = (if until - WINDOW_MS \<le> ks_at s then w\<lparr>wl_points := wl_points w @ [point_of (wl_previous w) s]\<rparr> else w)
            in w\<lparr>wl_previous := Some s\<rparr>))"

fun walk_samples :: "rat \<Rightarrow> rat \<Rightarrow> kept_sample list \<Rightarrow> walk \<Rightarrow> walk" where
  "walk_samples until since [] w = w"
| "walk_samples until since (s # ss) w = walk_samples until since ss (walk_client until since s (walk_server until since s w))"

definition last_of :: "nat \<Rightarrow> 'a list \<Rightarrow> 'a list" where
  "last_of n xs = drop (length xs - n) xs"

record stability =
  sb_at :: rat
  sb_stale :: bool
  sb_serverStale :: bool
  sb_generated :: "generated_point list"
  sb_points :: "point list"

definition sessionStability :: "rat \<Rightarrow> kept_sample list \<Rightarrow> rat \<Rightarrow> stability" where
  "sessionStability until history since =
     (let w = walk_samples until since (last_of 600 history) \<lparr>wl_generated = [], wl_serverAt = None, wl_points = [], wl_previous = None\<rparr>
      in \<lparr>sb_at = until,
          sb_stale = (case wl_previous w of None \<Rightarrow> True | Some p \<Rightarrow> 5000 \<le> until - ks_at p),
          sb_serverStale = (case wl_serverAt w of None \<Rightarrow> True | Some t \<Rightarrow> 5000 \<le> until - t),
          sb_generated = last_of 76 (wl_generated w), sb_points = last_of 76 (wl_points w)\<rparr>)"

section \<open>The host's row\<close>

definition SMOOTH_SHARE :: rat where "SMOOTH_SHARE = 7 / 10"

text \<open>\<open>fps\<close> is the frame rate of the session's profile; \<^verbatim>\<open>|| 15\<close> replaces a zero too.\<close>

definition health_of :: "bool \<Rightarrow> metrics option \<Rightarrow> rat option \<Rightarrow> string" where
  "health_of active metrics fps =
     (let client = (case metrics of Some m \<Rightarrow> mt_client m | None \<Rightarrow> None);
          fresh = (active \<and> client \<noteq> None
                   \<and> (case metrics of Some m \<Rightarrow> (case mt_clientAge m of Some age \<Rightarrow> age < 5000 | None \<Rightarrow> False) | None \<Rightarrow> False));
          waiting = (if active then ''Waiting for playback'' else ''Connecting'');
          target = (case fps of Some f \<Rightarrow> if f = 0 then 15 else f | None \<Rightarrow> 15)
      in if active \<and> client \<noteq> None \<and> \<not> fresh then ''Status unavailable''
         else if fresh
         then (case client of
                 None \<Rightarrow> waiting
               | Some sample \<Rightarrow>
                   if (case jget (ks_values sample) ''lostInterval'' of Some lost \<Rightarrow> 0 < lost | None \<Rightarrow> False) then ''Connection unstable''
                   else (case jget (ks_values sample) ''decodeFps'' of
                           Some shown \<Rightarrow> if shown < target * SMOOTH_SHARE then ''Playback struggling'' else ''Smooth''
                         | None \<Rightarrow> waiting))
         else waiting)"

section \<open>Lemmas\<close>

lemma observe_True:
  assumes "fst (observe sample now r)"
  shows "rv_last (snd (observe sample now r)) = Some now \<and> (\<forall>before. rv_last r = Some before \<longrightarrow> before + RECOVERY_MS \<le> now)"
  using assms by (auto simp: observe_def Let_def split: if_splits option.splits)

lemma observe_False: "\<not> fst (observe sample now r) \<Longrightarrow> rv_last (snd (observe sample now r)) = rv_last r"
  by (auto simp: observe_def Let_def split: if_splits)

lemma asked_spaced:
  "sorted_wrt (\<lambda>a b. a + RECOVERY_MS \<le> b) (asked r es)
   \<and> (\<forall>t \<in> set (asked r es). \<forall>before. rv_last r = Some before \<longrightarrow> before + RECOVERY_MS \<le> t)"
proof (induction es arbitrary: r)
  case Nil
  then show ?case by simp
next
  case (Cons e es)
  obtain now sample where e: "e = (now, sample)" by fastforce
  show ?case
  proof (cases "fst (observe sample now r)")
    case True
    from Cons.IH [of "snd (observe sample now r)"] observe_True [OF True]
    show ?thesis by (auto simp: e True RECOVERY_MS_def)
  next
    case False
    with Cons.IH [of "snd (observe sample now r)"] observe_False [OF False] show ?thesis by (simp add: e)
  qed
qed

text \<open>The walk keeps its points in order and in the window.\<close>

definition point_ok :: "rat \<Rightarrow> rat \<Rightarrow> point \<Rightarrow> bool" where
  "point_ok until since p \<longleftrightarrow> since \<le> pt_at p \<and> until - WINDOW_MS \<le> pt_at p \<and> pt_at p \<le> until
     \<and> (\<forall>d. pt_interval p = Some d \<longrightarrow> 0 < d)
     \<and> (\<forall>d \<in> {pt_drops p, pt_freezes p, pt_recovery p, pt_lost p}. \<forall>x. d = Some x \<longrightarrow> 0 \<le> x)"

definition walk_ok :: "rat \<Rightarrow> rat \<Rightarrow> walk \<Rightarrow> bool" where
  "walk_ok until since w \<longleftrightarrow>
     sorted_wrt (<) (map pt_at (wl_points w)) \<and> sorted_wrt (<) (map gp_at (wl_generated w))
     \<and> (\<forall>p \<in> set (wl_points w). point_ok until since p \<and> (\<exists>s. wl_previous w = Some s \<and> pt_at p \<le> ks_at s))
     \<and> (\<forall>g \<in> set (wl_generated w). since \<le> gp_at g \<and> until - WINDOW_MS \<le> gp_at g \<and> gp_at g \<le> until
          \<and> (\<exists>t. wl_serverAt w = Some t \<and> gp_at g \<le> t))"

lemma delta_nonneg: "delta previous s key = Some x \<Longrightarrow> 0 \<le> x"
  by (auto simp: delta_def split: option.splits if_splits)

lemma recovery_nonneg: "recovery_count previous s = Some x \<Longrightarrow> 0 \<le> x"
  using delta_nonneg [of previous s "''pliCount''"] delta_nonneg [of previous s "''firCount''"]
  by (auto simp: recovery_count_def zero_if_missing_def Let_def split: option.splits if_splits)

lemma walk_server_ok: "walk_ok until since w \<Longrightarrow> walk_ok until since (walk_server until since s w)"
  by (fastforce simp: walk_ok_def walk_server_def sorted_wrt_append split: option.splits)

lemma point_of_ok:
  assumes "since \<le> ks_at s" "until - WINDOW_MS \<le> ks_at s" "ks_at s \<le> until" "\<forall>p. previous = Some p \<longrightarrow> ks_at p < ks_at s"
  shows "point_ok until since (point_of previous s)"
  using assms delta_nonneg recovery_nonneg by (auto simp: point_ok_def point_of_def)

lemma walk_client_ok:
  assumes "walk_ok until since w"
  shows "walk_ok until since (walk_client until since s w)"
proof (cases "ks_origin s \<noteq> From_Client \<or> ks_at s < since \<or> until < ks_at s
    \<or> (case wl_previous w of None \<Rightarrow> False | Some p \<Rightarrow> ks_at s \<le> ks_at p)")
  case True
  with assms show ?thesis by (simp add: walk_client_def)
next
  case False
  then have later: "\<forall>p. wl_previous w = Some p \<longrightarrow> ks_at p < ks_at s" and range: "since \<le> ks_at s" "ks_at s \<le> until" by auto
  show ?thesis
  proof (cases "until - WINDOW_MS \<le> ks_at s")
    case inside: True
    have "point_ok until since (point_of (wl_previous w) s)" by (rule point_of_ok [OF range(1) inside range(2) later])
    with assms later False inside show ?thesis
      by (fastforce simp: walk_client_def walk_ok_def sorted_wrt_append point_of_def)
  next
    case outside: False
    from assms later have "\<forall>p \<in> set (wl_points w). pt_at p \<le> ks_at s" by (fastforce simp: walk_ok_def)
    with assms False outside show ?thesis by (simp add: walk_client_def walk_ok_def)
  qed
qed

lemma walk_samples_ok: "walk_ok until since w \<Longrightarrow> walk_ok until since (walk_samples until since ss w)"
  by (induction ss arbitrary: w) (simp_all add: walk_server_ok walk_client_ok)

lemma sorted_wrt_drop: "sorted_wrt R xs \<Longrightarrow> sorted_wrt R (drop n xs)"
  by (metis append_take_drop_id sorted_wrt_append)

lemma stability_points:
  "sorted_wrt (<) (map pt_at (sb_points (sessionStability until history since)))
   \<and> length (sb_points (sessionStability until history since)) \<le> 76
   \<and> list_all (point_ok until since) (sb_points (sessionStability until history since))"
proof -
  let ?w = "walk_samples until since (last_of 600 history) \<lparr>wl_generated = [], wl_serverAt = None, wl_points = [], wl_previous = None\<rparr>"
  have "walk_ok until since ?w" by (rule walk_samples_ok) (simp add: walk_ok_def)
  then show ?thesis
    by (auto simp: sessionStability_def Let_def last_of_def walk_ok_def list_all_iff drop_map intro: sorted_wrt_drop dest: in_set_dropD
        simp flip: drop_map)
qed

lemma history_bounded:
  "length (dg_history d) \<le> dg_limit d \<Longrightarrow> length (dg_history (snd (record_sample now src input d))) \<le> dg_limit d"
  by (auto simp: record_sample_def Let_def split: option.splits origin.splits)

end
