(* ===== verification/NativeMedia.thy ===== *)
theory NativeMedia
  imports StreamHealth
begin

text \<open>
  \<^verbatim>\<open>apps/server/src/native-media.mjs\<close>: the worker processes, one for each source, their peers, and the calls that
  wait for a worker's answer. A promise is a number; its settling is kept in order, and a second settling is
  without effect, as in JavaScript. A launched process is a number too; what is written to it, the callbacks and the
  processes killed are kept. Lines of a worker are read by \<open>parse\<close> (\<^verbatim>\<open>JSON.parse\<close>, \<open>None\<close> where it throws). The
  log lines are left out: they go to the console and nothing reads them.
\<close>

section \<open>State\<close>

datatype peer_entry = Negotiating nat | Peer_Live | Removing nat

datatype settled = Fulfilled | Text_Value string | Flag_Value bool | Failed_With string

record encoder =
  en_backend :: string
  en_label :: json
  en_element :: json
  en_reason :: json

record worker =
  wk_launch :: nat
  wk_video :: bool
  wk_stderr :: string
  wk_stopping :: bool
  wk_broken :: bool
  wk_peers :: "(string, peer_entry) jmap"
  wk_permission :: "(nat \<times> nat) option"
  wk_keyframe :: "int option"
  wk_ready :: nat
  wk_closed :: nat
  wk_checks :: "(string, nat) jmap"
  wk_encoder :: "encoder option"
  wk_input :: "string option"
  wk_recovery :: "recovery option"

record native =
  nm_workers :: "(string, worker) jmap"
  nm_max :: nat
  nm_hostControl :: bool
  nm_sequence :: nat
  nm_launched :: nat
  nm_promises :: nat
  nm_settled :: "(nat \<times> settled) list"
  nm_sent :: "(nat \<times> json) list"
  nm_exits :: "(string \<times> bool) list"
  nm_failed :: "(string \<times> string \<times> string) list"
  nm_metrics :: "(string \<times> json) list"
  nm_keyframes :: "(nat \<times> int) list"
  nm_killed :: "nat list"
  nm_threw :: bool

definition new_media :: "int \<Rightarrow> bool \<Rightarrow> native result" where
  "new_media maxWorkers hostControl =
     (if maxWorkers < 1 \<or> 64 < maxWorkers then Inl ''Invalid worker limit''
      else Inr \<lparr>nm_workers = [], nm_max = nat maxWorkers, nm_hostControl = hostControl, nm_sequence = 0, nm_launched = 0,
                nm_promises = 0, nm_settled = [], nm_sent = [], nm_exits = [], nm_failed = [], nm_metrics = [],
                nm_keyframes = [], nm_killed = [], nm_threw = False\<rparr>)"

definition iceBindEnvironment :: "string option \<Rightarrow> (string \<times> string) list result" where
  "iceBindEnvironment bind =
     (case bind of
        None \<Rightarrow> Inr []
      | Some b \<Rightarrow> if b = ''loopback'' then Inr [(''VIDVNC_ICE_BIND'', b)] else Inl ''Invalid ICE bind'')"

section \<open>Promises and pipes\<close>

definition settle_call :: "nat \<Rightarrow> settled \<Rightarrow> native \<Rightarrow> native" where
  "settle_call p v s = (if p \<in> fst ` set (nm_settled s) then s else s\<lparr>nm_settled := nm_settled s @ [(p, v)]\<rparr>)"

fun settle_calls :: "nat list \<Rightarrow> settled \<Rightarrow> native \<Rightarrow> native" where
  "settle_calls [] v s = s"
| "settle_calls (p # ps) v s = settle_calls ps v (settle_call p v s)"

text \<open>A new promise that is settled at once.\<close>

definition answered :: "settled \<Rightarrow> native \<Rightarrow> nat \<times> native" where
  "answered v s = (nm_promises s, settle_call (nm_promises s) v (s\<lparr>nm_promises := nm_promises s + 1\<rparr>))"

definition put_worker :: "string \<Rightarrow> worker \<Rightarrow> native \<Rightarrow> native" where
  "put_worker sourceId w s = s\<lparr>nm_workers := jset sourceId w (nm_workers s)\<rparr>"

text \<open>What is written to a broken pipe reaches nobody.\<close>

definition write_worker :: "worker \<Rightarrow> (string \<times> json) list \<Rightarrow> native \<Rightarrow> native" where
  "write_worker w message s = (if wk_broken w then s else s\<lparr>nm_sent := nm_sent s @ [(wk_launch w, JObj message)]\<rparr>)"

definition accepts_calls :: "worker \<Rightarrow> bool" where
  "accepts_calls w \<longleftrightarrow> \<not> wk_stopping w \<and> \<not> wk_broken w"

definition worker_of :: "nat \<Rightarrow> native \<Rightarrow> (string \<times> worker) option" where
  "worker_of c s = find (\<lambda>(_, w). wk_launch w = c) (nm_workers s)"

section \<open>Starting\<close>

record start_options =
  so_video :: bool
  so_profile :: "(string \<times> json) list"
  so_display :: json
  so_audioFormat :: "string option"
  so_codec :: "string option"
  so_encoderBackend :: "string option"

definition field_given :: "string \<Rightarrow> json option \<Rightarrow> (string \<times> json) list" where
  "field_given key v = (case v of Some x \<Rightarrow> [(key, x)] | None \<Rightarrow> [])"

text \<open>\<^verbatim>\<open>value ?? fallback\<close>.\<close>

definition or_else :: "json option \<Rightarrow> json \<Rightarrow> json" where
  "or_else v fallback = (case v of None \<Rightarrow> fallback | Some x \<Rightarrow> if x = JNull then fallback else x)"

definition streamPlan :: "(string \<times> json) list \<Rightarrow> json" where
  "streamPlan profile =
     JObj (field_given ''width'' (jget profile ''width'') @ field_given ''height'' (jget profile ''height'') @ field_given ''fps'' (jget profile ''fps'')
       @ field_given ''bitrateKbps'' (jget profile ''bitrateKbps'')
       @ [(''mtu'', JInt 1200), (''bitrateMode'', or_else (jget profile ''bitrateMode'') (JStr ''cbr'')),
          (''quality'', or_else (jget profile ''quality'') (JStr ''balanced''))]
       @ (if truthy_field (jget profile ''stretch'') then [(''stretch'', JBool True)] else []))"

definition start_message :: "bool \<Rightarrow> start_options \<Rightarrow> (string \<times> json) list" where
  "start_message hostControl o1 =
     [(''type'', JStr ''start''), (''video'', JBool (so_video o1)), (''hostControl'', JBool hostControl)]
     @ (if so_video o1
        then [(''profile'', if truthy_field (jget (so_profile o1) ''name'') then the (jget (so_profile o1) ''name'') else JStr ''desktop'')]
        else [])
     @ (if \<not> so_video o1 \<or> jget (so_profile o1) ''width'' = None then [] else [(''streamPlan'', streamPlan (so_profile o1))])
     @ (if so_video o1 \<and> truthy (so_display o1) then [(''display'', so_display o1)] else [])
     @ (if so_video o1 then field_given ''encoderBackend'' (map_option JStr (so_encoderBackend o1)) else [])
     @ field_given ''audioFormat'' (map_option JStr (so_audioFormat o1))
     @ (if so_video o1 then field_given ''codec'' (map_option JStr (so_codec o1)) else [])"

text \<open>Every operation that returns a promise gives its number.\<close>

definition start_worker :: "string \<Rightarrow> start_options \<Rightarrow> native \<Rightarrow> nat \<times> native" where
  "start_worker sourceId o1 s =
     (if jhas (nm_workers s) sourceId then answered (Failed_With ''This stream already has a worker.'') s
      else if nm_max s \<le> length (nm_workers s) then answered (Failed_With ''Media capacity reached.'') s
      else (let closed = nm_promises s; ready = nm_promises s + 1;
                w = \<lparr>wk_launch = nm_launched s, wk_video = so_video o1, wk_stderr = [], wk_stopping = False, wk_broken = False,
                     wk_peers = [], wk_permission = None, wk_keyframe = None, wk_ready = ready, wk_closed = closed,
                     wk_checks = [], wk_encoder = None, wk_input = None, wk_recovery = None\<rparr>
            in (ready, write_worker w (start_message (nm_hostControl s) o1)
                  (put_worker sourceId w (s\<lparr>nm_launched := nm_launched s + 1, nm_promises := nm_promises s + 2\<rparr>)))))"

section \<open>Calls\<close>

definition addPeer :: "string \<Rightarrow> string \<Rightarrow> string \<Rightarrow> native \<Rightarrow> nat \<times> native" where
  "addPeer sourceId peerId sdp s =
     (case jget (nm_workers s) sourceId of
        None \<Rightarrow> answered (Failed_With ''Native media worker stopped.'') s
      | Some w \<Rightarrow>
          if \<not> accepts_calls w then answered (Failed_With ''Native media worker stopped.'') s
          else if jhas (wk_peers w) peerId then answered (Failed_With ''This stream already has a peer.'') s
          else (let p = nm_promises s; w = w\<lparr>wk_peers := jset peerId (Negotiating p) (wk_peers w)\<rparr>
                in (p, write_worker w [(''type'', JStr ''add-peer''), (''peerId'', JStr peerId), (''sdp'', JStr sdp)]
                        (put_worker sourceId w (s\<lparr>nm_promises := p + 1\<rparr>)))))"

definition check_key :: "string \<Rightarrow> string \<Rightarrow> string" where
  "check_key peerId port = peerId @ ''|'' @ port"

definition checkPort :: "string \<Rightarrow> string \<Rightarrow> int \<Rightarrow> native \<Rightarrow> nat \<times> native" where
  "checkPort sourceId peerId port s =
     (case jget (nm_workers s) sourceId of
        None \<Rightarrow> answered (Flag_Value False) s
      | Some w \<Rightarrow>
          if \<not> accepts_calls w then answered (Flag_Value False) s
          else (let key = check_key peerId (dec port)
                in if jhas (wk_checks w) key then answered (Flag_Value False) s
                   else (let p = nm_promises s; w = w\<lparr>wk_checks := jset key p (wk_checks w)\<rparr>
                         in (p, write_worker w [(''type'', JStr ''check-port''), (''peerId'', JStr peerId), (''port'', JInt port)]
                                 (put_worker sourceId w (s\<lparr>nm_promises := p + 1\<rparr>))))))"

text \<open>A stop is asked once; the worker's end is the answer.\<close>

definition stop_worker :: "string \<Rightarrow> native \<Rightarrow> nat \<times> native" where
  "stop_worker sourceId s =
     (case jget (nm_workers s) sourceId of
        None \<Rightarrow> answered Fulfilled s
      | Some w \<Rightarrow>
          if wk_stopping w then (wk_closed w, s)
          else (wk_closed w, write_worker w [(''type'', JStr ''stop'')] (put_worker sourceId (w\<lparr>wk_stopping := True\<rparr>) s)))"

fun stop_all :: "string list \<Rightarrow> native \<Rightarrow> native" where
  "stop_all [] s = s"
| "stop_all (i # ids) s = stop_all ids (snd (stop_worker i s))"

definition shutdown_media :: "native \<Rightarrow> native" where
  "shutdown_media s = stop_all (jkeys (nm_workers s)) s"

text \<open>A peer that still negotiates is told first.\<close>

definition fail_peer :: "string \<Rightarrow> string \<Rightarrow> string \<Rightarrow> native \<Rightarrow> native" where
  "fail_peer sourceId peerId reason s =
     (case jget (nm_workers s) sourceId of
        None \<Rightarrow> s
      | Some w \<Rightarrow>
          (case jget (wk_peers w) peerId of
             Some (Negotiating p) \<Rightarrow>
               settle_call p (Failed_With reason) (put_worker sourceId (w\<lparr>wk_peers := jdel peerId (wk_peers w)\<rparr>) s)
           | _ \<Rightarrow> s))"

definition mark_removing :: "string \<Rightarrow> string \<Rightarrow> native \<Rightarrow> nat \<times> native" where
  "mark_removing sourceId peerId s =
     (case jget (nm_workers s) sourceId of
        None \<Rightarrow> answered Fulfilled s
      | Some w \<Rightarrow>
          (let p = nm_promises s; w = w\<lparr>wk_peers := jset peerId (Removing p) (wk_peers w)\<rparr>
           in (p, write_worker w [(''type'', JStr ''remove-peer''), (''peerId'', JStr peerId)]
                   (put_worker sourceId w (s\<lparr>nm_promises := p + 1\<rparr>)))))"

definition removePeer :: "string \<Rightarrow> string \<Rightarrow> native \<Rightarrow> nat \<times> native" where
  "removePeer sourceId peerId s =
     (case jget (nm_workers s) sourceId of
        None \<Rightarrow> answered Fulfilled s
      | Some w \<Rightarrow>
          if wk_stopping w then (wk_closed w, s)
          else (case jget (wk_peers w) peerId of
                  Some (Removing p) \<Rightarrow> (p, s)
                | _ \<Rightarrow> mark_removing sourceId peerId (fail_peer sourceId peerId ''Peer removed'' s)))"

definition setPermission :: "string \<Rightarrow> string \<Rightarrow> bool \<Rightarrow> native \<Rightarrow> nat \<times> native" where
  "setPermission sourceId peerId allowed s =
     (case (if nm_hostControl s then jget (nm_workers s) sourceId else None) of
        None \<Rightarrow> answered (Failed_With ''Inactive control worker'') s
      | Some w \<Rightarrow>
          if \<not> accepts_calls w then answered (Failed_With ''Inactive control worker'') s
          else if wk_permission w \<noteq> None then answered (Failed_With ''Control change already pending'') s
          else (let requestId = nm_sequence s + 1; p = nm_promises s; w = w\<lparr>wk_permission := Some (requestId, p)\<rparr>
                in (p, write_worker w [(''type'', JStr ''control-permission''), (''peerId'', JStr peerId),
                            (''requestId'', JInt (int requestId)), (''allowed'', JBool allowed), (''leaseMs'', JInt 5000)]
                        (put_worker sourceId w (s\<lparr>nm_sequence := requestId, nm_promises := p + 1\<rparr>)))))"

definition KEYFRAME_MS :: int where "KEYFRAME_MS = 2000"

definition keyframe :: "int \<Rightarrow> string \<Rightarrow> native \<Rightarrow> bool \<times> native" where
  "keyframe now sourceId s =
     (case jget (nm_workers s) sourceId of
        None \<Rightarrow> (False, s)
      | Some w \<Rightarrow>
          if \<not> accepts_calls w then (False, s)
          else if (case wk_keyframe w of None \<Rightarrow> False | Some before \<Rightarrow> now - before < KEYFRAME_MS) then (False, s)
          else (True, write_worker w [(''type'', JStr ''keyframe'')]
                  (put_worker sourceId (w\<lparr>wk_keyframe := Some now\<rparr>)
                    (s\<lparr>nm_keyframes := nm_keyframes s @ [(wk_launch w, now)]\<rparr>))))"

definition encoder_of :: "string \<Rightarrow> native \<Rightarrow> encoder option" where
  "encoder_of sourceId s = (case jget (nm_workers s) sourceId of None \<Rightarrow> None | Some w \<Rightarrow> wk_encoder w)"

definition inputUnavailable :: "string \<Rightarrow> native \<Rightarrow> string option" where
  "inputUnavailable sourceId s = (case jget (nm_workers s) sourceId of None \<Rightarrow> None | Some w \<Rightarrow> wk_input w)"

text \<open>
  The route of one peer: an offer starts its own worker, which keeps its own recovery. What follows are calls
  of \<open>addPeer\<close> once the worker is ready, and of \<open>stop_worker\<close> after a failure.
\<close>

definition begin_offer :: "string \<Rightarrow> start_options \<Rightarrow> native \<Rightarrow> nat \<times> native" where
  "begin_offer sourceId o1 s =
     (let (p, t) = start_worker sourceId o1 s
      in case jget (nm_workers t) sourceId of
           None \<Rightarrow> (p, t)
         | Some w \<Rightarrow> if jhas (nm_workers s) sourceId then (p, t) else (p, put_worker sourceId (w\<lparr>wk_recovery := Some new_recovery\<rparr>) t))"

definition receiverFeedback :: "sample \<Rightarrow> int \<Rightarrow> string \<Rightarrow> native \<Rightarrow> native" where
  "receiverFeedback sample now sourceId s =
     (case jget (nm_workers s) sourceId of
        None \<Rightarrow> s
      | Some w \<Rightarrow>
          (case wk_recovery w of
             None \<Rightarrow> s
           | Some r \<Rightarrow>
               if wk_stopping w then s
               else (let (keyframe_due, r) = observe sample now r; s = put_worker sourceId (w\<lparr>wk_recovery := Some r\<rparr>) s
                     in if keyframe_due then snd (keyframe now sourceId s) else s)))"

section \<open>Messages of a worker\<close>

definition peer_of :: "worker \<Rightarrow> json \<Rightarrow> peer_entry option" where
  "peer_of w message = (if is_str (jfield ''peerId'' message) then jget (wk_peers w) (str_of (jfield ''peerId'' message)) else None)"

text \<open>
  With no permission asked for, a result without a \<^verbatim>\<open>requestId\<close> matches it (both are undefined), and resolving nothing throws.
\<close>

definition on_control_result :: "string \<Rightarrow> worker \<Rightarrow> json \<Rightarrow> native \<Rightarrow> native" where
  "on_control_result sourceId w message s =
     (case jfield ''allowed'' message of
        Some (JBool allowed) \<Rightarrow>
          (case wk_permission w of
             Some (r, p) \<Rightarrow>
               if jfield ''requestId'' message = Some (JInt (int r))
               then settle_call p (Flag_Value allowed) (put_worker sourceId (w\<lparr>wk_permission := None\<rparr>) s)
               else s
           | None \<Rightarrow> if jfield ''requestId'' message = None then s\<lparr>nm_threw := True\<rparr> else s)
      | _ \<Rightarrow> s)"

definition on_input_unavailable :: "string \<Rightarrow> worker \<Rightarrow> json \<Rightarrow> native \<Rightarrow> native" where
  "on_input_unavailable sourceId w message s =
     (let reason = str_of (jfield ''reason'' message)
      in put_worker sourceId (w\<lparr>wk_input := Some (if reason \<noteq> [] then take 512 reason
            else ''Remote control is unavailable on this computer.'')\<rparr>) s)"

definition on_ready :: "string \<Rightarrow> worker \<Rightarrow> json \<Rightarrow> native \<Rightarrow> native" where
  "on_ready sourceId w message s =
     (let backend = jfield ''encoderBackend'' message;
          w = (if is_str backend
               then w\<lparr>wk_encoder := Some \<lparr>en_backend = str_of backend, en_label = or_else (jfield ''encoderLabel'' message) (the backend),
                      en_element = or_else (jfield ''encoder'' message) JNull, en_reason = or_else (jfield ''encoderReason'' message) JNull\<rparr>\<rparr>
               else w)
      in settle_call (wk_ready w) Fulfilled (put_worker sourceId w s))"

definition on_answer_sdp :: "string \<Rightarrow> worker \<Rightarrow> json \<Rightarrow> native \<Rightarrow> native" where
  "on_answer_sdp sourceId w message s =
     (case (peer_of w message, jfield ''sdp'' message) of
        (Some (Negotiating p), Some (JStr sdp)) \<Rightarrow>
          settle_call p (Text_Value sdp)
            (put_worker sourceId (w\<lparr>wk_peers := jset (str_of (jfield ''peerId'' message)) Peer_Live (wk_peers w)\<rparr>) s)
      | _ \<Rightarrow> s)"

definition on_peer_failed :: "string \<Rightarrow> worker \<Rightarrow> json \<Rightarrow> native \<Rightarrow> native" where
  "on_peer_failed sourceId w message s =
     (let peerId = str_of (jfield ''peerId'' message);
          reason = (case jfield ''reason'' message of Some (JStr r) \<Rightarrow> r | _ \<Rightarrow> ''WebRTC peer failed.'')
      in case peer_of w message of
           Some (Negotiating p) \<Rightarrow> fail_peer sourceId peerId reason s
         | Some Peer_Live \<Rightarrow>
             (let s = put_worker sourceId (w\<lparr>wk_peers := jdel peerId (wk_peers w)\<rparr>) s
              in if wk_recovery w \<noteq> None then snd (stop_worker sourceId s)
                 else s\<lparr>nm_failed := nm_failed s @ [(sourceId, peerId, reason)]\<rparr>)
         | _ \<Rightarrow> s)"

definition on_peer_closed :: "string \<Rightarrow> worker \<Rightarrow> json \<Rightarrow> native \<Rightarrow> native" where
  "on_peer_closed sourceId w message s =
     (case peer_of w message of
        Some (Removing p) \<Rightarrow>
          settle_call p Fulfilled (put_worker sourceId (w\<lparr>wk_peers := jdel (str_of (jfield ''peerId'' message)) (wk_peers w)\<rparr>) s)
      | _ \<Rightarrow> s)"

definition on_port_owned :: "string \<Rightarrow> worker \<Rightarrow> json \<Rightarrow> native \<Rightarrow> native" where
  "on_port_owned sourceId w message s =
     (let key = check_key (show_field ''peerId'' message) (show_field ''port'' message)
      in case (jfield ''owned'' message, jget (wk_checks w) key) of
           (Some (JBool owned), Some p) \<Rightarrow>
             settle_call p (Flag_Value owned) (put_worker sourceId (w\<lparr>wk_checks := jdel key (wk_checks w)\<rparr>) s)
         | _ \<Rightarrow> s)"

text \<open>\<^verbatim>\<open>null\<close> is a JSON text, and reading its \<^verbatim>\<open>peerId\<close> throws in the event handler.\<close>

definition worker_message :: "string \<Rightarrow> worker \<Rightarrow> json \<Rightarrow> native \<Rightarrow> native" where
  "worker_message sourceId w message s =
     (let ty = str_of (jfield ''type'' message)
      in if message = JNull then s\<lparr>nm_threw := True\<rparr>
         else if ty = ''control-result'' then on_control_result sourceId w message s
         else if ty = ''input-unavailable'' then on_input_unavailable sourceId w message s
         else if ty = ''ready'' then on_ready sourceId w message s
         else if ty = ''answer'' then on_answer_sdp sourceId w message s
         else if ty = ''peer-failed'' then on_peer_failed sourceId w message s
         else if ty = ''peer-closed'' then on_peer_closed sourceId w message s
         else if ty = ''port-owned'' then on_port_owned sourceId w message s
         else if ty = ''metrics'' then s\<lparr>nm_metrics := nm_metrics s @ [(sourceId, message)]\<rparr>
         else s)"

definition worker_line :: "(string \<Rightarrow> json option) \<Rightarrow> nat \<Rightarrow> string \<Rightarrow> native \<Rightarrow> native" where
  "worker_line parse c line s =
     (case worker_of c s of
        None \<Rightarrow> s
      | Some (sourceId, w) \<Rightarrow> (case parse line of None \<Rightarrow> s | Some message \<Rightarrow> worker_message sourceId w message s))"

section \<open>A worker's end\<close>

fun negotiating_of :: "(string, peer_entry) jmap \<Rightarrow> nat list" where
  "negotiating_of [] = []"
| "negotiating_of ((_, Negotiating p) # m) = p # negotiating_of m"
| "negotiating_of (_ # m) = negotiating_of m"

fun end_peers :: "(string, peer_entry) jmap \<Rightarrow> string \<Rightarrow> native \<Rightarrow> native" where
  "end_peers [] reason s = s"
| "end_peers ((_, Negotiating p) # m) reason s = end_peers m reason (settle_call p (Failed_With reason) s)"
| "end_peers ((_, Removing p) # m) reason s = end_peers m reason (settle_call p Fulfilled s)"
| "end_peers ((_, Peer_Live) # m) reason s = end_peers m reason s"

definition is_negotiating :: "peer_entry \<Rightarrow> bool" where
  "is_negotiating e = (case e of Negotiating _ \<Rightarrow> True | _ \<Rightarrow> False)"

definition worker_stderr :: "nat \<Rightarrow> string \<Rightarrow> native \<Rightarrow> native" where
  "worker_stderr c chunk s =
     (case worker_of c s of
        None \<Rightarrow> s
      | Some (sourceId, w) \<Rightarrow>
          (let whole = wk_stderr w @ chunk
           in put_worker sourceId (w\<lparr>wk_stderr := drop (length whole - 4096) whole\<rparr>) s))"

definition worker_error :: "nat \<Rightarrow> string \<Rightarrow> native \<Rightarrow> native" where
  "worker_error c reason s =
     (case worker_of c s of
        None \<Rightarrow> s
      | Some (sourceId, w) \<Rightarrow>
          settle_calls (wk_ready w # negotiating_of (wk_peers w)) (Failed_With reason)
            (put_worker sourceId (w\<lparr>wk_peers := jkeep (\<lambda>_ e. \<not> is_negotiating e) (wk_peers w)\<rparr>) s))"

definition worker_close :: "nat \<Rightarrow> native \<Rightarrow> native" where
  "worker_close c s =
     (case worker_of c s of
        None \<Rightarrow> s
      | Some (sourceId, w) \<Rightarrow>
          (let reason = (if js_trim (wk_stderr w) \<noteq> [] then js_trim (wk_stderr w) else ''Native media worker stopped.'');
               s = (case wk_permission w of Some (r, p) \<Rightarrow> settle_call p (Failed_With ''Control worker exited'') s | None \<Rightarrow> s);
               s = s\<lparr>nm_workers := jdel sourceId (nm_workers s)\<rparr>;
               s = end_peers (wk_peers w) reason (settle_call (wk_ready w) (Failed_With reason) s);
               s = settle_call (wk_closed w) Fulfilled s;
               s = s\<lparr>nm_exits := nm_exits s @ [(sourceId, wk_stopping w)]\<rparr>
           in settle_calls (jvals (wk_checks w)) (Flag_Value False) s))"

definition pipe_broken :: "nat \<Rightarrow> native \<Rightarrow> native" where
  "pipe_broken c s =
     (case worker_of c s of None \<Rightarrow> s | Some (sourceId, w) \<Rightarrow> put_worker sourceId (w\<lparr>wk_broken := True\<rparr>) s)"

section \<open>Timers\<close>

text \<open>A timer that has been cleared does not fire: it fires while its call still waits.\<close>

definition negotiation_timer :: "string \<Rightarrow> string \<Rightarrow> nat \<Rightarrow> native \<Rightarrow> native" where
  "negotiation_timer sourceId peerId p s =
     (case jget (nm_workers s) sourceId of
        None \<Rightarrow> s
      | Some w \<Rightarrow>
          if jget (wk_peers w) peerId = Some (Negotiating p)
          then snd (removePeer sourceId peerId (fail_peer sourceId peerId ''WebRTC negotiation timed out.'' s))
          else s)"

definition removal_timer :: "string \<Rightarrow> string \<Rightarrow> nat \<Rightarrow> native \<Rightarrow> native" where
  "removal_timer sourceId peerId p s =
     (case jget (nm_workers s) sourceId of
        None \<Rightarrow> s
      | Some w \<Rightarrow> if jget (wk_peers w) peerId = Some (Removing p) then snd (stop_worker sourceId s) else s)"

definition port_timer :: "string \<Rightarrow> string \<Rightarrow> nat \<Rightarrow> native \<Rightarrow> native" where
  "port_timer sourceId key p s =
     (case jget (nm_workers s) sourceId of
        None \<Rightarrow> s
      | Some w \<Rightarrow>
          if jget (wk_checks w) key = Some p
          then settle_call p (Flag_Value False) (put_worker sourceId (w\<lparr>wk_checks := jdel key (wk_checks w)\<rparr>) s)
          else s)"

text \<open>The time limit of a permission, and a write of it that failed, with its message.\<close>

definition permission_ends :: "string \<Rightarrow> nat \<Rightarrow> string \<Rightarrow> native \<Rightarrow> native" where
  "permission_ends sourceId requestId reason s =
     (case jget (nm_workers s) sourceId of
        None \<Rightarrow> s
      | Some w \<Rightarrow>
          (case wk_permission w of
             Some (r, p) \<Rightarrow>
               if r = requestId then settle_call p (Failed_With reason) (put_worker sourceId (w\<lparr>wk_permission := None\<rparr>) s) else s
           | None \<Rightarrow> s))"

definition kill_timer :: "nat \<Rightarrow> native \<Rightarrow> native" where
  "kill_timer c s =
     (case worker_of c s of None \<Rightarrow> s | Some (_, w) \<Rightarrow> if wk_stopping w then s\<lparr>nm_killed := nm_killed s @ [c]\<rparr> else s)"

section \<open>Events\<close>

datatype media_event =
    Start_Worker string start_options
  | Begin_Offer string start_options
  | Feedback sample string
  | Add_Peer string string string
  | Check_Port string string int
  | Remove_Peer string string
  | Stop_Worker string
  | Shut_Down
  | Set_Permission string string bool
  | Keyframe string
  | Worker_Line nat string
  | Worker_Stderr nat string
  | Worker_Error nat string
  | Worker_Close nat
  | Pipe_Broken nat
  | Negotiation_Timer string string nat
  | Removal_Timer string string nat
  | Port_Timer string string nat
  | Permission_Timer string nat
  | Permission_Write_Failed string nat string
  | Kill_Timer nat

fun media_step :: "(string \<Rightarrow> json option) \<Rightarrow> native \<Rightarrow> int \<times> media_event \<Rightarrow> native" where
  "media_step parse s (now, Start_Worker i o1) = snd (start_worker i o1 s)"
| "media_step parse s (now, Begin_Offer i o1) = snd (begin_offer i o1 s)"
| "media_step parse s (now, Feedback sample i) = receiverFeedback sample now i s"
| "media_step parse s (now, Add_Peer i peer sdp) = snd (addPeer i peer sdp s)"
| "media_step parse s (now, Check_Port i peer port) = snd (checkPort i peer port s)"
| "media_step parse s (now, Remove_Peer i peer) = snd (removePeer i peer s)"
| "media_step parse s (now, Stop_Worker i) = snd (stop_worker i s)"
| "media_step parse s (now, Shut_Down) = shutdown_media s"
| "media_step parse s (now, Set_Permission i peer allowed) = snd (setPermission i peer allowed s)"
| "media_step parse s (now, Keyframe i) = snd (keyframe now i s)"
| "media_step parse s (now, Worker_Line c line) = worker_line parse c line s"
| "media_step parse s (now, Worker_Stderr c chunk) = worker_stderr c chunk s"
| "media_step parse s (now, Worker_Error c reason) = worker_error c reason s"
| "media_step parse s (now, Worker_Close c) = worker_close c s"
| "media_step parse s (now, Pipe_Broken c) = pipe_broken c s"
| "media_step parse s (now, Negotiation_Timer i peer p) = negotiation_timer i peer p s"
| "media_step parse s (now, Removal_Timer i peer p) = removal_timer i peer p s"
| "media_step parse s (now, Port_Timer i key p) = port_timer i key p s"
| "media_step parse s (now, Permission_Timer i r) = permission_ends i r ''Control acknowledgement timed out'' s"
| "media_step parse s (now, Permission_Write_Failed i r reason) = permission_ends i r reason s"
| "media_step parse s (now, Kill_Timer c) = kill_timer c s"

section \<open>Lemmas: calls\<close>

definition is_settled :: "native \<Rightarrow> nat \<Rightarrow> bool" where
  "is_settled s p \<longleftrightarrow> p \<in> fst ` set (nm_settled s)"

text \<open>The promises that a worker still holds.\<close>

definition check_waits :: "(string, nat) jmap \<Rightarrow> nat \<Rightarrow> bool" where
  "check_waits m p \<longleftrightarrow> (\<exists>k. jget m k = Some p)"

definition peer_waits :: "(string, peer_entry) jmap \<Rightarrow> nat \<Rightarrow> bool" where
  "peer_waits m p \<longleftrightarrow> (\<exists>k. jget m k = Some (Negotiating p) \<or> jget m k = Some (Removing p))"

definition permission_waits :: "(nat \<times> nat) option \<Rightarrow> nat \<Rightarrow> bool" where
  "permission_waits v p \<longleftrightarrow> (\<exists>r. v = Some (r, p))"

definition waits :: "worker \<Rightarrow> nat \<Rightarrow> bool" where
  "waits w p \<longleftrightarrow> p = wk_ready w \<or> p = wk_closed w \<or> permission_waits (wk_permission w) p \<or> check_waits (wk_checks w) p
     \<or> peer_waits (wk_peers w) p"

lemma permission_waits_simps [simp]:
  "\<not> permission_waits None p" "permission_waits (Some (r, q)) p \<longleftrightarrow> p = q"
  by (auto simp: permission_waits_def)

lemma no_waits [simp]: "\<not> check_waits [] p" "\<not> peer_waits [] p"
  by (simp_all add: check_waits_def peer_waits_def)

lemma check_waits_new: "jget m k = None \<Longrightarrow> check_waits (jset k q m) p \<longleftrightarrow> p = q \<or> check_waits m p"
  unfolding check_waits_def by (metis jget_jset option.distinct(1) option.inject)

lemma check_waits_del: "jget m k = Some q \<Longrightarrow> check_waits m p \<Longrightarrow> check_waits (jdel k m) p \<or> p = q"
  unfolding check_waits_def by (metis jget_jdel option.inject)

text \<open>An entry that is replaced or removed.\<close>

definition entry_waits :: "peer_entry option \<Rightarrow> nat \<Rightarrow> bool" where
  "entry_waits e p \<longleftrightarrow> e = Some (Negotiating p) \<or> e = Some (Removing p)"

lemma peer_waits_entries: "peer_waits m p \<longleftrightarrow> (\<exists>k. entry_waits (jget m k) p)"
  by (simp add: peer_waits_def entry_waits_def)

lemma peer_waits_jset: "peer_waits (jset k e m) p \<longleftrightarrow> entry_waits (Some e) p \<or> (\<exists>j. j \<noteq> k \<and> entry_waits (jget m j) p)"
  unfolding peer_waits_entries by auto

lemma peer_waits_jdel: "peer_waits (jdel k m) p \<longleftrightarrow> (\<exists>j. j \<noteq> k \<and> entry_waits (jget m j) p)"
  unfolding peer_waits_entries by (auto simp: entry_waits_def)

lemma peer_waits_split: "peer_waits m p \<longleftrightarrow> entry_waits (jget m k) p \<or> (\<exists>j. j \<noteq> k \<and> entry_waits (jget m j) p)"
  unfolding peer_waits_entries by auto

lemma entry_waits_simps [simp]:
  "entry_waits (Some (Negotiating q)) p \<longleftrightarrow> p = q" "entry_waits (Some (Removing q)) p \<longleftrightarrow> p = q"
  "\<not> entry_waits (Some Peer_Live) p" "\<not> entry_waits None p"
  by (auto simp: entry_waits_def)

lemma peer_waits_negotiating: "jget m k = None \<Longrightarrow> peer_waits (jset k (Negotiating q) m) p \<longleftrightarrow> p = q \<or> peer_waits m p"
  by (simp add: peer_waits_jset peer_waits_split [of m p k])

lemma peer_waits_removing:
  "\<forall>q. jget m k \<noteq> Some (Negotiating q) \<and> jget m k \<noteq> Some (Removing q) \<Longrightarrow>
    peer_waits (jset k (Removing q) m) p \<longleftrightarrow> p = q \<or> peer_waits m p"
  by (simp add: peer_waits_jset peer_waits_split [of m p k]) (simp add: entry_waits_def)

lemma peer_waits_set: "peer_waits m p \<Longrightarrow> peer_waits (jset k Peer_Live m) p \<or> entry_waits (jget m k) p"
  by (auto simp: peer_waits_jset peer_waits_split [of m p k])

lemma peer_waits_del_negotiating:
  "jget m k = Some (Negotiating q) \<Longrightarrow> peer_waits m p \<longleftrightarrow> p = q \<or> peer_waits (jdel k m) p"
  by (simp add: peer_waits_jdel peer_waits_split [of m p k])

lemma permission_waits_None: "\<forall>a b. v \<noteq> Some (a, b) \<Longrightarrow> \<not> permission_waits v p"
  by (simp add: permission_waits_def)

lemma peer_waits_del: "peer_waits m p \<Longrightarrow> peer_waits (jdel k m) p \<or> entry_waits (jget m k) p"
  by (auto simp: peer_waits_jdel peer_waits_split [of m p k])

definition held :: "native \<Rightarrow> nat \<Rightarrow> bool" where
  "held s p \<longleftrightarrow> (\<exists>i w. jget (nm_workers s) i = Some w \<and> waits w p)"

definition calls_ok :: "native \<Rightarrow> bool" where
  "calls_ok s \<longleftrightarrow> jmap_ok (nm_workers s) \<and> distinct (map fst (nm_settled s)) \<and> (\<forall>p < nm_promises s. is_settled s p \<or> held s p)"

lemma settle_call_simps [simp]:
  "nm_workers (settle_call p v s) = nm_workers s" "nm_promises (settle_call p v s) = nm_promises s"
  "nm_keyframes (settle_call p v s) = nm_keyframes s" "nm_launched (settle_call p v s) = nm_launched s"
  "nm_max (settle_call p v s) = nm_max s"
  "is_settled (settle_call p v s) q \<longleftrightarrow> q = p \<or> is_settled s q"
  "distinct (map fst (nm_settled (settle_call p v s))) \<longleftrightarrow> distinct (map fst (nm_settled s))"
  by (auto simp: settle_call_def is_settled_def)

lemma write_worker_simps [simp]:
  "nm_workers (write_worker w m s) = nm_workers s" "nm_promises (write_worker w m s) = nm_promises s"
  "nm_keyframes (write_worker w m s) = nm_keyframes s" "nm_launched (write_worker w m s) = nm_launched s"
  "nm_max (write_worker w m s) = nm_max s" "nm_settled (write_worker w m s) = nm_settled s"
  by (simp_all add: write_worker_def)

lemma put_simps [simp]:
  "nm_workers (put_worker i w s) = jset i w (nm_workers s)" "nm_promises (put_worker i w s) = nm_promises s"
  "nm_keyframes (put_worker i w s) = nm_keyframes s" "nm_launched (put_worker i w s) = nm_launched s"
  "nm_max (put_worker i w s) = nm_max s" "nm_settled (put_worker i w s) = nm_settled s"
  by (simp_all add: put_worker_def)

lemma is_settled_simps [simp]:
  "is_settled (write_worker w m s) p \<longleftrightarrow> is_settled s p" "is_settled (put_worker i w s) p \<longleftrightarrow> is_settled s p"
  "is_settled (s\<lparr>nm_promises := n\<rparr>) p \<longleftrightarrow> is_settled s p" "is_settled (s\<lparr>nm_sequence := n\<rparr>) p \<longleftrightarrow> is_settled s p"
  "is_settled (s\<lparr>nm_keyframes := ks\<rparr>) p \<longleftrightarrow> is_settled s p" "is_settled (s\<lparr>nm_workers := ws\<rparr>) p \<longleftrightarrow> is_settled s p"
  "is_settled (s\<lparr>nm_exits := xs\<rparr>) p \<longleftrightarrow> is_settled s p" "is_settled (s\<lparr>nm_launched := n\<rparr>) p \<longleftrightarrow> is_settled s p"
  by (simp_all add: is_settled_def)

lemma settle_all_simps [simp]:
  "nm_workers (settle_calls ps v s) = nm_workers s" "nm_promises (settle_calls ps v s) = nm_promises s"
  "nm_keyframes (settle_calls ps v s) = nm_keyframes s" "nm_launched (settle_calls ps v s) = nm_launched s"
  "nm_max (settle_calls ps v s) = nm_max s"
  "is_settled (settle_calls ps v s) q \<longleftrightarrow> q \<in> set ps \<or> is_settled s q"
  "distinct (map fst (nm_settled (settle_calls ps v s))) \<longleftrightarrow> distinct (map fst (nm_settled s))"
  by (induction ps arbitrary: s) auto

lemma end_peers_simps [simp]:
  "nm_workers (end_peers m r s) = nm_workers s" "nm_promises (end_peers m r s) = nm_promises s"
  "nm_keyframes (end_peers m r s) = nm_keyframes s" "nm_launched (end_peers m r s) = nm_launched s"
  "nm_max (end_peers m r s) = nm_max s"
  "is_settled (end_peers m r s) q \<longleftrightarrow> Negotiating q \<in> snd ` set m \<or> Removing q \<in> snd ` set m \<or> is_settled s q"
  "distinct (map fst (nm_settled (end_peers m r s))) \<longleftrightarrow> distinct (map fst (nm_settled s))"
  by (induction m r s rule: end_peers.induct) auto

lemma set_negotiating: "p \<in> set (negotiating_of m) \<longleftrightarrow> Negotiating p \<in> snd ` set m"
  by (induction m rule: negotiating_of.induct) auto

lemma jget_jkeep_kept: "jget m k = Some v \<Longrightarrow> q k v \<Longrightarrow> jget (jkeep q m) k = Some v"
  by (induction m) (auto simp: jkeep_def split: if_splits)

lemma worker_ofD: "worker_of c s = Some (i, w) \<Longrightarrow> jmap_ok (nm_workers s) \<Longrightarrow> jget (nm_workers s) i = Some w \<and> wk_launch w = c"
  unfolding worker_of_def by (auto simp: find_Some_iff simp flip: in_set_jget dest: nth_mem)

text \<open>One worker changes: it holds what it held, or that is settled; and it holds the new promises, or they are settled.\<close>

lemma calls_put:
  assumes "calls_ok s" "nm_workers t = jset i w' (nm_workers s)" "distinct (map fst (nm_settled t))"
    and "\<And>p. is_settled s p \<Longrightarrow> is_settled t p"
    and "\<And>p w. jget (nm_workers s) i = Some w \<Longrightarrow> waits w p \<Longrightarrow> waits w' p \<or> is_settled t p"
    and "\<And>p. nm_promises s \<le> p \<Longrightarrow> p < nm_promises t \<Longrightarrow> waits w' p \<or> is_settled t p"
  shows "calls_ok t"
proof -
  have "is_settled t p \<or> held t p" if "p < nm_promises t" for p
  proof (cases "p < nm_promises s")
    case True
    with assms(1) consider "is_settled s p" | j w where "jget (nm_workers s) j = Some w" "waits w p"
      by (auto simp: calls_ok_def held_def)
    then show ?thesis
    proof cases
      case 2
      show ?thesis
      proof (cases "j = i")
        case True
        with 2 assms(2,5) show ?thesis by (auto simp: held_def)
      next
        case False
        with 2 assms(2) have "jget (nm_workers t) j = Some w \<and> waits w p" by simp
        then show ?thesis by (auto simp: held_def)
      qed
    qed (use assms(4) in auto)
  next
    case False
    with that assms(6) [of p] have "waits w' p \<or> is_settled t p" by simp
    moreover from assms(2) have "jget (nm_workers t) i = Some w'" by simp
    ultimately show ?thesis unfolding held_def by blast
  qed
  with assms(1,2,3) show ?thesis by (simp add: calls_ok_def)
qed

lemma calls_same:
  assumes "calls_ok s" "nm_workers t = nm_workers s" "distinct (map fst (nm_settled t))"
    and "\<And>p. is_settled s p \<Longrightarrow> is_settled t p" "\<And>p. nm_promises s \<le> p \<Longrightarrow> p < nm_promises t \<Longrightarrow> is_settled t p"
  shows "calls_ok t"
  using assms unfolding calls_ok_def held_def by (metis leI)

lemma calls_distinct: "calls_ok s \<Longrightarrow> distinct (map fst (nm_settled s))"
  by (simp add: calls_ok_def)

lemma answered_ok: "calls_ok s \<Longrightarrow> calls_ok (snd (answered v s))"
  by (frule calls_distinct, erule calls_same) (simp_all add: answered_def)

text \<open>The same for a change that makes no new promise, or one that the worker holds then.\<close>

lemma calls_change:
  assumes "calls_ok s" "jget (nm_workers s) i = Some w" "nm_workers t = jset i w' (nm_workers s)"
    and "distinct (map fst (nm_settled t)) = distinct (map fst (nm_settled s))"
    and "\<forall>p. is_settled s p \<longrightarrow> is_settled t p"
    and "\<forall>p. waits w p \<longrightarrow> waits w' p \<or> is_settled t p"
    and "nm_promises t = nm_promises s \<or> nm_promises t = nm_promises s + 1 \<and> waits w' (nm_promises s)"
  shows "calls_ok t"
proof (rule calls_put [OF assms(1,3)])
  show "waits w' p \<or> is_settled t p" if "nm_promises s \<le> p" "p < nm_promises t" for p
    using assms(7) that by (auto simp: less_Suc_eq)
qed (use assms calls_distinct in auto)

lemma start_ok: "calls_ok s \<Longrightarrow> calls_ok (snd (start_worker i o1 s))"
proof (cases "jhas (nm_workers s) i \<or> nm_max s \<le> length (nm_workers s)")
  case True
  moreover assume "calls_ok s"
  ultimately show ?thesis by (auto simp: start_worker_def answered_ok)
next
  case False
  assume ok: "calls_ok s"
  show ?thesis
  proof (rule calls_put [OF ok])
    let ?w = "\<lparr>wk_launch = nm_launched s, wk_video = so_video o1, wk_stderr = [], wk_stopping = False, wk_broken = False,
       wk_peers = [], wk_permission = None, wk_keyframe = None, wk_ready = nm_promises s + 1, wk_closed = nm_promises s,
       wk_checks = [], wk_encoder = None, wk_input = None, wk_recovery = None\<rparr>"
    show "nm_workers (snd (start_worker i o1 s)) = jset i ?w (nm_workers s)" using False by (simp add: start_worker_def Let_def)
    show "waits ?w p \<or> is_settled (snd (start_worker i o1 s)) p"
      if "nm_promises s \<le> p" "p < nm_promises (snd (start_worker i o1 s))" for p
      using that False by (auto simp: start_worker_def Let_def waits_def)
  qed (use ok False in \<open>auto simp: start_worker_def Let_def calls_distinct jhas_def is_settled_def\<close>)
qed

lemma addPeer_ok:
  assumes "calls_ok s"
  shows "calls_ok (snd (addPeer i peer sdp s))"
proof (cases "jget (nm_workers s) i")
  case (Some w)
  then show ?thesis
    by (auto simp: addPeer_def Let_def answered_ok assms waits_def jhas_def peer_waits_negotiating
        intro!: calls_change [OF assms Some, where w' = "w\<lparr>wk_peers := jset peer (Negotiating (nm_promises s)) (wk_peers w)\<rparr>"])
qed (simp add: addPeer_def answered_ok assms)

lemma checkPort_ok:
  assumes "calls_ok s"
  shows "calls_ok (snd (checkPort i peer port s))"
proof (cases "jget (nm_workers s) i")
  case (Some w)
  then show ?thesis
    by (auto simp: checkPort_def Let_def answered_ok assms waits_def jhas_def check_waits_new
        intro!: calls_change [OF assms Some, where w' = "w\<lparr>wk_checks := jset (check_key peer (dec port)) (nm_promises s) (wk_checks w)\<rparr>"])
qed (simp add: checkPort_def answered_ok assms)

lemma stop_ok:
  assumes "calls_ok s"
  shows "calls_ok (snd (stop_worker i s))"
proof (cases "jget (nm_workers s) i")
  case (Some w)
  then show ?thesis
    by (auto simp: stop_worker_def assms waits_def intro!: calls_change [OF assms Some, where w' = "w\<lparr>wk_stopping := True\<rparr>"])
qed (simp add: stop_worker_def answered_ok assms)

lemma stop_all_ok: "calls_ok s \<Longrightarrow> calls_ok (stop_all ids s)"
  by (induction ids arbitrary: s) (simp_all add: stop_ok)

lemma fail_peer_ok:
  assumes "calls_ok s"
  shows "calls_ok (fail_peer i peer r s)"
proof (cases "jget (nm_workers s) i")
  case (Some w)
  then show ?thesis
    by (auto simp: fail_peer_def assms waits_def peer_waits_del_negotiating split: option.split peer_entry.split
        intro!: calls_change [OF assms Some, where w' = "w\<lparr>wk_peers := jdel peer (wk_peers w)\<rparr>"])
qed (simp add: fail_peer_def assms)

text \<open>After the failure the peer's entry holds no promise of a negotiation.\<close>

lemma fail_peer_entry:
  "jget (nm_workers (fail_peer i peer r s)) i = Some w \<Longrightarrow> jget (wk_peers w) peer \<noteq> Some (Negotiating p)"
  by (auto simp: fail_peer_def split: option.splits peer_entry.splits if_splits)

lemma fail_peer_removing:
  "jget (nm_workers (fail_peer i peer r s)) i = Some w \<Longrightarrow> jget (wk_peers w) peer = Some (Removing p) \<Longrightarrow>
    \<exists>v. jget (nm_workers s) i = Some v \<and> jget (wk_peers v) peer = Some (Removing p)"
  by (auto simp: fail_peer_def split: option.splits peer_entry.splits if_splits)

lemma mark_removing_ok:
  assumes "calls_ok s"
    and "\<And>w p. jget (nm_workers s) i = Some w \<Longrightarrow>
           jget (wk_peers w) peer \<noteq> Some (Negotiating p) \<and> jget (wk_peers w) peer \<noteq> Some (Removing p)"
  shows "calls_ok (snd (mark_removing i peer s))"
proof (cases "jget (nm_workers s) i")
  case None
  with assms(1) show ?thesis by (simp add: mark_removing_def answered_ok)
next
  case (Some w)
  then show ?thesis
    using assms(2) [OF Some]
    by (auto simp: mark_removing_def Let_def waits_def peer_waits_removing
        intro!: calls_change [OF assms(1) Some, where w' = "w\<lparr>wk_peers := jset peer (Removing (nm_promises s)) (wk_peers w)\<rparr>"])
qed

lemma removePeer_ok:
  assumes "calls_ok s"
  shows "calls_ok (snd (removePeer i peer s))"
proof (cases "jget (nm_workers s) i")
  case (Some w)
  have marked: "calls_ok (snd (mark_removing i peer (fail_peer i peer r s)))" if "\<forall>p. jget (wk_peers w) peer \<noteq> Some (Removing p)" for r
  proof (rule mark_removing_ok [OF fail_peer_ok [OF assms]])
    fix v p
    assume v: "jget (nm_workers (fail_peer i peer r s)) i = Some v"
    show "jget (wk_peers v) peer \<noteq> Some (Negotiating p) \<and> jget (wk_peers v) peer \<noteq> Some (Removing p)"
      using fail_peer_entry [OF v] fail_peer_removing [OF v] that Some by auto
  qed
  show ?thesis
  proof (cases "wk_stopping w \<or> (\<exists>p. jget (wk_peers w) peer = Some (Removing p))")
    case True
    with Some assms show ?thesis by (auto simp: removePeer_def)
  next
    case False
    with marked Some show ?thesis by (simp add: removePeer_def split: option.split peer_entry.split)
  qed
qed (simp add: removePeer_def answered_ok assms)

lemma setPermission_ok:
  assumes "calls_ok s"
  shows "calls_ok (snd (setPermission i peer allowed s))"
proof (cases "jget (nm_workers s) i")
  case (Some w)
  then show ?thesis
    by (auto simp: setPermission_def Let_def answered_ok assms waits_def permission_waits_None
        intro!: calls_change [OF assms Some, where w' = "w\<lparr>wk_permission := Some (nm_sequence s + 1, nm_promises s)\<rparr>"])
qed (simp add: setPermission_def answered_ok assms)

lemma keyframe_ok:
  assumes "calls_ok s"
  shows "calls_ok (snd (keyframe now i s))"
proof (cases "jget (nm_workers s) i")
  case (Some w)
  then show ?thesis
    by (auto simp: keyframe_def assms waits_def
        intro!: calls_change [OF assms Some, where w' = "w\<lparr>wk_keyframe := Some now\<rparr>"])
qed (simp add: keyframe_def assms)

lemma begin_offer_ok:
  assumes "calls_ok s"
  shows "calls_ok (snd (begin_offer i o1 s))"
proof -
  obtain p t where pt: "start_worker i o1 s = (p, t)" by fastforce
  with start_ok [OF assms, of i o1] have ok: "calls_ok t" by simp
  show ?thesis
  proof (cases "jget (nm_workers t) i")
    case (Some w)
    with ok show ?thesis
      by (auto simp: begin_offer_def pt waits_def intro!: calls_change [OF ok Some, where w' = "w\<lparr>wk_recovery := Some new_recovery\<rparr>"])
  qed (simp add: begin_offer_def pt ok)
qed

lemma feedback_ok:
  assumes "calls_ok s"
  shows "calls_ok (receiverFeedback sample now i s)"
proof (cases "jget (nm_workers s) i")
  case (Some w)
  have "calls_ok (put_worker i (w\<lparr>wk_recovery := r\<rparr>) s)" for r
    by (rule calls_change [OF assms Some, where w' = "w\<lparr>wk_recovery := r\<rparr>"]) (simp_all add: waits_def)
  with Some assms show ?thesis
    by (simp add: receiverFeedback_def Let_def keyframe_ok split: option.split prod.split)
qed (simp add: receiverFeedback_def assms)

text \<open>Messages: the worker is the one filed under its source.\<close>

lemma message_ok:
  assumes "calls_ok s" "jget (nm_workers s) i = Some w"
  shows "calls_ok (worker_message i w m s)"
proof -
  note change = calls_change [OF assms]
  have "calls_ok (s\<lparr>nm_threw := True\<rparr>)"
    using calls_distinct [OF assms(1)] by (intro calls_same [OF assms(1)]) (auto simp: is_settled_def)
  then have "calls_ok (on_control_result i w m s)"
    by (auto simp: on_control_result_def assms waits_def split: option.split json.split
        intro: change [where w' = "w\<lparr>wk_permission := None\<rparr>"])
  moreover have "calls_ok (on_input_unavailable i w m s)"
    unfolding on_input_unavailable_def Let_def
    by (rule change) (auto simp: waits_def)
  moreover have "calls_ok (on_ready i w m s)"
  proof (cases "is_str (jfield ''encoderBackend'' m)")
    case True
    show ?thesis unfolding on_ready_def Let_def if_P [OF True] by (rule change) (auto simp: waits_def)
  next
    case False
    show ?thesis unfolding on_ready_def Let_def if_not_P [OF False] by (rule change) (auto simp: waits_def)
  qed
  moreover have "calls_ok (on_answer_sdp i w m s)"
    by (auto simp: on_answer_sdp_def assms waits_def peer_of_def peer_waits_jset split: option.split json.split peer_entry.split if_splits
        dest!: peer_waits_split [THEN iffD1, of _ _ "str_of (jfield ''peerId'' m)"]
        intro!: change [where w' = "w\<lparr>wk_peers := jset (str_of (jfield ''peerId'' m)) Peer_Live (wk_peers w)\<rparr>"])
  moreover have "calls_ok (on_peer_failed i w m s)"
  proof -
    have "calls_ok (put_worker i (w\<lparr>wk_peers := jdel k (wk_peers w)\<rparr>) s)" if "jget (wk_peers w) k = Some Peer_Live" for k
      using that by (auto simp: waits_def peer_waits_jdel
          dest!: peer_waits_split [THEN iffD1, of _ _ k] intro!: change [where w' = "w\<lparr>wk_peers := jdel k (wk_peers w)\<rparr>"])
    moreover have "calls_ok (t\<lparr>nm_failed := xs\<rparr>)" if "calls_ok t" for t xs
      using calls_distinct [OF that] by (intro calls_same [OF that]) (auto simp: is_settled_def)
    ultimately show ?thesis
      by (auto simp: on_peer_failed_def Let_def peer_of_def assms fail_peer_ok stop_ok split: option.split peer_entry.split)
  qed
  moreover have "calls_ok (on_peer_closed i w m s)"
    by (auto simp: on_peer_closed_def assms waits_def peer_of_def peer_waits_jdel split: option.split peer_entry.split if_splits
        dest!: peer_waits_split [THEN iffD1, of _ _ "str_of (jfield ''peerId'' m)"]
        intro!: change [where w' = "w\<lparr>wk_peers := jdel (str_of (jfield ''peerId'' m)) (wk_peers w)\<rparr>"])
  moreover have "calls_ok (on_port_owned i w m s)"
    unfolding on_port_owned_def Let_def
    by (auto simp: assms waits_def split: option.split json.split dest: check_waits_del intro!: change)
  moreover have "calls_ok (s\<lparr>nm_metrics := xs\<rparr>)" "calls_ok (s\<lparr>nm_threw := True\<rparr>)" for xs
    using assms(1) by (auto intro!: calls_same [OF assms(1)] simp: is_settled_def dest: calls_distinct)
  ultimately show ?thesis using assms(1) by (simp add: worker_message_def Let_def)
qed

lemma worker_of_ok: "calls_ok s \<Longrightarrow> worker_of c s = Some (i, w) \<Longrightarrow> jget (nm_workers s) i = Some w"
  using worker_ofD by (auto simp: calls_ok_def)

lemma line_ok: "calls_ok s \<Longrightarrow> calls_ok (worker_line parse c line s)"
  unfolding worker_line_def by (auto simp: message_ok worker_of_ok split: option.split)

lemma stderr_ok:
  assumes "calls_ok s"
  shows "calls_ok (worker_stderr c text0 s)"
proof (cases "worker_of c s")
  case (Some iw)
  obtain i w where iw: "iw = (i, w)" by fastforce
  note w = worker_of_ok [OF assms Some [unfolded iw]]
  show ?thesis
    unfolding worker_stderr_def Some iw option.case prod.case Let_def
    by (rule calls_change [OF assms w]) (auto simp: waits_def)
qed (simp add: worker_stderr_def assms)

lemma pipe_ok:
  assumes "calls_ok s"
  shows "calls_ok (pipe_broken c s)"
proof (cases "worker_of c s")
  case (Some iw)
  obtain i w where iw: "iw = (i, w)" by fastforce
  note w = worker_of_ok [OF assms Some [unfolded iw]]
  show ?thesis
    unfolding pipe_broken_def Some iw option.case prod.case
    by (rule calls_change [OF assms w]) (auto simp: waits_def)
qed (simp add: pipe_broken_def assms)

lemma worker_error_ok:
  assumes "calls_ok s"
  shows "calls_ok (worker_error c reason s)"
proof (cases "worker_of c s")
  case (Some iw)
  obtain i w where iw: "iw = (i, w)" by fastforce
  note w = worker_of_ok [OF assms Some [unfolded iw]]
  have kept: "peer_waits (jkeep (\<lambda>_ e. \<not> is_negotiating e) m) p \<or> p \<in> set (negotiating_of m)" if "peer_waits m p" for m p
  proof -
    from that obtain k where "jget m k = Some (Negotiating p) \<or> jget m k = Some (Removing p)" by (auto simp: peer_waits_def)
    then show ?thesis
    proof
      assume "jget m k = Some (Negotiating p)"
      then show ?thesis by (force simp: set_negotiating dest: map_of_SomeD)
    next
      assume "jget m k = Some (Removing p)"
      moreover have "\<not> is_negotiating (Removing p)" by (simp add: is_negotiating_def)
      ultimately show ?thesis
        using jget_jkeep_kept [of m k "Removing p" "\<lambda>_ e. \<not> is_negotiating e"] unfolding peer_waits_def by blast
    qed
  qed
  show ?thesis
    unfolding worker_error_def Some iw option.case prod.case
    by (rule calls_change [OF assms w]) (auto simp: waits_def dest: kept)
qed (simp add: worker_error_def assms)

text \<open>At a worker's end all it held is settled.\<close>

lemma close_ok:
  assumes "calls_ok s"
  shows "calls_ok (worker_close c s)"
proof (cases "worker_of c s")
  case (Some iw)
  obtain i w where iw: "iw = (i, w)" by fastforce
  note w = worker_of_ok [OF assms Some [unfolded iw]]
  let ?t = "worker_close c s"
  have workers: "nm_workers ?t = jdel i (nm_workers s)" "nm_promises ?t = nm_promises s"
    by (simp_all add: worker_close_def Some iw Let_def split: option.split)
  have distinct: "distinct (map fst (nm_settled ?t))"
    using calls_distinct [OF assms] by (simp add: worker_close_def Some iw Let_def split: option.split)
  have kept: "is_settled ?t p" if "is_settled s p" for p
    using that by (auto simp: worker_close_def Some iw Let_def split: option.split)
  have ended: "is_settled ?t p" if "waits w p" for p
    using that unfolding waits_def
    by (auto simp: worker_close_def Some iw Let_def permission_waits_def check_waits_def peer_waits_def image_iff
        split: option.split dest!: map_of_SomeD) force+
  have "is_settled ?t p \<or> held ?t p" if "p < nm_promises s" for p
  proof -
    from assms that have "is_settled s p \<or> held s p" by (simp add: calls_ok_def)
    then show ?thesis
    proof
      assume "held s p"
      then obtain j v where jv: "jget (nm_workers s) j = Some v" "waits v p" by (auto simp: held_def)
      show ?thesis
      proof (cases "j = i")
        case True
        with jv w ended show ?thesis by simp
      next
        case False
        with jv workers(1) have "jget (nm_workers ?t) j = Some v \<and> waits v p" by simp
        then show ?thesis unfolding held_def by blast
      qed
    qed (simp add: kept)
  qed
  with assms workers distinct show ?thesis by (simp add: calls_ok_def)
qed (simp add: worker_close_def assms)

lemma timers_ok:
  assumes "calls_ok s"
  shows "calls_ok (negotiation_timer i peer p s)" "calls_ok (removal_timer i peer p s)" "calls_ok (port_timer i key p s)"
    "calls_ok (permission_ends i r reason s)" "calls_ok (kill_timer c s)"
proof -
  show "calls_ok (negotiation_timer i peer p s)" "calls_ok (removal_timer i peer p s)"
    using assms by (auto simp: negotiation_timer_def removal_timer_def removePeer_ok fail_peer_ok stop_ok split: option.split)
  show "calls_ok (port_timer i key p s)"
  proof (cases "jget (nm_workers s) i")
    case (Some w)
    then show ?thesis
      by (auto simp: port_timer_def assms waits_def dest: check_waits_del
          intro!: calls_change [OF assms Some, where w' = "w\<lparr>wk_checks := jdel key (wk_checks w)\<rparr>"])
  qed (simp add: port_timer_def assms)
  show "calls_ok (permission_ends i r reason s)"
  proof (cases "jget (nm_workers s) i")
    case (Some w)
    then show ?thesis
      by (auto simp: permission_ends_def assms waits_def split: option.split
          intro!: calls_change [OF assms Some, where w' = "w\<lparr>wk_permission := None\<rparr>"])
  qed (simp add: permission_ends_def assms)
  show "calls_ok (kill_timer c s)"
    using assms by (auto simp: kill_timer_def is_settled_def split: option.split dest: calls_distinct intro!: calls_same [OF assms])
qed

lemma media_step_ok: "calls_ok s \<Longrightarrow> calls_ok (media_step parse s e)"
  by (induction parse s e rule: media_step.induct)
    (simp_all add: start_ok begin_offer_ok feedback_ok addPeer_ok checkPort_ok removePeer_ok stop_ok stop_all_ok shutdown_media_def
      setPermission_ok keyframe_ok line_ok stderr_ok worker_error_ok close_ok pipe_ok timers_ok)

interpretation media_calls: step_system "media_step parse" calls_ok for parse
  by unfold_locales (rule media_step_ok)

section \<open>Lemmas: keyframes and workers\<close>

text \<open>Every other operation leaves the launches and their last keyframes as they are, and adds no worker.\<close>

definition same_frames :: "native \<Rightarrow> native \<Rightarrow> bool" where
  "same_frames s t \<longleftrightarrow> nm_keyframes t = nm_keyframes s \<and> nm_launched t = nm_launched s \<and> nm_max t = nm_max s
     \<and> length (nm_workers t) \<le> length (nm_workers s)
     \<and> (\<forall>i w. jget (nm_workers t) i = Some w \<longrightarrow>
          (\<exists>v. jget (nm_workers s) i = Some v \<and> wk_launch w = wk_launch v \<and> wk_keyframe w = wk_keyframe v))"

lemma same_refl: "same_frames s s"
  by (simp add: same_frames_def)

lemma same_trans: "same_frames s t \<Longrightarrow> same_frames t u \<Longrightarrow> same_frames s u"
  unfolding same_frames_def by (metis order_trans)

lemma same_workers:
  "nm_workers t = nm_workers s \<Longrightarrow> nm_keyframes t = nm_keyframes s \<Longrightarrow> nm_launched t = nm_launched s \<Longrightarrow> nm_max t = nm_max s \<Longrightarrow>
    same_frames s t"
  by (simp add: same_frames_def)

lemma same_put:
  assumes "jget (nm_workers s) i = Some v" "nm_workers t = jset i w (nm_workers s)" "wk_launch w = wk_launch v"
    "wk_keyframe w = wk_keyframe v" "nm_keyframes t = nm_keyframes s" "nm_launched t = nm_launched s" "nm_max t = nm_max s"
  shows "same_frames s t"
proof -
  have "length (jset i w (nm_workers s)) = length (nm_workers s)" using assms(1) by (simp add: length_jset jhas_def)
  then show ?thesis using assms by (simp add: same_frames_def)
qed

lemma same_put_worker:
  "jget (nm_workers s) i = Some v \<Longrightarrow> wk_launch w = wk_launch v \<Longrightarrow> wk_keyframe w = wk_keyframe v \<Longrightarrow> same_frames s (put_worker i w s)"
  by (rule same_put [of s i v _ w]) auto

lemma same_then:
  "same_frames s t \<Longrightarrow> same_frames s (settle_call p v t)" "same_frames s t \<Longrightarrow> same_frames s (settle_calls ps v t)"
  "same_frames s t \<Longrightarrow> same_frames s (write_worker w m t)" "same_frames s t \<Longrightarrow> same_frames s (end_peers ms r t)"
  "same_frames s t \<Longrightarrow> same_frames s (snd (answered v t))"
  by (simp_all add: same_frames_def answered_def)

lemma same_updates [simp]:
  "same_frames (s\<lparr>nm_promises := n\<rparr>) t \<longleftrightarrow> same_frames s t" "same_frames (s\<lparr>nm_sequence := n\<rparr>) t \<longleftrightarrow> same_frames s t"
  "same_frames s (t\<lparr>nm_failed := xs\<rparr>) \<longleftrightarrow> same_frames s t" "same_frames s (t\<lparr>nm_metrics := ms\<rparr>) \<longleftrightarrow> same_frames s t"
  "same_frames s (t\<lparr>nm_threw := b\<rparr>) \<longleftrightarrow> same_frames s t" "same_frames s (t\<lparr>nm_killed := ks\<rparr>) \<longleftrightarrow> same_frames s t"
  "same_frames s (t\<lparr>nm_exits := es\<rparr>) \<longleftrightarrow> same_frames s t" "same_frames s (put_worker i w (t\<lparr>nm_promises := n\<rparr>)) \<longleftrightarrow> same_frames s (put_worker i w t)"
  "same_frames s (put_worker i w (t\<lparr>nm_sequence := q, nm_promises := n\<rparr>)) \<longleftrightarrow> same_frames s (put_worker i w t)"
  "same_frames s (put_worker i w (t\<lparr>nm_sequence := q\<rparr>)) \<longleftrightarrow> same_frames s (put_worker i w t)"
  by (simp_all add: same_frames_def)

lemmas same_intros = same_refl same_then same_put_worker

lemma same_fail: "same_frames s (fail_peer i peer r s)"
  by (auto simp: fail_peer_def split: option.split peer_entry.split intro!: same_intros)

lemma same_stop: "same_frames s (snd (stop_worker i s))"
  by (auto simp: stop_worker_def split: option.split intro!: same_intros)

lemma same_stop_all: "same_frames s (stop_all ids s)"
proof (induction ids arbitrary: s)
  case (Cons i ids)
  from same_trans [OF same_stop Cons] show ?case by simp
qed (simp add: same_refl)

lemma same_mark: "same_frames s (snd (mark_removing i peer s))"
  by (auto simp: mark_removing_def Let_def split: option.split intro!: same_intros)

lemma same_remove: "same_frames s (snd (removePeer i peer s))"
proof -
  have "same_frames s (snd (mark_removing i peer (fail_peer i peer r s)))" for r by (rule same_trans [OF same_fail same_mark])
  then show ?thesis by (auto simp: removePeer_def split: option.split peer_entry.split intro!: same_intros)
qed

lemma same_calls:
  "same_frames s (snd (addPeer i peer sdp s))" "same_frames s (snd (checkPort i peer port s))"
  "same_frames s (snd (setPermission i peer allowed s))"
  by (auto simp: addPeer_def checkPort_def setPermission_def Let_def split: option.split intro!: same_intros)

lemma same_message:
  assumes "jget (nm_workers s) i = Some w"
  shows "same_frames s (worker_message i w m s)"
proof -
  have "same_frames s (on_control_result i w m s)" "same_frames s (on_answer_sdp i w m s)" "same_frames s (on_peer_closed i w m s)"
    using assms by (auto simp: on_control_result_def on_answer_sdp_def on_peer_closed_def
        split: option.split json.split peer_entry.split intro!: same_intros)
  moreover have "same_frames s (on_input_unavailable i w m s)" "same_frames s (on_port_owned i w m s)"
    using assms by (auto simp: on_input_unavailable_def on_port_owned_def Let_def split: option.split json.split intro!: same_intros)
  moreover have "same_frames s (on_ready i w m s)"
    unfolding on_ready_def Let_def using assms
    by (cases "is_str (jfield ''encoderBackend'' m)") (auto intro!: same_intros)
  moreover have "same_frames s (on_peer_failed i w m s)"
  proof -
    have "same_frames s (put_worker i (w\<lparr>wk_peers := ps\<rparr>) s)" for ps using assms by (intro same_put_worker) auto
    from same_trans [OF this same_stop] this show ?thesis
      by (auto simp: on_peer_failed_def Let_def same_fail split: option.split peer_entry.split intro!: same_refl)
  qed
  ultimately show ?thesis by (simp add: worker_message_def Let_def same_refl)
qed

lemma same_timers:
  "same_frames s (negotiation_timer i peer p s)" "same_frames s (removal_timer i peer p s)" "same_frames s (port_timer i key p s)"
  "same_frames s (permission_ends i r reason s)" "same_frames s (kill_timer c s)"
proof -
  have "same_frames s (snd (removePeer i peer (fail_peer i peer r s)))" for r by (rule same_trans [OF same_fail same_remove])
  then show "same_frames s (negotiation_timer i peer p s)"
    by (auto simp: negotiation_timer_def split: option.split intro!: same_refl)
qed (auto simp: same_stop negotiation_timer_def removal_timer_def port_timer_def permission_ends_def kill_timer_def split: option.split intro!: same_intros)

lemma same_of_worker:
  assumes "calls_ok s"
  shows "same_frames s (worker_line parse c line s)" "same_frames s (worker_stderr c chunk s)" "same_frames s (worker_error c reason s)"
    "same_frames s (pipe_broken c s)"
  using worker_of_ok [OF assms]
  by (auto simp: worker_line_def worker_stderr_def worker_error_def pipe_broken_def Let_def split: option.split
      intro!: same_intros same_message)

lemma same_close: "same_frames s (worker_close c s)"
proof -
  have "same_frames s (s\<lparr>nm_workers := jdel i (nm_workers s)\<rparr>)" for i
    by (auto simp: same_frames_def length_jdel_le)
  then show ?thesis
    by (auto simp: worker_close_def Let_def same_frames_def split: option.split)
qed

definition frames_ok :: "native \<Rightarrow> bool" where
  "frames_ok s \<longleftrightarrow> calls_ok s \<and> length (nm_workers s) \<le> nm_max s
     \<and> sorted_wrt (\<lambda>a b. fst a = fst b \<longrightarrow> snd a + KEYFRAME_MS \<le> snd b) (nm_keyframes s)
     \<and> (\<forall>f \<in> set (nm_keyframes s). fst f < nm_launched s)
     \<and> (\<forall>i w. jget (nm_workers s) i = Some w \<longrightarrow> wk_launch w < nm_launched s
          \<and> (\<forall>f \<in> set (nm_keyframes s). fst f = wk_launch w \<longrightarrow> (\<exists>t. wk_keyframe w = Some t \<and> snd f \<le> t)))
     \<and> (\<forall>i j v w. jget (nm_workers s) i = Some v \<longrightarrow> jget (nm_workers s) j = Some w \<longrightarrow> wk_launch v = wk_launch w \<longrightarrow> i = j)"

lemma frames_same:
  assumes "frames_ok s" "same_frames s t" "calls_ok t"
  shows "frames_ok t"
proof -
  have old: "\<exists>v. jget (nm_workers s) i = Some v \<and> wk_launch w = wk_launch v \<and> wk_keyframe w = wk_keyframe v"
    if "jget (nm_workers t) i = Some w" for i w
    using assms(2) that by (simp add: same_frames_def)
  have "wk_launch w < nm_launched s
      \<and> (\<forall>f \<in> set (nm_keyframes s). fst f = wk_launch w \<longrightarrow> (\<exists>t. wk_keyframe w = Some t \<and> snd f \<le> t))"
    if "jget (nm_workers t) i = Some w" for i w
    using old [OF that] assms(1) unfolding frames_ok_def by metis
  moreover have "i = j" if "jget (nm_workers t) i = Some v" "jget (nm_workers t) j = Some w" "wk_launch v = wk_launch w" for i j v w
    using old [OF that(1)] old [OF that(2)] that(3) assms(1) unfolding frames_ok_def by metis
  moreover have "nm_keyframes t = nm_keyframes s" "nm_launched t = nm_launched s" "nm_max t = nm_max s"
    "length (nm_workers t) \<le> length (nm_workers s)" using assms(2) by (simp_all add: same_frames_def)
  ultimately show ?thesis using assms(1,3) unfolding frames_ok_def by auto
qed

lemma frames_start:
  assumes "frames_ok s"
  shows "frames_ok (snd (start_worker i o1 s))"
proof (cases "jhas (nm_workers s) i \<or> nm_max s \<le> length (nm_workers s)")
  case True
  have "same_frames s (snd (start_worker i o1 s))" using True by (auto simp: start_worker_def intro!: same_intros)
  with frames_same [OF assms _ start_ok] assms show ?thesis by (simp add: frames_ok_def)
next
  case False
  let ?t = "snd (start_worker i o1 s)"
  obtain w where t: "nm_keyframes ?t = nm_keyframes s" "nm_launched ?t = Suc (nm_launched s)" "nm_max ?t = nm_max s"
    and w: "nm_workers ?t = jset i w (nm_workers s)" "wk_launch w = nm_launched s"
    using False by (auto simp: start_worker_def Let_def)
  have kfs: "fst f \<noteq> nm_launched s" if "f \<in> set (nm_keyframes s)" for f
    using assms that by (auto simp: frames_ok_def)
  have launches: "wk_launch v < nm_launched s" if "jget (nm_workers s) j = Some v" for j v
    using assms that by (auto simp: frames_ok_def)
  have "calls_ok ?t" using assms start_ok by (simp add: frames_ok_def)
  moreover have "length (nm_workers ?t) \<le> nm_max ?t" using False w t by (simp add: length_jset)
  moreover have "wk_launch v < nm_launched ?t \<and> (\<forall>f \<in> set (nm_keyframes ?t). fst f = wk_launch v \<longrightarrow> (\<exists>t. wk_keyframe v = Some t \<and> snd f \<le> t))"
    if v: "jget (nm_workers ?t) j = Some v" for j v
  proof (cases "j = i")
    case True
    with v w have "v = w" by simp
    with kfs w t show ?thesis by auto
  next
    case False
    with v w have "jget (nm_workers s) j = Some v" by simp
    with assms have "wk_launch v < nm_launched s"
        "\<forall>f \<in> set (nm_keyframes s). fst f = wk_launch v \<longrightarrow> (\<exists>t. wk_keyframe v = Some t \<and> snd f \<le> t)"
      unfolding frames_ok_def by blast+
    then show ?thesis unfolding t by simp
  qed
  moreover have "j = k" if "jget (nm_workers ?t) j = Some v" "jget (nm_workers ?t) k = Some u" "wk_launch v = wk_launch u" for j k v u
    using that assms w launches unfolding frames_ok_def by (metis jget_jset less_irrefl option.inject)
  moreover have "\<forall>f \<in> set (nm_keyframes ?t). fst f < nm_launched ?t" using assms t by (auto simp: frames_ok_def)
  ultimately show ?thesis using assms t(1) unfolding frames_ok_def by auto
qed

lemma frames_keyframe:
  assumes "frames_ok s"
  shows "frames_ok (snd (keyframe now i s))"
proof (cases "fst (keyframe now i s)")
  case False
  then have "snd (keyframe now i s) = s" by (auto simp: keyframe_def split: option.splits if_splits)
  with assms show ?thesis by simp
next
  case True
  then obtain w where w: "jget (nm_workers s) i = Some w" "\<forall>t. wk_keyframe w = Some t \<longrightarrow> t + KEYFRAME_MS \<le> now"
    and kf: "keyframe now i s = (True, write_worker w [(''type'', JStr ''keyframe'')]
          (put_worker i (w\<lparr>wk_keyframe := Some now\<rparr>) (s\<lparr>nm_keyframes := nm_keyframes s @ [(wk_launch w, now)]\<rparr>)))"
    by (auto simp: keyframe_def split: option.splits if_splits)
  let ?t = "snd (keyframe now i s)"
  have t: "nm_keyframes ?t = nm_keyframes s @ [(wk_launch w, now)]" "nm_launched ?t = nm_launched s" "nm_max ?t = nm_max s"
    "nm_workers ?t = jset i (w\<lparr>wk_keyframe := Some now\<rparr>) (nm_workers s)"
    by (simp_all add: kf)
  have before: "snd f + KEYFRAME_MS \<le> now" if "f \<in> set (nm_keyframes s)" "fst f = wk_launch w" for f
    using assms w that unfolding frames_ok_def by (metis add_le_cancel_right order_trans)
  have "calls_ok ?t" using assms keyframe_ok by (simp add: frames_ok_def)
  moreover have "length (nm_workers ?t) \<le> nm_max ?t" using assms w t by (simp add: length_jset jhas_def frames_ok_def)
  moreover have "sorted_wrt (\<lambda>a b. fst a = fst b \<longrightarrow> snd a + KEYFRAME_MS \<le> snd b) (nm_keyframes ?t)"
    using assms before by (auto simp: t sorted_wrt_append frames_ok_def)
  moreover have "wk_launch v < nm_launched s \<and> (\<forall>f \<in> set (nm_keyframes ?t). fst f = wk_launch v \<longrightarrow> (\<exists>t. wk_keyframe v = Some t \<and> snd f \<le> t))"
    if v: "jget (nm_workers ?t) j = Some v" for j v
  proof (cases "j = i")
    case True
    with v t have "v = w\<lparr>wk_keyframe := Some now\<rparr>" by simp
    then show ?thesis using before assms w by (fastforce simp: t frames_ok_def KEYFRAME_MS_def)
  next
    case False
    with v t have v': "jget (nm_workers s) j = Some v" by simp
    with assms w False have "wk_launch v \<noteq> wk_launch w" unfolding frames_ok_def by blast
    with assms v' show ?thesis unfolding frames_ok_def t by auto
  qed
  moreover have "\<forall>f \<in> set (nm_keyframes ?t). fst f < nm_launched ?t" using assms w by (auto simp: t frames_ok_def)
  moreover have "j = k" if "jget (nm_workers ?t) j = Some v" "jget (nm_workers ?t) k = Some u" "wk_launch v = wk_launch u" for j k v u
    using that assms w unfolding frames_ok_def t by (auto split: if_splits)
  ultimately show ?thesis unfolding frames_ok_def t(2) by blast
qed

lemma frames_put:
  assumes "frames_ok s" "jget (nm_workers s) i = Some w"
  shows "frames_ok (put_worker i (w\<lparr>wk_recovery := r\<rparr>) s)"
  by (rule frames_same [OF assms(1) same_put_worker [OF assms(2)]], simp_all,
      rule calls_change [OF _ assms(2), where w' = "w\<lparr>wk_recovery := r\<rparr>"]) (use assms in \<open>simp_all add: frames_ok_def waits_def\<close>)

lemma frames_offer:
  assumes "frames_ok s"
  shows "frames_ok (snd (begin_offer i o1 s))"
proof -
  obtain p t where pt: "start_worker i o1 s = (p, t)" by fastforce
  with frames_start [OF assms, of i o1] have "frames_ok t" by simp
  then show ?thesis by (auto simp: begin_offer_def pt frames_put split: option.split)
qed

lemma frames_feedback:
  assumes "frames_ok s"
  shows "frames_ok (receiverFeedback sample now i s)"
  using assms by (auto simp: receiverFeedback_def Let_def frames_put frames_keyframe split: option.split prod.split)

lemma frames_step: "frames_ok s \<Longrightarrow> frames_ok (media_step parse s e)"
proof -
  assume ok: "frames_ok s"
  then have calls: "calls_ok s" by (simp add: frames_ok_def)
  have same: "same_frames s (media_step parse s e) \<Longrightarrow> frames_ok (media_step parse s e)"
    by (rule frames_same [OF ok _ media_step_ok [OF calls]])
  obtain now ev where e: "e = (now, ev)" by fastforce
  show ?thesis
    by (cases ev) (use ok same in \<open>simp_all add: e frames_start frames_offer frames_feedback frames_keyframe same_calls same_remove same_stop
        same_stop_all shutdown_media_def same_of_worker [OF calls] same_close same_timers\<close>)
qed

interpretation media_frames: step_system "media_step parse" frames_ok for parse
  by unfold_locales (rule frames_step)

lemma new_media_ok: "new_media m host = Inr s \<Longrightarrow> frames_ok s \<and> nm_max s = nat m"
  by (auto simp: new_media_def frames_ok_def calls_ok_def split: if_splits)

lemma media_max: "nm_max (media_step parse s e) = nm_max s" if "frames_ok s"
proof -
  from that have calls: "calls_ok s" by (simp add: frames_ok_def)
  have same: "same_frames s t \<Longrightarrow> nm_max t = nm_max s" for t by (simp add: same_frames_def)
  have start: "nm_max (snd (start_worker i o1 s)) = nm_max s" for i o1
    by (simp add: start_worker_def answered_def Let_def)
  have offer: "nm_max (snd (begin_offer i o1 s)) = nm_max s" for i o1
  proof -
    obtain p t where pt: "start_worker i o1 s = (p, t)" by fastforce
    with start [of i o1] show ?thesis by (simp add: begin_offer_def split: option.split)
  qed
  have frame: "nm_max (snd (keyframe now i t)) = nm_max t" for now i t
    by (auto simp: keyframe_def split: option.split)
  obtain now ev where e: "e = (now, ev)" by fastforce
  show ?thesis
    by (cases ev) (use start offer frame in \<open>auto simp: e shutdown_media_def receiverFeedback_def Let_def split: option.split prod.split
        intro!: same same_calls same_remove same_stop same_stop_all same_of_worker [OF calls] same_close same_timers\<close>)
qed

lemma media_run_max: "frames_ok s \<Longrightarrow> nm_max (run (media_step parse) s es) = nm_max s"
  by (induction es arbitrary: s) (simp_all add: frames_step media_max)

section \<open>Lemmas: answers that say yes\<close>

definition says_yes :: "native \<Rightarrow> nat \<Rightarrow> bool" where
  "says_yes s p \<longleftrightarrow> (p, Flag_Value True) \<in> set (nm_settled s)"

lemma yes_simps [simp]:
  "says_yes (write_worker w m s) p \<longleftrightarrow> says_yes s p" "says_yes (put_worker i w s) p \<longleftrightarrow> says_yes s p"
  "says_yes (s\<lparr>nm_promises := n\<rparr>) p \<longleftrightarrow> says_yes s p" "says_yes (s\<lparr>nm_sequence := n\<rparr>) p \<longleftrightarrow> says_yes s p"
  "says_yes (s\<lparr>nm_keyframes := ks\<rparr>) p \<longleftrightarrow> says_yes s p" "says_yes (s\<lparr>nm_workers := ws\<rparr>) p \<longleftrightarrow> says_yes s p"
  "says_yes (s\<lparr>nm_exits := xs\<rparr>) p \<longleftrightarrow> says_yes s p" "says_yes (s\<lparr>nm_launched := n\<rparr>) p \<longleftrightarrow> says_yes s p"
  "says_yes (s\<lparr>nm_failed := fs\<rparr>) p \<longleftrightarrow> says_yes s p" "says_yes (s\<lparr>nm_metrics := ms\<rparr>) p \<longleftrightarrow> says_yes s p"
  "says_yes (s\<lparr>nm_threw := b\<rparr>) p \<longleftrightarrow> says_yes s p" "says_yes (s\<lparr>nm_killed := ls\<rparr>) p \<longleftrightarrow> says_yes s p"
  by (simp_all add: says_yes_def write_worker_def put_worker_def)

lemma yes_settle: "says_yes (settle_call q v s) p \<Longrightarrow> says_yes s p \<or> q = p \<and> v = Flag_Value True"
  by (auto simp: says_yes_def settle_call_def split: if_splits)

lemma no_yes [simp]:
  "v \<noteq> Flag_Value True \<Longrightarrow> says_yes (settle_call q v s) p \<longleftrightarrow> says_yes s p"
  by (auto simp: says_yes_def settle_call_def)

lemma no_yes_all [simp]:
  "v \<noteq> Flag_Value True \<Longrightarrow> says_yes (settle_calls ps v s) p \<longleftrightarrow> says_yes s p"
  by (induction ps arbitrary: s) auto

lemma no_yes_end [simp]: "says_yes (end_peers m r s) p \<longleftrightarrow> says_yes s p"
  by (induction m r s rule: end_peers.induct) auto

lemma no_yes_answered [simp]: "v \<noteq> Flag_Value True \<Longrightarrow> says_yes (snd (answered v s)) p \<longleftrightarrow> says_yes s p"
  by (simp add: answered_def)

lemma no_yes_calls [simp]:
  "says_yes (snd (start_worker i o1 s)) p \<longleftrightarrow> says_yes s p" "says_yes (snd (addPeer i peer sdp s)) p \<longleftrightarrow> says_yes s p"
  "says_yes (snd (checkPort i peer port s)) p \<longleftrightarrow> says_yes s p" "says_yes (snd (stop_worker i s)) p \<longleftrightarrow> says_yes s p"
  "says_yes (fail_peer i peer r s) p \<longleftrightarrow> says_yes s p" "says_yes (snd (mark_removing i peer s)) p \<longleftrightarrow> says_yes s p"
  "says_yes (snd (setPermission i peer allowed s)) p \<longleftrightarrow> says_yes s p" "says_yes (snd (keyframe now i s)) p \<longleftrightarrow> says_yes s p"
  by (simp_all add: start_worker_def addPeer_def checkPort_def stop_worker_def fail_peer_def mark_removing_def setPermission_def
      keyframe_def Let_def split: option.split peer_entry.split)

lemma no_yes_more [simp]:
  "says_yes (stop_all ids s) p \<longleftrightarrow> says_yes s p" "says_yes (snd (removePeer i peer s)) p \<longleftrightarrow> says_yes s p"
  "says_yes (receiverFeedback sample now i s) p \<longleftrightarrow> says_yes s p"
  by (induction ids arbitrary: s)
    (simp_all add: removePeer_def receiverFeedback_def Let_def split: option.split peer_entry.split prod.split)

lemma no_yes_offer [simp]: "says_yes (snd (begin_offer i o1 s)) p \<longleftrightarrow> says_yes s p"
proof -
  obtain q t where qt: "start_worker i o1 s = (q, t)" by fastforce
  with no_yes_calls(1) [of i o1 s p] show ?thesis by (simp add: begin_offer_def split: option.split)
qed

lemma no_yes_ends [simp]:
  "says_yes (worker_stderr c chunk s) p \<longleftrightarrow> says_yes s p" "says_yes (worker_error c reason s) p \<longleftrightarrow> says_yes s p"
  "says_yes (pipe_broken c s) p \<longleftrightarrow> says_yes s p" "says_yes (worker_close c s) p \<longleftrightarrow> says_yes s p"
  "says_yes (negotiation_timer i peer q s) p \<longleftrightarrow> says_yes s p" "says_yes (removal_timer i peer q s) p \<longleftrightarrow> says_yes s p"
  "says_yes (port_timer i key q s) p \<longleftrightarrow> says_yes s p" "says_yes (permission_ends i r reason s) p \<longleftrightarrow> says_yes s p"
  "says_yes (kill_timer c s) p \<longleftrightarrow> says_yes s p"
  by (simp_all add: worker_stderr_def worker_error_def pipe_broken_def worker_close_def negotiation_timer_def removal_timer_def
      port_timer_def permission_ends_def kill_timer_def Let_def split: option.split prod.split)

text \<open>What a message has to be to settle the promise \<open>p\<close> of the worker with yes.\<close>

definition message_says_yes :: "worker \<Rightarrow> json \<Rightarrow> nat \<Rightarrow> bool" where
  "message_says_yes w message p \<longleftrightarrow>
     jfield ''type'' message = Some (JStr ''port-owned'') \<and> jfield ''owned'' message = Some (JBool True)
       \<and> jget (wk_checks w) (check_key (show_field ''peerId'' message) (show_field ''port'' message)) = Some p
     \<or> jfield ''type'' message = Some (JStr ''control-result'') \<and> jfield ''allowed'' message = Some (JBool True)
       \<and> (\<exists>r. wk_permission w = Some (r, p) \<and> jfield ''requestId'' message = Some (JInt (int r)))"

lemma str_ofD: "str_of v = x \<Longrightarrow> x \<noteq> [] \<Longrightarrow> v = Some (JStr x)"
  by (auto simp: str_of_def split: option.splits json.splits)

lemma yes_message:
  assumes "says_yes (worker_message i w message s) p" "\<not> says_yes s p"
  shows "message_says_yes w message p"
proof -
  let ?ty = "str_of (jfield ''type'' message)"
  consider "?ty = ''port-owned''" "says_yes (on_port_owned i w message s) p"
    | "?ty = ''control-result''" "says_yes (on_control_result i w message s) p"
    using assms by (auto simp: worker_message_def on_input_unavailable_def on_ready_def on_answer_sdp_def on_peer_failed_def
        on_peer_closed_def Let_def split: if_splits option.splits json.splits peer_entry.splits)
  then show ?thesis
  proof cases
    case 1
    then show ?thesis using assms(2) str_ofD [of "jfield ''type'' message" "''port-owned''"]
      by (auto simp: message_says_yes_def on_port_owned_def Let_def split: option.splits json.splits dest!: yes_settle)
  next
    case 2
    then show ?thesis using assms(2) str_ofD [of "jfield ''type'' message" "''control-result''"]
      by (auto simp: message_says_yes_def on_control_result_def split: option.splits json.splits if_splits dest!: yes_settle)
  qed
qed

text \<open>
  A worker that prints \<^verbatim>\<open>null\<close> on a line of its own makes the handler throw, and so does a control result that nothing asked
  for and that names no request; nothing catches it.
\<close>

lemma null_line_throws:
  "worker_of c s = Some iw \<Longrightarrow> parse line = Some JNull \<Longrightarrow> nm_threw (worker_line parse c line s)"
  by (cases iw) (simp add: worker_line_def worker_message_def)

lemma unasked_result_throws:
  assumes "worker_of c s = Some (i, w)" "wk_permission w = None"
    and "parse line = Some (JObj [(''type'', JStr ''control-result''), (''allowed'', JBool b)])"
  shows "nm_threw (worker_line parse c line s)"
  using assms by (simp add: worker_line_def worker_message_def on_control_result_def jfield_def str_of_def)

section \<open>Properties\<close>

text \<open>
  C20: no call to the workers is forgotten. After any calls, messages, failures, timers and exits, every promise has
  been settled once, or it waits with a worker whose process is still there; so the end of a worker answers all
  that waited for it. There are never more workers than allowed.
\<close>

theorem media_calls_settled:
  assumes "new_media m host = Inr s"
  shows "distinct (map fst (nm_settled (run (media_step parse) s es)))
    \<and> length (nm_workers (run (media_step parse) s es)) \<le> nat m
    \<and> (\<forall>p < nm_promises (run (media_step parse) s es).
         p \<in> fst ` set (nm_settled (run (media_step parse) s es))
         \<or> (\<exists>i w. jget (nm_workers (run (media_step parse) s es)) i = Some w \<and> waits w p))"
proof -
  from new_media_ok [OF assms] have ok: "frames_ok s" and max: "nm_max s = nat m" by auto
  have "frames_ok (run (media_step parse) s es)" by (rule media_frames.run_inv [OF ok])
  then show ?thesis using media_run_max [OF ok, of parse es] max
    by (auto simp: frames_ok_def calls_ok_def is_settled_def held_def)
qed

definition desktop_options :: start_options where
  "desktop_options = \<lparr>so_video = True, so_profile = [(''name'', JStr ''desktop'')], so_display = JNull, so_audioFormat = None,
     so_codec = None, so_encoderBackend = None\<rparr>"

theorem media_calls_settled_witness:
  "map_sum id (\<lambda>s. (map fst (nm_settled (run (media_step (\<lambda>_. None)) s
       [(0, Start_Worker ''a'' desktop_options), (0, Add_Peer ''a'' ''p'' ''v=0''), (1, Worker_Close 0)])),
     length (nm_workers (run (media_step (\<lambda>_. None)) s
       [(0, Start_Worker ''a'' desktop_options), (0, Add_Peer ''a'' ''p'' ''v=0''), (1, Worker_Close 0)])))) (new_media 1 True)
   = Inr ([1, 2, 0], 0) \<and> distinct [1, 2, 0 :: nat]"
proof -
  let ?es = "[(0, Start_Worker ''a'' desktop_options), (0, Add_Peer ''a'' ''p'' ''v=0''), (1, Worker_Close 0)]"
  obtain s where s: "new_media 1 True = Inr s" by (simp add: new_media_def)
  have v: "map fst (nm_settled (run (media_step (\<lambda>_. None)) s ?es)) = [1, 2, 0]" "nm_workers (run (media_step (\<lambda>_. None)) s ?es) = []"
    using s by (auto simp: new_media_def desktop_options_def start_worker_def addPeer_def worker_close_def worker_of_def put_worker_def
        write_worker_def settle_call_def accepts_calls_def jhas_def start_message_def Let_def)
  from media_calls_settled [OF s, of "\<lambda>_. None" ?es] v s show ?thesis by simp
qed

text \<open>
  Keyframes are limited for a source, however many viewers ask. Any two keyframes that one worker is asked for
  are at least two seconds apart, whatever the calls and the clock.
\<close>

theorem keyframes_apart:
  assumes "new_media m host = Inr s"
    and "i < j" "j < length (nm_keyframes (run (media_step parse) s es))"
    and "fst (nm_keyframes (run (media_step parse) s es) ! i) = fst (nm_keyframes (run (media_step parse) s es) ! j)"
  shows "snd (nm_keyframes (run (media_step parse) s es) ! i) + KEYFRAME_MS \<le> snd (nm_keyframes (run (media_step parse) s es) ! j)"
proof -
  from new_media_ok [OF assms(1)] have "frames_ok s" by simp
  then have "frames_ok (run (media_step parse) s es)" by (rule media_frames.run_inv)
  then show ?thesis using assms(2-4) by (auto simp: frames_ok_def sorted_wrt_iff_nth_less)
qed

theorem keyframes_apart_witness:
  "map_sum id (\<lambda>s. nm_keyframes (run (media_step (\<lambda>_. None)) s
       [(0, Start_Worker ''a'' desktop_options), (10, Keyframe ''a''), (1500, Keyframe ''a''), (2010, Keyframe ''a'')])) (new_media 1 True)
   = Inr [(0, 10), (0, 2010)] \<and> 10 + KEYFRAME_MS \<le> 2010"
proof -
  let ?es = "[(0, Start_Worker ''a'' desktop_options), (10, Keyframe ''a''), (1500, Keyframe ''a''), (2010, Keyframe ''a'')]"
  obtain s where s: "new_media 1 True = Inr s" by (simp add: new_media_def)
  have v: "nm_keyframes (run (media_step (\<lambda>_. None)) s ?es) = [(0, 10), (0, 2010)]"
    using s by (auto simp: new_media_def desktop_options_def start_worker_def keyframe_def put_worker_def write_worker_def
        accepts_calls_def jhas_def KEYFRAME_MS_def start_message_def Let_def)
  from keyframes_apart [OF s, of 0 1 "\<lambda>_. None" ?es] v s show ?thesis by simp
qed

text \<open>
  C8: a port counts as owned, and input as allowed, only on the word of the worker that was asked. Whatever happens,
  a call is answered yes only by a line of a running worker's own process, which is a yes to this very call: the
  port and peer of the check that waits, or the number of the permission that waits.
\<close>

theorem yes_only_from_worker:
  assumes "says_yes (media_step parse s (now, e)) p" "\<not> says_yes s p"
  shows "\<exists>c line message i w. e = Worker_Line c line \<and> parse line = Some message \<and> worker_of c s = Some (i, w)
    \<and> message_says_yes w message p"
proof (cases e)
  case (Worker_Line c line)
  with assms show ?thesis
    by (auto simp: worker_line_def split: option.splits prod.splits dest: yes_message)
qed (use assms in \<open>simp_all add: shutdown_media_def\<close>)

definition asked_port :: native where
  "asked_port =
     \<lparr>nm_workers = [(''a'', \<lparr>wk_launch = 0, wk_video = True, wk_stderr = [], wk_stopping = False, wk_broken = False, wk_peers = [],
        wk_permission = None, wk_keyframe = None, wk_ready = 1, wk_closed = 0, wk_checks = [(''p|40000'', 2)], wk_encoder = None,
        wk_input = None, wk_recovery = None\<rparr>)],
      nm_max = 1, nm_hostControl = True, nm_sequence = 0, nm_launched = 1, nm_promises = 3, nm_settled = [(1, Fulfilled)], nm_sent = [],
      nm_exits = [], nm_failed = [], nm_metrics = [], nm_keyframes = [], nm_killed = [], nm_threw = False\<rparr>"

definition owned_message :: json where
  "owned_message = JObj [(''type'', JStr ''port-owned''), (''peerId'', JStr ''p''), (''port'', JInt 40000), (''owned'', JBool True)]"

theorem yes_only_from_worker_witness:
  "says_yes (media_step (\<lambda>_. Some owned_message) asked_port (0, Worker_Line 0 ''x'')) 2
   \<and> (\<exists>w. worker_of 0 asked_port = Some (''a'', w) \<and> message_says_yes w owned_message 2)"
proof -
  have yes: "says_yes (media_step (\<lambda>_. Some owned_message) asked_port (0, Worker_Line 0 ''x'')) 2" "\<not> says_yes asked_port 2"
    by (simp_all add: asked_port_def owned_message_def says_yes_def worker_line_def worker_of_def worker_message_def on_port_owned_def
        check_key_def show_field_def jfield_def str_of_def settle_call_def put_worker_def Let_def dec_def dec_pos.simps char_of_def)
  from yes_only_from_worker [OF yes] have "\<exists>i w. worker_of 0 asked_port = Some (i, w) \<and> message_says_yes w owned_message 2" by auto
  moreover have "fst (the (worker_of 0 asked_port)) = ''a''" by (simp add: asked_port_def worker_of_def)
  ultimately show ?thesis using yes by auto
qed

end
