(* ===== verification/MediaModes.thy ===== *)
theory MediaModes
  imports JsPrelude
begin

text \<open>
  The small tables of the media side: \<^verbatim>\<open>apps/server/src/audio.mjs\<close>, \<^verbatim>\<open>profiles.mjs\<close>, \<^verbatim>\<open>rate-control.mjs\<close>,
  \<^verbatim>\<open>encoder-backends.mjs\<close> and \<^verbatim>\<open>video-codecs.mjs\<close>: the audio modes, the built-in profiles, the rate
  control defaults, which encoder the host uses and which codec a stream gets from the browser's
  offer. A lookup in a table object is a lookup of its own keys.
\<close>

section \<open>Case-insensitive matching of ASCII patterns\<close>

definition ascii_lower :: "char \<Rightarrow> char" where
  "ascii_lower c = (if is_upper c then char_of (code c + 32) else c)"

definition prefix_ci :: "string \<Rightarrow> string \<Rightarrow> bool" where
  "prefix_ci pat s \<longleftrightarrow> map ascii_lower (take (length pat) s) = map ascii_lower pat"

text \<open>\<^verbatim>\<open>/pat/i.test(s)\<close> for a literal pattern.\<close>

fun contains_ci :: "string \<Rightarrow> string \<Rightarrow> bool" where
  "contains_ci pat [] = prefix_ci pat []"
| "contains_ci pat (c # s) = (prefix_ci pat (c # s) \<or> contains_ci pat s)"

section \<open>Audio\<close>

record audio_mode =
  am_mode :: string
  am_enabled :: bool
  am_codec :: "string option"
  am_compression :: "string option"
  am_sampleRate :: "nat option"
  am_channels :: "nat option"
  am_bitrateKbps :: nat

definition audio_on :: audio_mode where
  "audio_on = \<lparr>am_mode = ''on'', am_enabled = True, am_codec = Some ''Opus'',
     am_compression = Some ''lossy'', am_sampleRate = Some 48000, am_channels = Some 2,
     am_bitrateKbps = 96\<rparr>"

definition audio_off :: audio_mode where
  "audio_off = \<lparr>am_mode = ''off'', am_enabled = False, am_codec = None, am_compression = None,
     am_sampleRate = None, am_channels = None, am_bitrateKbps = 0\<rparr>"

definition audio_table :: "(string, audio_mode) jmap" where
  "audio_table = [(''on'', audio_on), (''off'', audio_off)]"

definition audioModes :: "string list" where
  "audioModes = jkeys audio_table"

definition getAudioMode :: "string \<Rightarrow> audio_mode option" where
  "getAudioMode mode = jget audio_table mode"

definition chooseAudioMode :: "string option \<Rightarrow> audio_mode" where
  "chooseAudioMode requested =
     (case getAudioMode (case requested of None \<Rightarrow> ''on'' | Some m \<Rightarrow> m) of
        Some m \<Rightarrow> m
      | None \<Rightarrow> audio_on)"

section \<open>Rate control and the built-in profiles\<close>

definition BITRATE_MODES :: "string list" where
  "BITRATE_MODES = [''cbr'', ''vbr'']"

definition QUALITY_LEVELS :: "string list" where
  "QUALITY_LEVELS = [''efficient'', ''balanced'', ''high'']"

definition DEFAULT_BITRATE_MODE :: string where
  "DEFAULT_BITRATE_MODE = ''cbr''"

definition DEFAULT_QUALITY :: string where
  "DEFAULT_QUALITY = ''balanced''"

text \<open>The \<^verbatim>\<open>auto\<close> entry has a name and nothing else.\<close>

record numbers =
  n_width :: int
  n_height :: int
  n_fps :: int
  n_bitrateKbps :: int
  n_bitrateMode :: string
  n_quality :: string
  n_mtu :: int

record builtin_profile =
  bp_name :: string
  bp_numbers :: "numbers option"

definition fixed_numbers :: "int \<Rightarrow> int \<Rightarrow> int \<Rightarrow> int \<Rightarrow> numbers option" where
  "fixed_numbers w h f b = Some \<lparr>n_width = w, n_height = h, n_fps = f, n_bitrateKbps = b,
     n_bitrateMode = ''cbr'', n_quality = ''balanced'', n_mtu = 1200\<rparr>"

definition builtin_profiles :: "(string, builtin_profile) jmap" where
  "builtin_profiles =
     [(''auto'', \<lparr>bp_name = ''auto'', bp_numbers = None\<rparr>),
      (''iphone-720p-test'', \<lparr>bp_name = ''iphone-720p-test'', bp_numbers = fixed_numbers 1280 720 15 1000\<rparr>),
      (''desktop'', \<lparr>bp_name = ''desktop'', bp_numbers = fixed_numbers 2560 1440 30 6000\<rparr>),
      (''balanced'', \<lparr>bp_name = ''balanced'', bp_numbers = fixed_numbers 1920 1080 30 4000\<rparr>),
      (''mobile'', \<lparr>bp_name = ''mobile'', bp_numbers = fixed_numbers 1280 720 15 2000\<rparr>),
      (''low-bandwidth'', \<lparr>bp_name = ''low-bandwidth'', bp_numbers = fixed_numbers 960 540 15 1000\<rparr>)]"

definition profileNames :: "string list" where
  "profileNames = jkeys builtin_profiles"

definition getProfile :: "string \<Rightarrow> builtin_profile option" where
  "getProfile name = jget builtin_profiles name"

definition is_apple_mobile :: "string \<Rightarrow> bool" where
  "is_apple_mobile userAgent \<longleftrightarrow>
     contains_ci ''iPhone'' userAgent \<or> contains_ci ''iPad'' userAgent \<or> contains_ci ''iPod'' userAgent"

definition chooseProfile :: "string \<Rightarrow> string \<Rightarrow> builtin_profile option" where
  "chooseProfile requested userAgent =
     (case getProfile requested of
        Some p \<Rightarrow>
          if bp_name p \<noteq> ''auto'' then Some p
          else getProfile (if is_apple_mobile userAgent then ''iphone-720p-test'' else ''desktop'')
      | None \<Rightarrow> getProfile (if is_apple_mobile userAgent then ''iphone-720p-test'' else ''desktop''))"

section \<open>Encoder backends\<close>

record backend =
  be_id :: string
  be_codecs :: "string list"
  be_minimums :: "(string, int \<times> int) jmap"
  be_onCaptureAdapter :: bool

definition ENCODER_BACKENDS :: "string list" where
  "ENCODER_BACKENDS = [''nvenc'', ''qsv'', ''amf'', ''mediafoundation'', ''videotoolbox'']"

definition DEFAULT_ENCODER_BACKEND :: string where
  "DEFAULT_ENCODER_BACKEND = ''auto''"

definition ENCODER_BACKEND_CHOICES :: "string list" where
  "ENCODER_BACKEND_CHOICES = DEFAULT_ENCODER_BACKEND # ENCODER_BACKENDS"

text \<open>\<open>None\<close> stands for a list the probe did not deliver.\<close>

definition selectEncoderBackend :: "backend list option \<Rightarrow> string \<Rightarrow> string" where
  "selectEncoderBackend backends setting =
     (let available = (case backends of None \<Rightarrow> [] | Some bs \<Rightarrow> bs)
      in if setting \<noteq> DEFAULT_ENCODER_BACKEND \<and> (\<exists>b \<in> set available. be_id b = setting) then setting
         else case find (\<lambda>bid. \<exists>b \<in> set available. be_id b = bid \<and> be_onCaptureAdapter b) ENCODER_BACKENDS of
           Some bid \<Rightarrow> bid
         | None \<Rightarrow>
             (case find (\<lambda>bid. \<exists>b \<in> set available. be_id b = bid) ENCODER_BACKENDS of
                Some bid \<Rightarrow> bid
              | None \<Rightarrow> DEFAULT_ENCODER_BACKEND))"

section \<open>Codecs\<close>

definition VIDEO_CODECS :: "string list" where
  "VIDEO_CODECS = [''av1'', ''h265'', ''h264'']"

text \<open>\<^verbatim>\<open>sdp.split(/\r\n|\r|\n/)\<close>.\<close>

fun split_lines :: "string \<Rightarrow> string list" where
  "split_lines [] = [[]]"
| "split_lines (c # s) =
     (if c = CHR 10 then [] # split_lines s
      else if c = CHR 13 then
        [] # (case s of d # s' \<Rightarrow> if d = CHR 10 then split_lines s' else split_lines s | [] \<Rightarrow> [[]])
      else case split_lines s of p # ps \<Rightarrow> (c # p) # ps | [] \<Rightarrow> [[c]])"

definition is_word_char :: "char \<Rightarrow> bool" where
  "is_word_char c \<longleftrightarrow> is_alnum c \<or> c = CHR ''_''"

text \<open>\<^verbatim>\<open>/^m=video\b/i\<close>.\<close>

definition video_section :: "string \<Rightarrow> bool" where
  "video_section line \<longleftrightarrow> prefix_ci ''m=video'' line
     \<and> (case drop 7 line of [] \<Rightarrow> True | c # _ \<Rightarrow> \<not> is_word_char c)"

text \<open>The encoding name of \<^verbatim>\<open>/^a=rtpmap:\d+\s+([A-Za-z0-9-]+)\/90000/i\<close>.\<close>

definition rtpmap_name :: "string \<Rightarrow> string option" where
  "rtpmap_name line =
     (if \<not> prefix_ci ''a=rtpmap:'' line then None
      else let rest = drop 9 line;
               digits = takeWhile is_digit rest;
               rest1 = dropWhile is_digit rest;
               gap = takeWhile is_space rest1;
               rest2 = dropWhile is_space rest1;
               name = takeWhile (\<lambda>c. is_alnum c \<or> c = CHR ''-'') rest2;
               rest3 = dropWhile (\<lambda>c. is_alnum c \<or> c = CHR ''-'') rest2
           in if digits = [] \<or> gap = [] \<or> name = [] \<or> \<not> starts_with rest3 ''/90000'' then None
              else Some name)"

fun offered_lines :: "bool \<Rightarrow> string list \<Rightarrow> string list \<Rightarrow> string list" where
  "offered_lines inVideo found [] = found"
| "offered_lines inVideo found (line # rest) =
     (if starts_with line ''m='' then offered_lines (video_section line) found rest
      else if \<not> inVideo then offered_lines inVideo found rest
      else case rtpmap_name line of
        None \<Rightarrow> offered_lines inVideo found rest
      | Some name \<Rightarrow>
          if js_lower name \<in> set VIDEO_CODECS
          then offered_lines inVideo (List.insert (js_lower name) found) rest
          else offered_lines inVideo found rest)"

definition offeredVideoCodecs :: "string option \<Rightarrow> string list" where
  "offeredVideoCodecs sdp =
     (case sdp of None \<Rightarrow> [] | Some s \<Rightarrow> offered_lines False [] (split_lines s))"

definition canEncode :: "backend \<Rightarrow> string \<Rightarrow> int \<Rightarrow> int \<Rightarrow> bool" where
  "canEncode b codec width height =
     (if codec \<notin> set (be_codecs b) then False
      else case jget (be_minimums b) codec of
        None \<Rightarrow> True
      | Some (w, h) \<Rightarrow> w \<le> width \<and> h \<le> height)"

text \<open>The error carries HTTP status 400.\<close>

definition selectVideoCodec ::
  "string option \<Rightarrow> string list \<Rightarrow> backend list \<Rightarrow> int \<Rightarrow> int \<Rightarrow> string \<Rightarrow> string result" where
  "selectVideoCodec sdp policyCodecs backends width height encoderBackend =
     (let offered = offeredVideoCodecs sdp;
          forced = (encoderBackend \<noteq> ''auto'' \<and> (\<exists>b \<in> set backends. be_id b = encoderBackend));
          usable = (if forced then filter (\<lambda>b. be_id b = encoderBackend) backends else backends)
      in case find (\<lambda>codec. codec \<in> set offered \<and> (\<exists>b \<in> set usable. canEncode b codec width height)) policyCodecs of
           Some codec \<Rightarrow> Inr codec
         | None \<Rightarrow> Inl ''Browser must offer a supported video codec.'')"

section \<open>Lemmas\<close>

lemma offered_lines_subset: "set found \<subseteq> set VIDEO_CODECS \<Longrightarrow> set (offered_lines v found ls) \<subseteq> set VIDEO_CODECS"
  by (induction v found ls rule: offered_lines.induct) (auto split: option.splits)

lemma offered_known: "set (offeredVideoCodecs sdp) \<subseteq> set VIDEO_CODECS"
  by (auto simp: offeredVideoCodecs_def dest!: offered_lines_subset [THEN subsetD, rotated] split: option.splits)

lemma find_first:
  "find p xs = Some x \<Longrightarrow> \<exists>ys zs. xs = ys @ x # zs \<and> p x \<and> (\<forall>y \<in> set ys. \<not> p y)"
proof (induction xs)
  case Nil
  then show ?case by simp
next
  case (Cons a xs)
  show ?case
  proof (cases "p a")
    case True
    with Cons.prems show ?thesis by (intro exI [of _ "[]"] exI [of _ xs]) simp
  next
    case False
    with Cons obtain ys zs where "xs = ys @ x # zs" "p x" "\<forall>y \<in> set ys. \<not> p y" by auto
    with False show ?thesis by (intro exI [of _ "a # ys"] exI [of _ zs]) simp
  qed
qed

lemma found_or_error: "(case x of Some c \<Rightarrow> Inr c | None \<Rightarrow> Inl e) = Inr y \<Longrightarrow> x = Some y"
  by (cases x) simp_all

lemmas selectVideoCodec_find = found_or_error [OF trans [OF selectVideoCodec_def [unfolded Let_def, symmetric]]]

section \<open>Properties\<close>

text \<open>
  The codec of a stream is the first of the host's preferences that the browser offered for
  video and that a usable encoder takes at the stream's size, and it is always a codec VidVNC
  knows. When the named encoder is missing from the machine, all encoders are considered.
\<close>

theorem selectVideoCodec_first_usable:
  assumes "selectVideoCodec sdp policyCodecs backends width height encoderBackend = Inr codec"
  shows "codec \<in> set (offeredVideoCodecs sdp) \<and> codec \<in> set VIDEO_CODECS
    \<and> (\<exists>b \<in> set backends. canEncode b codec width height
         \<and> (encoderBackend \<noteq> ''auto'' \<and> encoderBackend \<in> be_id ` set backends \<longrightarrow> be_id b = encoderBackend))
    \<and> (\<exists>before after. policyCodecs = before @ codec # after
         \<and> (\<forall>c \<in> set before. c \<notin> set (offeredVideoCodecs sdp)
              \<or> (\<forall>b \<in> set backends. be_id b = encoderBackend \<or> encoderBackend \<notin> be_id ` set backends
                    \<or> encoderBackend = ''auto'' \<longrightarrow> \<not> canEncode b c width height)))"
proof -
  define usable where "usable = (if encoderBackend \<noteq> ''auto'' \<and> (\<exists>b \<in> set backends. be_id b = encoderBackend)
     then filter (\<lambda>b. be_id b = encoderBackend) backends else backends)"
  let ?p = "\<lambda>c. c \<in> set (offeredVideoCodecs sdp) \<and> (\<exists>b \<in> set usable. canEncode b c width height)"
  have "find ?p policyCodecs = Some codec"
    unfolding usable_def by (rule selectVideoCodec_find [OF assms])
  from find_first [OF this]
  obtain ys zs where f: "policyCodecs = ys @ codec # zs" "?p codec" "\<forall>c \<in> set ys. \<not> ?p c"
    by blast
  have u: "b \<in> set usable \<longleftrightarrow> b \<in> set backends \<and>
      (encoderBackend \<noteq> ''auto'' \<and> encoderBackend \<in> be_id ` set backends \<longrightarrow> be_id b = encoderBackend)" for b
    by (auto simp: usable_def)
  from f(3) have "\<forall>c \<in> set ys. c \<notin> set (offeredVideoCodecs sdp)
      \<or> (\<forall>b \<in> set backends. be_id b = encoderBackend \<or> encoderBackend \<notin> be_id ` set backends
            \<or> encoderBackend = ''auto'' \<longrightarrow> \<not> canEncode b c width height)"
    using u by blast
  moreover from f(2) obtain b where "b \<in> set usable" "canEncode b codec width height" by blast
  ultimately show ?thesis using f(1,2) offered_known [of sdp] u by blast
qed

theorem selectVideoCodec_first_usable_witness:
  "selectVideoCodec (Some (''m=video 9'' @ [CHR 10] @ ''a=rtpmap:96 H264/90000'' @ [CHR 13, CHR 10]
       @ ''a=rtpmap:97  AV1/90000''))
     [''h265'', ''av1'', ''h264''] [\<lparr>be_id = ''nvenc'', be_codecs = [''h264'', ''av1''],
       be_minimums = [(''av1'', (192, 128))], be_onCaptureAdapter = True\<rparr>] 1280 720 ''qsv'' = Inr ''av1''
   \<and> ''av1'' \<in> set VIDEO_CODECS"
proof -
  have h: "selectVideoCodec (Some (''m=video 9'' @ [CHR 10] @ ''a=rtpmap:96 H264/90000'' @ [CHR 13, CHR 10]
       @ ''a=rtpmap:97  AV1/90000''))
     [''h265'', ''av1'', ''h264''] [\<lparr>be_id = ''nvenc'', be_codecs = [''h264'', ''av1''],
       be_minimums = [(''av1'', (192, 128))], be_onCaptureAdapter = True\<rparr>] 1280 720 ''qsv'' = Inr ''av1''"
    by code_simp
  show ?thesis using selectVideoCodec_first_usable [OF h] h by blast
qed

end
