(* ===== verification/PeerNetwork.thy ===== *)
theory PeerNetwork
  imports MediaModes
begin

text \<open>
  \<^verbatim>\<open>apps/server/src/peer-network.mjs\<close> and \<^verbatim>\<open>relay-addresses.mjs\<close>: reading socket addresses, the unit a
  per-source limit counts, whether a peer is on the internet, and the addresses a client is told to
  send media to. \<^verbatim>\<open>isIP\<close> of Node is modelled by its documentation: a dotted quad without leading
  zeros, or an IPv6 text with an optional zone and an optional dotted tail. The network adapters of
  the machine are an argument.
\<close>

section \<open>Address texts\<close>

definition is_hex :: "char \<Rightarrow> bool" where
  "is_hex c \<longleftrightarrow> is_digit c \<or> (65 \<le> code c \<and> code c \<le> 70) \<or> (97 \<le> code c \<and> code c \<le> 102)"

definition digit_value :: "char \<Rightarrow> int" where
  "digit_value c =
     (if is_digit c then of_char c - 48
      else if 65 \<le> code c \<and> code c \<le> 70 then of_char c - 55 else of_char c - 87)"

text \<open>\<^verbatim>\<open>BigInt(s)\<close> on a string of digits of the base.\<close>

definition number_in :: "int \<Rightarrow> string \<Rightarrow> int" where
  "number_in base s = foldl (\<lambda>n c. n * base + digit_value c) 0 s"

definition is_octet :: "string \<Rightarrow> bool" where
  "is_octet s \<longleftrightarrow> s \<noteq> [] \<and> length s \<le> 3 \<and> list_all is_digit s \<and> (hd s = CHR ''0'' \<longrightarrow> length s = 1)
     \<and> number_in 10 s \<le> 255"

definition is_ipv4 :: "string \<Rightarrow> bool" where
  "is_ipv4 s \<longleftrightarrow> length (split_on (CHR ''.'') s) = 4 \<and> list_all is_octet (split_on (CHR ''.'') s)"

definition is_group :: "string \<Rightarrow> bool" where
  "is_group s \<longleftrightarrow> s \<noteq> [] \<and> length s \<le> 4 \<and> list_all is_hex s"

text \<open>\<^verbatim>\<open>s.split('::')\<close>.\<close>

fun split_dc :: "string \<Rightarrow> string list" where
  "split_dc [] = [[]]"
| "split_dc [c] = [[c]]"
| "split_dc (a # b # s) =
     (if a = CHR '':'' \<and> b = CHR '':'' then [] # split_dc s
      else case split_dc (b # s) of p # ps \<Rightarrow> (a # p) # ps | [] \<Rightarrow> [[a]])"

text \<open>\<^verbatim>\<open>part ? part.split(':') : []\<close>.\<close>

definition words_of :: "string \<Rightarrow> string list" where
  "words_of s = (if s = [] then [] else split_on (CHR '':'') s)"

text \<open>How many 16-bit groups a list of words fills; a dotted tail fills two.\<close>

fun groups_filled :: "bool \<Rightarrow> string list \<Rightarrow> nat option" where
  "groups_filled dotted [] = Some 0"
| "groups_filled dotted [w] = (if is_group w then Some 1 else if dotted \<and> is_ipv4 w then Some 2 else None)"
| "groups_filled dotted (w # v # ws) =
     (if is_group w then map_option Suc (groups_filled dotted (v # ws)) else None)"

definition is_zone :: "string \<Rightarrow> bool" where
  "is_zone s \<longleftrightarrow> s \<noteq> [] \<and> list_all (\<lambda>c. is_alnum c \<or> c \<in> {CHR ''-'', CHR ''.'', CHR '':''}) s"

definition is_ipv6_body :: "string \<Rightarrow> bool" where
  "is_ipv6_body s =
     (case split_dc s of
        [whole] \<Rightarrow> groups_filled True (words_of whole) = Some 8
      | [l, r] \<Rightarrow>
          (case (groups_filled False (words_of l), groups_filled True (words_of r)) of
             (Some i, Some j) \<Rightarrow> i + j \<le> 7
           | _ \<Rightarrow> False)
      | _ \<Rightarrow> False)"

definition is_ipv6 :: "string \<Rightarrow> bool" where
  "is_ipv6 s =
     (let body = takeWhile (\<lambda>c. c \<noteq> CHR ''%'') s; rest = drop (length body) s
      in is_ipv6_body body \<and> (rest = [] \<or> is_zone (tl rest)))"

definition isIP :: "string \<Rightarrow> nat" where
  "isIP s = (if is_ipv4 s then 4 else if is_ipv6 s then 6 else 0)"

section \<open>Values and prefixes\<close>

record bits =
  b_family :: nat
  b_width :: nat
  b_value :: int

text \<open>The eight words of an IPv6 text: \<^verbatim>\<open>::\<close> stands for as many zeros as are missing.\<close>

definition ipv6_words :: "string \<Rightarrow> string list" where
  "ipv6_words s =
     (let parts = split_dc s; left = words_of (hd parts);
          right = (case tl parts of [] \<Rightarrow> [] | r # _ \<Rightarrow> words_of r)
      in if 2 \<le> length parts then left @ replicate (8 - length left - length right) ''0'' @ right
         else left)"

definition bits_of :: "string \<Rightarrow> bits option" where
  "bits_of address =
     (if isIP address = 4
      then Some \<lparr>b_family = 4, b_width = 32,
             b_value = foldl (\<lambda>n octet. n * 256 + number_in 10 octet) 0 (split_on (CHR ''.'') address)\<rparr>
      else if isIP address \<noteq> 6 \<or> CHR ''.'' \<in> set address then None
      else (let words = ipv6_words (js_lower address)
            in if length words \<noteq> 8 then None
               else Some \<lparr>b_family = 6, b_width = 128,
                      b_value = foldl (\<lambda>n word. n * 65536 + number_in 16 word) 0 words\<rparr>))"

definition inside :: "string \<Rightarrow> string \<Rightarrow> nat \<Rightarrow> bool" where
  "inside address base prefix =
     (case (bits_of address, bits_of base) of
        (Some a, Some b) \<Rightarrow>
          b_family a = b_family b
          \<and> b_value a div 2 ^ (b_width a - prefix) = b_value b div 2 ^ (b_width a - prefix)
      | _ \<Rightarrow> False)"

definition plainAddress :: "string option \<Rightarrow> string" where
  "plainAddress address =
     (case address of
        None \<Rightarrow> []
      | Some s \<Rightarrow>
          (let plain = takeWhile (\<lambda>c. c \<noteq> CHR ''%'') s; quad = drop 7 plain;
               parts = split_on (CHR ''.'') quad
           in if prefix_ci ''::ffff:'' plain \<and> length parts = 4 \<and> list_all (\<lambda>p. p \<noteq> [] \<and> list_all is_digit p) parts
              then quad else plain))"

text \<open>\<^verbatim>\<open>word.replace(/^0+(?=.)/, '')\<close>: leading zeros go, but never the last digit.\<close>

fun strip_zeros :: "string \<Rightarrow> string" where
  "strip_zeros (a # b # s) = (if a = CHR ''0'' then strip_zeros (b # s) else a # b # s)"
| "strip_zeros s = s"

definition sourceGroup :: "string option \<Rightarrow> string" where
  "sourceGroup address =
     (let plain = plainAddress address
      in if isIP plain \<noteq> 6
         then (if plain \<noteq> [] then plain else case address of Some s \<Rightarrow> s | None \<Rightarrow> ''undefined'')
         else join_with '':'' (map strip_zeros (take 4 (ipv6_words (js_lower plain)))) @ ''::/64'')"

section \<open>Internet or not\<close>

definition PRIVATE :: "(string \<times> nat) list" where
  "PRIVATE = [(''10.0.0.0'', 8), (''172.16.0.0'', 12), (''192.168.0.0'', 16), (''127.0.0.0'', 8),
     (''169.254.0.0'', 16), (''100.64.0.0'', 10), (''::1'', 128), (''fe80::'', 10), (''fc00::'', 7)]"

definition isPrivateAddress :: "string option \<Rightarrow> bool" where
  "isPrivateAddress address \<longleftrightarrow>
     (\<exists>(base, prefix) \<in> set PRIVATE. inside (plainAddress address) base prefix)"

text \<open>One row of \<^verbatim>\<open>os.networkInterfaces()\<close>; a call that throws is \<open>None\<close>.\<close>

record adapter =
  ad_address :: "string option"
  ad_cidr :: "string option"
  ad_internal :: bool

type_synonym adapters = "(string, adapter list) jmap option"

definition adapterRows :: "adapters \<Rightarrow> adapter list" where
  "adapterRows interfaces = (case interfaces of None \<Rightarrow> [] | Some m \<Rightarrow> concat (jvals m))"

definition in_CGNAT :: "string \<Rightarrow> bool" where
  "in_CGNAT plain = inside plain ''100.64.0.0'' 10"

definition cgnatAdapter :: "adapters \<Rightarrow> bool" where
  "cgnatAdapter interfaces \<longleftrightarrow> (\<exists>row \<in> set (adapterRows interfaces). in_CGNAT (plainAddress (ad_address row)))"

text \<open>The prefix length of a CIDR text: the digits the operating system writes.\<close>

definition cidr_length :: "string list \<Rightarrow> nat" where
  "cidr_length parts =
     (case parts of _ # p # _ \<Rightarrow> if p \<noteq> [] \<and> list_all is_digit p then nat (number_in 10 p) else 0 | _ \<Rightarrow> 0)"

definition onLinkIpv6 :: "adapters \<Rightarrow> string \<Rightarrow> bool" where
  "onLinkIpv6 interfaces plain \<longleftrightarrow>
     (\<exists>row \<in> set (adapterRows interfaces).
        case ad_cidr row of
          None \<Rightarrow> False
        | Some cidr \<Rightarrow>
            (let parts = split_on (CHR ''/'') cidr; base = takeWhile (\<lambda>c. c \<noteq> CHR ''%'') (hd parts)
             in cidr \<noteq> [] \<and> isIP plain = 6 \<and> isIP base = 6 \<and> 0 < cidr_length parts
                \<and> inside plain base (cidr_length parts)))"

definition isInternet :: "adapters \<Rightarrow> string option \<Rightarrow> bool" where
  "isInternet interfaces address =
     (let plain = plainAddress address
      in if isIP plain = 0 then True
         else if in_CGNAT plain then \<not> cgnatAdapter interfaces
         else \<not> isPrivateAddress (Some plain) \<and> \<not> onLinkIpv6 interfaces plain)"

section \<open>Where media is sent\<close>

text \<open>\<^verbatim>\<open>/^fe[89ab][0-9a-f]:/i\<close>.\<close>

definition LINK_LOCAL :: "string \<Rightarrow> bool" where
  "LINK_LOCAL s \<longleftrightarrow> prefix_ci ''fe'' s \<and> 5 \<le> length s \<and> ascii_lower (s ! 2) \<in> set ''89ab''
     \<and> is_hex (s ! 3) \<and> s ! 4 = CHR '':''"

definition globalIpv6Addresses :: "adapters \<Rightarrow> string list" where
  "globalIpv6Addresses interfaces =
     filter (\<lambda>address. \<not> isPrivateAddress (Some address))
       (map (\<lambda>row. plainAddress (ad_address row))
         (filter (\<lambda>row. \<not> ad_internal row \<and> isIP (plainAddress (ad_address row)) = 6) (adapterRows interfaces)))"

definition localRelayAddresses :: "adapters \<Rightarrow> string option \<Rightarrow> string list result" where
  "localRelayAddresses interfaces localAddress =
     (let plain = plainAddress localAddress
      in if isIP plain = 0 then Inr []
         else if \<not> LINK_LOCAL plain then Inr [plain]
         else case interfaces of
           None \<Rightarrow> Inl ''interfaces''
         | Some m \<Rightarrow>
             (let owner = (case find (\<lambda>rows. \<exists>row \<in> set rows. plainAddress (ad_address row) = plain) (jvals m) of
                             Some rows \<Rightarrow> rows | None \<Rightarrow> [])
              in Inr (filter (\<lambda>address. isIP address \<noteq> 0 \<and> \<not> LINK_LOCAL address)
                   (map (\<lambda>row. plainAddress (ad_address row)) owner))))"

text \<open>\<open>resolved\<close> is the answer of the public-name resolver, a parameter here.\<close>

definition relayAddresses :: "adapters \<Rightarrow> string list \<Rightarrow> bool \<Rightarrow> string option \<Rightarrow> string list result" where
  "relayAddresses interfaces resolved internet localAddress =
     (case (if internet then Inr (resolved @ globalIpv6Addresses interfaces)
            else localRelayAddresses interfaces localAddress) of
        Inl e \<Rightarrow> Inl e
      | Inr addresses \<Rightarrow>
          if addresses = []
          then Inl (if internet then ''No public address to send media to.''
                    else ''No address to send media to on this network.'')
          else Inr addresses)"

section \<open>Lemmas: positional values\<close>

definition in_radix :: "int \<Rightarrow> int list \<Rightarrow> int" where
  "in_radix B ds = foldl (\<lambda>n d. n * B + d) 0 ds"

lemma in_radix_snoc [simp]: "in_radix B (ds @ [d]) = in_radix B ds * B + d"
  by (simp add: in_radix_def)

lemma in_radix_Nil [simp]: "in_radix B [] = 0"
  by (simp add: in_radix_def)

lemma foldl_in_radix: "foldl (\<lambda>n x. n * B + f x) 0 xs = in_radix B (map f xs)"
  by (simp add: in_radix_def foldl_map)

lemma in_radix_nonneg: "0 \<le> B \<Longrightarrow> \<forall>d \<in> set ds. 0 \<le> d \<Longrightarrow> 0 \<le> in_radix B ds"
  by (induction ds rule: rev_induct) auto

lemma in_radix_less: "0 < B \<Longrightarrow> \<forall>d \<in> set ds. 0 \<le> d \<and> d < B \<Longrightarrow> in_radix B ds < B ^ length ds"
proof (induction ds rule: rev_induct)
  case Nil
  then show ?case by simp
next
  case (snoc d ds)
  then have "in_radix B ds + 1 \<le> B ^ length ds" "d < B" by auto
  then have "(in_radix B ds + 1) * B \<le> B ^ length ds * B" using snoc.prems(1) by (intro mult_right_mono) auto
  with \<open>d < B\<close> show ?case by (simp add: algebra_simps)
qed

lemma in_radix_append: "in_radix B (ds @ es) = in_radix B ds * B ^ length es + in_radix B es"
  by (induction es rule: rev_induct) (simp_all add: append_assoc [symmetric] algebra_simps del: append_assoc)

lemma in_radix_div:
  assumes "0 < B" "\<forall>e \<in> set es. 0 \<le> e \<and> e < B"
  shows "in_radix B (ds @ es) div B ^ length es = in_radix B ds"
  using in_radix_less [OF assms] in_radix_nonneg [of B es] assms
  by (simp add: in_radix_append)

lemma radix_step_inj:
  fixes B :: int
  assumes "0 \<le> d" "d < B" "0 \<le> e" "e < B" "m * B + d = n * B + e"
  shows "m = n \<and> d = e"
proof -
  have "(m * B + d) mod B = d" using assms(1,2) by simp
  moreover have "(n * B + e) mod B = e" using assms(3,4) by simp
  ultimately have "d = e" using assms(5) by metis
  with assms show ?thesis by simp
qed

lemma in_radix_inj:
  assumes "0 < B" "length ds = length es" "\<forall>d \<in> set ds. 0 \<le> d \<and> d < B" "\<forall>e \<in> set es. 0 \<le> e \<and> e < B"
    and "in_radix B ds = in_radix B es"
  shows "ds = es"
  using assms(2-5)
proof (induction ds arbitrary: es rule: rev_induct)
  case Nil
  then show ?case by simp
next
  case (snoc d ds)
  from snoc.prems(1) obtain es' e where es: "es = es' @ [e]" by (cases es rule: rev_cases) auto
  have "in_radix B ds = in_radix B es' \<and> d = e"
    using snoc.prems unfolding es in_radix_snoc by (intro radix_step_inj [of d B e]) auto
  then show ?case using snoc.IH [of es'] snoc.prems es by simp
qed

lemma number_in_radix: "number_in B s = in_radix B (map digit_value s)"
  unfolding number_in_def by (rule foldl_in_radix)

section \<open>Lemmas: hexadecimal words\<close>

definition lower_hex :: "char \<Rightarrow> bool" where
  "lower_hex c \<longleftrightarrow> is_hex c \<and> \<not> is_upper c"

lemma digit_value_hex: "is_hex c \<Longrightarrow> 0 \<le> digit_value c \<and> digit_value c < 16"
  by (auto simp: is_hex_def digit_value_def is_digit_def code_of_char)

lemma digit_value_digit: "is_digit c \<Longrightarrow> 0 \<le> digit_value c \<and> digit_value c < 10"
  by (auto simp: digit_value_def is_digit_def code_of_char)

lemma digit_value_inj: "lower_hex c \<Longrightarrow> lower_hex d \<Longrightarrow> digit_value c = digit_value d \<longleftrightarrow> c = d"
  by (auto simp: lower_hex_def is_hex_def digit_value_def is_digit_def is_upper_def code_of_char
      code_inject [symmetric])

lemma code_zero: "code (CHR ''0'') = 48"
  by (simp add: code_def)

lemma digit_value_zero: "lower_hex c \<Longrightarrow> digit_value c = 0 \<longleftrightarrow> c = CHR ''0''"
  using code_zero
  by (auto simp: lower_hex_def is_hex_def digit_value_def is_digit_def is_upper_def code_of_char
      code_inject [symmetric])

lemma strip_zeros_value: "number_in 16 (strip_zeros s) = number_in 16 s"
proof (induction s rule: strip_zeros.induct)
  case (1 a b s)
  have "number_in 16 (CHR ''0'' # b # s) = number_in 16 (b # s)"
    using code_zero by (simp add: number_in_def digit_value_def is_digit_def code_of_char)
  with 1 show ?case by simp
qed simp_all

lemma set_strip_zeros: "set (strip_zeros s) \<subseteq> set s"
  by (induction s rule: strip_zeros.induct) auto

text \<open>No superfluous zero at the front.\<close>

definition canonical :: "string \<Rightarrow> bool" where
  "canonical s \<longleftrightarrow> s \<noteq> [] \<and> (2 \<le> length s \<longrightarrow> hd s \<noteq> CHR ''0'')"

lemma strip_zeros_canonical: "s \<noteq> [] \<Longrightarrow> canonical (strip_zeros s)"
  by (induction s rule: strip_zeros.induct) (auto simp: canonical_def)

lemma canonical_positive:
  assumes "list_all lower_hex s" "canonical (s @ [c])" "s \<noteq> []"
  shows "0 < number_in 16 s"
proof -
  obtain a t where s: "s = a # t" using assms(3) by (cases s) auto
  have a: "lower_hex a" "a \<noteq> CHR ''0''" using assms by (auto simp: s canonical_def)
  then have "digit_value a \<noteq> 0" "0 \<le> digit_value a"
    using digit_value_zero digit_value_hex by (simp_all add: lower_hex_def)
  then have "1 \<le> digit_value a" by linarith
  moreover have "0 \<le> number_in 16 t"
    using assms(1) digit_value_hex unfolding number_in_radix
    by (intro in_radix_nonneg) (auto simp: s list_all_iff lower_hex_def)
  moreover have "number_in 16 s = digit_value a * 16 ^ length t + number_in 16 t"
    using in_radix_append [of 16 "[digit_value a]" "map digit_value t"]
    by (simp add: s number_in_radix in_radix_def)
  ultimately show ?thesis by (smt (verit) mult_pos_pos zero_less_power)
qed

lemma canonical_inj:
  assumes "list_all lower_hex s" "list_all lower_hex t" "canonical s" "canonical t"
    and "number_in 16 s = number_in 16 t"
  shows "s = t"
  using assms
proof (induction s arbitrary: t rule: rev_induct)
  case Nil
  then show ?case by (simp add: canonical_def)
next
  case (snoc c s)
  obtain t' d where t: "t = t' @ [d]" using snoc.prems(4) by (cases t rule: rev_cases) (auto simp: canonical_def)
  have "number_in 16 s * 16 + digit_value c = number_in 16 t' * 16 + digit_value d"
    using snoc.prems(5) by (simp add: t number_in_def)
  moreover have cd: "lower_hex c" "lower_hex d" using snoc.prems by (auto simp: t)
  ultimately have e: "number_in 16 s = number_in 16 t'" "digit_value c = digit_value d"
    using digit_value_hex radix_step_inj unfolding lower_hex_def by blast+
  have "s = [] \<longleftrightarrow> t' = []"
  proof -
    have "number_in 16 [] = 0" by (simp add: number_in_def)
    moreover have "t' \<noteq> [] \<Longrightarrow> 0 < number_in 16 t'" "s \<noteq> [] \<Longrightarrow> 0 < number_in 16 s"
      using canonical_positive [of s c] canonical_positive [of t' d] snoc.prems(1-4) by (simp_all add: t)
    ultimately show ?thesis using e(1) by (metis less_irrefl)
  qed
  moreover have "s = t'" if "s \<noteq> []" "t' \<noteq> []"
  proof (rule snoc.IH)
    show "canonical s" "canonical t'" using that snoc.prems(3,4) by (auto simp: canonical_def t)
  qed (use snoc.prems e t in auto)
  ultimately show ?case using e(2) cd digit_value_inj t by auto
qed

lemma strip_zeros_eq:
  assumes "list_all lower_hex s" "list_all lower_hex t" "s \<noteq> []" "t \<noteq> []"
  shows "strip_zeros s = strip_zeros t \<longleftrightarrow> number_in 16 s = number_in 16 t"
proof
  assume "number_in 16 s = number_in 16 t"
  then have "number_in 16 (strip_zeros s) = number_in 16 (strip_zeros t)" by (simp only: strip_zeros_value)
  moreover have "list_all lower_hex (strip_zeros s)" "list_all lower_hex (strip_zeros t)"
    using assms(1,2) set_strip_zeros by (auto simp: list_all_iff)
  ultimately show "strip_zeros s = strip_zeros t"
    using canonical_inj strip_zeros_canonical assms(3,4) by blast
qed (metis strip_zeros_value)

section \<open>Lemmas: the words of an IPv6 text\<close>

lemma split_on_map:
  "\<forall>x \<in> set s. f x = c \<longleftrightarrow> x = c \<Longrightarrow> split_on c (map f s) = map (map f) (split_on c s)"
proof (induction s)
  case Nil
  then show ?case by simp
next
  case (Cons x s)
  then show ?case by (cases "split_on c s") auto
qed

lemma split_dc_nonempty [simp]: "split_dc s \<noteq> []"
  by (induction s rule: split_dc.induct) (auto split: list.splits)

lemma split_dc_map:
  "\<forall>x \<in> set s. f x = CHR '':'' \<longleftrightarrow> x = CHR '':'' \<Longrightarrow> split_dc (map f s) = map (map f) (split_dc s)"
proof (induction s rule: split_dc.induct)
  case (3 a b s)
  then show ?case by (cases "split_dc (b # s)") auto
qed simp_all

lemma set_split_on: "\<forall>w \<in> set (split_on c s). set w \<subseteq> set s"
proof (induction s)
  case Nil
  then show ?case by simp
next
  case (Cons x s)
  then show ?case by (cases "split_on c s") auto
qed

lemma set_split_dc: "\<forall>w \<in> set (split_dc s). set w \<subseteq> set s"
proof (induction s rule: split_dc.induct)
  case (3 a b s)
  then show ?case by (cases "split_dc (b # s)") auto
qed auto

lemma set_words_of: "w \<in> set (words_of s) \<Longrightarrow> set w \<subseteq> set s"
  using set_split_on by (fastforce simp: words_of_def split: if_splits)

lemma words_of_no_colon: "w \<in> set (words_of s) \<Longrightarrow> CHR '':'' \<notin> set w"
  by (auto simp: words_of_def split: if_splits dest: split_on_no_sep)

lemma lower_char_colon: "lower_char c = CHR '':'' \<longleftrightarrow> c = CHR '':''"
proof -
  have "code (CHR '':'') = 58" by (simp add: code_def)
  then show ?thesis
    by (auto simp: lower_char_def code_inject [symmetric] code_char_of is_upper_def)
qed

lemma words_of_lower: "words_of (js_lower s) = map js_lower (words_of s)"
  by (simp add: words_of_def js_lower_def split_on_map lower_char_colon)

lemma ipv6_words_lower: "ipv6_words (js_lower s) = map js_lower (ipv6_words s)"
proof -
  have parts: "split_dc (js_lower s) = map js_lower (split_dc s)"
    unfolding js_lower_def by (rule split_dc_map) (simp add: lower_char_colon)
  have z: "js_lower ''0'' = ''0''" by code_simp
  show ?thesis
  proof (cases "split_dc s")
    case Nil
    then show ?thesis by simp
  next
    case (Cons l rest)
    then show ?thesis
      by (cases rest) (simp_all add: ipv6_words_def parts words_of_lower z Let_def)
  qed
qed

lemma not_ipv4_without_dot: "CHR ''.'' \<notin> set w \<Longrightarrow> \<not> is_ipv4 w"
  by (simp add: is_ipv4_def split_on_no_char)

lemma groups_filled_plain:
  "groups_filled dotted ws = Some n \<Longrightarrow> \<forall>w \<in> set ws. CHR ''.'' \<notin> set w \<Longrightarrow> n = length ws \<and> list_all is_group ws"
  by (induction dotted ws arbitrary: n rule: groups_filled.induct)
    (auto simp: not_ipv4_without_dot split: if_splits)

lemma ipv6_words_ok:
  assumes "is_ipv6_body s" "CHR ''.'' \<notin> set s"
  shows "length (ipv6_words s) = 8" and "list_all is_group (ipv6_words s)"
    and "\<forall>w \<in> set (ipv6_words s). CHR '':'' \<notin> set w"
proof -
  have nodot: "\<forall>w \<in> set (words_of p). CHR ''.'' \<notin> set w" if "p \<in> set (split_dc s)" for p
    using assms(2) set_split_dc that set_words_of by blast
  have zero: "is_group ''0''" by code_simp
  have "length (ipv6_words s) = 8 \<and> list_all is_group (ipv6_words s) \<and> (\<forall>w \<in> set (ipv6_words s). CHR '':'' \<notin> set w)"
  proof (cases "\<exists>whole. split_dc s = [whole]")
    case True
    then obtain whole where w: "split_dc s = [whole]" by blast
    then have "groups_filled True (words_of whole) = Some 8" using assms(1) by (simp add: is_ipv6_body_def)
    with groups_filled_plain [OF this] nodot [of whole] w words_of_no_colon show ?thesis
      by (auto simp: ipv6_words_def Let_def)
  next
    case False
    then obtain l r where lr: "split_dc s = [l, r]"
      using assms(1) by (auto simp: is_ipv6_body_def split: list.splits)
    then obtain i j where "groups_filled False (words_of l) = Some i" "groups_filled True (words_of r) = Some j"
      "i + j \<le> 7"
      using assms(1) by (auto simp: is_ipv6_body_def split: option.splits)
    with groups_filled_plain [of False "words_of l" i] groups_filled_plain [of True "words_of r" j]
      nodot [of l] nodot [of r] lr
    have n: "length (words_of l) + length (words_of r) \<le> 7" "list_all is_group (words_of l)" "list_all is_group (words_of r)"
      by auto
    with lr zero words_of_no_colon show ?thesis
      by (auto simp: ipv6_words_def Let_def list_all_iff)
  qed
  then show "length (ipv6_words s) = 8" and "list_all is_group (ipv6_words s)"
    and "\<forall>w \<in> set (ipv6_words s). CHR '':'' \<notin> set w" by blast+
qed

lemma lower_hex_lower: "is_hex c \<Longrightarrow> lower_hex (lower_char c)"
  by (auto simp: lower_hex_def is_hex_def lower_char_def is_upper_def is_digit_def code_char_of)

lemma group_lower: "is_group w \<Longrightarrow> list_all lower_hex (js_lower w) \<and> js_lower w \<noteq> [] \<and> length (js_lower w) \<le> 4"
  by (auto simp: is_group_def js_lower_def list_all_iff lower_hex_lower)

lemma group_value:
  assumes "list_all lower_hex w" "length w \<le> 4"
  shows "0 \<le> number_in 16 w \<and> number_in 16 w < 65536"
proof -
  have d: "\<forall>d \<in> set (map digit_value w). 0 \<le> d \<and> d < 16"
    using assms(1) digit_value_hex by (auto simp: list_all_iff lower_hex_def)
  then have "number_in 16 w < 16 ^ length w"
    using in_radix_less [of 16 "map digit_value w"] by (simp add: number_in_radix)
  also have "\<dots> \<le> 16 ^ 4" using assms(2) by (intro power_increasing) auto
  finally show ?thesis using d in_radix_nonneg [of 16 "map digit_value w"] by (simp add: number_in_radix)
qed

text \<open>An IPv6 text without zone and dotted tail.\<close>

definition plain_ipv6 :: "string \<Rightarrow> bool" where
  "plain_ipv6 s \<longleftrightarrow> isIP s = 6 \<and> CHR ''.'' \<notin> set s \<and> CHR ''%'' \<notin> set s"

lemma no_percent: "CHR ''%'' \<notin> set s \<Longrightarrow> takeWhile (\<lambda>c. c \<noteq> CHR ''%'') s = s"
  by (simp add: takeWhile_eq_all_conv) blast

lemma plain_ipv6_body: "plain_ipv6 s \<Longrightarrow> is_ipv6_body s"
  by (auto simp: plain_ipv6_def isIP_def is_ipv6_def no_percent Let_def split: if_splits)

lemma plainAddress_no_dot: "CHR ''%'' \<notin> set s \<Longrightarrow> CHR ''.'' \<notin> set s \<Longrightarrow> plainAddress (Some s) = s"
proof -
  assume a: "CHR ''%'' \<notin> set s" "CHR ''.'' \<notin> set s"
  then have "CHR ''.'' \<notin> set (drop 7 s)" by (meson in_set_dropD)
  then have "split_on (CHR ''.'') (drop 7 s) = [drop 7 s]" by (rule split_on_no_char)
  with a(1) show ?thesis by (simp add: plainAddress_def no_percent Let_def)
qed

lemma js_lower_no_colon: "CHR '':'' \<notin> set w \<Longrightarrow> CHR '':'' \<notin> set (js_lower w)"
  using lower_char_colon by (metis (no_types, lifting) image_iff js_lower_def list.set_map)

lemma plain_ipv6_parts:
  assumes "plain_ipv6 s"
  obtains ws where "length ws = 8" "\<forall>w \<in> set ws. list_all lower_hex w \<and> w \<noteq> [] \<and> length w \<le> 4 \<and> CHR '':'' \<notin> set w"
    "ipv6_words (js_lower s) = ws"
    "bits_of s = Some \<lparr>b_family = 6, b_width = 128, b_value = in_radix 65536 (map (number_in 16) ws)\<rparr>"
    "sourceGroup (Some s) = join_with '':'' (map strip_zeros (take 4 ws)) @ ''::/64''"
proof
  let ?ws = "ipv6_words (js_lower s)"
  note ok = ipv6_words_ok [OF plain_ipv6_body [OF assms]]
  have nodot: "CHR ''.'' \<notin> set s" "isIP s = 6" "CHR ''%'' \<notin> set s" using assms by (simp_all add: plain_ipv6_def)
  show l: "length ?ws = 8" using ok(1) nodot by (simp add: ipv6_words_lower)
  show "\<forall>w \<in> set ?ws. list_all lower_hex w \<and> w \<noteq> [] \<and> length w \<le> 4 \<and> CHR '':'' \<notin> set w"
    using ok(2,3) nodot group_lower js_lower_no_colon by (auto simp: ipv6_words_lower list_all_iff)
  show "bits_of s = Some \<lparr>b_family = 6, b_width = 128, b_value = in_radix 65536 (map (number_in 16) ?ws)\<rparr>"
    using l nodot by (simp add: bits_of_def Let_def foldl_in_radix)
  show "sourceGroup (Some s) = join_with '':'' (map strip_zeros (take 4 ?ws)) @ ''::/64''"
    using nodot by (simp add: sourceGroup_def plainAddress_no_dot Let_def)
qed simp

lemma first_words_value:
  assumes "length ws = 8" "\<forall>w \<in> set ws. list_all lower_hex w \<and> length w \<le> 4"
  shows "in_radix 65536 (map (number_in 16) ws) div 2 ^ 64 = in_radix 65536 (map (number_in 16) (take 4 ws))"
proof -
  have "\<forall>e \<in> set (map (number_in 16) (drop 4 ws)). 0 \<le> e \<and> e < 65536"
    using assms(2) set_drop_subset [of 4 ws] group_value by auto
  from in_radix_div [OF _ this, of "map (number_in 16) (take 4 ws)"]
  show ?thesis using assms(1) by (simp add: map_append [symmetric] del: map_append)
qed

lemma join_inj:
  assumes "length ws = length vs" "ws \<noteq> []" "\<forall>w \<in> set ws \<union> set vs. c \<notin> set w"
    and "join_with [c] ws = join_with [c] vs"
  shows "ws = vs"
proof -
  have "split_on c (join_with [c] ws) = ws" using assms by (intro split_join) auto
  moreover have "split_on c (join_with [c] vs) = vs" using assms by (intro split_join) auto
  ultimately show ?thesis using assms(4) by metis
qed

definition hex_word :: "string \<Rightarrow> bool" where
  "hex_word w \<longleftrightarrow> list_all lower_hex w \<and> w \<noteq> [] \<and> length w \<le> 4 \<and> CHR '':'' \<notin> set w"

lemma same_texts:
  "length xs = length ys \<Longrightarrow> list_all hex_word xs \<Longrightarrow> list_all hex_word ys \<Longrightarrow>
    map strip_zeros xs = map strip_zeros ys \<longleftrightarrow> map (number_in 16) xs = map (number_in 16) ys"
  by (induction xs ys rule: list_induct2) (simp_all add: strip_zeros_eq hex_word_def)

lemma same_values:
  assumes "length xs = length ys" "list_all hex_word xs" "list_all hex_word ys"
  shows "map (number_in 16) xs = map (number_in 16) ys
    \<longleftrightarrow> in_radix 65536 (map (number_in 16) xs) = in_radix 65536 (map (number_in 16) ys)"
proof -
  have "\<forall>d \<in> set (map (number_in 16) zs). 0 \<le> d \<and> d < 65536" if "list_all hex_word zs" for zs
    using that group_value by (auto simp: list_all_iff hex_word_def)
  from in_radix_inj [OF _ _ this this, of xs ys] assms show ?thesis by auto
qed

lemma same_joins:
  assumes "length xs = length ys" "xs \<noteq> []" "list_all hex_word xs" "list_all hex_word ys"
  shows "join_with '':'' (map strip_zeros xs) @ z = join_with '':'' (map strip_zeros ys) @ z
    \<longleftrightarrow> map strip_zeros xs = map strip_zeros ys"
proof -
  have "\<forall>w \<in> set (map strip_zeros zs). CHR '':'' \<notin> set w" if "list_all hex_word zs" for zs
    using that set_strip_zeros by (fastforce simp: list_all_iff hex_word_def)
  then have "\<forall>w \<in> set (map strip_zeros xs) \<union> set (map strip_zeros ys). CHR '':'' \<notin> set w"
    using assms(3,4) by blast
  from join_inj [OF _ _ this] assms(1,2) show ?thesis by auto
qed

lemma plain_ipv6_ex:
  assumes "plain_ipv6 s" "bits_of s = Some a"
  shows "\<exists>ws. length ws = 8 \<and> list_all hex_word ws \<and> b_value a = in_radix 65536 (map (number_in 16) ws)
    \<and> sourceGroup (Some s) = join_with '':'' (map strip_zeros (take 4 ws)) @ ''::/64''"
proof (rule plain_ipv6_parts [OF assms(1)])
  fix ws
  assume ws: "length ws = 8" "\<forall>w \<in> set ws. list_all lower_hex w \<and> w \<noteq> [] \<and> length w \<le> 4 \<and> CHR '':'' \<notin> set w"
    and b: "bits_of s = Some \<lparr>b_family = 6, b_width = 128, b_value = in_radix 65536 (map (number_in 16) ws)\<rparr>"
    and g: "sourceGroup (Some s) = join_with '':'' (map strip_zeros (take 4 ws)) @ ''::/64''"
  have "list_all hex_word ws" using ws(2) by (simp add: list_all_iff hex_word_def)
  moreover have "b_value a = in_radix 65536 (map (number_in 16) ws)" using b assms(2) by simp
  ultimately show ?thesis using ws(1) g by blast
qed

lemma first_hex_words_value: "length ws = 8 \<Longrightarrow> list_all hex_word ws \<Longrightarrow>
    in_radix 65536 (map (number_in 16) ws) div 2 ^ 64 = in_radix 65536 (map (number_in 16) (take 4 ws))"
  by (rule first_words_value) (simp_all add: list_all_iff hex_word_def)

lemma hex_words_take: "list_all hex_word ws \<Longrightarrow> list_all hex_word (take n ws)"
  using set_take_subset by (fastforce simp: list_all_iff)

lemma split_on_chars: "set s \<subseteq> \<Union> (set ` set (split_on c s)) \<union> {c}"
proof (induction s)
  case Nil
  then show ?case by simp
next
  case (Cons x s)
  then show ?case by (cases "split_on c s") auto
qed

lemma ipv4_chars:
  assumes "is_ipv4 s"
  shows "\<forall>x \<in> set s. is_digit x \<or> x = CHR ''.''"
  using split_on_chars [of s "CHR ''.''"] assms
  by (fastforce simp: is_ipv4_def list_all_iff is_octet_def)

lemma digit_facts: "\<not> is_digit (CHR ''%'')" "\<not> is_digit (CHR '':'')" "ascii_lower (CHR '':'') = CHR '':''"
  by code_simp+

lemma ascii_lower_digit: "is_digit c \<or> c = CHR ''.'' \<Longrightarrow> ascii_lower c \<noteq> CHR '':''"
proof -
  assume c: "is_digit c \<or> c = CHR ''.''"
  have d: "code (CHR ''.'') = 46" by (simp add: code_def)
  have "\<not> is_upper c" using c d by (auto simp: is_upper_def is_digit_def)
  with c digit_facts(2) show ?thesis by (auto simp: ascii_lower_def)
qed

lemma plainAddress_ipv4:
  assumes "is_ipv4 s"
  shows "plainAddress (Some s) = s" and "plainAddress (Some (''::ffff:'' @ s)) = s"
proof -
  note ch = ipv4_chars [OF assms]
  have np: "CHR ''%'' \<notin> set s" using ch digit_facts(1) by fastforce
  have "s \<noteq> []" using assms by (auto simp: is_ipv4_def)
  then obtain x t where s: "s = x # t" by (cases s) auto
  then have "ascii_lower x \<noteq> CHR '':''" using ch ascii_lower_digit by simp
  then have "\<not> prefix_ci ''::ffff:'' s" by (simp add: prefix_ci_def s digit_facts(3))
  then show "plainAddress (Some s) = s" by (simp add: plainAddress_def no_percent np Let_def)
  have "prefix_ci ''::ffff:'' (''::ffff:'' @ s)" by (simp add: prefix_ci_def)
  moreover have "length (split_on (CHR ''.'') s) = 4 \<and> list_all (\<lambda>p. p \<noteq> [] \<and> list_all is_digit p) (split_on (CHR ''.'') s)"
    using assms by (auto simp: is_ipv4_def list_all_iff is_octet_def)
  moreover have "CHR ''%'' \<notin> set (''::ffff:'' @ s)" using np by simp
  then have "takeWhile (\<lambda>c. c \<noteq> CHR ''%'') (''::ffff:'' @ s) = ''::ffff:'' @ s" by (rule no_percent)
  moreover have "drop 7 (''::ffff:'' @ s) = s" by simp
  ultimately show "plainAddress (Some (''::ffff:'' @ s)) = s"
    unfolding plainAddress_def Let_def option.case by (simp only: simp_thms if_True)
qed

lemma plainAddress_zone: "CHR ''%'' \<notin> set s \<Longrightarrow> plainAddress (Some (s @ ''%'' @ z)) = plainAddress (Some s)"
proof -
  assume s: "CHR ''%'' \<notin> set s"
  have "takeWhile (\<lambda>c. c \<noteq> CHR ''%'') (s @ ''%'' @ z) = s" using s by (subst takeWhile_append2) auto
  then show ?thesis unfolding plainAddress_def option.case Let_def by (simp only: no_percent [OF s])
qed

lemma sourceGroup_ipv4:
  assumes "is_ipv4 q"
  shows "sourceGroup (Some q) = q" "sourceGroup (Some (''::ffff:'' @ q)) = q"
proof -
  have "q \<noteq> []" using assms by (auto simp: is_ipv4_def)
  then show "sourceGroup (Some q) = q" "sourceGroup (Some (''::ffff:'' @ q)) = q"
    unfolding sourceGroup_def plainAddress_ipv4 [OF assms] using assms by (simp_all add: isIP_def)
qed

section \<open>Properties\<close>



lemma dotted_other_group:
  "sourceGroup (Some ''::1:2:3:4:1.2.3.4'') = ''0:0:0:1::/64''" "sourceGroup (Some ''::1:2:3:4:102:304'') = ''0:0:1:2::/64''"
  by code_simp+

lemma octet_value: "is_octet s \<Longrightarrow> 0 \<le> number_in 10 s \<and> number_in 10 s < 256"
  using in_radix_nonneg [of 10 "map digit_value s"] digit_value_digit
  by (auto simp: is_octet_def number_in_radix list_all_iff)

lemma ipv4_bits:
  assumes "is_ipv4 s" "map (number_in 10) (split_on (CHR ''.'') s) = [a, b, c, d]"
  shows "bits_of s = Some \<lparr>b_family = 4, b_width = 32, b_value = ((a * 256 + b) * 256 + c) * 256 + d\<rparr>"
    and "0 \<le> a \<and> a < 256 \<and> 0 \<le> b \<and> b < 256 \<and> 0 \<le> c \<and> c < 256 \<and> 0 \<le> d \<and> d < 256"
proof -
  show "bits_of s = Some \<lparr>b_family = 4, b_width = 32, b_value = ((a * 256 + b) * 256 + c) * 256 + d\<rparr>"
    using assms by (simp add: bits_of_def isIP_def foldl_in_radix) (simp add: in_radix_def)
  have "\<forall>x \<in> set (map (number_in 10) (split_on (CHR ''.'') s)). 0 \<le> x \<and> x < 256"
    using assms(1) octet_value by (auto simp: is_ipv4_def list_all_iff)
  then show "0 \<le> a \<and> a < 256 \<and> 0 \<le> b \<and> b < 256 \<and> 0 \<le> c \<and> c < 256 \<and> 0 \<le> d \<and> d < 256"
    unfolding assms(2) by simp
qed

lemma upper_octets:
  fixes a b c d :: int
  assumes "0 \<le> c \<and> c < 256 \<and> 0 \<le> d \<and> d < 256" "q = 65536 * k" "0 < k"
  shows "(((a * 256 + b) * 256 + c) * 256 + d) div q = (a * 256 + b) div k"
proof -
  have e: "((a * 256 + b) * 256 + c) * 256 + d = (a * 256 + b) * 65536 + (c * 256 + d)" by simp
  have "(c * 256 + d) div 65536 = 0" using assms(1) by (intro div_pos_pos_trivial) auto
  then have "(((a * 256 + b) * 256 + c) * 256 + d) div 65536 = a * 256 + b"
    unfolding e by (simp only: div_mult_self3 zero_neq_numeral not_False_eq_True)
  then show ?thesis using assms(2,3) by (simp add: zdiv_zmult2_eq)
qed

lemma private_bases:
  "bits_of ''10.0.0.0'' = Some \<lparr>b_family = 4, b_width = 32, b_value = 167772160\<rparr>"
  "bits_of ''172.16.0.0'' = Some \<lparr>b_family = 4, b_width = 32, b_value = 2886729728\<rparr>"
  "bits_of ''192.168.0.0'' = Some \<lparr>b_family = 4, b_width = 32, b_value = 3232235520\<rparr>"
  "bits_of ''127.0.0.0'' = Some \<lparr>b_family = 4, b_width = 32, b_value = 2130706432\<rparr>"
  "bits_of ''169.254.0.0'' = Some \<lparr>b_family = 4, b_width = 32, b_value = 2851995648\<rparr>"
  "bits_of ''100.64.0.0'' = Some \<lparr>b_family = 4, b_width = 32, b_value = 1681915904\<rparr>"
  "map_option b_family (bits_of ''::1'') = Some 6" "map_option b_family (bits_of ''fe80::'') = Some 6"
  "map_option b_family (bits_of ''fc00::'') = Some 6"
  by code_simp+

lemma inside_ipv6_base:
  "bits_of s = Some v \<Longrightarrow> b_family v = 4 \<Longrightarrow> map_option b_family (bits_of base) = Some 6 \<Longrightarrow> \<not> inside s base p"
  by (auto simp: inside_def split: option.splits)

lemma octet_prefix:
  fixes a b :: int
  assumes "0 \<le> b" "b < 256" "k * m = 256" "0 < k" "0 < m" "0 \<le> E" "E < m"
  shows "(a * 256 + b) div k = A * m + E \<longleftrightarrow> a = A \<and> b div k = E"
proof -
  have "a * 256 + b = (a * m) * k + b" using assms(3) by (simp add: algebra_simps)
  then have e: "(a * 256 + b) div k = a * m + b div k"
    using assms(4) by (simp only: div_mult_self3)
  have "b div k < m"
  proof (rule ccontr)
    assume "\<not> b div k < m"
    then have "m * k \<le> b div k * k" using assms(4) by (intro mult_right_mono) auto
    moreover have "b div k * k \<le> b"
      using div_mult_mod_eq [of b k] pos_mod_sign [OF assms(4), of b] by linarith
    ultimately show False using assms(2,3) by (simp add: mult.commute)
  qed
  moreover have "0 \<le> b div k" using assms(1,4) by (simp add: pos_imp_zdiv_nonneg_iff)
  ultimately show ?thesis
    unfolding e using radix_step_inj [of "b div k" m E a A] assms(6,7) by auto
qed

lemma inside_ipv4_base:
  assumes "is_ipv4 s" "map (number_in 10) (split_on (CHR ''.'') s) = [a, b, c, d]"
  shows "inside s ''10.0.0.0'' 8 \<longleftrightarrow> a = 10"
    and "inside s ''172.16.0.0'' 12 \<longleftrightarrow> a = 172 \<and> 16 \<le> b \<and> b \<le> 31"
    and "inside s ''192.168.0.0'' 16 \<longleftrightarrow> a = 192 \<and> b = 168"
    and "inside s ''127.0.0.0'' 8 \<longleftrightarrow> a = 127"
    and "inside s ''169.254.0.0'' 16 \<longleftrightarrow> a = 169 \<and> b = 254"
    and "inside s ''100.64.0.0'' 10 \<longleftrightarrow> a = 100 \<and> 64 \<le> b \<and> b \<le> 127"
proof -
  note v = ipv4_bits [OF assms]
  have d: "(((a * 256 + b) * 256 + c) * 256 + d) div (65536 * k) = (a * 256 + b) div k" if "0 < k" for k
    using v(2) that by (intro upper_octets) auto
  have b: "0 \<le> b" "b < 256" using v(2) by simp_all
  have ins: "inside s base p \<longleftrightarrow> a = A \<and> b div k = E"
    if "bits_of base = Some \<lparr>b_family = 4, b_width = 32, b_value = w\<rparr>" "2 ^ (32 - p) = 65536 * k"
      "w div (65536 * k) = A * m + E" "k * m = 256" "0 < k" "0 < m" "0 \<le> E" "E < m"
    for base p w k m A E
    unfolding inside_def v(1) that(1)
    using d [OF that(5)] that(2,3) octet_prefix [OF b that(4-8), of a A] by simp
  show "inside s ''10.0.0.0'' 8 \<longleftrightarrow> a = 10"
    using b by (simp add: ins [OF private_bases(1), of _ 256 10 1 0])
  show "inside s ''127.0.0.0'' 8 \<longleftrightarrow> a = 127"
    using b by (simp add: ins [OF private_bases(4), of _ 256 127 1 0])
  show "inside s ''192.168.0.0'' 16 \<longleftrightarrow> a = 192 \<and> b = 168"
    by (simp add: ins [OF private_bases(3), of _ 1 192 256 168])
  show "inside s ''169.254.0.0'' 16 \<longleftrightarrow> a = 169 \<and> b = 254"
    by (simp add: ins [OF private_bases(5), of _ 1 169 256 254])
  have "b div 16 = 1 \<longleftrightarrow> 16 \<le> b \<and> b \<le> 31" "b div 64 = 1 \<longleftrightarrow> 64 \<le> b \<and> b \<le> 127"
    by presburger+
  then show "inside s ''172.16.0.0'' 12 \<longleftrightarrow> a = 172 \<and> 16 \<le> b \<and> b \<le> 31"
    and "inside s ''100.64.0.0'' 10 \<longleftrightarrow> a = 100 \<and> 64 \<le> b \<and> b \<le> 127"
    by (simp_all add: ins [OF private_bases(2), of _ 16 172 16 1] ins [OF private_bases(6), of _ 64 100 4 1])
qed

definition private_ipv4 :: "int \<Rightarrow> int \<Rightarrow> bool" where
  "private_ipv4 a b \<longleftrightarrow> a = 10 \<or> a = 172 \<and> 16 \<le> b \<and> b \<le> 31 \<or> a = 192 \<and> b = 168 \<or> a = 127 \<or> a = 169 \<and> b = 254"

text \<open>
  C27: which peers are the internet. A text that is no address is. For an IPv4 peer, written as such
  or mapped into IPv6, the answer depends on its first two octets: the private, loopback and
  link-local blocks are not the internet, 100.64.0.0/10 is exactly when this PC has no adapter in
  that block, and everything else is.
\<close>

theorem isInternet_classification:
  assumes "is_ipv4 s" "map (number_in 10) (split_on (CHR ''.'') s) = [a, b, c, d]"
    and "address = s \<or> address = ''::ffff:'' @ s"
  shows "(isInternet interfaces (Some address) \<longleftrightarrow>
      (if a = 100 \<and> 64 \<le> b \<and> b \<le> 127 then \<not> cgnatAdapter interfaces else \<not> private_ipv4 a b))
    \<and> (isIP (plainAddress other) = 0 \<longrightarrow> isInternet interfaces other)"
proof
  have plain: "plainAddress (Some address) = s"
    using assms(3) plainAddress_ipv4 [OF assms(1)] by blast
  have ip: "isIP s = 4" using assms(1) by (simp add: isIP_def)
  note ins = inside_ipv4_base [OF assms(1,2)]
  have six: "\<not> inside s ''::1'' 128" "\<not> inside s ''fe80::'' 10" "\<not> inside s ''fc00::'' 7"
    using inside_ipv6_base [OF ipv4_bits(1) [OF assms(1,2)]] private_bases by simp_all
  have "isPrivateAddress (Some s) \<longleftrightarrow> private_ipv4 a b \<or> a = 100 \<and> 64 \<le> b \<and> b \<le> 127"
    by (auto simp: isPrivateAddress_def PRIVATE_def plainAddress_ipv4 [OF assms(1)] ins six private_ipv4_def)
  moreover have "\<not> onLinkIpv6 interfaces s"
    using ip by (auto simp: onLinkIpv6_def Let_def split: option.splits)
  ultimately show "isInternet interfaces (Some address) \<longleftrightarrow>
      (if a = 100 \<and> 64 \<le> b \<and> b \<le> 127 then \<not> cgnatAdapter interfaces else \<not> private_ipv4 a b)"
    by (auto simp: isInternet_def plain Let_def ip in_CGNAT_def ins)
  show "isIP (plainAddress other) = 0 \<longrightarrow> isInternet interfaces other"
    by (simp add: isInternet_def Let_def)
qed

theorem isInternet_classification_witness:
  "isInternet None (Some ''::ffff:100.100.3.4'') \<and> \<not> isInternet None (Some ''172.20.0.9'')
    \<and> isInternet None (Some ''172.32.0.9'') \<and> isInternet None None"
proof -
  have o: "is_ipv4 ''100.100.3.4''" "is_ipv4 ''172.20.0.9''" "is_ipv4 ''172.32.0.9''" "isIP (plainAddress None) = 0"
    "map (number_in 10) (split_on (CHR ''.'') ''100.100.3.4'') = [100, 100, 3, 4]"
    "map (number_in 10) (split_on (CHR ''.'') ''172.20.0.9'') = [172, 20, 0, 9]"
    "map (number_in 10) (split_on (CHR ''.'') ''172.32.0.9'') = [172, 32, 0, 9]"
    by code_simp+
  have "\<not> cgnatAdapter None" by (simp add: cgnatAdapter_def adapterRows_def)
  then show ?thesis
    using isInternet_classification [OF o(1,5), of "''::ffff:100.100.3.4''" None None]
      isInternet_classification [OF o(2,6), of "''172.20.0.9''" None None]
      isInternet_classification [OF o(3,7), of "''172.32.0.9''" None None] o(4)
    by (simp add: private_ipv4_def)
qed

lemma find_in_set: "find p xs = Some x \<Longrightarrow> x \<in> set xs \<and> p x"
  by (auto simp: find_Some_iff)

text \<open>
  The addresses a client is told to send media to. A local client gets addresses only, none of
  them IPv6 link-local; the addresses this PC adds for an internet client are all public IPv6
  addresses of adapters that are not internal; and nobody gets an empty list.
\<close>

theorem relay_addresses_usable:
  assumes "relayAddresses interfaces resolved internet localAddress = Inr addresses"
  shows "addresses \<noteq> []
    \<and> (\<not> internet \<longrightarrow> (\<forall>x \<in> set addresses. isIP x \<noteq> 0 \<and> \<not> LINK_LOCAL x))
    \<and> (internet \<longrightarrow> (\<forall>x \<in> set addresses. x \<in> set resolved \<or> isIP x = 6 \<and> \<not> isPrivateAddress (Some x)
         \<and> (\<exists>row \<in> set (adapterRows interfaces). \<not> ad_internal row \<and> plainAddress (ad_address row) = x)))"
proof (cases internet)
  case True
  with assms have "addresses = resolved @ globalIpv6Addresses interfaces" "addresses \<noteq> []"
    by (auto simp: relayAddresses_def split: if_splits)
  with True show ?thesis by (auto simp: globalIpv6Addresses_def)
next
  case False
  with assms have l: "localRelayAddresses interfaces localAddress = Inr addresses" and ne: "addresses \<noteq> []"
    by (auto simp: relayAddresses_def split: if_splits sum.splits)
  from l have "\<forall>x \<in> set addresses. isIP x \<noteq> 0 \<and> \<not> LINK_LOCAL x"
    by (auto simp: localRelayAddresses_def Let_def split: if_splits option.splits)
  with False ne show ?thesis by simp
qed

theorem relay_addresses_usable_witness:
  "\<exists>addresses. relayAddresses (Some [(''eth0'', [\<lparr>ad_address = Some ''fe80::1'', ad_cidr = None, ad_internal = False\<rparr>,
       \<lparr>ad_address = Some ''192.168.1.2'', ad_cidr = None, ad_internal = False\<rparr>])]) [] False (Some ''fe80::1%3'')
     = Inr addresses \<and> addresses = [''192.168.1.2''] \<and> (\<forall>x \<in> set addresses. \<not> LINK_LOCAL x)"
proof -
  have r: "relayAddresses (Some [(''eth0'', [\<lparr>ad_address = Some ''fe80::1'', ad_cidr = None, ad_internal = False\<rparr>,
       \<lparr>ad_address = Some ''192.168.1.2'', ad_cidr = None, ad_internal = False\<rparr>])]) [] False (Some ''fe80::1%3'')
     = Inr [''192.168.1.2'']"
    by code_simp
  show ?thesis using relay_addresses_usable [OF r] r by blast
qed

end
