(* ===== verification/Displays.thy ===== *)
theory Displays
  imports PeerNetwork Json "HOL-Library.Multiset"
begin

text \<open>
  \<^verbatim>\<open>apps/server/src/displays.mjs\<close>: the inventory of the PC's displays and the choice of one for a viewer.
  \<open>digest\<close> is SHA-256 of the printed rows. On ids of hexadecimal digits \<^verbatim>\<open>localeCompare\<close> is the order of the
  characters.
\<close>

section \<open>The inventory\<close>

record display =
  di_id :: string
  di_primary :: bool
  di_persistent :: bool
  di_x :: int
  di_y :: int
  di_width :: int
  di_height :: int
  di_rotation :: int
  di_row :: json

definition safe_integer :: "json option \<Rightarrow> bool" where
  "safe_integer v = (case v of Some (JInt n) \<Rightarrow> \<bar>n\<bar> \<le> MAX_SAFE_INTEGER | _ \<Rightarrow> False)"

definition lower_hex_char :: "char \<Rightarrow> bool" where
  "lower_hex_char c \<longleftrightarrow> is_digit c \<or> 97 \<le> code c \<and> code c \<le> 102"

definition display_id :: "json option \<Rightarrow> bool" where
  "display_id v \<longleftrightarrow> is_str v \<and> length (str_of v) = 64 \<and> list_all lower_hex_char (str_of v)"

definition display_row_ok :: "json \<Rightarrow> bool" where
  "display_row_ok row \<longleftrightarrow>
     display_id (jfield ''id'' row) \<and> is_bool (jfield ''primary'' row) \<and> is_bool (jfield ''persistent'' row)
     \<and> list_all (\<lambda>key. safe_integer (jfield key row)) [''x'', ''y'', ''width'', ''height'']
     \<and> 1 \<le> int_of (jfield ''width'' row) \<and> 1 \<le> int_of (jfield ''height'' row)
     \<and> jfield ''rotation'' row \<in> {Some (JInt 0), Some (JInt 90), Some (JInt 180), Some (JInt 270)}"

definition display_of :: "json \<Rightarrow> display" where
  "display_of row =
     \<lparr>di_id = str_of (jfield ''id'' row), di_primary = (jfield ''primary'' row = Some (JBool True)),
      di_persistent = (jfield ''persistent'' row = Some (JBool True)), di_x = int_of (jfield ''x'' row),
      di_y = int_of (jfield ''y'' row), di_width = int_of (jfield ''width'' row), di_height = int_of (jfield ''height'' row),
      di_rotation = int_of (jfield ''rotation'' row), di_row = row\<rparr>"

text \<open>The loop over the rows: \<open>ids\<close> are those already seen.\<close>

fun display_rows :: "string list \<Rightarrow> json list \<Rightarrow> display list result" where
  "display_rows ids [] = Inr []"
| "display_rows ids (row # rows) =
     (if \<not> display_row_ok row \<or> str_of (jfield ''id'' row) \<in> set ids then Inl ''Invalid display inventory''
      else (case display_rows (str_of (jfield ''id'' row) # ids) rows of
              Inl e \<Rightarrow> Inl e
            | Inr displays \<Rightarrow> Inr (display_of row # displays)))"

fun text_le :: "string \<Rightarrow> string \<Rightarrow> bool" where
  "text_le [] _ = True"
| "text_le (_ # _) [] = False"
| "text_le (a # as) (b # bs) = (if a = b then text_le as bs else code a < code b)"

definition display_le :: "display \<Rightarrow> display \<Rightarrow> bool" where
  "display_le a b =
     (if di_primary a \<noteq> di_primary b then di_primary a
      else if di_x a \<noteq> di_x b then di_x a < di_x b
      else text_le (di_id a) (di_id b))"

text \<open>\<^verbatim>\<open>Array.sort\<close> is stable: a row goes behind those that are not greater.\<close>

fun insert_row :: "('a \<Rightarrow> 'a \<Rightarrow> bool) \<Rightarrow> 'a \<Rightarrow> 'a list \<Rightarrow> 'a list" where
  "insert_row le x [] = [x]"
| "insert_row le x (y # ys) = (if le x y then x # y # ys else y # insert_row le x ys)"

fun sort_rows :: "('a \<Rightarrow> 'a \<Rightarrow> bool) \<Rightarrow> 'a list \<Rightarrow> 'a list" where
  "sort_rows le [] = []"
| "sort_rows le (x # xs) = insert_row le x (sort_rows le xs)"

record inventory =
  iv_rows :: "(nat \<times> display) list"
  iv_revision :: string

definition update_inventory :: "(json list \<Rightarrow> string) \<Rightarrow> json \<Rightarrow> inventory result" where
  "update_inventory digest rows =
     (case rows of
        JArr rs \<Rightarrow>
          if 64 < length rs then Inl ''Invalid display inventory''
          else (case display_rows [] rs of
                  Inl e \<Rightarrow> Inl e
                | Inr displays \<Rightarrow>
                    Inr \<lparr>iv_rows = enumerate 1 (sort_rows display_le displays),
                      iv_revision = digest (map di_row (sort_rows (\<lambda>a b. text_le (di_id a) (di_id b)) displays))\<rparr>)
      | _ \<Rightarrow> Inl ''Invalid display inventory'')"

section \<open>The choice\<close>

text \<open>\<open>sharing\<close> is \<^verbatim>\<open>policy.displaySharing?.[id] === true\<close>.\<close>

definition sharing_of :: "json \<Rightarrow> string \<Rightarrow> bool" where
  "sharing_of policy displayId \<longleftrightarrow>
     (case jfield ''displaySharing'' policy of Some m \<Rightarrow> jfield displayId m = Some (JBool True) | None \<Rightarrow> False)"

definition allowed_displays :: "json \<Rightarrow> inventory \<Rightarrow> (nat \<times> display) list" where
  "allowed_displays policy found = filter (\<lambda>(_, d). di_persistent d \<and> sharing_of policy (di_id d)) (iv_rows found)"

definition select_display :: "json \<Rightarrow> string option \<Rightarrow> string option \<Rightarrow> inventory \<Rightarrow> (nat \<times> display) result" where
  "select_display policy displayId revision found =
     (if revision \<noteq> None \<and> revision \<noteq> Some (iv_revision found) then Inl ''Display arrangement changed. Refresh the display list.''
      else (case displayId of
          Some i \<Rightarrow>
            (case find (\<lambda>(_, d). di_id d = i) (iv_rows found) of
               None \<Rightarrow> Inl ''Selected display is unavailable''
             | Some (n, d) \<Rightarrow>
                 if \<not> di_persistent d \<or> \<not> sharing_of policy i then Inl ''Selected display is not shared'' else Inr (n, d))
        | None \<Rightarrow>
            (case (case find (\<lambda>(_, d). di_primary d) (allowed_displays policy found) of
                     Some r \<Rightarrow> Some r
                   | None \<Rightarrow> (case allowed_displays policy found of r # _ \<Rightarrow> Some r | [] \<Rightarrow> None)) of
               None \<Rightarrow> Inl ''No shared displays are available''
             | Some r \<Rightarrow> Inr r)))"

section \<open>Lemmas\<close>

lemma mset_insert_row [simp]: "mset (insert_row le x xs) = add_mset x (mset xs)"
  by (induction xs) auto

lemma mset_sort_rows [simp]: "mset (sort_rows le xs) = mset xs"
  by (induction xs) auto

lemma set_sort_rows [simp]: "set (sort_rows le xs) = set xs"
  using mset_sort_rows [of le xs] by (metis set_mset_mset)

lemma di_id_display_of [simp]: "di_id (display_of r) = str_of (jfield ''id'' r)"
  by (simp add: display_of_def)

lemma display_rows_ok:
  "display_rows ids rs = Inr ds \<Longrightarrow> ds = map display_of rs \<and> list_all display_row_ok rs \<and> distinct (map di_id ds)
     \<and> set (map di_id ds) \<inter> set ids = {}"
proof (induction rs arbitrary: ids ds)
  case (Cons r rs)
  then obtain es where es: "display_rows (str_of (jfield ''id'' r) # ids) rs = Inr es" and ds: "ds = display_of r # es"
    and r: "display_row_ok r" "str_of (jfield ''id'' r) \<notin> set ids"
    by (auto split: if_splits sum.splits)
  note rest = Cons.IH [OF es]
  have apart: "set (map di_id es) \<inter> set (str_of (jfield ''id'' r) # ids) = {}" "distinct (map di_id es)"
    and shape: "es = map display_of rs" "list_all display_row_ok rs"
    using rest by blast+
  from apart r(2) have "set (map di_id ds) \<inter> set ids = {}" "distinct (map di_id ds)" by (auto simp: ds)
  with shape r(1) show ?case by (simp add: ds)
qed simp

lemma enumerate_rows: "map snd (enumerate n xs) = xs" "map fst (enumerate n xs) = [n..<n + length xs]"
  by (simp_all add: enumerate_eq_zip)

section \<open>Properties\<close>

text \<open>
  A viewer is only ever given a display that the owner shares. Of any list of displays, an inventory has
  the same ones, numbered from 1 in their order, with distinct ids; and what it selects is one of them, a
  persistent one that the policy shares, with the id that was asked for, and for the revision asked for; with no id
  it is the primary one if that is shared.
\<close>

theorem only_shared_displays:
  assumes "update_inventory digest (JArr rs) = Inr found"
  shows "mset (map snd (iv_rows found)) = mset (map display_of rs) \<and> map fst (iv_rows found) = [1..<Suc (length rs)]
    \<and> distinct (map (di_id \<circ> snd) (iv_rows found))
    \<and> (select_display policy displayId revision found = Inr (n, d) \<longrightarrow>
         (n, d) \<in> set (iv_rows found) \<and> di_persistent d \<and> sharing_of policy (di_id d)
         \<and> (displayId \<noteq> None \<longrightarrow> displayId = Some (di_id d)) \<and> (revision \<noteq> None \<longrightarrow> revision = Some (iv_revision found))
         \<and> (displayId = None \<and> (\<exists>p \<in> set (allowed_displays policy found). di_primary (snd p)) \<longrightarrow> di_primary d))"
proof -
  obtain ds where ds: "display_rows [] rs = Inr ds" and found: "iv_rows found = enumerate 1 (sort_rows display_le ds)"
    using assms by (auto simp: update_inventory_def split: if_splits sum.splits)
  note rows = display_rows_ok [OF ds]
  have "distinct (map di_id (sort_rows display_le ds))"
    using rows by (metis mset_eq_imp_distinct_iff mset_map mset_sort_rows)
  then have apart: "distinct (map (di_id \<circ> snd) (iv_rows found))"
    by (simp add: found enumerate_rows flip: map_map)
  have "length (sort_rows display_le ds) = length rs"
    using rows mset_sort_rows [of display_le ds] by (metis length_map size_mset)
  then have same: "mset (map snd (iv_rows found)) = mset (map display_of rs)" "map fst (iv_rows found) = [1..<Suc (length rs)]"
    using rows by (simp_all add: found enumerate_rows)
  have "(n, d) \<in> set (iv_rows found) \<and> di_persistent d \<and> sharing_of policy (di_id d)
         \<and> (displayId \<noteq> None \<longrightarrow> displayId = Some (di_id d)) \<and> (revision \<noteq> None \<longrightarrow> revision = Some (iv_revision found))
         \<and> (displayId = None \<and> (\<exists>p \<in> set (allowed_displays policy found). di_primary (snd p)) \<longrightarrow> di_primary d)"
    if "select_display policy displayId revision found = Inr (n, d)"
  proof (cases displayId)
    case None
    with that have "find (\<lambda>(_, d). di_primary d) (allowed_displays policy found) = Some (n, d)
        \<or> find (\<lambda>(_, d). di_primary d) (allowed_displays policy found) = None \<and> (n, d) \<in> set (allowed_displays policy found)"
      by (auto simp: select_display_def split: if_splits option.splits list.splits)
    moreover have "revision \<noteq> None \<longrightarrow> revision = Some (iv_revision found)"
      using that by (auto simp: select_display_def split: if_splits)
    moreover have "(n, d) \<in> set (allowed_displays policy found) \<and> di_primary d"
      if "find (\<lambda>(_, d). di_primary d) (allowed_displays policy found) = Some (n, d)"
      using find_in_set [OF that] by simp
    moreover have "\<not> di_primary (snd p)"
      if "find (\<lambda>(_, d). di_primary d) (allowed_displays policy found) = None" "p \<in> set (allowed_displays policy found)" for p
      using that by (cases p) (auto simp: find_None_iff)
    ultimately show ?thesis using None by (fastforce simp: allowed_displays_def)
  next
    case (Some i)
    with that show ?thesis
      by (auto simp: select_display_def split: if_splits option.splits dest!: find_in_set)
  qed
  with apart same show ?thesis by blast
qed

definition sample_display :: "char \<Rightarrow> bool \<Rightarrow> json" where
  "sample_display c primary =
     JObj [(''id'', JStr (replicate 64 c)), (''primary'', JBool primary), (''persistent'', JBool True), (''x'', JInt 0), (''y'', JInt 0),
       (''width'', JInt 1920), (''height'', JInt 1080), (''rotation'', JInt 0)]"

theorem only_shared_displays_witness:
  "\<exists>found. update_inventory (\<lambda>_. ''r'') (JArr [sample_display (CHR ''b'') False, sample_display (CHR ''a'') True]) = Inr found
     \<and> map fst (iv_rows found) = [1, 2]
     \<and> select_display (JObj [(''displaySharing'', JObj [(replicate 64 (CHR ''b''), JBool True)])]) None None found
        = Inr (2, display_of (sample_display (CHR ''b'') False))
     \<and> di_persistent (display_of (sample_display (CHR ''b'') False))"
proof -
  let ?rows = "[sample_display (CHR ''b'') False, sample_display (CHR ''a'') True]"
  let ?found = "\<lparr>iv_rows = [(1, display_of (sample_display (CHR ''a'') True)), (2, display_of (sample_display (CHR ''b'') False))],
      iv_revision = ''r''\<rparr>"
  let ?policy = "JObj [(''displaySharing'', JObj [(replicate 64 (CHR ''b''), JBool True)])]"
  have found: "update_inventory (\<lambda>_. ''r'') (JArr ?rows) = Inr ?found" by code_simp
  have selected: "select_display ?policy None None ?found = Inr (2, display_of (sample_display (CHR ''b'') False))" by code_simp
  from only_shared_displays [OF found, of ?policy None None 2 "display_of (sample_display (CHR ''b'') False)"] selected found
  show ?thesis by (intro exI [of _ ?found]) auto
qed

end
