(* ===== verification/StreamPolicy.thy ===== *)
theory StreamPolicy
  imports MediaModes Json Complex_Main
begin

text \<open>
  \<^verbatim>\<open>apps/server/src/stream-policy.mjs\<close>: the policy file's validation with the defaults for older files,
  the resolution of a viewer's request to a plan, and the output size. The size is computed in
  double arithmetic: every arithmetic result goes through the rounding \<open>fl\<close>, a parameter, on exact
  rationals. Messages are ASCII.
\<close>

section \<open>Tables\<close>

definition seeds :: "(string \<times> string \<times> string) list" where
  "seeds = [(''iphone-720p-test'', ''iPhone 720p'', ''Conservative starting point for iPhone''),
     (''mobile'', ''Mobile'', ''Compact picture for smaller screens''),
     (''balanced'', ''Balanced'', ''Everyday desktop use''),
     (''desktop'', ''Desktop'', ''More detail for larger screens''),
     (''low-bandwidth'', ''Low bandwidth'', ''Lower data use'')]"

definition SIZINGS :: "string list" where "SIZINGS = [''height'', ''width'', ''scale'', ''fixed'']"
definition ASPECTS :: "string list" where "ASPECTS = [''keep'', ''fit'', ''stretch'']"
definition SEED_IDS :: "string list" where "SEED_IDS = map fst seeds"

definition POLICY_KEYS :: "string list" where
  "POLICY_KEYS = [''schemaVersion'', ''revision'', ''profiles'', ''defaultProfileId'', ''displayDefaults'',
     ''displaySharing'', ''allowAudio'', ''videoCodecs'', ''encoderBackend'', ''clientMode'', ''allowedOptions'']"

definition PROFILE_KEYS :: "string list" where
  "PROFILE_KEYS = [''id'', ''name'', ''description'', ''enabled'', ''width'', ''height'', ''fps'', ''bitrateKbps'',
     ''bitrateMode'', ''quality'', ''frameDelivery'', ''sizing'', ''scalePercent'', ''aspect'']"

section \<open>The default policy\<close>

definition default_profile :: "string \<times> string \<times> string \<Rightarrow> json" where
  "default_profile seed =
     (case seed of (pid, name, description) \<Rightarrow>
        (case getProfile pid of
           Some p \<Rightarrow> (case bp_numbers p of
             Some n \<Rightarrow> JObj [(''id'', JStr pid), (''name'', JStr name), (''description'', JStr description),
               (''enabled'', JBool True), (''width'', JInt (n_width n)), (''height'', JInt (n_height n)),
               (''fps'', JInt (n_fps n)), (''bitrateKbps'', JInt (n_bitrateKbps n)),
               (''bitrateMode'', JStr (n_bitrateMode n)), (''quality'', JStr (n_quality n)),
               (''frameDelivery'', JStr ''fixed''), (''sizing'', JStr ''height''), (''scalePercent'', JInt 100),
               (''aspect'', JStr ''keep'')]
           | None \<Rightarrow> JNull)
         | None \<Rightarrow> JNull))"

definition size_obj :: "int \<Rightarrow> int \<Rightarrow> json" where
  "size_obj w h = JObj [(''width'', JInt w), (''height'', JInt h)]"

definition defaultStreamPolicy :: json where
  "defaultStreamPolicy = JObj
     [(''schemaVersion'', JInt 1), (''revision'', JInt 0), (''profiles'', JArr (map default_profile seeds)),
      (''defaultProfileId'', JStr ''auto''), (''displayDefaults'', JObj []), (''displaySharing'', JNull),
      (''allowAudio'', JBool True), (''videoCodecs'', JArr (map JStr VIDEO_CODECS)),
      (''encoderBackend'', JStr DEFAULT_ENCODER_BACKEND), (''clientMode'', JStr ''profiles''),
      (''allowedOptions'', JObj
         [(''resolutions'', JArr [size_obj 960 540, size_obj 1280 720, size_obj 1920 1080, size_obj 2560 1440]),
          (''frameRates'', JArr [JInt 15, JInt 30]),
          (''bitratesKbps'', JArr [JInt 1000, JInt 2000, JInt 4000, JInt 6000])])]"

section \<open>Validation\<close>

text \<open>Fields that files from before they existed lack.\<close>

definition upgrade_profile :: "json \<Rightarrow> json" where
  "upgrade_profile p =
     (if is_plain_object p then
        (let seed = (case jfield ''id'' p of Some (JStr s) \<Rightarrow> s \<in> set SEED_IDS | _ \<Rightarrow> False)
         in with_default ''aspect'' (JStr (if seed then ''keep'' else ''fit''))
              (with_default ''scalePercent'' (JInt 100)
                (with_default ''sizing'' (JStr (if seed then ''height'' else ''fixed''))
                  (with_default ''quality'' (JStr DEFAULT_QUALITY)
                    (with_default ''bitrateMode'' (JStr DEFAULT_BITRATE_MODE) p)))))
      else p)"

definition upgrade_policy :: "json \<Rightarrow> json" where
  "upgrade_policy v =
     (let v1 = with_default ''encoderBackend'' (JStr DEFAULT_ENCODER_BACKEND)
                 (with_default ''videoCodecs'' (JArr (map JStr VIDEO_CODECS))
                   (with_default ''displaySharing'' JNull v))
      in if is_object_like v1 \<and> is_arr (jget (jspread v1) ''profiles'')
         then JObj (jset ''profiles'' (JArr (map upgrade_profile (arr_of (jget (jspread v1) ''profiles'')))) (jspread v1))
         else v1)"

definition dimension_checks :: "json \<Rightarrow> checks" where
  "dimension_checks v =
     integer_check (jfield ''width'' v) 64 4096 ''Width'' @ integer_check (jfield ''height'' v) 64 4096 ''Height''
     @ [(even (int_of (jfield ''width'' v)) \<and> even (int_of (jfield ''height'' v)), ''Output dimensions must be even'')]"

definition numericPlan_checks :: "json \<Rightarrow> checks" where
  "numericPlan_checks v =
     dimension_checks v @ integer_check (jfield ''fps'' v) 1 60 ''Frame rate''
     @ integer_check (jfield ''bitrateKbps'' v) 100 50000 ''Video bitrate''"

text \<open>\<^verbatim>\<open>/^[a-z0-9][a-z0-9-]{0,63}$/\<close>.\<close>

definition slug_char :: "char \<Rightarrow> bool" where
  "slug_char c \<longleftrightarrow> is_lower c \<or> is_digit c"

definition is_profile_id :: "string \<Rightarrow> bool" where
  "is_profile_id s \<longleftrightarrow> s \<noteq> [] \<and> slug_char (hd s) \<and> length s \<le> 64
     \<and> list_all (\<lambda>c. slug_char c \<or> c = CHR ''-'') (tl s)"

definition one_of :: "string list \<Rightarrow> json option \<Rightarrow> bool" where
  "one_of choices v = (case v of Some (JStr s) \<Rightarrow> s \<in> set choices | _ \<Rightarrow> False)"

definition profile_checks :: "string list \<Rightarrow> json \<Rightarrow> checks" where
  "profile_checks ids p =
     object_checks (Some p) PROFILE_KEYS ''Profile''
     @ [(is_str (jfield ''id'' p) \<and> is_profile_id (str_of (jfield ''id'' p))
           \<and> str_of (jfield ''id'' p) \<notin> {''auto'', ''custom''}, ''Invalid profile ID''),
        (str_of (jfield ''id'' p) \<notin> set ids, ''Duplicate profile ID'')]
     @ text_check (jfield ''name'' p) 1 64 ''Profile name'' @ text_check (jfield ''description'' p) 0 240 ''Description''
     @ [(is_bool (jfield ''enabled'' p), ''Profile availability must be boolean''),
        (jfield ''frameDelivery'' p = Some (JStr ''fixed''), ''Variable frame delivery is not supported yet''),
        (one_of BITRATE_MODES (jfield ''bitrateMode'' p), ''Bitrate mode is invalid''),
        (one_of QUALITY_LEVELS (jfield ''quality'' p), ''Quality is invalid''),
        (one_of SIZINGS (jfield ''sizing'' p), ''Sizing is invalid''),
        (one_of ASPECTS (jfield ''aspect'' p), ''Aspect is invalid'')]
     @ integer_check (jfield ''scalePercent'' p) 10 400 ''Scale percentage'' @ numericPlan_checks p"

text \<open>The loop over the profiles with the ids seen so far.\<close>

fun profiles_checks :: "string list \<Rightarrow> json list \<Rightarrow> checks" where
  "profiles_checks ids [] = []"
| "profiles_checks ids (p # ps) = profile_checks ids p @ profiles_checks (str_of (jfield ''id'' p) # ids) ps"

definition is_enabled :: "json \<Rightarrow> bool" where
  "is_enabled p \<longleftrightarrow> jfield ''enabled'' p = Some (JBool True)"

definition enabled_ids :: "json \<Rightarrow> string list" where
  "enabled_ids v = map (\<lambda>p. str_of (jfield ''id'' p)) (filter is_enabled (arr_of (jfield ''profiles'' v)))"

definition default_checks :: "json \<Rightarrow> checks" where
  "default_checks v =
     [(enabled_ids v \<noteq> [], ''At least one profile must remain available''),
      (one_of (''auto'' # enabled_ids v) (jfield ''defaultProfileId'' v), ''Default profile must refer to an available profile''),
      ((case jfield ''displayDefaults'' v of Some (JObj m) \<Rightarrow> length m \<le> 128 | _ \<Rightarrow> False), ''Display defaults are invalid'')]
     @ concat (map (\<lambda>(display, profile).
          text_check (Some (JStr display)) 1 256 ''Display ID''
          @ [(display \<notin> {''__proto__'', ''constructor'', ''prototype''}, ''Invalid display ID''),
             (one_of (enabled_ids v) (Some profile), ''Display default must refer to an available profile'')])
        (obj_of (jfield ''displayDefaults'' v)))"

definition is_display_id :: "string \<Rightarrow> bool" where
  "is_display_id s \<longleftrightarrow> length s = 64 \<and> list_all (\<lambda>c. is_digit c \<or> (97 \<le> code c \<and> code c \<le> 102)) s"

definition media_checks :: "json \<Rightarrow> checks" where
  "media_checks v =
     (let codecs = arr_of (jfield ''videoCodecs'' v)
      in [(is_bool (jfield ''allowAudio'' v), ''Audio policy must be boolean''),
          (is_arr (jfield ''videoCodecs'' v) \<and> codecs \<noteq> [], ''Video codecs must be a list''),
          (\<forall>c \<in> set codecs. one_of VIDEO_CODECS (Some c), ''Unknown video codec''),
          (distinct codecs, ''Video codecs contain duplicates''),
          (JStr ''h264'' \<in> set codecs, ''H.264 must stay enabled''),
          (one_of ENCODER_BACKEND_CHOICES (jfield ''encoderBackend'' v), ''Encoder backend is invalid''),
          ((case jfield ''displaySharing'' v of
              Some JNull \<Rightarrow> True
            | Some (JObj m) \<Rightarrow> length m \<le> 128 \<and> (\<forall>(did, allowed) \<in> set m. is_display_id did \<and> is_bool (Some allowed))
            | _ \<Rightarrow> False), ''Display sharing is invalid''),
          (one_of [''profiles'', ''options''] (jfield ''clientMode'' v), ''Invalid client customization mode'')])"

definition option_checks :: "json \<Rightarrow> checks" where
  "option_checks v =
     (let options = jfield ''allowedOptions'' v; field = (\<lambda>k. case options of Some x \<Rightarrow> jfield k x | None \<Rightarrow> None)
      in object_checks options [''resolutions'', ''frameRates'', ''bitratesKbps''] ''Allowed options''
         @ list_check (field ''resolutions'') ''Resolutions'' @ list_check (field ''frameRates'') ''Frame rates''
         @ list_check (field ''bitratesKbps'') ''Bitrates''
         @ concat (map (\<lambda>r. object_checks (Some r) [''width'', ''height''] ''Resolution'' @ dimension_checks r)
             (arr_of (field ''resolutions'')))
         @ concat (map (\<lambda>f. integer_check (Some f) 1 60 ''Frame rate'') (arr_of (field ''frameRates'')))
         @ concat (map (\<lambda>b. integer_check (Some b) 100 50000 ''Video bitrate'') (arr_of (field ''bitratesKbps''))))"

definition policy_checks :: "json \<Rightarrow> checks" where
  "policy_checks v =
     object_checks (Some v) POLICY_KEYS ''Policy''
     @ [(jfield ''schemaVersion'' v = Some (JInt 1), ''Unsupported stream policy schema version'')]
     @ integer_check (jfield ''revision'' v) 0 (MAX_SAFE_INTEGER - 1) ''Revision''
     @ list_check (jfield ''profiles'' v) ''Profiles''
     @ profiles_checks [] (arr_of (jfield ''profiles'' v))
     @ default_checks v @ media_checks v @ option_checks v
     @ [(byteLength (stringify v) \<le> 65536, ''Stream policy exceeds 64 KiB'')]"

definition validateStreamPolicy :: "json \<Rightarrow> json result" where
  "validateStreamPolicy value = (let v = upgrade_policy value in checked (policy_checks v) v)"

text \<open>
  An upper bound of the printed size from the lengths of the texts alone; where it is in range the
  evaluation of a validation does not print the policy.
\<close>

fun json_bound :: "json \<Rightarrow> int" where
  "json_bound JNull = 4"
| "json_bound (JBool b) = 5"
| "json_bound (JInt n) = 2 * int (length (dec n))"
| "json_bound (JDec s) = 2 * int (length s)"
| "json_bound (JStr s) = 8 * int (length s) + 2"
| "json_bound (JArr xs) = sum_list (map (\<lambda>x. json_bound x + 1) xs) + 2"
| "json_bound (JObj m) = sum_list (map (\<lambda>(k, v). 8 * int (length k) + 4 + json_bound v) m) + 2"

lemma byteLength_append [simp]: "byteLength (s @ t) = byteLength s + byteLength t"
  by (simp add: byteLength_def)

lemma byteLength_Cons: "byteLength (c # s) = (if digit7 c then 2 else 1) + byteLength s"
  by (simp add: byteLength_def)

lemma byteLength_Nil [simp]: "byteLength [] = 0"
  by (simp add: byteLength_def)

lemma byteLength_le: "byteLength s \<le> 2 * int (length s)"
  by (induction s) (auto simp: byteLength_Cons)

lemma escape_char_le: "byteLength (escape_char c) \<le> 8"
  by (auto simp: escape_char_def byteLength_Cons)

lemma quote_str_le: "byteLength (quote_str s) \<le> 8 * int (length s) + 2"
proof -
  have "byteLength (concat (map escape_char s)) \<le> 8 * int (length s)"
    by (induction s) (use escape_char_le in \<open>auto simp: algebra_simps intro: add_mono\<close>)
  then show ?thesis by (simp add: quote_str_def byteLength_Cons)
qed

lemma join_with_le: "byteLength (join_with '','' ss) \<le> sum_list (map (\<lambda>s. byteLength s + 1) ss)"
  by (induction "'',''" ss rule: join_with.induct) (simp_all add: byteLength_Cons)

lemma stringify_le: "byteLength (stringify v) \<le> json_bound v"
proof (induction v)
  case (JInt n)
  show ?case using byteLength_le [of "dec n"] by simp
next
  case (JDec s)
  show ?case using byteLength_le [of s] by simp
next
  case (JStr s)
  show ?case using quote_str_le [of s] by simp
next
  case (JArr xs)
  have "sum_list (map (\<lambda>s. byteLength s + 1) (map stringify xs)) \<le> sum_list (map (\<lambda>x. json_bound x + 1) xs)"
    using JArr by (simp add: comp_def) (intro sum_list_mono; auto)
  then show ?case using join_with_le [of "map stringify xs"] by (simp add: byteLength_Cons)
next
  case (JObj m)
  let ?row = "\<lambda>(k, v). quote_str k @ '':'' @ stringify v"
  have "byteLength (?row p) + 1 \<le> (case p of (k, v) \<Rightarrow> 8 * int (length k) + 4 + json_bound v)" if "p \<in> set m" for p
    using JObj [of p "snd p"] that quote_str_le [of "fst p"] by (cases p) (auto simp: byteLength_Cons)
  then have "sum_list (map (\<lambda>s. byteLength s + 1) (map ?row m))
      \<le> sum_list (map (\<lambda>(k, v). 8 * int (length k) + 4 + json_bound v) m)"
    unfolding map_map comp_def by (intro sum_list_mono) auto
  then show ?case using join_with_le [of "map ?row m"] by (simp add: byteLength_Cons)
qed (simp_all add: byteLength_def)

definition checks_but_size :: "json \<Rightarrow> checks" where
  "checks_but_size v =
     object_checks (Some v) POLICY_KEYS ''Policy''
     @ [(jfield ''schemaVersion'' v = Some (JInt 1), ''Unsupported stream policy schema version'')]
     @ integer_check (jfield ''revision'' v) 0 (MAX_SAFE_INTEGER - 1) ''Revision''
     @ list_check (jfield ''profiles'' v) ''Profiles''
     @ profiles_checks [] (arr_of (jfield ''profiles'' v))
     @ default_checks v @ media_checks v @ option_checks v"

lemma validate_by_bound [code]:
  "validateStreamPolicy value =
     (let v = upgrade_policy value
      in case first_error (checks_but_size v) of
           Some e \<Rightarrow> Inl e
         | None \<Rightarrow> if json_bound v \<le> 65536 \<or> byteLength (stringify v) \<le> 65536 then Inr v
                    else Inl ''Stream policy exceeds 64 KiB'')"
proof -
  have split: "policy_checks v = checks_but_size v @ [(byteLength (stringify v) \<le> 65536, ''Stream policy exceeds 64 KiB'')]" for v
    by (simp add: policy_checks_def checks_but_size_def)
  have "json_bound v \<le> 65536 \<Longrightarrow> byteLength (stringify v) \<le> 65536" for v
    using stringify_le [of v] by simp
  then show ?thesis
    by (auto simp: validateStreamPolicy_def checked_def split first_error_append Let_def split: option.splits)
qed

section \<open>The output size\<close>

record size_profile =
  sp_width :: int
  sp_height :: int
  sp_sizing :: string
  sp_scalePercent :: int
  sp_aspect :: string

record output_size =
  os_width :: int
  os_height :: int
  os_stretch :: bool

text \<open>\<^verbatim>\<open>Math.max(2, Math.round(value / 2) * 2)\<close>; halving a double is exact.\<close>

definition js_round :: "rat \<Rightarrow> int" where
  "js_round x = floor (x + 1/2)"

definition even_size :: "rat \<Rightarrow> int" where
  "even_size x = max 2 (js_round (x / 2) * 2)"

text \<open>The unclamped size; the screen's sides are positive.\<close>

definition raw_size :: "(rat \<Rightarrow> rat) \<Rightarrow> size_profile \<Rightarrow> rat \<Rightarrow> rat \<Rightarrow> rat \<times> rat" where
  "raw_size fl p screenWidth screenHeight =
     (if sp_sizing p = ''height'' then
        (fl (fl (of_int (sp_height p) * screenWidth) / screenHeight), of_int (sp_height p))
      else if sp_sizing p = ''width'' then
        (of_int (sp_width p), fl (fl (of_int (sp_width p) * screenHeight) / screenWidth))
      else if sp_sizing p = ''scale'' then
        (fl (fl (screenWidth * of_int (sp_scalePercent p)) / 100), fl (fl (screenHeight * of_int (sp_scalePercent p)) / 100))
      else
        (let scale = min (fl (of_int (sp_width p) / screenWidth)) (fl (of_int (sp_height p) / screenHeight))
         in (fl (screenWidth * scale), fl (screenHeight * scale))))"

definition size_factor :: "(rat \<Rightarrow> rat) \<Rightarrow> rat \<times> rat \<Rightarrow> rat" where
  "size_factor fl wh =
     (case wh of (width, height) \<Rightarrow>
        (let shrink = min 1 (min (fl (4096 / width)) (fl (4096 / height)));
             grow = max 1 (max (fl (64 / width)) (fl (64 / height)))
         in if shrink < 1 then shrink else grow))"

text \<open>A screen whose sides are not positive finite numbers is \<open>None\<close>.\<close>

definition outputSize :: "(rat \<Rightarrow> rat) \<Rightarrow> size_profile \<Rightarrow> (rat \<times> rat) option \<Rightarrow> output_size" where
  "outputSize fl p display =
     (case display of
        Some (sw, sh) \<Rightarrow>
          if sw \<le> 0 \<or> sh \<le> 0 \<or> (sp_sizing p = ''fixed'' \<and> sp_aspect p \<noteq> ''keep'')
          then \<lparr>os_width = sp_width p, os_height = sp_height p, os_stretch = (sp_aspect p = ''stretch'')\<rparr>
          else (let (width, height) = raw_size fl p sw sh; factor = size_factor fl (width, height)
                in \<lparr>os_width = min 4096 (even_size (fl (width * factor))),
                    os_height = min 4096 (even_size (fl (height * factor))), os_stretch = False\<rparr>)
      | None \<Rightarrow> \<lparr>os_width = sp_width p, os_height = sp_height p, os_stretch = (sp_aspect p = ''stretch'')\<rparr>)"

section \<open>Resolution\<close>

record stream_request =
  rq_profileId :: string
  rq_displayId :: "string option"
  rq_display :: "(rat \<times> rat) option"
  rq_userAgent :: string
  rq_custom :: "json option"
  rq_audio :: bool

record stream_plan =
  pl_name :: string
  pl_label :: "string option"
  pl_description :: "string option"
  pl_width :: int
  pl_height :: int
  pl_fps :: int
  pl_bitrateKbps :: int
  pl_bitrateMode :: string
  pl_quality :: string
  pl_mtu :: int
  pl_aspect :: string
  pl_stretch :: bool

record resolved =
  rv_profile :: stream_plan
  rv_audio :: string
  rv_encoderBackend :: string
  rv_revision :: int
  rv_selectedBy :: string

definition policy_profiles :: "json \<Rightarrow> json list" where
  "policy_profiles v = arr_of (jfield ''profiles'' v)"

definition find_enabled :: "json \<Rightarrow> string \<Rightarrow> json option" where
  "find_enabled v pid = find (\<lambda>p. jfield ''id'' p = Some (JStr pid) \<and> is_enabled p) (policy_profiles v)"

definition allowed_option :: "json \<Rightarrow> string \<Rightarrow> json list" where
  "allowed_option v k = arr_of (case jfield ''allowedOptions'' v of Some x \<Rightarrow> jfield k x | None \<Rightarrow> None)"

definition custom_checks :: "json \<Rightarrow> string \<Rightarrow> json \<Rightarrow> checks" where
  "custom_checks v profileId c =
     [(profileId = ''auto'', ''Cannot request both a profile and custom settings''),
      (jfield ''clientMode'' v = Some (JStr ''options''), ''Client customization is not allowed'')]
     @ object_checks (Some c) [''width'', ''height'', ''fps'', ''bitrateKbps''] ''Custom settings''
     @ numericPlan_checks c
     @ [((\<exists>r \<in> set (allowed_option v ''resolutions''). jfield ''width'' r = jfield ''width'' c
             \<and> jfield ''height'' r = jfield ''height'' c)
          \<and> the (jfield ''fps'' c) \<in> set (allowed_option v ''frameRates'')
          \<and> the (jfield ''bitrateKbps'' c) \<in> set (allowed_option v ''bitratesKbps''),
         ''Requested settings are not allowed'')]"

definition custom_source :: "json \<Rightarrow> json" where
  "custom_source c = JObj
     (jset ''aspect'' (JStr ''fit'') (jset ''scalePercent'' (JInt 100) (jset ''sizing'' (JStr ''fixed'')
       (jset ''quality'' (JStr DEFAULT_QUALITY) (jset ''bitrateMode'' (JStr DEFAULT_BITRATE_MODE)
         (jset ''id'' (JStr ''custom'') (jspread c)))))))"

text \<open>The id a request without custom settings selects, and by what.\<close>

definition choose_id :: "json \<Rightarrow> stream_request \<Rightarrow> string \<times> string" where
  "choose_id v rq =
     (let (pid, by) =
            (if rq_profileId rq \<noteq> ''auto'' then (rq_profileId rq, ''client'')
             else case rq_displayId rq of
               Some d \<Rightarrow> if d \<noteq> [] \<and> jhas (obj_of (jfield ''displayDefaults'' v)) d
                 then (str_of (jget (obj_of (jfield ''displayDefaults'' v)) d), ''display'')
                 else (str_of (jfield ''defaultProfileId'' v), ''default'')
             | None \<Rightarrow> (str_of (jfield ''defaultProfileId'' v), ''default''))
      in if pid \<noteq> ''auto'' then (pid, by)
         else (let preferred = (if is_apple_mobile (rq_userAgent rq) then ''iphone-720p-test'' else ''desktop'')
               in (str_of (case find_enabled v preferred of
                     Some p \<Rightarrow> jfield ''id'' p
                   | None \<Rightarrow> (case find is_enabled (policy_profiles v) of Some p \<Rightarrow> jfield ''id'' p | None \<Rightarrow> None)),
                   ''auto'')))"

definition select_source :: "json \<Rightarrow> stream_request \<Rightarrow> (json \<times> string) result" where
  "select_source v rq =
     (case rq_custom rq of
        Some c \<Rightarrow> checked (custom_checks v (rq_profileId rq) c) (custom_source c, ''client'')
      | None \<Rightarrow>
          (case choose_id v rq of (pid, by) \<Rightarrow>
             (case find_enabled v pid of
                Some p \<Rightarrow> Inr (p, by)
              | None \<Rightarrow> Inl ''Requested profile is not allowed'')))"

definition size_profile_of :: "json \<Rightarrow> size_profile" where
  "size_profile_of p =
     \<lparr>sp_width = int_of (jfield ''width'' p), sp_height = int_of (jfield ''height'' p),
      sp_sizing = (case jfield ''sizing'' p of Some (JStr s) \<Rightarrow> s | _ \<Rightarrow> ''fixed''),
      sp_scalePercent = int_of (jfield ''scalePercent'' p),
      sp_aspect = (case jfield ''aspect'' p of Some (JStr s) \<Rightarrow> s | _ \<Rightarrow> ''fit'')\<rparr>"

definition opt_str :: "json option \<Rightarrow> string option" where
  "opt_str v = (case v of Some (JStr s) \<Rightarrow> Some s | _ \<Rightarrow> None)"

definition plan_of :: "(rat \<Rightarrow> rat) \<Rightarrow> json \<Rightarrow> (rat \<times> rat) option \<Rightarrow> stream_plan" where
  "plan_of fl p display =
     (let sz = outputSize fl (size_profile_of p) display
      in \<lparr>pl_name = str_of (jfield ''id'' p), pl_label = opt_str (jfield ''name'' p),
          pl_description = opt_str (jfield ''description'' p),
          pl_width = os_width sz, pl_height = os_height sz, pl_fps = int_of (jfield ''fps'' p),
          pl_bitrateKbps = int_of (jfield ''bitrateKbps'' p), pl_bitrateMode = str_of (jfield ''bitrateMode'' p),
          pl_quality = str_of (jfield ''quality'' p), pl_mtu = 1200,
          pl_aspect = (if jfield ''sizing'' p = Some (JStr ''fixed'') then str_of (jfield ''aspect'' p) else ''keep''),
          pl_stretch = os_stretch sz\<rparr>)"

definition resolveStreamPolicy :: "(rat \<Rightarrow> rat) \<Rightarrow> json \<Rightarrow> stream_request \<Rightarrow> resolved result" where
  "resolveStreamPolicy fl value rq =
     (case validateStreamPolicy value of
        Inl e \<Rightarrow> Inl e
      | Inr v \<Rightarrow>
          (case first_error (case rq_displayId rq of
                Some d \<Rightarrow> text_check (Some (JStr d)) 1 256 ''Display ID'' | None \<Rightarrow> []) of
             Some e \<Rightarrow> Inl e
           | None \<Rightarrow>
               (case select_source v rq of
                  Inl e \<Rightarrow> Inl e
                | Inr (p, by) \<Rightarrow>
                    Inr \<lparr>rv_profile = plan_of fl p (rq_display rq),
                         rv_audio = (if jfield ''allowAudio'' v = Some (JBool True) \<and> rq_audio rq then ''on'' else ''off''),
                         rv_encoderBackend = str_of (jfield ''encoderBackend'' v),
                         rv_revision = int_of (jfield ''revision'' v), rv_selectedBy = by\<rparr>)))"

section \<open>Lemmas: a valid policy\<close>

definition valid_profile :: "json \<Rightarrow> bool" where
  "valid_profile p \<longleftrightarrow> first_error (profile_checks [] p) = None"

lemma profile_checks_valid: "first_error (profile_checks ids p) = None \<Longrightarrow> valid_profile p"
  unfolding valid_profile_def profile_checks_def by (simp add: checks_pass split: if_splits)

lemma profiles_checks_valid: "first_error (profiles_checks ids ps) = None \<Longrightarrow> p \<in> set ps \<Longrightarrow> valid_profile p"
  by (induction ids ps rule: profiles_checks.induct) (auto simp: first_error_pair intro: profile_checks_valid)

lemma valid_profileD:
  assumes "valid_profile p"
  shows "\<exists>m. p = JObj m \<and> (\<forall>k \<in> set PROFILE_KEYS. jhas m k)"
    and "jfield ''id'' p = Some (JStr (str_of (jfield ''id'' p)))" "str_of (jfield ''id'' p) \<noteq> ''auto''"
    and "safe_int 64 4096 (jfield ''width'' p)" "safe_int 64 4096 (jfield ''height'' p)"
    and "even (int_of (jfield ''width'' p))" "even (int_of (jfield ''height'' p))"
    and "safe_int 1 60 (jfield ''fps'' p)" "safe_int 100 50000 (jfield ''bitrateKbps'' p)"
    and "one_of BITRATE_MODES (jfield ''bitrateMode'' p)" "one_of QUALITY_LEVELS (jfield ''quality'' p)"
    and "one_of SIZINGS (jfield ''sizing'' p)" "one_of ASPECTS (jfield ''aspect'' p)"
    and "safe_int 10 400 (jfield ''scalePercent'' p)"
  using assms
  by (auto simp: valid_profile_def profile_checks_def numericPlan_checks_def dimension_checks_def checks_pass
      is_str_def str_of_def split: if_splits option.splits json.splits)

definition policy_valid :: "json \<Rightarrow> bool" where
  "policy_valid v \<longleftrightarrow> first_error (policy_checks v) = None"

lemma validate_Inr: "validateStreamPolicy value = Inr v \<longleftrightarrow> v = upgrade_policy value \<and> policy_valid v"
  by (auto simp: validateStreamPolicy_def Let_def checked_Inr policy_valid_def)

lemma policy_valid_parts:
  assumes "policy_valid v"
  shows "first_error (object_checks (Some v) POLICY_KEYS ''Policy'') = None"
    and "safe_int 0 (MAX_SAFE_INTEGER - 1) (jfield ''revision'' v)"
    and "first_error (list_check (jfield ''profiles'' v) ''Profiles'') = None"
    and "first_error (profiles_checks [] (arr_of (jfield ''profiles'' v))) = None"
    and "first_error (default_checks v) = None" and "first_error (media_checks v) = None"
    and "first_error (option_checks v) = None"
  using assms unfolding policy_valid_def policy_checks_def first_error_pair integer_check_pass by blast+

lemma default_checksD:
  assumes "first_error (default_checks v) = None"
  shows "enabled_ids v \<noteq> []" "one_of (''auto'' # enabled_ids v) (jfield ''defaultProfileId'' v)"
    and "(d, x) \<in> set (obj_of (jfield ''displayDefaults'' v)) \<Longrightarrow> one_of (enabled_ids v) (Some x)"
  using assms unfolding default_checks_def first_error_pair first_error_concat
  by (simp_all split: if_splits) (fastforce simp: first_error_pair split: if_splits)

lemma policy_validD:
  assumes "policy_valid v"
  shows "\<exists>m. v = JObj m \<and> (\<forall>k \<in> set POLICY_KEYS. jhas m k)"
    and "is_arr (jfield ''profiles'' v)"
    and "p \<in> set (policy_profiles v) \<Longrightarrow> valid_profile p"
    and "enabled_ids v \<noteq> []" "one_of (''auto'' # enabled_ids v) (jfield ''defaultProfileId'' v)"
    and "jget (obj_of (jfield ''displayDefaults'' v)) d = Some x \<Longrightarrow> one_of (enabled_ids v) (Some x)"
    and "one_of ENCODER_BACKEND_CHOICES (jfield ''encoderBackend'' v)"
proof -
  note parts = policy_valid_parts [OF assms]
  show "\<exists>m. v = JObj m \<and> (\<forall>k \<in> set POLICY_KEYS. jhas m k)"
    using parts(1) by (auto simp: object_checks_pass)
  show "is_arr (jfield ''profiles'' v)" using parts(3) by (simp add: list_check_def split: if_splits)
  show "p \<in> set (policy_profiles v) \<Longrightarrow> valid_profile p"
    using profiles_checks_valid [OF parts(4)] by (simp add: policy_profiles_def)
  show "enabled_ids v \<noteq> []" "one_of (''auto'' # enabled_ids v) (jfield ''defaultProfileId'' v)"
    using default_checksD [OF parts(5)] by blast+
  show "jget (obj_of (jfield ''displayDefaults'' v)) d = Some x \<Longrightarrow> one_of (enabled_ids v) (Some x)"
    by (rule default_checksD(3) [OF parts(5) jget_in_set])
  show "one_of ENCODER_BACKEND_CHOICES (jfield ''encoderBackend'' v)"
    using parts(6) by (simp add: media_checks_def Let_def split: if_splits)
qed

lemma upgrade_profile_id: "valid_profile p \<Longrightarrow> upgrade_profile p = p"
proof -
  assume "valid_profile p"
  then obtain m where "p = JObj m" "\<forall>k \<in> set PROFILE_KEYS. jhas m k" using valid_profileD(1) by blast
  then show ?thesis by (simp add: upgrade_profile_def Let_def with_default_obj PROFILE_KEYS_def)
qed

lemma upgrade_policy_id:
  assumes "policy_valid v"
  shows "upgrade_policy v = v"
proof -
  obtain m where m: "v = JObj m" "\<forall>k \<in> set POLICY_KEYS. jhas m k" using policy_validD(1) [OF assms] by blast
  then obtain ps where ps: "jget m ''profiles'' = Some (JArr ps)"
    using policy_validD(2) [OF assms] by (auto simp: is_arr_def split: option.splits json.splits)
  have "map upgrade_profile ps = ps"
    using policy_validD(3) [OF assms] ps m by (intro map_idI upgrade_profile_id) (simp add: policy_profiles_def arr_of_def)
  with m ps show ?thesis
    by (simp add: upgrade_policy_def Let_def with_default_obj POLICY_KEYS_def is_arr_def arr_of_def jset_same)
qed

section \<open>Properties of the validation\<close>

text \<open>
  What the validation returns it accepts again, unchanged: a policy that was saved loads as it
  was, and the defaults for older files are added once.
\<close>

theorem validate_idempotent:
  assumes "validateStreamPolicy value = Inr v"
  shows "validateStreamPolicy v = Inr v"
  using assms unfolding validate_Inr by (auto simp: upgrade_policy_id)

theorem validate_idempotent_witness:
  "\<exists>v. validateStreamPolicy (del_field ''encoderBackend'' defaultStreamPolicy) = Inr v \<and> validateStreamPolicy v = Inr v"
proof -
  have "is_ok (validateStreamPolicy (del_field ''encoderBackend'' defaultStreamPolicy))" by code_simp
  then obtain v where v: "validateStreamPolicy (del_field ''encoderBackend'' defaultStreamPolicy) = Inr v"
    by (auto simp: is_ok_def split: sum.splits)
  from validate_idempotent [OF v] v show ?thesis by blast
qed

section \<open>Properties of the output size\<close>

lemma even_size_even: "even (even_size x)" "2 \<le> even_size x"
  by (auto simp: even_size_def max_def)

lemma even_min_4096: "even n \<Longrightarrow> even (min 4096 (n :: int))"
  by (simp add: min_def)

lemma outputSize_bounds:
  assumes "64 \<le> sp_width p" "sp_width p \<le> 4096" "64 \<le> sp_height p" "sp_height p \<le> 4096"
    and "even (sp_width p)" "even (sp_height p)"
  shows "even (os_width (outputSize fl p d)) \<and> even (os_height (outputSize fl p d))
    \<and> 2 \<le> os_width (outputSize fl p d) \<and> os_width (outputSize fl p d) \<le> 4096
    \<and> 2 \<le> os_height (outputSize fl p d) \<and> os_height (outputSize fl p d) \<le> 4096"
  using assms even_size_even even_min_4096
  by (auto simp: outputSize_def Let_def case_prod_beta split: option.splits)

lemma even_size_ge: "64 \<le> x \<Longrightarrow> 64 \<le> even_size x"
proof -
  assume "64 \<le> x"
  then have "32 \<le> x / 2 + 1 / 2" by simp
  then have "32 \<le> js_round (x / 2)" unfolding js_round_def by (simp add: le_floor_iff)
  then show ?thesis by (simp add: even_size_def max_def)
qed

text \<open>With positive raw sides in a ratio of at most 64 to 1, the scaled sides are in range.\<close>

lemma size_factor_range:
  fixes w h :: rat
  assumes "0 < w" "0 < h" "w \<le> 64 * h" "h \<le> 64 * w"
  shows "64 \<le> w * size_factor id (w, h) \<and> w * size_factor id (w, h) \<le> 4096
    \<and> 64 \<le> h * size_factor id (w, h) \<and> h * size_factor id (w, h) \<le> 4096"
proof (cases "w \<le> 4096 \<and> h \<le> 4096")
  case True
  then have "\<not> min 1 (min (4096 / w) (4096 / h)) < 1" using assms by (auto simp: min_less_iff_disj)
  then have f: "size_factor id (w, h) = max 1 (max (64 / w) (64 / h))" by (simp add: size_factor_def Let_def)
  consider "64 \<le> w" "64 \<le> h" | "w < 64" "w \<le> h" | "h < 64" "h < w" using assms by linarith
  then show ?thesis
  proof cases
    case 1
    then have "64 / w \<le> 1" "64 / h \<le> 1" using assms by simp_all
    then have "size_factor id (w, h) = 1" by (simp add: f)
    with 1 True show ?thesis by simp
  next
    case 2
    then have "1 \<le> 64 / w" "64 / h \<le> 64 / w" using assms by (simp_all add: frac_le)
    then have e: "size_factor id (w, h) = 64 / w" unfolding f by (simp only: max_absorb1 max_absorb2)
    from 2 assms show ?thesis unfolding e by (simp add: field_simps)
  next
    case 3
    then have "1 \<le> 64 / h" "64 / w \<le> 64 / h" using assms by (simp_all add: frac_le)
    then have e: "size_factor id (w, h) = 64 / h" unfolding f by (simp only: max_absorb1 max_absorb2)
    from 3 assms show ?thesis unfolding e by (simp add: field_simps)
  qed
next
  case False
  then have big: "4096 < max w h" by auto
  consider "h \<le> w" | "w < h" by linarith
  then show ?thesis
  proof cases
    case 1
    then have "4096 < w" using big by simp
    then have "4096 / w < 1" "4096 / w \<le> 4096 / h" using 1 assms by (simp_all add: frac_le)
    then have e: "size_factor id (w, h) = 4096 / w" by (simp add: size_factor_def Let_def min_def)
    from 1 assms \<open>4096 < w\<close> show ?thesis unfolding e by (simp add: field_simps)
  next
    case 2
    then have "4096 < h" using big by simp
    then have "4096 / h < 1" "4096 / h \<le> 4096 / w" using 2 assms by (simp_all add: frac_le)
    then have e: "size_factor id (w, h) = 4096 / h" by (simp add: size_factor_def Let_def min_def)
    from 2 assms \<open>4096 < h\<close> show ?thesis unfolding e by (simp add: field_simps)
  qed
qed

lemma raw_size_shape:
  assumes "0 < sw" "0 < sh" "0 < sp_width p" "0 < sp_height p" "0 < sp_scalePercent p"
  shows "\<exists>k > 0. raw_size id p sw sh = (k * sw, k * sh)"
proof -
  let ?w = "rat_of_int (sp_width p)" and ?h = "rat_of_int (sp_height p)" and ?s = "rat_of_int (sp_scalePercent p)"
  have pos: "0 < ?w" "0 < ?h" "0 < ?s" using assms by simp_all
  consider "sp_sizing p = ''height''" | "sp_sizing p = ''width''" "sp_sizing p \<noteq> ''height''"
    | "sp_sizing p = ''scale''" "sp_sizing p \<notin> {''height'', ''width''}" | "sp_sizing p \<notin> {''height'', ''width'', ''scale''}"
    by blast
  then show ?thesis
  proof cases
    case 1
    then show ?thesis using pos assms by (intro exI [of _ "?h / sh"]) (simp add: raw_size_def)
  next
    case 2
    then show ?thesis using pos assms by (intro exI [of _ "?w / sw"]) (simp add: raw_size_def)
  next
    case 3
    then show ?thesis using pos assms by (intro exI [of _ "?s / 100"]) (simp add: raw_size_def)
  next
    case 4
    then show ?thesis using pos assms
      by (intro exI [of _ "min (?w / sw) (?h / sh)"]) (simp add: raw_size_def Let_def min_def)
  qed
qed

text \<open>
  The streamed size keeps the encoder's limits. In exact arithmetic, a profile within its own
  limits streams a screen whose sides are in a ratio of at most 64 to 1 at an even width and height
  from 64 to 4096. Outside that ratio the lower limit fails: a screen of 10000 by 100 at its own size
  comes out 40 high.
\<close>

theorem outputSize_in_limits:
  assumes "64 \<le> sp_width p" "sp_width p \<le> 4096" "64 \<le> sp_height p" "sp_height p \<le> 4096"
    and "even (sp_width p)" "even (sp_height p)" "0 < sp_scalePercent p"
    and "0 < sw" "0 < sh" "sw \<le> 64 * sh" "sh \<le> 64 * sw"
  shows "even (os_width (outputSize id p (Some (sw, sh)))) \<and> even (os_height (outputSize id p (Some (sw, sh))))
    \<and> 64 \<le> os_width (outputSize id p (Some (sw, sh))) \<and> os_width (outputSize id p (Some (sw, sh))) \<le> 4096
    \<and> 64 \<le> os_height (outputSize id p (Some (sw, sh))) \<and> os_height (outputSize id p (Some (sw, sh))) \<le> 4096"
proof -
  obtain k where k: "0 < k" "raw_size id p sw sh = (k * sw, k * sh)"
    using raw_size_shape [of sw sh p] assms by auto
  have "k * sw \<le> 64 * (k * sh)" "k * sh \<le> 64 * (k * sw)" "0 < k * sw" "0 < k * sh"
    using k(1) assms by simp_all
  from size_factor_range [OF this(3,4,1,2)]
  have "64 \<le> even_size (k * sw * size_factor id (k * sw, k * sh))" "64 \<le> even_size (k * sh * size_factor id (k * sw, k * sh))"
    using even_size_ge by blast+
  then have "64 \<le> os_width (outputSize id p (Some (sw, sh)))" "64 \<le> os_height (outputSize id p (Some (sw, sh)))"
    using assms k(2) by (simp_all add: outputSize_def Let_def)
  then show ?thesis using outputSize_bounds [of p id "Some (sw, sh)"] assms by simp
qed

theorem outputSize_in_limits_witness:
  "64 \<le> os_width (outputSize id \<lparr>sp_width = 1280, sp_height = 720, sp_sizing = ''height'', sp_scalePercent = 100,
      sp_aspect = ''keep''\<rparr> (Some (2560, 1440)))
   \<and> os_height (outputSize id \<lparr>sp_width = 1280, sp_height = 720, sp_sizing = ''scale'', sp_scalePercent = 100,
      sp_aspect = ''keep''\<rparr> (Some (10000, 100))) = 40"
proof
  show "64 \<le> os_width (outputSize id \<lparr>sp_width = 1280, sp_height = 720, sp_sizing = ''height'', sp_scalePercent = 100,
      sp_aspect = ''keep''\<rparr> (Some (2560, 1440)))"
    using outputSize_in_limits [of "\<lparr>sp_width = 1280, sp_height = 720, sp_sizing = ''height'', sp_scalePercent = 100,
      sp_aspect = ''keep''\<rparr>" 2560 1440] by simp
  show "os_height (outputSize id \<lparr>sp_width = 1280, sp_height = 720, sp_sizing = ''scale'', sp_scalePercent = 100,
      sp_aspect = ''keep''\<rparr> (Some (10000, 100))) = 40"
    by code_simp
qed

section \<open>Properties of the resolution\<close>

lemma find_enabled_Some:
  assumes "find_enabled v pid = Some p"
  shows "p \<in> set (policy_profiles v)" "is_enabled p" "jfield ''id'' p = Some (JStr pid)"
  using assms by (auto simp: find_enabled_def find_Some_iff)

definition plan_numbers :: "stream_plan \<Rightarrow> bool" where
  "plan_numbers pl \<longleftrightarrow> even (pl_width pl) \<and> even (pl_height pl) \<and> 2 \<le> pl_width pl \<and> pl_width pl \<le> 4096
     \<and> 2 \<le> pl_height pl \<and> pl_height pl \<le> 4096 \<and> 1 \<le> pl_fps pl \<and> pl_fps pl \<le> 60
     \<and> 100 \<le> pl_bitrateKbps pl \<and> pl_bitrateKbps pl \<le> 50000
     \<and> pl_bitrateMode pl \<in> set BITRATE_MODES \<and> pl_quality pl \<in> set QUALITY_LEVELS"

lemma one_of_str: "one_of xs v \<Longrightarrow> str_of v \<in> set xs"
  by (auto simp: one_of_def str_of_def split: option.splits json.splits)

lemma plan_of_profile: "valid_profile p \<Longrightarrow> plan_numbers (plan_of fl p d)"
proof -
  assume "valid_profile p"
  note v = valid_profileD [OF this]
  have "64 \<le> int_of (jfield ''width'' p) \<and> int_of (jfield ''width'' p) \<le> 4096"
    "64 \<le> int_of (jfield ''height'' p) \<and> int_of (jfield ''height'' p) \<le> 4096"
    using v(4,5) by (auto dest: safe_intD)
  then have "even (os_width (outputSize fl (size_profile_of p) d)) \<and> even (os_height (outputSize fl (size_profile_of p) d))
    \<and> 2 \<le> os_width (outputSize fl (size_profile_of p) d) \<and> os_width (outputSize fl (size_profile_of p) d) \<le> 4096
    \<and> 2 \<le> os_height (outputSize fl (size_profile_of p) d) \<and> os_height (outputSize fl (size_profile_of p) d) \<le> 4096"
    using v(6,7) by (intro outputSize_bounds) (simp_all add: size_profile_of_def)
  then show ?thesis
    using v(8-11) one_of_str by (auto simp: plan_numbers_def plan_of_def Let_def dest!: safe_intD)
qed

lemma custom_source_fields:
  assumes "first_error (object_checks (Some c) [''width'', ''height'', ''fps'', ''bitrateKbps''] l) = None"
  shows "jfield ''width'' (custom_source c) = jfield ''width'' c" "jfield ''height'' (custom_source c) = jfield ''height'' c"
    "jfield ''fps'' (custom_source c) = jfield ''fps'' c" "jfield ''bitrateKbps'' (custom_source c) = jfield ''bitrateKbps'' c"
    "jfield ''id'' (custom_source c) = Some (JStr ''custom'')"
    "jfield ''bitrateMode'' (custom_source c) = Some (JStr ''cbr'')" "jfield ''quality'' (custom_source c) = Some (JStr ''balanced'')"
  using assms by (auto simp: object_checks_pass custom_source_def DEFAULT_BITRATE_MODE_def DEFAULT_QUALITY_def)

lemma plan_of_custom:
  assumes "first_error (custom_checks v pid c) = None"
  shows "plan_numbers (plan_of fl (custom_source c) d)"
proof -
  have o: "first_error (object_checks (Some c) [''width'', ''height'', ''fps'', ''bitrateKbps''] ''Custom settings'') = None"
    and n: "first_error (numericPlan_checks c) = None"
    using assms unfolding custom_checks_def first_error_pair by blast+
  note f = custom_source_fields [OF o]
  have c: "safe_int 64 4096 (jfield ''width'' c)" "safe_int 64 4096 (jfield ''height'' c)" "safe_int 1 60 (jfield ''fps'' c)"
    "safe_int 100 50000 (jfield ''bitrateKbps'' c)" "even (int_of (jfield ''width'' c))" "even (int_of (jfield ''height'' c))"
    using n by (auto simp: numericPlan_checks_def dimension_checks_def checks_pass split: if_splits)
  have "even (os_width (outputSize fl (size_profile_of (custom_source c)) d)) \<and> even (os_height (outputSize fl (size_profile_of (custom_source c)) d))
    \<and> 2 \<le> os_width (outputSize fl (size_profile_of (custom_source c)) d) \<and> os_width (outputSize fl (size_profile_of (custom_source c)) d) \<le> 4096
    \<and> 2 \<le> os_height (outputSize fl (size_profile_of (custom_source c)) d) \<and> os_height (outputSize fl (size_profile_of (custom_source c)) d) \<le> 4096"
    using c by (intro outputSize_bounds) (auto simp: size_profile_of_def f dest: safe_intD)
  then show ?thesis
    using c(3,4)
    by (auto simp: plan_numbers_def plan_of_def Let_def f BITRATE_MODES_def QUALITY_LEVELS_def str_of_def dest!: safe_intD)
qed

lemma plan_of_rates:
  assumes "safe_int l h (jfield ''fps'' p)" "safe_int l' h' (jfield ''bitrateKbps'' p)"
  shows "jfield ''fps'' p = Some (JInt (pl_fps (plan_of fl p d)))" "jfield ''bitrateKbps'' p = Some (JInt (pl_bitrateKbps (plan_of fl p d)))"
  using assms by (simp_all add: plan_of_def Let_def safe_intD)

lemma custom_listed:
  assumes "first_error (custom_checks v pid c) = None"
  shows "\<exists>res \<in> set (allowed_option v ''resolutions''). jfield ''width'' res = Some (JInt (pl_width (plan_of fl (custom_source c) d)))
      \<and> jfield ''height'' res = Some (JInt (pl_height (plan_of fl (custom_source c) d)))"
    and "JInt (pl_fps (plan_of fl (custom_source c) d)) \<in> set (allowed_option v ''frameRates'')"
    and "JInt (pl_bitrateKbps (plan_of fl (custom_source c) d)) \<in> set (allowed_option v ''bitratesKbps'')"
proof -
  have o: "first_error (object_checks (Some c) [''width'', ''height'', ''fps'', ''bitrateKbps''] ''Custom settings'') = None"
    and n: "first_error (numericPlan_checks c) = None"
    and l: "(\<exists>r \<in> set (allowed_option v ''resolutions''). jfield ''width'' r = jfield ''width'' c \<and> jfield ''height'' r = jfield ''height'' c)
          \<and> the (jfield ''fps'' c) \<in> set (allowed_option v ''frameRates'')
          \<and> the (jfield ''bitrateKbps'' c) \<in> set (allowed_option v ''bitratesKbps'')"
    using assms unfolding custom_checks_def first_error_pair by (simp_all split: if_splits)
  note f = custom_source_fields [OF o]
  have c: "safe_int 64 4096 (jfield ''width'' c)" "safe_int 64 4096 (jfield ''height'' c)" "safe_int 1 60 (jfield ''fps'' c)"
    "safe_int 100 50000 (jfield ''bitrateKbps'' c)"
    using n by (auto simp: numericPlan_checks_def dimension_checks_def checks_pass split: if_splits)
  have rates: "jfield ''fps'' c = Some (JInt (pl_fps (plan_of fl (custom_source c) d)))"
    "jfield ''bitrateKbps'' c = Some (JInt (pl_bitrateKbps (plan_of fl (custom_source c) d)))"
    using plan_of_rates [of 1 60 "custom_source c" 100 50000 fl d] c(3,4) by (simp_all add: f)
  have "jfield ''sizing'' (custom_source c) = Some (JStr ''fixed'')" "jfield ''aspect'' (custom_source c) = Some (JStr ''fit'')"
    using o by (auto simp: object_checks_pass custom_source_def)
  then have "pl_width (plan_of fl (custom_source c) d) = int_of (jfield ''width'' c)" "pl_height (plan_of fl (custom_source c) d) = int_of (jfield ''height'' c)"
    by (auto simp: plan_of_def Let_def outputSize_def size_profile_of_def f split: option.split)
  then have size: "jfield ''width'' c = Some (JInt (pl_width (plan_of fl (custom_source c) d)))"
    "jfield ''height'' c = Some (JInt (pl_height (plan_of fl (custom_source c) d)))"
    using safe_intD [OF c(1)] safe_intD [OF c(2)] by simp_all
  show "\<exists>res \<in> set (allowed_option v ''resolutions''). jfield ''width'' res = Some (JInt (pl_width (plan_of fl (custom_source c) d)))
      \<and> jfield ''height'' res = Some (JInt (pl_height (plan_of fl (custom_source c) d)))"
    using l size by auto
  show "JInt (pl_fps (plan_of fl (custom_source c) d)) \<in> set (allowed_option v ''frameRates'')"
    "JInt (pl_bitrateKbps (plan_of fl (custom_source c) d)) \<in> set (allowed_option v ''bitratesKbps'')"
    using l rates by simp_all
qed

text \<open>
  C18: every resolved plan is one the native worker may run, whatever the rounding of the size: even
  sides of at most 4096, a frame rate and a bitrate in range, known rate control. Its id, frame rate and bitrate are those of an
  enabled profile of the policy, the one asked for where one was named; or its size, frame rate and bitrate are ones the owner
  listed, in a policy that lets viewers choose. And sound is on only where the policy allows it and the viewer asked for it.
\<close>

theorem resolved_plan_allowed:
  assumes "resolveStreamPolicy fl value rq = Inr r"
  shows "plan_numbers (rv_profile r) \<and> rv_encoderBackend r \<in> set ENCODER_BACKEND_CHOICES
    \<and> (rv_audio r = ''on'' \<longrightarrow> rq_audio rq \<and> jfield ''allowAudio'' (upgrade_policy value) = Some (JBool True))
    \<and> (case rq_custom rq of
         None \<Rightarrow> (\<exists>p \<in> set (policy_profiles (upgrade_policy value)).
             is_enabled p \<and> jfield ''id'' p = Some (JStr (pl_name (rv_profile r))) \<and> jfield ''fps'' p = Some (JInt (pl_fps (rv_profile r)))
             \<and> jfield ''bitrateKbps'' p = Some (JInt (pl_bitrateKbps (rv_profile r))))
           \<and> (rq_profileId rq \<noteq> ''auto'' \<longrightarrow> pl_name (rv_profile r) = rq_profileId rq)
       | Some c \<Rightarrow> jfield ''clientMode'' (upgrade_policy value) = Some (JStr ''options'')
           \<and> (\<exists>res \<in> set (allowed_option (upgrade_policy value) ''resolutions''). jfield ''width'' res = Some (JInt (pl_width (rv_profile r)))
               \<and> jfield ''height'' res = Some (JInt (pl_height (rv_profile r))))
           \<and> JInt (pl_fps (rv_profile r)) \<in> set (allowed_option (upgrade_policy value) ''frameRates'')
           \<and> JInt (pl_bitrateKbps (rv_profile r)) \<in> set (allowed_option (upgrade_policy value) ''bitratesKbps''))"
proof -
  obtain v p by' where v: "validateStreamPolicy value = Inr v" and s: "select_source v rq = Inr (p, by')"
    and r: "rv_profile r = plan_of fl p (rq_display rq)"
      "rv_audio r = (if jfield ''allowAudio'' v = Some (JBool True) \<and> rq_audio rq then ''on'' else ''off'')"
      "rv_encoderBackend r = str_of (jfield ''encoderBackend'' v)"
    using assms by (auto simp: resolveStreamPolicy_def split: sum.splits option.splits prod.splits)
  have vp: "policy_valid v" "upgrade_policy value = v" using v unfolding validate_Inr by blast+
  have e: "rv_encoderBackend r \<in> set ENCODER_BACKEND_CHOICES" using policy_validD(7) [OF vp(1)] one_of_str r(3) by simp
  have a: "rv_audio r = ''on'' \<longrightarrow> rq_audio rq \<and> jfield ''allowAudio'' v = Some (JBool True)" using r(2) by simp
  show ?thesis
  proof (cases "rq_custom rq")
    case None
    then obtain pid where f: "find_enabled v pid = Some p" "pid = fst (choose_id v rq)"
      using s by (auto simp: select_source_def split: prod.splits option.splits)
    note ff = find_enabled_Some [OF f(1)]
    have valid: "valid_profile p" by (rule policy_validD(3) [OF vp(1) ff(1)])
    have "plan_numbers (rv_profile r)" unfolding r(1) by (rule plan_of_profile [OF valid])
    moreover have "pl_name (rv_profile r) = pid" using ff(3) by (simp add: r(1) plan_of_def Let_def str_of_def)
    moreover have "rq_profileId rq \<noteq> ''auto'' \<longrightarrow> pid = rq_profileId rq" by (auto simp: f(2) choose_id_def)
    ultimately show ?thesis using ff e a None vp(2) plan_of_rates [OF valid_profileD(8,9) [OF valid]] r(1) by auto
  next
    case (Some c)
    then have ch: "first_error (custom_checks v (rq_profileId rq) c) = None" "p = custom_source c"
      using s by (auto simp: select_source_def checked_Inr)
    then have "jfield ''clientMode'' v = Some (JStr ''options'')"
      unfolding custom_checks_def first_error_pair by (simp split: if_splits)
    with plan_of_custom [OF ch(1)] custom_listed [OF ch(1)] show ?thesis using e a Some vp(2) r(1) ch(2) by simp
  qed
qed

text \<open>
  An automatic request is always answered: with a policy that validates, a request that names no
  profile and no settings (and a display id that is a proper text, if any) resolves to a plan.
\<close>

theorem automatic_request_resolves:
  assumes "validateStreamPolicy value = Inr v" "rq_profileId rq = ''auto''" "rq_custom rq = None"
    and "\<forall>d. rq_displayId rq = Some d \<longrightarrow> first_error (text_check (Some (JStr d)) 1 256 ''Display ID'') = None"
  shows "\<exists>r. resolveStreamPolicy fl value rq = Inr r"
proof -
  have vp: "policy_valid v" using assms(1) unfolding validate_Inr by blast
  note vd = policy_validD [OF vp]
  have known: "\<exists>p. find_enabled v pid = Some p" if "pid \<in> set (enabled_ids v)" for pid
  proof -
    from that have "\<exists>p. p \<in> set (policy_profiles v) \<and> is_enabled p \<and> pid = str_of (jfield ''id'' p)"
      by (auto simp: enabled_ids_def policy_profiles_def)
    then obtain p where p: "p \<in> set (policy_profiles v)" "is_enabled p" "pid = str_of (jfield ''id'' p)" by blast
    then have "jfield ''id'' p = Some (JStr pid)" using valid_profileD(2) [OF vd(3) [OF p(1)]] by simp
    with p(1,2) have "find_enabled v pid \<noteq> None" by (auto simp: find_enabled_def find_None_iff)
    then show ?thesis by blast
  qed
  have not_auto: "''auto'' \<notin> set (enabled_ids v)"
  proof -
    have "str_of (jfield ''id'' p) \<noteq> ''auto''" if "p \<in> set (policy_profiles v)" for p
      by (rule valid_profileD(3) [OF vd(3) [OF that]])
    then show ?thesis unfolding enabled_ids_def policy_profiles_def by fastforce
  qed
  have default: "str_of (jfield ''defaultProfileId'' v) = ''auto'' \<or> str_of (jfield ''defaultProfileId'' v) \<in> set (enabled_ids v)"
    using one_of_str [OF vd(5)] by simp
  have "fst (choose_id v rq) \<in> set (enabled_ids v)"
  proof -
    have first: "str_of (case find is_enabled (policy_profiles v) of Some p \<Rightarrow> jfield ''id'' p | None \<Rightarrow> None) \<in> set (enabled_ids v)"
      using vd(4) by (auto simp: enabled_ids_def policy_profiles_def filter_empty_conv find_None_iff find_Some_iff split: option.splits)
    have preferred: "str_of (jfield ''id'' p) \<in> set (enabled_ids v)" if "find_enabled v q = Some p" for p q
      using find_enabled_Some(1,2) [OF that] by (simp add: enabled_ids_def policy_profiles_def)
    have display: "str_of (jget (obj_of (jfield ''displayDefaults'' v)) d) \<in> set (enabled_ids v)"
      if "jhas (obj_of (jfield ''displayDefaults'' v)) d" for d
      using that vd(6) one_of_str by (auto simp: jhas_def)
    then show ?thesis
      using assms(2) default first preferred not_auto
      by (auto simp: choose_id_def Let_def split: option.splits)
  qed
  then obtain p where "find_enabled v (fst (choose_id v rq)) = Some p" using known by blast
  then have "\<exists>s. select_source v rq = Inr s" using assms(3) by (auto simp: select_source_def case_prod_beta)
  then show ?thesis using assms(1,4) by (auto simp: resolveStreamPolicy_def split: option.splits)
qed

definition sample_request :: stream_request where
  "sample_request = \<lparr>rq_profileId = ''auto'', rq_displayId = None, rq_display = Some (2560, 1440), rq_userAgent = '''',
     rq_custom = None, rq_audio = True\<rparr>"

theorem automatic_request_resolves_witness: "\<exists>r. resolveStreamPolicy id defaultStreamPolicy sample_request = Inr r"
proof -
  have "is_ok (validateStreamPolicy defaultStreamPolicy)" by code_simp
  then obtain v where v: "validateStreamPolicy defaultStreamPolicy = Inr v" by (auto simp: is_ok_def split: sum.splits)
  show ?thesis by (rule automatic_request_resolves [OF v]) (simp_all add: sample_request_def)
qed

definition custom_request :: stream_request where
  "custom_request = sample_request\<lparr>rq_custom := Some (JObj [(''width'', JInt 1280), (''height'', JInt 720), (''fps'', JInt 30),
     (''bitrateKbps'', JInt 2000)])\<rparr>"

definition options_policy :: json where
  "options_policy = put_field ''clientMode'' (JStr ''options'') defaultStreamPolicy"

theorem resolved_plan_allowed_witness:
  "\<exists>r. resolveStreamPolicy id options_policy custom_request = Inr r \<and> plan_numbers (rv_profile r)
     \<and> JInt (pl_fps (rv_profile r)) \<in> set (allowed_option (upgrade_policy options_policy) ''frameRates'')"
proof -
  have "is_ok (resolveStreamPolicy id options_policy custom_request)" by code_simp
  then obtain r where r: "resolveStreamPolicy id options_policy custom_request = Inr r"
    by (auto simp: is_ok_def split: sum.splits)
  show ?thesis using resolved_plan_allowed [OF r] r by (auto simp: custom_request_def)
qed

end
