(* ===== verification/LockedFile.thy ===== *)
theory LockedFile
  imports JsPrelude
begin

text \<open>
  The way the stores of the owner's settings save a change: the stream policy (\<^verbatim>\<open>stream-policy-store.mjs\<close>)
  and the access settings (\<^verbatim>\<open>access-settings.mjs\<close>) follow the same steps, which other processes may
  interleave with. A store keeps what it last read or wrote; a change is checked against that, takes a
  lock file, compares the file with what the store remembers, writes a temporary file, renames it over the
  old one, and only then changes what it remembers. Any file operation may fail and any process may end
  between two steps. \<open>store_ops\<close> says what the two stores do at each step; the locale states the laws from
  which no interleaving loses an update.
\<close>

section \<open>The steps\<close>

record ('v, 'q, 'n, 'f) store_ops =
  so_open :: "'f \<Rightarrow> 'v result"
  so_submit :: "'q \<Rightarrow> 'q result"
  so_prepare :: "'v \<Rightarrow> 'q \<Rightarrow> 'n result"
  so_confirm :: "'v \<Rightarrow> 'n \<Rightarrow> 'f \<Rightarrow> 'n result"
  so_file :: "'n \<Rightarrow> 'f"
  so_adopt :: "'n \<Rightarrow> 'v"

datatype 'n phase = Closed | Idle | Making 'n | Holding 'n | Writing 'n | Renamed 'n | Releasing

record ('v, 'q, 'n) store =
  st_value :: 'v
  st_queue :: "'q list"
  st_phase :: "'n phase"

text \<open>The stores of all processes that share the file. The log keeps each old and new content, last first.\<close>

record ('v, 'q, 'n, 'f) shared =
  sh_file :: 'f
  sh_lock :: bool
  sh_store :: "nat \<Rightarrow> ('v, 'q, 'n) store"
  sh_log :: "('f \<times> 'f) list"

definition phase_of :: "nat \<Rightarrow> ('v, 'q, 'n, 'f) shared \<Rightarrow> 'n phase" where
  "phase_of i s = st_phase (sh_store s i)"

definition put_store :: "nat \<Rightarrow> ('v, 'q, 'n) store \<Rightarrow> ('v, 'q, 'n, 'f) shared \<Rightarrow> ('v, 'q, 'n, 'f) shared" where
  "put_store i st s = s\<lparr>sh_store := (sh_store s)(i := st)\<rparr>"

definition go :: "nat \<Rightarrow> 'n phase \<Rightarrow> ('v, 'q, 'n, 'f) shared \<Rightarrow> ('v, 'q, 'n, 'f) shared" where
  "go i p s = put_store i ((sh_store s i)\<lparr>st_phase := p\<rparr>) s"

inductive locked_step ::
  "('v, 'q, 'n, 'f) store_ops \<Rightarrow> ('v, 'q, 'n, 'f) shared \<Rightarrow> ('v, 'q, 'n, 'f) shared \<Rightarrow> bool" for ops where
  opened: "phase_of i s = Closed \<Longrightarrow> so_open ops (sh_file s) = Inr v \<Longrightarrow>
    locked_step ops s (put_store i \<lparr>st_value = v, st_queue = [], st_phase = Idle\<rparr> s)"
| crashed: "locked_step ops s (go i Closed s)"
| submitted: "phase_of i s \<noteq> Closed \<Longrightarrow> so_submit ops q = Inr q' \<Longrightarrow>
    locked_step ops s (put_store i ((sh_store s i)\<lparr>st_queue := st_queue (sh_store s i) @ [q']\<rparr>) s)"
| started: "phase_of i s = Idle \<Longrightarrow> st_queue (sh_store s i) = q # qs \<Longrightarrow>
    so_prepare ops (st_value (sh_store s i)) q = Inr n \<Longrightarrow>
    locked_step ops s (put_store i ((sh_store s i)\<lparr>st_queue := qs, st_phase := Making n\<rparr>) s)"
| refused: "phase_of i s = Idle \<Longrightarrow> st_queue (sh_store s i) = q # qs \<Longrightarrow>
    so_prepare ops (st_value (sh_store s i)) q = Inl e \<Longrightarrow>
    locked_step ops s (put_store i ((sh_store s i)\<lparr>st_queue := qs\<rparr>) s)"
| locked: "phase_of i s = Making n \<Longrightarrow> \<not> sh_lock s \<Longrightarrow> locked_step ops s ((go i (Holding n) s)\<lparr>sh_lock := True\<rparr>)"
| not_locked: "phase_of i s = Making n \<Longrightarrow> locked_step ops s (go i Idle s)"
| confirmed: "phase_of i s = Holding n \<Longrightarrow> so_confirm ops (st_value (sh_store s i)) n (sh_file s) = Inr n' \<Longrightarrow>
    locked_step ops s (go i (Writing n') s)"
| not_confirmed: "phase_of i s = Holding n \<Longrightarrow> locked_step ops s (go i Releasing s)"
| not_written: "phase_of i s = Writing n \<Longrightarrow> locked_step ops s (go i Releasing s)"
| renamed: "phase_of i s = Writing n \<Longrightarrow>
    locked_step ops s ((go i (Renamed n) s)\<lparr>sh_file := so_file ops n, sh_log := (sh_file s, so_file ops n) # sh_log s\<rparr>)"
| adopted: "phase_of i s = Renamed n \<Longrightarrow>
    locked_step ops s (put_store i ((sh_store s i)\<lparr>st_value := so_adopt ops n, st_phase := Releasing\<rparr>) s)"
| released: "phase_of i s = Releasing \<Longrightarrow> locked_step ops s ((go i Idle s)\<lparr>sh_lock := False\<rparr>)"
| stranded: "phase_of i s = Releasing \<Longrightarrow> locked_step ops s (go i Idle s)"

inductive_cases locked_stepE: "locked_step ops s t"

definition all_closed :: "('v, 'q, 'n, 'f) shared \<Rightarrow> bool" where
  "all_closed s \<longleftrightarrow> (\<forall>i. phase_of i s = Closed) \<and> sh_log s = []"

section \<open>What every interleaving keeps\<close>

definition is_holder :: "'n phase \<Rightarrow> bool" where
  "is_holder p = (case p of Holding _ \<Rightarrow> True | Writing _ \<Rightarrow> True | Renamed _ \<Rightarrow> True | Releasing \<Rightarrow> True | _ \<Rightarrow> False)"

lemma is_holder_simps [simp]:
  "\<not> is_holder Closed" "\<not> is_holder Idle" "\<not> is_holder (Making n)" "is_holder (Holding n)" "is_holder (Writing n)"
  "is_holder (Renamed n)" "is_holder Releasing"
  by (simp_all add: is_holder_def)

lemma put_store_simps [simp]:
  "sh_file (put_store i st s) = sh_file s" "sh_lock (put_store i st s) = sh_lock s" "sh_log (put_store i st s) = sh_log s"
  "sh_store (put_store i st s) j = (if j = i then st else sh_store s j)"
  by (simp_all add: put_store_def)

lemma go_simps [simp]:
  "sh_file (go i p s) = sh_file s" "sh_lock (go i p s) = sh_lock s" "sh_log (go i p s) = sh_log s"
  "sh_store (go i p s) j = (if j = i then (sh_store s i)\<lparr>st_phase := p\<rparr> else sh_store s j)"
  by (simp_all add: go_def)

text \<open>The old and new contents of the log follow each other up to the content now in the file.\<close>

fun chained :: "'f \<Rightarrow> ('f \<times> 'f) list \<Rightarrow> 'f \<Rightarrow> bool" where
  "chained first [] now = (first = now)"
| "chained first ((old, new) # log) now = (new = now \<and> chained first log old)"

locale locked_file =
  fixes ops :: "('v, 'q, 'n, 'f) store_ops"
    and value_ok :: "'v \<Rightarrow> bool" and next_ok :: "'n \<Rightarrow> bool"
    and rev_value :: "'v \<Rightarrow> int" and rev_next :: "'n \<Rightarrow> int" and rev_file :: "'f \<Rightarrow> int"
  assumes open_ok: "so_open ops f = Inr v \<Longrightarrow> value_ok v"
    and adopt_ok: "next_ok n \<Longrightarrow> value_ok (so_adopt ops n)"
    and prepare_rev: "value_ok v \<Longrightarrow> so_prepare ops v q = Inr n \<Longrightarrow> next_ok n \<and> rev_next n = rev_value v"
    and confirm_file: "value_ok v \<Longrightarrow> so_confirm ops v n f = Inr n' \<Longrightarrow> rev_file f = rev_value v"
    and confirm_next: "next_ok n \<Longrightarrow> so_confirm ops v n f = Inr n' \<Longrightarrow> rev_next n = rev_value v \<Longrightarrow>
      next_ok n' \<and> rev_file (so_file ops n') = rev_value v + 1"
begin

definition phase_ok :: "'f \<Rightarrow> ('v, 'q, 'n) store \<Rightarrow> bool" where
  "phase_ok file st \<longleftrightarrow> (st_phase st = Closed \<or> value_ok (st_value st)) \<and>
     (case st_phase st of
        Making n \<Rightarrow> next_ok n \<and> rev_next n = rev_value (st_value st)
      | Holding n \<Rightarrow> next_ok n \<and> rev_next n = rev_value (st_value st)
      | Writing n \<Rightarrow> next_ok n \<and> rev_file file = rev_value (st_value st)
          \<and> rev_file (so_file ops n) = rev_value (st_value st) + 1
      | Renamed n \<Rightarrow> next_ok n
      | _ \<Rightarrow> True)"

definition holders_ok :: "('v, 'q, 'n, 'f) shared \<Rightarrow> bool" where
  "holders_ok s \<longleftrightarrow> (\<forall>i. is_holder (phase_of i s) \<longrightarrow> sh_lock s)
     \<and> (\<forall>i j. is_holder (phase_of i s) \<and> is_holder (phase_of j s) \<longrightarrow> i = j)"

definition log_ok :: "'f \<Rightarrow> ('v, 'q, 'n, 'f) shared \<Rightarrow> bool" where
  "log_ok first s \<longleftrightarrow> chained first (sh_log s) (sh_file s) \<and> (\<forall>(old, new) \<in> set (sh_log s). rev_file new = rev_file old + 1)"

definition shared_ok :: "'f \<Rightarrow> ('v, 'q, 'n, 'f) shared \<Rightarrow> bool" where
  "shared_ok first s \<longleftrightarrow> holders_ok s \<and> (\<forall>i. phase_ok (sh_file s) (sh_store s i)) \<and> log_ok first s"

lemma holders_step: "locked_step ops s t \<Longrightarrow> holders_ok s \<Longrightarrow> holders_ok t"
  by (induction rule: locked_step.induct)
    (auto simp: holders_ok_def phase_of_def split: if_splits, (metis is_holder_simps(4-6))+)

lemma phase_ok_closed [simp]: "st_phase st = Closed \<Longrightarrow> phase_ok file st"
  by (simp add: phase_ok_def)

lemma phase_ok_value: "phase_ok file st \<Longrightarrow> st_phase st \<noteq> Closed \<Longrightarrow> value_ok (st_value st)"
  by (auto simp: phase_ok_def)

lemma phase_ok_done: "value_ok (st_value st) \<Longrightarrow> st_phase st \<in> {Idle, Releasing} \<Longrightarrow> phase_ok file st"
  by (auto simp: phase_ok_def)

lemma phase_ok_queue [simp]: "phase_ok file (st\<lparr>st_queue := q\<rparr>) = phase_ok file st"
  by (simp add: phase_ok_def split: phase.splits)

text \<open>Only the holder changes the file, and only the holder depends on it.\<close>

lemma phase_other_file: "\<not> is_holder (st_phase st) \<Longrightarrow> phase_ok file st = phase_ok file' st"
  by (cases "st_phase st") (simp_all add: phase_ok_def)

lemma phases_step:
  assumes "locked_step ops s t" "holders_ok s" and ok: "\<forall>i. phase_ok (sh_file s) (sh_store s i)"
  shows "phase_ok (sh_file t) (sh_store t j)"
  using assms(1)
proof cases
  case (opened i v)
  then show ?thesis using ok open_ok by (auto intro: phase_ok_done)
next
  case (started i q qs n)
  then have "value_ok (st_value (sh_store s i))" using ok phase_ok_value [of "sh_file s" "sh_store s i"] by (auto simp: phase_of_def)
  then show ?thesis using started ok prepare_rev by (auto simp: phase_ok_def)
next
  case (locked i n)
  then show ?thesis using ok [rule_format, of i] ok by (auto simp: phase_ok_def phase_of_def)
next
  case (confirmed i n n')
  then have "next_ok n" "rev_next n = rev_value (st_value (sh_store s i))" "value_ok (st_value (sh_store s i))"
    using ok [rule_format, of i] by (simp_all add: phase_ok_def phase_of_def)
  with confirmed ok confirm_file confirm_next show ?thesis by (auto simp: phase_ok_def)
next
  case (renamed i n)
  show ?thesis
  proof (cases "j = i")
    case True
    then show ?thesis using renamed ok [rule_format, of i] by (simp add: phase_ok_def phase_of_def)
  next
    case False
    then have "\<not> is_holder (st_phase (sh_store s j))" using renamed assms(2) by (auto simp: holders_ok_def phase_of_def)
    then show ?thesis using renamed False ok phase_other_file by auto
  qed
next
  case (adopted i n)
  then have "next_ok n" using ok [rule_format, of i] by (simp add: phase_ok_def phase_of_def)
  with adopted show ?thesis using ok adopt_ok by (auto intro: phase_ok_done)
next
  case (not_locked i n)
  then show ?thesis using ok phase_ok_value [of "sh_file s" "sh_store s i"] by (auto simp: phase_of_def intro: phase_ok_done)
next
  case (not_confirmed i n)
  then show ?thesis using ok phase_ok_value [of "sh_file s" "sh_store s i"] by (auto simp: phase_of_def intro: phase_ok_done)
next
  case (not_written i n)
  then show ?thesis using ok phase_ok_value [of "sh_file s" "sh_store s i"] by (auto simp: phase_of_def intro: phase_ok_done)
next
  case (released i)
  then show ?thesis using ok phase_ok_value [of "sh_file s" "sh_store s i"] by (auto simp: phase_of_def intro: phase_ok_done)
next
  case (stranded i)
  then show ?thesis using ok phase_ok_value [of "sh_file s" "sh_store s i"] by (auto simp: phase_of_def intro: phase_ok_done)
qed (use ok in auto)

lemma log_step:
  assumes "locked_step ops s t" "\<forall>i. phase_ok (sh_file s) (sh_store s i)" "log_ok first s"
  shows "log_ok first t"
  using assms
proof cases
  case (renamed i n)
  then have "rev_file (so_file ops n) = rev_file (sh_file s) + 1"
    using assms(2) [rule_format, of i] by (simp add: phase_ok_def phase_of_def)
  with renamed assms(3) show ?thesis by (simp add: log_ok_def)
qed (simp_all add: log_ok_def)

lemma shared_step: "locked_step ops s t \<Longrightarrow> shared_ok first s \<Longrightarrow> shared_ok first t"
  unfolding shared_ok_def using holders_step phases_step log_step by blast

lemma shared_start: "all_closed s \<Longrightarrow> shared_ok (sh_file s) s"
  by (auto simp: shared_ok_def all_closed_def holders_ok_def log_ok_def phase_of_def)

lemma shared_reachable: "(locked_step ops)\<^sup>*\<^sup>* s t \<Longrightarrow> all_closed s \<Longrightarrow> shared_ok (sh_file s) t"
  by (induction rule: rtranclp_induct) (auto intro: shared_start shared_step)

text \<open>
  Every content was written by a store that knew the content before it, and one writer is at work at a
  time.
\<close>

lemma no_lost_update:
  assumes "(locked_step ops)\<^sup>*\<^sup>* s t" "all_closed s"
  shows "chained (sh_file s) (sh_log t) (sh_file t) \<and> (\<forall>(old, new) \<in> set (sh_log t). rev_file new = rev_file old + 1)
    \<and> (\<forall>i j. is_holder (phase_of i t) \<and> is_holder (phase_of j t) \<longrightarrow> i = j)"
  using shared_reachable [OF assms] by (auto simp: shared_ok_def log_ok_def holders_ok_def)

end

lemma chained_count: "chained first log now \<Longrightarrow> (\<forall>(old, new) \<in> set log. r new = r old + (1 :: int)) \<Longrightarrow>
    r now = r first + int (length log)"
  by (induction first log now rule: chained.induct) auto

section \<open>A commit that nothing disturbs\<close>

lemma put_store_twice [simp]: "put_store i a (put_store i b s) = put_store i a s"
  by (simp add: put_store_def)

lemma commit_completes:
  assumes "phase_of i s = Idle" "st_queue (sh_store s i) = q # qs" "\<not> sh_lock s"
    and "so_prepare ops (st_value (sh_store s i)) q = Inr n"
    and "so_confirm ops (st_value (sh_store s i)) n (sh_file s) = Inr n'"
  shows "\<exists>t. (locked_step ops)\<^sup>*\<^sup>* s t \<and> sh_file t = so_file ops n'
    \<and> sh_store t i = (sh_store s i)\<lparr>st_value := so_adopt ops n', st_queue := qs, st_phase := Idle\<rparr> \<and> \<not> sh_lock t"
proof -
  define s1 where "s1 = put_store i ((sh_store s i)\<lparr>st_queue := qs, st_phase := Making n\<rparr>) s"
  define s2 where "s2 = (go i (Holding n) s1)\<lparr>sh_lock := True\<rparr>"
  define s3 where "s3 = go i (Writing n') s2"
  define s4 where "s4 = (go i (Renamed n') s3)\<lparr>sh_file := so_file ops n', sh_log := (sh_file s3, so_file ops n') # sh_log s3\<rparr>"
  define s5 where "s5 = put_store i ((sh_store s4 i)\<lparr>st_value := so_adopt ops n', st_phase := Releasing\<rparr>) s4"
  define s6 where "s6 = (go i Idle s5)\<lparr>sh_lock := False\<rparr>"
  note defs = s1_def s2_def s3_def s4_def s5_def s6_def
  have "locked_step ops s s1" unfolding s1_def by (rule started) (use assms in auto)
  moreover have "locked_step ops s1 s2"
    unfolding s2_def by (rule locked) (use assms in \<open>simp_all add: s1_def phase_of_def\<close>)
  moreover have "locked_step ops s2 s3"
    unfolding s3_def by (rule confirmed) (use assms in \<open>simp_all add: s1_def s2_def phase_of_def\<close>)
  moreover have "locked_step ops s3 s4" unfolding s4_def by (rule renamed) (simp add: s3_def phase_of_def)
  moreover have "locked_step ops s4 s5" unfolding s5_def by (rule adopted) (simp add: s4_def phase_of_def)
  moreover have "locked_step ops s5 s6" unfolding s6_def by (rule released) (simp add: s5_def phase_of_def)
  ultimately have "(locked_step ops)\<^sup>*\<^sup>* s s6" by (meson converse_rtranclp_into_rtranclp rtranclp.rtrancl_refl)
  moreover have "sh_file s6 = so_file ops n'" "\<not> sh_lock s6"
    "sh_store s6 i = (sh_store s i)\<lparr>st_value := so_adopt ops n', st_queue := qs, st_phase := Idle\<rparr>"
    by (simp_all add: defs)
  ultimately show ?thesis by blast
qed

end
