(* ===== verification/AccessSettings.thy ===== *)
theory AccessSettings
  imports Json PeerNetwork LockedFile
begin

text \<open>
  \<^verbatim>\<open>apps/server/src/access-settings.mjs\<close>: the admission settings, their validation and migration, and
  their file, as operations of the shared file of \<open>LockedFile\<close>. Settings are the own fields of the
  object, in order. The comparison of two \<^verbatim>\<open>JSON.stringify\<close> texts is comparison of the values, keys in
  order; the length of a name counts code points, which are its characters here.
\<close>

section \<open>Tables\<close>

type_synonym settings = "(string \<times> json) list"

definition MAX_SESSIONS_LIMIT :: int where "MAX_SESSIONS_LIMIT = 8"
definition MAX_PUBLIC_HOSTNAMES :: nat where "MAX_PUBLIC_HOSTNAMES = 8"
definition DEFAULT_MEDIA_PORT :: int where "DEFAULT_MEDIA_PORT = 4384"
definition lowest_media_port :: int where "lowest_media_port = 1024"
definition fewest_media_ports :: int where "fewest_media_ports = 8"
definition most_media_ports :: int where "most_media_ports = 1000"

definition DEFAULTS :: settings where
  "DEFAULTS =
     [(''revision'', JInt 0), (''defaultControl'', JStr ''approval''), (''connectionMode'', JStr ''session-key''),
      (''maxSessions'', JInt 4), (''shortCodeTtlSeconds'', JInt 300), (''shortCodeMaxFailures'', JInt 20),
      (''shortCodePerSourceMaxFailures'', JInt 5), (''sessionPasswordMaxFailures'', JInt 20),
      (''defaultCodeAlphabet'', JStr ''letters-digits''), (''localSessionNetworks'', JStr ''auto''),
      (''publicName'', JStr ''VidVNC host''), (''remoteAccess'', JBool False), (''publicHostnames'', JArr []),
      (''publicPort'', JNull), (''mediaPort'', JNull)]"

section \<open>Values\<close>

definition bounded :: "json option \<Rightarrow> int \<Rightarrow> int \<Rightarrow> bool" where
  "bounded v lo hi = (case v of Some (JInt n) \<Rightarrow> lo \<le> n \<and> n \<le> hi | _ \<Rightarrow> False)"

definition validMediaPort :: "json option \<Rightarrow> bool" where
  "validMediaPort v \<longleftrightarrow> v = Some JNull \<or> bounded v lowest_media_port 65535"

definition mediaPortOf :: "settings option \<Rightarrow> json" where
  "mediaPortOf s =
     (case s of
        None \<Rightarrow> JInt DEFAULT_MEDIA_PORT
      | Some m \<Rightarrow> (case jget m ''mediaPort'' of None \<Rightarrow> JInt DEFAULT_MEDIA_PORT | Some JNull \<Rightarrow> JInt DEFAULT_MEDIA_PORT | Some v \<Rightarrow> v))"

text \<open>The old range format.\<close>

definition validMediaPorts :: "json \<Rightarrow> bool" where
  "validMediaPorts v =
     (case v of
        JNull \<Rightarrow> True
      | JObj m \<Rightarrow>
          length m = 2 \<and>
          (case (jget m ''min'', jget m ''max'') of
             (Some (JInt lo), Some (JInt hi)) \<Rightarrow>
               lowest_media_port \<le> lo \<and> hi \<le> 65535 \<and> fewest_media_ports \<le> hi - lo + 1 \<and> hi - lo + 1 \<le> most_media_ports
           | _ \<Rightarrow> False)
      | _ \<Rightarrow> False)"

definition migrate :: "json \<Rightarrow> json result" where
  "migrate v =
     (case v of
        JObj m \<Rightarrow>
          (case jget m ''mediaPorts'' of
             None \<Rightarrow> Inr v
           | Some ports \<Rightarrow>
               if \<not> validMediaPorts ports then Inl ''Invalid access settings''
               else Inr (JObj (jset ''mediaPort''
                 (case ports of JObj p \<Rightarrow> the (jget p ''min'') | _ \<Rightarrow> JNull) (jdel ''mediaPorts'' m))))
      | _ \<Rightarrow> Inr v)"

text \<open>\<^verbatim>\<open>/^[a-z0-9](?:[a-z0-9-]{0,61}[a-z0-9])?$/\<close>.\<close>

definition host_char :: "char \<Rightarrow> bool" where
  "host_char c \<longleftrightarrow> is_lower c \<or> is_digit c"

definition is_label :: "string \<Rightarrow> bool" where
  "is_label s \<longleftrightarrow> s \<noteq> [] \<and> length s \<le> 63 \<and> host_char (hd s) \<and> host_char (last s)
     \<and> list_all (\<lambda>c. host_char c \<or> c = CHR ''-'') s"

definition unbracket :: "string \<Rightarrow> string" where
  "unbracket s = (if s \<noteq> [] \<and> hd s = CHR ''['' \<and> last s = CHR '']'' then butlast (tl s) else s)"

definition without_dot :: "string \<Rightarrow> string" where
  "without_dot s = (if s \<noteq> [] \<and> last s = CHR ''.'' then butlast s else s)"

definition normalizePublicHostname :: "json \<Rightarrow> string option" where
  "normalizePublicHostname v =
     (case v of
        JStr s \<Rightarrow>
          (let text = without_dot (unbracket (js_lower (js_trim s))); labels = split_on (CHR ''.'') text
           in if isIP text \<noteq> 0 then Some text
              else if length text > 253 \<or> length labels < 2 \<or> \<not> list_all is_label labels
                \<or> list_all is_digit (last labels) then None
              else Some text)
      | _ \<Rightarrow> None)"

definition validPublicHostnames :: "json option \<Rightarrow> bool" where
  "validPublicHostnames v =
     (case v of
        Some (JArr xs) \<Rightarrow>
          length xs \<le> MAX_PUBLIC_HOSTNAMES \<and> list_all (\<lambda>x. map_option JStr (normalizePublicHostname x) = Some x) xs
          \<and> distinct xs
      | _ \<Rightarrow> False)"

text \<open>\<^verbatim>\<open>/^(.+)\/(\d{1,3})$/\<close>: the address before the last slash and the digits after it.\<close>

definition validNetworkCidr :: "json \<Rightarrow> bool" where
  "validNetworkCidr v =
     (case v of
        JStr s \<Rightarrow>
          (let digits = rev (takeWhile is_digit (rev s)); rest = dropWhile is_digit (rev s)
           in digits \<noteq> [] \<and> length digits \<le> 3 \<and> rest \<noteq> [] \<and> hd rest = CHR ''/''
              \<and> isIP (rev (tl rest)) \<noteq> 0
              \<and> number_in 10 digits \<le> (if isIP (rev (tl rest)) = 4 then 32 else 128))
      | _ \<Rightarrow> False)"

section \<open>Validation\<close>

definition falsy :: "json \<Rightarrow> bool" where
  "falsy v \<longleftrightarrow> v \<in> {JNull, JBool False, JInt 0, JStr []}"

text \<open>\<^verbatim>\<open>{ ...a, ...b }\<close>.\<close>

definition merged :: "settings \<Rightarrow> settings \<Rightarrow> settings" where
  "merged a b = fold (\<lambda>(k, v) m. jset k v m) b a"

text \<open>The Latin-1 part of the characters a public name may not have.\<close>

definition name_control :: "char \<Rightarrow> bool" where
  "name_control c \<longleftrightarrow> code c < 32 \<or> (127 \<le> code c \<and> code c \<le> 159)"

definition is_one_of :: "string list \<Rightarrow> json option \<Rightarrow> bool" where
  "is_one_of choices v = (case v of Some (JStr s) \<Rightarrow> s \<in> set choices | _ \<Rightarrow> False)"

definition name_checks :: "settings \<Rightarrow> checks" where
  "name_checks next =
     [(\<not> (jget next ''remoteAccess'' = Some (JBool True) \<and> jget next ''connectionMode'' \<noteq> Some (JStr ''approved-only'')),
       ''Remote access requires connection mode approved-only''),
      (is_str (jget next ''publicName''), ''Invalid public name''),
      (js_trim (str_of (jget next ''publicName'')) \<noteq> [] \<and> length (js_trim (str_of (jget next ''publicName''))) \<le> 80
         \<and> list_all (\<lambda>c. \<not> name_control c) (js_trim (str_of (jget next ''publicName''))), ''Invalid public name'')]"

definition settings_ok :: "json \<Rightarrow> settings \<Rightarrow> bool" where
  "settings_ok value next \<longleftrightarrow>
     \<not> falsy value
     \<and> safe_int 0 (MAX_SAFE_INTEGER - 1) (jget next ''revision'')
     \<and> is_one_of [''approval'', ''available''] (jget next ''defaultControl'')
     \<and> is_one_of [''session-key'', ''one-time-keys'', ''approved-only''] (jget next ''connectionMode'')
     \<and> safe_int 1 MAX_SESSIONS_LIMIT (jget next ''maxSessions'')
     \<and> bounded (jget next ''shortCodeTtlSeconds'') 60 600
     \<and> bounded (jget next ''shortCodeMaxFailures'') 1 20
     \<and> bounded (jget next ''shortCodePerSourceMaxFailures'') 1 5
     \<and> int_of (jget next ''shortCodePerSourceMaxFailures'') \<le> int_of (jget next ''shortCodeMaxFailures'')
     \<and> bounded (jget next ''sessionPasswordMaxFailures'') 1 20
     \<and> is_one_of [''letters-digits'', ''letters''] (jget next ''defaultCodeAlphabet'')
     \<and> (jget next ''localSessionNetworks'' = Some (JStr ''auto'')
          \<or> (case jget next ''localSessionNetworks'' of
               Some (JArr xs) \<Rightarrow> 1 \<le> length xs \<and> length xs \<le> 16 \<and> list_all validNetworkCidr xs | _ \<Rightarrow> False))
     \<and> is_bool (jget next ''remoteAccess'')
     \<and> validPublicHostnames (jget next ''publicHostnames'')
     \<and> (jget next ''remoteAccess'' = Some (JBool True) \<longrightarrow> jget next ''publicHostnames'' \<noteq> Some (JArr []))
     \<and> validMediaPort (jget next ''mediaPort'')
     \<and> (jget next ''publicPort'' = Some JNull \<or> bounded (jget next ''publicPort'') 1 65535)
     \<and> list_all (\<lambda>k. jhas DEFAULTS k) (jkeys (jspread value))"

definition validate_settings :: "json \<Rightarrow> settings result" where
  "validate_settings given =
     (case migrate given of
        Inl e \<Rightarrow> Inl e
      | Inr value \<Rightarrow>
          (let next = merged DEFAULTS (jspread value)
           in case first_error (name_checks next) of
                Some e \<Rightarrow> Inl e
              | None \<Rightarrow>
                  (let next = jset ''publicName'' (JStr (js_trim (str_of (jget next ''publicName'')))) next
                   in if settings_ok value next then Inr next else Inl ''Invalid access settings'')))"

text \<open>The keys that a file may hold; each other key is dropped with a warning about its first 64 characters.\<close>

definition known_key :: "string \<Rightarrow> bool" where
  "known_key k \<longleftrightarrow> jhas DEFAULTS k \<or> k = ''mediaPorts''"

definition withoutUnknown :: "json \<Rightarrow> json \<times> string list" where
  "withoutUnknown v =
     (case v of
        JObj m \<Rightarrow> (JObj (filter (\<lambda>(k, _). known_key k) m), map (take 64) (filter (\<lambda>k. \<not> known_key k) (jkeys m)))
      | _ \<Rightarrow> (v, []))"

section \<open>The store\<close>

datatype settings_file = NoFile | BadFile string | FileOf json

definition read_settings :: "settings_file \<Rightarrow> settings result" where
  "read_settings file =
     (case file of
        NoFile \<Rightarrow> Inr DEFAULTS
      | BadFile e \<Rightarrow> Inl e
      | FileOf v \<Rightarrow> validate_settings (fst (withoutUnknown v)))"

type_synonym settings_request = "settings \<times> json"

definition prepare_settings :: "settings \<Rightarrow> settings_request \<Rightarrow> settings result" where
  "prepare_settings value q =
     (case q of (changes, revision) \<Rightarrow>
        (case validate_settings (JObj (jset ''revision'' revision (merged value changes))) of
           Inl e \<Rightarrow> Inl e
         | Inr next \<Rightarrow>
             if Some revision \<noteq> jget value ''revision'' then Inl ''Access settings changed; reload before saving''
             else Inr next))"

text \<open>
  \<^verbatim>\<open>sharing-mode.mjs\<close>: how the owner asked sharing to start. \<open>replace\<close> is the error of the change, if it has one; the result is
  the notice for the host.
\<close>

definition applySharingMode :: "(settings_request \<Rightarrow> string option) \<Rightarrow> settings \<Rightarrow> string \<Rightarrow> string option" where
  "applySharingMode replace current mode =
     (let remote = (mode = ''remote''); revision = (case jget current ''revision'' of Some v \<Rightarrow> v | None \<Rightarrow> JNull)
      in if jget current ''remoteAccess'' = Some (JBool remote) then None
         else if remote \<and> arr_of (jget current ''publicHostnames'') = []
         then Some (''Remote access needs the name or address internet devices use for this PC. Add it under Settings, Remote access, ''
                @ ''then switch to remote access. Sharing started on the local network only.'')
         else (case replace (if remote then [(''remoteAccess'', JBool True), (''connectionMode'', JStr ''approved-only'')]
                             else [(''remoteAccess'', JBool False)], revision) of
                 None \<Rightarrow> None
               | Some e \<Rightarrow>
                   Some (if remote then ''Remote access could not be turned on ('' @ e @ ''). Sharing started on the local network only.''
                         else ''Remote access is still on: it could not be turned off ('' @ e @ '').'')))"

definition confirm_settings :: "settings \<Rightarrow> settings \<Rightarrow> settings_file \<Rightarrow> settings result" where
  "confirm_settings value next file =
     (case read_settings file of
        Inl e \<Rightarrow> Inl e
      | Inr disk \<Rightarrow>
          if disk \<noteq> value then Inl ''Access settings changed on disk; restart before saving''
          else (let next = jset ''revision'' (JInt (int_of (jget next ''revision'') + 1)) next
                in case validate_settings (JObj next) of Inl e \<Rightarrow> Inl e | Inr _ \<Rightarrow> Inr next))"

definition settings_ops :: "(settings, settings_request, settings, settings_file) store_ops" where
  "settings_ops =
     \<lparr>so_open = read_settings, so_submit = Inr, so_prepare = prepare_settings, so_confirm = confirm_settings,
      so_file = (\<lambda>next. FileOf (JObj next)), so_adopt = (\<lambda>next. next)\<rparr>"

text \<open>
  The listeners, in the order they were added: each is called with the new and the previous settings
  after a change is saved, whatever the others do.
\<close>

definition onChange :: "nat \<Rightarrow> nat list \<Rightarrow> nat list" where
  "onChange listener ls = (if listener \<in> set ls then ls else ls @ [listener])"

definition offChange :: "nat \<Rightarrow> nat list \<Rightarrow> nat list" where
  "offChange listener ls = filter (\<lambda>l. l \<noteq> listener) ls"

definition notified :: "nat list \<Rightarrow> settings \<Rightarrow> settings \<Rightarrow> (nat \<times> settings \<times> settings) list" where
  "notified ls next previous = map (\<lambda>l. (l, next, previous)) ls"

section \<open>Lemmas\<close>

lemma merged_get_notin: "k \<notin> fst ` set b \<Longrightarrow> jget (merged a b) k = jget a k"
  unfolding merged_def by (induction b arbitrary: a) auto

lemma merged_get: "jmap_ok b \<Longrightarrow> jget b k = Some v \<Longrightarrow> jget (merged a b) k = Some v"
proof (induction b arbitrary: a)
  case (Cons p b)
  have m: "merged a (p # b) = merged (jset (fst p) (snd p) a) b" by (simp add: merged_def case_prod_beta)
  show ?case
  proof (cases "fst p = k")
    case True
    then have "k \<notin> fst ` set b" using Cons.prems(1) by (auto simp: jmap_ok_def)
    then show ?thesis using True Cons.prems(2) by (simp add: m merged_get_notin)
  next
    case False
    then show ?thesis using Cons by (auto simp: m jmap_ok_def)
  qed
qed simp

lemma merged_self: "map fst a = map fst d \<Longrightarrow> distinct (map fst d) \<Longrightarrow> merged d a = a"
proof (induction a arbitrary: d)
  case Nil
  then show ?case by (simp add: merged_def)
next
  case (Cons p a)
  then obtain q d' where d: "d = q # d'" "fst q = fst p" "map fst a = map fst d'" "distinct (map fst d')"
    by (cases d) auto
  have keep: "fold (\<lambda>(k, v) m. jset k v m) xs (p # m) = p # fold (\<lambda>(k, v) m. jset k v m) xs m"
    if "fst p \<notin> fst ` set xs" for xs m
    using that by (induction xs arbitrary: m) auto
  have "fst p \<notin> fst ` set a" using Cons.prems d(2,3) by (metis d(1) distinct.simps(2) list.map(2) list.set_map)
  then have "merged d (p # a) = p # merged d' a"
    using d(2) keep [of a d'] by (cases p; cases q) (simp add: merged_def d(1))
  with Cons.IH d(3,4) show ?case by simp
qed

lemma merged_keys: "fst ` set (merged a b) = fst ` set a \<union> fst ` set b"
  unfolding merged_def
proof (induction b arbitrary: a)
  case (Cons p b)
  show ?case using Cons [of "jset (fst p) (snd p) a"] by (simp add: case_prod_beta)
qed simp

lemma validate_settings_Inr:
  assumes "validate_settings given = Inr s"
  obtains val where "migrate given = Inr val"
    "s = jset ''publicName'' (JStr (js_trim (str_of (jget (merged DEFAULTS (jspread val)) ''publicName'')))) (merged DEFAULTS (jspread val))"
    "first_error (name_checks (merged DEFAULTS (jspread val))) = None" "settings_ok val s"
  using assms by (auto simp: validate_settings_def Let_def split: sum.splits option.splits if_splits)

lemma defaults_keys: "distinct (map fst DEFAULTS)"
  by code_simp

lemma jset_keys: "k \<in> fst ` set m \<Longrightarrow> map fst (jset k v m) = map fst m"
  by (induction m) auto

lemma fold_jset_keys: "fst ` set b \<subseteq> fst ` set a \<Longrightarrow> map fst (merged a b) = map fst a"
proof (induction b arbitrary: a)
  case Nil
  then show ?case by (simp add: merged_def)
next
  case (Cons p b)
  have m: "merged a (p # b) = merged (jset (fst p) (snd p) a) b" by (simp add: merged_def case_prod_beta)
  have "fst ` set b \<subseteq> fst ` set (jset (fst p) (snd p) a)" using Cons.prems by auto
  moreover have "map fst (jset (fst p) (snd p) a) = map fst a" using Cons.prems by (intro jset_keys) simp
  ultimately show ?case using Cons.IH m by simp
qed

lemma settings_keys:
  assumes "validate_settings given = Inr s"
  shows "map fst s = map fst DEFAULTS"
proof (rule validate_settings_Inr [OF assms])
  fix val
  assume v: "s = jset ''publicName'' (JStr (js_trim (str_of (jget (merged DEFAULTS (jspread val)) ''publicName'')))) (merged DEFAULTS (jspread val))"
    "settings_ok val s"
  have "fst ` set (jspread val) \<subseteq> fst ` set DEFAULTS"
    using v(2) by (auto simp: settings_ok_def list_all_iff jhas_iff)
  then have k: "map fst (merged DEFAULTS (jspread val)) = map fst DEFAULTS" by (rule fold_jset_keys)
  have "''publicName'' \<in> set (map fst DEFAULTS)" by code_simp
  then have "''publicName'' \<in> fst ` set (merged DEFAULTS (jspread val))" by (metis k list.set_map)
  from jset_keys [OF this] k v(1) show ?thesis by simp
qed

lemma defaults_not_media: "''mediaPorts'' \<notin> set (map fst DEFAULTS)"
  by code_simp

lemma migrate_settled: "map fst s = map fst DEFAULTS \<Longrightarrow> migrate (JObj s) = Inr (JObj s)"
proof -
  assume "map fst s = map fst DEFAULTS"
  then have "jget s ''mediaPorts'' = None" using defaults_not_media by (metis list.set_map map_of_eq_None_iff)
  then show ?thesis by (simp add: migrate_def)
qed

lemma str_of_text: "str_of (Some (JStr s)) = s"
  by (simp add: str_of_def)

lemma js_trim_twice: "js_trim (js_trim s) = js_trim s"
proof -
  have drop: "dropWhile p (dropWhile p xs) = dropWhile p xs" for p and xs :: string
    by (induction xs) auto
  have front: "dropWhile is_space (rev (dropWhile is_space (rev t))) = rev (dropWhile is_space (rev t))"
    if "dropWhile is_space t = t" for t
  proof (cases "rev (dropWhile is_space (rev t))")
    case (Cons c cs)
    have "t = rev (dropWhile is_space (rev t)) @ rev (takeWhile is_space (rev t))"
      by (metis rev_append rev_rev_ident takeWhile_dropWhile_id)
    then have "hd t = c" "t \<noteq> []" unfolding Cons by (metis append_Cons list.sel(1), metis append_is_Nil_conv list.distinct(1))
    then have "\<not> is_space c" using that hd_dropWhile [of is_space t] by auto
    then show ?thesis unfolding Cons by simp
  next
    case Nil
    show ?thesis unfolding Nil by simp
  qed
  show ?thesis
    unfolding js_trim_def using front [OF drop, of s] drop [of is_space "rev (dropWhile is_space s)"]
    by simp
qed

text \<open>The result of the validation is valid as it is.\<close>

lemma validate_settled:
  assumes "validate_settings given = Inr s"
  shows "validate_settings (JObj s) = Inr s"
proof (rule validate_settings_Inr [OF assms])
  fix val
  let ?n = "merged DEFAULTS (jspread val)"
  assume v: "s = jset ''publicName'' (JStr (js_trim (str_of (jget ?n ''publicName'')))) ?n"
    "first_error (name_checks ?n) = None" "settings_ok val s"
  have k: "map fst s = map fst DEFAULTS" by (rule settings_keys [OF assms])
  have m: "merged DEFAULTS s = s" using k defaults_keys by (rule merged_self)
  have name: "jget s ''publicName'' = Some (JStr (js_trim (str_of (jget ?n ''publicName''))))" by (simp add: v(1))
  have others: "jget s ''remoteAccess'' = jget ?n ''remoteAccess''" "jget s ''connectionMode'' = jget ?n ''connectionMode''"
    by (simp_all add: v(1))
  have trimmed: "js_trim (str_of (jget s ''publicName'')) = js_trim (str_of (jget ?n ''publicName''))"
    by (simp add: name str_of_def js_trim_twice)
  have "first_error (name_checks s) = None"
    using v(2) by (simp add: name_checks_def others name is_str_def str_of_text js_trim_twice split: if_splits)
  moreover have "jset ''publicName'' (JStr (js_trim (str_of (jget s ''publicName'')))) s = s"
    unfolding trimmed by (rule jset_same [OF name])
  moreover have "settings_ok (JObj s) s"
  proof -
    have "\<not> falsy (JObj s)" by (simp add: falsy_def)
    moreover have "list_all (\<lambda>k. jhas DEFAULTS k) (jkeys s)"
      unfolding k by (simp add: list_all_iff jhas_iff)
    ultimately show ?thesis using v(3) unfolding settings_ok_def jget_spread_obj by blast
  qed
  ultimately show ?thesis
    by (simp add: validate_settings_def migrate_settled [OF k] m Let_def)
qed

definition settings_revision :: "settings \<Rightarrow> int" where
  "settings_revision s = int_of (jget s ''revision'')"

definition settings_file_revision :: "settings_file \<Rightarrow> int" where
  "settings_file_revision file = (case read_settings file of Inr s \<Rightarrow> settings_revision s | Inl _ \<Rightarrow> 0)"

text \<open>The revision of a validated object is its own, and its keys are those a file may hold.\<close>

lemma migrated:
  assumes "migrate (JObj m) = Inr val"
  shows "\<exists>m'. val = JObj m' \<and> jget m' ''revision'' = jget m ''revision'' \<and> fst ` set m \<subseteq> insert ''mediaPorts'' (fst ` set m')"
  using assms
  by (auto simp: migrate_def set_jdel split: option.splits if_splits json.splits)

lemma validated_settings:
  assumes "validate_settings (JObj m) = Inr s" "jmap_ok m"
  shows "jhas m ''revision'' \<Longrightarrow> jget s ''revision'' = jget m ''revision''" "list_all known_key (map fst m)"
proof -
  obtain val where v: "migrate (JObj m) = Inr val"
    "s = jset ''publicName'' (JStr (js_trim (str_of (jget (merged DEFAULTS (jspread val)) ''publicName'')))) (merged DEFAULTS (jspread val))"
    "settings_ok val s"
    by (rule validate_settings_Inr [OF assms(1)]) blast
  obtain m' where m': "val = JObj m'" "jget m' ''revision'' = jget m ''revision''" "fst ` set m \<subseteq> insert ''mediaPorts'' (fst ` set m')"
    using migrated [OF v(1)] by blast
  have "list_all (\<lambda>k. jhas DEFAULTS k) (map fst m')" using v(3) m'(1) by (simp add: settings_ok_def)
  then have "\<forall>k \<in> fst ` set m'. jhas DEFAULTS k" by (simp add: list_all_iff)
  then have "\<forall>k \<in> fst ` set m. known_key k" using m'(3) unfolding known_key_def by blast
  then show "list_all known_key (map fst m)" by (simp add: list_all_iff)
  assume "jhas m ''revision''"
  then have "jhas m' ''revision''" using m'(2) by (simp add: jhas_def)
  moreover have "jmap_ok m'"
    using v(1) assms(2) m'(1) by (auto simp: migrate_def split: option.splits if_splits)
  ultimately have "jget (merged DEFAULTS m') ''revision'' = jget m' ''revision''"
    using merged_get [of m' "''revision''" _ DEFAULTS] by (auto simp: jhas_def)
  then show "jget s ''revision'' = jget m ''revision''" using v(2) m'(1,2) by simp
qed

definition settings_shape :: "settings \<Rightarrow> bool" where
  "settings_shape s \<longleftrightarrow> map fst s = map fst DEFAULTS"

lemma shape_ok: "settings_shape s \<Longrightarrow> jmap_ok s"
  using defaults_keys by (simp add: settings_shape_def jmap_ok_def)

lemma jmap_ok_merged: "jmap_ok a \<Longrightarrow> jmap_ok (merged a b)"
  unfolding merged_def by (induction b arbitrary: a) auto

lemma read_settings_shape: "read_settings file = Inr s \<Longrightarrow> settings_shape s"
  by (auto simp: read_settings_def settings_shape_def dest: settings_keys split: settings_file.splits)

lemma prepared_settings:
  assumes "prepare_settings s q = Inr n" "settings_shape s"
  shows "settings_shape n" "settings_revision n = settings_revision s"
proof -
  obtain changes r where q: "q = (changes, r)" by fastforce
  have v: "validate_settings (JObj (jset ''revision'' r (merged s changes))) = Inr n" "Some r = jget s ''revision''"
    using assms by (auto simp: prepare_settings_def q split: sum.splits if_splits)
  show "settings_shape n" using settings_keys [OF v(1)] by (simp add: settings_shape_def)
  have "jmap_ok (jset ''revision'' r (merged s changes))"
    using shape_ok [OF assms(2)] by (intro jmap_ok_jset jmap_ok_merged)
  from validated_settings(1) [OF v(1) this] v(2) show "settings_revision n = settings_revision s"
    by (simp add: settings_revision_def)
qed

lemma revision_key: "settings_shape s \<Longrightarrow> ''revision'' \<in> fst ` set s"
proof -
  assume "settings_shape s"
  moreover have "''revision'' \<in> set (map fst DEFAULTS)" by code_simp
  ultimately show ?thesis unfolding settings_shape_def by (metis list.set_map)
qed

lemma confirmed_settings:
  assumes "confirm_settings v n f = Inr n'" "settings_shape n"
  shows "settings_shape n'" "settings_file_revision (FileOf (JObj n')) = settings_revision n + 1"
proof -
  have n': "n' = jset ''revision'' (JInt (settings_revision n + 1)) n"
    and "\<exists>w. validate_settings (JObj n') = Inr w"
    using assms by (auto simp: confirm_settings_def Let_def settings_revision_def split: sum.splits if_splits)
  then obtain w where w: "validate_settings (JObj n') = Inr w" by blast
  show shape: "settings_shape n'"
    using assms(2) jset_keys [OF revision_key [OF assms(2)]] by (simp add: n' settings_shape_def)
  have "list_all known_key (map fst n')" using validated_settings(2) [OF w shape_ok [OF shape]] .
  then have "fst (withoutUnknown (JObj n')) = JObj n'"
    by (auto simp: withoutUnknown_def list_all_iff intro!: filter_True)
  moreover have "jget w ''revision'' = Some (JInt (settings_revision n + 1))"
    using validated_settings(1) [OF w shape_ok [OF shape]] by (simp add: n' jhas_def)
  ultimately show "settings_file_revision (FileOf (JObj n')) = settings_revision n + 1"
    using w by (simp add: settings_file_revision_def read_settings_def settings_revision_def int_of_def)
qed

interpretation access: locked_file settings_ops settings_shape settings_shape settings_revision settings_revision settings_file_revision
proof
  show "so_open settings_ops f = Inr v \<Longrightarrow> settings_shape v" for f v
    using read_settings_shape by (simp add: settings_ops_def)
  show "settings_shape n \<Longrightarrow> settings_shape (so_adopt settings_ops n)" for n by (simp add: settings_ops_def)
  show "settings_shape v \<Longrightarrow> so_prepare settings_ops v q = Inr n \<Longrightarrow> settings_shape n \<and> settings_revision n = settings_revision v" for v q n
    using prepared_settings by (simp add: settings_ops_def)
  show "settings_shape v \<Longrightarrow> so_confirm settings_ops v n f = Inr n' \<Longrightarrow> settings_file_revision f = settings_revision v" for v n f n'
    by (auto simp: settings_ops_def confirm_settings_def settings_file_revision_def split: sum.splits if_splits)
  show "settings_shape n \<Longrightarrow> so_confirm settings_ops v n f = Inr n' \<Longrightarrow> settings_revision n = settings_revision v \<Longrightarrow>
      settings_shape n' \<and> settings_file_revision (so_file settings_ops n') = settings_revision v + 1" for v n f n'
    using confirmed_settings by (simp add: settings_ops_def)
qed

section \<open>Properties\<close>

text \<open>
  C31: no two processes overwrite each other's access settings, in any interleaving of stores that share
  the file, with file operations failing and processes ending anywhere.
\<close>

theorem access_updates_not_lost:
  assumes "(locked_step settings_ops)\<^sup>*\<^sup>* s t" "all_closed s"
  shows "chained (sh_file s) (sh_log t) (sh_file t)
    \<and> (\<forall>(old, new) \<in> set (sh_log t). settings_file_revision new = settings_file_revision old + 1)
    \<and> (\<forall>i j. is_holder (phase_of i t) \<and> is_holder (phase_of j t) \<longrightarrow> i = j)"
  using access.no_lost_update [OF assms] .

definition closed_settings :: "(settings, settings_request, settings, settings_file) shared" where
  "closed_settings = \<lparr>sh_file = NoFile, sh_lock = False,
     sh_store = (\<lambda>i. \<lparr>st_value = DEFAULTS, st_queue = [], st_phase = Closed\<rparr>), sh_log = []\<rparr>"

theorem access_updates_not_lost_witness:
  "\<exists>t. (locked_step settings_ops)\<^sup>*\<^sup>* closed_settings t \<and> phase_of 0 t = Idle
    \<and> chained (sh_file closed_settings) (sh_log t) (sh_file t)"
proof -
  have "locked_step settings_ops closed_settings
      (put_store 0 \<lparr>st_value = DEFAULTS, st_queue = [], st_phase = Idle\<rparr> closed_settings)" (is "locked_step _ _ ?t")
    by (intro opened) (simp_all add: closed_settings_def phase_of_def settings_ops_def read_settings_def)
  then have r: "(locked_step settings_ops)\<^sup>*\<^sup>* closed_settings ?t" by simp
  moreover have "all_closed closed_settings" by (simp add: all_closed_def closed_settings_def phase_of_def)
  ultimately show ?thesis
    using access_updates_not_lost [of closed_settings ?t] by (intro exI [of _ ?t]) (simp add: phase_of_def)
qed

lemma boundedD: "bounded v lo hi \<Longrightarrow> \<exists>n. v = Some (JInt n) \<and> lo \<le> n \<and> n \<le> hi"
  by (auto simp: bounded_def split: option.splits json.splits)

lemma is_one_ofD: "is_one_of choices v \<Longrightarrow> \<exists>t \<in> set choices. v = Some (JStr t)"
  by (auto simp: is_one_of_def split: option.splits json.splits)

text \<open>
  C21: remote access is never on with short codes admitted: whatever a file or a change holds, settings
  that validate have remote access off, or approved devices only and at least one public name. Every limit is a
  whole number in its range, the per-source one within the other; the choices are known ones; ports are ports; the
  public names are at most eight, in normal form and different; the name shown has 1 to 80 characters and no control
  character; and there is no other field.
\<close>

theorem valid_settings_guarded:
  assumes "validate_settings given = Inr s"
  shows "(jget s ''remoteAccess'' = Some (JBool False)
      \<or> jget s ''remoteAccess'' = Some (JBool True) \<and> jget s ''connectionMode'' = Some (JStr ''approved-only'')
        \<and> (\<exists>h hs. jget s ''publicHostnames'' = Some (JArr (h # hs))))
    \<and> (\<exists>rev most. jget s ''revision'' = Some (JInt rev) \<and> 0 \<le> rev \<and> rev < MAX_SAFE_INTEGER
        \<and> jget s ''maxSessions'' = Some (JInt most) \<and> 1 \<le> most \<and> most \<le> 8)
    \<and> (\<exists>ttl all each password. jget s ''shortCodeTtlSeconds'' = Some (JInt ttl) \<and> 60 \<le> ttl \<and> ttl \<le> 600
        \<and> jget s ''shortCodeMaxFailures'' = Some (JInt all) \<and> jget s ''shortCodePerSourceMaxFailures'' = Some (JInt each)
        \<and> 1 \<le> each \<and> each \<le> 5 \<and> each \<le> all \<and> all \<le> 20
        \<and> jget s ''sessionPasswordMaxFailures'' = Some (JInt password) \<and> 1 \<le> password \<and> password \<le> 20)
    \<and> (\<exists>c \<in> {''approval'', ''available''}. jget s ''defaultControl'' = Some (JStr c))
    \<and> (\<exists>m \<in> {''session-key'', ''one-time-keys'', ''approved-only''}. jget s ''connectionMode'' = Some (JStr m))
    \<and> (\<exists>a \<in> {''letters-digits'', ''letters''}. jget s ''defaultCodeAlphabet'' = Some (JStr a))
    \<and> (jget s ''mediaPort'' = Some JNull \<or> (\<exists>n. jget s ''mediaPort'' = Some (JInt n) \<and> 1024 \<le> n \<and> n \<le> 65535))
    \<and> (jget s ''publicPort'' = Some JNull \<or> (\<exists>n. jget s ''publicPort'' = Some (JInt n) \<and> 1 \<le> n \<and> n \<le> 65535))
    \<and> (\<exists>names. jget s ''publicHostnames'' = Some (JArr names) \<and> length names \<le> 8 \<and> distinct names
        \<and> (\<forall>x \<in> set names. \<exists>t. normalizePublicHostname x = Some t \<and> x = JStr t))
    \<and> (\<exists>n. jget s ''publicName'' = Some (JStr n) \<and> n \<noteq> [] \<and> length n \<le> 80 \<and> list_all (\<lambda>c. \<not> name_control c) n)
    \<and> map fst s = map fst DEFAULTS"
proof (rule validate_settings_Inr [OF assms])
  fix val
  let ?n = "merged DEFAULTS (jspread val)"
  assume v: "s = jset ''publicName'' (JStr (js_trim (str_of (jget ?n ''publicName'')))) ?n"
    "first_error (name_checks ?n) = None" "settings_ok val s"
  have guard: "\<not> (jget s ''remoteAccess'' = Some (JBool True) \<and> jget s ''connectionMode'' \<noteq> Some (JStr ''approved-only''))"
    using v(2) by (simp add: v(1) name_checks_def split: if_splits)
  have name: "\<exists>n. jget s ''publicName'' = Some (JStr n) \<and> n \<noteq> [] \<and> length n \<le> 80 \<and> list_all (\<lambda>c. \<not> name_control c) n"
    using v(2) by (simp add: v(1) name_checks_def split: if_splits)
  have b: "is_bool (jget s ''remoteAccess'')" "safe_int 1 8 (jget s ''maxSessions'')" "bounded (jget s ''shortCodeTtlSeconds'') 60 600"
    "bounded (jget s ''shortCodeMaxFailures'') 1 20" "bounded (jget s ''shortCodePerSourceMaxFailures'') 1 5"
    "int_of (jget s ''shortCodePerSourceMaxFailures'') \<le> int_of (jget s ''shortCodeMaxFailures'')"
    "validPublicHostnames (jget s ''publicHostnames'')"
    "jget s ''remoteAccess'' = Some (JBool True) \<longrightarrow> jget s ''publicHostnames'' \<noteq> Some (JArr [])"
    "bounded (jget s ''sessionPasswordMaxFailures'') 1 20" "safe_int 0 (MAX_SAFE_INTEGER - 1) (jget s ''revision'')"
    "is_one_of [''approval'', ''available''] (jget s ''defaultControl'')"
    "is_one_of [''session-key'', ''one-time-keys'', ''approved-only''] (jget s ''connectionMode'')"
    "is_one_of [''letters-digits'', ''letters''] (jget s ''defaultCodeAlphabet'')"
    "validMediaPort (jget s ''mediaPort'')" "jget s ''publicPort'' = Some JNull \<or> bounded (jget s ''publicPort'') 1 65535"
    using v(3) unfolding settings_ok_def MAX_SESSIONS_LIMIT_def by blast+
  have names: "jget s ''remoteAccess'' = Some (JBool True) \<longrightarrow> (\<exists>h hs. jget s ''publicHostnames'' = Some (JArr (h # hs)))"
    using b(7,8) by (auto simp: validPublicHostnames_def neq_Nil_conv split: option.splits json.splits)
  have hosts: "\<exists>names. jget s ''publicHostnames'' = Some (JArr names) \<and> length names \<le> 8 \<and> distinct names
      \<and> (\<forall>x \<in> set names. \<exists>t. normalizePublicHostname x = Some t \<and> x = JStr t)"
    using b(7) by (fastforce simp: validPublicHostnames_def MAX_PUBLIC_HOSTNAMES_def list_all_iff split: option.splits json.splits)
  have remote: "jget s ''remoteAccess'' = Some (JBool False)
      \<or> jget s ''remoteAccess'' = Some (JBool True) \<and> jget s ''connectionMode'' = Some (JStr ''approved-only'')
        \<and> (\<exists>h hs. jget s ''publicHostnames'' = Some (JArr (h # hs)))"
  proof (cases "jget s ''remoteAccess'' = Some (JBool True)")
    case True
    then show ?thesis using guard names by blast
  next
    case False
    then show ?thesis using b(1) by (auto simp: is_bool_def split: option.splits json.splits)
  qed
  obtain ttl all each password where n: "jget s ''shortCodeTtlSeconds'' = Some (JInt ttl)" "60 \<le> ttl" "ttl \<le> 600"
    "jget s ''shortCodeMaxFailures'' = Some (JInt all)" "all \<le> 20" "jget s ''shortCodePerSourceMaxFailures'' = Some (JInt each)"
    "1 \<le> each" "each \<le> 5" "jget s ''sessionPasswordMaxFailures'' = Some (JInt password)" "1 \<le> password" "password \<le> 20"
    using boundedD [OF b(3)] boundedD [OF b(4)] boundedD [OF b(5)] boundedD [OF b(9)] by blast
  have "each \<le> all" using b(6) by (simp add: n int_of_def)
  with n have limits: "\<exists>ttl all each password. jget s ''shortCodeTtlSeconds'' = Some (JInt ttl) \<and> 60 \<le> ttl \<and> ttl \<le> 600
        \<and> jget s ''shortCodeMaxFailures'' = Some (JInt all) \<and> jget s ''shortCodePerSourceMaxFailures'' = Some (JInt each)
        \<and> 1 \<le> each \<and> each \<le> 5 \<and> each \<le> all \<and> all \<le> 20
        \<and> jget s ''sessionPasswordMaxFailures'' = Some (JInt password) \<and> 1 \<le> password \<and> password \<le> 20" by blast
  have counts: "\<exists>rev most. jget s ''revision'' = Some (JInt rev) \<and> 0 \<le> rev \<and> rev < MAX_SAFE_INTEGER
        \<and> jget s ''maxSessions'' = Some (JInt most) \<and> 1 \<le> most \<and> most \<le> 8"
    using safe_intD [OF b(2)] safe_intD [OF b(10)]
    by (intro exI [of _ "int_of (jget s ''revision'')"] exI [of _ "int_of (jget s ''maxSessions'')"]) simp
  have media: "jget s ''mediaPort'' = Some JNull \<or> (\<exists>n. jget s ''mediaPort'' = Some (JInt n) \<and> 1024 \<le> n \<and> n \<le> 65535)"
    using b(14) boundedD [of "jget s ''mediaPort''"] unfolding validMediaPort_def lowest_media_port_def by blast
  have port: "jget s ''publicPort'' = Some JNull \<or> (\<exists>n. jget s ''publicPort'' = Some (JInt n) \<and> 1 \<le> n \<and> n \<le> 65535)"
    using b(15) boundedD [of "jget s ''publicPort''"] by blast
  have choices: "\<exists>c \<in> {''approval'', ''available''}. jget s ''defaultControl'' = Some (JStr c)"
    "\<exists>m \<in> {''session-key'', ''one-time-keys'', ''approved-only''}. jget s ''connectionMode'' = Some (JStr m)"
    "\<exists>a \<in> {''letters-digits'', ''letters''}. jget s ''defaultCodeAlphabet'' = Some (JStr a)"
    using is_one_ofD [OF b(11)] is_one_ofD [OF b(12)] is_one_ofD [OF b(13)] by (simp_all only: list.set)
  show ?thesis
    by (intro conjI) (fact remote counts limits choices media port hosts name settings_keys [OF assms])+
qed

theorem valid_settings_guarded_witness:
  "\<exists>s. validate_settings (JObj [(''remoteAccess'', JBool True), (''connectionMode'', JStr ''approved-only''),
      (''publicHostnames'', JArr [JStr ''home.example.net''])]) = Inr s
     \<and> (\<exists>n. jget s ''publicName'' = Some (JStr n) \<and> n \<noteq> [] \<and> length n \<le> 80)"
proof -
  let ?g = "JObj [(''remoteAccess'', JBool True), (''connectionMode'', JStr ''approved-only''),
      (''publicHostnames'', JArr [JStr ''home.example.net''])]"
  have "is_ok (validate_settings ?g)" by code_simp
  then obtain s where s: "validate_settings ?g = Inr s" by (auto simp: is_ok_def split: sum.splits)
  from valid_settings_guarded [OF s] s show ?thesis by blast
qed

text \<open>
  What the validation returns it accepts again unchanged, so settings that were saved load as they
  were: the defaults, the trimmed name and the migrated media port are settled by one pass.
\<close>

theorem settings_settled:
  assumes "validate_settings given = Inr s"
  shows "validate_settings (JObj s) = Inr s"
  using validate_settled [OF assms] .

theorem settings_settled_witness:
  "\<exists>s. validate_settings (JObj [(''mediaPorts'', JObj [(''min'', JInt 5000), (''max'', JInt 5099)]), (''publicName'', JStr '' Attic '')]) = Inr s
    \<and> validate_settings (JObj s) = Inr s"
proof -
  let ?g = "JObj [(''mediaPorts'', JObj [(''min'', JInt 5000), (''max'', JInt 5099)]), (''publicName'', JStr '' Attic '')]"
  have "is_ok (validate_settings ?g)" by code_simp
  then obtain s where s: "validate_settings ?g = Inr s" by (auto simp: is_ok_def split: sum.splits)
  from settings_settled [OF s] s show ?thesis by blast
qed

end
