(* ===== verification/LocalScope.thy ===== *)
theory LocalScope
  imports AccessSettings
begin

text \<open>
  \<^verbatim>\<open>apps/server/src/local-session-scope.mjs\<close>: which adapters may carry the standing password, the subnets
  they are on, and whether a peer is on one of them. Adapter rows come from the host's detection and are
  arguments. \<^verbatim>\<open>isIP\<close> accepts an IPv6 address with a zone, which \<^verbatim>\<open>BigInt\<close> then refuses: that throw is a
  value here.
\<close>

section \<open>Networks\<close>

definition PRIVATE_RANGES :: "(string \<times> int) list" where
  "PRIVATE_RANGES = [(''10.0.0.0'', 8), (''172.16.0.0'', 12), (''192.168.0.0'', 16), (''fc00::'', 7)]"

text \<open>\<^verbatim>\<open>BigInt(`0x${word}`)\<close>.\<close>

definition hex_text :: "string \<Rightarrow> bool" where
  "hex_text s \<longleftrightarrow> s \<noteq> [] \<and> list_all is_hex s"

definition ipBits :: "string \<Rightarrow> bits option result" where
  "ipBits address =
     (if isIP address = 4
      then Inr (Some \<lparr>b_family = 4, b_width = 32,
             b_value = foldl (\<lambda>n octet. n * 256 + number_in 10 octet) 0 (split_on (CHR ''.'') address)\<rparr>)
      else if isIP address \<noteq> 6 \<or> CHR ''.'' \<in> set address then Inr None
      else (let halves = split_dc (js_lower address);
                left = words_of (hd halves); right = (case tl halves of [] \<Rightarrow> [] | r # _ \<Rightarrow> words_of r)
            in if 2 < length halves then Inr None
               else if length halves = 2 \<and> 8 < length left + length right then Inl ''Invalid array length''
               else (let words = (if length halves = 2
                         then left @ replicate (8 - length left - length right) ''0'' @ right else left)
                     in if length words \<noteq> 8 then Inr None
                        else if \<not> list_all hex_text words then Inl ''Cannot convert to a BigInt''
                        else Inr (Some \<lparr>b_family = 6, b_width = 128,
                               b_value = foldl (\<lambda>n word. n * 65536 + number_in 16 word) 0 words\<rparr>))))"

record network =
  nw_family :: nat
  nw_bits :: nat
  nw_prefix :: int
  nw_base :: int

definition make_network :: "bits \<Rightarrow> int \<Rightarrow> network" where
  "make_network b prefixLength =
     (let shift = b_width b - nat prefixLength
      in \<lparr>nw_family = b_family b, nw_bits = b_width b, nw_prefix = prefixLength,
          nw_base = b_value b div 2 ^ shift * 2 ^ shift\<rparr>)"

definition network_of :: "string \<Rightarrow> jsvalue \<Rightarrow> network option result" where
  "network_of address prefixLength =
     (case ipBits address of
        Inl e \<Rightarrow> Inl e
      | Inr None \<Rightarrow> Inr None
      | Inr (Some b) \<Rightarrow>
          (case prefixLength of
             Whole p \<Rightarrow> if p < 0 \<or> int (b_width b) < p then Inr None else Inr (Some (make_network b p))
           | NotWhole \<Rightarrow> Inr None))"

definition nw_contains :: "network \<Rightarrow> network \<Rightarrow> bool" where
  "nw_contains outer inner \<longleftrightarrow>
     nw_family outer = nw_family inner \<and> nw_prefix outer \<le> nw_prefix inner
     \<and> nw_base inner div 2 ^ (nw_bits outer - nat (nw_prefix outer)) = nw_base outer div 2 ^ (nw_bits outer - nat (nw_prefix outer))"

definition privateNetworks :: "network list" where
  "privateNetworks = concat (map (\<lambda>(address, p). case network_of address (Whole p) of Inr (Some n) \<Rightarrow> [n] | _ \<Rightarrow> []) PRIVATE_RANGES)"

section \<open>Adapters\<close>

record lan_adapter =
  la_address :: string
  la_prefixLength :: jsvalue
  la_physical :: bool
  la_up :: bool
  la_kind :: string
  la_profile :: "string option"
  la_interfaceIndex :: int
  la_interface :: "string option"
  la_router :: "string option"

definition eligibleAdapter :: "lan_adapter \<Rightarrow> bool result" where
  "eligibleAdapter a =
     (if \<not> la_physical a \<or> \<not> la_up a \<or> la_kind a \<notin> {''ethernet'', ''wifi''} then Inr False
      else (case network_of (la_address a) (la_prefixLength a) of
              Inl e \<Rightarrow> Inl e
            | Inr None \<Rightarrow> Inr False
            | Inr (Some candidate) \<Rightarrow> Inr (\<exists>range \<in> set privateNetworks. nw_contains range candidate)))"

text \<open>Digits of a number that is not negative in a base up to 16, without leading zeros.\<close>

fun digits_in :: "nat \<Rightarrow> nat \<Rightarrow> nat \<Rightarrow> string" where
  "digits_in 0 base n = []"
| "digits_in (Suc fuel) base n =
     (if n < base then [hex_digit n] else digits_in fuel base (n div base) @ [hex_digit (n mod base)])"

definition hex_word_text :: "int \<Rightarrow> string" where
  "hex_word_text w = digits_in 4 16 (nat w)"

text \<open>The length of the run of zero words from a position, and the first of the longest runs of two or more.\<close>

definition zero_run :: "int list \<Rightarrow> nat \<Rightarrow> nat" where
  "zero_run words start = length (takeWhile (\<lambda>w. w = 0) (drop start words))"

definition best_run :: "int list \<Rightarrow> (nat \<times> nat) option" where
  "best_run words =
     fold (\<lambda>start best. if (case best of Some (_, l) \<Rightarrow> l | None \<Rightarrow> 1) < zero_run words start
            then Some (start, zero_run words start) else best) [0..<8] None"

definition formatAddress :: "network \<Rightarrow> string" where
  "formatAddress n =
     (if nw_family n = 4
      then join_with ''.'' (map (\<lambda>shift. dec (nw_base n div 2 ^ shift mod 256)) [24, 16, 8, 0])
      else (let words = map (\<lambda>i. nw_base n div 2 ^ (112 - i * 16) mod 65536) [0..<8]; text = map hex_word_text words
            in (case best_run words of
                  None \<Rightarrow> join_with '':'' text
                | Some (start, len) \<Rightarrow> join_with '':'' (take start text) @ ''::'' @ join_with '':'' (drop (start + len) text))))"

definition subnetOf :: "string \<Rightarrow> jsvalue \<Rightarrow> string option result" where
  "subnetOf address prefixLength =
     (case network_of address prefixLength of
        Inl e \<Rightarrow> Inl e
      | Inr None \<Rightarrow> Inr None
      | Inr (Some n) \<Rightarrow> Inr (Some (formatAddress n @ ''/'' @ dec (whole_value prefixLength))))"

text \<open>The Private adapters that are eligible, with their networks.\<close>

type_synonym profiles = "(int, string) jmap option"

definition profile_of :: "profiles \<Rightarrow> lan_adapter \<Rightarrow> string option" where
  "profile_of profiles a =
     (case la_profile a of Some p \<Rightarrow> Some p
      | None \<Rightarrow> (case profiles of Some m \<Rightarrow> jget m (la_interfaceIndex a) | None \<Rightarrow> None))"

fun eligibleAdapters :: "profiles \<Rightarrow> lan_adapter list \<Rightarrow> (string \<times> network) list result" where
  "eligibleAdapters profiles [] = Inr []"
| "eligibleAdapters profiles (a # rows) =
     (case (if profile_of profiles a \<noteq> Some ''Private'' then Inr False else eligibleAdapter a) of
        Inl e \<Rightarrow> Inl e
      | Inr False \<Rightarrow> eligibleAdapters profiles rows
      | Inr True \<Rightarrow>
          (case (network_of (la_address a) (la_prefixLength a), eligibleAdapters profiles rows) of
             (Inr (Some n), Inr rest) \<Rightarrow> Inr ((la_address a, n) # rest)
           | (Inl e, _) \<Rightarrow> Inl e
           | (_, Inl e) \<Rightarrow> Inl e
           | (_, Inr rest) \<Rightarrow> Inr rest))"

section \<open>The scope\<close>

text \<open>One entry of the owner's list; \<open>None\<close> for a text that is not an address and a prefix.\<close>

definition cidr_network :: "json \<Rightarrow> network option result" where
  "cidr_network v =
     (case v of
        JStr s \<Rightarrow>
          (let digits = rev (takeWhile is_digit (rev s)); rest = dropWhile is_digit (rev s)
           in if digits \<noteq> [] \<and> length digits \<le> 3 \<and> 2 \<le> length rest \<and> hd rest = CHR ''/''
              then network_of (rev (tl rest)) (Whole (number_in 10 digits)) else Inr None)
      | _ \<Rightarrow> Inr None)"

datatype requested = Detected | Invalid | Only "network list"

fun cidr_networks :: "json list \<Rightarrow> requested result" where
  "cidr_networks [] = Inr (Only [])"
| "cidr_networks (v # vs) =
     (case cidr_network v of
        Inl e \<Rightarrow> Inl e
      | Inr n \<Rightarrow>
          (case cidr_networks vs of
             Inl e \<Rightarrow> Inl e
           | Inr (Only ns) \<Rightarrow> Inr (case n of Some x \<Rightarrow> Only (x # ns) | None \<Rightarrow> Invalid)
           | Inr other \<Rightarrow> Inr Invalid))"

definition parseOverride :: "json \<Rightarrow> requested result" where
  "parseOverride v =
     (case v of
        JStr s \<Rightarrow> if s = ''auto'' then Inr Detected else Inr Invalid
      | JArr xs \<Rightarrow> if xs = [] then Inr Invalid else cidr_networks xs
      | _ \<Rightarrow> Inr Invalid)"

definition normalizedPeer :: "string option \<Rightarrow> string option" where
  "normalizedPeer address =
     map_option (\<lambda>s. let quad = drop 7 s; parts = split_on (CHR ''.'') quad
       in if prefix_ci ''::ffff:'' s \<and> length parts = 4 \<and> list_all (\<lambda>p. p \<noteq> [] \<and> list_all is_digit p) parts
          then quad else s) address"

text \<open>\<^verbatim>\<open>[...new Set(xs)]\<close>: the first of equal values stays.\<close>

definition remdups_first :: "'a list \<Rightarrow> 'a list" where
  "remdups_first xs = rev (remdups (rev xs))"

record scope =
  sc_override :: json
  sc_allowed :: "network list"
  sc_bindAddresses :: "string list"
  sc_reason :: "string option"

text \<open>
  \<^verbatim>\<open>update\<close>: the rows, or the error of the detection. A throw in the middle leaves what was set before it:
  the override, and the addresses once the rows have been read.
\<close>

definition fail_scope :: "string \<Rightarrow> scope \<Rightarrow> scope" where
  "fail_scope e s = s\<lparr>sc_allowed := [], sc_bindAddresses := [],
     sc_reason := Some (''LAN detection failed; standing password is loopback-only: '' @ e)\<rparr>"

definition all_on_link :: "network list \<Rightarrow> network list \<Rightarrow> bool" where
  "all_on_link detected entries \<longleftrightarrow> (\<forall>entry \<in> set entries. \<exists>link \<in> set detected. nw_contains link entry)"

definition settle_scope :: "network list \<Rightarrow> requested \<Rightarrow> scope \<Rightarrow> scope" where
  "settle_scope detected req s =
     (if req = Invalid \<or> (case req of Only ns \<Rightarrow> \<not> all_on_link detected ns | _ \<Rightarrow> False)
      then s\<lparr>sc_allowed := [], sc_reason := Some ''LAN override is invalid or off-link; standing password is loopback-only.''\<rparr>
      else (let allowed = (case req of Only ns \<Rightarrow> ns | _ \<Rightarrow> detected)
            in s\<lparr>sc_allowed := allowed,
                 sc_reason := (if allowed \<noteq> [] then None
                   else Some ''No eligible Private physical LAN; standing password is loopback-only.'')\<rparr>))"

definition update_scope ::
  "profiles \<Rightarrow> json \<Rightarrow> (string + lan_adapter list) \<Rightarrow> scope \<Rightarrow> string option \<times> scope" where
  "update_scope profiles override detected s =
     (let s = s\<lparr>sc_override := override\<rparr>
      in case detected of
           Inl e \<Rightarrow> (None, fail_scope e s)
         | Inr rows \<Rightarrow>
             (case eligibleAdapters profiles rows of
                Inl e \<Rightarrow> (Some e, s)
              | Inr eligible \<Rightarrow>
                  (let s = s\<lparr>sc_bindAddresses := remdups_first (map fst eligible)\<rparr>
                   in case parseOverride override of
                        Inl e \<Rightarrow> (Some e, s)
                      | Inr req \<Rightarrow> (None, settle_scope (map snd eligible) req s))))"

definition scope_allows :: "scope \<Rightarrow> string option \<Rightarrow> string \<Rightarrow> bool result" where
  "scope_allows s peerAddress listenerScope =
     (if listenerScope = ''public'' then Inr False
      else if listenerScope \<noteq> ''local'' then Inl ''Invalid listener scope''
      else (case normalizedPeer peerAddress of
              None \<Rightarrow> Inr False
            | Some peer \<Rightarrow>
                if peer = ''127.0.0.1'' \<or> peer = ''::1'' then Inr True
                else if peer = [] then Inr False
                else (case ipBits peer of
                        Inl e \<Rightarrow> Inl e
                      | Inr None \<Rightarrow> Inr False
                      | Inr (Some b) \<Rightarrow>
                          Inr (\<exists>link \<in> set (sc_allowed s).
                            nw_contains link \<lparr>nw_family = b_family b, nw_bits = b_width b, nw_prefix = int (b_width b), nw_base = b_value b\<rparr>))))"

text \<open>\<^verbatim>\<open>createLocalSessionScope\<close> and the controller's refresh: what it logs, and the scope after it.\<close>

definition createLocalSessionScope :: "profiles \<Rightarrow> lan_adapter list \<Rightarrow> json \<Rightarrow> scope result" where
  "createLocalSessionScope profiles rows override =
     (case update_scope profiles override (Inr rows)
             \<lparr>sc_override = override, sc_allowed = [], sc_bindAddresses = [], sc_reason = None\<rparr> of
        (Some e, _) \<Rightarrow> Inl e | (None, s) \<Rightarrow> Inr s)"

definition refresh_log :: "string option \<Rightarrow> string option \<Rightarrow> string list" where
  "refresh_log previous reason =
     (if reason = previous then []
      else [case reason of Some r \<Rightarrow> ''Warning: '' @ r
            | None \<Rightarrow> ''Private physical LAN detected for local standing passwords.''])"

definition refresh_scope :: "json \<Rightarrow> (string + lan_adapter list) \<Rightarrow> scope \<Rightarrow> string list \<times> scope" where
  "refresh_scope override detected s =
     (let next = (case detected of
            Inl e \<Rightarrow> snd (update_scope None override (Inl e) s)
          | Inr rows \<Rightarrow>
              (case update_scope None override (Inr rows) s of
                 (None, s') \<Rightarrow> s'
               | (Some e, s') \<Rightarrow> snd (update_scope None override (Inl e) s')))
      in (refresh_log (sc_reason s) (sc_reason next), next))"

section \<open>Lemmas\<close>

definition host_network :: "bits \<Rightarrow> network" where
  "host_network b = \<lparr>nw_family = b_family b, nw_bits = b_width b, nw_prefix = int (b_width b), nw_base = b_value b\<rparr>"

definition nw_ok :: "network \<Rightarrow> bool" where
  "nw_ok n \<longleftrightarrow> nw_bits n = (if nw_family n = 4 then 32 else 128) \<and> 0 \<le> nw_prefix n \<and> nw_prefix n \<le> int (nw_bits n)"

lemma ipBits_width: "ipBits address = Inr (Some b) \<Longrightarrow> b_width b = (if b_family b = 4 then 32 else 128)"
  by (auto simp: ipBits_def Let_def split: if_splits)

lemma network_of_ok: "network_of address p = Inr (Some n) \<Longrightarrow> nw_ok n"
  by (auto simp: network_of_def make_network_def Let_def nw_ok_def dest!: ipBits_width split: sum.splits option.splits jsvalue.splits if_splits)

lemma host_network_ok: "ipBits address = Inr (Some b) \<Longrightarrow> nw_ok (host_network b)"
  by (auto simp: nw_ok_def host_network_def dest: ipBits_width)

text \<open>Containment is transitive: the shorter prefix of the two cuts at the same place.\<close>

lemma div_power_split:
  assumes "0 \<le> p" "p \<le> q" "q \<le> int bits"
  shows "(x :: int) div 2 ^ (bits - nat p) = x div 2 ^ (bits - nat q) div 2 ^ (nat q - nat p)"
proof -
  have "(bits - nat q) + (nat q - nat p) = bits - nat p" using assms by linarith
  then show ?thesis by (metis power_add zdiv_zmult2_eq zero_le_numeral zero_le_power)
qed

lemma nw_contains_trans:
  assumes "nw_contains a b" "nw_contains b c" "nw_ok a" "nw_ok b" "nw_ok c"
  shows "nw_contains a c"
proof -
  have bits: "nw_bits a = nw_bits b" using assms by (auto simp: nw_contains_def nw_ok_def)
  have order: "0 \<le> nw_prefix a" "nw_prefix a \<le> nw_prefix b" "nw_prefix b \<le> int (nw_bits b)" "nw_prefix b \<le> nw_prefix c"
    using assms by (auto simp: nw_contains_def nw_ok_def)
  have "nw_base c div 2 ^ (nw_bits b - nat (nw_prefix a)) = nw_base b div 2 ^ (nw_bits b - nat (nw_prefix a))"
    using assms(2) unfolding div_power_split [OF order(1-3)] nw_contains_def by simp
  with assms(1,2) bits order show ?thesis by (auto simp: nw_contains_def)
qed

lemma private_ok: "n \<in> set privateNetworks \<Longrightarrow> nw_ok n"
  by (auto simp: privateNetworks_def network_of_ok split: sum.splits option.splits)

lemma eligible_in_range:
  assumes "eligibleAdapter a = Inr True"
  shows "\<exists>n. network_of (la_address a) (la_prefixLength a) = Inr (Some n) \<and> (\<exists>range \<in> set privateNetworks. nw_contains range n)"
  using assms by (auto simp: eligibleAdapter_def split: if_splits sum.splits option.splits)

lemma eligibleAdapters_sound:
  assumes "eligibleAdapters profiles rows = Inr es" "(address, n) \<in> set es"
  shows "\<exists>a \<in> set rows. profile_of profiles a = Some ''Private'' \<and> eligibleAdapter a = Inr True
    \<and> network_of (la_address a) (la_prefixLength a) = Inr (Some n)"
  using assms
proof (induction rows arbitrary: es)
  case Nil
  then show ?case by simp
next
  case (Cons a rows)
  show ?case
  proof (cases "profile_of profiles a = Some ''Private'' \<and> eligibleAdapter a = Inr True")
    case True
    then obtain m where m: "network_of (la_address a) (la_prefixLength a) = Inr (Some m)" using eligible_in_range by blast
    with True Cons.prems(1) obtain rest where r: "eligibleAdapters profiles rows = Inr rest" "es = (la_address a, m) # rest"
      by (auto split: sum.splits)
    from Cons.prems(2) r(2) consider "n = m" | "(address, n) \<in> set rest" by auto
    then show ?thesis
    proof cases
      case 1
      with True m show ?thesis by auto
    next
      case 2
      with Cons.IH [OF r(1)] show ?thesis by auto
    qed
  next
    case False
    then have "eligibleAdapters profiles rows = Inr es"
      using Cons.prems(1) by (cases "eligibleAdapter a") (auto split: if_splits bool.splits)
    from Cons.IH [OF this Cons.prems(2)] show ?thesis by auto
  qed
qed

text \<open>Every network that carries the standing password is on one of the detected links.\<close>

lemma cidr_networks_ok: "cidr_networks vs = Inr (Only ns) \<Longrightarrow> n \<in> set ns \<Longrightarrow> nw_ok n"
proof (induction vs arbitrary: ns rule: cidr_networks.induct)
  case (2 v vs)
  have "nw_ok x" if "cidr_network v = Inr (Some x)" for x
    using that by (auto simp: cidr_network_def Let_def network_of_ok split: json.splits if_splits)
  with 2 show ?case by (fastforce split: sum.splits requested.splits option.splits)
qed auto

lemma parseOverride_ok: "parseOverride v = Inr (Only ns) \<Longrightarrow> n \<in> set ns \<Longrightarrow> nw_ok n"
  by (auto simp: parseOverride_def cidr_networks_ok split: json.splits if_splits)

lemma updated_scope:
  assumes "update_scope profiles override detected s0 = (None, s)"
  shows "sc_allowed s = [] \<or> (\<exists>rows eligible. detected = Inr rows \<and> eligibleAdapters profiles rows = Inr eligible
    \<and> (\<forall>n \<in> set (sc_allowed s). nw_ok n \<and> (\<exists>link \<in> set (map snd eligible). n = link \<or> nw_contains link n)))"
proof (cases detected)
  case (Inl e)
  with assms show ?thesis by (auto simp: update_scope_def Let_def fail_scope_def)
next
  case (Inr rows)
  then obtain eligible req where e: "eligibleAdapters profiles rows = Inr eligible" "parseOverride override = Inr req"
    and s: "s = settle_scope (map snd eligible) req
      (s0\<lparr>sc_override := override, sc_bindAddresses := remdups_first (map fst eligible)\<rparr>)"
    using assms by (auto simp: update_scope_def Let_def split: sum.splits)
  have links: "nw_ok n" if "n \<in> set (map snd eligible)" for n
    using that eligibleAdapters_sound [OF e(1)] network_of_ok by fastforce
  show ?thesis
  proof (cases req)
    case (Only ns)
    with s e(2) parseOverride_ok Inr e(1) show ?thesis
      by (auto simp: settle_scope_def all_on_link_def)
  next
    case Detected
    with s Inr e(1) links show ?thesis by (auto simp: settle_scope_def)
  next
    case Invalid
    with s show ?thesis by (simp add: settle_scope_def)
  qed
qed

section \<open>Properties\<close>

definition is_loopback :: "string option \<Rightarrow> bool" where
  "is_loopback peer \<longleftrightarrow> normalizedPeer peer = Some ''127.0.0.1'' \<or> normalizedPeer peer = Some ''::1''"

text \<open>
  C15: the standing password reaches only this PC and its Private physical networks. Whatever the owner's
  list of networks and whatever was detected, a peer the scope allows is a loopback address, or an address
  on the network of a detected Ethernet or Wi-Fi adapter that is up, whose profile is Private and whose
  network is within a private range; then the peer is in that private range. After a failed detection
  only loopback is left.
\<close>

theorem scope_allows_private_lan:
  assumes "update_scope profiles override detected s0 = (None, s)" "scope_allows s peer listener = Inr True"
  shows "listener = ''local'' \<and> (is_loopback peer \<or>
    (\<exists>rows a n p b range. detected = Inr rows \<and> a \<in> set rows \<and> profile_of profiles a = Some ''Private''
      \<and> la_physical a \<and> la_up a \<and> la_kind a \<in> {''ethernet'', ''wifi''}
      \<and> network_of (la_address a) (la_prefixLength a) = Inr (Some n)
      \<and> normalizedPeer peer = Some p \<and> ipBits p = Inr (Some b)
      \<and> nw_contains n (host_network b) \<and> range \<in> set privateNetworks \<and> nw_contains range (host_network b)))"
proof -
  have l: "listener = ''local''" using assms(2) by (auto simp: scope_allows_def split: if_splits)
  show ?thesis
  proof (cases "is_loopback peer")
    case True
    with l show ?thesis by simp
  next
    case False
    then obtain p b link where p: "normalizedPeer peer = Some p" "ipBits p = Inr (Some b)"
      "link \<in> set (sc_allowed s)" "nw_contains link (host_network b)"
      using assms(2) unfolding scope_allows_def is_loopback_def
      by (auto simp: host_network_def split: if_splits option.splits sum.splits)
    then have "sc_allowed s \<noteq> []" by auto
    with updated_scope [OF assms(1)] obtain rows eligible where d: "detected = Inr rows"
      "eligibleAdapters profiles rows = Inr eligible"
      "\<forall>n \<in> set (sc_allowed s). nw_ok n \<and> (\<exists>link \<in> set (map snd eligible). n = link \<or> nw_contains link n)"
      by blast
    then obtain n where n: "nw_ok link" "n \<in> set (map snd eligible)" "link = n \<or> nw_contains n link" using p(3) by blast
    then obtain address where "(address, n) \<in> set eligible" by auto
    from eligibleAdapters_sound [OF d(2) this] obtain a where a: "a \<in> set rows" "profile_of profiles a = Some ''Private''"
      "eligibleAdapter a = Inr True" "network_of (la_address a) (la_prefixLength a) = Inr (Some n)" by blast
    then obtain range where r: "range \<in> set privateNetworks" "nw_contains range n" using eligible_in_range [OF a(3)] by auto
    have host: "nw_ok (host_network b)" using host_network_ok [OF p(2)] .
    have inn: "nw_contains n (host_network b)"
      using n(3) p(4) nw_contains_trans [OF _ p(4) network_of_ok [OF a(4)] n(1) host] by blast
    have "nw_contains range (host_network b)"
      using nw_contains_trans [OF r(2) inn private_ok [OF r(1)] network_of_ok [OF a(4)] host] .
    moreover have "la_physical a \<and> la_up a \<and> la_kind a \<in> {''ethernet'', ''wifi''}"
      using a(3) by (simp add: eligibleAdapter_def split: if_splits)
    ultimately show ?thesis using l d(1) a p(1,2) r(1) inn by blast
  qed
qed

definition sample_adapter :: lan_adapter where
  "sample_adapter = \<lparr>la_address = ''192.168.1.10'', la_prefixLength = Whole 24, la_physical = True, la_up = True,
     la_kind = ''wifi'', la_profile = Some ''Private'', la_interfaceIndex = 3, la_interface = None, la_router = None\<rparr>"

definition empty_scope :: scope where
  "empty_scope = \<lparr>sc_override = JStr ''auto'', sc_allowed = [], sc_bindAddresses = [], sc_reason = None\<rparr>"

theorem scope_allows_private_lan_witness:
  "\<exists>s. update_scope None (JStr ''auto'') (Inr [sample_adapter]) empty_scope = (None, s)
    \<and> scope_allows s (Some ''::ffff:192.168.1.77'') ''local'' = Inr True
    \<and> scope_allows s (Some ''192.168.2.77'') ''local'' = Inr False
    \<and> (\<exists>n. network_of ''192.168.1.10'' (Whole 24) = Inr (Some n))"
proof -
  let ?s = "snd (update_scope None (JStr ''auto'') (Inr [sample_adapter]) empty_scope)"
  have f: "fst (update_scope None (JStr ''auto'') (Inr [sample_adapter]) empty_scope) = None" by code_simp
  then have u: "update_scope None (JStr ''auto'') (Inr [sample_adapter]) empty_scope = (None, ?s)"
    by (metis prod.collapse)
  have a: "scope_allows ?s (Some ''::ffff:192.168.1.77'') ''local'' = Inr True"
    "scope_allows ?s (Some ''192.168.2.77'') ''local'' = Inr False"
    by code_simp+
  have "\<not> is_loopback (Some ''::ffff:192.168.1.77'')" by code_simp
  with scope_allows_private_lan [OF u a(1)] have "\<exists>n. network_of ''192.168.1.10'' (Whole 24) = Inr (Some n)"
    by (auto simp: sample_adapter_def)
  with u a show ?thesis by blast
qed

text \<open>
  An address with a zone is not handled. The settings accept such an address in the owner's list of
  networks, but reading it throws: the scope of a server with that setting cannot be created, and the
  question about a link-local peer, whose address Node reports with its zone, is not answered.
\<close>

theorem zone_address_throws:
  "validNetworkCidr (JStr ''fe80::1%en0/64'')
   \<and> createLocalSessionScope None [sample_adapter] (JArr [JStr ''fe80::1%en0/64'']) = Inl ''Cannot convert to a BigInt''
   \<and> scope_allows (snd (update_scope None (JStr ''auto'') (Inr [sample_adapter]) empty_scope)) (Some ''fe80::1%en0'') ''local''
     = Inl ''Cannot convert to a BigInt''"
proof (intro conjI)
  show "validNetworkCidr (JStr ''fe80::1%en0/64'')" by code_simp
  show "createLocalSessionScope None [sample_adapter] (JArr [JStr ''fe80::1%en0/64'']) = Inl ''Cannot convert to a BigInt''"
    by code_simp
  show "scope_allows (snd (update_scope None (JStr ''auto'') (Inr [sample_adapter]) empty_scope)) (Some ''fe80::1%en0'') ''local''
     = Inl ''Cannot convert to a BigInt''" by code_simp
qed

end
