(* ===== verification/SdpCandidates.thy ===== *)
theory SdpCandidates
  imports LocalScope
begin

text \<open>
  \<^verbatim>\<open>apps/server/src/sdp-candidates.mjs\<close>: the ICE candidates of offers and answers, which the server removes,
  checks or replaces line by line. A line ends at carriage return and line feed, as the code splits it.
  The name resolver is an argument.
\<close>

section \<open>Lines and tokens\<close>

definition crlf :: string where "crlf = [CHR 0x0D, CHR 0x0A]"

fun split_crlf :: "string \<Rightarrow> string list" where
  "split_crlf [] = [[]]"
| "split_crlf [c] = [[c]]"
| "split_crlf (a # b # s) =
     (if a = CHR 0x0D \<and> b = CHR 0x0A then [] # split_crlf s
      else case split_crlf (b # s) of p # ps \<Rightarrow> (a # p) # ps | [] \<Rightarrow> [[a]])"

text \<open>\<^verbatim>\<open>\S+\<close>, \<^verbatim>\<open>\d+\<close>, and \<^verbatim>\<open>(.*)$\<close>, which stops at no line end.\<close>

definition is_word :: "string \<Rightarrow> bool" where
  "is_word s \<longleftrightarrow> s \<noteq> [] \<and> list_all (\<lambda>c. \<not> is_space c) s"

definition is_number :: "string \<Rightarrow> bool" where
  "is_number s \<longleftrightarrow> s \<noteq> [] \<and> list_all is_digit s"

definition one_line :: "string \<Rightarrow> bool" where
  "one_line s \<longleftrightarrow> CHR 0x0A \<notin> set s \<and> CHR 0x0D \<notin> set s"

definition same_ci :: "string \<Rightarrow> string \<Rightarrow> bool" where
  "same_ci pat s \<longleftrightarrow> map ascii_lower s = map ascii_lower pat"

text \<open>
  A host candidate: \<^verbatim>\<open>/^a=candidate:(\S+) (\d+) (udp|tcp) (\d+) (\S+) (\d+) typ host(.*)$/i\<close>.
\<close>

record candidate =
  cd_foundation :: string
  cd_component :: string
  cd_transport :: string
  cd_priority :: string
  cd_address :: string
  cd_port :: string
  cd_rest :: string

definition host_candidate :: "string \<Rightarrow> candidate option" where
  "host_candidate line =
     (if \<not> prefix_ci ''a=candidate:'' line then None
      else case split_on (CHR '' '') (drop 12 line) of
        f # c # tr # pr # ad # po # ty # ho # tail \<Rightarrow>
          if is_word f \<and> is_number c \<and> (same_ci ''udp'' tr \<or> same_ci ''tcp'' tr) \<and> is_number pr \<and> is_word ad
             \<and> is_number po \<and> same_ci ''typ'' ty \<and> prefix_ci ''host'' ho \<and> one_line (join_with '' '' (drop 4 ho # tail))
          then Some \<lparr>cd_foundation = f, cd_component = c, cd_transport = tr, cd_priority = pr, cd_address = ad,
                  cd_port = po, cd_rest = join_with '' '' (drop 4 ho # tail)\<rparr>
          else None
      | _ \<Rightarrow> None)"

definition candidate_line :: "candidate \<Rightarrow> string" where
  "candidate_line c = ''a=candidate:'' @ join_with '' '' [cd_foundation c, cd_component c, cd_transport c, cd_priority c,
     cd_address c, cd_port c, ''typ'', ''host''] @ cd_rest c"

definition is_candidate :: "string \<Rightarrow> bool" where
  "is_candidate line \<longleftrightarrow> starts_with line ''a=candidate:''"

text \<open>\<^verbatim>\<open>line.split(' ')[4]\<close>.\<close>

definition address_word :: "string \<Rightarrow> string option" where
  "address_word line = (let ws = split_on (CHR '' '') line in if 4 < length ws then Some (ws ! 4) else None)"

section \<open>Answers without a relay\<close>

definition word_char :: "char \<Rightarrow> bool" where
  "word_char c \<longleftrightarrow> is_alnum c \<or> c = CHR ''_''"

text \<open>\<^verbatim>\<open>line.replace(/\bIN IP4 (\S+)/, ...)\<close>: the first place; the flag says that a word character precedes.\<close>

fun replace_ip4 :: "(string \<Rightarrow> string) \<Rightarrow> bool \<Rightarrow> string \<Rightarrow> string" where
  "replace_ip4 f after [] = []"
| "replace_ip4 f after (c # s) =
     (let word = takeWhile (\<lambda>d. \<not> is_space d) (drop 7 (c # s))
      in if \<not> after \<and> starts_with (c # s) ''IN IP4 '' \<and> word \<noteq> [] then ''IN IP4 '' @ f word @ drop (7 + length word) (c # s)
         else c # replace_ip4 f (word_char c) s)"

definition replaceAddress :: "string list \<Rightarrow> string \<Rightarrow> string" where
  "replaceAddress publicIpv4 line =
     replace_ip4 (\<lambda>address. if isPrivateAddress (Some address) \<and> publicIpv4 \<noteq> [] then hd publicIpv4 else address) False line"

text \<open>The public forms of a private candidate that have not been announced yet.\<close>

definition announce_key :: "string \<Rightarrow> candidate \<Rightarrow> string" where
  "announce_key address c = join_with '' '' [address, cd_port c, js_lower (cd_transport c), cd_component c]"

fun public_forms :: "nat \<Rightarrow> string list \<Rightarrow> candidate \<Rightarrow> string list \<Rightarrow> string list \<times> string list" where
  "public_forms index [] c seen = ([], seen)"
| "public_forms index (address # others) c seen =
     (let k = announce_key address c
      in if k \<in> set seen then public_forms (Suc index) others c seen
         else (case public_forms (Suc index) others c (k # seen) of
                 (out, seen') \<Rightarrow>
                   (candidate_line (c\<lparr>cd_foundation := cd_foundation c @ ''p'' @ index_key index, cd_address := address\<rparr>) # out,
                    seen')))"

fun announce_lines :: "string list \<Rightarrow> string list \<Rightarrow> string list \<Rightarrow> string list" where
  "announce_lines publicIpv4 seen [] = []"
| "announce_lines publicIpv4 seen (line # lines) =
     (if starts_with line ''c='' \<or> starts_with line ''a=rtcp:''
      then replaceAddress publicIpv4 line # announce_lines publicIpv4 seen lines
      else if \<not> is_candidate line then line # announce_lines publicIpv4 seen lines
      else (case host_candidate line of
              None \<Rightarrow>
                (if isPrivateAddress (address_word line) then announce_lines publicIpv4 seen lines
                 else line # announce_lines publicIpv4 seen lines)
            | Some c \<Rightarrow>
                if \<not> isPrivateAddress (Some (cd_address c)) then line # announce_lines publicIpv4 seen lines
                else if isIP (cd_address c) \<noteq> 4 then announce_lines publicIpv4 seen lines
                else (case public_forms 0 publicIpv4 c seen of
                        (out, seen') \<Rightarrow> out @ announce_lines publicIpv4 seen' lines)))"

definition announceCandidates :: "string \<Rightarrow> string list \<Rightarrow> string" where
  "announceCandidates sdp publicIpv4 = join_with crlf (announce_lines publicIpv4 [] (split_crlf sdp))"

section \<open>Offers\<close>

definition keep_offer_line :: "string \<Rightarrow> bool" where
  "keep_offer_line line \<longleftrightarrow> \<not> is_candidate line
     \<or> (let address = (case address_word line of Some w \<Rightarrow> w | None \<Rightarrow> '''') in isIP address \<noteq> 0 \<and> \<not> isPrivateAddress (Some address))"

definition filterOfferCandidates :: "string \<Rightarrow> string" where
  "filterOfferCandidates sdp = join_with crlf (filter keep_offer_line (split_crlf sdp))"

definition stripOfferCandidates :: "string \<Rightarrow> string" where
  "stripOfferCandidates sdp = join_with crlf (filter (\<lambda>line. \<not> is_candidate line) (split_crlf sdp))"

text \<open>\<open>resolve\<close> is the resolver's answer for a name; a name it does not resolve in time is \<open>None\<close>.\<close>

definition publicIpv4Addresses :: "(string \<Rightarrow> string list option) \<Rightarrow> string list \<Rightarrow> string list" where
  "publicIpv4Addresses resolve names =
     filter (\<lambda>address. \<not> isPrivateAddress (Some address))
       (remdups_first (concat (map (\<lambda>name. if isIP name = 4 then [name]
          else if isIP name \<noteq> 0 then [] else (case resolve name of Some rows \<Rightarrow> rows | None \<Rightarrow> [])) names)))"

section \<open>The relay\<close>

definition ice_text :: "string \<Rightarrow> bool" where
  "ice_text s \<longleftrightarrow> s \<noteq> [] \<and> list_all (\<lambda>c. is_alnum c \<or> c = CHR ''+'' \<or> c = CHR ''/'') s"

definition sdp_value :: "string \<Rightarrow> string \<Rightarrow> string option" where
  "sdp_value sdp name =
     map_option (drop (length name + 3)) (find (\<lambda>line. starts_with line (''a='' @ name @ '':'')) (split_crlf sdp))"

definition iceCredentials :: "string \<Rightarrow> (string \<times> string) result" where
  "iceCredentials sdp =
     (case (sdp_value sdp ''ice-ufrag'', sdp_value sdp ''ice-pwd'') of
        (Some ufrag, Some pwd) \<Rightarrow>
          if length ufrag < 4 \<or> 256 < length ufrag \<or> length pwd < 22 \<or> 256 < length pwd \<or> \<not> ice_text ufrag \<or> \<not> ice_text pwd
          then Inl ''Invalid ICE credentials'' else Inr (ufrag, pwd)
      | _ \<Rightarrow> Inl ''Invalid ICE credentials'')"

definition ANSWER_LINES :: "string list" where
  "ANSWER_LINES = [''v=0'', ''o='', ''s='', ''t='', ''c='', ''b='', ''m='']"

definition ANSWER_ATTRIBUTES :: "string list" where
  "ANSWER_ATTRIBUTES = [''group'', ''msid-semantic'', ''mid'', ''ice-ufrag'', ''ice-pwd'', ''ice-options'', ''fingerprint'',
     ''setup'', ''sendrecv'', ''sendonly'', ''recvonly'', ''inactive'', ''rtcp'', ''rtcp-mux'', ''rtcp-rsize'', ''rtpmap'',
     ''fmtp'', ''rtcp-fb'', ''ssrc'', ''ssrc-group'', ''msid'', ''extmap'', ''sctp-port'', ''sctpmap'', ''max-message-size'',
     ''candidate'', ''end-of-candidates'']"

text \<open>\<^verbatim>\<open>/^a=([a-z0-9-]+)(?::|$)/i\<close>, in lower case.\<close>

definition attribute_of :: "string \<Rightarrow> string option" where
  "attribute_of line =
     (let name = takeWhile (\<lambda>c. is_alnum c \<or> c = CHR ''-'') (drop 2 line); after = drop (2 + length name) line
      in if prefix_ci ''a='' line \<and> name \<noteq> [] \<and> (after = [] \<or> hd after = CHR '':'') then Some (map ascii_lower name) else None)"

definition answer_line :: "string \<Rightarrow> bool" where
  "answer_line line \<longleftrightarrow> (\<exists>p \<in> set ANSWER_LINES. starts_with line p)"

definition unexpected :: "string \<Rightarrow> bool" where
  "unexpected line \<longleftrightarrow> \<not> answer_line line \<and> (case attribute_of line of Some a \<Rightarrow> a \<notin> set ANSWER_ATTRIBUTES | None \<Rightarrow> True)"

definition candidate_attribute :: "string \<Rightarrow> bool" where
  "candidate_attribute line \<longleftrightarrow> \<not> answer_line line \<and> attribute_of line = Some ''candidate''"

text \<open>
  \<^verbatim>\<open>/^a=candidate:(\S+) 1 udp (\d+) 127\.0\.0\.1 (\d+) typ host(?: generation \d+)?$/i\<close>, and the port.
\<close>

definition loopback_port :: "string \<Rightarrow> int option" where
  "loopback_port line =
     (if \<not> prefix_ci ''a=candidate:'' line then None
      else case split_on (CHR '' '') (drop 12 line) of
        f # c # tr # pr # ad # po # ty # ho # tail \<Rightarrow>
          if is_word f \<and> c = ''1'' \<and> same_ci ''udp'' tr \<and> is_number pr \<and> ad = ''127.0.0.1'' \<and> is_number po
             \<and> same_ci ''typ'' ty \<and> same_ci ''host'' ho
             \<and> (case tail of [] \<Rightarrow> True | [g, n] \<Rightarrow> same_ci ''generation'' g \<and> is_number n | _ \<Rightarrow> False)
          then Some (number_in 10 po) else None
      | _ \<Rightarrow> None)"

definition answer_lines :: "string \<Rightarrow> string list" where
  "answer_lines sdp = (let lines = split_crlf sdp in if last lines = [] then butlast lines else lines)"

definition validateRelayAnswer :: "string \<Rightarrow> (string \<times> string \<times> int) result" where
  "validateRelayAnswer sdp =
     (if byteLength sdp > 65536 then Inl ''Invalid answer: size''
      else (let lines = answer_lines sdp
            in case find unexpected lines of
                 Some line \<Rightarrow> Inl (''Invalid answer: unexpected line '' @ quote_str (take 40 line))
               | None \<Rightarrow>
                   (case filter candidate_attribute lines of
                      [line] \<Rightarrow>
                        (case loopback_port line of
                           Some port \<Rightarrow>
                             if port < 1024 \<or> 65535 < port
                             then Inl ''Invalid answer: candidate is not a loopback UDP host candidate''
                             else (case iceCredentials sdp of Inl e \<Rightarrow> Inl e | Inr (ufrag, pwd) \<Rightarrow> Inr (ufrag, pwd, port))
                         | None \<Rightarrow> Inl ''Invalid answer: candidate is not a loopback UDP host candidate'')
                    | _ \<Rightarrow> Inl ''Invalid answer: expected one candidate'')))"

definition usable_addresses :: "string list \<Rightarrow> string list" where
  "usable_addresses addresses =
     filter (\<lambda>address. isIP address \<noteq> 0) (remdups_first (map (takeWhile (\<lambda>c. c \<noteq> CHR ''%'')) addresses))"

definition ordered_addresses :: "string list \<Rightarrow> string list" where
  "ordered_addresses usable = filter (\<lambda>address. isIP address = 4) usable @ filter (\<lambda>address. isIP address = 6) usable"

definition relay_candidates :: "string list \<Rightarrow> int \<Rightarrow> candidate \<Rightarrow> string list" where
  "relay_candidates ordered mediaPort c =
     map (\<lambda>(index, address). candidate_line (c\<lparr>cd_foundation := cd_foundation c @ ''r'' @ index_key index,
         cd_priority := dec (number_in 10 (cd_priority c) - int index), cd_address := address, cd_port := dec mediaPort\<rparr>))
       (zip [0..<length ordered] ordered)"

definition relay_line :: "string list \<Rightarrow> int \<Rightarrow> string \<Rightarrow> string list" where
  "relay_line ordered mediaPort line =
     (let first = hd ordered; family = (if isIP first = 6 then ''IP6'' else ''IP4'')
      in if starts_with line ''c='' then [''c=IN '' @ family @ '' '' @ first]
         else if starts_with line ''a=rtcp:'' then [''a=rtcp:'' @ dec mediaPort @ '' IN '' @ family @ '' '' @ first]
         else (case host_candidate line of
                 Some c \<Rightarrow>
                   if same_ci ''udp'' (cd_transport c) \<and> cd_address c = ''127.0.0.1'' then relay_candidates ordered mediaPort c
                   else [line]
               | None \<Rightarrow> [line]))"

definition announceRelay :: "string \<Rightarrow> string list \<Rightarrow> int \<Rightarrow> string result" where
  "announceRelay sdp addresses mediaPort =
     (let usable = usable_addresses addresses
      in if usable = [] then Inl ''No address to announce for the media relay''
         else Inr (join_with crlf (concat (map (relay_line (ordered_addresses usable) mediaPort) (split_crlf sdp)))))"

section \<open>Lines\<close>

lemma split_crlf_nonempty [simp]: "split_crlf s \<noteq> []"
  by (induction s rule: split_crlf.induct) (auto split: list.splits)

lemma split_crlf_head:
  "split_crlf (b # s) = (b' # q) # qs \<Longrightarrow> b' = b"
  by (cases s) (auto split: list.splits if_splits)

lemma split_crlf_free: "p \<in> set (split_crlf s) \<Longrightarrow> split_crlf p = [p]"
proof (induction s arbitrary: p rule: split_crlf.induct)
  case (3 a b s)
  show ?case
  proof (cases "a = CHR 0x0D \<and> b = CHR 0x0A")
    case True
    with 3 show ?thesis by auto
  next
    case False
    obtain q qs where q: "split_crlf (b # s) = q # qs" by (cases "split_crlf (b # s)") auto
    have free: "split_crlf q = [q]" using 3(2) [OF False, of q] q by simp
    have "split_crlf (a # q) = [a # q]"
    proof (cases q)
      case (Cons b' r)
      with q have "b' = b" using split_crlf_head by blast
      with Cons False free show ?thesis by simp
    qed simp
    with 3 False q show ?thesis by auto
  qed
qed simp_all

lemma split_crlf_append: "split_crlf p = [p] \<Longrightarrow> split_crlf (p @ crlf @ s) = p # split_crlf s"
proof (induction p rule: split_crlf.induct)
  case 1
  then show ?case by (simp add: crlf_def)
next
  case (2 c)
  then show ?case by (simp add: crlf_def)
next
  case (3 a b p)
  then show ?case by (auto split: if_splits list.splits)
qed

lemma join_with_append: "ps \<noteq> [] \<Longrightarrow> join_with s (p # ps) = p @ s @ join_with s ps"
  by (cases ps) simp_all

lemma split_crlf_join:
  "ps \<noteq> [] \<Longrightarrow> (\<forall>p \<in> set ps. split_crlf p = [p]) \<Longrightarrow> split_crlf (join_with crlf ps) = ps"
proof (induction crlf ps rule: join_with.induct)
  case (3 p q ps)
  then show ?case by (simp add: split_crlf_append)
qed simp_all

lemma join_split_crlf: "join_with crlf (split_crlf s) = s"
proof (induction s rule: split_crlf.induct)
  case (3 a b s)
  show ?case
  proof (cases "a = CHR 0x0D \<and> b = CHR 0x0A")
    case True
    with 3 show ?thesis by (simp add: join_with_append) (simp add: crlf_def)
  next
    case False
    then obtain q qs where q: "split_crlf (b # s) = q # qs" by (cases "split_crlf (b # s)") auto
    have "join_with crlf ((a # q) # qs) = a # join_with crlf (q # qs)" by (cases qs) simp_all
    with 3(2) [OF False] False q show ?thesis by auto
  qed
qed simp_all

lemma split_crlf_no_cr: "CHR 0x0D \<notin> set s \<Longrightarrow> split_crlf s = [s]"
  by (induction s rule: split_crlf.induct) auto

text \<open>What a line filter leaves: the lines of the text that pass, or one empty line.\<close>

lemma split_filtered:
  "split_crlf (join_with crlf (filter P (split_crlf s))) =
     (if filter P (split_crlf s) = [] then [[]] else filter P (split_crlf s))"
  using split_crlf_free by (auto intro!: split_crlf_join)

lemma not_candidate_Nil [simp]: "\<not> is_candidate []"
  by (simp add: is_candidate_def starts_with_def)

lemma filtered_lines:
  assumes "\<And>line. \<not> is_candidate line \<Longrightarrow> P line"
  shows "line \<in> set (split_crlf (join_with crlf (filter P (split_crlf s)))) \<Longrightarrow> P line"
    and "line \<in> set (split_crlf (join_with crlf (filter P (split_crlf s)))) \<Longrightarrow> line \<noteq> [] \<Longrightarrow> line \<in> set (split_crlf s)"
  using assms [of "[]"] by (auto simp: split_filtered split: if_splits)

lemma keep_offer_plain: "\<not> is_candidate line \<Longrightarrow> keep_offer_line line"
  by (simp add: keep_offer_line_def)

lemma keep_offer_word:
  "keep_offer_line line \<Longrightarrow> is_candidate line \<Longrightarrow>
     \<exists>a. (address_word line = Some a \<or> a = []) \<and> isIP a \<noteq> 0 \<and> \<not> isPrivateAddress (Some a) \<and> (address_word line = None \<longrightarrow> a = [])"
  unfolding keep_offer_line_def Let_def by (cases "address_word line") auto

text \<open>
  The line checks see only lines that end in carriage return and line feed. An offer whose lines
  end in a bare line feed, which SDP readers accept as well, passes both filters unchanged, with its candidates.
\<close>

theorem bare_line_feed_kept:
  "CHR 0x0D \<notin> set sdp \<Longrightarrow> \<not> is_candidate sdp \<Longrightarrow>
     stripOfferCandidates sdp = sdp \<and> filterOfferCandidates sdp = sdp"
  by (simp add: stripOfferCandidates_def filterOfferCandidates_def split_crlf_no_cr keep_offer_line_def)

definition bare_offer :: string where
  "bare_offer = ''v=0'' @ [CHR 0x0A] @ ''a=candidate:1 1 udp 9 10.0.0.5 9999 typ host''"

theorem bare_line_feed_kept_witness:
  "stripOfferCandidates bare_offer = bare_offer \<and> filterOfferCandidates bare_offer = bare_offer"
  by (rule bare_line_feed_kept) code_simp+

lemma ascii_lower_alpha: "is_lower d \<Longrightarrow> ascii_lower c = d \<Longrightarrow> is_alnum c \<and> c \<noteq> CHR '':''"
proof -
  assume d: "is_lower d" "ascii_lower c = d"
  have "is_upper c \<or> is_lower c" using d by (auto simp: ascii_lower_def split: if_splits)
  moreover have "\<not> is_upper (CHR '':'')" "\<not> is_lower (CHR '':'')" by code_simp+
  ultimately show ?thesis by (auto simp: is_alnum_def)
qed

lemma ascii_lower_mark: "\<not> is_upper d \<Longrightarrow> \<not> is_lower d \<Longrightarrow> ascii_lower c = d \<Longrightarrow> c = d"
proof -
  assume d: "\<not> is_upper d" "\<not> is_lower d" "ascii_lower c = d"
  have "\<not> is_upper c"
  proof
    assume u: "is_upper c"
    then have "code (ascii_lower c) = code c + 32" by (simp add: ascii_lower_def code_char_of is_upper_def)
    with u d show False by (simp add: is_upper_def is_lower_def)
  qed
  with d show ?thesis by (simp add: ascii_lower_def)
qed

lemma prefix_ci_split: "prefix_ci pat s \<Longrightarrow> \<exists>p r. s = p @ r \<and> map ascii_lower p = map ascii_lower pat"
  unfolding prefix_ci_def by (metis append_take_drop_id)

lemma candidate_prefix:
  assumes "prefix_ci ''a=candidate:'' line"
  shows "attribute_of line = Some ''candidate'' \<and> \<not> answer_line line"
    and "\<not> starts_with line ''c=''" "\<not> starts_with line ''a=rtcp:''"
proof -
  have low: "map ascii_lower ''a=candidate:'' = ''a=candidate:''" by code_simp
  obtain p r where p: "line = p @ r" "map ascii_lower p = ''a=candidate:''"
    using prefix_ci_split [OF assms] low by metis
  have marks: "ascii_lower c = CHR ''='' \<longleftrightarrow> c = CHR ''=''" "ascii_lower c = CHR '':'' \<longleftrightarrow> c = CHR '':''" for c
  proof -
    have "\<not> is_upper (CHR ''='')" "\<not> is_lower (CHR ''='')" "\<not> is_upper (CHR '':'')" "\<not> is_lower (CHR '':'')"
      "ascii_lower (CHR ''='') = CHR ''=''" "ascii_lower (CHR '':'') = CHR '':''" by code_simp+
    then show "ascii_lower c = CHR ''='' \<longleftrightarrow> c = CHR ''=''" "ascii_lower c = CHR '':'' \<longleftrightarrow> c = CHR '':''"
      using ascii_lower_mark by blast+
  qed
  obtain a w where w: "p = [a, CHR ''=''] @ w @ [CHR '':'']" "map ascii_lower w = ''candidate''" "ascii_lower a = CHR ''a''"
  proof -
    from p(2) obtain x0 x1 x2 x3 x4 x5 x6 x7 x8 x9 xa xb where
      x: "p = [x0, x1, x2, x3, x4, x5, x6, x7, x8, x9, xa, xb]" by (auto simp: map_eq_Cons_conv)
    show thesis by (rule that [of x0 "[x2, x3, x4, x5, x6, x7, x8, x9, xa]"]) (use p(2) in \<open>simp_all add: x marks\<close>)
  qed
  have lowers: "list_all is_lower ''candidate''" by code_simp
  have al: "is_alnum c" if "c \<in> set w" for c
  proof -
    have "ascii_lower c \<in> set ''candidate''" using that w(2) by (metis image_eqI list.set_map)
    then have "is_lower (ascii_lower c)" using lowers unfolding list_all_iff by blast
    then show ?thesis using ascii_lower_alpha by blast
  qed
  have colon: "\<not> is_alnum (CHR '':'')" by code_simp
  have tw: "takeWhile (\<lambda>c. is_alnum c \<or> c = CHR ''-'') (w @ CHR '':'' # r) = w"
    using al colon by (simp add: takeWhile_append2)
  have line: "line = a # CHR ''='' # w @ CHR '':'' # r" using p(1) w(1) by simp
  have wn: "w \<noteq> []" using w(2) by auto
  have "attribute_of line = Some (map ascii_lower w)"
  proof -
    have "prefix_ci ''a='' line"
    proof -
      have "map ascii_lower ''a='' = ''a=''" by code_simp
      then show ?thesis using w(3) marks by (simp add: prefix_ci_def line)
    qed
    then show ?thesis using tw wn by (simp add: attribute_of_def line Let_def)
  qed
  with w(2) have at: "attribute_of line = Some ''candidate''" by simp
  have lower_of: "a = d \<Longrightarrow> ascii_lower d = CHR ''a''" for d using w(3) by simp
  have ne: "ascii_lower CHR ''v'' \<noteq> CHR ''a''" "ascii_lower CHR ''o'' \<noteq> CHR ''a''" "ascii_lower CHR ''s'' \<noteq> CHR ''a''"
    "ascii_lower CHR ''t'' \<noteq> CHR ''a''" "ascii_lower CHR ''c'' \<noteq> CHR ''a''" "ascii_lower CHR ''b'' \<noteq> CHR ''a''"
    "ascii_lower CHR ''m'' \<noteq> CHR ''a''" "ascii_lower CHR ''r'' \<noteq> CHR ''c''" by code_simp+
  show "attribute_of line = Some ''candidate'' \<and> \<not> answer_line line"
    using at ne lower_of by (auto simp: answer_line_def ANSWER_LINES_def starts_with_def line)
  show "\<not> starts_with line ''c=''" using ne lower_of by (auto simp: starts_with_def line)
  show "\<not> starts_with line ''a=rtcp:''" using w(2) ne wn by (cases w) (auto simp: starts_with_def line)
qed


section \<open>Address texts\<close>

lemma split_dc_chars: "set s \<subseteq> \<Union> (set ` set (split_dc s)) \<union> {CHR '':''}"
proof (induction s rule: split_dc.induct)
  case (3 a b s)
  show ?case
  proof (cases "a = CHR '':'' \<and> b = CHR '':''")
    case True
    with 3(1) show ?thesis by auto
  next
    case False
    obtain p ps where p: "split_dc (b # s) = p # ps" by (cases "split_dc (b # s)") simp_all
    then have "split_dc (a # b # s) = (a # p) # ps" using False by auto
    with 3(2) [OF False] p show ?thesis by auto
  qed
qed auto

lemma words_of_chars: "set s \<subseteq> \<Union> (set ` set (words_of s)) \<union> {CHR '':''}"
  using split_on_chars [of s "CHR '':''"] by (simp add: words_of_def)

definition address_char :: "char \<Rightarrow> bool" where
  "address_char c \<longleftrightarrow> is_hex c \<or> c = CHR ''.'' \<or> c = CHR '':''"

lemma groups_filled_chars:
  "groups_filled d ws = Some n \<Longrightarrow> w \<in> set ws \<Longrightarrow> c \<in> set w \<Longrightarrow> address_char c"
proof (induction d ws arbitrary: n rule: groups_filled.induct)
  case (2 d w)
  then show ?case
    using ipv4_chars by (auto simp: is_group_def list_all_iff address_char_def is_hex_def split: if_splits)
next
  case (3 d w v ws)
  then show ?case
    by (auto simp: is_group_def list_all_iff address_char_def split: if_splits)
qed simp

lemma ip_chars:
  assumes "isIP s \<noteq> 0" "CHR ''%'' \<notin> set s" "c \<in> set s"
  shows "address_char c"
proof (cases "is_ipv4 s")
  case True
  then show ?thesis using ipv4_chars assms(3) by (auto simp: address_char_def is_hex_def)
next
  case False
  then have b: "is_ipv6_body s" using assms(1,2)
    by (auto simp: isIP_def is_ipv6_def no_percent Let_def split: if_splits)
  have part: "\<exists>d n. groups_filled d (words_of p) = Some n" if "p \<in> set (split_dc s)" for p
    using b that unfolding is_ipv6_body_def by (auto split: list.splits option.splits)
  have "c = CHR '':'' \<or> (\<exists>p \<in> set (split_dc s). c \<in> set p)" using split_dc_chars [of s] assms(3) by auto
  then show ?thesis
  proof
    assume "\<exists>p \<in> set (split_dc s). c \<in> set p"
    then obtain p where p: "p \<in> set (split_dc s)" "c \<in> set p" by blast
    then have "c = CHR '':'' \<or> (\<exists>w \<in> set (words_of p). c \<in> set w)" using words_of_chars [of p] by auto
    moreover obtain d n where "groups_filled d (words_of p) = Some n" using part [OF p(1)] by blast
    moreover have "address_char (CHR '':'')" by (simp add: address_char_def)
    ultimately show ?thesis using groups_filled_chars by blast
  qed (simp add: address_char_def)
qed

lemma address_char_plain: "address_char c \<Longrightarrow> c \<noteq> CHR '' '' \<and> c \<noteq> CHR 0x0D \<and> c \<noteq> CHR 0x0A"
proof -
  have "\<not> address_char (CHR '' '')" "\<not> address_char (CHR 0x0D)" "\<not> address_char (CHR 0x0A)" by code_simp+
  then show "address_char c \<Longrightarrow> ?thesis" by blast
qed

text \<open>The words of a candidate line.\<close>

definition plain_word :: "string \<Rightarrow> bool" where
  "plain_word s \<longleftrightarrow> CHR '' '' \<notin> set s \<and> CHR 0x0D \<notin> set s \<and> CHR 0x0A \<notin> set s"

lemma usable_plain:
  assumes "a \<in> set (usable_addresses addresses)"
  shows "isIP a \<noteq> 0" "plain_word a"
proof -
  have "CHR ''%'' \<notin> set (takeWhile (\<lambda>c. c \<noteq> CHR ''%'') s)" for s by (auto dest: set_takeWhileD)
  then have p: "isIP a \<noteq> 0" "CHR ''%'' \<notin> set a"
    using assms by (auto simp: usable_addresses_def remdups_first_def)
  then show "isIP a \<noteq> 0" "plain_word a"
    unfolding plain_word_def using ip_chars address_char_plain by blast+
qed

lemma dec_plain_word: "plain_word (dec n)"
proof -
  have "\<not> is_digit (CHR '' '')" "\<not> is_digit (CHR 0x0D)" "\<not> is_digit (CHR 0x0A)" by code_simp+
  then show ?thesis using dec_pos_digits [of n] dec_pos_digits [of "- n"]
    by (cases "n < 0") (auto simp: plain_word_def dec_def list_all_iff)
qed

lemma index_plain: "plain_word (index_key k)"
  using dec_plain_word [of "int k"] by (simp add: dec_def index_key_def)

lemma plain_word_append: "plain_word (s @ t) \<longleftrightarrow> plain_word s \<and> plain_word t"
  by (auto simp: plain_word_def)

lemma candidate_line_words:
  assumes "plain_word (cd_foundation c)" "plain_word (cd_component c)" "plain_word (cd_transport c)"
    "plain_word (cd_priority c)" "plain_word (cd_address c)" "plain_word (cd_port c)"
  shows "split_on (CHR '' '') (candidate_line c) =
     [''a=candidate:'' @ cd_foundation c, cd_component c, cd_transport c, cd_priority c, cd_address c, cd_port c, ''typ'']
       @ split_on (CHR '' '') (''host'' @ cd_rest c)"
proof -
  have s: "split_on (CHR '' '') (p @ CHR '' '' # t) = p # split_on (CHR '' '') t" if "plain_word p" for p t
    using that by (intro split_on_append) (simp add: plain_word_def)
  define p where "p = ''a=candidate:'' @ cd_foundation c"
  define r where "r = ''host'' @ cd_rest c"
  define ty where "ty = ''typ''"
  have "plain_word p" "plain_word ty" using assms(1) by (simp_all add: plain_word_def p_def ty_def)
  moreover have "candidate_line c = p @ CHR '' '' # cd_component c @ CHR '' '' # cd_transport c
      @ CHR '' '' # cd_priority c @ CHR '' '' # cd_address c @ CHR '' '' # cd_port c @ CHR '' '' # ty @ CHR '' '' # r"
    by (simp add: candidate_line_def p_def r_def ty_def)
  ultimately have "split_on (CHR '' '') (candidate_line c) =
      p # cd_component c # cd_transport c # cd_priority c # cd_address c # cd_port c # ty # split_on (CHR '' '') r"
    using assms by (simp only: s)
  then show ?thesis by (simp only: p_def r_def ty_def append.simps)
qed


lemma candidate_line_facts:
  assumes "plain_word (cd_foundation c)" "plain_word (cd_component c)" "plain_word (cd_transport c)"
    "plain_word (cd_priority c)" "plain_word (cd_address c)" "plain_word (cd_port c)" "one_line (cd_rest c)"
  shows "is_candidate (candidate_line c)" "address_word (candidate_line c) = Some (cd_address c)"
    "split_on (CHR '' '') (candidate_line c) ! 5 = cd_port c" "split_crlf (candidate_line c) = [candidate_line c]"
proof -
  show "is_candidate (candidate_line c)" by (simp add: is_candidate_def candidate_line_def starts_with_def)
  note w = candidate_line_words [OF assms(1-6)]
  show "address_word (candidate_line c) = Some (cd_address c)" by (simp add: address_word_def w Let_def)
  show "split_on (CHR '' '') (candidate_line c) ! 5 = cd_port c" by (simp add: w)
  have "CHR 0x0D \<notin> set (candidate_line c)"
    using assms by (simp add: candidate_line_def plain_word_def one_line_def)
  then show "split_crlf (candidate_line c) = [candidate_line c]" by (rule split_crlf_no_cr)
qed

lemma is_word_plain: "is_word s \<Longrightarrow> plain_word s"
proof -
  have "is_space (CHR '' '')" "is_space (CHR 0x0D)" "is_space (CHR 0x0A)" by code_simp+
  then show "is_word s \<Longrightarrow> ?thesis" by (auto simp: is_word_def plain_word_def list_all_iff)
qed

lemma is_number_plain: "is_number s \<Longrightarrow> plain_word s"
proof -
  have "\<not> is_digit (CHR '' '')" "\<not> is_digit (CHR 0x0D)" "\<not> is_digit (CHR 0x0A)" by code_simp+
  then show "is_number s \<Longrightarrow> ?thesis" by (auto simp: is_number_def plain_word_def list_all_iff)
qed

lemma ascii_lower_plain: "plain_word (map ascii_lower t) \<Longrightarrow> map ascii_lower s = map ascii_lower t \<Longrightarrow> plain_word s"
proof -
  assume a: "plain_word (map ascii_lower t)" "map ascii_lower s = map ascii_lower t"
  have "ascii_lower (CHR '' '') = CHR '' ''" "ascii_lower (CHR 0x0D) = CHR 0x0D" "ascii_lower (CHR 0x0A) = CHR 0x0A" by code_simp+
  then have "CHR '' '' \<in> set s \<Longrightarrow> CHR '' '' \<in> set (map ascii_lower s)" "CHR 0x0D \<in> set s \<Longrightarrow> CHR 0x0D \<in> set (map ascii_lower s)"
    "CHR 0x0A \<in> set s \<Longrightarrow> CHR 0x0A \<in> set (map ascii_lower s)"
    by (metis image_eqI list.set_map)+
  with a show ?thesis by (auto simp: plain_word_def simp del: set_map)
qed

lemma host_candidate_parts:
  assumes "host_candidate line = Some c"
  shows "plain_word (cd_foundation c)" "plain_word (cd_component c)" "plain_word (cd_transport c)"
    "plain_word (cd_priority c)" "plain_word (cd_address c)" "plain_word (cd_port c)" "one_line (cd_rest c)"
proof -
  have t: "plain_word (map ascii_lower ''udp'')" "plain_word (map ascii_lower ''tcp'')" unfolding plain_word_def by code_simp+
  have "same_ci ''udp'' tr \<or> same_ci ''tcp'' tr \<Longrightarrow> plain_word tr" for tr
    using t ascii_lower_plain unfolding same_ci_def by blast
  then show "plain_word (cd_foundation c)" "plain_word (cd_component c)" "plain_word (cd_transport c)"
    "plain_word (cd_priority c)" "plain_word (cd_address c)" "plain_word (cd_port c)" "one_line (cd_rest c)"
    using assms is_word_plain is_number_plain by (auto simp: host_candidate_def split: if_splits list.splits)
qed

lemma loopback_candidate:
  assumes "loopback_port line = Some port"
  shows "\<exists>c. host_candidate line = Some c \<and> cd_address c = ''127.0.0.1'' \<and> same_ci ''udp'' (cd_transport c)"
    and "prefix_ci ''a=candidate:'' line"
proof -
  show "prefix_ci ''a=candidate:'' line" using assms by (simp add: loopback_port_def split: if_splits)
  have loop: "is_word ''127.0.0.1''" by code_simp
  have one: "is_number ''1''" by code_simp
  have h: "prefix_ci ''host'' ho \<and> drop 4 ho = []" if "same_ci ''host'' ho" for ho
  proof -
    have "length ho = 4" using that unfolding same_ci_def by (metis length_map list.size(3) list.size(4) numeral_eq_Suc add_0 Suc_eq_plus1 pred_numeral_simps BitM.simps)
    then show ?thesis using that by (simp add: same_ci_def prefix_ci_def)
  qed
  have gen: "one_line (join_with '' '' ([] # words))"
    if "case words of [] \<Rightarrow> True | [g, n] \<Rightarrow> same_ci ''generation'' g \<and> is_number n | _ \<Rightarrow> False" for words
  proof -
    have t: "plain_word (map ascii_lower ''generation'')" unfolding plain_word_def by code_simp
    show ?thesis
    proof (cases words)
      case (Cons g more_words)
      with that obtain n where n: "words = [g, n]" "same_ci ''generation'' g" "is_number n"
        by (auto split: list.splits)
      then have "plain_word g" "plain_word n" using ascii_lower_plain [OF t] is_number_plain by (auto simp: same_ci_def)
      with n(1) show ?thesis by (simp add: one_line_def plain_word_def)
    qed (simp add: one_line_def)
  qed
  obtain f tr pr po ty ho words where w: "split_on (CHR '' '') (drop 12 line) = f # ''1'' # tr # pr # ''127.0.0.1'' # po # ty # ho # words"
    "is_word f" "same_ci ''udp'' tr" "is_number pr" "is_number po" "same_ci ''typ'' ty" "same_ci ''host'' ho"
    "case words of [] \<Rightarrow> True | [g, n] \<Rightarrow> same_ci ''generation'' g \<and> is_number n | _ \<Rightarrow> False"
    using assms unfolding loopback_port_def by (auto split: if_splits list.splits)
  show "\<exists>c. host_candidate line = Some c \<and> cd_address c = ''127.0.0.1'' \<and> same_ci ''udp'' (cd_transport c)"
    using w h [OF w(7)] gen [OF w(8)] loop one \<open>prefix_ci ''a=candidate:'' line\<close>
    by (simp add: host_candidate_def del: join_with.simps)
qed


section \<open>The announced answer\<close>

lemma concat_map_filter: "(\<forall>x \<in> set xs. \<not> P x \<longrightarrow> f x = []) \<Longrightarrow> concat (map f xs) = concat (map f (filter P xs))"
  by (induction xs) auto

lemma filter_concat_map: "filter P (concat (map f xs)) = concat (map (\<lambda>x. filter P (f x)) xs)"
  by (induction xs) auto

text \<open>A line other than the worker's candidate is passed on, or replaced by one that is no candidate.\<close>

lemma relay_line_other:
  assumes "\<not> candidate_attribute line" "ordered \<noteq> []" "\<forall>a \<in> set ordered. plain_word a" "split_crlf line = [line]"
  shows "\<exists>l. relay_line ordered mediaPort line = [l] \<and> \<not> is_candidate l \<and> split_crlf l = [l]"
proof -
  have first: "plain_word (hd ordered)" using assms(2,3) by simp
  have cl: "split_crlf l = [l]" if "CHR 0x0D \<notin> set l" for l using that by (rule split_crlf_no_cr)
  have np: "\<not> prefix_ci ''a=candidate:'' line"
    using assms(1) candidate_prefix(1) by (auto simp: candidate_attribute_def)
  have "is_candidate line \<Longrightarrow> prefix_ci ''a=candidate:'' line"
    by (simp add: is_candidate_def starts_with_def prefix_ci_def)
  with np have nc: "\<not> is_candidate line" by blast
  have h: "host_candidate line = None" using np by (simp add: host_candidate_def)
  consider "starts_with line ''c=''" | "\<not> starts_with line ''c=''" "starts_with line ''a=rtcp:''"
    | "\<not> starts_with line ''c=''" "\<not> starts_with line ''a=rtcp:''" by blast
  then show ?thesis
  proof cases
    case 1
    then obtain l where "relay_line ordered mediaPort line = [l]" "\<not> is_candidate l" "CHR 0x0D \<notin> set l"
      using first by (auto simp: relay_line_def Let_def is_candidate_def starts_with_def plain_word_def)
    then show ?thesis using cl by blast
  next
    case 2
    then obtain l where "relay_line ordered mediaPort line = [l]" "\<not> is_candidate l" "CHR 0x0D \<notin> set l"
      using first dec_plain_word [of mediaPort] by (auto simp: relay_line_def Let_def is_candidate_def starts_with_def plain_word_def)
    then show ?thesis using cl by blast
  next
    case 3
    then show ?thesis using h nc assms(4) by (simp add: relay_line_def Let_def)
  qed
qed

lemma relay_line_candidate:
  assumes "loopback_port line = Some port" "\<forall>a \<in> set ordered. plain_word a"
  shows "map address_word (relay_line ordered mediaPort line) = map Some ordered"
    and "\<forall>l \<in> set (relay_line ordered mediaPort line). is_candidate l \<and> split_crlf l = [l]
           \<and> split_on (CHR '' '') l ! 5 = dec mediaPort"
proof -
  obtain c where c: "host_candidate line = Some c" "cd_address c = ''127.0.0.1''" "same_ci ''udp'' (cd_transport c)"
    using loopback_candidate(1) [OF assms(1)] by blast
  note p = candidate_prefix [OF loopback_candidate(2) [OF assms(1)]]
  have r: "relay_line ordered mediaPort line = relay_candidates ordered mediaPort c"
    using p(2,3) c by (simp add: relay_line_def Let_def)
  define new where "new = (\<lambda>(index, address). c\<lparr>cd_foundation := cd_foundation c @ ''r'' @ index_key index,
         cd_priority := dec (number_in 10 (cd_priority c) - int index), cd_address := address, cd_port := dec mediaPort\<rparr>)"
  have rc: "relay_candidates ordered mediaPort c = map (\<lambda>x. candidate_line (new x)) (zip [0..<length ordered] ordered)"
    by (simp add: relay_candidates_def new_def case_prod_beta)
  have r1: "plain_word ''r''" by (simp add: plain_word_def)
  have facts: "is_candidate (candidate_line (new (k, a))) \<and> split_crlf (candidate_line (new (k, a))) = [candidate_line (new (k, a))]
      \<and> split_on (CHR '' '') (candidate_line (new (k, a))) ! 5 = dec mediaPort
      \<and> address_word (candidate_line (new (k, a))) = Some a" if "a \<in> set ordered" for k a
  proof -
    have "plain_word (cd_foundation (new (k, a)))"
      using host_candidate_parts(1) [OF c(1)] index_plain [of k] by (simp add: new_def plain_word_def)
    then show ?thesis
      using candidate_line_facts [of "new (k, a)"] host_candidate_parts [OF c(1)] dec_plain_word that assms(2)
      by (simp add: new_def)
  qed
  have inz: "snd x \<in> set ordered" if "x \<in> set (zip [0..<length ordered] ordered)" for x
    using that by (metis prod.collapse set_zip_rightD)
  have "map address_word (relay_candidates ordered mediaPort c) = map (\<lambda>x. Some (snd x)) (zip [0..<length ordered] ordered)"
    unfolding rc map_map using facts inz by (intro map_cong) (auto simp: comp_def)
  also have "\<dots> = map Some (map snd (zip [0..<length ordered] ordered))" unfolding map_map comp_def ..
  also have "map snd (zip [0..<length ordered] ordered) = ordered" by simp
  finally show "map address_word (relay_line ordered mediaPort line) = map Some ordered" by (simp only: r)
  show "\<forall>l \<in> set (relay_line ordered mediaPort line). is_candidate l \<and> split_crlf l = [l]
           \<and> split_on (CHR '' '') l ! 5 = dec mediaPort"
    unfolding r rc using facts inz by (auto dest: set_zip_rightD)
qed

lemma validated_answer:
  assumes "validateRelayAnswer sdp = Inr (ufrag, pwd, port)"
  shows "\<exists>line. filter candidate_attribute (split_crlf sdp) = [line] \<and> loopback_port line = Some port \<and> 1024 \<le> port \<and> port \<le> 65535"
proof -
  have "filter candidate_attribute (split_crlf sdp) = filter candidate_attribute (answer_lines sdp)"
  proof -
    have e: "\<not> candidate_attribute []" by code_simp
    have "filter candidate_attribute ls = filter candidate_attribute (butlast ls)" if "ls \<noteq> []" "last ls = []" for ls
      using that e by (cases ls rule: rev_cases) simp_all
    then show ?thesis unfolding answer_lines_def Let_def by simp
  qed
  moreover obtain line where "filter candidate_attribute (answer_lines sdp) = [line]"
    "(case loopback_port line of
        Some port \<Rightarrow> if port < 1024 \<or> 65535 < port then Inl ''Invalid answer: candidate is not a loopback UDP host candidate''
          else (case iceCredentials sdp of Inl e \<Rightarrow> Inl e | Inr (ufrag, pwd) \<Rightarrow> Inr (ufrag, pwd, port))
      | None \<Rightarrow> Inl ''Invalid answer: candidate is not a loopback UDP host candidate'') = Inr (ufrag, pwd, port)"
    using assms unfolding validateRelayAnswer_def Let_def by (simp split: if_split_asm option.split_asm list.split_asm)
  moreover from this(2) have "loopback_port line = Some port \<and> 1024 \<le> port \<and> port \<le> 65535"
    by (simp split: if_split_asm option.split_asm sum.split_asm prod.split_asm)
  ultimately show ?thesis by simp
qed

lemma announced_lines:
  assumes "validateRelayAnswer sdp = Inr (ufrag, pwd, port)" "announceRelay sdp addresses mediaPort = Inr answer"
  shows "map address_word (filter is_candidate (split_crlf answer)) = map Some (ordered_addresses (usable_addresses addresses))"
    and "\<forall>line \<in> set (split_crlf answer). is_candidate line \<longrightarrow> split_on (CHR '' '') line ! 5 = dec mediaPort"
proof -
  define us where "us = ordered_addresses (usable_addresses addresses)"
  have us: "usable_addresses addresses \<noteq> []" "answer = join_with crlf (concat (map (relay_line us mediaPort) (split_crlf sdp)))"
    using assms(2) by (auto simp: announceRelay_def Let_def us_def split: if_splits)
  have "isIP a = 4 \<or> isIP a = 6" if "isIP a \<noteq> 0" for a using that by (simp add: isIP_def split: if_splits)
  then have "set us = set (usable_addresses addresses)"
    using usable_plain(1) by (auto simp: us_def ordered_addresses_def)
  with us(1) usable_plain(2) have p: "us \<noteq> []" "\<forall>a \<in> set us. plain_word a" by auto
  obtain line where line: "filter candidate_attribute (split_crlf sdp) = [line]" "loopback_port line = Some port"
    using validated_answer [OF assms(1)] by blast
  have in_line: "l = line" if "l \<in> set (split_crlf sdp)" "candidate_attribute l" for l
  proof -
    have "l \<in> set (filter candidate_attribute (split_crlf sdp))" using that by simp
    then show ?thesis unfolding line(1) by simp
  qed
  note rl = relay_line_candidate [OF line(2) p(2), of mediaPort]
  have free: "\<forall>l \<in> set (relay_line us mediaPort x). split_crlf l = [l]" if "x \<in> set (split_crlf sdp)" for x
    using relay_line_other [OF _ p split_crlf_free [OF that]] rl(2) in_line [OF that]
    by (cases "candidate_attribute x") (blast, metis list.set_intros(1) list.set_cases empty_iff list.set(1) set_ConsD)
  have "line \<in> set (split_crlf sdp)" using line(1) by (metis filter_eq_ConsD in_set_conv_decomp)
  have ne: "concat (map (relay_line us mediaPort) (split_crlf sdp)) \<noteq> []"
    using rl(1) p(1) \<open>line \<in> set (split_crlf sdp)\<close> by fastforce
  have lines: "split_crlf answer = concat (map (relay_line us mediaPort) (split_crlf sdp))"
    unfolding us(2) using free by (intro split_crlf_join [OF ne]) auto
  have "filter is_candidate (split_crlf answer)
      = concat (map (\<lambda>x. filter is_candidate (relay_line us mediaPort x)) (filter candidate_attribute (split_crlf sdp)))"
    unfolding lines filter_concat_map
  proof (rule concat_map_filter, intro ballI impI)
    fix x
    assume "x \<in> set (split_crlf sdp)" "\<not> candidate_attribute x"
    then obtain l where "relay_line us mediaPort x = [l]" "\<not> is_candidate l"
      using relay_line_other [OF _ p split_crlf_free] by blast
    then show "filter is_candidate (relay_line us mediaPort x) = []" by simp
  qed
  also have "\<dots> = relay_line us mediaPort line" using line(1) rl(2) by simp
  finally have f: "filter is_candidate (split_crlf answer) = relay_line us mediaPort line" .
  with rl(1) show "map address_word (filter is_candidate (split_crlf answer)) = map Some (ordered_addresses (usable_addresses addresses))"
    by (simp add: us_def)
  show "\<forall>line \<in> set (split_crlf answer). is_candidate line \<longrightarrow> split_on (CHR '' '') line ! 5 = dec mediaPort"
  proof (intro ballI impI)
    fix l
    assume "l \<in> set (split_crlf answer)" "is_candidate l"
    then have "l \<in> set (filter is_candidate (split_crlf answer))" by simp
    with rl(2) show "split_on (CHR '' '') l ! 5 = dec mediaPort" unfolding f by blast
  qed
qed

text \<open>
  The lines as any reader may see them: a carriage return and a line feed end one each, together or alone. Where every line that
  the code sees holds neither, the two readings differ in empty lines only.
\<close>

definition reader_lines :: "string \<Rightarrow> string list" where
  "reader_lines s = split_on (CHR 0x0A) (map (\<lambda>c. if c = CHR 0x0D then CHR 0x0A else c) s)"

lemma one_line_kept: "one_line p \<Longrightarrow> map (\<lambda>c. if c = CHR 0x0D then CHR 0x0A else c) p = p"
  by (auto simp: one_line_def intro!: map_idI)

lemma reader_one: "one_line p \<Longrightarrow> reader_lines p = [p]"
  by (simp add: reader_lines_def one_line_kept split_on_no_char one_line_def)

lemma reader_append: "one_line p \<Longrightarrow> reader_lines (p @ crlf @ s) = p # [] # reader_lines s"
proof -
  assume p: "one_line p"
  have "CHR 0x0A \<notin> set p" using p by (simp add: one_line_def)
  moreover have "split_on (CHR 0x0A) (CHR 0x0A # t) = [] # split_on (CHR 0x0A) t" for t
    using split_on_append [of "CHR 0x0A" "[]" t] by simp
  ultimately show ?thesis
    by (simp add: reader_lines_def one_line_kept [OF p] crlf_def split_on_append)
qed

lemma reader_join:
  "ps \<noteq> [] \<Longrightarrow> \<forall>p \<in> set ps. one_line p \<Longrightarrow>
     filter is_candidate (reader_lines (join_with crlf ps)) = filter is_candidate ps
     \<and> set (reader_lines (join_with crlf ps)) \<subseteq> insert [] (set ps)"
proof (induction crlf ps rule: join_with.induct)
  case (3 p q ps)
  then show ?case by (auto simp: reader_append)
qed (simp_all add: reader_one)

definition connection_line :: "string \<Rightarrow> string" where
  "connection_line first = ''c=IN '' @ (if isIP first = 6 then ''IP6'' else ''IP4'') @ '' '' @ first"

definition rtcp_line :: "int \<Rightarrow> string \<Rightarrow> string" where
  "rtcp_line mediaPort first = ''a=rtcp:'' @ dec mediaPort @ '' IN '' @ (if isIP first = 6 then ''IP6'' else ''IP4'') @ '' '' @ first"

text \<open>A line's replacements are whole lines, and the connection and RTCP lines among them name the first address.\<close>

lemma relay_line_parts:
  assumes "one_line line" "ordered \<noteq> []" "\<forall>a \<in> set ordered. plain_word a" "l \<in> set (relay_line ordered mediaPort line)"
  shows "one_line l \<and> (starts_with l ''c='' \<longrightarrow> l = connection_line (hd ordered))
    \<and> (starts_with l ''a=rtcp:'' \<longrightarrow> l = rtcp_line mediaPort (hd ordered))"
proof -
  have first: "plain_word (hd ordered)" using assms(2,3) by simp
  have dec: "plain_word (dec n)" for n by (rule dec_plain_word)
  have cand: "one_line (candidate_line c) \<and> \<not> starts_with (candidate_line c) ''c='' \<and> \<not> starts_with (candidate_line c) ''a=rtcp:''"
    if "plain_word (cd_foundation c)" "plain_word (cd_component c)" "plain_word (cd_transport c)"
    "plain_word (cd_priority c)" "plain_word (cd_address c)" "plain_word (cd_port c)" "one_line (cd_rest c)" for c
    using that by (simp add: candidate_line_def plain_word_def one_line_def starts_with_def)
  have candidates: "one_line x \<and> \<not> starts_with x ''c='' \<and> \<not> starts_with x ''a=rtcp:''"
    if c: "host_candidate line = Some c" and x: "x \<in> set (relay_candidates ordered mediaPort c)" for c x
  proof -
    obtain k a where ka: "a \<in> set ordered" "x = candidate_line (c\<lparr>cd_foundation := cd_foundation c @ ''r'' @ index_key k,
         cd_priority := dec (number_in 10 (cd_priority c) - int k), cd_address := a, cd_port := dec mediaPort\<rparr>)"
      using x by (auto simp: relay_candidates_def dest: set_zip_rightD)
    show ?thesis unfolding ka(2)
      by (rule cand) (use host_candidate_parts [OF c] ka(1) assms(3) dec index_plain [of k] in \<open>simp_all add: plain_word_def\<close>)
  qed
  consider "starts_with line ''c=''" | "\<not> starts_with line ''c=''" "starts_with line ''a=rtcp:''"
    | "\<not> starts_with line ''c=''" "\<not> starts_with line ''a=rtcp:''" by blast
  then show ?thesis
  proof cases
    case 1
    then have l: "l = connection_line (hd ordered)" using assms(4) by (auto simp: relay_line_def connection_line_def Let_def)
    then have "one_line l" "\<not> starts_with l ''a=rtcp:''"
      using first by (auto simp: connection_line_def plain_word_def one_line_def starts_with_def)
    then show ?thesis using l by simp
  next
    case 2
    then have l: "l = rtcp_line mediaPort (hd ordered)" using assms(4) by (auto simp: relay_line_def rtcp_line_def Let_def)
    then have "one_line l" "\<not> starts_with l ''c=''"
      using first dec [of mediaPort] by (auto simp: rtcp_line_def plain_word_def one_line_def starts_with_def)
    then show ?thesis using l by simp
  next
    case 3
    then consider "l = line" | c where "host_candidate line = Some c" "l \<in> set (relay_candidates ordered mediaPort c)"
      using assms(4) by (auto simp: relay_line_def Let_def split: option.splits if_splits)
    then show ?thesis using 3 assms(1) candidates by cases blast+
  qed
qed

lemma announced_reader:
  assumes "validateRelayAnswer sdp = Inr (ufrag, pwd, port)" "announceRelay sdp addresses mediaPort = Inr answer"
    and "\<forall>line \<in> set (split_crlf sdp). one_line line"
  shows "filter is_candidate (reader_lines answer) = filter is_candidate (split_crlf answer)"
    and "\<forall>l \<in> set (reader_lines answer). (starts_with l ''c='' \<longrightarrow> l = connection_line (hd (ordered_addresses (usable_addresses addresses))))
      \<and> (starts_with l ''a=rtcp:'' \<longrightarrow> l = rtcp_line mediaPort (hd (ordered_addresses (usable_addresses addresses))))"
proof -
  define us where "us = ordered_addresses (usable_addresses addresses)"
  define ls where "ls = concat (map (relay_line us mediaPort) (split_crlf sdp))"
  have us: "usable_addresses addresses \<noteq> []" "answer = join_with crlf ls"
    using assms(2) by (auto simp: announceRelay_def Let_def us_def ls_def split: if_splits)
  have p: "us \<noteq> []" "\<forall>a \<in> set us. plain_word a"
  proof -
    have "isIP a = 4 \<or> isIP a = 6" if "isIP a \<noteq> 0" for a using that by (simp add: isIP_def split: if_splits)
    then have "set us = set (usable_addresses addresses)"
      using usable_plain(1) by (auto simp: us_def ordered_addresses_def)
    with us(1) usable_plain(2) show "us \<noteq> []" "\<forall>a \<in> set us. plain_word a" by auto
  qed
  have parts: "one_line l \<and> (starts_with l ''c='' \<longrightarrow> l = connection_line (hd us)) \<and> (starts_with l ''a=rtcp:'' \<longrightarrow> l = rtcp_line mediaPort (hd us))"
    if "l \<in> set ls" for l
    using that assms(3) relay_line_parts [OF _ p] unfolding ls_def by (auto simp del: starts_with_def)
  have free: "\<forall>l \<in> set ls. split_crlf l = [l]" using parts split_crlf_no_cr by (auto simp: one_line_def)
  have ne: "ls \<noteq> []"
  proof
    assume "ls = []"
    with us(2) announced_lines(1) [OF assms(1,2)] have "ordered_addresses (usable_addresses addresses) = []" by simp
    with p(1) show False by (simp add: us_def)
  qed
  have one: "\<forall>l \<in> set ls. one_line l" using parts by blast
  from reader_join [OF ne one] split_crlf_join [OF ne free]
  have r: "filter is_candidate (reader_lines answer) = filter is_candidate (split_crlf answer)"
    "set (reader_lines answer) \<subseteq> insert [] (set ls)" unfolding us(2) by simp_all
  show "filter is_candidate (reader_lines answer) = filter is_candidate (split_crlf answer)" by (rule r(1))
  have "\<not> starts_with [] ''c=''" "\<not> starts_with [] ''a=rtcp:''" by (simp_all add: starts_with_def)
  then show "\<forall>l \<in> set (reader_lines answer). (starts_with l ''c='' \<longrightarrow> l = connection_line (hd (ordered_addresses (usable_addresses addresses))))
      \<and> (starts_with l ''a=rtcp:'' \<longrightarrow> l = rtcp_line mediaPort (hd (ordered_addresses (usable_addresses addresses))))"
    using r(2) parts unfolding us_def by blast
qed

text \<open>
  C22: what a client is told in place of an accepted worker answer, whose lines all end in carriage return and line feed. However a
  reader finds its line ends, the candidates name exactly the usable addresses the client was to be told, IPv4 first, all with
  the relay's media port, and every connection or RTCP address line names the first of them: the worker's own
  loopback address and port are in none of these lines. (The checks do not see a bare line feed within a line of the
  worker; \<open>smuggled_candidate\<close> below shows an answer that gets a second candidate past them with one.)
\<close>

theorem relay_answer_announced:
  assumes "validateRelayAnswer sdp = Inr (ufrag, pwd, port)" "announceRelay sdp addresses mediaPort = Inr answer"
    and "\<forall>line \<in> set (split_crlf sdp). one_line line"
  shows "map address_word (filter is_candidate (reader_lines answer)) = map Some (ordered_addresses (usable_addresses addresses))
    \<and> (\<forall>line \<in> set (reader_lines answer). is_candidate line \<longrightarrow> split_on (CHR '' '') line ! 5 = dec mediaPort)
    \<and> (\<forall>line \<in> set (reader_lines answer).
          (starts_with line ''c='' \<longrightarrow> line = connection_line (hd (ordered_addresses (usable_addresses addresses))))
          \<and> (starts_with line ''a=rtcp:'' \<longrightarrow> line = rtcp_line mediaPort (hd (ordered_addresses (usable_addresses addresses)))))"
proof -
  note r = announced_reader [OF assms]
  have "split_on (CHR '' '') line ! 5 = dec mediaPort" if "line \<in> set (reader_lines answer)" "is_candidate line" for line
  proof -
    from that have "line \<in> set (filter is_candidate (reader_lines answer))" by simp
    then show ?thesis using announced_lines(2) [OF assms(1,2)] unfolding r(1) by simp
  qed
  moreover have "map address_word (filter is_candidate (reader_lines answer)) = map Some (ordered_addresses (usable_addresses addresses))"
    unfolding r(1) by (rule announced_lines(1) [OF assms(1,2)])
  ultimately show ?thesis using r(2) by blast
qed

definition sample_answer :: string where
  "sample_answer = join_with crlf [''v=0'', ''a=ice-ufrag:abcd'', ''a=ice-pwd:abcdefghijklmnopqrstuv'',
     ''a=candidate:1 1 udp 9 127.0.0.1 40000 typ host'', []]"

theorem relay_answer_announced_witness:
  "\<exists>answer. announceRelay sample_answer [''fd00::5'', ''192.168.1.5''] 8443 = Inr answer
     \<and> map address_word (filter is_candidate (reader_lines answer)) = [Some ''192.168.1.5'', Some ''fd00::5'']"
proof -
  have v: "validateRelayAnswer sample_answer = Inr (''abcd'', ''abcdefghijklmnopqrstuv'', 40000)" by code_simp
  have w: "\<forall>line \<in> set (split_crlf sample_answer). one_line line" by code_simp
  have o1: "map Some (ordered_addresses (usable_addresses [''fd00::5'', ''192.168.1.5''])) = [Some ''192.168.1.5'', Some ''fd00::5'']"
    by code_simp
  have "usable_addresses [''fd00::5'', ''192.168.1.5''] \<noteq> []" by code_simp
  then obtain answer where a: "announceRelay sample_answer [''fd00::5'', ''192.168.1.5''] 8443 = Inr answer"
    by (simp add: announceRelay_def)
  then show ?thesis using relay_answer_announced [OF v a w] o1 by auto
qed

text \<open>
  A line of an allowed kind that holds a bare line feed passes the check, and what follows the line feed reaches the browser
  as a line of its own: here a second candidate, with an address of the worker's choice.
\<close>

definition smuggling_answer :: string where
  "smuggling_answer = join_with crlf [''v=0'', ''s=-'' @ [CHR 0x0A] @ ''a=candidate:9 1 udp 9 10.0.0.9 9999 typ host'',
     ''a=ice-ufrag:abcd'', ''a=ice-pwd:abcdefghijklmnopqrstuv'', ''a=candidate:1 1 udp 9 127.0.0.1 40000 typ host'', []]"

lemma smuggled_candidate:
  "validateRelayAnswer smuggling_answer = Inr (''abcd'', ''abcdefghijklmnopqrstuv'', 40000)"
  "\<exists>answer. announceRelay smuggling_answer [''192.168.1.5''] 8443 = Inr answer
     \<and> ''a=candidate:9 1 udp 9 10.0.0.9 9999 typ host'' \<in> set (reader_lines answer)"
proof -
  show "validateRelayAnswer smuggling_answer = Inr (''abcd'', ''abcdefghijklmnopqrstuv'', 40000)" by code_simp
  have "(case announceRelay smuggling_answer [''192.168.1.5''] 8443 of
          Inr answer \<Rightarrow> ''a=candidate:9 1 udp 9 10.0.0.9 9999 typ host'' \<in> set (reader_lines answer) | Inl _ \<Rightarrow> False)" by code_simp
  then show "\<exists>answer. announceRelay smuggling_answer [''192.168.1.5''] 8443 = Inr answer
     \<and> ''a=candidate:9 1 udp 9 10.0.0.9 9999 typ host'' \<in> set (reader_lines answer)" by (auto split: sum.splits)
qed

end
