(* ===== verification/ApprovedClients.thy ===== *)
theory ApprovedClients
  imports Json PeerNetwork
begin

text \<open>
  \<^verbatim>\<open>apps/server/src/approved-clients.mjs\<close> and \<^verbatim>\<open>approved-client-permission.mjs\<close>: the browsers the owner has
  approved, with their requests, claims, sign-ins and removal. Changes of the list run one after another from
  a queue; each sweeps first and waits for its writes, and sign-ins and requests wait for a password to be
  derived. Every part between two waits is one step, and any other calls may come between. The SHA-256
  digest, drawn ids and secrets, clock readings, the outcomes of writes and of derivations are arguments.
\<close>

section \<open>The list\<close>

definition CLAIM_TTL_MS :: int where "CLAIM_TTL_MS = 600000"
definition MAX_PENDING :: nat where "MAX_PENDING = 64"

definition CLIENT_PERMISSIONS :: "string list" where
  "CLIENT_PERMISSIONS = [''default'', ''approval'', ''available'', ''view-only'']"

definition LEGACY_PERMISSIONS :: "(string, string) jmap" where
  "LEGACY_PERMISSIONS = [(''request-control'', ''approval'')]"

text \<open>\<^verbatim>\<open>text(value, name, { min, max })\<close>: the trimmed text.\<close>

definition client_text :: "json option \<Rightarrow> string \<Rightarrow> nat \<Rightarrow> nat \<Rightarrow> string result" where
  "client_text v name least most =
     (case v of
        Some (JStr s) \<Rightarrow>
          if length (js_trim s) < least \<or> most < length s \<or> (\<exists>c \<in> set s. code c < 32 \<or> code c = 127)
          then Inl (''Invalid '' @ name) else Inr (js_trim s)
      | _ \<Rightarrow> Inl (''Invalid '' @ name))"

text \<open>
  The permission a row of the file gets. A permission of another type than a string is \<open>default\<close>, as is
  one that is not known.
\<close>

definition read_permission :: "json option \<Rightarrow> json" where
  "read_permission v =
     (let p = (case v of Some (JStr s) \<Rightarrow> (case jget LEGACY_PERMISSIONS s of Some q \<Rightarrow> q | None \<Rightarrow> s) | _ \<Rightarrow> [])
      in JStr (if p \<in> set CLIENT_PERMISSIONS then p else ''default''))"

definition row_shape :: "json \<Rightarrow> bool" where
  "row_shape row \<longleftrightarrow> is_object_like row \<and> is_str (jfield ''secretHash'' row)
     \<and> (case jfield ''password'' row of
          Some pw \<Rightarrow> is_str (jfield ''salt'' pw) \<and> is_str (jfield ''hash'' pw)
        | None \<Rightarrow> False)"

fun validate_rows :: "json list \<Rightarrow> json list result" where
  "validate_rows [] = Inr []"
| "validate_rows (row # rows) =
     (if \<not> row_shape row then Inl ''Invalid approved client''
      else (case validate_rows rows of
              Inl e \<Rightarrow> Inl e
            | Inr rest \<Rightarrow> Inr (put_field ''permission'' (read_permission (jfield ''permission'' row)) row # rest)))"

definition validate_clients :: "json \<Rightarrow> json list result" where
  "validate_clients v =
     (case (jfield ''version'' v, jfield ''clients'' v) of
        (Some (JInt version), Some (JArr rows)) \<Rightarrow>
          if version = 1 then validate_rows rows else Inl ''Invalid approved clients''
      | _ \<Rightarrow> Inl ''Invalid approved clients'')"

section \<open>State\<close>

text \<open>A row of the list: the fields that the class writes.\<close>

record client_row =
  cl_id :: string
  cl_deviceName :: string
  cl_username :: string
  cl_installationId :: string
  cl_client :: string
  cl_network :: string
  cl_permission :: string
  cl_createdAt :: int
  cl_lastConnectedAt :: "int option"
  cl_salt :: string
  cl_hash :: string
  cl_secretHash :: string

definition client_of :: "json \<Rightarrow> client_row" where
  "client_of v =
     (let s = (\<lambda>key. str_of (jfield key v)); pw = jfield ''password'' v
      in \<lparr>cl_id = s ''id'', cl_deviceName = s ''deviceName'', cl_username = s ''username'', cl_installationId = s ''installationId'',
          cl_client = s ''client'', cl_network = s ''network'', cl_permission = s ''permission'',
          cl_createdAt = int_of (jfield ''createdAt'' v),
          cl_lastConnectedAt = (case jfield ''lastConnectedAt'' v of Some (JInt n) \<Rightarrow> Some n | _ \<Rightarrow> None),
          cl_salt = (case pw of Some p \<Rightarrow> str_of (jfield ''salt'' p) | None \<Rightarrow> []),
          cl_hash = (case pw of Some p \<Rightarrow> str_of (jfield ''hash'' p) | None \<Rightarrow> []), cl_secretHash = s ''secretHash''\<rparr>)"

datatype request_state = Waiting | Approved | Rejected

record client_request =
  rq_deviceName :: string
  rq_username :: string
  rq_installationId :: string
  rq_client :: string
  rq_network :: string
  rq_password :: "(string \<times> string) option"
  rq_claimHash :: string
  rq_requestedAt :: int
  rq_state :: request_state
  rq_clientId :: "string option"
  rq_clientSecret :: "string option"
  rq_claimed :: bool

record ticket =
  tk_expiresAt :: int
  tk_inUse :: bool

datatype denial = Removed | Downgraded

datatype client_op = Approve_Op string | Connected_Op string nat | Remove_Op string | Permission_Op string string nat | Sweep_Op

datatype op_phase = No_Op | Sweeping client_op "string list" | Writing client_op "(string \<times> string) option"

text \<open>A sign-in and a request that wait for a derivation.\<close>

record login =
  lg_row :: client_row
  lg_generation :: nat
  lg_attemptKey :: string
  lg_attempts :: "int list"
  lg_now :: int

record submission =
  sb_ticketKey :: string
  sb_expiresAt :: int
  sb_texts :: "string \<times> string \<times> string \<times> string \<times> string"

record approved_store =
  ac_clients :: "client_row list"
  ac_pending :: "(string, client_request) jmap"
  ac_tickets :: "(string, ticket) jmap"
  ac_submissions :: "(nat, submission) jmap"
  ac_attempts :: "(string, int list) jmap"
  ac_generations :: "(string, nat) jmap"
  ac_denied :: "(string, denial) jmap"
  ac_queue :: "client_op list"
  ac_phase :: op_phase
  ac_logins :: "(nat, login) jmap"
  ac_maxAttempts :: nat
  ac_windowMs :: int

definition open_store :: "client_row list \<Rightarrow> nat \<Rightarrow> int \<Rightarrow> approved_store" where
  "open_store clients maxAttempts windowMs =
     \<lparr>ac_clients = clients, ac_pending = [], ac_tickets = [], ac_submissions = [], ac_attempts = [], ac_generations = [], ac_denied = [],
      ac_queue = [], ac_phase = No_Op, ac_logins = [], ac_maxAttempts = maxAttempts, ac_windowMs = windowMs\<rparr>"

section \<open>Authorization\<close>

record authorization =
  au_id :: string
  au_generation :: nat
  au_permission :: string

definition request_expired :: "int \<Rightarrow> client_request \<Rightarrow> bool" where
  "request_expired now r \<longleftrightarrow> rq_requestedAt r + CLAIM_TTL_MS \<le> now"

definition expiredUnclaimed :: "int \<Rightarrow> string \<Rightarrow> approved_store \<Rightarrow> bool" where
  "expiredUnclaimed now clientId s \<longleftrightarrow>
     (\<exists>r \<in> set (jvals (ac_pending s)). rq_clientId r = Some clientId \<and> \<not> rq_claimed r \<and> request_expired now r)"

definition generation_of :: "string \<Rightarrow> approved_store \<Rightarrow> nat" where
  "generation_of clientId s = (case jget (ac_generations s) clientId of Some g \<Rightarrow> g | None \<Rightarrow> 0)"

definition find_client :: "string \<Rightarrow> approved_store \<Rightarrow> client_row option" where
  "find_client clientId s = find (\<lambda>row. cl_id row = clientId) (ac_clients s)"

definition authorize :: "int \<Rightarrow> string \<Rightarrow> approved_store \<Rightarrow> authorization option" where
  "authorize now clientId s =
     (if jhas (ac_denied s) clientId \<or> expiredUnclaimed now clientId s then None
      else map_option (\<lambda>row. \<lparr>au_id = cl_id row, au_generation = generation_of clientId s, au_permission = cl_permission row\<rparr>)
             (find_client clientId s))"

definition still_authorized :: "int \<Rightarrow> string \<Rightarrow> nat \<Rightarrow> approved_store \<Rightarrow> bool" where
  "still_authorized now clientId generation s \<longleftrightarrow>
     (case authorize now clientId s of Some a \<Rightarrow> au_generation a = generation | None \<Rightarrow> False)"

definition client_permission :: "int \<Rightarrow> string \<Rightarrow> approved_store \<Rightarrow> string option" where
  "client_permission now clientId s = map_option au_permission (authorize now clientId s)"

definition effectivePermission :: "authorization option \<Rightarrow> string \<Rightarrow> string" where
  "effectivePermission a accessDefault =
     (case a of None \<Rightarrow> ''view-only'' | Some x \<Rightarrow> if au_permission x = ''default'' then accessDefault else au_permission x)"

definition invalidate :: "string \<Rightarrow> denial \<Rightarrow> approved_store \<Rightarrow> nat result \<times> approved_store" where
  "invalidate clientId kind s =
     (if find_client clientId s = None then (Inl ''Unknown approved client'', s)
      else (let g = generation_of clientId s + 1
            in (Inr g, s\<lparr>ac_generations := jset clientId g (ac_generations s),
                  ac_denied := jset clientId (if jget (ac_denied s) clientId = Some Removed then Removed else kind) (ac_denied s)\<rparr>)))"

section \<open>Requests\<close>

definition issue_ticket :: "(string \<Rightarrow> string) \<Rightarrow> int \<Rightarrow> string \<Rightarrow> approved_store \<Rightarrow> (string \<times> int) result \<times> approved_store" where
  "issue_ticket digest now drawn s =
     (let tickets = jkeep (\<lambda>_ t. now < tk_expiresAt t) (ac_tickets s); s = s\<lparr>ac_tickets := tickets\<rparr>
      in if MAX_PENDING \<le> length tickets then (Inl ''Registration ticket limit reached'', s)
         else (Inr (drawn, now + CLAIM_TTL_MS),
               s\<lparr>ac_tickets := jset (digest drawn) \<lparr>tk_expiresAt = now + CLAIM_TTL_MS, tk_inUse = False\<rparr> tickets\<rparr>))"

definition live_requests :: "int \<Rightarrow> approved_store \<Rightarrow> nat" where
  "live_requests now s = length (filter (\<lambda>r. \<not> request_expired now r) (jvals (ac_pending s)))"

definition network_text :: "json option \<Rightarrow> string result" where
  "network_text v = (case v of Some (JStr _) \<Rightarrow> client_text v ''network'' 0 120 | _ \<Rightarrow> Inr [])"

definition request_texts :: "json \<Rightarrow> (string \<times> string \<times> string \<times> string \<times> string) result" where
  "request_texts input =
     (case client_text (jfield ''deviceName'' input) ''device name'' 1 120 of Inl e \<Rightarrow> Inl e | Inr d \<Rightarrow>
     (case client_text (jfield ''username'' input) ''username'' 1 64 of Inl e \<Rightarrow> Inl e | Inr u \<Rightarrow>
     (case client_text (jfield ''installationId'' input) ''installation ID'' 1 128 of Inl e \<Rightarrow> Inl e | Inr i \<Rightarrow>
     (case client_text (jfield ''client'' input) ''client'' 1 120 of Inl e \<Rightarrow> Inl e | Inr c \<Rightarrow>
     (case network_text (jfield ''network'' input) of Inl e \<Rightarrow> Inl e | Inr n \<Rightarrow> Inr (d, u, i, c, n))))))"

text \<open>
  \<^verbatim>\<open>submit\<close> from the end of the sweep it waits for to the derivation; \<open>n\<close> names the call while it waits.
\<close>

definition begin_submit ::
  "(string \<Rightarrow> string) \<Rightarrow> int \<Rightarrow> nat \<Rightarrow> string \<Rightarrow> json \<Rightarrow> approved_store \<Rightarrow> string option \<times> approved_store" where
  "begin_submit digest now n registrationTicket input s =
     (if MAX_PENDING \<le> live_requests now s + length (ac_submissions s) then (Some ''Too many pending client requests'', s)
      else (case jget (ac_tickets s) (digest registrationTicket) of
          None \<Rightarrow> (Some ''Invalid registration ticket'', s)
        | Some t \<Rightarrow>
            if tk_expiresAt t \<le> now \<or> tk_inUse t \<or> jhas (ac_submissions s) n then (Some ''Invalid registration ticket'', s)
            else (case request_texts input of
                Inl e \<Rightarrow> (Some e, s)
              | Inr texts \<Rightarrow>
                  (None, s\<lparr>ac_tickets := jset (digest registrationTicket) (t\<lparr>tk_inUse := True\<rparr>) (ac_tickets s),
                     ac_submissions := jset n \<lparr>sb_ticketKey = digest registrationTicket, sb_expiresAt = tk_expiresAt t,
                         sb_texts = texts\<rparr> (ac_submissions s)\<rparr>))))"

definition release_ticket :: "string \<Rightarrow> approved_store \<Rightarrow> approved_store" where
  "release_ticket key s =
     (case jget (ac_tickets s) key of
        None \<Rightarrow> s
      | Some t \<Rightarrow> s\<lparr>ac_tickets := jset key (t\<lparr>tk_inUse := False\<rparr>) (ac_tickets s)\<rparr>)"

text \<open>The rest, with the password's salt and hash, or the derivation's error.\<close>

definition end_submit ::
  "(string \<Rightarrow> string) \<Rightarrow> int \<Rightarrow> nat \<Rightarrow> string + (string \<times> string) \<Rightarrow> string \<Rightarrow> string \<Rightarrow> approved_store
     \<Rightarrow> (string \<times> string) result \<times> approved_store" where
  "end_submit digest now n derived requestId claimToken s =
     (case jget (ac_submissions s) n of
        None \<Rightarrow> (Inl [], s)
      | Some sb \<Rightarrow>
          (let s = s\<lparr>ac_submissions := jdel n (ac_submissions s)\<rparr>
           in case derived of
                Inl e \<Rightarrow> (Inl e, release_ticket (sb_ticketKey sb) s)
              | Inr pw \<Rightarrow>
                  if sb_expiresAt sb \<le> now then (Inl ''Invalid registration ticket'', release_ticket (sb_ticketKey sb) s)
                  else (case sb_texts sb of
                      (d, u, i, c, net) \<Rightarrow>
                        (Inr (requestId, claimToken),
                         s\<lparr>ac_tickets := jdel (sb_ticketKey sb) (ac_tickets s),
                           ac_pending := jset requestId \<lparr>rq_deviceName = d, rq_username = u, rq_installationId = i, rq_client = c,
                               rq_network = net, rq_password = Some pw, rq_claimHash = digest claimToken, rq_requestedAt = now,
                               rq_state = Waiting, rq_clientId = None, rq_clientSecret = None, rq_claimed = False\<rparr> (ac_pending s)\<rparr>))))"

datatype claim_answer = Claim_Invalid | Claim_Pending | Claim_Rejected | Claim_Done | Claim_Secret "string option" "string option" string

definition registrationStatus ::
  "(string \<Rightarrow> string) \<Rightarrow> int \<Rightarrow> string \<Rightarrow> string \<Rightarrow> approved_store \<Rightarrow> claim_answer \<times> approved_store" where
  "registrationStatus digest now requestId claimToken s =
     (case jget (ac_pending s) requestId of
        None \<Rightarrow> (Claim_Invalid, s)
      | Some r \<Rightarrow>
          if request_expired now r \<or> rq_claimHash r \<noteq> digest claimToken then (Claim_Invalid, s)
          else (case rq_state r of
              Waiting \<Rightarrow> (Claim_Pending, s)
            | Rejected \<Rightarrow> (Claim_Rejected, s)
            | Approved \<Rightarrow>
                if rq_claimed r then (Claim_Done, s)
                else (Claim_Secret (rq_clientId r) (rq_clientSecret r) (rq_username r),
                      s\<lparr>ac_pending := jset requestId (r\<lparr>rq_claimed := True, rq_clientSecret := None\<rparr>) (ac_pending s)\<rparr>)))"

definition reject_request :: "int \<Rightarrow> string \<Rightarrow> approved_store \<Rightarrow> string option \<times> approved_store" where
  "reject_request now requestId s =
     (case jget (ac_pending s) requestId of
        None \<Rightarrow> (Some ''Unknown pending client'', s)
      | Some r \<Rightarrow>
          if request_expired now r \<or> rq_state r \<noteq> Waiting then (Some ''Unknown pending client'', s)
          else (None, s\<lparr>ac_pending := jset requestId (r\<lparr>rq_state := Rejected, rq_password := None\<rparr>) (ac_pending s)\<rparr>))"

section \<open>Changes of the list\<close>

definition enqueue_op :: "client_op \<Rightarrow> approved_store \<Rightarrow> approved_store" where
  "enqueue_op c s = s\<lparr>ac_queue := ac_queue s @ [c]\<rparr>"

definition call_remove :: "string \<Rightarrow> approved_store \<Rightarrow> string option \<times> approved_store" where
  "call_remove clientId s =
     (case invalidate clientId Removed s of
        (Inl e, s) \<Rightarrow> (Some e, s)
      | (Inr _, s) \<Rightarrow> (None, enqueue_op (Remove_Op clientId) s))"

definition call_setPermission :: "string \<Rightarrow> string \<Rightarrow> approved_store \<Rightarrow> string option \<times> approved_store" where
  "call_setPermission clientId permission s =
     (if permission \<notin> set CLIENT_PERMISSIONS then (Some ''Invalid client permission'', s)
      else if jget (ac_denied s) clientId = Some Removed then (Some ''Approved client is being removed'', s)
      else (case invalidate clientId Downgraded s of
          (Inl e, s) \<Rightarrow> (Some e, s)
        | (Inr g, s) \<Rightarrow> (None, enqueue_op (Permission_Op clientId permission g) s)))"

definition unclaimed_clients :: "int \<Rightarrow> approved_store \<Rightarrow> string list" where
  "unclaimed_clients now s =
     concat (map (\<lambda>r. if request_expired now r \<and> rq_state r = Approved \<and> \<not> rq_claimed r
                      then (case rq_clientId r of Some c \<Rightarrow> [c] | None \<Rightarrow> []) else []) (jvals (ac_pending s)))"

definition expired_requests :: "int \<Rightarrow> approved_store \<Rightarrow> string list" where
  "expired_requests now s = jkeys (jkeep (\<lambda>_ r. request_expired now r) (ac_pending s))"

definition end_sweep :: "int \<Rightarrow> string list \<Rightarrow> approved_store \<Rightarrow> approved_store" where
  "end_sweep now expired s =
     s\<lparr>ac_pending := jkeep (\<lambda>requestId _. requestId \<notin> set expired) (ac_pending s),
       ac_tickets := jkeep (\<lambda>_ t. now < tk_expiresAt t) (ac_tickets s)\<rparr>"

text \<open>
  What an operation does after its sweep, up to its write. \<open>secret\<close> and \<open>drawn\<close> are what an approval draws;
  they stay with it while it writes.
\<close>

definition op_body ::
  "(string \<Rightarrow> string) \<Rightarrow> int \<Rightarrow> string \<Rightarrow> string \<Rightarrow> client_op \<Rightarrow> approved_store \<Rightarrow> string option \<times> approved_store" where
  "op_body digest now secret drawn c s =
     (case c of
        Sweep_Op \<Rightarrow> (None, s)
      | Approve_Op requestId \<Rightarrow>
          (case jget (ac_pending s) requestId of
             None \<Rightarrow> (Some ''Unknown pending client'', s)
           | Some r \<Rightarrow>
               if rq_state r \<noteq> Waiting then (Some ''Unknown pending client'', s)
               else (None, s\<lparr>ac_clients := ac_clients s @ [\<lparr>cl_id = drawn, cl_deviceName = rq_deviceName r, cl_username = rq_username r,
                        cl_installationId = rq_installationId r, cl_client = rq_client r, cl_network = rq_network r,
                        cl_permission = ''default'', cl_createdAt = now, cl_lastConnectedAt = None,
                        cl_salt = (case rq_password r of Some pw \<Rightarrow> fst pw | None \<Rightarrow> []),
                        cl_hash = (case rq_password r of Some pw \<Rightarrow> snd pw | None \<Rightarrow> []), cl_secretHash = digest secret\<rparr>],
                      ac_phase := Writing c (Some (secret, drawn))\<rparr>))
      | Connected_Op clientId generation \<Rightarrow>
          if \<not> still_authorized now clientId generation s then (Some ''Stale approved-client authorization'', s)
          else (None, s\<lparr>ac_clients := map (\<lambda>row. if Some row = find_client clientId s then row\<lparr>cl_lastConnectedAt := Some now\<rparr> else row)
                   (ac_clients s), ac_phase := Writing c None\<rparr>)
      | Remove_Op clientId \<Rightarrow>
          (let kept = filter (\<lambda>row. cl_id row \<noteq> clientId) (ac_clients s); changed = s\<lparr>ac_clients := kept\<rparr>
           in if length kept = length (ac_clients s) then (Some ''Unknown approved client'', changed)
              else (None, changed\<lparr>ac_phase := Writing c None\<rparr>))
      | Permission_Op clientId permission generation \<Rightarrow>
          if find_client clientId s = None then (Some ''Unknown approved client'', s)
          else (None, s\<lparr>ac_clients := map (\<lambda>row. if Some row = find_client clientId s then row\<lparr>cl_permission := permission\<rparr> else row)
                   (ac_clients s), ac_phase := Writing c None\<rparr>))"

text \<open>The operation at the head of the queue starts; a sweep that removes a client writes first.\<close>

definition begin_op :: "(string \<Rightarrow> string) \<Rightarrow> int \<Rightarrow> string \<Rightarrow> string \<Rightarrow> approved_store \<Rightarrow> string option \<times> approved_store" where
  "begin_op digest now secret drawn s =
     (case (ac_phase s, ac_queue s) of
        (No_Op, c # queue) \<Rightarrow>
          (let s = s\<lparr>ac_queue := queue\<rparr>; expired = expired_requests now s; unclaimed = unclaimed_clients now s
           in if unclaimed \<noteq> []
              then (None, s\<lparr>ac_clients := filter (\<lambda>row. cl_id row \<notin> set unclaimed) (ac_clients s), ac_phase := Sweeping c expired\<rparr>)
              else op_body digest now secret drawn c (end_sweep now expired s))
      | _ \<Rightarrow> (None, s))"

text \<open>What follows the write of an operation.\<close>

definition after_write :: "int \<Rightarrow> client_op \<Rightarrow> (string \<times> string) option \<Rightarrow> approved_store \<Rightarrow> string option \<times> approved_store" where
  "after_write now c drawn s =
     (case c of
        Sweep_Op \<Rightarrow> (None, s)
      | Approve_Op requestId \<Rightarrow>
          (case (jget (ac_pending s) requestId, drawn) of
             (Some r, Some (secret, clientId)) \<Rightarrow>
               (None, s\<lparr>ac_pending := jset requestId (r\<lparr>rq_state := Approved, rq_clientId := Some clientId,
                         rq_clientSecret := Some secret\<rparr>) (ac_pending s)\<rparr>)
           | _ \<Rightarrow> (None, s))
      | Connected_Op clientId generation \<Rightarrow>
          ((if still_authorized now clientId generation s then None else Some ''Stale approved-client authorization''), s)
      | Remove_Op clientId \<Rightarrow> (None, s\<lparr>ac_pending := jkeep (\<lambda>_ r. rq_clientId r \<noteq> Some clientId) (ac_pending s)\<rparr>)
      | Permission_Op clientId permission generation \<Rightarrow>
          (None, if generation_of clientId s = generation \<and> jget (ac_denied s) clientId \<noteq> Some Removed
                 then s\<lparr>ac_denied := jdel clientId (ac_denied s)\<rparr> else s))"

text \<open>The write that is under way ends. A write that failed ends the operation, and leaves the list as it was changed.\<close>

definition end_write ::
  "(string \<Rightarrow> string) \<Rightarrow> bool \<Rightarrow> int \<Rightarrow> string \<Rightarrow> string \<Rightarrow> approved_store \<Rightarrow> string option \<times> approved_store" where
  "end_write digest written now secret drawn s =
     (case ac_phase s of
        No_Op \<Rightarrow> (None, s)
      | Sweeping c expired \<Rightarrow>
          if written then op_body digest now secret drawn c (end_sweep now expired (s\<lparr>ac_phase := No_Op\<rparr>))
          else (Some ''write failed'', s\<lparr>ac_phase := No_Op\<rparr>)
      | Writing c kept \<Rightarrow>
          if written then after_write now c kept (s\<lparr>ac_phase := No_Op\<rparr>)
          else (Some ''write failed'', s\<lparr>ac_phase := No_Op\<rparr>))"

section \<open>Sign-in\<close>

definition attempt_key :: "string \<Rightarrow> string \<Rightarrow> string" where
  "attempt_key clientId clientKey = take 128 clientId @ '':'' @ sourceGroup (Some clientKey)"

definition count_attempt :: "string \<Rightarrow> int list \<Rightarrow> approved_store \<Rightarrow> approved_store" where
  "count_attempt key attempts s = s\<lparr>ac_attempts := jset key attempts (ac_attempts s)\<rparr>"

text \<open>\<^verbatim>\<open>authenticate\<close> up to the derivation: whether it goes on, as the call \<open>n\<close>.\<close>

definition begin_login ::
  "(string \<Rightarrow> string) \<Rightarrow> int \<Rightarrow> nat \<Rightarrow> string \<Rightarrow> string \<Rightarrow> string \<Rightarrow> string \<Rightarrow> approved_store \<Rightarrow> bool \<times> approved_store" where
  "begin_login digest now n clientId username clientSecret clientKey s =
     (if expiredUnclaimed now clientId s \<or> jhas (ac_logins s) n then (False, s)
      else (let key = attempt_key clientId clientKey;
                s = s\<lparr>ac_attempts := jevict 1024 key (ac_attempts s)\<rparr>;
                attempts = recent (case jget (ac_attempts s) key of Some ts \<Rightarrow> ts | None \<Rightarrow> []) now (ac_windowMs s)
            in if ac_maxAttempts s \<le> length attempts then (False, count_attempt key attempts s)
               else (case (find (\<lambda>row. cl_id row = clientId \<and> cl_username row = username) (ac_clients s), authorize now clientId s) of
                   (Some row, Some a) \<Rightarrow>
                     if cl_secretHash row \<noteq> digest clientSecret then (False, count_attempt key (attempts @ [now]) s)
                     else (True, s\<lparr>ac_logins := jset n \<lparr>lg_row = row, lg_generation = au_generation a, lg_attemptKey = key,
                                 lg_attempts = attempts, lg_now = now\<rparr> (ac_logins s)\<rparr>)
                 | _ \<Rightarrow> (False, count_attempt key (attempts @ [now]) s))))"

text \<open>The derivation: busy, which is thrown, another error, or a hash.\<close>

datatype derivation = Busy | Failed_Derivation | Derived string

definition end_login :: "int \<Rightarrow> nat \<Rightarrow> derivation \<Rightarrow> approved_store \<Rightarrow> (string \<times> nat) option \<times> approved_store" where
  "end_login now n d s =
     (case jget (ac_logins s) n of
        None \<Rightarrow> (None, s)
      | Some l \<Rightarrow>
          (let s = s\<lparr>ac_logins := jdel n (ac_logins s)\<rparr>
           in if d = Busy then (None, s)
              else if d \<noteq> Derived (cl_hash (lg_row l)) \<or> \<not> still_authorized now (cl_id (lg_row l)) (lg_generation l) s
              then (None, count_attempt (lg_attemptKey l) (lg_attempts l @ [lg_now l]) s)
              else (Some (cl_id (lg_row l), lg_generation l), s\<lparr>ac_attempts := jdel (lg_attemptKey l) (ac_attempts s)\<rparr>)))"

section \<open>The owner's view\<close>

record shown_request =
  sh_id :: string
  sh_deviceName :: string
  sh_username :: string
  sh_client :: string
  sh_network :: string
  sh_requestedAt :: int

record shown_client =
  sc_id :: string
  sc_deviceName :: string
  sc_username :: string
  sc_client :: string
  sc_network :: string
  sc_connected :: bool
  sc_permission :: string
  sc_lastConnectedAt :: "int option"

definition clients_status :: "int \<Rightarrow> string option list \<Rightarrow> approved_store \<Rightarrow> shown_request list \<times> shown_client list" where
  "clients_status now sessions s =
     (map (\<lambda>(requestId, r). \<lparr>sh_id = requestId, sh_deviceName = rq_deviceName r, sh_username = rq_username r, sh_client = rq_client r,
              sh_network = rq_network r, sh_requestedAt = rq_requestedAt r\<rparr>)
        (jkeep (\<lambda>_ r. rq_state r = Waiting \<and> \<not> request_expired now r) (ac_pending s)),
      map (\<lambda>row. \<lparr>sc_id = cl_id row, sc_deviceName = cl_deviceName row, sc_username = cl_username row, sc_client = cl_client row,
              sc_network = cl_network row, sc_connected = (Some (cl_id row) \<in> set sessions), sc_permission = cl_permission row,
              sc_lastConnectedAt = cl_lastConnectedAt row\<rparr>)
        (filter (\<lambda>row. \<not> expiredUnclaimed now (cl_id row) s) (ac_clients s)))"

section \<open>Calls in any order\<close>

text \<open>Every event carries the readings of the clock and the drawn values that its code uses.\<close>

datatype client_event =
    Issue_Ticket int string
  | Begin_Submit int nat string json
  | End_Submit int nat "string + (string \<times> string)" string string
  | Claim int string string
  | Reject int string
  | Call_Remove string
  | Call_Permission string string
  | Call_Op client_op
  | Begin_Op int string string
  | End_Write bool int string string
  | Begin_Login int nat string string string string
  | End_Login int nat derivation

fun client_step :: "(string \<Rightarrow> string) \<Rightarrow> approved_store \<Rightarrow> client_event \<Rightarrow> approved_store" where
  "client_step digest s (Issue_Ticket now drawn) = snd (issue_ticket digest now drawn s)"
| "client_step digest s (Begin_Submit now n token input) = snd (begin_submit digest now n token input s)"
| "client_step digest s (End_Submit now n derived requestId token) = snd (end_submit digest now n derived requestId token s)"
| "client_step digest s (Claim now requestId token) = snd (registrationStatus digest now requestId token s)"
| "client_step digest s (Reject now requestId) = snd (reject_request now requestId s)"
| "client_step digest s (Call_Remove clientId) = snd (call_remove clientId s)"
| "client_step digest s (Call_Permission clientId permission) = snd (call_setPermission clientId permission s)"
| "client_step digest s (Call_Op c) = enqueue_op c s"
| "client_step digest s (Begin_Op now secret drawn) = snd (begin_op digest now secret drawn s)"
| "client_step digest s (End_Write written now secret drawn) = snd (end_write digest written now secret drawn s)"
| "client_step digest s (Begin_Login now n clientId username secret key) =
     snd (begin_login digest now n clientId username secret key s)"
| "client_step digest s (End_Login now n d) = snd (end_login now n d s)"

section \<open>Lemmas\<close>

lemmas op_defs = begin_op_def end_write_def op_body_def after_write_def end_sweep_def Let_def
lemmas request_defs = issue_ticket_def begin_submit_def end_submit_def release_ticket_def registrationStatus_def reject_request_def Let_def
lemmas call_defs = call_remove_def call_setPermission_def invalidate_def enqueue_op_def Let_def
lemmas login_defs = begin_login_def end_login_def count_attempt_def Let_def
lemmas client_splits = option.splits sum.splits prod.splits client_op.splits op_phase.splits list.splits request_state.splits if_splits

text \<open>A generation never decreases, and a removal stays.\<close>

definition moved_on :: "string \<Rightarrow> nat \<Rightarrow> bool \<Rightarrow> approved_store \<Rightarrow> bool" where
  "moved_on clientId g removed s \<longleftrightarrow>
     g \<le> generation_of clientId s \<and> (removed \<longrightarrow> jget (ac_denied s) clientId = Some Removed)"

lemma moved_on_same:
  "ac_generations s' = ac_generations s \<Longrightarrow> ac_denied s' = ac_denied s \<Longrightarrow> moved_on c g r s' = moved_on c g r s"
  by (simp add: moved_on_def generation_of_def)

lemma moved_on_invalidate:
  "moved_on c g r s \<Longrightarrow> moved_on c g r (snd (invalidate clientId kind s))"
  by (auto simp: moved_on_def invalidate_def generation_of_def Let_def split: option.splits)

lemma op_body_fixes [simp]:
  "ac_generations (snd (op_body digest now secret drawn c s)) = ac_generations s"
  "ac_denied (snd (op_body digest now secret drawn c s)) = ac_denied s"
  by (auto simp: op_body_def Let_def split: client_splits)

lemma end_sweep_fixes [simp]:
  "ac_generations (end_sweep now expired s) = ac_generations s" "ac_denied (end_sweep now expired s) = ac_denied s"
  by (simp_all add: end_sweep_def)

lemma moved_on_after_write: "moved_on c g r s \<Longrightarrow> moved_on c g r (snd (after_write now op drawn s))"
  by (auto simp: moved_on_def after_write_def generation_of_def split: client_splits)

lemma request_fixes [simp]:
  "ac_generations (snd (issue_ticket digest now drawn s)) = ac_generations s"
  "ac_denied (snd (issue_ticket digest now drawn s)) = ac_denied s"
  "ac_generations (snd (begin_submit digest now n token input s)) = ac_generations s"
  "ac_denied (snd (begin_submit digest now n token input s)) = ac_denied s"
  "ac_generations (snd (end_submit digest now n derived requestId token s)) = ac_generations s"
  "ac_denied (snd (end_submit digest now n derived requestId token s)) = ac_denied s"
  "ac_generations (snd (registrationStatus digest now requestId token s)) = ac_generations s"
  "ac_denied (snd (registrationStatus digest now requestId token s)) = ac_denied s"
  "ac_generations (snd (reject_request now requestId s)) = ac_generations s"
  "ac_denied (snd (reject_request now requestId s)) = ac_denied s"
  by (auto simp: request_defs split: client_splits)

lemma login_fixes [simp]:
  "ac_generations (snd (begin_login digest now n clientId username secret key s)) = ac_generations s"
  "ac_denied (snd (begin_login digest now n clientId username secret key s)) = ac_denied s"
  "ac_generations (snd (end_login now n d s)) = ac_generations s"
  "ac_denied (snd (end_login now n d s)) = ac_denied s"
  by (auto simp: login_defs split: client_splits)

lemma moved_on_begin_op: "moved_on c g r s \<Longrightarrow> moved_on c g r (snd (begin_op digest now secret drawn s))"
  by (erule subst [OF moved_on_same, rotated 2]) (auto simp: begin_op_def Let_def split: op_phase.splits list.splits)

lemma moved_on_end_write: "moved_on c g r s \<Longrightarrow> moved_on c g r (snd (end_write digest written now secret drawn s))"
proof -
  assume moved: "moved_on c g r s"
  have "moved_on c g r (s\<lparr>ac_phase := No_Op\<rparr>)" using moved by (simp add: moved_on_def generation_of_def)
  from moved this moved_on_after_write [OF this] show ?thesis
    by (cases "ac_phase s") (auto simp: end_write_def moved_on_def generation_of_def)
qed

lemma moved_on_step: "moved_on c g r s \<Longrightarrow> moved_on c g r (client_step digest s e)"
proof (cases e)
  case (Call_Remove x)
  assume "moved_on c g r s"
  from moved_on_invalidate [OF this, of x Removed] Call_Remove show ?thesis
    by (auto simp: call_remove_def enqueue_op_def moved_on_def generation_of_def split: prod.splits sum.splits)
next
  case (Call_Permission x p)
  assume moved: "moved_on c g r s"
  from moved_on_invalidate [OF this, of x Downgraded] moved Call_Permission show ?thesis
    by (auto simp: call_setPermission_def enqueue_op_def moved_on_def generation_of_def split: prod.splits sum.splits)
next
  case (Begin_Op now secret drawn)
  assume "moved_on c g r s"
  with Begin_Op show ?thesis by (simp add: moved_on_begin_op)
next
  case (End_Write written now secret drawn)
  assume "moved_on c g r s"
  with End_Write show ?thesis by (simp add: moved_on_end_write)
qed (auto simp: enqueue_op_def moved_on_def generation_of_def)

interpretation approvals: step_system "client_step digest" "moved_on c g r"
  by unfold_locales (rule moved_on_step)

lemma authorize_generation: "authorize now c s = Some a \<Longrightarrow> au_generation a = generation_of c s"
  by (auto simp: authorize_def split: if_splits)

lemma moved_on_removed: "moved_on c g True s \<Longrightarrow> authorize now c s = None"
  by (auto simp: moved_on_def authorize_def jhas_def)

lemma moved_on_refused: "moved_on c (Suc g) r s \<Longrightarrow> \<not> still_authorized now c g s"
  by (auto simp: still_authorized_def moved_on_def dest!: authorize_generation split: option.splits)

lemma moved_on_login: "moved_on c (Suc g) r s \<Longrightarrow> fst (end_login now n d s) \<noteq> Some (c, g)"
proof
  assume moved: "moved_on c (Suc g) r s" and result: "fst (end_login now n d s) = Some (c, g)"
  then have "\<exists>m. still_authorized now c g (s\<lparr>ac_logins := m\<rparr>)" by (auto simp: login_defs split: client_splits)
  moreover have "moved_on c (Suc g) r (s\<lparr>ac_logins := m\<rparr>)" for m using moved by (simp add: moved_on_def generation_of_def)
  ultimately show False using moved_on_refused by blast
qed

lemma moved_on_connected:
  "moved_on c (Suc g) r s \<Longrightarrow> fst (op_body digest now secret drawn (Connected_Op c g) s) = Some ''Stale approved-client authorization''"
  by (simp add: op_body_def moved_on_refused)

lemma moved_on_under_way:
  assumes "moved_on c (Suc g) r s" "ac_phase s = Writing (Connected_Op c g) kept \<or> ac_phase s = Sweeping (Connected_Op c g) expired"
  shows "fst (end_write digest written now secret drawn s) \<noteq> None"
proof -
  have same: "moved_on c (Suc g) r (s\<lparr>ac_phase := p\<rparr>)" "moved_on c (Suc g) r (end_sweep now e (s\<lparr>ac_phase := p\<rparr>))" for p e
    using assms(1) by (simp_all add: moved_on_def generation_of_def end_sweep_def)
  show ?thesis
    using assms(2) moved_on_refused [OF same(1)] moved_on_connected [OF same(2)] by (auto simp: end_write_def after_write_def)
qed

lemma call_moves_on:
  assumes "fst (change s) = None" "change \<in> {call_remove c, call_setPermission c p}"
  shows "moved_on c (Suc (generation_of c s)) (change = call_remove c) (snd (change s))"
  using assms by (auto simp: call_defs moved_on_def generation_of_def split: client_splits)


text \<open>How often the unclaimed request \<open>r\<close> is there, and an update of the first row of a key.\<close>

definition unclaimed_rows :: "string \<Rightarrow> (string, client_request) jmap \<Rightarrow> nat" where
  "unclaimed_rows r m = length (filter (\<lambda>(k, q). k = r \<and> \<not> rq_claimed q) m)"

lemma unclaimed_Nil [simp]: "unclaimed_rows r [] = 0"
  by (simp add: unclaimed_rows_def)

lemma unclaimed_jkeep [simp]: "unclaimed_rows r (jkeep p m) \<le> unclaimed_rows r m"
  by (induction m) (auto simp: unclaimed_rows_def jkeep_def)

lemma unclaimed_jset_same:
  "jget m k = Some q \<Longrightarrow> rq_claimed q' = rq_claimed q \<Longrightarrow> unclaimed_rows r (jset k q' m) = unclaimed_rows r m"
  by (induction m) (auto simp: unclaimed_rows_def split: if_splits)

lemma unclaimed_jset_le: "unclaimed_rows r (jset k q m) \<le> unclaimed_rows r m + (if k = r then 1 else 0)"
  by (induction m) (auto simp: unclaimed_rows_def)

lemma unclaimed_jset_other [simp]: "k \<noteq> r \<Longrightarrow> unclaimed_rows r (jset k q m) = unclaimed_rows r m"
  by (induction m) (auto simp: unclaimed_rows_def)

lemma unclaimed_jset_claimed:
  "jget m r = Some q \<Longrightarrow> \<not> rq_claimed q \<Longrightarrow> rq_claimed q' \<Longrightarrow>
     Suc (unclaimed_rows r (jset r q' m)) = unclaimed_rows r m"
  by (induction m) (auto simp: unclaimed_rows_def split: if_splits)

lemma op_body_unclaimed [simp]: "ac_pending (snd (op_body digest now secret drawn c s)) = ac_pending s"
  by (auto simp: op_body_def Let_def split: client_splits)

lemma after_write_unclaimed: "unclaimed_rows r (ac_pending (snd (after_write now c drawn s))) \<le> unclaimed_rows r (ac_pending s)"
  by (auto simp: after_write_def unclaimed_jset_same split: client_splits)

lemma sweep_unclaimed: "unclaimed_rows r (ac_pending (end_sweep now expired s)) \<le> unclaimed_rows r (ac_pending s)"
  by (simp add: end_sweep_def)

text \<open>What one event hands out and draws of the request \<open>r\<close>.\<close>

definition hands_out :: "(string \<Rightarrow> string) \<Rightarrow> string \<Rightarrow> approved_store \<Rightarrow> client_event \<Rightarrow> nat" where
  "hands_out digest r s e =
     (case e of
        Claim now requestId token \<Rightarrow>
          (case fst (registrationStatus digest now requestId token s) of
             Claim_Secret _ _ _ \<Rightarrow> if requestId = r then 1 else 0
           | _ \<Rightarrow> 0)
      | _ \<Rightarrow> 0)"

definition draws :: "string \<Rightarrow> client_event \<Rightarrow> nat" where
  "draws r e = (case e of End_Submit _ _ _ requestId _ \<Rightarrow> if requestId = r then 1 else 0 | _ \<Rightarrow> 0)"

fun secrets_given :: "(string \<Rightarrow> string) \<Rightarrow> string \<Rightarrow> approved_store \<Rightarrow> client_event list \<Rightarrow> nat" where
  "secrets_given digest r s [] = 0"
| "secrets_given digest r s (e # es) = hands_out digest r s e + secrets_given digest r (client_step digest s e) es"

lemma claim_unclaimed:
  "unclaimed_rows r (ac_pending (snd (registrationStatus digest now q token s))) + hands_out digest r s (Claim now q token)
     \<le> unclaimed_rows r (ac_pending s)"
  by (cases "q = r")
    (auto simp: registrationStatus_def hands_out_def unclaimed_jset_claimed split: option.splits request_state.splits if_splits)

lemma submit_unclaimed:
  "unclaimed_rows r (ac_pending (snd (end_submit digest now n derived q token s)))
     \<le> unclaimed_rows r (ac_pending s) + (if q = r then 1 else 0)"
  using unclaimed_jset_le [of r q]
  by (auto simp: end_submit_def release_ticket_def Let_def split: client_splits)

lemma pending_fixes [simp]:
  "ac_pending (snd (issue_ticket digest now drawn s)) = ac_pending s"
  "ac_pending (snd (begin_submit digest now n token input s)) = ac_pending s"
  "ac_pending (snd (call_remove clientId s)) = ac_pending s"
  "ac_pending (snd (call_setPermission clientId permission s)) = ac_pending s"
  "ac_pending (snd (begin_login digest now n clientId username secret key s)) = ac_pending s"
  "ac_pending (snd (end_login now n d s)) = ac_pending s"
  "ac_pending (enqueue_op c s) = ac_pending s"
  by (auto simp: request_defs call_defs login_defs split: client_splits)

lemma step_unclaimed:
  "unclaimed_rows r (ac_pending (client_step digest s e)) + hands_out digest r s e
     \<le> unclaimed_rows r (ac_pending s) + draws r e"
proof (cases e)
  case (Claim now q token)
  with claim_unclaimed [of r digest now q token s] show ?thesis by (simp add: draws_def)
next
  case (End_Submit now n derived q token)
  with submit_unclaimed show ?thesis by (simp add: draws_def hands_out_def)
next
  case (Reject now q)
  then show ?thesis
    by (auto simp: hands_out_def draws_def reject_request_def unclaimed_jset_same split: client_splits)
next
  case (Begin_Op now secret drawn)
  then show ?thesis
    by (auto simp: hands_out_def draws_def begin_op_def Let_def intro: sweep_unclaimed [THEN order_trans]
        split: op_phase.splits list.splits)
next
  case (End_Write written now secret drawn)
  then show ?thesis
    using sweep_unclaimed [of r now _ "s\<lparr>ac_phase := No_Op\<rparr>"] after_write_unclaimed [of r now _ _ "s\<lparr>ac_phase := No_Op\<rparr>"]
    by (cases "ac_phase s") (auto simp: hands_out_def draws_def end_write_def)
qed (simp_all add: hands_out_def draws_def)

lemma secrets_bound: "secrets_given digest r s es \<le> unclaimed_rows r (ac_pending s) + sum_list (map (draws r) es)"
proof (induction es arbitrary: s)
  case (Cons e es)
  from Cons.IH [of "client_step digest s e"] step_unclaimed [of r digest s e] show ?case by simp
qed simp


text \<open>Sign-ins that begin before one of them has ended, each with the derivation it will get.\<close>

definition begin_all ::
  "(string \<Rightarrow> string) \<Rightarrow> int \<Rightarrow> string \<Rightarrow> string \<Rightarrow> string \<Rightarrow> string \<Rightarrow> (nat \<times> derivation) list \<Rightarrow> approved_store \<Rightarrow> approved_store" where
  "begin_all digest now clientId username secret key calls s =
     fold (\<lambda>(n, _) s. snd (begin_login digest now n clientId username secret key s)) calls s"

definition end_all :: "int \<Rightarrow> (nat \<times> derivation) list \<Rightarrow> approved_store \<Rightarrow> approved_store" where
  "end_all now calls s = fold (\<lambda>(n, d) s. snd (end_login now n d s)) calls s"

definition attempts_of :: "string \<Rightarrow> approved_store \<Rightarrow> int list" where
  "attempts_of key s = (case jget (ac_attempts s) key of Some ts \<Rightarrow> ts | None \<Rightarrow> [])"

lemma jget_jevict_key [simp]: "jget (jevict n k m) k = jget m k"
  by (cases m) (auto simp: jevict_def jhas_def split: if_splits)

text \<open>A sign-in that waits with the row of attempts \<open>ts\<close>, of a client of the list.\<close>

definition parked :: "string \<Rightarrow> int list \<Rightarrow> int \<Rightarrow> client_row list \<Rightarrow> login \<Rightarrow> bool" where
  "parked key ts now rows l \<longleftrightarrow> lg_attemptKey l = key \<and> lg_attempts l = ts \<and> lg_now l = now \<and> lg_row l \<in> set rows"

lemma authorize_fixes [simp]:
  "authorize now c (s\<lparr>ac_attempts := A\<rparr>) = authorize now c s" "authorize now c (s\<lparr>ac_logins := L\<rparr>) = authorize now c s"
  "expiredUnclaimed now c (s\<lparr>ac_attempts := A\<rparr>) = expiredUnclaimed now c s"
  "expiredUnclaimed now c (s\<lparr>ac_logins := L\<rparr>) = expiredUnclaimed now c s"
  by (auto simp: authorize_def expiredUnclaimed_def generation_of_def find_client_def)

definition login_row :: "string \<Rightarrow> string \<Rightarrow> approved_store \<Rightarrow> client_row option" where
  "login_row clientId username s = find (\<lambda>row. cl_id row = clientId \<and> cl_username row = username) (ac_clients s)"

lemma begin_login_goes_on:
  "fst (begin_login digest now n clientId username secret key s) \<longleftrightarrow>
     \<not> expiredUnclaimed now clientId s \<and> \<not> jhas (ac_logins s) n
     \<and> length (recent (attempts_of (attempt_key clientId key) s) now (ac_windowMs s)) < ac_maxAttempts s
     \<and> (\<exists>row a. login_row clientId username s = Some row \<and> authorize now clientId s = Some a \<and> cl_secretHash row = digest secret)"
  by (auto simp: begin_login_def Let_def attempts_of_def login_row_def split: option.splits)

lemma begin_parks:
  assumes "fst (begin_login digest now n clientId username secret key s)"
  obtains l where "parked (attempt_key clientId key) (recent (attempts_of (attempt_key clientId key) s) now (ac_windowMs s)) now (ac_clients s) l"
    "snd (begin_login digest now n clientId username secret key s) =
       s\<lparr>ac_attempts := jevict 1024 (attempt_key clientId key) (ac_attempts s), ac_logins := jset n l (ac_logins s)\<rparr>"
proof -
  from assms obtain row a where found: "login_row clientId username s = Some row"
    and a: "authorize now clientId s = Some a" and same: "cl_secretHash row = digest secret"
    by (auto simp: begin_login_goes_on)
  have "row \<in> set (ac_clients s)" using found by (auto simp: login_row_def find_Some_iff)
  moreover from assms have "\<not> expiredUnclaimed now clientId s" "\<not> jhas (ac_logins s) n"
    "length (recent (attempts_of (attempt_key clientId key) s) now (ac_windowMs s)) < ac_maxAttempts s"
    by (simp_all add: begin_login_goes_on)
  ultimately show ?thesis using a same found [unfolded login_row_def]
    by (intro that [of "\<lparr>lg_row = row, lg_generation = au_generation a, lg_attemptKey = attempt_key clientId key,
          lg_attempts = recent (attempts_of (attempt_key clientId key) s) now (ac_windowMs s), lg_now = now\<rparr>"])
      (simp_all add: parked_def begin_login_def Let_def attempts_of_def)
qed

lemma begin_again:
  assumes "fst (begin_login digest now n clientId username secret key s)"
    and "jget A (attempt_key clientId key) = jget (ac_attempts s) (attempt_key clientId key)" "\<not> jhas L n'"
  shows "fst (begin_login digest now n' clientId username secret key (s\<lparr>ac_attempts := A, ac_logins := L\<rparr>))"
  using assms by (simp add: begin_login_goes_on login_row_def attempts_of_def)

lemma begin_all_parks:
  assumes "fst (begin_login digest now m clientId username secret key s)"
    and "distinct (map fst calls)" "\<forall>n \<in> fst ` set calls. \<not> jhas L n"
    and "jget A (attempt_key clientId key) = jget (ac_attempts s) (attempt_key clientId key)"
  shows "\<exists>A' L'. begin_all digest now clientId username secret key calls (s\<lparr>ac_attempts := A, ac_logins := L\<rparr>) = s\<lparr>ac_attempts := A', ac_logins := L'\<rparr>
    \<and> (\<forall>n \<in> fst ` set calls. \<exists>l. jget L' n = Some l
         \<and> parked (attempt_key clientId key) (recent (attempts_of (attempt_key clientId key) s) now (ac_windowMs s)) now (ac_clients s) l)
    \<and> (\<forall>n. n \<notin> fst ` set calls \<longrightarrow> jget L' n = jget L n)"
  using assms(2-)
proof (induction calls arbitrary: A L)
  case Nil
  show ?case by (rule exI [of _ A], rule exI [of _ L]) (simp add: begin_all_def)
next
  case (Cons call calls)
  obtain n d where call: "call = (n, d)" by (cases call)
  let ?K = "attempt_key clientId key"
  let ?t = "s\<lparr>ac_attempts := A, ac_logins := L\<rparr>"
  have "fst (begin_login digest now n clientId username secret key ?t)"
    using begin_again [OF assms(1) Cons.prems(3)] Cons.prems(2) call by simp
  then obtain l where l: "parked ?K (recent (attempts_of ?K ?t) now (ac_windowMs ?t)) now (ac_clients ?t) l"
    and t: "snd (begin_login digest now n clientId username secret key ?t) = ?t\<lparr>ac_attempts := jevict 1024 ?K A, ac_logins := jset n l L\<rparr>"
    by (rule begin_parks) simp
  have same: "attempts_of ?K ?t = attempts_of ?K s" using Cons.prems(3) by (simp add: attempts_of_def)
  have free: "\<forall>n' \<in> fst ` set calls. \<not> jhas (jset n l L) n'"
  proof
    fix n' assume n': "n' \<in> fst ` set calls"
    with Cons.prems(1) call have "n' \<noteq> n" by auto
    moreover from Cons.prems(2) call have "\<forall>n \<in> fst ` set calls. \<not> jhas L n" by simp
    ultimately show "\<not> jhas (jset n l L) n'" using n' by auto
  qed
  have apart: "distinct (map fst calls)" and kept: "jget (jevict 1024 ?K A) ?K = jget (ac_attempts s) ?K"
    using Cons.prems(1,3) by simp_all
  have "\<exists>A' L'. begin_all digest now clientId username secret key calls
        (s\<lparr>ac_attempts := jevict 1024 ?K A, ac_logins := jset n l L\<rparr>) = s\<lparr>ac_attempts := A', ac_logins := L'\<rparr>
      \<and> (\<forall>n \<in> fst ` set calls. \<exists>l. jget L' n = Some l
         \<and> parked ?K (recent (attempts_of ?K s) now (ac_windowMs s)) now (ac_clients s) l)
      \<and> (\<forall>n'. n' \<notin> fst ` set calls \<longrightarrow> jget L' n' = jget (jset n l L) n')"
    by (rule Cons.IH [OF apart free kept])
  then obtain A' L' where
    all: "begin_all digest now clientId username secret key calls (s\<lparr>ac_attempts := jevict 1024 ?K A, ac_logins := jset n l L\<rparr>)
        = s\<lparr>ac_attempts := A', ac_logins := L'\<rparr>"
    and parks: "\<forall>n \<in> fst ` set calls. \<exists>l. jget L' n = Some l
         \<and> parked ?K (recent (attempts_of ?K s) now (ac_windowMs s)) now (ac_clients s) l"
    and rest: "\<forall>n'. n' \<notin> fst ` set calls \<longrightarrow> jget L' n' = jget (jset n l L) n'" by blast
  have "n \<notin> fst ` set calls" using Cons.prems(1) call by simp
  with rest have own: "jget L' n = Some l" by simp
  have whole: "begin_all digest now clientId username secret key (call # calls) ?t = s\<lparr>ac_attempts := A', ac_logins := L'\<rparr>"
    using all t by (simp add: begin_all_def call)
  have mine: "parked ?K (recent (attempts_of ?K s) now (ac_windowMs s)) now (ac_clients s) l" using l same by simp
  have others: "jget L' n' = jget L n'" if "n' \<notin> fst ` set (call # calls)" for n'
  proof -
    from that call have "n' \<notin> fst ` set calls" "n' \<noteq> n" by simp_all
    with rest show ?thesis by simp
  qed
  from own mine parks have every: "\<exists>l. jget L' n' = Some l \<and> parked ?K (recent (attempts_of ?K s) now (ac_windowMs s)) now (ac_clients s) l"
    if "n' \<in> fst ` set (call # calls)" for n'
  proof (cases "n' = n")
    case False
    with that call have "n' \<in> fst ` set calls" by simp
    with parks show ?thesis by blast
  qed (use own mine in blast)
  show ?case by (rule exI [of _ A'], rule exI [of _ L']) (intro conjI ballI allI impI whole every others)
qed

lemma end_all_counts:
  assumes "distinct (map fst calls)" "calls \<noteq> []"
    and "\<forall>n \<in> fst ` set calls. \<exists>l. jget (ac_logins s) n = Some l \<and> parked key ts now (ac_clients s) l"
    and "\<forall>d \<in> snd ` set calls. d \<noteq> Busy \<and> d \<notin> Derived ` cl_hash ` set (ac_clients s)"
  shows "jget (ac_attempts (end_all later calls s)) key = Some (ts @ [now])"
  using assms
proof (induction calls arbitrary: s)
  case (Cons call calls)
  obtain n d where call: "call = (n, d)" by (cases call)
  from Cons.prems(3) call obtain l where l: "jget (ac_logins s) n = Some l" "parked key ts now (ac_clients s) l" by auto
  have wrong: "d \<noteq> Busy" "d \<noteq> Derived (cl_hash (lg_row l))" using Cons.prems(4) l(2) call by (auto simp: parked_def)
  let ?t = "s\<lparr>ac_logins := jdel n (ac_logins s), ac_attempts := jset key (ts @ [now]) (ac_attempts s)\<rparr>"
  have t: "snd (end_login later n d s) = ?t" using l wrong by (simp add: end_login_def count_attempt_def parked_def)
  show ?case
  proof (cases "calls = []")
    case True
    then show ?thesis using t call by (simp add: end_all_def)
  next
    case False
    have "\<forall>n' \<in> fst ` set calls. jget (jdel n (ac_logins s)) n' = jget (ac_logins s) n'"
      using Cons.prems(1) call by auto
    then have "jget (ac_attempts (end_all later calls ?t)) key = Some (ts @ [now])"
      using Cons.prems False call by (intro Cons.IH) auto
    then show ?thesis using t call by (simp add: end_all_def)
  qed
qed simp


section \<open>Properties\<close>

text \<open>
  C7: a removal or a change of permission is final for what was handed out before. Whatever happens between
  an authorization and the change, and whatever happens after it (writes that fail included), the
  authorization is never valid again, no connection is marked with it, also none whose write was under way when
  the change came, no sign-in ends with its generation, however long ago it began, and a removed client is never
  authorized again.
\<close>

theorem invalidation_final:
  assumes "authorize now clientId s = Some a"
    and "change \<in> {call_remove clientId, call_setPermission clientId permission}"
    and "fst (change (run (client_step digest) s before)) = None"
    and "later = run (client_step digest) (snd (change (run (client_step digest) s before))) after"
  shows "\<not> still_authorized t clientId (au_generation a) later
    \<and> fst (op_body digest t secret drawn (Connected_Op clientId (au_generation a)) later) \<noteq> None
    \<and> (ac_phase later = Writing (Connected_Op clientId (au_generation a)) kept
         \<or> ac_phase later = Sweeping (Connected_Op clientId (au_generation a)) expired
         \<longrightarrow> fst (end_write digest written t secret drawn later) \<noteq> None)
    \<and> fst (end_login t n d later) \<noteq> Some (clientId, au_generation a)
    \<and> (change = call_remove clientId \<longrightarrow> authorize t clientId later = None)"
proof -
  let ?s = "run (client_step digest) s before" and ?g = "au_generation a"
  have "moved_on clientId ?g False s" using authorize_generation [OF assms(1)] by (simp add: moved_on_def)
  then have "moved_on clientId ?g False ?s" by (rule approvals.run_inv)
  then have least: "?g \<le> generation_of clientId ?s" by (simp add: moved_on_def)
  have "moved_on clientId (Suc ?g) (change = call_remove clientId) (snd (change ?s))"
    using call_moves_on [OF assms(3,2)] least by (simp add: moved_on_def)
  then have moved: "moved_on clientId (Suc ?g) (change = call_remove clientId) later"
    unfolding assms(4) by (rule approvals.run_inv)
  moreover have "authorize t clientId later = None" if "change = call_remove clientId"
    using moved that moved_on_removed by simp
  moreover have "fst (end_write digest written t secret drawn later) \<noteq> None"
    if "ac_phase later = Writing (Connected_Op clientId ?g) kept \<or> ac_phase later = Sweeping (Connected_Op clientId ?g) expired"
    using moved_on_under_way [OF moved that] .
  ultimately show ?thesis using moved_on_refused moved_on_login moved_on_connected by simp
qed

definition sample_client :: client_row where
  "sample_client = \<lparr>cl_id = ''c'', cl_deviceName = ''d'', cl_username = ''u'', cl_installationId = ''i'', cl_client = ''b'', cl_network = [],
     cl_permission = ''default'', cl_createdAt = 0, cl_lastConnectedAt = None, cl_salt = ''s'', cl_hash = ''h'', cl_secretHash = ''x''\<rparr>"

definition sample_approved :: approved_store where
  "sample_approved = open_store [sample_client] 1 60000"

definition sample_before :: "client_event list" where
  "sample_before = [Begin_Login 6 1 ''c'' ''u'' ''x'' ''k'', Call_Op (Connected_Op ''c'' 0), Begin_Op 6 [] []]"

definition sample_changed :: approved_store where
  "sample_changed = snd (call_setPermission ''c'' ''view-only'' (run (client_step js_trim) sample_approved sample_before))"

theorem invalidation_final_witness:
  "client_permission 5 ''c'' sample_approved = Some ''default''
   \<and> ac_phase sample_changed = Writing (Connected_Op ''c'' 0) None
   \<and> fst (end_write js_trim True 9 [] [] sample_changed) \<noteq> None
   \<and> \<not> still_authorized 9 ''c'' 0 sample_changed \<and> still_authorized 5 ''c'' 0 (run (client_step js_trim) sample_approved sample_before)"
proof -
  have "authorize 5 ''c'' sample_approved = Some \<lparr>au_id = ''c'', au_generation = 0, au_permission = ''default''\<rparr>"
    by code_simp
  moreover have "fst (call_setPermission ''c'' ''view-only'' (run (client_step js_trim) sample_approved sample_before)) = None"
    by code_simp
  moreover have "ac_phase sample_changed = Writing (Connected_Op ''c'' 0) None" by code_simp
  moreover have "still_authorized 5 ''c'' 0 (run (client_step js_trim) sample_approved sample_before)" by code_simp
  moreover have "sample_changed = run (client_step js_trim) (snd (call_setPermission ''c'' ''view-only''
      (run (client_step js_trim) sample_approved sample_before))) []" by (simp add: sample_changed_def)
  ultimately show ?thesis
    using invalidation_final [of 5 "''c''" sample_approved "\<lparr>au_id = ''c'', au_generation = 0, au_permission = ''default''\<rparr>"
        "call_setPermission ''c'' ''view-only''" "''view-only''" js_trim sample_before sample_changed "[]" 9 "[]" "[]" None "[]" True]
    by (simp add: client_permission_def)
qed

text \<open>
  C25: the secret of an approved client is handed out at most once for a request, in every sequence of calls
  and writes: the claims that get a secret for an id are at most as many as the submissions that drew it.
\<close>

theorem secret_given_once:
  "secrets_given digest requestId (open_store clients maxAttempts windowMs) es \<le> sum_list (map (draws requestId) es)"
  using secrets_bound [of digest requestId "open_store clients maxAttempts windowMs" es] by (simp add: open_store_def)

text \<open>
  C38: sign-ins that are under way together count as one wrong attempt. However many of them begin before the
  first one's derivation ends, with as many wrong passwords, the row of attempts grows by one entry, since
  every call writes back the row that it read before the derivation.
\<close>

theorem parallel_signins_count_once:
  assumes "fst (begin_login digest now m clientId username secret key s)"
    and "distinct (map fst calls)" "calls \<noteq> []" "\<forall>n \<in> fst ` set calls. \<not> jhas (ac_logins s) n"
    and "\<forall>d \<in> snd ` set calls. d \<noteq> Busy \<and> d \<notin> Derived ` cl_hash ` set (ac_clients s)"
  shows "attempts_of (attempt_key clientId key) (end_all later calls (begin_all digest now clientId username secret key calls s))
    = recent (attempts_of (attempt_key clientId key) s) now (ac_windowMs s) @ [now]"
proof -
  have "s = s\<lparr>ac_attempts := ac_attempts s, ac_logins := ac_logins s\<rparr>" by simp
  with begin_all_parks [OF assms(1,2,4) refl]
  obtain A L where all: "begin_all digest now clientId username secret key calls s = s\<lparr>ac_attempts := A, ac_logins := L\<rparr>"
    and parks: "\<forall>n \<in> fst ` set calls. \<exists>l. jget L n = Some l
         \<and> parked (attempt_key clientId key) (recent (attempts_of (attempt_key clientId key) s) now (ac_windowMs s)) now (ac_clients s) l"
    by metis
  show ?thesis
    unfolding all attempts_of_def [of _ "end_all _ _ _"]
    using parks assms(5) by (subst end_all_counts [OF assms(2,3)]) simp_all
qed

theorem parallel_signins_count_once_witness:
  "ac_maxAttempts sample_approved = 1
   \<and> attempts_of (attempt_key ''c'' ''k'') (end_all 9 [(1, Failed_Derivation), (2, Derived ''no''), (3, Derived ''wrong'')]
        (begin_all js_trim 5 ''c'' ''u'' ''x'' ''k'' [(1, Failed_Derivation), (2, Derived ''no''), (3, Derived ''wrong'')] sample_approved)) = [5]"
proof -
  have "fst (begin_login js_trim 5 1 ''c'' ''u'' ''x'' ''k'' sample_approved)" by code_simp
  from parallel_signins_count_once [OF this, of "[(1, Failed_Derivation), (2, Derived ''no''), (3, Derived ''wrong'')]" 9]
  show ?thesis by (simp add: sample_approved_def sample_client_def open_store_def attempts_of_def recent_def)
qed

end
