(* ===== verification/PolicyEdits.thy ===== *)
theory PolicyEdits
  imports StreamPolicy PeerNetwork "HOL-Library.Multiset"
begin

text \<open>
  \<^verbatim>\<open>apps/server/src/cli/policy-edits.mjs\<close>, the owner's edits of a stream policy, and the ordering of
  \<^verbatim>\<open>profile-order.mjs\<close>. An edit changes a copy and validates it, so a value here is a JSON value
  before and after. The policy an edit starts from is one the store has validated.
\<close>

section \<open>Names\<close>

definition NEW_PROFILE :: "(string \<times> json) list" where
  "NEW_PROFILE = [(''width'', JInt 1920), (''height'', JInt 1080), (''fps'', JInt 30), (''bitrateKbps'', JInt 4000),
     (''bitrateMode'', JStr DEFAULT_BITRATE_MODE), (''quality'', JStr DEFAULT_QUALITY), (''sizing'', JStr ''height''),
     (''scalePercent'', JInt 100), (''aspect'', JStr ''keep'')]"

definition OPTION_KINDS :: "(string \<times> string) list" where
  "OPTION_KINDS = [(''size'', ''resolutions''), (''framerate'', ''frameRates''), (''bitrate'', ''bitratesKbps'')]"

definition RESERVED_IDS :: "string list" where "RESERVED_IDS = [''auto'', ''custom'']"

definition EDITABLE :: "string list" where
  "EDITABLE = [''name'', ''description'', ''enabled'', ''width'', ''height'', ''fps'', ''bitrateKbps'', ''bitrateMode'',
     ''quality'', ''sizing'', ''scalePercent'', ''aspect'']"

text \<open>\<^verbatim>\<open>.replace(/[^a-z0-9]+/g, '-')\<close>: the flag says that the last character was replaced.\<close>

fun squash :: "bool \<Rightarrow> string \<Rightarrow> string" where
  "squash replaced [] = []"
| "squash replaced (c # cs) =
     (if slug_char c then c # squash False cs
      else if replaced then squash True cs else CHR ''-'' # squash True cs)"

definition strip_end :: "char \<Rightarrow> string \<Rightarrow> string" where
  "strip_end c s = rev (dropWhile (\<lambda>d. d = c) (rev s))"

definition slug_base :: "string \<Rightarrow> string" where
  "slug_base name =
     (let base = strip_end (CHR ''-'') (take 48 (dropWhile (\<lambda>c. c = CHR ''-'') (squash False (js_lower name))))
      in if base = [] then ''profile'' else base)"

definition numbered :: "string \<Rightarrow> int \<Rightarrow> string" where
  "numbered base suffix = base @ CHR ''-'' # dec suffix"

definition is_taken :: "string list \<Rightarrow> string \<Rightarrow> bool" where
  "is_taken taken pid \<longleftrightarrow> pid \<in> set taken \<or> pid \<in> set RESERVED_IDS"

text \<open>\<open>dec\<close> is injective, so every number is a different id and the search for a free one ends.\<close>

lemma numbered_inj: "0 \<le> m \<Longrightarrow> 0 \<le> n \<Longrightarrow> numbered base m = numbered base n \<longleftrightarrow> m = n"
  by (simp add: numbered_def dec_inj)

definition taken_from :: "string list \<Rightarrow> string \<Rightarrow> int \<Rightarrow> string set" where
  "taken_from taken base n = {pid \<in> set taken \<union> set RESERVED_IDS. \<exists>m \<ge> n. pid = numbered base m}"

lemma finite_taken_from [simp]: "finite (taken_from taken base n)"
  by (simp add: taken_from_def)

lemma taken_from_less:
  assumes "is_taken taken (numbered base n)" "0 \<le> n"
  shows "card (taken_from taken base (n + 1)) < card (taken_from taken base n)"
proof (rule psubset_card_mono [OF finite_taken_from])
  have "numbered base n \<in> taken_from taken base n" using assms(1) by (auto simp: taken_from_def is_taken_def)
  moreover have "numbered base n \<notin> taken_from taken base (n + 1)"
    using assms(2) by (auto simp: taken_from_def numbered_inj)
  moreover have "taken_from taken base (n + 1) \<subseteq> taken_from taken base n"
    unfolding taken_from_def by (smt (verit) Collect_mono)
  ultimately show "taken_from taken base (n + 1) \<subset> taken_from taken base n" by blast
qed

text \<open>The loop \<^verbatim>\<open>for (let suffix = 2; taken.has(id) || RESERVED_IDS.has(id); suffix++)\<close>.\<close>

function free_id :: "string list \<Rightarrow> string \<Rightarrow> nat \<Rightarrow> string" where
  "free_id taken base suffix =
     (if is_taken taken (numbered base (int suffix)) then free_id taken base (Suc suffix)
      else numbered base (int suffix))"
  by pat_completeness auto
termination
  by (relation "measure (\<lambda>(taken, base, suffix). card (taken_from taken base (int suffix)))")
    (use taken_from_less [of _ _ "int suffix" for suffix] in \<open>auto simp: add.commute\<close>)

declare free_id.simps [simp del]

definition profileSlug :: "string \<Rightarrow> string list \<Rightarrow> string" where
  "profileSlug name taken =
     (let base = slug_base name in if is_taken taken base then free_id taken base 2 else base)"

section \<open>The edits\<close>

definition edit :: "json \<Rightarrow> (json \<Rightarrow> json result) \<Rightarrow> json result" where
  "edit policy change = (case change policy of Inl e \<Rightarrow> Inl e | Inr next \<Rightarrow> validateStreamPolicy next)"

text \<open>\<^verbatim>\<open>/^(Default profile|Display default) must refer/\<close>.\<close>

definition withDefaultHint :: "'a result \<Rightarrow> 'a result" where
  "withDefaultHint r =
     (case r of
        Inl e \<Rightarrow> Inl (if starts_with e ''Default profile must refer'' \<or> starts_with e ''Display default must refer''
                     then e @ ''; change the default first'' else e)
      | Inr v \<Rightarrow> Inr v)"

definition has_id :: "string \<Rightarrow> json \<Rightarrow> bool" where
  "has_id pid row \<longleftrightarrow> jfield ''id'' row = Some (JStr pid)"

definition findProfile :: "json \<Rightarrow> string \<Rightarrow> json result" where
  "findProfile policy pid =
     (case find (has_id pid) (policy_profiles policy) of
        Some row \<Rightarrow> Inr row | None \<Rightarrow> Inl ''Profile no longer exists'')"

text \<open>
  \<^verbatim>\<open>object[key] = value\<close> for a value that is not an object: for the key \<^verbatim>\<open>__proto__\<close> it does nothing.
\<close>

definition assign_key :: "string \<Rightarrow> json \<Rightarrow> json \<Rightarrow> json" where
  "assign_key k x v = (if k = ''__proto__'' then v else put_field k x v)"

record owner_display =
  od_id :: string
  od_number :: nat
  od_primary :: bool
  od_persistent :: bool

definition seedDisplaySharing :: "json \<Rightarrow> owner_display list \<Rightarrow> json result" where
  "seedDisplaySharing policy displays =
     (if jfield ''displaySharing'' policy \<noteq> Some JNull then Inr policy
      else edit policy (\<lambda>next. Inr (put_field ''displaySharing''
        (case find (\<lambda>d. od_primary d \<and> od_persistent d) displays of
           Some d \<Rightarrow> assign_key (od_id d) (JBool True) (JObj []) | None \<Rightarrow> JObj []) next)))"

definition setDisplaySharing :: "json \<Rightarrow> owner_display list \<Rightarrow> owner_display \<Rightarrow> bool \<Rightarrow> json result" where
  "setDisplaySharing policy displays display shared =
     (if \<not> od_persistent display then
        Inl (''Display '' @ dec (int (od_number display)) @ '' has no stable identity and cannot be shared'')
      else (case seedDisplaySharing policy displays of
              Inl e \<Rightarrow> Inl e
            | Inr seeded \<Rightarrow> edit seeded (\<lambda>next. Inr
                (map_field ''displaySharing'' (assign_key (od_id display) (JBool shared)) next))))"

definition setDisplayDefault :: "json \<Rightarrow> string \<Rightarrow> string option \<Rightarrow> json result" where
  "setDisplayDefault policy displayId profileId =
     edit policy (\<lambda>next. Inr (map_field ''displayDefaults''
       (case profileId of None \<Rightarrow> del_field displayId | Some pid \<Rightarrow> assign_key displayId (JStr pid)) next))"

definition setDefaultProfile :: "json \<Rightarrow> string \<Rightarrow> json result" where
  "setDefaultProfile policy profileId = edit policy (\<lambda>next. Inr (put_field ''defaultProfileId'' (JStr profileId) next))"

definition setAudio_policy :: "json \<Rightarrow> bool \<Rightarrow> json result" where
  "setAudio_policy policy allowed = edit policy (\<lambda>next. Inr (put_field ''allowAudio'' (JBool allowed) next))"

definition setVideoCodecs :: "json \<Rightarrow> string list \<Rightarrow> json result" where
  "setVideoCodecs policy ids = edit policy (\<lambda>next. Inr (put_field ''videoCodecs'' (JArr (map JStr ids)) next))"

definition setEncoderBackend :: "json \<Rightarrow> string \<Rightarrow> json result" where
  "setEncoderBackend policy backend = edit policy (\<lambda>next. Inr (put_field ''encoderBackend'' (JStr backend) next))"

definition setClientMode :: "json \<Rightarrow> string \<Rightarrow> json result" where
  "setClientMode policy mode = edit policy (\<lambda>next. Inr (put_field ''clientMode'' (JStr mode) next))"

definition profile_ids :: "json \<Rightarrow> string list" where
  "profile_ids policy = map (\<lambda>row. str_of (jfield ''id'' row)) (policy_profiles policy)"

definition push_profile :: "json \<Rightarrow> json \<Rightarrow> json" where
  "push_profile profile policy = map_field ''profiles'' (\<lambda>ps. JArr (arr_of (Some ps) @ [profile])) policy"

text \<open>The caller's options of \<open>addProfile\<close>: those it leaves out take the new profile's values.\<close>

definition new_option :: "(string \<times> json) list \<Rightarrow> string \<Rightarrow> json" where
  "new_option options k =
     (case jget options k of Some v \<Rightarrow> v | None \<Rightarrow> (case jget NEW_PROFILE k of Some v \<Rightarrow> v | None \<Rightarrow> JNull))"

definition new_profile :: "json \<Rightarrow> string \<Rightarrow> string \<Rightarrow> bool \<Rightarrow> (string \<times> json) list \<Rightarrow> json" where
  "new_profile policy name description enabled options = JObj
     [(''id'', JStr (profileSlug name (profile_ids policy))), (''name'', JStr (js_trim name)),
      (''description'', JStr (js_trim description)), (''enabled'', JBool enabled),
      (''width'', new_option options ''width''), (''height'', new_option options ''height''),
      (''fps'', new_option options ''fps''), (''bitrateKbps'', new_option options ''bitrateKbps''),
      (''bitrateMode'', new_option options ''bitrateMode''), (''quality'', new_option options ''quality''),
      (''frameDelivery'', JStr ''fixed''), (''sizing'', new_option options ''sizing''),
      (''scalePercent'', new_option options ''scalePercent''), (''aspect'', new_option options ''aspect'')]"

definition push_new :: "json \<Rightarrow> json \<Rightarrow> (json \<times> json) result" where
  "push_new policy profile =
     (case edit policy (\<lambda>next. Inr (push_profile profile next)) of Inl e \<Rightarrow> Inl e | Inr p \<Rightarrow> Inr (p, profile))"

definition addProfile :: "json \<Rightarrow> string \<Rightarrow> string \<Rightarrow> bool \<Rightarrow> (string \<times> json) list \<Rightarrow> (json \<times> json) result" where
  "addProfile policy name description enabled options =
     push_new policy (new_profile policy name description enabled options)"

fun change_fields :: "(string \<times> json) list \<Rightarrow> json \<Rightarrow> json result" where
  "change_fields [] profile = Inr profile"
| "change_fields ((k, x) # changes) profile =
     (if k \<notin> set EDITABLE then Inl (''Unknown profile field '' @ k)
      else change_fields changes (put_field k (case x of JStr s \<Rightarrow> JStr (js_trim s) | _ \<Rightarrow> x) profile))"

text \<open>Only the first row with the id is changed.\<close>

fun replace_first :: "string \<Rightarrow> json \<Rightarrow> json list \<Rightarrow> json list" where
  "replace_first pid profile [] = []"
| "replace_first pid profile (row # rows) =
     (if has_id pid row then profile # rows else row # replace_first pid profile rows)"

definition set_profiles :: "(json list \<Rightarrow> json list) \<Rightarrow> json \<Rightarrow> json" where
  "set_profiles f policy = put_field ''profiles'' (JArr (f (policy_profiles policy))) policy"

definition editProfile :: "json \<Rightarrow> string \<Rightarrow> (string \<times> json) list \<Rightarrow> json result" where
  "editProfile policy pid changes = withDefaultHint (edit policy (\<lambda>next.
     (case findProfile next pid of
        Inl e \<Rightarrow> Inl e
      | Inr row \<Rightarrow>
          (case change_fields changes row of
             Inl e \<Rightarrow> Inl e | Inr row' \<Rightarrow> Inr (set_profiles (replace_first pid row') next)))))"

definition duplicateProfile :: "json \<Rightarrow> string \<Rightarrow> (json \<times> json) result" where
  "duplicateProfile policy pid =
     (case findProfile policy pid of
        Inl e \<Rightarrow> Inl e
      | Inr source \<Rightarrow>
          (let name = rev (dropWhile is_space (rev (take 64 (''Copy of '' @ str_of (jfield ''name'' source)))))
           in push_new policy (put_field ''name'' (JStr name)
                (put_field ''id'' (JStr (profileSlug name (profile_ids policy))) source))))"

definition removeProfile :: "json \<Rightarrow> string \<Rightarrow> json result" where
  "removeProfile policy pid = withDefaultHint (edit policy (\<lambda>next.
     (case findProfile next pid of
        Inl e \<Rightarrow> Inl e | Inr _ \<Rightarrow> Inr (set_profiles (filter (\<lambda>row. \<not> has_id pid row)) next))))"

definition setProfileEnabled :: "json \<Rightarrow> string \<Rightarrow> bool \<Rightarrow> json result" where
  "setProfileEnabled policy pid enabled = editProfile policy pid [(''enabled'', JBool enabled)]"

definition optionKey :: "string \<Rightarrow> string result" where
  "optionKey kind =
     (case jget OPTION_KINDS kind of Some k \<Rightarrow> Inr k | None \<Rightarrow> Inl (''Unknown option kind '' @ kind))"

definition sameOption :: "string \<Rightarrow> json \<Rightarrow> json \<Rightarrow> bool" where
  "sameOption kind left right \<longleftrightarrow>
     (if kind = ''size'' then jfield ''width'' left = jfield ''width'' right \<and> jfield ''height'' left = jfield ''height'' right
      else left = right)"

definition set_option :: "string \<Rightarrow> (json list \<Rightarrow> json list) \<Rightarrow> json \<Rightarrow> json" where
  "set_option k f policy =
     map_field ''allowedOptions'' (map_field k (\<lambda>rows. JArr (f (arr_of (Some rows))))) policy"

definition addAllowedOption :: "json \<Rightarrow> string \<Rightarrow> json \<Rightarrow> json result" where
  "addAllowedOption policy kind x =
     (case optionKey kind of
        Inl e \<Rightarrow> Inl e
      | Inr k \<Rightarrow>
          if \<exists>row \<in> set (allowed_option policy k). sameOption kind row x then Inl ''That option is already allowed''
          else edit policy (\<lambda>next. Inr (set_option k (\<lambda>rows. rows @ [x]) next)))"

definition removeAllowedOption :: "json \<Rightarrow> string \<Rightarrow> json \<Rightarrow> json result" where
  "removeAllowedOption policy kind x =
     (case optionKey kind of
        Inl e \<Rightarrow> Inl e
      | Inr k \<Rightarrow>
          if \<not> (\<exists>row \<in> set (allowed_option policy k). sameOption kind row x)
          then Inl ''That option is not in the allowed list''
          else edit policy (\<lambda>next. Inr (set_option k (filter (\<lambda>row. \<not> sameOption kind row x)) next)))"

section \<open>The order of the profiles\<close>

definition order_id :: "json \<Rightarrow> bool" where
  "order_id v = (case v of
      JStr s \<Rightarrow> s \<noteq> [] \<and> length s \<le> 64 \<and> list_all (\<lambda>c. is_alnum c \<or> c = CHR ''-'') s
    | _ \<Rightarrow> False)"

definition validProfileOrder :: "json \<Rightarrow> bool" where
  "validProfileOrder ids =
     (case ids of JArr xs \<Rightarrow> length xs \<le> 64 \<and> distinct xs \<and> list_all order_id xs | _ \<Rightarrow> False)"

text \<open>\<^verbatim>\<open>new Map(profiles.map((profile) => [profile.id, profile]))\<close>: the last row of an id counts.\<close>

definition available_rows :: "json list \<Rightarrow> (string, json) jmap" where
  "available_rows profiles = fold (\<lambda>p m. jset (str_of (jfield ''id'' p)) p m) profiles []"

definition ordered_by :: "string list \<Rightarrow> json list \<Rightarrow> json list" where
  "ordered_by ids profiles =
     map (\<lambda>i. the (jget (available_rows profiles) i)) (filter (jhas (available_rows profiles)) ids)
     @ filter (\<lambda>p. str_of (jfield ''id'' p) \<notin> set ids) profiles"

text \<open>
  What the preference file gives: nothing (no file name, or opening, reading or parsing fails), or
  its length and value.
\<close>

definition applyProfileOrder :: "(int \<times> json) option \<Rightarrow> json list \<Rightarrow> json list" where
  "applyProfileOrder file profiles =
     (case file of
        None \<Rightarrow> profiles
      | Some (bytesRead, ids) \<Rightarrow>
          if bytesRead > 16384 \<or> \<not> validProfileOrder ids then profiles
          else ordered_by (map (\<lambda>v. str_of (Some v)) (arr_of (Some ids))) profiles)"

section \<open>Lemmas\<close>

lemma slug_char_dash: "\<not> slug_char (CHR ''-'')"
  by (simp add: slug_char_def is_lower_def is_digit_def code_dash)

definition slug_or_dash :: "char \<Rightarrow> bool" where
  "slug_or_dash c \<longleftrightarrow> slug_char c \<or> c = CHR ''-''"

lemma squash_chars: "list_all slug_or_dash (squash b s)"
  by (induction b s rule: squash.induct) (auto simp: slug_or_dash_def)

lemma slug_base_facts:
  "slug_base name \<noteq> []" "length (slug_base name) \<le> 48" "list_all slug_or_dash (slug_base name)"
  "slug_char (hd (slug_base name))"
proof -
  define s where "s = take 48 (dropWhile (\<lambda>c. c = CHR ''-'') (squash False (js_lower name)))"
  have b: "slug_base name = (let base = strip_end (CHR ''-'') s in if base = [] then ''profile'' else base)"
    by (simp add: slug_base_def s_def)
  have all: "list_all slug_or_dash s"
    using squash_chars [of False "js_lower name"]
    by (auto simp: s_def list_all_iff dest: in_set_takeD set_dropWhileD)
  have p: "list_all slug_or_dash ''profile''" "slug_char (CHR ''p'')"
    by (simp_all add: slug_or_dash_def slug_char_def is_lower_def is_digit_def code_def)
  have pre: "\<exists>r. s = strip_end (CHR ''-'') s @ r"
    unfolding strip_end_def by (metis rev_append rev_rev_ident takeWhile_dropWhile_id)
  then obtain r where r: "s = strip_end (CHR ''-'') s @ r" by blast
  have hd: "slug_char (hd (strip_end (CHR ''-'') s))" if "strip_end (CHR ''-'') s \<noteq> []"
  proof -
    have "hd (strip_end (CHR ''-'') s) = hd s" using r that by (metis hd_append2)
    moreover have "s \<noteq> []" using that by (auto simp: strip_end_def)
    moreover have "hd s \<noteq> CHR ''-''" using \<open>s \<noteq> []\<close> hd_dropWhile [of "\<lambda>c. c = CHR ''-''"] unfolding s_def by fastforce
    ultimately show ?thesis using all by (cases s) (auto simp: slug_or_dash_def)
  qed
  show "slug_base name \<noteq> []" by (simp add: b Let_def)
  have "length (strip_end (CHR ''-'') s) \<le> length s" by (metis r length_append le_add1)
  then show "length (slug_base name) \<le> 48" by (simp add: b Let_def s_def)
  show "list_all slug_or_dash (slug_base name)"
    using all p(1) by (subst (asm) r) (simp add: b Let_def)
  show "slug_char (hd (slug_base name))" using hd p(2) by (simp add: b Let_def)
qed

lemma free_id_free: "\<not> is_taken taken (free_id taken base n)"
  by (induction taken base n rule: free_id.induct) (subst free_id.simps, simp)

text \<open>Each number passed over is another id that is taken.\<close>

lemma free_id_number:
  "\<exists>k. free_id taken base n = numbered base (int k) \<and> k \<le> n + card (taken_from taken base (int n))"
proof (induction taken base n rule: free_id.induct)
  case (1 taken base n)
  show ?case
  proof (cases "is_taken taken (numbered base (int n))")
    case False
    then show ?thesis by (intro exI [of _ n]) (simp add: free_id.simps)
  next
    case True
    with 1 obtain k where "free_id taken base (Suc n) = numbered base (int k)"
      "k \<le> Suc n + card (taken_from taken base (int (Suc n)))" by blast
    moreover have "card (taken_from taken base (int (Suc n))) < card (taken_from taken base (int n))"
      using taken_from_less [OF True] by (simp add: add.commute)
    ultimately show ?thesis using True by (intro exI [of _ k]) (simp add: free_id.simps)
  qed
qed

lemma card_taken_from: "card (taken_from taken base n) \<le> length taken"
proof -
  have "taken_from taken base n \<subseteq> set taken"
  proof
    fix pid
    assume "pid \<in> taken_from taken base n"
    then obtain m where m: "pid \<in> set taken \<union> set RESERVED_IDS" "pid = numbered base m" by (auto simp: taken_from_def)
    then have "CHR ''-'' \<in> set pid" by (simp add: numbered_def)
    then show "pid \<in> set taken" using m(1) by (auto simp: RESERVED_IDS_def)
  qed
  then show ?thesis by (meson List.finite_set card_length card_mono le_trans)
qed

section \<open>Properties: ids\<close>

lemma is_profile_id_slug:
  "s \<noteq> [] \<Longrightarrow> slug_char (hd s) \<Longrightarrow> length s \<le> 64 \<Longrightarrow> list_all slug_or_dash s \<Longrightarrow> is_profile_id s"
  by (cases s) (auto simp: is_profile_id_def slug_or_dash_def list_all_iff)

lemma profileSlug_fresh_id: "profileSlug name taken \<notin> set taken \<and> profileSlug name taken \<notin> {''auto'', ''custom''}"
proof (cases "is_taken taken (slug_base name)")
  case False
  then show ?thesis by (auto simp: profileSlug_def Let_def is_taken_def RESERVED_IDS_def)
next
  case True
  then show ?thesis using free_id_free [of taken "slug_base name" 2]
    by (auto simp: profileSlug_def Let_def is_taken_def RESERVED_IDS_def)
qed

text \<open>
  C37: whatever name the owner gives, the search for an id ends with one that no profile has, that is
  not reserved, and that the validation accepts as an id, while a policy holds its at most 64
  profiles.
\<close>

theorem profileSlug_fresh:
  assumes "length taken \<le> 64"
  shows "profileSlug name taken \<notin> set taken \<and> profileSlug name taken \<notin> {''auto'', ''custom''}
    \<and> is_profile_id (profileSlug name taken)"
proof (cases "is_taken taken (slug_base name)")
  case False
  then have "profileSlug name taken = slug_base name" by (simp add: profileSlug_def Let_def)
  with False slug_base_facts [of name] show ?thesis
    by (auto simp: is_taken_def RESERVED_IDS_def intro: is_profile_id_slug)
next
  case True
  then have p: "profileSlug name taken = free_id taken (slug_base name) 2" by (simp add: profileSlug_def Let_def)
  obtain k where k: "free_id taken (slug_base name) 2 = numbered (slug_base name) (int k)"
    "k \<le> 2 + card (taken_from taken (slug_base name) (int 2))"
    using free_id_number [of taken "slug_base name" 2] by blast
  have "k \<le> 66" using k(2) card_taken_from [of taken "slug_base name" "int 2"] assms by simp
  then have "length (dec_pos (int k)) \<le> 2" by (intro dec_pos_small) simp_all
  moreover have "list_all slug_or_dash (dec_pos (int k))"
    using dec_pos_digits [of "int k"] by (auto simp: list_all_iff slug_or_dash_def slug_char_def)
  ultimately have "is_profile_id (numbered (slug_base name) (int k))"
    using slug_base_facts [of name]
    by (intro is_profile_id_slug) (simp_all add: numbered_def dec_def slug_or_dash_def)
  then show ?thesis
    using free_id_free [of taken "slug_base name" 2] by (simp add: p k(1) is_taken_def RESERVED_IDS_def)
qed

theorem profileSlug_fresh_witness:
  "profileSlug ''Living Room!'' [''living-room''] \<notin> set [''living-room'']
   \<and> profileSlug ''Living Room!'' [''living-room''] = ''living-room-2''"
proof
  show "profileSlug ''Living Room!'' [''living-room''] \<notin> set [''living-room'']"
    using profileSlug_fresh [of "[''living-room'']" "''Living Room!''"] by simp
  show "profileSlug ''Living Room!'' [''living-room''] = ''living-room-2''" by code_simp
qed

section \<open>Properties: the edits\<close>

text \<open>The fields that the defaults for older files may touch.\<close>

definition filled_keys :: "string set" where
  "filled_keys = {''displaySharing'', ''videoCodecs'', ''encoderBackend'', ''profiles''}"

lemma with_default_field: "k \<noteq> d \<Longrightarrow> jfield k (with_default d x (JObj m)) = jget m k"
  by (simp add: with_default_obj)

lemma with_default_is_obj: "\<exists>m'. with_default d x (JObj m) = JObj m' \<and> (\<forall>k. k \<noteq> d \<longrightarrow> jget m' k = jget m k)"
  by (simp add: with_default_obj)

lemma upgrade_field:
  assumes "k \<notin> filled_keys"
  shows "jfield k (upgrade_policy (JObj m)) = jget m k"
proof -
  obtain m1 where m1: "with_default ''displaySharing'' JNull (JObj m) = JObj m1" "jget m1 k = jget m k"
    using with_default_is_obj [of "''displaySharing''" JNull m] assms by (auto simp: filled_keys_def)
  obtain m2 where m2: "with_default ''videoCodecs'' (JArr (map JStr VIDEO_CODECS)) (JObj m1) = JObj m2" "jget m2 k = jget m1 k"
    using with_default_is_obj [of "''videoCodecs''" "JArr (map JStr VIDEO_CODECS)" m1] assms by (auto simp: filled_keys_def)
  obtain m3 where m3: "with_default ''encoderBackend'' (JStr DEFAULT_ENCODER_BACKEND) (JObj m2) = JObj m3" "jget m3 k = jget m2 k"
    using with_default_is_obj [of "''encoderBackend''" "JStr DEFAULT_ENCODER_BACKEND" m2] assms by (auto simp: filled_keys_def)
  show ?thesis
    using assms m1(2) m2(2) m3(2) by (simp add: upgrade_policy_def Let_def m1(1) m2(1) m3(1) filled_keys_def)
qed

lemma put_field_obj [simp]: "put_field k x (JObj m) = JObj (jset k x m)"
  by (simp add: put_field_def)

lemma map_field_obj: "map_field k f (JObj m) = (case jget m k of Some x \<Rightarrow> JObj (jset k (f x) m) | None \<Rightarrow> JObj m)"
  by (simp add: map_field_def split: option.splits)

text \<open>An edit that writes one field other than the revision keeps the revision.\<close>

definition keeps_revision :: "json \<Rightarrow> json \<Rightarrow> bool" where
  "keeps_revision policy next \<longleftrightarrow> is_plain_object next \<and> jfield ''revision'' next = jfield ''revision'' policy"

lemma edit_valid:
  assumes "edit policy change = Inr p'"
    and "\<And>next. change policy = Inr next \<Longrightarrow> keeps_revision policy next"
  shows "policy_valid p' \<and> jfield ''revision'' p' = jfield ''revision'' policy"
proof -
  obtain next' where n: "change policy = Inr next'" "validateStreamPolicy next' = Inr p'"
    using assms(1) by (auto simp: edit_def split: sum.splits)
  then have "policy_valid p'" "p' = upgrade_policy next'" unfolding validate_Inr by blast+
  moreover obtain m where "next' = JObj m" "jget m ''revision'' = jfield ''revision'' policy"
    using assms(2) [OF n(1)] by (auto simp: keeps_revision_def is_plain_object_def split: json.splits)
  ultimately show ?thesis using upgrade_field [of "''revision''" m] by (simp add: filled_keys_def)
qed

datatype policy_edit =
    SeedSharing "owner_display list"
  | Sharing "owner_display list" owner_display bool
  | DisplayDefault string "string option"
  | DefaultProfile string
  | Audio bool
  | VideoCodecs "string list"
  | EncoderBackend string
  | ClientMode string
  | AddProfile string string bool "(string \<times> json) list"
  | EditProfile string "(string \<times> json) list"
  | DuplicateProfile string
  | RemoveProfile string
  | ProfileEnabled string bool
  | AddOption string json
  | RemoveOption string json

definition policy_part :: "(json \<times> json) result \<Rightarrow> json result" where
  "policy_part r = (case r of Inl e \<Rightarrow> Inl e | Inr (p, _) \<Rightarrow> Inr p)"

fun edit_policy :: "policy_edit \<Rightarrow> json \<Rightarrow> json result" where
  "edit_policy (SeedSharing ds) p = seedDisplaySharing p ds"
| "edit_policy (Sharing ds d b) p = setDisplaySharing p ds d b"
| "edit_policy (DisplayDefault d pid) p = setDisplayDefault p d pid"
| "edit_policy (DefaultProfile pid) p = setDefaultProfile p pid"
| "edit_policy (Audio b) p = setAudio_policy p b"
| "edit_policy (VideoCodecs ids) p = setVideoCodecs p ids"
| "edit_policy (EncoderBackend b) p = setEncoderBackend p b"
| "edit_policy (ClientMode c) p = setClientMode p c"
| "edit_policy (AddProfile n d b opts) p = policy_part (addProfile p n d b opts)"
| "edit_policy (EditProfile pid ch) p = editProfile p pid ch"
| "edit_policy (DuplicateProfile pid) p = policy_part (duplicateProfile p pid)"
| "edit_policy (RemoveProfile pid) p = removeProfile p pid"
| "edit_policy (ProfileEnabled pid b) p = setProfileEnabled p pid b"
| "edit_policy (AddOption k x) p = addAllowedOption p k x"
| "edit_policy (RemoveOption k x) p = removeAllowedOption p k x"

text \<open>An edit that throws leaves the policy as it was.\<close>

definition edit_step :: "json \<Rightarrow> policy_edit \<Rightarrow> json" where
  "edit_step p e = (case edit_policy e p of Inr p' \<Rightarrow> p' | Inl _ \<Rightarrow> p)"

lemma keeps_put: "is_plain_object p \<Longrightarrow> k \<noteq> ''revision'' \<Longrightarrow> keeps_revision p (put_field k x p)"
  by (auto simp: keeps_revision_def is_plain_object_def split: json.splits)

lemma keeps_map: "is_plain_object p \<Longrightarrow> k \<noteq> ''revision'' \<Longrightarrow> keeps_revision p (map_field k f p)"
  by (auto simp: keeps_revision_def is_plain_object_def map_field_obj split: json.splits option.splits)

lemmas keeps_simps = keeps_put keeps_map set_profiles_def set_option_def push_profile_def

lemma policy_valid_obj: "policy_valid p \<Longrightarrow> is_plain_object p"
  using policy_validD(1) [of p] by (auto simp: is_plain_object_def)

lemma hint_Inr [simp]: "withDefaultHint r = Inr v \<longleftrightarrow> r = Inr v"
  by (cases r) (auto simp: withDefaultHint_def)

lemma push_new_edit: "policy_part (push_new p x) = edit p (\<lambda>next. Inr (push_profile x next))"
  by (auto simp: push_new_def policy_part_def split: sum.splits)

lemma seed_valid:
  assumes "policy_valid p" "seedDisplaySharing p ds = Inr p'"
  shows "policy_valid p' \<and> jfield ''revision'' p' = jfield ''revision'' p"
proof (cases "jfield ''displaySharing'' p = Some JNull")
  case False
  with assms show ?thesis by (simp add: seedDisplaySharing_def)
next
  case True
  with assms policy_valid_obj show ?thesis
    unfolding seedDisplaySharing_def by (auto elim!: edit_valid simp: keeps_simps)
qed

lemma edit_policy_valid:
  assumes "policy_valid p" "edit_policy e p = Inr p'"
  shows "policy_valid p' \<and> jfield ''revision'' p' = jfield ''revision'' p"
proof -
  have obj: "is_plain_object p" by (rule policy_valid_obj [OF assms(1)])
  have ed: "policy_valid p' \<and> jfield ''revision'' p' = jfield ''revision'' p"
    if "edit p (\<lambda>next. Inr (f next)) = Inr p'" "keeps_revision p (f p)" for f
    using that by (elim edit_valid) auto
  have changed: "policy_valid p' \<and> jfield ''revision'' p' = jfield ''revision'' p"
    if "editProfile p pid ch = Inr p'" for pid ch
    using that obj unfolding editProfile_def hint_Inr
    by (elim edit_valid) (auto simp: keeps_simps split: sum.splits)
  show ?thesis
  proof (cases e)
    case (SeedSharing ds)
    with assms show ?thesis by (auto dest: seed_valid)
  next
    case (Sharing ds d b)
    then obtain s where s: "seedDisplaySharing p ds = Inr s"
      "edit s (\<lambda>next. Inr (map_field ''displaySharing'' (assign_key (od_id d) (JBool b)) next)) = Inr p'"
      using assms(2) by (auto simp: setDisplaySharing_def split: if_splits sum.splits)
    note sv = seed_valid [OF assms(1) s(1)]
    have "policy_valid p' \<and> jfield ''revision'' p' = jfield ''revision'' s"
      using s(2) by (rule edit_valid) (use policy_valid_obj sv in \<open>auto simp: keeps_simps\<close>)
    with sv show ?thesis by simp
  next
    case (DisplayDefault d pid)
    with assms(2) obj show ?thesis by (auto simp: setDisplayDefault_def keeps_simps elim!: edit_valid)
  next
    case (EditProfile pid ch)
    with assms(2) changed show ?thesis by simp
  next
    case (ProfileEnabled pid b)
    with assms(2) changed show ?thesis by (simp add: setProfileEnabled_def)
  next
    case (RemoveProfile pid)
    then have "removeProfile p pid = Inr p'" using assms(2) by simp
    then show ?thesis
      unfolding removeProfile_def hint_Inr by (rule edit_valid) (use obj in \<open>auto simp: keeps_simps split: sum.splits\<close>)
  next
    case (AddOption k x)
    with assms(2) obj show ?thesis
      by (auto simp: addAllowedOption_def keeps_simps split: sum.splits if_splits elim!: edit_valid)
  next
    case (RemoveOption k x)
    with assms(2) obj show ?thesis
      by (auto simp: removeAllowedOption_def keeps_simps split: sum.splits if_splits elim!: edit_valid)
  next
    case (DuplicateProfile pid)
    with assms(2) obj show ?thesis
      by (auto simp: duplicateProfile_def Let_def push_new_edit keeps_simps policy_part_def push_new_def split: sum.splits elim!: edit_valid)
  qed (use assms(2) obj in \<open>auto simp: setDefaultProfile_def setAudio_policy_def setVideoCodecs_def setEncoderBackend_def
      setClientMode_def addProfile_def push_new_edit keeps_simps elim!: edit_valid\<close>)
qed

interpretation edits: step_system edit_step "\<lambda>p. policy_valid p \<and> jfield ''revision'' p = r"
  by unfold_locales (auto simp: edit_step_def split: sum.splits dest: edit_policy_valid)

text \<open>
  C35: any sequence of the owner's edits of a valid policy, refused ones included, ends in a policy
  that loads unchanged and still has the revision it started with: only the store moves revisions.
\<close>

theorem edits_valid:
  assumes "validateStreamPolicy p = Inr p"
  shows "validateStreamPolicy (run edit_step p es) = Inr (run edit_step p es)
    \<and> jfield ''revision'' (run edit_step p es) = jfield ''revision'' p"
proof -
  have "policy_valid p" using assms unfolding validate_Inr by blast
  then have "policy_valid (run edit_step p es) \<and> jfield ''revision'' (run edit_step p es) = jfield ''revision'' p"
    using edits.run_inv [of p "jfield ''revision'' p"] by blast
  then show ?thesis unfolding validate_Inr by (simp add: upgrade_policy_id)
qed

lemma default_policy_valid: "validateStreamPolicy defaultStreamPolicy = Inr defaultStreamPolicy"
  by code_simp



theorem edits_valid_witness:
  "validateStreamPolicy (run edit_step defaultStreamPolicy [Audio False, RemoveProfile ''mobile''])
   = Inr (run edit_step defaultStreamPolicy [Audio False, RemoveProfile ''mobile''])
   \<and> jfield ''allowAudio'' (edit_step defaultStreamPolicy (Audio False)) = Some (JBool False)"
proof
  show "validateStreamPolicy (run edit_step defaultStreamPolicy [Audio False, RemoveProfile ''mobile''])
   = Inr (run edit_step defaultStreamPolicy [Audio False, RemoveProfile ''mobile''])"
    using edits_valid [OF default_policy_valid] by blast
  show "jfield ''allowAudio'' (edit_step defaultStreamPolicy (Audio False)) = Some (JBool False)" by code_simp
qed

section \<open>Properties: adding and removing\<close>

lemma jset_twice: "jset k v (jset k w m) = jset k v m"
  by (induction m) auto

lemma upgrade_complete:
  assumes "\<forall>k \<in> set POLICY_KEYS. jhas m k" "jget m ''profiles'' = Some (JArr ps)" "\<And>p. p \<in> set ps \<Longrightarrow> upgrade_profile p = p"
  shows "upgrade_policy (JObj m) = JObj m"
proof -
  have "map upgrade_profile ps = ps" using assms(3) by (intro map_idI)
  with assms(1,2) show ?thesis
    by (simp add: upgrade_policy_def Let_def with_default_obj POLICY_KEYS_def is_arr_def arr_of_def jset_same)
qed

lemma policy_valid_shape:
  assumes "policy_valid p"
  obtains m ps where "p = JObj m" "\<forall>k \<in> set POLICY_KEYS. jhas m k" "jget m ''profiles'' = Some (JArr ps)"
    "\<And>q. q \<in> set ps \<Longrightarrow> upgrade_profile q = q" "policy_profiles p = ps"
proof -
  obtain m where m: "p = JObj m" "\<forall>k \<in> set POLICY_KEYS. jhas m k" using policy_validD(1) [OF assms] by blast
  then obtain ps where ps: "jget m ''profiles'' = Some (JArr ps)"
    using policy_validD(2) [OF assms] by (auto simp: is_arr_def split: option.splits json.splits)
  moreover have "policy_profiles p = ps" using m(1) ps by (simp add: policy_profiles_def arr_of_def)
  ultimately show thesis using m policy_validD(3) [OF assms] by (intro that) (auto intro: upgrade_profile_id)
qed

lemma option_key_cases: "optionKey kind = Inr k \<Longrightarrow> k \<in> {''resolutions'', ''frameRates'', ''bitratesKbps''}"
  by (auto simp: optionKey_def OPTION_KINDS_def split: if_splits)

lemma options_shape:
  assumes "policy_valid p" "k \<in> {''resolutions'', ''frameRates'', ''bitratesKbps''}"
  shows "\<exists>opts rows. jfield ''allowedOptions'' p = Some (JObj opts) \<and> jget opts k = Some (JArr rows)"
proof -
  have c: "first_error (option_checks p) = None" using policy_valid_parts(7) [OF assms(1)] .
  then obtain opts where o: "jfield ''allowedOptions'' p = Some (JObj opts)"
    unfolding option_checks_def Let_def first_error_pair object_checks_pass by blast
  have "is_arr (jget opts k)"
    using c assms(2) unfolding option_checks_def Let_def first_error_pair o by (auto simp: list_check_def split: if_splits)
  with o show ?thesis by (auto simp: is_arr_def split: option.splits json.splits)
qed

lemma set_option_obj:
  assumes "jget m ''allowedOptions'' = Some (JObj opts)" "jget opts k = Some (JArr rows)"
  shows "set_option k f (JObj m) = JObj (jset ''allowedOptions'' (JObj (jset k (JArr (f rows)) opts)) m)"
  using assms by (simp add: set_option_def map_field_obj arr_of_def)

lemma sameOption_refl: "sameOption kind x x"
  by (simp add: sameOption_def)

text \<open>
  Removing the option just added gives back the policy, whatever the kind: an option counts as
  present exactly when adding it is refused.
\<close>

theorem option_added_removed:
  assumes "validateStreamPolicy p = Inr p" "addAllowedOption p kind x = Inr p'"
  shows "removeAllowedOption p' kind x = Inr p"
proof -
  have v: "policy_valid p" using assms(1) unfolding validate_Inr by blast
  obtain k where k: "optionKey kind = Inr k" using assms(2) by (auto simp: addAllowedOption_def split: sum.splits)
  have new: "\<forall>row \<in> set (allowed_option p k). \<not> sameOption kind row x"
    and e: "edit p (\<lambda>next. Inr (set_option k (\<lambda>rows. rows @ [x]) next)) = Inr p'"
    using assms(2) k by (auto simp: addAllowedOption_def split: if_splits)
  obtain m ps where m: "p = JObj m" "\<forall>k \<in> set POLICY_KEYS. jhas m k" "jget m ''profiles'' = Some (JArr ps)"
    "\<And>q. q \<in> set ps \<Longrightarrow> upgrade_profile q = q" by (rule policy_valid_shape [OF v]) blast
  obtain opts rows where o: "jget m ''allowedOptions'' = Some (JObj opts)" "jget opts k = Some (JArr rows)"
    using options_shape [OF v option_key_cases [OF k]] m(1) by auto
  define m' where "m' = jset ''allowedOptions'' (JObj (jset k (JArr (rows @ [x])) opts)) m"
  have "upgrade_policy (JObj m') = JObj m'"
    using m by (intro upgrade_complete) (auto simp: m'_def)
  then have p': "p' = JObj m'"
    using e o m(1) unfolding edit_def by (simp add: set_option_obj validate_Inr flip: m'_def)
  have o': "jget m' ''allowedOptions'' = Some (JObj (jset k (JArr (rows @ [x])) opts))" by (simp add: m'_def)
  have rows: "allowed_option p k = rows" "allowed_option p' k = rows @ [x]"
    using m(1) o by (simp_all add: allowed_option_def arr_of_def p' o')
  have "set_option k (filter (\<lambda>row. \<not> sameOption kind row x)) p' = JObj (jset ''allowedOptions'' (JObj (jset k (JArr rows) opts)) m)"
    using new rows(1) unfolding p'
    by (subst set_option_obj [OF o', of k "rows @ [x]"]) (simp_all add: m'_def jset_twice sameOption_refl)
  also have "\<dots> = p" using o m(1) by (simp add: jset_same)
  finally show ?thesis
    using k rows(2) assms(1) sameOption_refl by (simp add: removeAllowedOption_def edit_def)
qed

theorem option_added_removed_witness:
  "\<exists>p'. addAllowedOption defaultStreamPolicy ''framerate'' (JInt 60) = Inr p'
    \<and> removeAllowedOption p' ''framerate'' (JInt 60) = Inr defaultStreamPolicy"
proof -
  have "is_ok (addAllowedOption defaultStreamPolicy ''framerate'' (JInt 60))" by code_simp
  then obtain p' where p': "addAllowedOption defaultStreamPolicy ''framerate'' (JInt 60) = Inr p'"
    by (auto simp: is_ok_def split: sum.splits)
  with option_added_removed [OF default_policy_valid p'] show ?thesis by blast
qed

lemma push_profile_obj:
  "jget m ''profiles'' = Some (JArr ps) \<Longrightarrow> push_profile x (JObj m) = JObj (jset ''profiles'' (JArr (ps @ [x])) m)"
  by (simp add: push_profile_def map_field_obj arr_of_def)

lemma policy_size: "policy_valid p \<Longrightarrow> length (policy_profiles p) \<le> 64"
  using policy_valid_parts(3) [of p] by (simp add: list_check_def policy_profiles_def split: if_splits)

lemma profile_id_taken: "policy_valid p \<Longrightarrow> row \<in> set (policy_profiles p) \<Longrightarrow> pid \<notin> set (profile_ids p) \<Longrightarrow> \<not> has_id pid row"
  using policy_validD(3) profile_checks_valid by (auto simp: profile_ids_def has_id_def str_of_def image_iff)

lemma push_new_profile:
  assumes "policy_valid p" "push_new p x = Inr (p', y)" "upgrade_profile x = x"
  shows "y = x \<and> policy_profiles p' = policy_profiles p @ [x] \<and> policy_valid p'
    \<and> set_profiles (\<lambda>_. policy_profiles p) p' = p"
proof -
  obtain m ps where m: "p = JObj m" "\<forall>k \<in> set POLICY_KEYS. jhas m k" "jget m ''profiles'' = Some (JArr ps)"
    "\<And>q. q \<in> set ps \<Longrightarrow> upgrade_profile q = q" "policy_profiles p = ps" by (rule policy_valid_shape [OF assms(1)]) blast
  define m' where "m' = jset ''profiles'' (JArr (ps @ [x])) m"
  have up: "upgrade_policy (JObj m') = JObj m'"
    using m assms(3) by (intro upgrade_complete [of _ "ps @ [x]"]) (auto simp: m'_def)
  have "edit p (\<lambda>next. Inr (push_profile x next)) = Inr p'" "y = x"
    using assms(2) by (auto simp: push_new_def split: sum.splits)
  then have p': "p' = JObj m'" "policy_valid p'"
    using m(1,3) up unfolding edit_def by (simp_all add: push_profile_obj validate_Inr flip: m'_def) metis
  then show ?thesis
    using m \<open>y = x\<close> by (simp add: policy_profiles_def arr_of_def m'_def set_profiles_def jset_twice jset_same)
qed

lemma set_profiles_twice: "set_profiles f (set_profiles (\<lambda>_. xs) p) = (if is_plain_object p then set_profiles (\<lambda>_. f xs) p else p)"
  by (cases p) (simp_all add: set_profiles_def put_field_def is_plain_object_def policy_profiles_def arr_of_def jset_twice)

lemma new_profile_upgrade: "upgrade_profile (new_profile p name d b opts) = new_profile p name d b opts"
  by (simp add: new_profile_def upgrade_profile_def is_plain_object_def Let_def with_default_obj jhas_def)

text \<open>
  Adding a profile appends exactly that profile, under an id that no other profile has, and
  removing it again gives back the policy.
\<close>

theorem profile_added_removed:
  assumes "validateStreamPolicy p = Inr p" "addProfile p name d b opts = Inr (p', profile)"
  shows "policy_profiles p' = policy_profiles p @ [profile]
    \<and> str_of (jfield ''id'' profile) \<notin> set (profile_ids p)
    \<and> removeProfile p' (str_of (jfield ''id'' profile)) = Inr p"
proof -
  define pid where "pid = profileSlug name (profile_ids p)"
  have v: "policy_valid p" using assms(1) unfolding validate_Inr by blast
  have "push_new p (new_profile p name d b opts) = Inr (p', profile)" using assms(2) by (simp add: addProfile_def)
  from push_new_profile [OF v this new_profile_upgrade]
  have new: "profile = new_profile p name d b opts" "policy_profiles p' = policy_profiles p @ [profile]"
    "policy_valid p'" "set_profiles (\<lambda>_. policy_profiles p) p' = p" by blast+
  have i: "jfield ''id'' profile = Some (JStr pid)" by (simp add: new(1) new_profile_def pid_def)
  have "length (profile_ids p) \<le> 64" using policy_size [OF v] by (simp add: profile_ids_def)
  then have fresh: "pid \<notin> set (profile_ids p)" using profileSlug_fresh_id [of name "profile_ids p"] by (simp add: pid_def)
  have others: "filter (\<lambda>row. \<not> has_id pid row) (policy_profiles p) = policy_profiles p"
    using profile_id_taken [OF v _ fresh] by (simp add: filter_id_conv)
  have "find (has_id pid) (policy_profiles p') \<noteq> None"
    using i by (auto simp: find_None_iff new(2) has_id_def)
  moreover have "set_profiles (filter (\<lambda>row. \<not> has_id pid row)) p' = p"
    using others i new(2,4) by (simp add: set_profiles_def has_id_def)
  ultimately have "removeProfile p' pid = Inr p"
    using assms(1) by (auto simp: removeProfile_def edit_def findProfile_def split: option.splits)
  then show ?thesis using new(2) fresh i by (simp add: str_of_def)
qed

theorem profile_added_removed_witness:
  "\<exists>p' profile. addProfile defaultStreamPolicy ''Living Room'' '''' True [] = Inr (p', profile)
    \<and> removeProfile p' (str_of (jfield ''id'' profile)) = Inr defaultStreamPolicy"
proof -
  have "is_ok (addProfile defaultStreamPolicy ''Living Room'' '''' True [])" by code_simp
  then obtain r where r: "addProfile defaultStreamPolicy ''Living Room'' '''' True [] = Inr r"
    by (auto simp: is_ok_def split: sum.splits)
  obtain p' profile where pp: "r = (p', profile)" by fastforce
  with profile_added_removed [OF default_policy_valid, of "''Living Room''" "''''" True "[]" p' profile] r
  show ?thesis by blast
qed

section \<open>Properties: the order\<close>

abbreviation row_id :: "json \<Rightarrow> string" where
  "row_id p \<equiv> str_of (jfield ''id'' p)"

lemma available_rows_snoc: "available_rows (ps @ [p]) = jset (row_id p) p (available_rows ps)"
  by (simp add: available_rows_def)

lemma available_rows_has: "jhas (available_rows ps) i \<longleftrightarrow> i \<in> row_id ` set ps"
proof (induction ps rule: rev_induct)
  case (snoc p ps)
  then show ?case by (auto simp: available_rows_snoc)
qed (simp add: available_rows_def)

lemma available_rows_get: "distinct (map row_id ps) \<Longrightarrow> p \<in> set ps \<Longrightarrow> jget (available_rows ps) (row_id p) = Some p"
proof (induction ps rule: rev_induct)
  case (snoc q ps)
  then show ?case by (cases "row_id p = row_id q") (auto simp: available_rows_snoc image_iff)
qed simp

lemma ordered_by_mset:
  assumes "distinct (map row_id ps)" "distinct ids"
  shows "mset (ordered_by ids ps) = mset ps"
proof -
  define picked where "picked = map (\<lambda>i. the (jget (available_rows ps) i)) (filter (jhas (available_rows ps)) ids)"
  have pick: "the (jget (available_rows ps) i) \<in> set ps \<and> row_id (the (jget (available_rows ps) i)) = i"
    if "i \<in> row_id ` set ps" for i
    using that available_rows_get [OF assms(1)] by auto
  have set_picked: "set picked = {p \<in> set ps. row_id p \<in> set ids}"
  proof
    show "set picked \<subseteq> {p \<in> set ps. row_id p \<in> set ids}"
      using pick by (auto simp: picked_def available_rows_has)
    show "{p \<in> set ps. row_id p \<in> set ids} \<subseteq> set picked"
    proof
      fix p
      assume "p \<in> {p \<in> set ps. row_id p \<in> set ids}"
      then have "p = the (jget (available_rows ps) (row_id p))" "row_id p \<in> set (filter (jhas (available_rows ps)) ids)"
        using available_rows_get [OF assms(1)] by (auto simp: available_rows_has)
      then show "p \<in> set picked" unfolding picked_def set_map by (rule image_eqI)
    qed
  qed
  have "distinct (map row_id picked)"
  proof -
    have "map row_id picked = filter (jhas (available_rows ps)) ids"
      using pick unfolding picked_def map_map by (intro map_idI) (auto simp: available_rows_has)
    with assms(2) show ?thesis by simp
  qed
  then have "distinct picked" by (simp add: distinct_map)
  moreover have "distinct ps" using assms(1) by (simp add: distinct_map)
  ultimately have "distinct (ordered_by ids ps)" "set (ordered_by ids ps) = set ps"
    unfolding ordered_by_def picked_def [symmetric] using set_picked by auto
  with \<open>distinct ps\<close> show ?thesis by (simp add: set_eq_iff_mset_eq_distinct)
qed

text \<open>
  The order of the profiles is a preference only: whatever the file holds, the viewer's list has
  exactly the profiles of the policy, each once.
\<close>

theorem profile_order_permutes:
  assumes "validateStreamPolicy p = Inr p"
  shows "mset (applyProfileOrder file (policy_profiles p)) = mset (policy_profiles p)"
proof -
  have v: "policy_valid p" using assms unfolding validate_Inr by blast
  have d: "distinct (map row_id ps) \<and> set ids \<inter> row_id ` set ps = {}" if "first_error (profiles_checks ids ps) = None" for ids ps
    using that by (induction ids ps rule: profiles_checks.induct) (auto simp: first_error_pair profile_checks_def split: if_splits)
  have dist: "distinct (map row_id (policy_profiles p))"
    using d [OF policy_valid_parts(4) [OF v]] by (simp add: policy_profiles_def)
  have ids: "distinct (map (\<lambda>v. str_of (Some v)) xs)" if "distinct xs" "list_all order_id xs" for xs
  proof -
    have "inj_on (\<lambda>v. str_of (Some v)) (set xs)"
      using that(2) by (auto simp: inj_on_def str_of_def order_id_def list_all_iff split: json.splits)
    with that(1) show ?thesis by (simp add: distinct_map)
  qed
  show ?thesis
    using ordered_by_mset [OF dist] ids
    by (auto simp: applyProfileOrder_def validProfileOrder_def arr_of_def split: option.splits json.splits)
qed

theorem profile_order_permutes_witness:
  "mset (applyProfileOrder (Some (20, JArr [JStr ''desktop'', JStr ''gone''])) (policy_profiles defaultStreamPolicy))
   = mset (policy_profiles defaultStreamPolicy)
   \<and> map row_id (applyProfileOrder (Some (20, JArr [JStr ''desktop'', JStr ''gone''])) (policy_profiles defaultStreamPolicy))
     = [''desktop'', ''iphone-720p-test'', ''mobile'', ''balanced'', ''low-bandwidth'']"
proof
  show "mset (applyProfileOrder (Some (20, JArr [JStr ''desktop'', JStr ''gone''])) (policy_profiles defaultStreamPolicy))
   = mset (policy_profiles defaultStreamPolicy)"
    by (rule profile_order_permutes [OF default_policy_valid])
  show "map row_id (applyProfileOrder (Some (20, JArr [JStr ''desktop'', JStr ''gone''])) (policy_profiles defaultStreamPolicy))
     = [''desktop'', ''iphone-720p-test'', ''mobile'', ''balanced'', ''low-bandwidth'']" by code_simp
qed

end
