(* ===== verification/StreamRegistry.thy ===== *)
theory StreamRegistry
  imports MediaModes PolicyEdits
begin

text \<open>
  \<^verbatim>\<open>apps/server/src/stream-registry.mjs\<close>: the shared sources, one capture and encode each, and the viewers'
  subscriptions to them, within the host's budgets. Fresh ids (\<^verbatim>\<open>randomUUID\<close>) are arguments, and differ
  from the ids in use. Numbers of a plan are checked to be safe integers before anything is computed with
  them.
\<close>

section \<open>Plans and keys\<close>

definition AUDIO_FORMATS :: "string list" where "AUDIO_FORMATS = [''mono-32k'', ''stereo-96k'']"

definition audioFormat :: "int option \<Rightarrow> string" where
  "audioFormat fps = (if fps = Some 15 then ''mono-32k'' else ''stereo-96k'')"

record screen =
  sn_id :: string
  sn_x :: int
  sn_y :: int
  sn_width :: int
  sn_height :: int
  sn_rotation :: int

record video_profile =
  vp_name :: string
  vp_width :: jsvalue
  vp_height :: jsvalue
  vp_fps :: jsvalue
  vp_bitrateKbps :: jsvalue
  vp_bitrateMode :: "string option"
  vp_quality :: "string option"
  vp_stretch :: bool

text \<open>A plan without a display has the fields of the key empty.\<close>

datatype plan =
    AudioPlan string
  | VideoPlan (plan_profile: "video_profile option") (plan_display: "screen option") (plan_revision: int) (plan_codec: "string option")

definition num_text :: "jsvalue \<Rightarrow> string" where
  "num_text v = dec (whole_value v)"

definition screen_text :: "screen option \<Rightarrow> string" where
  "screen_text d =
     (case d of
        None \<Rightarrow> '',,,,''
      | Some s \<Rightarrow> join_with '','' [dec (sn_x s), dec (sn_y s), dec (sn_width s), dec (sn_height s), dec (sn_rotation s)])"

definition rate_text :: "video_profile \<Rightarrow> string" where
  "rate_text p =
     (let bitrateMode = (case vp_bitrateMode p of Some m \<Rightarrow> m | None \<Rightarrow> DEFAULT_BITRATE_MODE)
      in if bitrateMode = ''vbr'' then ''vbr:'' @ (case vp_quality p of Some q \<Rightarrow> q | None \<Rightarrow> DEFAULT_QUALITY)
         else bitrateMode)"

definition size_text :: "video_profile \<Rightarrow> string" where
  "size_text p = num_text (vp_width p) @ ''x'' @ num_text (vp_height p) @ ''@'' @ num_text (vp_fps p)
     @ (if vp_stretch p then '':stretch'' else '''')"

definition video_fields :: "video_profile \<Rightarrow> screen option \<Rightarrow> int \<Rightarrow> string option \<Rightarrow> string list" where
  "video_fields p d revision codec =
     [''video'', dec revision, (case d of Some s \<Rightarrow> sn_id s | None \<Rightarrow> ''''), screen_text d, size_text p,
      num_text (vp_bitrateKbps p), rate_text p, (case codec of Some c \<Rightarrow> c | None \<Rightarrow> ''h264'')]"

fun sourceKey_plan :: "plan \<Rightarrow> string" where
  "sourceKey_plan (AudioPlan format) = ''audio|'' @ format"
| "sourceKey_plan (VideoPlan (Some p) d revision codec) = join_with ''|'' (video_fields p d revision codec)"
| "sourceKey_plan (VideoPlan None d revision codec) = []"

section \<open>The registry\<close>

datatype source_state = SStarting | SReady | SClosing
datatype stream_state = Starting | Live | Closing

record source =
  so_key :: string
  so_plan :: plan
  so_pixels :: int
  so_state :: source_state
  so_subscriptions :: "string list"

record stream =
  sm_session :: string
  sm_source :: string
  sm_state :: stream_state
  sm_plan :: plan

record limits =
  maxStreams :: nat
  perSession :: nat
  bitrateLimit :: int
  pixelsLimit :: int

record stream_registry =
  rg_limits :: limits
  rg_sources :: "(string, source) jmap"
  rg_streams :: "(string, stream) jmap"

definition new_stream_registry :: "jsvalue \<Rightarrow> jsvalue \<Rightarrow> jsvalue \<Rightarrow> jsvalue \<Rightarrow> stream_registry result" where
  "new_stream_registry streams session bitrate pixels =
     (if \<forall>v \<in> {streams, session, bitrate, pixels}. is_safe_integer v \<and> 1 \<le> whole_value v
      then Inr \<lparr>rg_limits = \<lparr>maxStreams = nat (whole_value streams), perSession = nat (whole_value session),
                  bitrateLimit = whole_value bitrate, pixelsLimit = whole_value pixels\<rparr>,
                rg_sources = [], rg_streams = []\<rparr>
      else Inl ''Invalid stream limit'')"

definition is_audio :: "plan \<Rightarrow> bool" where
  "is_audio p = (case p of AudioPlan _ \<Rightarrow> True | VideoPlan _ _ _ _ \<Rightarrow> False)"

definition positive :: "jsvalue \<Rightarrow> bool" where
  "positive v \<longleftrightarrow> is_safe_integer v \<and> 1 \<le> whole_value v"

definition profile_pixels :: "video_profile \<Rightarrow> int" where
  "profile_pixels p = whole_value (vp_width p) * whole_value (vp_height p) * whole_value (vp_fps p)"

text \<open>The pixels per second of a valid plan.\<close>

definition plan_pixels :: "plan \<Rightarrow> int option" where
  "plan_pixels plan =
     (case plan of
        AudioPlan format \<Rightarrow> if format \<in> set AUDIO_FORMATS then Some 0 else None
      | VideoPlan None _ _ _ \<Rightarrow> None
      | VideoPlan (Some p) _ _ _ \<Rightarrow>
          if positive (vp_width p) \<and> positive (vp_height p) \<and> positive (vp_fps p) \<and> positive (vp_bitrateKbps p)
             \<and> (case vp_bitrateMode p of None \<Rightarrow> True | Some m \<Rightarrow> m \<in> set BITRATE_MODES)
             \<and> (case vp_quality p of None \<Rightarrow> True | Some q \<Rightarrow> q \<in> set QUALITY_LEVELS)
             \<and> profile_pixels p \<le> MAX_SAFE_INTEGER
          then Some (profile_pixels p) else None)"

definition plan_bitrate :: "plan \<Rightarrow> int" where
  "plan_bitrate plan = (case plan of VideoPlan (Some p) _ _ _ \<Rightarrow> whole_value (vp_bitrateKbps p) | _ \<Rightarrow> 0)"

definition owned_streams :: "stream_registry \<Rightarrow> string \<Rightarrow> bool \<Rightarrow> stream list" where
  "owned_streams r sessionId audio =
     filter (\<lambda>s. sm_session s = sessionId \<and> is_audio (sm_plan s) = audio) (jvals (rg_streams r))"

definition video_sources :: "stream_registry \<Rightarrow> source list" where
  "video_sources r = filter (\<lambda>s. \<not> is_audio (so_plan s)) (jvals (rg_sources r))"

definition open_source :: "stream_registry \<Rightarrow> string \<Rightarrow> (string \<times> source) option" where
  "open_source r key = find (\<lambda>(_, s). so_key s = key \<and> so_state s \<noteq> SClosing) (rg_sources r)"

text \<open>What stands against one more video source.\<close>

definition budget_error :: "stream_registry \<Rightarrow> plan \<Rightarrow> int \<Rightarrow> string option" where
  "budget_error r plan pixels =
     (let video = video_sources r; l = rg_limits r
      in if maxStreams l \<le> length video then Some ''Stream capacity limit reached''
         else if bitrateLimit l < plan_bitrate plan + sum_list (map (\<lambda>s. plan_bitrate (so_plan s)) video)
           then Some ''Host bitrate budget exceeded''
         else if pixelsLimit l < pixels + sum_list (map so_pixels video) then Some ''Host pixel-rate budget exceeded''
         else None)"

text \<open>The subscription joins the source, and the answer names the stream, the source and whether it is new.\<close>

definition join_source :: "string \<Rightarrow> string \<Rightarrow> plan \<Rightarrow> string \<Rightarrow> source \<Rightarrow> stream_registry \<Rightarrow> stream_registry" where
  "join_source sessionId streamId plan sourceId source r =
     r\<lparr>rg_streams := jset streamId \<lparr>sm_session = sessionId, sm_source = sourceId, sm_state = Starting, sm_plan = plan\<rparr> (rg_streams r),
       rg_sources := jset sourceId (source\<lparr>so_subscriptions := so_subscriptions source @ [streamId]\<rparr>) (rg_sources r)\<rparr>"

definition subscribe ::
  "string \<Rightarrow> string \<Rightarrow> string \<Rightarrow> plan \<Rightarrow> stream_registry \<Rightarrow> (string \<times> bool) result \<times> stream_registry" where
  "subscribe sessionId sourceId streamId plan r =
     (if sessionId = [] then (Inl ''Invalid stream owner'', r)
      else case plan_pixels plan of
        None \<Rightarrow> (Inl ''Invalid stream plan'', r)
      | Some pixels \<Rightarrow>
          if is_audio plan \<and> owned_streams r sessionId True \<noteq> [] then (Inl ''Session audio already active'', r)
          else if \<not> is_audio plan \<and> perSession (rg_limits r) \<le> length (owned_streams r sessionId False)
            then (Inl ''Stream capacity limit reached'', r)
          else (case open_source r (sourceKey_plan plan) of
                  Some (sid, source) \<Rightarrow> (Inr (sid, False), join_source sessionId streamId plan sid source r)
                | None \<Rightarrow>
                    (case (if is_audio plan then None else budget_error r plan pixels) of
                       Some e \<Rightarrow> (Inl e, r)
                     | None \<Rightarrow>
                         (Inr (sourceId, True), join_source sessionId streamId plan sourceId
                           \<lparr>so_key = sourceKey_plan plan, so_plan = plan, so_pixels = pixels, so_state = SStarting,
                            so_subscriptions = []\<rparr> r))))"

text \<open>The source a stream leaves, and whether it was the last; then the source closes.\<close>

definition unsubscribe :: "string \<Rightarrow> stream_registry \<Rightarrow> (string option \<times> bool) \<times> stream_registry" where
  "unsubscribe streamId r =
     (case jget (rg_streams r) streamId of
        None \<Rightarrow> ((None, False), r)
      | Some stream \<Rightarrow>
          (let r = r\<lparr>rg_streams := jdel streamId (rg_streams r)\<rparr>
           in case jget (rg_sources r) (sm_source stream) of
                None \<Rightarrow> ((None, False), r)
              | Some source \<Rightarrow>
                  (let rest = filter (\<lambda>i. i \<noteq> streamId) (so_subscriptions source);
                       last = (rest = [] \<and> so_state source \<noteq> SClosing);
                       source = source\<lparr>so_subscriptions := rest, so_state := (if last then SClosing else so_state source)\<rparr>
                   in ((Some (sm_source stream), last), r\<lparr>rg_sources := jset (sm_source stream) source (rg_sources r)\<rparr>))))"

definition markReady :: "string \<Rightarrow> stream_registry \<Rightarrow> bool \<times> stream_registry" where
  "markReady sourceId r =
     (case jget (rg_sources r) sourceId of
        Some source \<Rightarrow>
          if so_state source \<noteq> SStarting then (False, r)
          else (True, r\<lparr>rg_sources := jset sourceId (source\<lparr>so_state := SReady\<rparr>) (rg_sources r)\<rparr>)
      | None \<Rightarrow> (False, r))"

text \<open>
  Closing sets the state of every subscription of the source; a subscription that is missing would throw.
\<close>

fun close_streams :: "string list \<Rightarrow> (string, stream) jmap \<Rightarrow> (string, stream) jmap option" where
  "close_streams [] m = Some m"
| "close_streams (i # ids) m =
     (case jget m i of None \<Rightarrow> None | Some s \<Rightarrow> close_streams ids (jset i (s\<lparr>sm_state := Closing\<rparr>) m))"

definition closeSource :: "string \<Rightarrow> stream_registry \<Rightarrow> bool result \<times> stream_registry" where
  "closeSource sourceId r =
     (case jget (rg_sources r) sourceId of
        None \<Rightarrow> (Inr False, r)
      | Some source \<Rightarrow>
          (let r = r\<lparr>rg_sources := jset sourceId (source\<lparr>so_state := SClosing\<rparr>) (rg_sources r)\<rparr>
           in case close_streams (so_subscriptions source) (rg_streams r) of
                None \<Rightarrow> (Inl ''Cannot set properties of undefined'', r)
              | Some m \<Rightarrow> (Inr True, r\<lparr>rg_streams := m\<rparr>)))"

definition releaseSource :: "string \<Rightarrow> stream_registry \<Rightarrow> bool \<times> stream_registry" where
  "releaseSource sourceId r =
     (case jget (rg_sources r) sourceId of
        None \<Rightarrow> (False, r)
      | Some source \<Rightarrow>
          (True, r\<lparr>rg_streams := fold jdel (so_subscriptions source) (rg_streams r),
                   rg_sources := jdel sourceId (rg_sources r)\<rparr>))"

definition sourceOf :: "string \<Rightarrow> stream_registry \<Rightarrow> source option" where
  "sourceOf streamId r =
     (case jget (rg_streams r) streamId of Some s \<Rightarrow> jget (rg_sources r) (sm_source s) | None \<Rightarrow> None)"

definition get_stream :: "string \<Rightarrow> string \<Rightarrow> stream_registry \<Rightarrow> stream option" where
  "get_stream sessionId streamId r =
     (case jget (rg_streams r) streamId of
        Some s \<Rightarrow> if sm_session s = sessionId \<and> \<not> is_audio (sm_plan s) then Some s else None
      | None \<Rightarrow> None)"

definition list_streams :: "string option \<Rightarrow> bool \<Rightarrow> stream_registry \<Rightarrow> stream list" where
  "list_streams sessionId audio r =
     filter (\<lambda>s. is_audio (sm_plan s) = audio \<and> (case sessionId of None \<Rightarrow> True | Some i \<Rightarrow> sm_session s = i)) (jvals (rg_streams r))"

definition next_states :: "stream_state \<Rightarrow> stream_state list" where
  "next_states s = (case s of Starting \<Rightarrow> [Live, Closing] | Live \<Rightarrow> [Closing] | Closing \<Rightarrow> [])"

definition transition :: "string \<Rightarrow> string \<Rightarrow> stream_state \<Rightarrow> stream_registry \<Rightarrow> bool \<times> stream_registry" where
  "transition sessionId streamId state r =
     (case jget (rg_streams r) streamId of
        Some s \<Rightarrow>
          if sm_session s \<noteq> sessionId \<or> state \<notin> set (next_states (sm_state s)) then (False, r)
          else (True, r\<lparr>rg_streams := jset streamId (s\<lparr>sm_state := state\<rparr>) (rg_streams r)\<rparr>)
      | None \<Rightarrow> (False, r))"

section \<open>Sequences of calls\<close>

datatype reg_event =
    Subscribe string string string plan
  | Unsubscribe string
  | MarkReady string
  | CloseSource string
  | ReleaseSource string
  | Transition string string stream_state

text \<open>A subscription whose ids are in use does not occur.\<close>

fun reg_step :: "stream_registry \<Rightarrow> reg_event \<Rightarrow> stream_registry" where
  "reg_step r (Subscribe sessionId sourceId streamId plan) =
     (if jhas (rg_sources r) sourceId \<or> jhas (rg_streams r) streamId then r
      else snd (subscribe sessionId sourceId streamId plan r))"
| "reg_step r (Unsubscribe streamId) = snd (unsubscribe streamId r)"
| "reg_step r (MarkReady sourceId) = snd (markReady sourceId r)"
| "reg_step r (CloseSource sourceId) = snd (closeSource sourceId r)"
| "reg_step r (ReleaseSource sourceId) = snd (releaseSource sourceId r)"
| "reg_step r (Transition sessionId streamId state) = snd (transition sessionId streamId state r)"

section \<open>Lemmas: maps\<close>

lemma jset_new: "\<not> jhas m k \<Longrightarrow> jset k v m = m @ [(k, v)]"
  by (induction m) (auto simp: jhas_def split: if_splits)

lemma jvals_update: "jget m k = Some w \<Longrightarrow> g v = g w \<Longrightarrow> map g (jvals (jset k v m)) = map g (jvals m)"
  by (induction m) (auto split: if_splits)

lemma jvals_jdel: "map g (jvals (jdel k m)) = map (\<lambda>p. g (snd p)) (filter (\<lambda>p. fst p \<noteq> k) m)"
  by (induction m) auto

lemma count_jdel_le: "length (filter p (map g (jvals (jdel k m)))) \<le> length (filter p (map g (jvals m)))"
  by (induction m) auto

lemma sum_jdel_le:
  "\<forall>x \<in> set (map g (jvals m)). 0 \<le> f x \<Longrightarrow>
    sum_list (map f (filter p (map g (jvals (jdel k m))))) \<le> (sum_list (map f (filter p (map g (jvals m)))) :: int)"
  by (induction m) auto

section \<open>Lemmas: budgets\<close>

text \<open>What the budgets see of a source, and what the per-session limits see of a stream.\<close>

definition source_cost :: "source \<Rightarrow> plan \<times> int" where
  "source_cost s = (so_plan s, so_pixels s)"

definition stream_owner :: "stream \<Rightarrow> string \<times> bool" where
  "stream_owner s = (sm_session s, is_audio (sm_plan s))"

definition video_costs :: "stream_registry \<Rightarrow> (plan \<times> int) list" where
  "video_costs r = filter (\<lambda>c. \<not> is_audio (fst c)) (map source_cost (jvals (rg_sources r)))"

lemma video_costs_sources: "video_costs r = map source_cost (video_sources r)"
  by (simp add: video_costs_def video_sources_def filter_map comp_def source_cost_def)

definition budget_ok :: "stream_registry \<Rightarrow> bool" where
  "budget_ok r \<longleftrightarrow>
     length (video_costs r) \<le> maxStreams (rg_limits r)
     \<and> sum_list (map (\<lambda>c. plan_bitrate (fst c)) (video_costs r)) \<le> bitrateLimit (rg_limits r)
     \<and> sum_list (map snd (video_costs r)) \<le> pixelsLimit (rg_limits r)
     \<and> 0 \<le> bitrateLimit (rg_limits r) \<and> 0 \<le> pixelsLimit (rg_limits r)
     \<and> (\<forall>c \<in> set (map source_cost (jvals (rg_sources r))). 0 \<le> plan_bitrate (fst c) \<and> 0 \<le> snd c)"

definition sessions_ok :: "stream_registry \<Rightarrow> bool" where
  "sessions_ok r \<longleftrightarrow>
     (\<forall>s. length (filter (\<lambda>w. w = (s, True)) (map stream_owner (jvals (rg_streams r)))) \<le> 1
        \<and> length (filter (\<lambda>w. w = (s, False)) (map stream_owner (jvals (rg_streams r)))) \<le> perSession (rg_limits r))"

lemma owned_count:
  "length (owned_streams r s audio) = length (filter (\<lambda>w. w = (s, audio)) (map stream_owner (jvals (rg_streams r))))"
  by (simp add: owned_streams_def filter_map comp_def stream_owner_def)

lemma budget_same:
  assumes "map source_cost (jvals (rg_sources t)) = map source_cost (jvals (rg_sources r))" "rg_limits t = rg_limits r"
  shows "budget_ok t = budget_ok r"
  unfolding budget_ok_def video_costs_def assms ..

lemma sessions_same:
  assumes "map stream_owner (jvals (rg_streams t)) = map stream_owner (jvals (rg_streams r))" "rg_limits t = rg_limits r"
  shows "sessions_ok t = sessions_ok r"
  unfolding sessions_ok_def assms ..

lemma budget_fewer:
  assumes "budget_ok r" "rg_sources t = jdel k (rg_sources r)" "rg_limits t = rg_limits r"
  shows "budget_ok t"
proof -
  let ?m = "rg_sources r"
  have nn: "\<forall>c \<in> set (map source_cost (jvals ?m)). 0 \<le> plan_bitrate (fst c) \<and> 0 \<le> snd c" using assms(1) by (simp add: budget_ok_def)
  have "length (video_costs t) \<le> length (video_costs r)"
    unfolding video_costs_def assms(2) by (rule count_jdel_le)
  moreover have "sum_list (map (\<lambda>c. plan_bitrate (fst c)) (video_costs t)) \<le> sum_list (map (\<lambda>c. plan_bitrate (fst c)) (video_costs r))"
    unfolding video_costs_def assms(2) using nn by (intro sum_jdel_le) blast
  moreover have "sum_list (map snd (video_costs t)) \<le> sum_list (map snd (video_costs r))"
    unfolding video_costs_def assms(2) using nn by (intro sum_jdel_le) blast
  moreover have "\<forall>c \<in> set (map source_cost (jvals (rg_sources t))). 0 \<le> plan_bitrate (fst c) \<and> 0 \<le> snd c"
    using nn unfolding assms(2) jvals_jdel by auto
  ultimately show ?thesis using assms(1,3) unfolding budget_ok_def by simp
qed

lemma sessions_fewer:
  assumes "sessions_ok r" "rg_streams t = jdel k (rg_streams r)" "rg_limits t = rg_limits r"
  shows "sessions_ok t"
  using assms(1) unfolding sessions_ok_def assms(2,3) by (meson count_jdel_le le_trans)

lemma fold_jdel_Cons: "fold jdel (i # ids) m = fold jdel ids (jdel i m)"
  by simp

lemma sessions_fold:
  "sessions_ok r \<Longrightarrow> sessions_ok (r\<lparr>rg_streams := fold jdel ids (rg_streams r)\<rparr>)"
proof (induction ids arbitrary: r)
  case (Cons i ids)
  have "sessions_ok (r\<lparr>rg_streams := jdel i (rg_streams r)\<rparr>)" using Cons.prems by (rule sessions_fewer) simp_all
  from Cons.IH [OF this] show ?case by simp
qed simp

lemma plan_pixels_nonneg: "plan_pixels p = Some n \<Longrightarrow> 0 \<le> n \<and> 0 \<le> plan_bitrate p"
  by (auto simp: plan_pixels_def plan_bitrate_def profile_pixels_def positive_def split: plan.splits option.splits if_splits
      intro!: mult_nonneg_nonneg)

lemma budget_joined:
  assumes "budget_ok r" "jget (rg_sources r) sid = Some source"
  shows "budget_ok (join_source ses st plan sid source r)"
  by (subst budget_same [of _ r])
    (use assms in \<open>simp_all del: map_map add: join_source_def jvals_update [of _ _ source] source_cost_def\<close>)

lemma budget_new:
  assumes "budget_ok r" "\<not> jhas (rg_sources r) sid" "plan_pixels plan = Some n" "so_plan src = plan" "so_pixels src = n"
    and "is_audio plan \<or> budget_error r plan n = None"
  shows "budget_ok (join_source ses st plan sid src r)"
proof -
  let ?t = "join_source ses st plan sid src r"
  have costs: "map source_cost (jvals (rg_sources ?t)) = map source_cost (jvals (rg_sources r)) @ [(plan, n)]"
    using assms(2,4,5) by (simp add: join_source_def jset_new source_cost_def)
  have l: "rg_limits ?t = rg_limits r" by (simp add: join_source_def)
  have v: "video_costs ?t = video_costs r @ (if is_audio plan then [] else [(plan, n)])"
    unfolding video_costs_def costs by simp
  have nn: "0 \<le> n \<and> 0 \<le> plan_bitrate plan" using plan_pixels_nonneg [OF assms(3)] .
  have sums: "sum_list (map (\<lambda>s. plan_bitrate (so_plan s)) (video_sources r)) = sum_list (map (\<lambda>c. plan_bitrate (fst c)) (video_costs r))"
    "sum_list (map so_pixels (video_sources r)) = sum_list (map snd (video_costs r))" "length (video_sources r) = length (video_costs r)"
    by (simp_all add: video_costs_sources comp_def source_cost_def)
  show ?thesis
  proof (cases "is_audio plan")
    case True
    with assms(1) nn show ?thesis unfolding budget_ok_def v l costs by (auto simp del: map_map set_map)
  next
    case False
    then have e: "budget_error r plan n = None" using assms(6) by simp
    with assms(1) nn False show ?thesis
      unfolding budget_ok_def v l costs
      by (auto simp: budget_error_def Let_def sums simp del: map_map set_map split: if_splits)
  qed
qed

lemma sessions_joined:
  assumes "sessions_ok r" "\<not> jhas (rg_streams r) st"
    and "is_audio plan \<Longrightarrow> owned_streams r ses True = []"
    and "\<not> is_audio plan \<Longrightarrow> length (owned_streams r ses False) < perSession (rg_limits r)"
  shows "sessions_ok (join_source ses st plan sid source r)"
proof -
  let ?t = "join_source ses st plan sid source r"
  have o: "map stream_owner (jvals (rg_streams ?t)) = map stream_owner (jvals (rg_streams r)) @ [(ses, is_audio plan)]"
    using assms(2) by (simp add: join_source_def jset_new stream_owner_def)
  have l: "rg_limits ?t = rg_limits r" by (simp add: join_source_def)
  have a: "is_audio plan \<Longrightarrow> filter (\<lambda>w. w = (ses, True)) (map stream_owner (jvals (rg_streams r))) = []"
    using assms(3) owned_count [of r ses True] by (metis length_0_conv)
  have v: "\<not> is_audio plan \<Longrightarrow> length (filter (\<lambda>w. w = (ses, False)) (map stream_owner (jvals (rg_streams r)))) < perSession (rg_limits r)"
    using assms(4) owned_count [of r ses False] by simp
  define L where "L = map stream_owner (jvals (rg_streams r))"
  show ?thesis using assms(1) a v unfolding sessions_ok_def o l L_def [symmetric] by auto
qed

section \<open>Lemmas: links\<close>

text \<open>
  Sources and streams point at each other, a source without streams is closing, and only one source of a
  key is open.
\<close>

definition links_ok :: "stream_registry \<Rightarrow> bool" where
  "links_ok r \<longleftrightarrow> jmap_ok (rg_sources r) \<and> jmap_ok (rg_streams r)
     \<and> (\<forall>sid src. jget (rg_sources r) sid = Some src \<longrightarrow>
          (\<forall>i. i \<in> set (so_subscriptions src) \<longleftrightarrow> (\<exists>st. jget (rg_streams r) i = Some st \<and> sm_source st = sid))
          \<and> (so_subscriptions src = [] \<longrightarrow> so_state src = SClosing) \<and> so_key src = sourceKey_plan (so_plan src))
     \<and> (\<forall>i st. jget (rg_streams r) i = Some st \<longrightarrow> (\<exists>src. jget (rg_sources r) (sm_source st) = Some src
          \<and> so_key src = sourceKey_plan (sm_plan st)))
     \<and> (\<forall>s1 s2 src1 src2. jget (rg_sources r) s1 = Some src1 \<and> jget (rg_sources r) s2 = Some src2
          \<and> so_state src1 \<noteq> SClosing \<and> so_state src2 \<noteq> SClosing \<and> so_key src1 = so_key src2 \<longrightarrow> s1 = s2)"

lemma linksI:
  assumes "jmap_ok (rg_sources r)" "jmap_ok (rg_streams r)"
    and "\<And>sid src i. jget (rg_sources r) sid = Some src \<Longrightarrow>
          i \<in> set (so_subscriptions src) \<longleftrightarrow> (\<exists>st. jget (rg_streams r) i = Some st \<and> sm_source st = sid)"
    and "\<And>sid src. jget (rg_sources r) sid = Some src \<Longrightarrow> so_subscriptions src = [] \<Longrightarrow> so_state src = SClosing"
    and "\<And>sid src. jget (rg_sources r) sid = Some src \<Longrightarrow> so_key src = sourceKey_plan (so_plan src)"
    and "\<And>i st. jget (rg_streams r) i = Some st \<Longrightarrow> \<exists>src. jget (rg_sources r) (sm_source st) = Some src
          \<and> so_key src = sourceKey_plan (sm_plan st)"
    and "\<And>s1 s2 src1 src2. jget (rg_sources r) s1 = Some src1 \<Longrightarrow> jget (rg_sources r) s2 = Some src2 \<Longrightarrow>
          so_state src1 \<noteq> SClosing \<Longrightarrow> so_state src2 \<noteq> SClosing \<Longrightarrow> so_key src1 = so_key src2 \<Longrightarrow> s1 = s2"
  shows "links_ok r"
  unfolding links_ok_def using assms by blast

lemma linksD:
  assumes "links_ok r"
  shows "jmap_ok (rg_sources r)" "jmap_ok (rg_streams r)"
    and "jget (rg_sources r) sid = Some src \<Longrightarrow>
          i \<in> set (so_subscriptions src) \<longleftrightarrow> (\<exists>st. jget (rg_streams r) i = Some st \<and> sm_source st = sid)"
    and "jget (rg_sources r) sid = Some src \<Longrightarrow> so_subscriptions src = [] \<Longrightarrow> so_state src = SClosing"
    and "jget (rg_sources r) sid = Some src \<Longrightarrow> so_key src = sourceKey_plan (so_plan src)"
    and "jget (rg_streams r) i = Some st \<Longrightarrow> \<exists>src. jget (rg_sources r) (sm_source st) = Some src
          \<and> so_key src = sourceKey_plan (sm_plan st)"
    and "jget (rg_sources r) s1 = Some src1 \<Longrightarrow> jget (rg_sources r) s2 = Some src2 \<Longrightarrow>
          so_state src1 \<noteq> SClosing \<Longrightarrow> so_state src2 \<noteq> SClosing \<Longrightarrow> so_key src1 = so_key src2 \<Longrightarrow> s1 = s2"
  using assms unfolding links_ok_def by blast+

text \<open>Changing a source's state, or dropping a stream from it, keeps the rest.\<close>

lemma links_state:
  assumes "links_ok r" "jget (rg_sources r) sid = Some src" "so_state src' \<noteq> SClosing \<longrightarrow> so_state src \<noteq> SClosing"
    and "so_subscriptions src' = so_subscriptions src" "so_plan src' = so_plan src" "so_key src' = so_key src"
    and "so_subscriptions src = [] \<longrightarrow> so_state src' = SClosing"
  shows "links_ok (r\<lparr>rg_sources := jset sid src' (rg_sources r)\<rparr>)"
proof (rule linksI, goal_cases)
  case (3 s x i)
  then show ?case using linksD(3) [OF assms(1), of s] assms(2,4) by (auto split: if_splits)
next
  case (4 s x)
  then show ?case using linksD(4) [OF assms(1), of s] assms(4,7) by (auto split: if_splits)
next
  case (5 s x)
  then show ?case using linksD(5) [OF assms(1), of s] assms(2,5,6) by (auto split: if_splits)
next
  case (6 i st)
  then show ?case using linksD(6) [OF assms(1), of i st] assms(2,6) by auto
next
  case (7 s1 s2 x1 x2)
  let ?old = "\<lambda>s x. if s = sid then src else x"
  have old: "jget (rg_sources r) s = Some (?old s x) \<and> so_state (?old s x) \<noteq> SClosing \<and> so_key (?old s x) = so_key x"
    if "jget (rg_sources (r\<lparr>rg_sources := jset sid src' (rg_sources r)\<rparr>)) s = Some x" "so_state x \<noteq> SClosing" for s x
    using that assms(2,3,6) by (auto split: if_splits)
  show ?case
    using linksD(7) [OF assms(1), of s1 "?old s1 x1" s2 "?old s2 x2"] old [OF 7(1,3)] old [OF 7(2,4)] 7(5) by metis
qed (use linksD(1,2) [OF assms(1)] in simp_all)

text \<open>Changing the state of a stream changes no link.\<close>

lemma links_streams:
  assumes "links_ok r" "jmap_ok m" "\<And>i. map_option (\<lambda>s. (sm_source s, sm_plan s)) (jget m i) = map_option (\<lambda>s. (sm_source s, sm_plan s)) (jget (rg_streams r) i)"
  shows "links_ok (r\<lparr>rg_streams := m\<rparr>)"
proof (rule linksI, goal_cases)
  case (3 s x i)
  have "(\<exists>st. jget m i = Some st \<and> sm_source st = s) \<longleftrightarrow> (\<exists>st. jget (rg_streams r) i = Some st \<and> sm_source st = s)"
    using assms(3) [of i] by (cases "jget m i"; cases "jget (rg_streams r) i") auto
  then show ?case using linksD(3) [OF assms(1), of s x i] 3 by simp
next
  case (6 i st)
  then obtain st' where "jget (rg_streams r) i = Some st'" "sm_source st' = sm_source st" "sm_plan st' = sm_plan st"
    using assms(3) [of i] by (cases "jget (rg_streams r) i") auto
  then show ?case using linksD(6) [OF assms(1), of i st'] by simp
next
  case (4 s x)
  then show ?case using linksD(4) [OF assms(1), of s x] by simp
next
  case (5 s x)
  then show ?case using linksD(5) [OF assms(1), of s x] by simp
next
  case (7 s1 s2 x1 x2)
  then show ?case using linksD(7) [OF assms(1), of s1 x1 s2 x2] by simp
qed (use linksD(1) [OF assms(1)] assms(2) in simp_all)

lemma links_join:
  assumes "links_ok r" "\<not> jhas (rg_streams r) st"
    and "jget (rg_sources r) sid = Some src \<or> (\<not> jhas (rg_sources r) sid \<and> so_subscriptions src = []
      \<and> (\<forall>s x. jget (rg_sources r) s = Some x \<longrightarrow> so_state x \<noteq> SClosing \<longrightarrow> so_key x \<noteq> so_key src))"
    and "so_key src = sourceKey_plan plan" "so_key src = sourceKey_plan (so_plan src)"
  shows "links_ok (join_source ses st plan sid src r)"
proof (rule linksI, goal_cases)
  case 1
  show ?case using linksD(1) [OF assms(1)] by (simp add: join_source_def)
next
  case 2
  show ?case using linksD(2) [OF assms(1)] by (simp add: join_source_def)
next
  case (3 s x i)
  have new: "jget (rg_streams r) st = None" using assms(2) by (simp add: jhas_def)
  have none: "\<not> jhas (rg_sources r) sid \<Longrightarrow> jget (rg_streams r) i = Some y \<Longrightarrow> sm_source y \<noteq> sid" for y
    using linksD(6) [OF assms(1), of i y] by (auto simp: jhas_def)
  show ?case
  proof (cases "s = sid")
    case True
    with 3 have x: "x = src\<lparr>so_subscriptions := so_subscriptions src @ [st]\<rparr>" by (simp add: join_source_def)
    show ?thesis
      using assms(3) linksD(3) [OF assms(1), of sid src i] new none
      by (auto simp: x True join_source_def)
  next
    case False
    with 3 have "jget (rg_sources r) s = Some x" by (simp add: join_source_def)
    with False new linksD(3) [OF assms(1), of s x i] show ?thesis by (auto simp: join_source_def)
  qed
next
  case (4 s x)
  then show ?case using linksD(4) [OF assms(1), of s x] by (auto simp: join_source_def split: if_splits)
next
  case (5 s x)
  then show ?case using linksD(5) [OF assms(1), of s x] assms(5) by (auto simp: join_source_def split: if_splits)
next
  case (6 i y)
  then show ?case using linksD(6) [OF assms(1), of i y] assms(3,4) by (auto simp: join_source_def jhas_def split: if_splits)
next
  case (7 s1 s2 x1 x2)
  have old: "(s = sid \<and> so_key x = so_key src \<and> so_state src \<noteq> SClosing) \<or> (s \<noteq> sid \<and> jget (rg_sources r) s = Some x)"
    if "jget (rg_sources (join_source ses st plan sid src r)) s = Some x" "so_state x \<noteq> SClosing" for s x
    using that by (auto simp: join_source_def split: if_splits)
  have other: "so_key x \<noteq> so_key src" if "s \<noteq> sid" "jget (rg_sources r) s = Some x" "so_state x \<noteq> SClosing" "so_state src \<noteq> SClosing" for s x
    using that assms(3) linksD(7) [OF assms(1), of s x sid src] by metis
  show ?case
    using old [OF 7(1,3)] old [OF 7(2,4)] other [of s1 x1] other [of s2 x2] linksD(7) [OF assms(1), of s1 x1 s2 x2] 7 by metis
qed

lemma links_unsubscribe:
  assumes "links_ok r"
  shows "links_ok (snd (unsubscribe i r))"
proof (cases "jget (rg_streams r) i")
  case None
  with assms show ?thesis by (simp add: unsubscribe_def)
next
  case (Some st)
  then obtain src where src: "jget (rg_sources r) (sm_source st) = Some src" using linksD(6) [OF assms] by blast
  define rest where "rest = filter (\<lambda>j. j \<noteq> i) (so_subscriptions src)"
  define src' where "src' = src\<lparr>so_subscriptions := rest,
    so_state := (if rest = [] \<and> so_state src \<noteq> SClosing then SClosing else so_state src)\<rparr>"
  have u: "snd (unsubscribe i r) = r\<lparr>rg_streams := jdel i (rg_streams r), rg_sources := jset (sm_source st) src' (rg_sources r)\<rparr>"
    using Some src by (simp add: unsubscribe_def Let_def rest_def src'_def)
  have state: "so_state src' \<noteq> SClosing \<Longrightarrow> so_state src \<noteq> SClosing" "rest = [] \<Longrightarrow> so_state src' = SClosing"
    "so_key src' = so_key src" "so_plan src' = so_plan src" "so_subscriptions src' = rest"
    by (auto simp: src'_def)
  show ?thesis
    unfolding u
  proof (rule linksI, goal_cases)
    case (3 s x j)
    then show ?case
      using linksD(3) [OF assms, of s _ j] src Some state(5) by (auto simp: rest_def split: if_splits)
  next
    case (4 s x)
    then show ?case using linksD(4) [OF assms, of s x] state(2,5) by (auto split: if_splits)
  next
    case (5 s x)
    then show ?case using linksD(5) [OF assms, of s] src state(3,4) by (auto split: if_splits)
  next
    case (6 j y)
    then show ?case using linksD(6) [OF assms, of j y] src state(3) by (auto split: if_splits)
  next
    case (7 s1 s2 x1 x2)
    let ?old = "\<lambda>s x. if s = sm_source st then src else x"
    have old: "jget (rg_sources r) s = Some (?old s x) \<and> so_state (?old s x) \<noteq> SClosing \<and> so_key (?old s x) = so_key x"
      if "jget (jset (sm_source st) src' (rg_sources r)) s = Some x" "so_state x \<noteq> SClosing" for s x
      using that src state(1,3) by (auto split: if_splits)
    from 7 have "jget (jset (sm_source st) src' (rg_sources r)) s1 = Some x1" "jget (jset (sm_source st) src' (rg_sources r)) s2 = Some x2"
      by simp_all
    from old [OF this(1) 7(3)] old [OF this(2) 7(4)] 7(5) linksD(7) [OF assms, of s1 "?old s1 x1" s2 "?old s2 x2"]
    show ?case by metis
  qed (use linksD(1,2) [OF assms] in simp_all)
qed

lemma close_streams_some:
  "\<forall>i \<in> set ids. jhas m i \<Longrightarrow> \<exists>m'. close_streams ids m = Some m'"
  by (induction ids arbitrary: m) (auto simp: jhas_def split: option.splits)

lemma close_streams_same:
  "close_streams ids m = Some m' \<Longrightarrow> jmap_ok m \<Longrightarrow>
     jmap_ok m' \<and> map stream_owner (jvals m') = map stream_owner (jvals m)
     \<and> (\<forall>i. map_option (\<lambda>s. (sm_source s, sm_plan s)) (jget m' i) = map_option (\<lambda>s. (sm_source s, sm_plan s)) (jget m i))"
proof (induction ids arbitrary: m)
  case (Cons i ids)
  then obtain s where s: "jget m i = Some s" "close_streams ids (jset i (s\<lparr>sm_state := Closing\<rparr>) m) = Some m'"
    by (auto split: option.splits)
  have "map stream_owner (jvals (jset i (s\<lparr>sm_state := Closing\<rparr>) m)) = map stream_owner (jvals m)"
    by (rule jvals_update [OF s(1)]) (simp add: stream_owner_def)
  with Cons.IH [OF s(2)] Cons.prems(2) s(1) show ?case by auto
qed auto

text \<open>Closing a source finds every subscription it names.\<close>

lemma closeSource_links:
  assumes "links_ok r" "jget (rg_sources r) sid = Some src"
  shows "\<exists>m. close_streams (so_subscriptions src) (rg_streams r) = Some m
    \<and> closeSource sid r = (Inr True, r\<lparr>rg_sources := jset sid (src\<lparr>so_state := SClosing\<rparr>) (rg_sources r), rg_streams := m\<rparr>)"
proof -
  have "\<forall>i \<in> set (so_subscriptions src). jhas (rg_streams r) i"
    using linksD(3) [OF assms] by (auto simp: jhas_def)
  then obtain m where "close_streams (so_subscriptions src) (rg_streams r) = Some m" using close_streams_some by blast
  with assms(2) show ?thesis by (simp add: closeSource_def Let_def)
qed

lemma jget_fold_jdel: "jget (fold jdel ids m) i = (if i \<in> set ids then None else jget m i)"
  by (induction ids arbitrary: m) auto

lemma jmap_ok_fold_jdel: "jmap_ok m \<Longrightarrow> jmap_ok (fold jdel ids m)"
  by (induction ids arbitrary: m) auto

lemma links_release:
  assumes "links_ok r" "jget (rg_sources r) sid = Some src"
  shows "links_ok (r\<lparr>rg_streams := fold jdel (so_subscriptions src) (rg_streams r), rg_sources := jdel sid (rg_sources r)\<rparr>)"
proof (rule linksI, goal_cases)
  case (3 s x i)
  then show ?case
    using linksD(3) [OF assms(1), of s x i] linksD(3) [OF assms(1,2), of i] by (auto simp: jget_fold_jdel split: if_splits)
next
  case (4 s x)
  then show ?case using linksD(4) [OF assms(1), of s x] by (simp split: if_splits)
next
  case (5 s x)
  then show ?case using linksD(5) [OF assms(1), of s x] by (simp split: if_splits)
next
  case (6 i st)
  then show ?case
    using linksD(6) [OF assms(1), of i st] linksD(3) [OF assms(1,2), of i] by (auto simp: jget_fold_jdel split: if_splits)
next
  case (7 s1 s2 x1 x2)
  then show ?case using linksD(7) [OF assms(1), of s1 x1 s2 x2] by (simp split: if_splits)
qed (use linksD(1,2) [OF assms(1)] jmap_ok_fold_jdel in simp_all)

definition registry_ok :: "stream_registry \<Rightarrow> bool" where
  "registry_ok r \<longleftrightarrow> links_ok r \<and> budget_ok r \<and> sessions_ok r"

lemma subscribe_ok:
  assumes "registry_ok r" "\<not> jhas (rg_sources r) sid" "\<not> jhas (rg_streams r) st"
  shows "registry_ok (snd (subscribe ses sid st plan r))"
proof -
  have r: "links_ok r" "budget_ok r" "sessions_ok r" using assms(1) by (simp_all add: registry_ok_def)
  show ?thesis
  proof (cases "snd (subscribe ses sid st plan r) = r")
    case True
    with assms(1) show ?thesis by simp
  next
    case False
    then obtain n where n: "plan_pixels plan = Some n" and
      room: "is_audio plan \<Longrightarrow> owned_streams r ses True = []" "\<not> is_audio plan \<Longrightarrow> length (owned_streams r ses False) < perSession (rg_limits r)"
      by (auto simp: subscribe_def split: if_splits option.splits)
    show ?thesis
    proof (cases "open_source r (sourceKey_plan plan)")
      case (Some p)
      obtain sid' src where p: "p = (sid', src)" by fastforce
      with False n room Some have t: "snd (subscribe ses sid st plan r) = join_source ses st plan sid' src r"
        by (auto simp: subscribe_def split: if_splits)
      have "(sid', src) \<in> set (rg_sources r)" "so_key src = sourceKey_plan plan"
        using Some p by (auto simp: open_source_def find_Some_iff in_set_conv_nth)
      then have src: "jget (rg_sources r) sid' = Some src" "so_key src = sourceKey_plan plan"
        using linksD(1) [OF r(1)] by (simp_all add: in_set_jget)
      have "links_ok (join_source ses st plan sid' src r)"
        by (rule links_join [OF r(1) assms(3)]) (use src linksD(5) [OF r(1) src(1)] in auto)
      then show ?thesis
        using budget_joined [OF r(2) src(1)] sessions_joined [OF r(3) assms(3) room] unfolding t registry_ok_def by blast
    next
      case None
      define src where "src = \<lparr>so_key = sourceKey_plan plan, so_plan = plan, so_pixels = n, so_state = SStarting, so_subscriptions = []\<rparr>"
      have b: "is_audio plan \<or> budget_error r plan n = None" and t: "snd (subscribe ses sid st plan r) = join_source ses st plan sid src r"
        using False n room None by (auto simp: subscribe_def src_def split: if_splits option.splits)
      have fresh: "\<forall>s x. jget (rg_sources r) s = Some x \<longrightarrow> so_state x \<noteq> SClosing \<longrightarrow> so_key x \<noteq> so_key src"
        using None linksD(1) [OF r(1)] by (auto simp: open_source_def find_None_iff src_def in_set_jget [symmetric])
      have "links_ok (join_source ses st plan sid src r)"
        by (rule links_join [OF r(1) assms(3)]) (use assms(2) fresh in \<open>auto simp: src_def\<close>)
      moreover have "budget_ok (join_source ses st plan sid src r)"
        by (rule budget_new [OF r(2) assms(2) n _ _ b]) (simp_all add: src_def)
      ultimately show ?thesis
        using sessions_joined [OF r(3) assms(3) room] unfolding t registry_ok_def by blast
    qed
  qed
qed

lemma registry_state:
  assumes "registry_ok r" "jget (rg_sources r) sid = Some src" "st \<noteq> SClosing \<longrightarrow> so_state src \<noteq> SClosing"
  shows "registry_ok (r\<lparr>rg_sources := jset sid (src\<lparr>so_state := st\<rparr>) (rg_sources r)\<rparr>)"
proof -
  have r: "links_ok r" "budget_ok r" "sessions_ok r" using assms(1) by (simp_all add: registry_ok_def)
  let ?t = "r\<lparr>rg_sources := jset sid (src\<lparr>so_state := st\<rparr>) (rg_sources r)\<rparr>"
  have "links_ok ?t"
    by (rule links_state [OF r(1) assms(2)]) (use assms(3) linksD(4) [OF r(1) assms(2)] in auto)
  moreover have "budget_ok ?t"
    by (subst budget_same [of _ r]) (use r(2) assms(2) in \<open>simp_all del: map_map add: jvals_update [of _ _ src] source_cost_def\<close>)
  moreover have "sessions_ok ?t" by (subst sessions_same [of _ r]) (simp_all add: r(3))
  ultimately show ?thesis by (simp add: registry_ok_def)
qed

lemma registry_streams:
  assumes "registry_ok r" "jmap_ok m" "map stream_owner (jvals m) = map stream_owner (jvals (rg_streams r))"
    and "\<And>i. map_option (\<lambda>s. (sm_source s, sm_plan s)) (jget m i) = map_option (\<lambda>s. (sm_source s, sm_plan s)) (jget (rg_streams r) i)"
  shows "registry_ok (r\<lparr>rg_streams := m\<rparr>)"
proof -
  have r: "links_ok r" "budget_ok r" "sessions_ok r" using assms(1) by (simp_all add: registry_ok_def)
  have "budget_ok (r\<lparr>rg_streams := m\<rparr>)" by (subst budget_same [of _ r]) (simp_all add: r(2))
  moreover have "sessions_ok (r\<lparr>rg_streams := m\<rparr>)"
    by (subst sessions_same [of _ r]) (use r(3) assms(3) in \<open>simp_all del: map_map\<close>)
  ultimately show ?thesis using links_streams [OF r(1) assms(2,4)] by (simp add: registry_ok_def)
qed

lemma reg_step_ok: "registry_ok r \<Longrightarrow> registry_ok (reg_step r e)"
proof (cases e)
  case (Subscribe ses sid st plan)
  assume "registry_ok r"
  with Subscribe subscribe_ok show ?thesis by simp
next
  case (Unsubscribe i)
  assume ok: "registry_ok r"
  then have r: "links_ok r" "budget_ok r" "sessions_ok r" by (simp_all add: registry_ok_def)
  show ?thesis
  proof (cases "jget (rg_streams r) i")
    case None
    with ok Unsubscribe show ?thesis by (simp add: unsubscribe_def)
  next
    case (Some st)
    then obtain src where src: "jget (rg_sources r) (sm_source st) = Some src" using linksD(6) [OF r(1)] by blast
    obtain src' where t: "snd (unsubscribe i r) = r\<lparr>rg_streams := jdel i (rg_streams r), rg_sources := jset (sm_source st) src' (rg_sources r)\<rparr>"
      "source_cost src' = source_cost src"
      using Some src by (simp add: unsubscribe_def Let_def source_cost_def)
    have "budget_ok (snd (unsubscribe i r))"
      unfolding t(1) by (subst budget_same [of _ r]) (use r(2) src t(2) in \<open>simp_all del: map_map add: jvals_update [of _ _ src]\<close>)
    moreover have "sessions_ok (snd (unsubscribe i r))"
      unfolding t(1) by (rule sessions_fewer [OF r(3)]) simp_all
    ultimately show ?thesis using links_unsubscribe [OF r(1)] Unsubscribe by (simp add: registry_ok_def)
  qed
next
  case (MarkReady sid)
  assume "registry_ok r"
  with MarkReady registry_state show ?thesis by (auto simp: markReady_def split: option.splits)
next
  case (CloseSource sid)
  assume ok: "registry_ok r"
  show ?thesis
  proof (cases "jget (rg_sources r) sid")
    case None
    with ok CloseSource show ?thesis by (simp add: closeSource_def)
  next
    case (Some src)
    have l: "links_ok r" using ok by (simp add: registry_ok_def)
    from closeSource_links [OF l Some] obtain m where m: "close_streams (so_subscriptions src) (rg_streams r) = Some m"
      "closeSource sid r = (Inr True, r\<lparr>rg_sources := jset sid (src\<lparr>so_state := SClosing\<rparr>) (rg_sources r), rg_streams := m\<rparr>)" by blast
    let ?t = "r\<lparr>rg_sources := jset sid (src\<lparr>so_state := SClosing\<rparr>) (rg_sources r)\<rparr>"
    have "registry_ok ?t" by (rule registry_state [OF ok Some]) simp
    then have "registry_ok (?t\<lparr>rg_streams := m\<rparr>)"
      using close_streams_same [OF m(1) linksD(2) [OF l]] by (intro registry_streams) auto
    then show ?thesis using CloseSource m(2) by simp
  qed
next
  case (ReleaseSource sid)
  assume ok: "registry_ok r"
  then have r: "links_ok r" "budget_ok r" "sessions_ok r" by (simp_all add: registry_ok_def)
  show ?thesis
  proof (cases "jget (rg_sources r) sid")
    case None
    with ok ReleaseSource show ?thesis by (simp add: releaseSource_def)
  next
    case (Some src)
    let ?t = "r\<lparr>rg_streams := fold jdel (so_subscriptions src) (rg_streams r), rg_sources := jdel sid (rg_sources r)\<rparr>"
    have "budget_ok ?t" by (rule budget_fewer [OF r(2)]) simp_all
    moreover have "sessions_ok ?t"
      by (subst sessions_same [of _ "r\<lparr>rg_streams := fold jdel (so_subscriptions src) (rg_streams r)\<rparr>"]) (simp_all add: sessions_fold r(3))
    ultimately show ?thesis using links_release [OF r(1) Some] ReleaseSource Some by (simp add: releaseSource_def registry_ok_def)
  qed
next
  case (Transition ses i state)
  assume ok: "registry_ok r"
  show ?thesis
  proof (cases "jget (rg_streams r) i")
    case None
    with ok Transition show ?thesis by (simp add: transition_def)
  next
    case (Some s)
    have "map stream_owner (jvals (jset i (s\<lparr>sm_state := state\<rparr>) (rg_streams r))) = map stream_owner (jvals (rg_streams r))"
      by (rule jvals_update [OF Some]) (simp add: stream_owner_def)
    then have "registry_ok (r\<lparr>rg_streams := jset i (s\<lparr>sm_state := state\<rparr>) (rg_streams r)\<rparr>)"
      using ok Some by (intro registry_streams) (auto simp: registry_ok_def links_ok_def)
    with ok Transition Some show ?thesis by (simp add: transition_def)
  qed
qed

interpretation registry: step_system reg_step registry_ok
  by unfold_locales (rule reg_step_ok)

section \<open>Properties\<close>

definition fresh_registry :: "limits \<Rightarrow> stream_registry" where
  "fresh_registry l = \<lparr>rg_limits = l, rg_sources = [], rg_streams = []\<rparr>"

lemma fresh_registry_ok: "0 \<le> bitrateLimit l \<Longrightarrow> 0 \<le> pixelsLimit l \<Longrightarrow> registry_ok (fresh_registry l)"
  by (simp add: registry_ok_def fresh_registry_def budget_ok_def sessions_ok_def video_costs_def links_ok_def)

lemma reg_step_limits: "rg_limits (reg_step r e) = rg_limits r"
  by (cases e) (auto simp: subscribe_def join_source_def unsubscribe_def markReady_def closeSource_def releaseSource_def
      transition_def Let_def split: option.splits)

lemma run_limits: "rg_limits (run reg_step r es) = rg_limits r"
  by (induction es arbitrary: r) (simp_all add: reg_step_limits)

text \<open>
  C28: the host's budgets hold after any sequence of calls: the video sources, closing ones included, are
  at most the limit, and their bitrates and pixel rates sum to at most the budgets; a session has at most
  its limit of video streams and one audio stream; streams and sources name each other; a source without
  streams is closing; and one encode at most is open for a key.
\<close>

theorem registry_within_budget:
  assumes "0 \<le> bitrateLimit l" "0 \<le> pixelsLimit l"
  shows "length (video_sources (run reg_step (fresh_registry l) es)) \<le> maxStreams l
    \<and> sum_list (map (\<lambda>s. plan_bitrate (so_plan s)) (video_sources (run reg_step (fresh_registry l) es))) \<le> bitrateLimit l
    \<and> sum_list (map so_pixels (video_sources (run reg_step (fresh_registry l) es))) \<le> pixelsLimit l
    \<and> length (owned_streams (run reg_step (fresh_registry l) es) s True) \<le> 1
    \<and> length (owned_streams (run reg_step (fresh_registry l) es) s False) \<le> perSession l
    \<and> links_ok (run reg_step (fresh_registry l) es)"
proof -
  let ?r = "run reg_step (fresh_registry l) es"
  have ok: "registry_ok ?r" by (rule registry.run_inv [OF fresh_registry_ok [OF assms]])
  have lim: "rg_limits ?r = l" by (simp add: run_limits) (simp add: fresh_registry_def)
  have c: "length (video_sources ?r) = length (video_costs ?r)"
    "sum_list (map (\<lambda>s. plan_bitrate (so_plan s)) (video_sources ?r)) = sum_list (map (\<lambda>c. plan_bitrate (fst c)) (video_costs ?r))"
    "sum_list (map so_pixels (video_sources ?r)) = sum_list (map snd (video_costs ?r))"
    by (simp_all add: video_costs_sources comp_def source_cost_def)
  show ?thesis
    using ok unfolding registry_ok_def budget_ok_def sessions_ok_def lim c owned_count by blast
qed

definition small_limits :: limits where
  "small_limits = \<lparr>maxStreams = 1, perSession = 2, bitrateLimit = 8000, pixelsLimit = 500000000\<rparr>"

definition desktop_plan :: plan where
  "desktop_plan = VideoPlan (Some \<lparr>vp_name = ''desktop'', vp_width = Whole 1920, vp_height = Whole 1080, vp_fps = Whole 30,
     vp_bitrateKbps = Whole 6000, vp_bitrateMode = None, vp_quality = None, vp_stretch = False\<rparr>)
     (Some \<lparr>sn_id = ''a1'', sn_x = 0, sn_y = 0, sn_width = 2560, sn_height = 1440, sn_rotation = 0\<rparr>) 3 None"

theorem registry_within_budget_witness:
  "length (video_sources (run reg_step (fresh_registry small_limits)
      [Subscribe ''s1'' ''w1'' ''v1'' desktop_plan, Subscribe ''s2'' ''w2'' ''v2'' desktop_plan])) \<le> 1
   \<and> map (length \<circ> so_subscriptions) (jvals (rg_sources (run reg_step (fresh_registry small_limits)
      [Subscribe ''s1'' ''w1'' ''v1'' desktop_plan, Subscribe ''s2'' ''w2'' ''v2'' desktop_plan]))) = [2]"
proof
  show "length (video_sources (run reg_step (fresh_registry small_limits)
      [Subscribe ''s1'' ''w1'' ''v1'' desktop_plan, Subscribe ''s2'' ''w2'' ''v2'' desktop_plan])) \<le> 1"
    using registry_within_budget [of small_limits "[Subscribe ''s1'' ''w1'' ''v1'' desktop_plan, Subscribe ''s2'' ''w2'' ''v2'' desktop_plan]"]
    by (simp add: small_limits_def)
  show "map (length \<circ> so_subscriptions) (jvals (rg_sources (run reg_step (fresh_registry small_limits)
      [Subscribe ''s1'' ''w1'' ''v1'' desktop_plan, Subscribe ''s2'' ''w2'' ''v2'' desktop_plan]))) = [2]"
    unfolding run_Cons run_Nil by code_simp
qed

section \<open>Properties: the key\<close>

lemma append_mark_inj: "c \<notin> set a \<Longrightarrow> c \<notin> set b \<Longrightarrow> a @ c # x = b @ c # y \<longleftrightarrow> a = b \<and> x = y"
proof (induction a arbitrary: b)
  case Nil
  then show ?case by (cases b) auto
next
  case (Cons d a)
  then show ?case by (cases b) auto
qed

lemma dec_chars: "c \<in> set (dec n) \<Longrightarrow> is_digit c \<or> c = CHR ''-''"
  using dec_pos_digits [of n] dec_pos_digits [of "- n"] by (auto simp: dec_def list_all_iff split: if_splits)

lemma digit_not: "is_digit c \<Longrightarrow> c \<notin> {CHR ''|'', CHR '','', CHR ''x'', CHR ''@'', CHR '':'', CHR ''-''}"
  by (auto simp: is_digit_def code_def)

lemma dec_plain: "CHR ''|'' \<notin> set (dec n)" "CHR '','' \<notin> set (dec n)" "CHR ''x'' \<notin> set (dec n)" "CHR ''@'' \<notin> set (dec n)" "CHR '':'' \<notin> set (dec n)"
  using dec_chars [of _ n] digit_not by fastforce+

lemma dec_pos_nonempty: "dec_pos n \<noteq> []"
  by (subst dec_pos.simps) simp

lemma dec_inj_all: "dec m = dec n \<longleftrightarrow> m = n"
proof
  have minus: "dec k \<noteq> CHR ''-'' # s" if "0 \<le> k" for k s
    using dec_chars [of "CHR ''-''" k] dec_pos_digits [of k] that digit_not by (cases "dec_pos k") (auto simp: dec_def)
  assume e: "dec m = dec n"
  show "m = n"
  proof (cases "m < 0"; cases "n < 0")
    assume "m < 0" "n < 0"
    with e dec_inj [of "- m" "- n"] show ?thesis by (simp add: dec_def)
  next
    assume "m < 0" "\<not> n < 0"
    with e minus [of n] show ?thesis by (metis dec_def not_less)
  next
    assume "\<not> m < 0" "n < 0"
    with e minus [of m] show ?thesis by (metis dec_def not_less)
  next
    assume "\<not> m < 0" "\<not> n < 0"
    with e dec_inj show ?thesis by simp
  qed
qed simp

lemma screen_text_inj:
  "screen_text d = screen_text e \<Longrightarrow> map_option (\<lambda>s. (sn_x s, sn_y s, sn_width s, sn_height s, sn_rotation s)) d
    = map_option (\<lambda>s. (sn_x s, sn_y s, sn_width s, sn_height s, sn_rotation s)) e"
proof -
  assume t: "screen_text d = screen_text e"
  have some: "screen_text (Some s) \<noteq> screen_text None" for s
  proof -
    obtain c cs where c: "dec (sn_x s) = c # cs" using dec_pos_nonempty by (cases "dec (sn_x s)") (auto simp: dec_def split: if_splits)
    then have "c \<noteq> CHR '',''" using dec_plain(2) [of "sn_x s"] by auto
    then show ?thesis by (simp add: screen_text_def c)
  qed
  show ?thesis
  proof (cases d; cases e)
    fix s u
    assume "d = Some s" "e = Some u"
    with t show ?thesis
      by (simp add: screen_text_def append_mark_inj dec_plain dec_inj_all)
  qed (use t some in \<open>auto simp: some [symmetric]\<close>)
qed

lemma size_text_inj:
  "size_text p = size_text q \<Longrightarrow> whole_value (vp_width p) = whole_value (vp_width q) \<and> whole_value (vp_height p) = whole_value (vp_height q)
    \<and> whole_value (vp_fps p) = whole_value (vp_fps q) \<and> vp_stretch p = vp_stretch q"
proof -
  assume e: "size_text p = size_text q"
  have "t = CHR '':'' # s \<and> a = b" if "dec a @ CHR '':'' # s = dec b @ t" "t = [] \<or> hd t = CHR '':''" for a b s t
  proof (cases t)
    case Nil
    then have "CHR '':'' \<in> set (dec b)" using that(1) by (metis append_Nil2 in_set_conv_decomp)
    then show ?thesis using dec_plain(5) [of b] by blast
  next
    case (Cons u us)
    then show ?thesis
      using that dec_plain(5) [of a] dec_plain(5) [of b] append_mark_inj [of "CHR '':''" "dec a" "dec b" s us]
      by (simp add: dec_inj_all)
  qed
  note tail = this
  have "num_text (vp_fps p) @ (if vp_stretch p then '':stretch'' else '''') = num_text (vp_fps q) @ (if vp_stretch q then '':stretch'' else '''')"
    and "whole_value (vp_width p) = whole_value (vp_width q)" "whole_value (vp_height p) = whole_value (vp_height q)"
    using e by (simp_all add: size_text_def num_text_def append_mark_inj dec_plain dec_inj_all)
  moreover from this(1) have "whole_value (vp_fps p) = whole_value (vp_fps q) \<and> vp_stretch p = vp_stretch q"
    using tail [of "whole_value (vp_fps p)" "''stretch''" "whole_value (vp_fps q)" "[]"]
      tail [of "whole_value (vp_fps q)" "''stretch''" "whole_value (vp_fps p)" "[]"]
    by (cases "vp_stretch p"; cases "vp_stretch q") (auto simp: num_text_def dec_inj_all)

  ultimately show ?thesis by simp
qed

definition bar_free :: "string \<Rightarrow> bool" where
  "bar_free s \<longleftrightarrow> CHR ''|'' \<notin> set s"

lemma fields_bar_free:
  assumes "plan_pixels (VideoPlan (Some p) d rev0 codec) \<noteq> None" "bar_free (case d of Some s \<Rightarrow> sn_id s | None \<Rightarrow> '''')"
    "bar_free (case codec of Some c \<Rightarrow> c | None \<Rightarrow> ''h264'')"
  shows "\<forall>f \<in> set (video_fields p d rev0 codec). CHR ''|'' \<notin> set f"
proof -
  have "CHR ''|'' \<notin> set (screen_text d)" by (auto simp: screen_text_def dec_plain split: option.splits)
  moreover have "CHR ''|'' \<notin> set (size_text p)" by (simp add: size_text_def num_text_def dec_plain)
  moreover have "CHR ''|'' \<notin> set (rate_text p)"
    using assms(1) by (auto simp: plan_pixels_def rate_text_def Let_def DEFAULT_BITRATE_MODE_def DEFAULT_QUALITY_def
        BITRATE_MODES_def QUALITY_LEVELS_def split: option.splits if_splits)
  ultimately show ?thesis
    using assms(2,3) dec_plain(1) by (simp add: video_fields_def num_text_def bar_free_def)
qed

text \<open>
  Two viewers share a capture and encode exactly when everything that shapes its bytes is the same.
  For valid video plans (with display ids and codecs that do not contain the key's separator), equal keys
  mean the same policy revision, display and position, size, frame rate, stretching, bitrate, rate control
  and codec, and the profile's name plays no part.
\<close>

theorem same_key_same_encode:
  assumes "plan_pixels (VideoPlan (Some p) d r c) \<noteq> None" "plan_pixels (VideoPlan (Some q) e s k) \<noteq> None"
    and "bar_free (case d of Some x \<Rightarrow> sn_id x | None \<Rightarrow> '''')" "bar_free (case e of Some x \<Rightarrow> sn_id x | None \<Rightarrow> '''')"
    and "bar_free (case c of Some x \<Rightarrow> x | None \<Rightarrow> ''h264'')" "bar_free (case k of Some x \<Rightarrow> x | None \<Rightarrow> ''h264'')"
  shows "sourceKey_plan (VideoPlan (Some p) d r c) = sourceKey_plan (VideoPlan (Some q) e s k) \<longleftrightarrow>
    r = s
    \<and> (case d of Some x \<Rightarrow> sn_id x | None \<Rightarrow> '''') = (case e of Some x \<Rightarrow> sn_id x | None \<Rightarrow> '''')
    \<and> map_option (\<lambda>x. (sn_x x, sn_y x, sn_width x, sn_height x, sn_rotation x)) d
      = map_option (\<lambda>x. (sn_x x, sn_y x, sn_width x, sn_height x, sn_rotation x)) e
    \<and> whole_value (vp_width p) = whole_value (vp_width q) \<and> whole_value (vp_height p) = whole_value (vp_height q)
    \<and> whole_value (vp_fps p) = whole_value (vp_fps q) \<and> vp_stretch p = vp_stretch q
    \<and> whole_value (vp_bitrateKbps p) = whole_value (vp_bitrateKbps q) \<and> rate_text p = rate_text q
    \<and> (case c of Some x \<Rightarrow> x | None \<Rightarrow> ''h264'') = (case k of Some x \<Rightarrow> x | None \<Rightarrow> ''h264'')" (is "?keys \<longleftrightarrow> ?same")
proof
  assume ?keys
  then have "split_on (CHR ''|'') (join_with ''|'' (video_fields p d r c)) = split_on (CHR ''|'') (join_with ''|'' (video_fields q e s k))"
    by simp
  then have "video_fields p d r c = video_fields q e s k"
    using split_join [OF _ fields_bar_free [OF assms(1,3,5)]] split_join [OF _ fields_bar_free [OF assms(2,4,6)]]
    by (simp add: video_fields_def)
  then show ?same
    using screen_text_inj [of d e] size_text_inj [of p q] by (simp add: video_fields_def num_text_def dec_inj_all)
next
  assume same: ?same
  then have "screen_text d = screen_text e" by (cases d; cases e) (simp_all add: screen_text_def)
  moreover have "size_text p = size_text q" using same by (simp add: size_text_def num_text_def)
  ultimately show ?keys using same by (simp add: video_fields_def num_text_def)
qed

theorem same_key_same_encode_witness:
  "sourceKey_plan desktop_plan = sourceKey_plan (VideoPlan (Some \<lparr>vp_name = ''mine'', vp_width = Whole 1920,
      vp_height = Whole 1080, vp_fps = Whole 30, vp_bitrateKbps = Whole 6000, vp_bitrateMode = Some ''cbr'',
      vp_quality = Some ''high'', vp_stretch = False\<rparr>)
     (Some \<lparr>sn_id = ''a1'', sn_x = 0, sn_y = 0, sn_width = 2560, sn_height = 1440, sn_rotation = 0\<rparr>) 3 (Some ''h264''))"
  unfolding desktop_plan_def
  by (subst same_key_same_encode)
    (simp_all add: plan_pixels_def positive_def is_safe_integer_def whole_value_def MAX_SAFE_INTEGER_def profile_pixels_def
      BITRATE_MODES_def QUALITY_LEVELS_def bar_free_def rate_text_def DEFAULT_BITRATE_MODE_def)

end
