(* ===== verification/ControlLease.thy ===== *)
theory ControlLease
  imports JsPrelude
begin

text \<open>
  \<^verbatim>\<open>apps/server/src/control-lease.mjs\<close>: which stream may send input to the host. Operations are queued and
  run one after another; an operation's awaits are answered by the media worker and by the session store
  (\<^verbatim>\<open>isActive\<close>), both arguments here. The worker is code outside this file, known by what it documents: a
  permission it acknowledges holds, one that fails may hold or not, and a peer whose removal has ended has
  no permission (its removal is acknowledged or its process is gone). The set of streams that may hold a
  permission is followed alongside, with each value it takes.
\<close>

section \<open>State\<close>

record owner =
  ow_session :: string
  ow_stream :: string
  ow_explicit :: bool

datatype lease_op =
    Grant (gr_session: string) (gr_stream: string) (gr_available: bool) (gr_explicit: bool)
  | Revoke "string option"
  | Renew

record lease =
  ls_owner :: "owner option"
  ls_queue :: "lease_op list"
  ls_permitted :: "string set"
  ls_seen :: "string set list"

text \<open>The worker's answer to a permission: what was asked for, or a refusal or failure with what it left.\<close>

datatype answer = Acknowledged | NotAcknowledged bool

definition set_permitted :: "string set \<Rightarrow> lease \<Rightarrow> lease" where
  "set_permitted ps s = s\<lparr>ls_permitted := ps, ls_seen := ls_seen s @ [ps]\<rparr>"

definition grant_permission :: "string \<Rightarrow> answer \<Rightarrow> lease \<Rightarrow> lease" where
  "grant_permission stream a s =
     (case a of
        Acknowledged \<Rightarrow> set_permitted (insert stream (ls_permitted s)) s
      | NotAcknowledged holds \<Rightarrow> if holds then set_permitted (insert stream (ls_permitted s)) s else s)"

definition remove_permission :: "string \<Rightarrow> lease \<Rightarrow> lease" where
  "remove_permission stream s = set_permitted (ls_permitted s - {stream}) s"

section \<open>Operations\<close>

text \<open>
  The release of the owner: an acknowledged revocation, or else the removal of the peer. The result says
  whether the worker acknowledged and whether the peer was ended.
\<close>

definition release :: "answer \<Rightarrow> lease \<Rightarrow> (bool \<times> bool) \<times> lease" where
  "release a s =
     (case ls_owner s of
        None \<Rightarrow> ((True, False), s)
      | Some previous \<Rightarrow>
          (let s = s\<lparr>ls_owner := None\<rparr>
           in case a of
                Acknowledged \<Rightarrow> ((True, False), remove_permission (ow_stream previous) s)
              | NotAcknowledged _ \<Rightarrow> ((False, True), remove_permission (ow_stream previous) s)))"

text \<open>What an operation is answered, in the order it asks.\<close>

record answers =
  an_active1 :: bool
  an_release1 :: answer
  an_active2 :: bool
  an_grant :: answer
  an_active3 :: bool
  an_release2 :: answer

definition INACTIVE :: string where "INACTIVE = ''Inactive control target''"
definition REFUSED :: string where "REFUSED = ''Worker refused control grant''"

definition run_grant :: "string \<Rightarrow> string \<Rightarrow> bool \<Rightarrow> bool \<Rightarrow> answers \<Rightarrow> lease \<Rightarrow> bool result \<times> lease" where
  "run_grant sessionId streamId onlyIfAvailable explicitOwner an s =
     (if onlyIfAvailable \<and> ls_owner s \<noteq> None then (Inr False, s)
      else if \<not> an_active1 an then (Inl INACTIVE, s)
      else (let s = snd (release (an_release1 an) s)
            in if \<not> an_active2 an then (Inl INACTIVE, s)
               else (let s = grant_permission streamId (an_grant an) s
                     in if an_grant an \<noteq> Acknowledged then (Inl REFUSED, remove_permission streamId s)
                        else (let s = s\<lparr>ls_owner := Some \<lparr>ow_session = sessionId, ow_stream = streamId, ow_explicit = explicitOwner\<rparr>\<rparr>
                              in if \<not> an_active3 an
                                 then (Inl INACTIVE, remove_permission streamId (snd (release (an_release2 an) s)))
                                 else (Inr True, s)))))"

definition run_revoke :: "string option \<Rightarrow> answers \<Rightarrow> lease \<Rightarrow> (bool \<times> bool) \<times> lease" where
  "run_revoke sessionId an s =
     (if sessionId = None \<or> (case ls_owner s of Some ow \<Rightarrow> Some (ow_session ow) = sessionId | None \<Rightarrow> False)
      then release (an_release1 an) s else ((True, False), s))"

text \<open>The third question of a renewal is asked once the worker has acknowledged.\<close>

definition run_renew :: "answers \<Rightarrow> lease \<Rightarrow> lease" where
  "run_renew an s =
     (case ls_owner s of
        None \<Rightarrow> s
      | Some ow \<Rightarrow>
          if \<not> an_active1 an then snd (release (an_release1 an) s)
          else (let s = grant_permission (ow_stream ow) (an_grant an) s
                in if an_grant an \<noteq> Acknowledged then snd (release (an_release2 an) s)
                   else if \<not> an_active2 an then snd (release (an_release2 an) s) else s))"

text \<open>Calls: a grant or a renewal does not join a queue; \<^verbatim>\<open>#pending\<close> is the length of the queue.\<close>

definition call_grant :: "string \<Rightarrow> string \<Rightarrow> bool \<Rightarrow> bool \<Rightarrow> lease \<Rightarrow> bool result option \<times> lease" where
  "call_grant sessionId streamId onlyIfAvailable explicitOwner s =
     (if onlyIfAvailable \<and> (ls_queue s \<noteq> [] \<or> ls_owner s \<noteq> None) then (Some (Inr False), s)
      else if ls_queue s \<noteq> [] then (Some (Inl ''Control change already pending''), s)
      else (None, s\<lparr>ls_queue := ls_queue s @ [Grant sessionId streamId onlyIfAvailable explicitOwner]\<rparr>))"

definition call_revoke :: "string option \<Rightarrow> lease \<Rightarrow> lease" where
  "call_revoke sessionId s = s\<lparr>ls_queue := ls_queue s @ [Revoke sessionId]\<rparr>"

definition call_renew :: "lease \<Rightarrow> lease" where
  "call_renew s = (if ls_queue s \<noteq> [] then s else s\<lparr>ls_queue := [Renew]\<rparr>)"

definition run_op :: "lease_op \<Rightarrow> answers \<Rightarrow> lease \<Rightarrow> lease" where
  "run_op operation an s =
     (case operation of
        Grant sessionId streamId onlyIfAvailable explicitOwner \<Rightarrow>
          snd (run_grant sessionId streamId onlyIfAvailable explicitOwner an s)
      | Revoke sessionId \<Rightarrow> snd (run_revoke sessionId an s)
      | Renew \<Rightarrow> run_renew an s)"

datatype lease_event = CallGrant string string bool bool | CallRevoke "string option" | CallRenew | RunNext answers

fun lease_step :: "lease \<Rightarrow> lease_event \<Rightarrow> lease" where
  "lease_step s (CallGrant ses st avail expl) = snd (call_grant ses st avail expl s)"
| "lease_step s (CallRevoke ses) = call_revoke ses s"
| "lease_step s CallRenew = call_renew s"
| "lease_step s (RunNext an) =
     (case ls_queue s of [] \<Rightarrow> s | operation # rest \<Rightarrow> (run_op operation an s)\<lparr>ls_queue := rest\<rparr>)"

definition new_lease :: lease where
  "new_lease = \<lparr>ls_owner = None, ls_queue = [], ls_permitted = {}, ls_seen = []\<rparr>"

section \<open>Lemmas\<close>

text \<open>Between operations only the owner's stream may hold a permission; within one, a single stream.\<close>

definition lone :: "string set \<Rightarrow> bool" where
  "lone ps \<longleftrightarrow> (\<exists>x. ps \<subseteq> {x})"

definition lease_ok :: "lease \<Rightarrow> bool" where
  "lease_ok s \<longleftrightarrow> ls_permitted s \<subseteq> (case ls_owner s of None \<Rightarrow> {} | Some ow \<Rightarrow> {ow_stream ow})
     \<and> (\<forall>ps \<in> set (ls_seen s). lone ps)"

lemma lone_simps [simp]: "lone {}" "lone {x}"
  by (auto simp: lone_def)

lemma release_ok: "lease_ok s \<Longrightarrow> lease_ok (snd (release a s)) \<and> ls_owner (snd (release a s)) = None \<and> ls_permitted (snd (release a s)) = {}"
  by (auto simp: release_def lease_ok_def remove_permission_def set_permitted_def Let_def lone_def
      split: option.splits answer.splits)

lemma grant_ok:
  assumes "lease_ok s"
  shows "lease_ok (snd (run_grant ses st avail expl an s))"
proof -
  define s1 where "s1 = snd (release (an_release1 an) s)"
  have s1: "lease_ok s1" "ls_owner s1 = None" "ls_permitted s1 = {}" using release_ok [OF assms] by (simp_all add: s1_def)
  define s2 where "s2 = grant_permission st (an_grant an) s1"
  have s2: "ls_permitted s2 \<subseteq> {st}" "ls_owner s2 = None" "\<forall>ps \<in> set (ls_seen s2). lone ps"
    using s1 by (auto simp: s2_def grant_permission_def set_permitted_def lease_ok_def split: answer.splits)
  have removed: "lease_ok (remove_permission st t)" if "ls_permitted t \<subseteq> {st}" "ls_owner t = None" "\<forall>ps \<in> set (ls_seen t). lone ps" for t
    using that by (auto simp: lease_ok_def remove_permission_def set_permitted_def lone_def)
  define s3 where "s3 = s2\<lparr>ls_owner := Some \<lparr>ow_session = ses, ow_stream = st, ow_explicit = expl\<rparr>\<rparr>"
  have s3: "lease_ok s3" using s2 by (simp add: s3_def lease_ok_def)
  have s4: "lease_ok (remove_permission st (snd (release (an_release2 an) s3)))"
    using release_ok [OF s3] by (intro removed) (auto simp: lease_ok_def)
  show ?thesis
    using assms s1(1) removed [OF s2] s3 s4
    by (simp add: run_grant_def Let_def flip: s1_def s2_def s3_def)
qed

lemma renew_ok: "lease_ok s \<Longrightarrow> lease_ok (run_renew an s)"
proof -
  assume ok: "lease_ok s"
  show ?thesis
  proof (cases "ls_owner s")
    case None
    with ok show ?thesis by (simp add: run_renew_def)
  next
    case (Some ow)
    define t where "t = grant_permission (ow_stream ow) (an_grant an) s"
    have "lease_ok t"
      using ok Some by (auto simp: t_def grant_permission_def set_permitted_def lease_ok_def lone_def split: answer.splits)
    then show ?thesis using ok Some release_ok by (simp add: run_renew_def Let_def flip: t_def)
  qed
qed

lemma lease_queue_ok [simp]: "lease_ok (s\<lparr>ls_queue := q\<rparr>) = lease_ok s"
  by (simp add: lease_ok_def)

lemma lease_step_ok: "lease_ok s \<Longrightarrow> lease_ok (lease_step s e)"
proof (cases e)
  case (RunNext an)
  assume "lease_ok s"
  moreover from this have "lease_ok (run_op operation an s)" for operation
    using grant_ok renew_ok release_ok by (cases operation) (auto simp: run_op_def run_revoke_def)
  ultimately show ?thesis using RunNext by (auto split: list.splits)
qed (auto simp: call_grant_def call_revoke_def call_renew_def)

interpretation leases: step_system lease_step lease_ok
  by unfold_locales (rule lease_step_ok)

section \<open>Properties\<close>

text \<open>
  C12: one viewer controls the host at a time. After any calls and runs, with any answers of the worker and
  of the session store, only the owner's stream may hold the permission, nobody when there is no owner, and
  at no moment, not even while control passes from one viewer to another, do two streams hold it.
\<close>

theorem one_controller:
  "ls_permitted (run lease_step new_lease es)
     \<subseteq> (case ls_owner (run lease_step new_lease es) of None \<Rightarrow> {} | Some ow \<Rightarrow> {ow_stream ow})
   \<and> (\<forall>ps \<in> set (ls_seen (run lease_step new_lease es)). \<forall>x y. x \<in> ps \<and> y \<in> ps \<longrightarrow> x = y)"
proof -
  have "lease_ok new_lease" by (simp add: lease_ok_def new_lease_def)
  from leases.run_inv [OF this, of es] have ok: "lease_ok (run lease_step new_lease es)" .
  have "x = y" if "lone ps" "x \<in> ps" "y \<in> ps" for ps x y using that unfolding lone_def by auto
  with ok show ?thesis unfolding lease_ok_def by blast
qed

definition all_well :: answers where
  "all_well = \<lparr>an_active1 = True, an_release1 = NotAcknowledged True, an_active2 = True, an_grant = Acknowledged,
     an_active3 = True, an_release2 = Acknowledged\<rparr>"

theorem one_controller_witness:
  "ls_owner (run lease_step new_lease [CallGrant ''a'' ''s1'' False False, RunNext all_well, CallGrant ''b'' ''s2'' False False,
      RunNext all_well]) = Some \<lparr>ow_session = ''b'', ow_stream = ''s2'', ow_explicit = False\<rparr>
   \<and> ls_seen (run lease_step new_lease [CallGrant ''a'' ''s1'' False False, RunNext all_well, CallGrant ''b'' ''s2'' False False,
      RunNext all_well]) = [{''s1''}, {}, {''s2''}]
   \<and> ls_permitted (run lease_step new_lease [CallGrant ''a'' ''s1'' False False, RunNext all_well, CallGrant ''b'' ''s2'' False False,
      RunNext all_well]) \<subseteq> {''s2''}"
proof -
  let ?es = "[CallGrant ''a'' ''s1'' False False, RunNext all_well, CallGrant ''b'' ''s2'' False False, RunNext all_well]"
  have "ls_owner (run lease_step new_lease ?es) = Some \<lparr>ow_session = ''b'', ow_stream = ''s2'', ow_explicit = False\<rparr>"
    "ls_seen (run lease_step new_lease ?es) = [{''s1''}, {}, {''s2''}]"
    by (simp_all add: new_lease_def all_well_def call_grant_def run_op_def run_grant_def release_def grant_permission_def
        remove_permission_def set_permitted_def)
  with one_controller [of ?es] show ?thesis by simp
qed

end
