(* ===== verification/StreamRuntime.thy ===== *)
theory StreamRuntime
  imports Displays StreamPolicy StreamHealth SdpCandidates ApprovedClients StreamRegistry ControlLease
begin

text \<open>
  \<^verbatim>\<open>apps/server/src/stream-runtime.mjs\<close>: the streams of all sessions, driven over the registry, the lease, the media
  workers and the media relay, whose models this theory composes. A call that waits is a task, known by its number; the
  answers it waits for arrive as events, in any order with those of other tasks. What the class reads from other
  components at a moment (sessions, policy, displays, authorizations, running workers, the relay's state) is the
  environment of the event. Calls to the workers and the relay are logged. The relay is always there, as the
  server runs it. Reading sessions may end those that have run out; that is the event of their end, just before.
\<close>

section \<open>Environment and state\<close>

record viewer =
  vs_id :: string
  vs_approved :: "string option"
  vs_generation :: nat
  vs_clientKey :: string
  vs_device :: string
  vs_audio :: bool
  vs_fps :: "int option"

record env =
  ev_now :: int
  ev_sessions :: "viewer list"
  ev_policy :: json
  ev_busy :: bool
  ev_inventory :: inventory
  ev_defaultControl :: string
  ev_auth :: "string \<Rightarrow> authorization option"
  ev_workers :: "string list"
  ev_backends :: "backend list"
  ev_round :: "rat \<Rightarrow> rat"
  ev_decimal :: "string \<Rightarrow> rat"
  ev_relayListening :: bool
  ev_relayReason :: "string option"
  ev_relayPort :: int

record client_network =
  nw_internet :: bool
  nw_hint :: "string option"
  nw_local :: "string option"

record relay_path =
  rp_https :: "string option"
  rp_media :: "string option"

datatype outside_call =
    Call_Start string plan
  | Call_AddPeer string string string
  | Call_CheckPort string string int
  | Call_Addresses bool "string option"
  | Call_Allow string "string \<times> string" "string \<times> string" int "string option"
  | Call_RevokeRelay string
  | Call_RemovePeer string string
  | Call_Stop string
  | Call_Keyframe string
  | Call_ShutDown

text \<open>An offer under way: its session, stream, source, plan, credentials and network.\<close>

record offer =
  of_session :: string
  of_stream :: string
  of_source :: string
  of_plan :: plan
  of_client :: "string \<times> string"
  of_network :: client_network

datatype offer_outcome = Refused string | Offer_Answer offer string | Control_Answer string

text \<open>What follows the end of a subscription: nothing, or the failure of its offer.\<close>

datatype ending = Just_End | Offer_Fails string

datatype task =
    Negotiating offer
  | Checking offer string "string \<times> string \<times> int"
  | Addressing offer string "string \<times> string \<times> int"
  | Allowing offer string "string list"
  | Finishing offer string
  | Removing_Peer string ending
  | Stopping_Source string ending
  | Revoking_Stream string
  | Closing_Source string "string list"
  | Selecting string string
  | Requesting string
  | Commanding string

text \<open>
  Where the lease's next operation is: not begun; begun, with the first answer of \<^verbatim>\<open>isActive\<close> and the owner it found; or carried out,
  and about to leave the queue.
\<close>

datatype lease_phase = At_Rest | Under_Way lease_op bool "owner option" | Settling

record runtime =
  rt_registry :: stream_registry
  rt_lease :: lease
  rt_phase :: lease_phase
  rt_stopping :: bool
  rt_stops :: "string list"
  rt_telemetry :: "(string, int) jmap"
  rt_diagnostics :: "(string, diagnostics) jmap"
  rt_recoveries :: "(string, recovery) jmap"
  rt_selected :: "(string, string) jmap"
  rt_automatic :: "string list"
  rt_paths :: "(string, relay_path) jmap"
  rt_tasks :: "(nat, task) jmap"
  rt_next :: nat
  rt_answers :: "(nat \<times> offer_outcome) list"
  rt_calls :: "outside_call list"

definition new_runtime :: "stream_registry \<Rightarrow> runtime" where
  "new_runtime registry =
     \<lparr>rt_registry = registry, rt_lease = new_lease, rt_phase = At_Rest, rt_stopping = False, rt_stops = [], rt_telemetry = [], rt_diagnostics = [],
      rt_recoveries = [], rt_selected = [], rt_automatic = [], rt_paths = [], rt_tasks = [], rt_next = 0, rt_answers = [],
      rt_calls = []\<rparr>"

definition RELAY_EXPIRES_MS :: int where "RELAY_EXPIRES_MS = 15000"
definition TELEMETRY_MS :: int where "TELEMETRY_MS = 800"

definition outside :: "outside_call \<Rightarrow> runtime \<Rightarrow> runtime" where
  "outside c rt = rt\<lparr>rt_calls := rt_calls rt @ [c]\<rparr>"

definition set_task :: "nat \<Rightarrow> task \<Rightarrow> runtime \<Rightarrow> runtime" where
  "set_task n t rt = rt\<lparr>rt_tasks := jset n t (rt_tasks rt)\<rparr>"

definition end_task :: "nat \<Rightarrow> runtime \<Rightarrow> runtime" where
  "end_task n rt = rt\<lparr>rt_tasks := jdel n (rt_tasks rt)\<rparr>"

definition answer_task :: "nat \<Rightarrow> offer_outcome \<Rightarrow> runtime \<Rightarrow> runtime" where
  "answer_task n v rt = rt\<lparr>rt_answers := rt_answers rt @ [(n, v)], rt_tasks := jdel n (rt_tasks rt)\<rparr>"

text \<open>The number of a new call.\<close>

definition new_call :: "runtime \<Rightarrow> nat \<times> runtime" where
  "new_call rt = (rt_next rt, rt\<lparr>rt_next := rt_next rt + 1\<rparr>)"

section \<open>Views\<close>

definition find_session :: "env \<Rightarrow> string \<Rightarrow> viewer option" where
  "find_session ev sessionId = find (\<lambda>v. vs_id v = sessionId) (ev_sessions ev)"

text \<open>The control that a viewer may have: the default, or an approved device's own setting.\<close>

definition permission_of :: "env \<Rightarrow> viewer option \<Rightarrow> string" where
  "permission_of ev session =
     (case session of
        None \<Rightarrow> ev_defaultControl ev
      | Some v \<Rightarrow>
          (case vs_approved v of
             None \<Rightarrow> ev_defaultControl ev
           | Some c \<Rightarrow>
               effectivePermission (case ev_auth ev c of
                   Some a \<Rightarrow> if au_generation a = vs_generation v then Some a else None
                 | None \<Rightarrow> None) (ev_defaultControl ev)))"

definition currentControl :: "env \<Rightarrow> string \<Rightarrow> string \<Rightarrow> bool \<Rightarrow> runtime \<Rightarrow> bool" where
  "currentControl ev sessionId streamId explicitOwner rt =
     (case (find_session ev sessionId, get_stream sessionId streamId (rt_registry rt), sourceOf streamId (rt_registry rt)) of
        (Some v, Some stream, Some source) \<Rightarrow>
          sm_state stream = Live \<and> so_state source = SReady \<and> sm_source stream \<in> set (ev_workers ev)
          \<and> (if explicitOwner then permission_of ev (Some v) \<noteq> ''view-only'' else permission_of ev (Some v) = ''available'')
      | _ \<Rightarrow> False)"

text \<open>The stream that holds control, and whether the session may take control itself.\<close>

definition controlState :: "env \<Rightarrow> string \<Rightarrow> runtime \<Rightarrow> string option \<times> bool" where
  "controlState ev sessionId rt =
     (case ls_owner (rt_lease rt) of
        Some ow \<Rightarrow> (if ow_session ow = sessionId then Some (ow_stream ow) else None, False)
      | None \<Rightarrow>
          (None, case jget (rt_selected rt) sessionId of
             None \<Rightarrow> False
           | Some streamId \<Rightarrow> sessionId \<in> set (rt_automatic rt) \<and> currentControl ev sessionId streamId False rt))"

definition stream_ids :: "string option \<Rightarrow> bool \<Rightarrow> runtime \<Rightarrow> string list" where
  "stream_ids sessionId audio rt =
     map fst (filter (\<lambda>(_, s). is_audio (sm_plan s) = audio \<and> (case sessionId of None \<Rightarrow> True | Some i \<Rightarrow> sm_session s = i))
       (rg_streams (rt_registry rt)))"

definition audioOf :: "string \<Rightarrow> runtime \<Rightarrow> string option" where
  "audioOf sessionId rt = (case stream_ids (Some sessionId) True rt of [] \<Rightarrow> None | i # _ \<Rightarrow> Some i)"

text \<open>A video plan still holds: the policy is the one it was made from, and the display has not changed.\<close>

definition screen_of :: "display \<Rightarrow> screen" where
  "screen_of d = \<lparr>sn_id = di_id d, sn_x = di_x d, sn_y = di_y d, sn_width = di_width d, sn_height = di_height d, sn_rotation = di_rotation d\<rparr>"

definition valid_plan :: "env \<Rightarrow> plan \<Rightarrow> bool" where
  "valid_plan ev plan =
     (case plan of
        VideoPlan _ (Some screen) revision _ \<Rightarrow>
          int_of (jfield ''revision'' (ev_policy ev)) = revision \<and> \<not> ev_busy ev
          \<and> (case select_display (ev_policy ev) (Some (sn_id screen)) None (ev_inventory ev) of
               Inr (_, d) \<Rightarrow> screen_of d = screen
             | Inl _ \<Rightarrow> False)
      | _ \<Rightarrow> False)"

definition allows_audio :: "env \<Rightarrow> bool" where
  "allows_audio ev \<longleftrightarrow> truthy_field (jfield ''allowAudio'' (ev_policy ev))"

text \<open>Where a stream's media comes from, and whether that differs from the address of the session.\<close>

definition path_host :: "string \<Rightarrow> string" where
  "path_host media =
     (if starts_with media ''['' then takeWhile (\<lambda>c. c \<noteq> CHR '']'') (drop 1 media) else hd (split_on (CHR '':'') media))"

definition mediaPath :: "string \<Rightarrow> string \<Rightarrow> runtime \<Rightarrow> string option \<times> bool" where
  "mediaPath streamId httpsAddress rt =
     (case (case jget (rt_paths rt) streamId of Some p \<Rightarrow> rp_media p | None \<Rightarrow> None) of
        None \<Rightarrow> (None, False)
      | Some media \<Rightarrow>
          if media = [] then (None, False)
          else (Some media, sourceGroup (Some (path_host media)) \<noteq> sourceGroup (Some httpsAddress)))"

section \<open>The host's view\<close>

record stream_row =
  sw_id :: string
  sw_state :: stream_state
  sw_viewers :: nat
  sw_codec :: string
  sw_media :: "string option"
  sw_differs :: bool
  sw_health :: string

record session_row =
  ww_id :: string
  ww_granted :: bool
  ww_controlStream :: "string option"
  ww_selected :: "string option"
  ww_audio :: bool
  ww_audioViewers :: nat
  ww_streams :: "stream_row list"
  ww_health :: string

definition stream_metrics :: "env \<Rightarrow> string \<Rightarrow> runtime \<Rightarrow> metrics option" where
  "stream_metrics ev streamId rt = map_option (snapshot (rat_of_int (ev_now ev))) (jget (rt_diagnostics rt) streamId)"

definition viewers_of :: "string \<Rightarrow> nat \<Rightarrow> runtime \<Rightarrow> nat" where
  "viewers_of sourceId missing rt =
     (case jget (rg_sources (rt_registry rt)) sourceId of Some s \<Rightarrow> length (so_subscriptions s) | None \<Rightarrow> missing)"

definition plan_fps :: "plan \<Rightarrow> rat option" where
  "plan_fps p = (case p of VideoPlan (Some profile) _ _ _ \<Rightarrow> Some (rat_of_int (whole_value (vp_fps profile))) | _ \<Rightarrow> None)"

definition stream_row_of :: "env \<Rightarrow> string \<Rightarrow> runtime \<Rightarrow> string \<times> stream \<Rightarrow> stream_row" where
  "stream_row_of ev clientKey rt = (\<lambda>(i, s).
     \<lparr>sw_id = i, sw_state = sm_state s, sw_viewers = viewers_of (sm_source s) 1 rt,
      sw_codec = (case sm_plan s of VideoPlan _ _ _ (Some c) \<Rightarrow> c | _ \<Rightarrow> ''h264''),
      sw_media = fst (mediaPath i clientKey rt), sw_differs = snd (mediaPath i clientKey rt),
      sw_health = health_of True (stream_metrics ev i rt) (plan_fps (sm_plan s))\<rparr>)"

definition overall_health :: "string list \<Rightarrow> string" where
  "overall_health hs =
     (case find (\<lambda>h. h \<noteq> ''Smooth'') hs of Some h \<Rightarrow> h | None \<Rightarrow> if hs = [] then ''No active streams'' else ''Smooth'')"

definition session_row_of :: "env \<Rightarrow> runtime \<Rightarrow> viewer \<Rightarrow> session_row" where
  "session_row_of ev rt v =
     (let held = (case ls_owner (rt_lease rt) of Some ow \<Rightarrow> if ow_session ow = vs_id v then Some (ow_stream ow) else None | None \<Rightarrow> None);
          audio = (case audioOf (vs_id v) rt of Some i \<Rightarrow> jget (rg_streams (rt_registry rt)) i | None \<Rightarrow> None);
          rows = map (stream_row_of ev (vs_clientKey v) rt)
            (filter (\<lambda>(_, s). \<not> is_audio (sm_plan s) \<and> sm_session s = vs_id v) (rg_streams (rt_registry rt)))
      in \<lparr>ww_id = vs_id v, ww_granted = (held \<noteq> None), ww_controlStream = held, ww_selected = jget (rt_selected rt) (vs_id v),
          ww_audio = (case audio of Some s \<Rightarrow> sm_state s = Live | None \<Rightarrow> False),
          ww_audioViewers = (case audio of Some s \<Rightarrow> viewers_of (sm_source s) 0 rt | None \<Rightarrow> 0),
          ww_streams = rows, ww_health = overall_health (map sw_health rows)\<rparr>)"

definition status_rows :: "env \<Rightarrow> runtime \<Rightarrow> session_row list \<times> nat" where
  "status_rows ev rt =
     (let rows = map (session_row_of ev rt) (ev_sessions ev) in (rows, sum_list (map (\<lambda>r. length (ww_streams r)) rows)))"

text \<open>The diagnostics of a video stream, with those of its session's audio.\<close>

definition stream_diagnostics :: "env \<Rightarrow> string \<Rightarrow> runtime \<Rightarrow> (metrics \<times> metrics option) option" where
  "stream_diagnostics ev streamId rt =
     (case (find (\<lambda>(i, s). i = streamId \<and> \<not> is_audio (sm_plan s)) (rg_streams (rt_registry rt)), stream_metrics ev streamId rt) of
        (Some (_, s), Some m) \<Rightarrow> Some (m, case audioOf (sm_session s) rt of Some i \<Rightarrow> stream_metrics ev i rt | None \<Rightarrow> None)
      | _ \<Rightarrow> None)"

section \<open>The end of a subscription\<close>

definition forget :: "string \<Rightarrow> runtime \<Rightarrow> runtime" where
  "forget streamId rt =
     (let rt = (if jhas (rt_paths rt) streamId then outside (Call_RevokeRelay streamId) (rt\<lparr>rt_paths := jdel streamId (rt_paths rt)\<rparr>) else rt)
      in rt\<lparr>rt_diagnostics := jdel streamId (rt_diagnostics rt), rt_recoveries := jdel streamId (rt_recoveries rt),
            rt_telemetry := jdel streamId (rt_telemetry rt), rt_selected := jkeep (\<lambda>_ i. i \<noteq> streamId) (rt_selected rt)\<rparr>)"

fun forget_all :: "string list \<Rightarrow> runtime \<Rightarrow> runtime" where
  "forget_all [] rt = rt"
| "forget_all (i # ids) rt = forget_all ids (forget i rt)"

definition set_registry :: "stream_registry \<Rightarrow> runtime \<Rightarrow> runtime" where
  "set_registry r rt = rt\<lparr>rt_registry := r\<rparr>"

definition on_registry :: "(stream_registry \<Rightarrow> 'a \<times> stream_registry) \<Rightarrow> runtime \<Rightarrow> runtime" where
  "on_registry f rt = set_registry (snd (f (rt_registry rt))) rt"

definition subscriptions_of :: "string \<Rightarrow> runtime \<Rightarrow> string list" where
  "subscriptions_of sourceId rt = (case jget (rg_sources (rt_registry rt)) sourceId of Some s \<Rightarrow> so_subscriptions s | None \<Rightarrow> [])"

text \<open>A failed offer also drops a path that came after its end.\<close>

definition after_end :: "nat \<Rightarrow> string \<Rightarrow> ending \<Rightarrow> runtime \<Rightarrow> runtime" where
  "after_end n streamId then_what rt =
     (case then_what of
        Just_End \<Rightarrow> end_task n rt
      | Offer_Fails e \<Rightarrow>
          answer_task n (Refused e)
            (if jhas (rt_paths rt) streamId then outside (Call_RevokeRelay streamId) (rt\<lparr>rt_paths := jdel streamId (rt_paths rt)\<rparr>)
             else rt))"

definition drop_subscription :: "env \<Rightarrow> nat \<Rightarrow> string \<Rightarrow> ending \<Rightarrow> runtime \<Rightarrow> runtime" where
  "drop_subscription ev n streamId then_what rt =
     (case unsubscribe streamId (rt_registry rt) of
        ((source, last_one), r) \<Rightarrow>
          (let rt = forget streamId (set_registry r rt)
           in case (if last_one then source else None) of
                None \<Rightarrow> after_end n streamId then_what rt
              | Some sourceId \<Rightarrow>
                  if sourceId \<in> set (ev_workers ev) then set_task n (Stopping_Source streamId then_what) (outside (Call_Stop sourceId) rt)
                  else after_end n streamId then_what (on_registry (releaseSource sourceId) rt)))"

definition end_subscription :: "env \<Rightarrow> nat \<Rightarrow> string \<Rightarrow> ending \<Rightarrow> runtime \<Rightarrow> runtime" where
  "end_subscription ev n streamId then_what rt =
     (case jget (rg_streams (rt_registry rt)) streamId of
        None \<Rightarrow> after_end n streamId then_what rt
      | Some stream \<Rightarrow>
          (let rt = on_registry (transition (sm_session stream) streamId Closing) rt
           in if sm_source stream \<in> set (ev_workers ev)
              then set_task n (Removing_Peer streamId then_what) (outside (Call_RemovePeer (sm_source stream) streamId) rt)
              else drop_subscription ev n streamId then_what rt))"

text \<open>The end of a subscription as a call of its own.\<close>

definition start_end :: "env \<Rightarrow> string \<Rightarrow> runtime \<Rightarrow> runtime" where
  "start_end ev streamId rt = (let (n, rt) = new_call rt in end_subscription ev n streamId Just_End rt)"

fun start_ends :: "env \<Rightarrow> string list \<Rightarrow> runtime \<Rightarrow> runtime" where
  "start_ends ev [] rt = rt"
| "start_ends ev (i # ids) rt = start_ends ev ids (start_end ev i rt)"

section \<open>Offers\<close>

record video_request =
  vr_sdp :: "string option"
  vr_displayId :: "string option"
  vr_inventory :: "string option"
  vr_profile :: "string option"

definition good_sdp :: "string option \<Rightarrow> bool" where
  "good_sdp sdp = (case sdp of Some s \<Rightarrow> starts_with s ''v=0'' \<and> length s \<le> 65536 | None \<Rightarrow> False)"

definition plan_profile :: "stream_plan \<Rightarrow> video_profile" where
  "plan_profile p =
     \<lparr>vp_name = pl_name p, vp_width = Whole (pl_width p), vp_height = Whole (pl_height p), vp_fps = Whole (pl_fps p),
      vp_bitrateKbps = Whole (pl_bitrateKbps p), vp_bitrateMode = Some (pl_bitrateMode p), vp_quality = Some (pl_quality p),
      vp_stretch = pl_stretch p\<rparr>"

text \<open>The plan of a video offer: display, profile, encoder and codec, each as the policy allows.\<close>

definition video_plan :: "env \<Rightarrow> viewer \<Rightarrow> video_request \<Rightarrow> plan result" where
  "video_plan ev v request =
     (if \<not> good_sdp (vr_sdp request) then Inl ''Invalid SDP''
      else if ev_busy ev then Inl ''Host settings are being applied''
      else (case select_display (ev_policy ev) (vr_displayId request) (vr_inventory request) (ev_inventory ev) of
              Inl e \<Rightarrow> Inl e
            | Inr (_, d) \<Rightarrow>
                (case resolveStreamPolicy (ev_round ev) (ev_policy ev)
                        \<lparr>rq_profileId = (case vr_profile request of Some p \<Rightarrow> p | None \<Rightarrow> ''auto''), rq_displayId = Some (di_id d),
                         rq_display = Some (rat_of_int (di_width d), rat_of_int (di_height d)),
                         rq_userAgent = (if vs_device v = ''iPhone'' then ''iPhone'' else []), rq_custom = None, rq_audio = False\<rparr> of
                   Inl e \<Rightarrow> Inl e
                 | Inr effective \<Rightarrow>
                     (case selectVideoCodec (vr_sdp request) (map (\<lambda>c. str_of (Some c)) (arr_of (jfield ''videoCodecs'' (ev_policy ev))))
                             (ev_backends ev) (pl_width (rv_profile effective)) (pl_height (rv_profile effective))
                             (selectEncoderBackend (Some (ev_backends ev)) (rv_encoderBackend effective)) of
                        Inl e \<Rightarrow> Inl e
                      | Inr codec \<Rightarrow>
                          Inr (VideoPlan (Some (plan_profile (rv_profile effective))) (Some (screen_of d)) (rv_revision effective)
                                 (Some codec))))))"

text \<open>The configuration that diagnostics show: the fields of the plan, or the frame rate of the session's profile.\<close>

definition shown_profile :: "plan \<Rightarrow> int option \<Rightarrow> (string \<times> json) list" where
  "shown_profile plan fps =
     (case plan of
        VideoPlan (Some p) _ _ _ \<Rightarrow>
          [(''name'', JStr (vp_name p)), (''width'', JInt (whole_value (vp_width p))), (''height'', JInt (whole_value (vp_height p))),
           (''fps'', JInt (whole_value (vp_fps p))), (''bitrateKbps'', JInt (whole_value (vp_bitrateKbps p)))]
      | _ \<Rightarrow> (case fps of Some f \<Rightarrow> [(''fps'', JInt f)] | None \<Rightarrow> []))"

definition shown_display :: "plan \<Rightarrow> (string \<times> json) list option" where
  "shown_display plan =
     (case plan of
        VideoPlan _ (Some d) _ _ \<Rightarrow>
          Some [(''id'', JStr (sn_id d)), (''x'', JInt (sn_x d)), (''y'', JInt (sn_y d)), (''width'', JInt (sn_width d)),
                (''height'', JInt (sn_height d)), (''rotation'', JInt (sn_rotation d))]
      | _ \<Rightarrow> None)"

definition started_diagnostics :: "plan \<Rightarrow> int option \<Rightarrow> diagnostics" where
  "started_diagnostics plan fps =
     startStream (shown_profile plan fps) (if is_audio plan then ''on'' else ''off'') (shown_display plan)
       (case plan of VideoPlan _ _ _ c \<Rightarrow> c | _ \<Rightarrow> None) (new_diagnostics 600 False)"

definition subscribe_offer ::
  "env \<Rightarrow> nat \<Rightarrow> string \<Rightarrow> string \<Rightarrow> viewer \<Rightarrow> plan \<Rightarrow> string \<Rightarrow> client_network \<Rightarrow> runtime \<Rightarrow> runtime" where
  "subscribe_offer ev n sourceId streamId v plan sdp network rt =
     (if \<not> ev_relayListening ev
      then answer_task n (Refused (''Media is unavailable: ''
             @ (case ev_relayReason ev of Some r \<Rightarrow> r | None \<Rightarrow> ''the media relay is not running''))) rt
      else (case iceCredentials sdp of
              Inl _ \<Rightarrow> answer_task n (Refused ''Invalid SDP'') rt
            | Inr client \<Rightarrow>
                (case subscribe (vs_id v) sourceId streamId plan (rt_registry rt) of
                   (Inl e, _) \<Rightarrow> answer_task n (Refused e) rt
                 | (Inr (sid, created), r) \<Rightarrow>
                     (let rt = set_registry r rt;
                          rt = rt\<lparr>rt_diagnostics := jset streamId (started_diagnostics plan (vs_fps v)) (rt_diagnostics rt),
                                  rt_recoveries := jset streamId new_recovery (rt_recoveries rt)\<rparr>;
                          rt = (if created then outside (Call_Start sid plan) rt else rt)
                      in set_task n (Negotiating \<lparr>of_session = vs_id v, of_stream = streamId, of_source = sid, of_plan = plan,
                            of_client = client, of_network = network\<rparr>)
                           (outside (Call_AddPeer sid streamId (stripOfferCandidates sdp)) rt)))))"

text \<open>The session of an offer, where it may have one now.\<close>

definition active_session :: "env \<Rightarrow> string \<Rightarrow> runtime \<Rightarrow> viewer option" where
  "active_session ev sessionId rt = (if rt_stopping rt \<or> sessionId \<in> set (rt_stops rt) then None else find_session ev sessionId)"

definition offerVideo ::
  "env \<Rightarrow> string \<Rightarrow> string \<Rightarrow> string \<Rightarrow> video_request \<Rightarrow> client_network \<Rightarrow> runtime \<Rightarrow> runtime" where
  "offerVideo ev sourceId streamId sessionId request network rt =
     (let (n, rt) = new_call rt
      in case active_session ev sessionId rt of
           None \<Rightarrow> answer_task n (Refused ''Inactive session'') rt
         | Some v \<Rightarrow>
             (case video_plan ev v request of
                Inl e \<Rightarrow> answer_task n (Refused e) rt
              | Inr plan \<Rightarrow> subscribe_offer ev n sourceId streamId v plan (the (vr_sdp request)) network rt))"

definition offerAudio ::
  "env \<Rightarrow> string \<Rightarrow> string \<Rightarrow> string \<Rightarrow> string option \<Rightarrow> client_network \<Rightarrow> runtime \<Rightarrow> runtime" where
  "offerAudio ev sourceId streamId sessionId sdp network rt =
     (let (n, rt) = new_call rt
      in case active_session ev sessionId rt of
           None \<Rightarrow> answer_task n (Refused ''Inactive session'') rt
         | Some v \<Rightarrow>
             if audioOf sessionId rt \<noteq> None then answer_task n (Refused ''Session audio already active'') rt
             else if \<not> vs_audio v \<or> \<not> allows_audio ev \<or> ev_busy ev then answer_task n (Refused ''Desktop audio is not allowed'') rt
             else if \<not> good_sdp sdp then answer_task n (Refused ''Invalid SDP'') rt
             else subscribe_offer ev n sourceId streamId v (AudioPlan (audioFormat (vs_fps v))) (the sdp) network rt)"

definition fail_offer :: "env \<Rightarrow> nat \<Rightarrow> offer \<Rightarrow> string \<Rightarrow> runtime \<Rightarrow> runtime" where
  "fail_offer ev n ofr e rt = end_subscription ev n (of_stream ofr) (Offer_Fails e) rt"

text \<open>The worker has started and answered, or one of them failed; then the port of the answer is checked.\<close>

definition negotiated :: "env \<Rightarrow> nat \<Rightarrow> string option \<Rightarrow> string result \<Rightarrow> runtime \<Rightarrow> runtime" where
  "negotiated ev n start_failure peer rt =
     (case jget (rt_tasks rt) n of
        Some (Negotiating ofr) \<Rightarrow>
          (case (start_failure, peer) of
             (Some e, _) \<Rightarrow> fail_offer ev n ofr e rt
           | (None, Inl e) \<Rightarrow> fail_offer ev n ofr e rt
           | (None, Inr answer) \<Rightarrow>
               (case validateRelayAnswer answer of
                  Inl e \<Rightarrow> fail_offer ev n ofr e rt
                | Inr (ufrag, pwd, port) \<Rightarrow>
                    set_task n (Checking ofr answer (ufrag, pwd, port)) (outside (Call_CheckPort (of_source ofr) (of_stream ofr) port) rt)))
      | _ \<Rightarrow> rt)"

definition port_checked :: "env \<Rightarrow> nat \<Rightarrow> bool \<Rightarrow> runtime \<Rightarrow> runtime" where
  "port_checked ev n owned rt =
     (case jget (rt_tasks rt) n of
        Some (Checking ofr answer w) \<Rightarrow>
          if \<not> owned then fail_offer ev n ofr ''The network process answered with a port it does not own.'' rt
          else set_task n (Addressing ofr answer w)
                 (outside (Call_Addresses (nw_internet (of_network ofr)) (nw_local (of_network ofr))) rt)
      | _ \<Rightarrow> rt)"

definition addresses_known :: "env \<Rightarrow> nat \<Rightarrow> string list result \<Rightarrow> runtime \<Rightarrow> runtime" where
  "addresses_known ev n addresses rt =
     (case jget (rt_tasks rt) n of
        Some (Addressing ofr answer (ufrag, pwd, port)) \<Rightarrow>
          (case addresses of
             Inl e \<Rightarrow> fail_offer ev n ofr e rt
           | Inr found \<Rightarrow>
               set_task n (Allowing ofr answer found)
                 (outside (Call_Allow (of_stream ofr) (ufrag, pwd) (of_client ofr) port (nw_hint (of_network ofr))) rt))
      | _ \<Rightarrow> rt)"

text \<open>The relay has confirmed the registration, or refused it.\<close>

definition relay_answered :: "env \<Rightarrow> nat \<Rightarrow> string option \<Rightarrow> runtime \<Rightarrow> runtime" where
  "relay_answered ev n refusal rt =
     (case jget (rt_tasks rt) n of
        Some (Allowing ofr answer found) \<Rightarrow>
          (case refusal of
             Some e \<Rightarrow> fail_offer ev n ofr e rt
           | None \<Rightarrow>
               (let rt = rt\<lparr>rt_paths := jset (of_stream ofr) \<lparr>rp_https = nw_hint (of_network ofr), rp_media = None\<rparr> (rt_paths rt)\<rparr>
                in case announceRelay answer found (ev_relayPort ev) of
                     Inl e \<Rightarrow> fail_offer ev n ofr e rt
                   | Inr announced \<Rightarrow> set_task n (Finishing ofr announced) rt))
      | _ \<Rightarrow> rt)"

definition still_valid :: "env \<Rightarrow> offer \<Rightarrow> bool" where
  "still_valid ev ofr = (if is_audio (of_plan ofr) then allows_audio ev else valid_plan ev (of_plan ofr))"

definition offer_finishes :: "env \<Rightarrow> nat \<Rightarrow> json option \<Rightarrow> runtime \<Rightarrow> runtime" where
  "offer_finishes ev n encoder rt =
     (case jget (rt_tasks rt) n of
        Some (Finishing ofr announced) \<Rightarrow>
          (let rt = (case jget (rt_diagnostics rt) (of_stream ofr) of
                       Some d \<Rightarrow> rt\<lparr>rt_diagnostics := jset (of_stream ofr) (setEncoder encoder d) (rt_diagnostics rt)\<rparr>
                     | None \<Rightarrow> rt)
           in if find_session ev (of_session ofr) = None \<or> rt_stopping rt \<or> \<not> still_valid ev ofr
              then fail_offer ev n ofr ''Stream ended during negotiation'' rt
              else (case transition (of_session ofr) (of_stream ofr) Live (rt_registry rt) of
                      (moved, r) \<Rightarrow>
                        if \<not> moved then fail_offer ev n ofr ''Stream ended during negotiation'' rt
                        else answer_task n (Offer_Answer ofr announced) (set_registry r rt)))
      | _ \<Rightarrow> rt)"

section \<open>Stopping\<close>

definition stop_stream :: "env \<Rightarrow> string \<Rightarrow> string \<Rightarrow> runtime \<Rightarrow> runtime" where
  "stop_stream ev sessionId streamId rt =
     (let (n, rt) = new_call rt
      in case get_stream sessionId streamId (rt_registry rt) of
           None \<Rightarrow> answer_task n (Refused ''Unknown stream'') rt
         | Some _ \<Rightarrow>
             (let rt = on_registry (transition sessionId streamId Closing) rt
              in if (case ls_owner (rt_lease rt) of Some ow \<Rightarrow> ow_stream ow = streamId | None \<Rightarrow> False)
                 then set_task n (Revoking_Stream streamId) (rt\<lparr>rt_lease := call_revoke (Some sessionId) (rt_lease rt)\<rparr>)
                 else end_subscription ev n streamId Just_End rt))"

fun stop_streams :: "env \<Rightarrow> string \<Rightarrow> string list \<Rightarrow> runtime \<Rightarrow> runtime" where
  "stop_streams ev sessionId [] rt = rt"
| "stop_streams ev sessionId (i # ids) rt = stop_streams ev sessionId ids (stop_stream ev sessionId i rt)"

definition stop_session :: "env \<Rightarrow> string \<Rightarrow> runtime \<Rightarrow> runtime" where
  "stop_session ev sessionId rt =
     (if sessionId \<in> set (rt_stops rt) then rt
      else (let audio = audioOf sessionId rt; rt = stop_streams ev sessionId (stream_ids (Some sessionId) False rt) rt;
                rt = (case audio of Some i \<Rightarrow> start_end ev i rt | None \<Rightarrow> rt)
            in rt\<lparr>rt_stops := rt_stops rt @ [sessionId]\<rparr>))"

fun stop_sessions :: "env \<Rightarrow> string list \<Rightarrow> runtime \<Rightarrow> runtime" where
  "stop_sessions ev [] rt = rt"
| "stop_sessions ev (i # ids) rt = stop_sessions ev ids (stop_session ev i rt)"

definition stop_every :: "env \<Rightarrow> runtime \<Rightarrow> runtime" where
  "stop_every ev rt =
     stop_sessions ev (remdups_first (map sm_session (list_streams None False (rt_registry rt) @ list_streams None True (rt_registry rt)))) rt"

text \<open>
  A change of the policy or the displays closes the sources whose plan no longer holds. The list of a source's
  streams is the one that was read at the start.
\<close>

definition close_source :: "env \<Rightarrow> nat \<Rightarrow> string \<Rightarrow> string list \<Rightarrow> runtime \<Rightarrow> runtime" where
  "close_source ev n sourceId streams rt =
     (let rt = on_registry (closeSource sourceId) rt
      in if sourceId \<in> set (ev_workers ev) then end_task n (outside (Call_Stop sourceId) rt)
         else end_task n (on_registry (releaseSource sourceId) (forget_all streams rt)))"

definition owner_within :: "string list \<Rightarrow> runtime \<Rightarrow> owner option" where
  "owner_within streams rt = (case ls_owner (rt_lease rt) of Some ow \<Rightarrow> if ow_stream ow \<in> set streams then Some ow else None | None \<Rightarrow> None)"

fun close_sources :: "env \<Rightarrow> (string \<times> string list) list \<Rightarrow> runtime \<Rightarrow> runtime" where
  "close_sources ev [] rt = rt"
| "close_sources ev ((sourceId, streams) # rest) rt =
     (let (n, rt) = new_call rt
      in close_sources ev rest
           (case owner_within streams rt of
              Some ow \<Rightarrow> set_task n (Closing_Source sourceId streams) (rt\<lparr>rt_lease := call_revoke (Some (ow_session ow)) (rt_lease rt)\<rparr>)
            | None \<Rightarrow> close_source ev n sourceId streams rt))"

definition revalidate :: "env \<Rightarrow> runtime \<Rightarrow> runtime" where
  "revalidate ev rt =
     close_sources ev
       (map (\<lambda>(i, s). (i, so_subscriptions s))
         (filter (\<lambda>(_, s). \<not> is_audio (so_plan s) \<and> so_state s \<noteq> SClosing \<and> \<not> valid_plan ev (so_plan s)) (rg_sources (rt_registry rt)))) rt"

section \<open>Control\<close>

text \<open>\<^verbatim>\<open>control.grant\<close>: settled at once, or queued; then the caller goes on when it has run.\<close>

definition ask_grant :: "string \<Rightarrow> string \<Rightarrow> bool \<Rightarrow> bool \<Rightarrow> runtime \<Rightarrow> bool result option \<times> runtime" where
  "ask_grant sessionId streamId onlyIfAvailable explicitOwner rt =
     (case call_grant sessionId streamId onlyIfAvailable explicitOwner (rt_lease rt) of
        (now, l) \<Rightarrow> (now, rt\<lparr>rt_lease := l\<rparr>))"

definition is_live :: "string \<Rightarrow> string \<Rightarrow> runtime \<Rightarrow> bool" where
  "is_live sessionId streamId rt =
     (case get_stream sessionId streamId (rt_registry rt) of Some s \<Rightarrow> sm_state s = Live | None \<Rightarrow> False)"

definition select_now :: "nat \<Rightarrow> string \<Rightarrow> string \<Rightarrow> runtime \<Rightarrow> runtime" where
  "select_now n sessionId streamId rt =
     (if \<not> is_live sessionId streamId rt then answer_task n (Refused ''Stream ended'') rt
      else answer_task n (Control_Answer streamId) (rt\<lparr>rt_selected := jset sessionId streamId (rt_selected rt)\<rparr>))"

definition selectStream :: "env \<Rightarrow> string \<Rightarrow> string \<Rightarrow> runtime \<Rightarrow> runtime" where
  "selectStream ev sessionId streamId rt =
     (let (n, rt) = new_call rt
      in if find_session ev sessionId = None \<or> \<not> is_live sessionId streamId rt then answer_task n (Refused ''Unknown stream'') rt
         else (case ls_owner (rt_lease rt) of
                 Some ow \<Rightarrow>
                   if ow_session ow = sessionId \<and> ow_stream ow \<noteq> streamId
                   then (if currentControl ev sessionId streamId (ow_explicit ow) rt
                         then (case ask_grant sessionId streamId False (ow_explicit ow) rt of
                                 (Some (Inl e), rt) \<Rightarrow> answer_task n (Refused e) rt
                               | (_, rt) \<Rightarrow> set_task n (Selecting sessionId streamId) rt)
                         else set_task n (Selecting sessionId streamId)
                                (rt\<lparr>rt_lease := call_revoke (Some sessionId) (rt_lease rt)\<rparr>))
                   else select_now n sessionId streamId rt
               | None \<Rightarrow> select_now n sessionId streamId rt))"

definition selection_goes_on :: "nat \<Rightarrow> string option \<Rightarrow> runtime \<Rightarrow> runtime" where
  "selection_goes_on n refusal rt =
     (case jget (rt_tasks rt) n of
        Some (Selecting sessionId streamId) \<Rightarrow>
          (case refusal of Some e \<Rightarrow> answer_task n (Refused e) rt | None \<Rightarrow> select_now n sessionId streamId rt)
      | _ \<Rightarrow> rt)"

definition TAKEN :: string where "TAKEN = ''Another device has keyboard and mouse control.''"

definition request_result :: "nat \<Rightarrow> string \<Rightarrow> runtime \<Rightarrow> runtime" where
  "request_result n sessionId rt =
     answer_task n (if (case ls_owner (rt_lease rt) of Some ow \<Rightarrow> ow_session ow = sessionId | None \<Rightarrow> False)
       then Control_Answer sessionId else Refused TAKEN) rt"

definition requestControl :: "env \<Rightarrow> string \<Rightarrow> string \<Rightarrow> runtime \<Rightarrow> runtime" where
  "requestControl ev sessionId streamId rt =
     (let (n, rt) = new_call rt
      in if find_session ev sessionId = None \<or> jget (rt_selected rt) sessionId \<noteq> Some streamId
         then answer_task n (Refused ''Unknown stream'') rt
         else if (case ls_owner (rt_lease rt) of Some ow \<Rightarrow> ow_session ow = sessionId \<and> ow_stream ow = streamId | None \<Rightarrow> False)
         then answer_task n (Control_Answer sessionId) rt
         else if sessionId \<notin> set (rt_automatic rt) \<or> \<not> currentControl ev sessionId streamId False rt
         then answer_task n (Refused ''The host must give this device keyboard and mouse control.'') rt
         else (case ask_grant sessionId streamId True False rt of
                 (Some (Inl e), rt) \<Rightarrow> answer_task n (Refused e) rt
               | (Some (Inr _), rt) \<Rightarrow> request_result n sessionId rt
               | (None, rt) \<Rightarrow> set_task n (Requesting sessionId) rt))"

definition request_goes_on :: "nat \<Rightarrow> string option \<Rightarrow> runtime \<Rightarrow> runtime" where
  "request_goes_on n refusal rt =
     (case jget (rt_tasks rt) n of
        Some (Requesting sessionId) \<Rightarrow>
          (case refusal of Some e \<Rightarrow> answer_task n (Refused e) rt | None \<Rightarrow> request_result n sessionId rt)
      | _ \<Rightarrow> rt)"

definition releaseControl :: "string \<Rightarrow> runtime \<Rightarrow> runtime" where
  "releaseControl sessionId rt =
     (if (case ls_owner (rt_lease rt) of Some ow \<Rightarrow> ow_session ow = sessionId \<and> \<not> ow_explicit ow | None \<Rightarrow> False)
      then rt\<lparr>rt_lease := call_revoke (Some sessionId) (rt_lease rt)\<rparr> else rt)"

datatype owner_action = Grant_Control | Revoke_Control | Stop_Stream string | Other_Action

definition owner_command :: "env \<Rightarrow> owner_action \<Rightarrow> string \<Rightarrow> runtime \<Rightarrow> runtime" where
  "owner_command ev action sessionId rt =
     (let (n, rt) = new_call rt
      in if find_session ev sessionId = None then answer_task n (Refused ''Device disconnected'') rt
         else (case action of
                 Grant_Control \<Rightarrow>
                   (case jget (rt_selected rt) sessionId of
                      None \<Rightarrow> answer_task n (Refused ''Control is view only or unavailable'') rt
                    | Some streamId \<Rightarrow>
                        if \<not> currentControl ev sessionId streamId True rt
                        then answer_task n (Refused ''Control is view only or unavailable'') rt
                        else (case ask_grant sessionId streamId False True rt of
                                (Some (Inl e), rt) \<Rightarrow> answer_task n (Refused e) rt
                              | (_, rt) \<Rightarrow> set_task n (Commanding sessionId) rt))
               | Revoke_Control \<Rightarrow>
                   set_task n (Commanding sessionId)
                     (rt\<lparr>rt_automatic := removeAll sessionId (rt_automatic rt), rt_lease := call_revoke (Some sessionId) (rt_lease rt)\<rparr>)
               | Stop_Stream streamId \<Rightarrow> stop_stream ev sessionId streamId rt
               | Other_Action \<Rightarrow> answer_task n (Refused ''Unknown session action'') rt))"

definition command_goes_on :: "nat \<Rightarrow> string option \<Rightarrow> runtime \<Rightarrow> runtime" where
  "command_goes_on n refusal rt =
     (case jget (rt_tasks rt) n of
        Some (Commanding sessionId) \<Rightarrow> answer_task n (case refusal of Some e \<Rightarrow> Refused e | None \<Rightarrow> Control_Answer sessionId) rt
      | _ \<Rightarrow> rt)"

fun revoke_sessions :: "string list \<Rightarrow> runtime \<Rightarrow> runtime" where
  "revoke_sessions [] rt = rt"
| "revoke_sessions (i # ids) rt = revoke_sessions ids (rt\<lparr>rt_lease := call_revoke (Some i) (rt_lease rt)\<rparr>)"

definition revokeApprovedClient :: "env \<Rightarrow> string \<Rightarrow> runtime \<Rightarrow> runtime" where
  "revokeApprovedClient ev clientId rt =
     (let affected = map vs_id (filter (\<lambda>v. vs_approved v = Some clientId) (ev_sessions ev))
      in revoke_sessions affected (rt\<lparr>rt_automatic := filter (\<lambda>i. i \<notin> set affected) (rt_automatic rt)\<rparr>))"

text \<open>
  The next operation of the lease runs. Its first question is asked of this state, its other answers may come
  later; where the worker does not acknowledge a release, the peer of the stream is removed, which is the end of the
  subscription.
\<close>

definition unacknowledged :: "answer \<Rightarrow> string \<Rightarrow> string list" where
  "unacknowledged a streamId = (if a = Acknowledged then [] else [streamId])"

definition peers_ended :: "lease_op \<Rightarrow> answers \<Rightarrow> lease \<Rightarrow> string list" where
  "peers_ended operation an l =
     (let held = (case ls_owner l of Some ow \<Rightarrow> unacknowledged (an_release1 an) (ow_stream ow) | None \<Rightarrow> [])
      in case operation of
           Grant sessionId streamId onlyIfAvailable explicitOwner \<Rightarrow>
             (if onlyIfAvailable \<and> ls_owner l \<noteq> None \<or> \<not> an_active1 an then []
              else held @ (if \<not> an_active2 an then []
                           else if an_grant an \<noteq> Acknowledged then [streamId]
                           else if \<not> an_active3 an then unacknowledged (an_release2 an) streamId @ [streamId] else []))
         | Revoke sessionId \<Rightarrow>
             (if sessionId = None \<or> (case ls_owner l of Some ow \<Rightarrow> Some (ow_session ow) = sessionId | None \<Rightarrow> False) then held else [])
         | Renew \<Rightarrow>
             (case ls_owner l of
                None \<Rightarrow> []
              | Some ow \<Rightarrow>
                  if \<not> an_active1 an then held
                  else if an_grant an \<noteq> Acknowledged \<or> \<not> an_active2 an then unacknowledged (an_release2 an) (ow_stream ow) else []))"

definition first_question :: "env \<Rightarrow> lease_op \<Rightarrow> runtime \<Rightarrow> bool" where
  "first_question ev operation rt =
     (case operation of
        Grant sessionId streamId _ explicitOwner \<Rightarrow> currentControl ev sessionId streamId explicitOwner rt
      | Revoke _ \<Rightarrow> False
      | Renew \<Rightarrow> (case ls_owner (rt_lease rt) of
          Some ow \<Rightarrow> currentControl ev (ow_session ow) (ow_stream ow) (ow_explicit ow) rt
        | None \<Rightarrow> False))"

text \<open>
  An operation waits several times, and other calls come in between: they find no owner once it releases the one it found, and
  until it has left the queue a call for control is refused. Its first part asks \<^verbatim>\<open>isActive\<close> and hides the owner.
\<close>

definition releases_first :: "lease_op \<Rightarrow> bool \<Rightarrow> lease \<Rightarrow> bool" where
  "releases_first operation active1 l =
     (case operation of
        Grant _ _ onlyIfAvailable _ \<Rightarrow> \<not> (onlyIfAvailable \<and> ls_owner l \<noteq> None) \<and> active1
      | Revoke sessionId \<Rightarrow> sessionId = None \<or> (case ls_owner l of Some ow \<Rightarrow> Some (ow_session ow) = sessionId | None \<Rightarrow> False)
      | Renew \<Rightarrow> \<not> active1)"

definition lease_begins :: "env \<Rightarrow> runtime \<Rightarrow> runtime" where
  "lease_begins ev rt =
     (case (rt_phase rt, ls_queue (rt_lease rt)) of
        (At_Rest, operation # _) \<Rightarrow>
          (let active1 = first_question ev operation rt; l = rt_lease rt
           in rt\<lparr>rt_phase := Under_Way operation active1 (ls_owner l),
                 rt_lease := (if releases_first operation active1 l then l\<lparr>ls_owner := None\<rparr> else l)\<rparr>)
      | _ \<Rightarrow> rt)"

definition run_lease :: "env \<Rightarrow> answers \<Rightarrow> runtime \<Rightarrow> runtime" where
  "run_lease ev an rt =
     (case rt_phase rt of
        Under_Way operation active1 found \<Rightarrow>
          (let an = an\<lparr>an_active1 := active1\<rparr>; l = (rt_lease rt)\<lparr>ls_owner := found\<rparr>
           in start_ends ev (peers_ended operation an l) (rt\<lparr>rt_phase := Settling, rt_lease := run_op operation an l\<rparr>))
      | _ \<Rightarrow> rt)"

definition lease_ends :: "runtime \<Rightarrow> runtime" where
  "lease_ends rt =
     (case rt_phase rt of
        Settling \<Rightarrow> rt\<lparr>rt_phase := At_Rest, rt_lease := (rt_lease rt)\<lparr>ls_queue := tl (ls_queue (rt_lease rt))\<rparr>\<rparr>
      | _ \<Rightarrow> rt)"

section \<open>Samples and callbacks\<close>

definition too_soon :: "env \<Rightarrow> string \<Rightarrow> runtime \<Rightarrow> bool" where
  "too_soon ev streamId rt = (case jget (rt_telemetry rt) streamId of Some t \<Rightarrow> ev_now ev - t < TELEMETRY_MS | None \<Rightarrow> False)"

definition put_sample :: "env \<Rightarrow> string \<Rightarrow> diagnostics \<Rightarrow> sample \<Rightarrow> runtime \<Rightarrow> runtime" where
  "put_sample ev streamId d sample rt =
     rt\<lparr>rt_telemetry := jset streamId (ev_now ev) (rt_telemetry rt),
        rt_diagnostics := jset streamId (snd (record_sample (rat_of_int (ev_now ev)) (Some From_Client) (Some sample) d)) (rt_diagnostics rt)\<rparr>"

definition record_video :: "env \<Rightarrow> string \<Rightarrow> string \<Rightarrow> sample \<Rightarrow> runtime \<Rightarrow> bool \<times> runtime" where
  "record_video ev sessionId streamId sample rt =
     (case (get_stream sessionId streamId (rt_registry rt), jget (rt_diagnostics rt) streamId, sourceOf streamId (rt_registry rt)) of
        (Some stream, Some d, Some _) \<Rightarrow>
          if sm_state stream \<noteq> Live \<or> too_soon ev streamId rt then (False, rt)
          else (let rt = put_sample ev streamId d sample rt
                in (True, case jget (rt_recoveries rt) streamId of
                      None \<Rightarrow> rt
                    | Some r \<Rightarrow>
                        (let (due, r) = observe sample (ev_now ev) r; rt = rt\<lparr>rt_recoveries := jset streamId r (rt_recoveries rt)\<rparr>
                         in if due then outside (Call_Keyframe (sm_source stream)) rt else rt)))
      | _ \<Rightarrow> (False, rt))"

definition record_audio :: "env \<Rightarrow> string \<Rightarrow> string \<Rightarrow> sample \<Rightarrow> runtime \<Rightarrow> bool \<times> runtime" where
  "record_audio ev sessionId streamId sample rt =
     (case (if audioOf sessionId rt = Some streamId then jget (rg_streams (rt_registry rt)) streamId else None,
            jget (rt_diagnostics rt) streamId) of
        (Some stream, Some d) \<Rightarrow>
          if sm_state stream \<noteq> Live \<or> too_soon ev streamId rt then (False, rt) else (True, put_sample ev streamId d sample rt)
      | _ \<Rightarrow> (False, rt))"

definition session_connected :: "env \<Rightarrow> string \<Rightarrow> runtime \<Rightarrow> runtime" where
  "session_connected ev sessionId rt =
     (if permission_of ev (find_session ev sessionId) = ''available'' then rt\<lparr>rt_automatic := add_new sessionId (rt_automatic rt)\<rparr> else rt)"

definition session_revoked :: "env \<Rightarrow> string \<Rightarrow> runtime \<Rightarrow> runtime" where
  "session_revoked ev sessionId rt =
     stop_session ev sessionId
       (rt\<lparr>rt_automatic := removeAll sessionId (rt_automatic rt), rt_selected := jdel sessionId (rt_selected rt)\<rparr>)"

definition worker_exited :: "string \<Rightarrow> runtime \<Rightarrow> runtime" where
  "worker_exited sourceId rt = on_registry (releaseSource sourceId) (forget_all (subscriptions_of sourceId rt) rt)"

text \<open>The fields of a message that are numbers.\<close>

definition numbers_of :: "env \<Rightarrow> (string \<times> json) list \<Rightarrow> sample" where
  "numbers_of ev m = concat (map (\<lambda>(k, v). case v of JInt i \<Rightarrow> [(k, rat_of_int i)] | JDec t \<Rightarrow> [(k, ev_decimal ev t)] | _ \<Rightarrow> []) m)"

fun server_samples :: "env \<Rightarrow> json \<Rightarrow> string list \<Rightarrow> runtime \<Rightarrow> runtime" where
  "server_samples ev message [] rt = rt"
| "server_samples ev message (i # ids) rt =
     server_samples ev message ids
       (case jget (rt_diagnostics rt) i of
          None \<Rightarrow> rt
        | Some d \<Rightarrow> rt\<lparr>rt_diagnostics := jset i (snd (record_sample (rat_of_int (ev_now ev)) (Some From_Server)
              (Some (numbers_of ev (peerSample message i))) d)) (rt_diagnostics rt)\<rparr>)"

datatype path_event = Path_Pinned string string | Path_Unpinned string string | Path_Expired string

definition relayEvent :: "env \<Rightarrow> path_event \<Rightarrow> runtime \<Rightarrow> runtime" where
  "relayEvent ev e rt =
     (case e of
        Path_Pinned streamId tuple \<Rightarrow>
          (case jget (rt_paths rt) streamId of
             Some p \<Rightarrow> rt\<lparr>rt_paths := jset streamId (p\<lparr>rp_media := Some tuple\<rparr>) (rt_paths rt)\<rparr>
           | None \<Rightarrow> rt)
      | Path_Unpinned streamId tuple \<Rightarrow>
          (case jget (rt_paths rt) streamId of
             Some p \<Rightarrow> if rp_media p = Some tuple then rt\<lparr>rt_paths := jset streamId (p\<lparr>rp_media := None\<rparr>) (rt_paths rt)\<rparr> else rt
           | None \<Rightarrow> rt)
      | Path_Expired streamId \<Rightarrow> start_end ev streamId rt)"

definition goes_on :: "env \<Rightarrow> nat \<Rightarrow> runtime \<Rightarrow> runtime" where
  "goes_on ev n rt =
     (case jget (rt_tasks rt) n of
        Some (Removing_Peer streamId then_what) \<Rightarrow> drop_subscription ev n streamId then_what rt
      | Some (Stopping_Source streamId then_what) \<Rightarrow> after_end n streamId then_what rt
      | Some (Revoking_Stream streamId) \<Rightarrow> end_subscription ev n streamId Just_End rt
      | Some (Closing_Source sourceId streams) \<Rightarrow> close_source ev n sourceId streams rt
      | _ \<Rightarrow> rt)"

section \<open>Events\<close>

datatype rt_event =
    Session_Connected string
  | Session_Revoked string
  | Session_Stopped string
  | Offer_Video string string string video_request client_network
  | Offer_Audio string string string "string option" client_network
  | Worker_Ready string
  | Negotiated nat "string option" "string result"
  | Port_Checked nat bool
  | Addresses_Known nat "string list result"
  | Relay_Answered nat "string option"
  | Offer_Goes_On nat "json option"
  | Task_Goes_On nat
  | Worker_Exited string
  | Worker_Metrics string json
  | Peer_Failed string
  | From_Relay path_event
  | Relay_Stopped
  | Shut_Down
  | Streams_Stopped
  | Revalidate
  | Select_Stream string string
  | Selection_Goes_On nat "string option"
  | Request_Control string string
  | Request_Goes_On nat "string option"
  | Release_Control string
  | Owner_Command owner_action string
  | Command_Goes_On nat "string option"
  | Revoke_Client string
  | Renew_Control
  | Lease_Begins
  | Run_Lease answers
  | Lease_Ends
  | Record_Video string string sample
  | Record_Audio string string sample

text \<open>Offers whose fresh ids are in use do not occur.\<close>

definition ids_free :: "string \<Rightarrow> string \<Rightarrow> runtime \<Rightarrow> bool" where
  "ids_free sourceId streamId rt \<longleftrightarrow> \<not> jhas (rg_sources (rt_registry rt)) sourceId \<and> \<not> jhas (rg_streams (rt_registry rt)) streamId"

fun rt_step :: "runtime \<Rightarrow> env \<times> rt_event \<Rightarrow> runtime" where
  "rt_step rt (ev, Session_Connected i) = session_connected ev i rt"
| "rt_step rt (ev, Session_Revoked i) = session_revoked ev i rt"
| "rt_step rt (ev, Session_Stopped i) = rt\<lparr>rt_stops := removeAll i (rt_stops rt)\<rparr>"
| "rt_step rt (ev, Offer_Video sid stid i request network) =
     (if ids_free sid stid rt then offerVideo ev sid stid i request network rt else rt)"
| "rt_step rt (ev, Offer_Audio sid stid i sdp network) =
     (if ids_free sid stid rt then offerAudio ev sid stid i sdp network rt else rt)"
| "rt_step rt (ev, Worker_Ready sid) = on_registry (markReady sid) rt"
| "rt_step rt (ev, Negotiated n failure peer) = negotiated ev n failure peer rt"
| "rt_step rt (ev, Port_Checked n owned) = port_checked ev n owned rt"
| "rt_step rt (ev, Addresses_Known n addresses) = addresses_known ev n addresses rt"
| "rt_step rt (ev, Relay_Answered n refusal) = relay_answered ev n refusal rt"
| "rt_step rt (ev, Offer_Goes_On n encoder) = offer_finishes ev n encoder rt"
| "rt_step rt (ev, Task_Goes_On n) = goes_on ev n rt"
| "rt_step rt (ev, Worker_Exited sid) = worker_exited sid rt"
| "rt_step rt (ev, Worker_Metrics sid message) = server_samples ev message (subscriptions_of sid rt) rt"
| "rt_step rt (ev, Peer_Failed i) = start_end ev i rt"
| "rt_step rt (ev, From_Relay e) = relayEvent ev e rt"
| "rt_step rt (ev, Relay_Stopped) = stop_every ev rt"
| "rt_step rt (ev, Shut_Down) = stop_every ev (rt\<lparr>rt_stopping := True\<rparr>)"
| "rt_step rt (ev, Streams_Stopped) = outside Call_ShutDown rt"
| "rt_step rt (ev, Revalidate) = revalidate ev rt"
| "rt_step rt (ev, Select_Stream i streamId) = selectStream ev i streamId rt"
| "rt_step rt (ev, Selection_Goes_On n refusal) = selection_goes_on n refusal rt"
| "rt_step rt (ev, Request_Control i streamId) = requestControl ev i streamId rt"
| "rt_step rt (ev, Request_Goes_On n refusal) = request_goes_on n refusal rt"
| "rt_step rt (ev, Release_Control i) = releaseControl i rt"
| "rt_step rt (ev, Owner_Command action i) = owner_command ev action i rt"
| "rt_step rt (ev, Command_Goes_On n refusal) = command_goes_on n refusal rt"
| "rt_step rt (ev, Revoke_Client c) = revokeApprovedClient ev c rt"
| "rt_step rt (ev, Renew_Control) = rt\<lparr>rt_lease := call_renew (rt_lease rt)\<rparr>"
| "rt_step rt (ev, Lease_Begins) = lease_begins ev rt"
| "rt_step rt (ev, Run_Lease an) = run_lease ev an rt"
| "rt_step rt (ev, Lease_Ends) = lease_ends rt"
| "rt_step rt (ev, Record_Video i streamId sample) = snd (record_video ev i streamId sample rt)"
| "rt_step rt (ev, Record_Audio i streamId sample) = snd (record_audio ev i streamId sample rt)"

section \<open>Lemmas: what an ordinary operation does\<close>

text \<open>Tasks that are not at a later stage of an offer.\<close>

fun plain_task :: "task \<Rightarrow> bool" where
  "plain_task (Checking _ _ _) = False"
| "plain_task (Addressing _ _ _) = False"
| "plain_task (Allowing _ _ _) = False"
| "plain_task (Finishing _ _) = False"
| "plain_task _ = True"

fun is_offer_answer :: "offer_outcome \<Rightarrow> bool" where
  "is_offer_answer (Offer_Answer _ _) = True"
| "is_offer_answer _ = False"

definition offer_answers :: "runtime \<Rightarrow> (nat \<times> offer_outcome) list" where
  "offer_answers rt = filter (\<lambda>(_, v). is_offer_answer v) (rt_answers rt)"

definition grants_of :: "runtime \<Rightarrow> lease_op set" where
  "grants_of rt = {g \<in> set (ls_queue (rt_lease rt)). \<exists>ses st avail expl. g = Grant ses st avail expl}"

text \<open>
  The registry is only moved by its own operations, no offer gets on, no control is asked for, and no
  session may ask that could not before.
\<close>

definition quiet :: "runtime \<Rightarrow> runtime \<Rightarrow> bool" where
  "quiet rt rt' \<longleftrightarrow>
     (\<exists>rs. rt_registry rt' = run reg_step (rt_registry rt) rs)
     \<and> (\<forall>n t. jget (rt_tasks rt') n = Some t \<longrightarrow> plain_task t \<or> jget (rt_tasks rt) n = Some t)
     \<and> offer_answers rt' = offer_answers rt \<and> grants_of rt' \<subseteq> grants_of rt
     \<and> set (rt_automatic rt') \<subseteq> set (rt_automatic rt)"

lemma run_append: "run step s (xs @ ys) = run step (run step s xs) ys"
  by (simp add: run_def)

lemma quiet_refl: "quiet rt rt"
  unfolding quiet_def using exI [of "\<lambda>rs. rt_registry rt = run reg_step (rt_registry rt) rs" "[]"] by simp

lemma quiet_trans:
  assumes "quiet a b" "quiet b c"
  shows "quiet a c"
proof -
  from assms obtain rs rs' where "rt_registry c = run reg_step (rt_registry a) (rs @ rs')"
    unfolding quiet_def run_append by metis
  then have "\<exists>rs. rt_registry c = run reg_step (rt_registry a) rs" by blast
  with assms show ?thesis unfolding quiet_def by (metis subset_trans)
qed

text \<open>Changes of the other fields.\<close>

lemma quiet_fields:
  assumes "rt_registry rt' = rt_registry rt" "rt_lease rt' = rt_lease rt" "offer_answers rt' = offer_answers rt"
    "set (rt_automatic rt') \<subseteq> set (rt_automatic rt)"
    "\<And>n t. jget (rt_tasks rt') n = Some t \<Longrightarrow> plain_task t \<or> jget (rt_tasks rt) n = Some t"
  shows "quiet rt rt'"
  using quiet_refl [of rt] assms unfolding quiet_def grants_of_def by simp

lemma quiet_more:
  assumes "quiet a b" "rt_registry c = rt_registry b" "rt_lease c = rt_lease b" "rt_answers c = rt_answers b"
    "rt_automatic c = rt_automatic b" "rt_tasks c = rt_tasks b"
  shows "quiet a c"
  by (rule quiet_trans [OF assms(1) quiet_fields]) (simp_all add: assms(2-) offer_answers_def)

lemma quiet_set_task: "quiet a b \<Longrightarrow> plain_task t \<Longrightarrow> quiet a (set_task n t b)"
  by (erule quiet_trans [OF _ quiet_fields]) (auto simp: set_task_def offer_answers_def split: if_splits)

lemma quiet_end_task: "quiet a b \<Longrightarrow> quiet a (end_task n b)"
  by (erule quiet_trans [OF _ quiet_fields]) (auto simp: end_task_def offer_answers_def split: if_splits)

lemma quiet_answer: "quiet a b \<Longrightarrow> \<not> is_offer_answer v \<Longrightarrow> quiet a (answer_task n v b)"
  by (erule quiet_trans [OF _ quiet_fields]) (auto simp: answer_task_def offer_answers_def split: if_splits)

lemma quiet_outside: "quiet a b \<Longrightarrow> quiet a (outside c b)"
  by (erule quiet_more) (simp_all add: outside_def)

lemma quiet_registry_event:
  assumes "r = reg_step (rt_registry b) e" "quiet a b"
  shows "quiet a (set_registry r b)"
proof (rule quiet_trans [OF assms(2)])
  have "rt_registry (set_registry r b) = run reg_step (rt_registry b) [e]" by (simp add: assms(1) set_registry_def)
  then have "\<exists>rs. rt_registry (set_registry r b) = run reg_step (rt_registry b) rs" by blast
  then show "quiet b (set_registry r b)" unfolding quiet_def by (simp add: set_registry_def offer_answers_def grants_of_def)
qed

lemma quiet_lease_event:
  assumes "l = lease_step (rt_lease b) e" "\<And>ses st avail expl. e \<noteq> CallGrant ses st avail expl" "quiet a b"
  shows "quiet a (b\<lparr>rt_lease := l\<rparr>)"
proof (rule quiet_trans [OF assms(3)])
  have "rt_registry (b\<lparr>rt_lease := l\<rparr>) = run reg_step (rt_registry b) []" by simp
  then have "\<exists>rs. rt_registry (b\<lparr>rt_lease := l\<rparr>) = run reg_step (rt_registry b) rs" by blast
  moreover have "grants_of (b\<lparr>rt_lease := l\<rparr>) \<subseteq> grants_of b"
    using assms(2) by (cases e) (auto simp: assms(1) grants_of_def call_revoke_def call_renew_def split: list.splits if_splits)
  ultimately show "quiet b (b\<lparr>rt_lease := l\<rparr>)" unfolding quiet_def by (simp add: offer_answers_def)
qed

lemma quiet_transition: "quiet a b \<Longrightarrow> quiet a (on_registry (transition ses i st) b)"
  unfolding on_registry_def by (rule quiet_registry_event [of _ _ "Transition ses i st"]) simp_all

lemma quiet_release: "quiet a b \<Longrightarrow> quiet a (on_registry (releaseSource i) b)"
  unfolding on_registry_def by (rule quiet_registry_event [of _ _ "ReleaseSource i"]) simp_all

lemma quiet_close: "quiet a b \<Longrightarrow> quiet a (on_registry (closeSource i) b)"
  unfolding on_registry_def by (rule quiet_registry_event [of _ _ "CloseSource i"]) simp_all

lemma quiet_ready: "quiet a b \<Longrightarrow> quiet a (on_registry (markReady i) b)"
  unfolding on_registry_def by (rule quiet_registry_event [of _ _ "MarkReady i"]) simp_all

lemma quiet_revoke: "quiet a b \<Longrightarrow> quiet a (b\<lparr>rt_lease := call_revoke i (rt_lease b)\<rparr>)"
  by (rule quiet_lease_event [of _ _ "CallRevoke i"]) simp_all

lemma quiet_new_call: "quiet a b \<Longrightarrow> quiet a (snd (new_call b))"
  by (erule quiet_more) (simp_all add: new_call_def)

lemma quiet_forget: "quiet a b \<Longrightarrow> quiet a (forget i b)"
  by (erule quiet_more) (simp_all add: forget_def outside_def Let_def)

lemma quiet_forget_all: "quiet a b \<Longrightarrow> quiet a (forget_all ids b)"
  by (induction ids arbitrary: b) (simp_all add: quiet_forget)

lemma quiet_paths: "quiet a b \<Longrightarrow> quiet a (b\<lparr>rt_paths := m\<rparr>)"
  by (erule quiet_more) simp_all

lemmas quiet_intros = quiet_refl quiet_set_task quiet_end_task quiet_answer quiet_outside quiet_transition quiet_release quiet_close
  quiet_ready quiet_revoke quiet_forget quiet_forget_all quiet_paths

lemma quiet_after_end: "quiet a b \<Longrightarrow> quiet a (after_end n i w b)"
  by (auto simp: after_end_def split: ending.split intro!: quiet_intros)

lemma quiet_drop:
  assumes "quiet a b"
  shows "quiet a (drop_subscription ev n i w b)"
proof -
  obtain x r where u: "unsubscribe i (rt_registry b) = (x, r)" by fastforce
  then have "quiet a (set_registry r b)" using assms by (intro quiet_registry_event [of _ _ "Unsubscribe i"]) simp_all
  then show ?thesis
    by (auto simp: drop_subscription_def u Let_def split: prod.split option.split intro!: quiet_intros quiet_after_end)
qed

lemma quiet_end: "quiet a b \<Longrightarrow> quiet a (end_subscription ev n i w b)"
  by (auto simp: end_subscription_def Let_def split: option.split intro!: quiet_intros quiet_after_end quiet_drop)

lemma quiet_start_end: "quiet a b \<Longrightarrow> quiet a (start_end ev i b)"
  by (simp add: start_end_def new_call_def quiet_end quiet_more)

lemma quiet_start_ends: "quiet a b \<Longrightarrow> quiet a (start_ends ev ids b)"
  by (induction ids arbitrary: b) (simp_all add: quiet_start_end)

lemma quiet_fail: "quiet a b \<Longrightarrow> quiet a (fail_offer ev n ofr e b)"
  by (simp add: fail_offer_def quiet_end)

lemma quiet_call: "quiet a b \<Longrightarrow> quiet a (b\<lparr>rt_next := k\<rparr>)"
  by (erule quiet_more) simp_all

lemma quiet_subscribe:
  assumes "quiet a b" "ids_free sid st b"
  shows "quiet a (subscribe_offer ev n sid st v plan sdp network b)"
proof -
  obtain x r where u: "subscribe (vs_id v) sid st plan (rt_registry b) = (x, r)" by fastforce
  then have r: "quiet a (set_registry r b)"
    using assms by (intro quiet_registry_event [of _ _ "Subscribe (vs_id v) sid st plan"]) (simp_all add: ids_free_def)
  have "quiet a (set_registry r b\<lparr>rt_diagnostics := m, rt_recoveries := k\<rparr>)" for m k
    by (rule quiet_more [OF r]) simp_all
  then show ?thesis using assms(1)
    by (auto simp: subscribe_offer_def u Let_def split: sum.split option.split intro!: quiet_intros)
qed

lemma quiet_offers:
  assumes "ids_free sid st rt"
  shows "quiet rt (offerVideo ev sid st i request network rt)" "quiet rt (offerAudio ev sid st i sdp network rt)"
proof -
  have "quiet rt (rt\<lparr>rt_next := k\<rparr>)" "ids_free sid st (rt\<lparr>rt_next := k\<rparr>)" for k
    using assms by (simp_all add: quiet_refl quiet_call ids_free_def)
  then show "quiet rt (offerVideo ev sid st i request network rt)" "quiet rt (offerAudio ev sid st i sdp network rt)"
    by (auto simp: offerVideo_def offerAudio_def new_call_def Let_def split: option.split sum.split
        intro!: quiet_answer quiet_subscribe)
qed

lemma quiet_stop_stream: "quiet a b \<Longrightarrow> quiet a (stop_stream ev i st b)"
  unfolding stop_stream_def new_call_def Let_def
  by (auto split: option.split intro!: quiet_intros quiet_end quiet_call)

lemma quiet_stop_streams: "quiet a b \<Longrightarrow> quiet a (stop_streams ev i sts b)"
  by (induction sts arbitrary: b) (simp_all add: quiet_stop_stream)

lemma quiet_stops: "quiet a b \<Longrightarrow> quiet a (b\<lparr>rt_stops := x\<rparr>)"
  by (erule quiet_more) simp_all

lemma quiet_stop_session: "quiet a b \<Longrightarrow> quiet a (stop_session ev i b)"
  unfolding stop_session_def Let_def
  by (auto split: option.split intro!: quiet_stops quiet_start_end quiet_stop_streams)

lemma quiet_stop_sessions: "quiet a b \<Longrightarrow> quiet a (stop_sessions ev ids b)"
  by (induction ids arbitrary: b) (simp_all add: quiet_stop_session)

lemma quiet_close_source: "quiet a b \<Longrightarrow> quiet a (close_source ev n i sts b)"
  unfolding close_source_def Let_def by (auto intro!: quiet_intros)

lemma quiet_close_sources: "quiet a b \<Longrightarrow> quiet a (close_sources ev xs b)"
proof (induction xs arbitrary: b)
  case (Cons x xs)
  obtain i sts where x: "x = (i, sts)" by fastforce
  let ?b = "b\<lparr>rt_next := rt_next b + 1\<rparr>"
  have b: "quiet a ?b" by (rule quiet_call [OF Cons.prems])
  have "quiet a (case owner_within sts ?b of
      Some ow \<Rightarrow> set_task (rt_next b) (Closing_Source i sts) (?b\<lparr>rt_lease := call_revoke (Some (ow_session ow)) (rt_lease ?b)\<rparr>)
    | None \<Rightarrow> close_source ev (rt_next b) i sts ?b)"
    using quiet_revoke [OF b] quiet_close_source [OF b] by (cases "owner_within sts ?b") (simp_all add: quiet_set_task)
  then show ?case unfolding x close_sources.simps new_call_def Let_def prod.case by (rule Cons.IH)
qed simp

lemma quiet_revalidate: "quiet rt (revalidate ev rt)"
  unfolding revalidate_def by (intro quiet_close_sources quiet_refl)

lemma quiet_revoke_sessions: "quiet a b \<Longrightarrow> quiet a (revoke_sessions ids b)"
  by (induction ids arbitrary: b) (simp_all add: quiet_revoke)

lemma quiet_automatic: "quiet a b \<Longrightarrow> set x \<subseteq> set (rt_automatic b) \<Longrightarrow> quiet a (b\<lparr>rt_automatic := x\<rparr>)"
  by (erule quiet_trans [OF _ quiet_fields]) (simp_all add: offer_answers_def)

lemma quiet_revoke_client: "quiet rt (revokeApprovedClient ev c rt)"
  unfolding revokeApprovedClient_def Let_def by (intro quiet_revoke_sessions quiet_automatic quiet_refl) auto

lemma quiet_session_revoked: "quiet rt (session_revoked ev i rt)"
proof -
  have "quiet rt (rt\<lparr>rt_automatic := removeAll i (rt_automatic rt)\<rparr>)" by (intro quiet_automatic quiet_refl) auto
  then have "quiet rt (rt\<lparr>rt_automatic := removeAll i (rt_automatic rt), rt_selected := m\<rparr>)" for m by (rule quiet_more) simp_all
  then show ?thesis unfolding session_revoked_def by (rule quiet_stop_session)
qed

text \<open>The parts of a lease operation put no grant into the queue.\<close>

lemma quiet_lease:
  assumes "set (ls_queue l) \<subseteq> set (ls_queue (rt_lease rt))"
  shows "quiet rt (rt\<lparr>rt_phase := ph, rt_lease := l\<rparr>)"
proof -
  have "rt_registry (rt\<lparr>rt_phase := ph, rt_lease := l\<rparr>) = run reg_step (rt_registry rt) []" by simp
  then have "\<exists>rs. rt_registry (rt\<lparr>rt_phase := ph, rt_lease := l\<rparr>) = run reg_step (rt_registry rt) rs" by blast
  then show ?thesis using assms unfolding quiet_def by (auto simp: offer_answers_def grants_of_def)
qed

lemma run_op_queue: "ls_queue (run_op operation an l) = ls_queue l"
  by (auto simp: run_op_def run_grant_def run_revoke_def run_renew_def release_def grant_permission_def remove_permission_def
      set_permitted_def Let_def split: lease_op.split answer.split option.split)

lemma quiet_lease_parts:
  "quiet rt (lease_begins ev rt)" "quiet rt (run_lease ev an rt)" "quiet rt (lease_ends rt)"
proof -
  have phase: "quiet rt (rt\<lparr>rt_phase := ph\<rparr>)" for ph by (rule quiet_more [OF quiet_refl]) simp_all
  show "quiet rt (lease_begins ev rt)"
    by (auto simp: lease_begins_def Let_def split: lease_phase.split list.split intro!: quiet_refl quiet_lease phase)
  show "quiet rt (run_lease ev an rt)"
    by (auto simp: run_lease_def Let_def run_op_queue split: lease_phase.split intro!: quiet_refl quiet_start_ends quiet_lease)
  have rest: "x \<in> set (tl q) \<Longrightarrow> x \<in> set q" for x and q :: "lease_op list" by (cases q) auto
  show "quiet rt (lease_ends rt)"
    by (auto simp: lease_ends_def split: lease_phase.split intro!: quiet_refl quiet_lease dest: rest)
qed

lemma quiet_samples: "quiet a b \<Longrightarrow> quiet a (server_samples ev message ids b)"
proof (induction ids arbitrary: b)
  case (Cons i ids)
  have "quiet a (b\<lparr>rt_diagnostics := m\<rparr>)" for m by (rule quiet_more [OF Cons.prems]) simp_all
  with Cons show ?case by (auto split: option.split)
qed simp

lemma quiet_records: "quiet rt (snd (record_video ev i st sample rt))" "quiet rt (snd (record_audio ev i st sample rt))"
proof -
  have put: "quiet rt (put_sample ev st d sample rt)" for d
    unfolding put_sample_def by (rule quiet_more [OF quiet_refl]) simp_all
  then have more: "quiet rt (put_sample ev st d sample rt\<lparr>rt_recoveries := m\<rparr>)" for d m
    by (rule quiet_more) simp_all
  from put more show "quiet rt (snd (record_video ev i st sample rt))" "quiet rt (snd (record_audio ev i st sample rt))"
    by (auto simp: record_video_def record_audio_def Let_def quiet_refl split: option.split prod.split intro!: quiet_outside)
qed

lemma quiet_relay_event: "quiet rt (relayEvent ev e rt)"
  by (auto simp: relayEvent_def split: path_event.split option.split intro!: quiet_intros quiet_start_end)

lemma quiet_goes_on: "quiet rt (goes_on ev n rt)"
  by (auto simp: goes_on_def split: option.split task.split intro!: quiet_refl quiet_drop quiet_after_end quiet_end quiet_close_source)

lemma quiet_select_now: "quiet a b \<Longrightarrow> quiet a (select_now n i st b)"
proof -
  assume q: "quiet a b"
  then have "quiet a (b\<lparr>rt_selected := m\<rparr>)" for m by (rule quiet_more) simp_all
  with q show ?thesis by (auto simp: select_now_def intro!: quiet_answer)
qed

lemma quiet_later:
  "quiet rt (selection_goes_on n refusal rt)" "quiet rt (request_goes_on n refusal rt)" "quiet rt (command_goes_on n refusal rt)"
  by (auto simp: selection_goes_on_def request_goes_on_def request_result_def command_goes_on_def split: option.split task.split
      intro!: quiet_refl quiet_answer quiet_select_now)

lemma quiet_release_control: "quiet rt (releaseControl i rt)"
  by (auto simp: releaseControl_def intro!: quiet_revoke quiet_refl)

lemma quiet_renew: "quiet rt (rt\<lparr>rt_lease := call_renew (rt_lease rt)\<rparr>)"
  by (rule quiet_lease_event [of _ _ CallRenew]) (simp_all add: quiet_refl)

section \<open>Lemmas: the stages of an offer\<close>

lemma quiet_tasks: "quiet a b \<Longrightarrow> jget (rt_tasks b) n = Some t \<Longrightarrow> plain_task t \<or> jget (rt_tasks a) n = Some t"
  by (simp add: quiet_def)

lemma quiet_answers: "quiet a b \<Longrightarrow> offer_answers b = offer_answers a"
  by (simp add: quiet_def)

definition is_stage :: "rt_event \<Rightarrow> bool" where
  "is_stage e = (case e of Negotiated _ _ _ \<Rightarrow> True | Port_Checked _ _ \<Rightarrow> True | Addresses_Known _ _ \<Rightarrow> True | Relay_Answered _ _ \<Rightarrow> True
     | Offer_Goes_On _ _ \<Rightarrow> True | _ \<Rightarrow> False)"

definition asks_control :: "rt_event \<Rightarrow> bool" where
  "asks_control e = (case e of Select_Stream _ _ \<Rightarrow> True | Request_Control _ _ \<Rightarrow> True | Owner_Command a _ \<Rightarrow> a = Grant_Control | _ \<Rightarrow> False)"

definition connects :: "rt_event \<Rightarrow> bool" where
  "connects e = (case e of Session_Connected _ \<Rightarrow> True | _ \<Rightarrow> False)"

lemma quiet_command: "action \<noteq> Grant_Control \<Longrightarrow> quiet rt (owner_command ev action i rt)"
proof -
  assume "action \<noteq> Grant_Control"
  moreover have q1: "quiet rt (rt\<lparr>rt_next := k\<rparr>)" for k by (rule quiet_call [OF quiet_refl])
  moreover have "quiet rt (rt\<lparr>rt_next := k, rt_automatic := removeAll i (rt_automatic rt), rt_lease := call_revoke x (rt_lease rt)\<rparr>)" for k x
  proof -
    have "quiet rt (rt\<lparr>rt_next := k, rt_automatic := removeAll i (rt_automatic rt)\<rparr>)" by (rule quiet_automatic [OF q1]) auto
    from quiet_revoke [OF this, of x] show ?thesis by simp
  qed
  ultimately show ?thesis
    by (cases action) (auto simp: owner_command_def new_call_def Let_def intro!: quiet_answer quiet_set_task quiet_stop_stream)
qed

lemma quiet_step:
  "\<not> is_stage e \<Longrightarrow> \<not> asks_control e \<Longrightarrow> \<not> connects e \<Longrightarrow> quiet rt (rt_step rt (ev, e))"
proof (cases e)
  case Shut_Down
  have "quiet rt (rt\<lparr>rt_stopping := True\<rparr>)" by (rule quiet_more [OF quiet_refl]) simp_all
  with Shut_Down show ?thesis by (simp add: stop_every_def quiet_stop_sessions)
qed (simp_all add: is_stage_def asks_control_def connects_def quiet_refl quiet_session_revoked quiet_stops quiet_offers quiet_ready
    quiet_goes_on worker_exited_def quiet_release quiet_forget_all quiet_samples quiet_start_end quiet_relay_event stop_every_def
    quiet_stop_sessions quiet_outside quiet_revalidate quiet_later quiet_release_control quiet_command quiet_revoke_client quiet_renew
    quiet_lease_parts quiet_records)

text \<open>What a stage does when it does not fail.\<close>

lemma negotiated_cases:
  "quiet rt (negotiated ev n failure peer rt)
   \<or> (\<exists>ofr answer w. jget (rt_tasks rt) n = Some (Negotiating ofr) \<and> failure = None \<and> peer = Inr answer
        \<and> validateRelayAnswer answer = Inr w
        \<and> negotiated ev n failure peer rt = set_task n (Checking ofr answer w) (outside (Call_CheckPort (of_source ofr) (of_stream ofr) (snd (snd w))) rt))"
  by (auto simp: negotiated_def split: option.split task.split sum.split prod.split intro!: quiet_refl quiet_fail)

lemma port_checked_cases:
  "quiet rt (port_checked ev n owned rt)
   \<or> (\<exists>ofr answer w c. jget (rt_tasks rt) n = Some (Checking ofr answer w) \<and> owned
        \<and> port_checked ev n owned rt = set_task n (Addressing ofr answer w) (outside c rt))"
  by (auto simp: port_checked_def split: option.split task.split intro!: quiet_refl quiet_fail)

lemma addresses_known_cases:
  "quiet rt (addresses_known ev n addresses rt)
   \<or> (\<exists>ofr answer w found c. jget (rt_tasks rt) n = Some (Addressing ofr answer w) \<and> addresses = Inr found
        \<and> addresses_known ev n addresses rt = set_task n (Allowing ofr answer found) (outside c rt))"
  by (auto simp: addresses_known_def split: option.split task.split sum.split prod.split intro!: quiet_refl quiet_fail)

lemma relay_answered_cases:
  "quiet rt (relay_answered ev n refusal rt)
   \<or> (\<exists>ofr answer found announced m. jget (rt_tasks rt) n = Some (Allowing ofr answer found) \<and> refusal = None
        \<and> announceRelay answer found (ev_relayPort ev) = Inr announced
        \<and> relay_answered ev n refusal rt = set_task n (Finishing ofr announced) (rt\<lparr>rt_paths := m\<rparr>))"
  by (auto simp: relay_answered_def Let_def split: option.split task.split sum.split intro!: quiet_refl quiet_fail quiet_paths)

lemma offer_finishes_cases:
  "quiet rt (offer_finishes ev n encoder rt)
   \<or> (\<exists>ofr announced b r. jget (rt_tasks rt) n = Some (Finishing ofr announced) \<and> find_session ev (of_session ofr) \<noteq> None
        \<and> \<not> rt_stopping rt \<and> still_valid ev ofr \<and> quiet rt b \<and> transition (of_session ofr) (of_stream ofr) Live (rt_registry rt) = (True, r)
        \<and> rt_registry b = rt_registry rt \<and> offer_finishes ev n encoder rt = answer_task n (Offer_Answer ofr announced) (set_registry r b))"
proof (cases "jget (rt_tasks rt) n")
  case None
  then show ?thesis by (simp add: offer_finishes_def quiet_refl)
next
  case (Some t)
  show ?thesis
  proof (cases t)
    case (Finishing ofr announced)
    define b where "b = (case jget (rt_diagnostics rt) (of_stream ofr) of
        Some d \<Rightarrow> rt\<lparr>rt_diagnostics := jset (of_stream ofr) (setEncoder encoder d) (rt_diagnostics rt)\<rparr> | None \<Rightarrow> rt)"
    have q: "quiet rt (rt\<lparr>rt_diagnostics := m\<rparr>)" for m by (rule quiet_more [OF quiet_refl]) simp_all
    have b: "quiet rt b" "rt_registry b = rt_registry rt" "rt_stopping b = rt_stopping rt"
      using q quiet_refl by (simp_all add: b_def split: option.split)
    show ?thesis
      using Some Finishing b by (auto simp: offer_finishes_def Let_def simp flip: b_def split: prod.split intro!: quiet_fail)
  qed (simp_all add: offer_finishes_def Some quiet_refl)
qed

section \<open>Lemmas: the registry and who may ask\<close>

definition moves :: "runtime \<Rightarrow> runtime \<Rightarrow> bool" where
  "moves rt rt' \<longleftrightarrow> (\<exists>rs. rt_registry rt' = run reg_step (rt_registry rt) rs)"

lemma quiet_moves: "quiet a b \<Longrightarrow> moves a b"
  unfolding quiet_def moves_def by blast

lemma moves_trans: "moves a b \<Longrightarrow> moves b c \<Longrightarrow> moves a c"
  unfolding moves_def using run_append by metis

lemma moves_same: "rt_registry b = rt_registry a \<Longrightarrow> moves a b"
  using quiet_moves [OF quiet_refl, of a] by (simp add: moves_def)

text \<open>Asking for control: the queue of the lease may get the grant that is asked for.\<close>

lemma ask_grant_facts:
  assumes "ask_grant ses st avail expl a = (x, b)"
  shows "rt_registry b = rt_registry a" "rt_automatic b = rt_automatic a" "rt_tasks b = rt_tasks a" "rt_answers b = rt_answers a"
    "moves a b" "grants_of b \<subseteq> insert (Grant ses st avail expl) (grants_of a)"
proof -
  from assms have b: "b = a\<lparr>rt_lease := lease_step (rt_lease a) (CallGrant ses st avail expl)\<rparr>"
    by (auto simp: ask_grant_def split: prod.splits)
  show "rt_registry b = rt_registry a" "rt_automatic b = rt_automatic a" "rt_tasks b = rt_tasks a" "rt_answers b = rt_answers a"
    by (simp_all add: b)
  show "grants_of b \<subseteq> insert (Grant ses st avail expl) (grants_of a)" by (auto simp: b grants_of_def call_grant_def)
  show "moves a b" by (rule moves_same) (simp add: b)
qed

text \<open>A step that only asks for the grant \<open>g\<close>, or for none.\<close>

definition asks :: "lease_op set \<Rightarrow> runtime \<Rightarrow> runtime \<Rightarrow> bool" where
  "asks gs a b \<longleftrightarrow> moves a b \<and> grants_of b \<subseteq> gs \<union> grants_of a \<and> set (rt_automatic b) \<subseteq> set (rt_automatic a)
     \<and> offer_answers b = offer_answers a \<and> (\<forall>n t. jget (rt_tasks b) n = Some t \<longrightarrow> plain_task t \<or> jget (rt_tasks a) n = Some t)"

lemma quiet_asks: "quiet a b \<Longrightarrow> asks gs a b"
  using quiet_moves unfolding quiet_def asks_def by blast

lemma asks_trans:
  assumes "asks gs a b" "quiet b c"
  shows "asks gs a c"
proof -
  have "moves a c" using moves_trans [OF _ quiet_moves [OF assms(2)]] assms(1) by (simp add: asks_def)
  moreover have "grants_of c \<subseteq> gs \<union> grants_of a" using assms by (auto simp: asks_def quiet_def)
  moreover have "plain_task t \<or> jget (rt_tasks a) n = Some t" if "jget (rt_tasks c) n = Some t" for n t
    using quiet_tasks [OF assms(2) that] assms(1) by (auto simp: asks_def)
  ultimately show ?thesis using assms by (auto simp: asks_def quiet_def)
qed

lemma ask_grant_asks: "ask_grant ses st avail expl a = (x, b) \<Longrightarrow> asks {Grant ses st avail expl} a b"
  using ask_grant_facts [of ses st avail expl a x b] unfolding asks_def offer_answers_def by auto

lemma control_next [simp]: "currentControl ev ses st expl (rt\<lparr>rt_next := k\<rparr>) = currentControl ev ses st expl rt"
  "is_live ses st (rt\<lparr>rt_next := k\<rparr>) = is_live ses st rt"
  by (simp_all add: currentControl_def is_live_def)

lemma asks_next: "asks gs (rt\<lparr>rt_next := k\<rparr>) b \<Longrightarrow> asks gs rt b"
proof -
  assume a: "asks gs (rt\<lparr>rt_next := k\<rparr>) b"
  have "moves rt (rt\<lparr>rt_next := k\<rparr>)" by (rule moves_same) simp_all
  from a moves_trans [OF this] show ?thesis by (auto simp: asks_def offer_answers_def grants_of_def)
qed

text \<open>
  The grants an event asks for, when the host's settings allow them: a viewer's request for the stream it selected, if it may
  ask by itself; the move of control that this viewer already has to another of its streams; the host's grant for the
  stream the viewer selected. No other event asks for any.
\<close>

definition permitted :: "env \<Rightarrow> rt_event \<Rightarrow> runtime \<Rightarrow> lease_op set" where
  "permitted ev e rt = {Grant ses st avail expl | ses st avail expl.
     find_session ev ses \<noteq> None \<and> currentControl ev ses st expl rt
     \<and> (e = Request_Control ses st \<and> avail \<and> \<not> expl \<and> ses \<in> set (rt_automatic rt) \<and> jget (rt_selected rt) ses = Some st
       \<or> e = Select_Stream ses st \<and> \<not> avail
         \<and> (\<exists>ow. ls_owner (rt_lease rt) = Some ow \<and> ow_session ow = ses \<and> ow_stream ow \<noteq> st \<and> ow_explicit ow = expl)
       \<or> e = Owner_Command Grant_Control ses \<and> \<not> avail \<and> expl \<and> jget (rt_selected rt) ses = Some st)}"

lemma asks_mono: "asks gs a b \<Longrightarrow> gs \<subseteq> hs \<Longrightarrow> asks hs a b"
  by (auto simp: asks_def)

text \<open>The three calls that ask, each after its checks.\<close>

lemma granted_asks:
  assumes "Grant ses st avail expl \<in> permitted ev e rt" "ask_grant ses st avail expl (rt\<lparr>rt_next := k\<rparr>) = (x, b)" "quiet b c"
  shows "asks (permitted ev e rt) rt c"
proof (rule asks_next)
  from assms(1) have "{Grant ses st avail expl} \<subseteq> permitted ev e rt" by simp
  then show "asks (permitted ev e rt) (rt\<lparr>rt_next := k\<rparr>) c"
    by (rule asks_mono [OF asks_trans [OF ask_grant_asks [OF assms(2)] assms(3)]])
qed

lemma select_asks: "asks (permitted ev (Select_Stream ses st) rt) rt (selectStream ev ses st rt)"
proof -
  let ?rt = "rt\<lparr>rt_next := rt_next rt + 1\<rparr>"
  have q: "quiet rt ?rt" by (rule quiet_call [OF quiet_refl])
  show ?thesis
  proof (cases "\<exists>ow. ls_owner (rt_lease rt) = Some ow \<and> ow_session ow = ses \<and> ow_stream ow \<noteq> st \<and> currentControl ev ses st (ow_explicit ow) rt
      \<and> find_session ev ses \<noteq> None \<and> is_live ses st rt")
    case True
    then obtain ow where ow: "ls_owner (rt_lease rt) = Some ow" "ow_session ow = ses" "ow_stream ow \<noteq> st"
      "currentControl ev ses st (ow_explicit ow) rt" "find_session ev ses \<noteq> None" "is_live ses st rt" by blast
    obtain v where v: "find_session ev ses = Some v" using ow(5) by blast
    obtain x b where xb: "ask_grant ses st False (ow_explicit ow) ?rt = (x, b)" by fastforce
    have p: "Grant ses st False (ow_explicit ow) \<in> permitted ev (Select_Stream ses st) rt" using ow(1-5) by (auto simp: permitted_def)
    have "quiet b (answer_task n (Refused e) b)" "quiet b (set_task n (Selecting ses st) b)" for n e
      by (simp_all add: quiet_answer quiet_set_task quiet_refl)
    then have "quiet b (selectStream ev ses st rt)"
      using ow(1-4,6) v xb by (simp add: selectStream_def new_call_def split: option.split sum.split)
    from granted_asks [OF p xb this] show ?thesis .
  next
    case False
    have "quiet rt (answer_task n (Refused e) ?rt)" "quiet rt (select_now n ses st ?rt)" for n e
      using q by (simp_all add: quiet_answer quiet_select_now)
    moreover have "quiet rt (set_task n (Selecting ses st) (?rt\<lparr>rt_lease := call_revoke i (rt_lease rt)\<rparr>))" for n i
      using quiet_revoke [OF q, of i] by (simp add: quiet_set_task)
    moreover have "selectStream ev ses st rt =
       (if find_session ev ses = None \<or> \<not> is_live ses st rt then answer_task (rt_next rt) (Refused ''Unknown stream'') ?rt
        else if (\<exists>ow. ls_owner (rt_lease rt) = Some ow \<and> ow_session ow = ses \<and> ow_stream ow \<noteq> st)
        then set_task (rt_next rt) (Selecting ses st) (?rt\<lparr>rt_lease := call_revoke (Some ses) (rt_lease rt)\<rparr>)
        else select_now (rt_next rt) ses st ?rt)"
    proof (cases "ls_owner (rt_lease rt)")
      case None
      then show ?thesis by (simp add: selectStream_def new_call_def)
    next
      case (Some ow)
      with False have "find_session ev ses = None \<or> \<not> is_live ses st rt \<or> ow_session ow \<noteq> ses \<or> ow_stream ow = st
          \<or> \<not> currentControl ev ses st (ow_explicit ow) rt" by blast
      then show ?thesis using Some by (elim disjE) (simp_all add: selectStream_def new_call_def)
    qed
    ultimately have "quiet rt (selectStream ev ses st rt)" by simp
    then show ?thesis by (rule quiet_asks)
  qed
qed

lemma request_asks: "asks (permitted ev (Request_Control ses st) rt) rt (requestControl ev ses st rt)"
proof -
  let ?rt = "rt\<lparr>rt_next := rt_next rt + 1\<rparr>"
  have q: "quiet rt ?rt" by (rule quiet_call [OF quiet_refl])
  show ?thesis
  proof (cases "find_session ev ses \<noteq> None \<and> jget (rt_selected rt) ses = Some st \<and> ses \<in> set (rt_automatic rt) \<and> currentControl ev ses st False rt")
    case True
    obtain x b where xb: "ask_grant ses st True False ?rt = (x, b)" by fastforce
    have p: "Grant ses st True False \<in> permitted ev (Request_Control ses st) rt" using True by (auto simp: permitted_def)
    have "quiet b (answer_task n (Refused e) b)" "quiet b (request_result n ses b)" "quiet b (set_task n (Requesting ses) b)"
      "quiet rt (answer_task n (Refused e) ?rt)" "quiet rt (answer_task n (Control_Answer ses) ?rt)" for n e
      using q by (simp_all add: request_result_def quiet_answer quiet_set_task quiet_refl)
    then have "quiet rt (requestControl ev ses st rt) \<or> quiet b (requestControl ev ses st rt)"
      using True xb by (simp add: requestControl_def new_call_def split: option.split sum.split)
    with granted_asks [OF p xb] quiet_asks show ?thesis by blast
  next
    case False
    then have "quiet rt (requestControl ev ses st rt)"
      using quiet_answer [OF q] by (auto simp: requestControl_def new_call_def)
    then show ?thesis by (rule quiet_asks)
  qed
qed

lemma command_asks: "asks (permitted ev (Owner_Command Grant_Control ses) rt) rt (owner_command ev Grant_Control ses rt)"
proof -
  let ?rt = "rt\<lparr>rt_next := rt_next rt + 1\<rparr>"
  have q: "quiet rt ?rt" by (rule quiet_call [OF quiet_refl])
  show ?thesis
  proof (cases "find_session ev ses \<noteq> None \<and> (\<exists>st. jget (rt_selected rt) ses = Some st \<and> currentControl ev ses st True rt)")
    case True
    then obtain st where st: "find_session ev ses \<noteq> None" "jget (rt_selected rt) ses = Some st" "currentControl ev ses st True rt" by blast
    obtain x b where xb: "ask_grant ses st False True ?rt = (x, b)" by fastforce
    have p: "Grant ses st False True \<in> permitted ev (Owner_Command Grant_Control ses) rt" using st by (auto simp: permitted_def)
    have "quiet b (answer_task n (Refused e) b)" "quiet b (set_task n (Commanding ses) b)" "quiet rt (answer_task n (Refused e) ?rt)" for n e
      using q by (simp_all add: quiet_answer quiet_set_task quiet_refl)
    then have "quiet rt (owner_command ev Grant_Control ses rt) \<or> quiet b (owner_command ev Grant_Control ses rt)"
      using st xb by (simp add: owner_command_def new_call_def split: option.split sum.split)
    with granted_asks [OF p xb] quiet_asks show ?thesis by blast
  next
    case False
    then have "quiet rt (owner_command ev Grant_Control ses rt)"
      using quiet_answer [OF q] by (auto simp: owner_command_def new_call_def split: option.split)
    then show ?thesis by (rule quiet_asks)
  qed
qed

lemma asks_step:
  assumes "\<not> is_stage e" "\<not> connects e"
  shows "asks (permitted ev e rt) rt (rt_step rt (ev, e))"
proof (cases "asks_control e")
  case False
  with assms show ?thesis by (intro quiet_asks quiet_step)
next
  case True
  then consider i st where "e = Select_Stream i st" | i st where "e = Request_Control i st" | i where "e = Owner_Command Grant_Control i"
    by (cases e) (auto simp: asks_control_def)
  then show ?thesis by cases (simp_all add: select_asks request_asks command_asks)
qed

text \<open>The stages of an offer and new sessions ask for no control.\<close>

lemma quiet_set_stage:
  "quiet a b \<Longrightarrow> moves a (set_task n t b) \<and> grants_of (set_task n t b) \<subseteq> grants_of a \<and> set (rt_automatic (set_task n t b)) \<subseteq> set (rt_automatic a)"
  unfolding quiet_def moves_def grants_of_def by (simp add: set_task_def)

lemma stage_step:
  assumes "is_stage e"
  shows "moves rt (rt_step rt (ev, e)) \<and> grants_of (rt_step rt (ev, e)) \<subseteq> grants_of rt
    \<and> set (rt_automatic (rt_step rt (ev, e))) \<subseteq> set (rt_automatic rt)"
proof -
  have quiet: "quiet rt c \<Longrightarrow> moves rt c \<and> grants_of c \<subseteq> grants_of rt \<and> set (rt_automatic c) \<subseteq> set (rt_automatic rt)" for c
    using quiet_moves by (auto simp: quiet_def)
  note out = quiet_set_stage [OF quiet_outside [OF quiet_refl]]
  note path = quiet_set_stage [OF quiet_paths [OF quiet_refl]]
  have finish: "moves rt (answer_task n v (set_registry r b)) \<and> grants_of (answer_task n v (set_registry r b)) \<subseteq> grants_of rt
      \<and> set (rt_automatic (answer_task n v (set_registry r b))) \<subseteq> set (rt_automatic rt)"
    if b: "quiet rt b" "transition i st Live (rt_registry rt) = (True, r)" "rt_registry b = rt_registry rt" for n v r b i st
  proof -
    have q: "quiet rt (set_registry r b)"
      using b by (intro quiet_registry_event [of _ _ "Transition i st Live"]) simp_all
    have m: "moves (set_registry r b) (answer_task n v (set_registry r b))" by (rule moves_same) (simp_all add: answer_task_def)
    have "moves rt (answer_task n v (set_registry r b))" by (rule moves_trans [OF quiet_moves [OF q] m])
    then show ?thesis using q by (simp add: quiet_def grants_of_def answer_task_def)
  qed
  show ?thesis
  proof (cases e)
    case (Negotiated n failure peer)
    then show ?thesis using negotiated_cases [of rt ev n failure peer] quiet out by (simp, metis)
  next
    case (Port_Checked n owned)
    then show ?thesis using port_checked_cases [of rt ev n owned] quiet out by (simp, metis)
  next
    case (Addresses_Known n addresses)
    then show ?thesis using addresses_known_cases [of rt ev n addresses] quiet out by (simp, metis)
  next
    case (Relay_Answered n refusal)
    then show ?thesis using relay_answered_cases [of rt ev n refusal] quiet path by (simp, metis)
  next
    case (Offer_Goes_On n encoder)
    then show ?thesis using offer_finishes_cases [of rt ev n encoder] quiet finish by (simp, metis)
  qed (use assms in \<open>simp_all add: is_stage_def\<close>)
qed

lemma connect_step:
  "moves rt (session_connected ev i rt) \<and> grants_of (session_connected ev i rt) = grants_of rt
   \<and> set (rt_automatic (session_connected ev i rt)) \<subseteq> insert i (set (rt_automatic rt))"
  by (auto simp: session_connected_def grants_of_def intro: moves_same)

lemma any_step:
  "moves rt (rt_step rt (ev, e)) \<and> grants_of (rt_step rt (ev, e)) \<subseteq> permitted ev e rt \<union> grants_of rt
   \<and> set (rt_automatic (rt_step rt (ev, e))) \<subseteq> {i. e = Session_Connected i} \<union> set (rt_automatic rt)"
proof -
  consider "is_stage e" | i where "e = Session_Connected i" | "\<not> is_stage e" "\<not> connects e"
    by (cases e) (auto simp: connects_def)
  then show ?thesis
  proof cases
    case 1
    from stage_step [OF 1, of rt ev] show ?thesis by blast
  next
    case (2 i)
    with connect_step [of rt ev i] show ?thesis by auto
  next
    case 3
    from asks_step [OF this, of ev rt] show ?thesis by (auto simp: asks_def)
  qed
qed

lemma moves_run: "moves rt (run rt_step rt es)"
proof (induction es arbitrary: rt)
  case (Cons e es)
  obtain ev ev' where e: "e = (ev, ev')" by fastforce
  with moves_trans [OF _ Cons.IH [of "rt_step rt e"]] any_step [of rt ev ev'] show ?case by simp
qed (simp add: moves_same)

lemma automatic_run:
  "i \<notin> set (rt_automatic rt) \<Longrightarrow> \<forall>x \<in> set es. snd x \<noteq> Session_Connected i \<Longrightarrow> i \<notin> set (rt_automatic (run rt_step rt es))"
proof (induction es arbitrary: rt)
  case (Cons e es)
  obtain ev ev' where e: "e = (ev, ev')" by fastforce
  have "i \<notin> set (rt_automatic (rt_step rt e))" using any_step [of rt ev ev'] Cons.prems by (auto simp: e)
  with Cons.IH Cons.prems show ?case by simp
qed simp

section \<open>Lemmas: what an answer rests on\<close>

type_synonym history = "(env \<times> rt_event) list"

definition worker_answered :: "history \<Rightarrow> nat \<Rightarrow> string \<Rightarrow> bool" where
  "worker_answered es n answer \<longleftrightarrow> (\<exists>ev. (ev, Negotiated n None (Inr answer)) \<in> set es) \<and> is_ok (validateRelayAnswer answer)"

definition port_confirmed :: "history \<Rightarrow> nat \<Rightarrow> bool" where
  "port_confirmed es n \<longleftrightarrow> (\<exists>ev. (ev, Port_Checked n True) \<in> set es)"

definition addresses_found :: "history \<Rightarrow> nat \<Rightarrow> string list \<Rightarrow> bool" where
  "addresses_found es n found \<longleftrightarrow> (\<exists>ev. (ev, Addresses_Known n (Inr found)) \<in> set es)"

definition relay_confirmed :: "history \<Rightarrow> nat \<Rightarrow> string \<Rightarrow> string list \<Rightarrow> string \<Rightarrow> bool" where
  "relay_confirmed es n answer found announced \<longleftrightarrow>
     (\<exists>ev. (ev, Relay_Answered n None) \<in> set es \<and> announceRelay answer found (ev_relayPort ev) = Inr announced)"

definition offer_confirmed :: "history \<Rightarrow> nat \<Rightarrow> string \<Rightarrow> bool" where
  "offer_confirmed es n announced \<longleftrightarrow>
     (\<exists>answer found. worker_answered es n answer \<and> port_confirmed es n \<and> addresses_found es n found
        \<and> relay_confirmed es n answer found announced)"

definition still_allowed :: "history \<Rightarrow> nat \<Rightarrow> offer \<Rightarrow> bool" where
  "still_allowed es n ofr \<longleftrightarrow>
     (\<exists>ev encoder. (ev, Offer_Goes_On n encoder) \<in> set es \<and> find_session ev (of_session ofr) \<noteq> None \<and> still_valid ev ofr)"

fun stage_facts :: "history \<Rightarrow> nat \<Rightarrow> task \<Rightarrow> bool" where
  "stage_facts es n (Checking ofr answer w) = worker_answered es n answer"
| "stage_facts es n (Addressing ofr answer w) = (worker_answered es n answer \<and> port_confirmed es n)"
| "stage_facts es n (Allowing ofr answer found) = (worker_answered es n answer \<and> port_confirmed es n \<and> addresses_found es n found)"
| "stage_facts es n (Finishing ofr announced) = offer_confirmed es n announced"
| "stage_facts es n _ = True"

definition history_ok :: "history \<Rightarrow> runtime \<Rightarrow> bool" where
  "history_ok es rt \<longleftrightarrow> (\<forall>n t. jget (rt_tasks rt) n = Some t \<longrightarrow> stage_facts es n t)
     \<and> (\<forall>n ofr announced. (n, Offer_Answer ofr announced) \<in> set (offer_answers rt) \<longrightarrow>
          offer_confirmed es n announced \<and> still_allowed es n ofr)"

lemma plain_facts: "plain_task t \<Longrightarrow> stage_facts es n t"
  by (cases t) simp_all

lemma confirmed_more:
  "worker_answered es n a \<Longrightarrow> worker_answered (es @ fs) n a" "port_confirmed es n \<Longrightarrow> port_confirmed (es @ fs) n"
  "addresses_found es n f \<Longrightarrow> addresses_found (es @ fs) n f" "relay_confirmed es n a f x \<Longrightarrow> relay_confirmed (es @ fs) n a f x"
  "still_allowed es n ofr \<Longrightarrow> still_allowed (es @ fs) n ofr"
  by (auto simp: worker_answered_def port_confirmed_def addresses_found_def relay_confirmed_def still_allowed_def)

lemma offer_confirmed_more: "offer_confirmed es n x \<Longrightarrow> offer_confirmed (es @ fs) n x"
  unfolding offer_confirmed_def using confirmed_more by blast

lemma facts_more: "stage_facts es n t \<Longrightarrow> stage_facts (es @ fs) n t"
  by (cases t) (simp_all add: confirmed_more offer_confirmed_more)

text \<open>A step that keeps offers where they are.\<close>

lemma history_quiet:
  assumes "history_ok es rt" "\<And>n t. jget (rt_tasks b) n = Some t \<Longrightarrow> plain_task t \<or> jget (rt_tasks rt) n = Some t"
    "offer_answers b = offer_answers rt"
  shows "history_ok (es @ fs) b"
  using assms plain_facts facts_more offer_confirmed_more confirmed_more(5) unfolding history_ok_def by metis

lemma history_stage:
  assumes "history_ok es rt" "rt_tasks b = rt_tasks rt" "rt_answers b = rt_answers rt" "stage_facts (es @ fs) n t"
  shows "history_ok (es @ fs) (set_task n t b)"
proof -
  have "stage_facts (es @ fs) m u" if "jget (rt_tasks (set_task n t b)) m = Some u" for m u
    using that assms facts_more unfolding history_ok_def set_task_def by (auto split: if_splits)
  moreover have "offer_answers (set_task n t b) = offer_answers rt" by (simp add: set_task_def offer_answers_def assms(3))
  ultimately show ?thesis using assms(1) offer_confirmed_more confirmed_more(5) unfolding history_ok_def by metis
qed

lemma history_step:
  assumes "history_ok es rt"
  shows "history_ok (es @ [(ev, e)]) (rt_step rt (ev, e))"
proof -
  let ?es = "es @ [(ev, e)]"
  have quiet: "history_ok ?es c" if "quiet rt c" for c
    by (rule history_quiet [OF assms]) (use that quiet_tasks quiet_answers in blast)+
  have facts: "stage_facts es n t" if "jget (rt_tasks rt) n = Some t" for n t
    using assms that by (simp add: history_ok_def)
  have last_event: "(ev, e) \<in> set ?es" by simp
  consider "is_stage e" | i where "e = Session_Connected i" | "\<not> is_stage e" "\<not> connects e"
    by (cases e) (auto simp: connects_def)
  then show ?thesis
  proof cases
    case 1
    then show ?thesis
    proof (cases e)
      case (Negotiated n failure peer)
      show ?thesis
      proof (cases "quiet rt (negotiated ev n failure peer rt)")
        case False
        then obtain ofr answer w where t: "failure = None" "peer = Inr answer" "validateRelayAnswer answer = Inr w"
          "negotiated ev n failure peer rt = set_task n (Checking ofr answer w) (outside (Call_CheckPort (of_source ofr) (of_stream ofr) (snd (snd w))) rt)"
          using negotiated_cases [of rt ev n failure peer] by blast
        have "worker_answered ?es n answer" using t last_event Negotiated by (auto simp: worker_answered_def is_ok_def)
        then show ?thesis using t(4) Negotiated by (auto simp: outside_def intro!: history_stage [OF assms])
      qed (simp add: Negotiated quiet [unfolded Negotiated])
    next
      case (Port_Checked n owned)
      show ?thesis
      proof (cases "quiet rt (port_checked ev n owned rt)")
        case False
        then obtain ofr answer w c where t: "jget (rt_tasks rt) n = Some (Checking ofr answer w)" "owned"
          "port_checked ev n owned rt = set_task n (Addressing ofr answer w) (outside c rt)"
          using port_checked_cases [of rt ev n owned] by blast
        have "port_confirmed ?es n" using t(2) last_event Port_Checked by (auto simp: port_confirmed_def)
        then show ?thesis using t facts [OF t(1)] Port_Checked confirmed_more
          by (auto simp: outside_def intro!: history_stage [OF assms])
      qed (simp add: Port_Checked quiet [unfolded Port_Checked])
    next
      case (Addresses_Known n addresses)
      show ?thesis
      proof (cases "quiet rt (addresses_known ev n addresses rt)")
        case False
        then obtain ofr answer w found c where t: "jget (rt_tasks rt) n = Some (Addressing ofr answer w)" "addresses = Inr found"
          "addresses_known ev n addresses rt = set_task n (Allowing ofr answer found) (outside c rt)"
          using addresses_known_cases [of rt ev n addresses] by blast
        have "addresses_found ?es n found" using t(2) last_event Addresses_Known by (auto simp: addresses_found_def)
        then show ?thesis using t facts [OF t(1)] Addresses_Known confirmed_more
          by (auto simp: outside_def intro!: history_stage [OF assms])
      qed (simp add: Addresses_Known quiet [unfolded Addresses_Known])
    next
      case (Relay_Answered n refusal)
      show ?thesis
      proof (cases "quiet rt (relay_answered ev n refusal rt)")
        case False
        then obtain ofr answer found announced m where t: "jget (rt_tasks rt) n = Some (Allowing ofr answer found)" "refusal = None"
          "announceRelay answer found (ev_relayPort ev) = Inr announced"
          "relay_answered ev n refusal rt = set_task n (Finishing ofr announced) (rt\<lparr>rt_paths := m\<rparr>)"
          using relay_answered_cases [of rt ev n refusal] by blast
        have "relay_confirmed ?es n answer found announced" using t(2,3) last_event Relay_Answered by (auto simp: relay_confirmed_def)
        then have "offer_confirmed ?es n announced"
          using facts [OF t(1)] confirmed_more unfolding offer_confirmed_def by (metis stage_facts.simps(3))
        then show ?thesis using t(4) Relay_Answered by (auto intro!: history_stage [OF assms])
      qed (simp add: Relay_Answered quiet [unfolded Relay_Answered])
    next
      case (Offer_Goes_On n encoder)
      show ?thesis
      proof (cases "quiet rt (offer_finishes ev n encoder rt)")
        case False
        then obtain ofr announced b r where t: "jget (rt_tasks rt) n = Some (Finishing ofr announced)"
          "find_session ev (of_session ofr) \<noteq> None" "still_valid ev ofr" "quiet rt b"
          "offer_finishes ev n encoder rt = answer_task n (Offer_Answer ofr announced) (set_registry r b)"
          using offer_finishes_cases [of rt ev n encoder] by blast
        let ?c = "answer_task n (Offer_Answer ofr announced) (set_registry r b)"
        have "offer_confirmed ?es n announced" using facts [OF t(1)] offer_confirmed_more by simp
        moreover have "still_allowed ?es n ofr" using t(2,3) last_event Offer_Goes_On unfolding still_allowed_def by blast
        moreover have "offer_answers ?c = offer_answers rt @ [(n, Offer_Answer ofr announced)]"
          using quiet_answers [OF t(4)] by (simp add: offer_answers_def answer_task_def set_registry_def)
        moreover have "plain_task u \<or> jget (rt_tasks rt) m = Some u" if "jget (rt_tasks ?c) m = Some u" for m u
          using that quiet_tasks [OF t(4)] by (simp add: answer_task_def set_registry_def split: if_splits)
        ultimately have "history_ok ?es ?c"
          using assms plain_facts facts_more offer_confirmed_more confirmed_more(5) unfolding history_ok_def
          by (auto simp: less_Suc_eq) metis+
        then show ?thesis using t(5) Offer_Goes_On by simp
      qed (simp add: Offer_Goes_On quiet [unfolded Offer_Goes_On])
    qed (simp_all add: is_stage_def)
  next
    case 2
    then show ?thesis
      by (intro history_quiet [OF assms]) (simp_all add: session_connected_def offer_answers_def split: if_splits)
  next
    case 3
    from asks_step [OF this, of ev rt] show ?thesis
      by (intro history_quiet [OF assms]) (auto simp: asks_def)
  qed
qed

lemma history_run: "history_ok es rt \<Longrightarrow> history_ok (es @ fs) (run rt_step rt fs)"
proof (induction fs arbitrary: es rt)
  case (Cons f fs)
  obtain ev e where f: "f = (ev, e)" by fastforce
  from Cons.IH [OF history_step [OF Cons.prems, of ev e]] show ?case by (simp add: f)
qed simp

section \<open>Lemmas: who holds control\<close>

definition holder :: "runtime \<Rightarrow> owner option \<times> lease_phase" where
  "holder rt = (ls_owner (rt_lease rt), rt_phase rt)"

lemma holder_fields [simp]:
  "holder (rt\<lparr>rt_registry := a\<rparr>) = holder rt" "holder (rt\<lparr>rt_stopping := b\<rparr>) = holder rt" "holder (rt\<lparr>rt_stops := c\<rparr>) = holder rt"
  "holder (rt\<lparr>rt_telemetry := d\<rparr>) = holder rt" "holder (rt\<lparr>rt_diagnostics := e\<rparr>) = holder rt" "holder (rt\<lparr>rt_recoveries := f\<rparr>) = holder rt"
  "holder (rt\<lparr>rt_selected := g\<rparr>) = holder rt" "holder (rt\<lparr>rt_automatic := h\<rparr>) = holder rt" "holder (rt\<lparr>rt_paths := i\<rparr>) = holder rt"
  "holder (rt\<lparr>rt_tasks := j\<rparr>) = holder rt" "holder (rt\<lparr>rt_next := k\<rparr>) = holder rt" "holder (rt\<lparr>rt_answers := l\<rparr>) = holder rt"
  "holder (rt\<lparr>rt_calls := m\<rparr>) = holder rt" "holder (rt\<lparr>rt_lease := call_revoke x n\<rparr>) = (ls_owner n, snd (holder rt))"
  "holder (rt\<lparr>rt_lease := call_renew n\<rparr>) = (ls_owner n, snd (holder rt))"
  by (simp_all add: holder_def call_revoke_def call_renew_def)

lemma holder_basic [simp]:
  "holder (outside c rt) = holder rt" "holder (set_task n t rt) = holder rt" "holder (end_task n rt) = holder rt"
  "holder (answer_task n v rt) = holder rt" "holder (set_registry r rt) = holder rt" "holder (on_registry f' rt) = holder rt"
  "holder (forget i rt) = holder rt" "holder (after_end n i w rt) = holder rt" "holder (put_sample ev i d s rt) = holder rt"
  by (simp_all add: holder_def outside_def set_task_def end_task_def answer_task_def set_registry_def on_registry_def forget_def Let_def
      after_end_def put_sample_def split: ending.split)

lemma holder_ask: "ask_grant ses i avail expl rt = (x, rt') \<Longrightarrow> holder rt' = holder rt"
  by (auto simp: ask_grant_def call_grant_def holder_def split: if_splits)

lemma holder_owner [simp]: "ls_owner (rt_lease rt) = fst (holder rt)" "rt_phase rt = snd (holder rt)"
  by (simp_all add: holder_def)

lemma holder_pair: "fst (holder rt) = x \<Longrightarrow> (x, snd (holder rt)) = holder rt"
  by auto

lemma holder_forget_all [simp]: "holder (forget_all ids rt) = holder rt"
  by (induction ids arbitrary: rt) simp_all

lemma holder_drop [simp]: "holder (drop_subscription ev n i w rt) = holder rt"
  by (simp add: drop_subscription_def Let_def split: prod.split option.split)

lemma holder_end [simp]: "holder (end_subscription ev n i w rt) = holder rt" "holder (fail_offer ev n ofr e rt) = holder rt"
  by (simp_all add: end_subscription_def fail_offer_def Let_def split: option.split)

lemma holder_start_end [simp]: "holder (start_end ev i rt) = holder rt"
  by (simp add: start_end_def new_call_def)

lemma holder_start_ends [simp]: "holder (start_ends ev ids rt) = holder rt"
  by (induction ids arbitrary: rt) simp_all

lemma holder_offers [simp]:
  "holder (subscribe_offer ev n sid i v plan sdp network rt) = holder rt"
  "holder (offerVideo ev sid i ses request network rt) = holder rt" "holder (offerAudio ev sid i ses sdp' network rt) = holder rt"
  by (simp_all add: offerVideo_def offerAudio_def subscribe_offer_def new_call_def Let_def split: option.split sum.split prod.split)

lemma holder_stages [simp]:
  "holder (negotiated ev n failure peer rt) = holder rt" "holder (port_checked ev n owned rt) = holder rt"
  "holder (addresses_known ev n addresses rt) = holder rt" "holder (relay_answered ev n refusal rt) = holder rt"
  "holder (offer_finishes ev n encoder rt) = holder rt"
  by (simp_all add: negotiated_def port_checked_def addresses_known_def relay_answered_def offer_finishes_def Let_def
      split: option.split task.split sum.split prod.split)

lemma holder_stop_stream [simp]: "holder (stop_stream ev ses i rt) = holder rt"
  by (simp add: stop_stream_def new_call_def Let_def split: option.split)

lemma holder_stop_streams [simp]: "holder (stop_streams ev ses ids rt) = holder rt"
  by (induction ids arbitrary: rt) simp_all

lemma holder_stop_session [simp]: "holder (stop_session ev ses rt) = holder rt"
  by (simp add: stop_session_def Let_def split: option.split)

lemma holder_stop_sessions [simp]: "holder (stop_sessions ev ids rt) = holder rt"
  by (induction ids arbitrary: rt) simp_all

lemma holder_close_source [simp]: "holder (close_source ev n sid ids rt) = holder rt"
  by (simp add: close_source_def Let_def)

lemma holder_close_sources [simp]: "holder (close_sources ev xs rt) = holder rt"
  by (induction ev xs rt rule: close_sources.induct) (simp_all add: new_call_def Let_def split: option.split)

lemma holder_revoke_sessions [simp]: "holder (revoke_sessions ids rt) = holder rt"
  by (induction ids arbitrary: rt) simp_all

lemma holder_samples [simp]: "holder (server_samples ev message ids rt) = holder rt"
  by (induction ids arbitrary: rt) (simp_all split: option.split)

lemma holder_records [simp]: "holder (snd (record_video ev ses i s rt)) = holder rt" "holder (snd (record_audio ev ses i s rt)) = holder rt"
  by (simp_all add: record_video_def record_audio_def Let_def split: option.split prod.split)

lemma holder_later [simp]:
  "holder (select_now n ses i rt) = holder rt" "holder (selection_goes_on n refusal rt) = holder rt"
  "holder (request_result n ses rt) = holder rt" "holder (request_goes_on n refusal rt) = holder rt"
  "holder (command_goes_on n refusal rt) = holder rt" "holder (releaseControl ses rt) = holder rt"
  "holder (goes_on ev n rt) = holder rt" "holder (relayEvent ev e rt) = holder rt" "holder (session_connected ev ses rt) = holder rt"
  by (simp_all add: select_now_def selection_goes_on_def request_result_def request_goes_on_def command_goes_on_def releaseControl_def
      goes_on_def relayEvent_def session_connected_def split: option.split task.split path_event.split)

lemma holder_selectStream [simp]: "holder (selectStream ev ses i rt) = holder rt"
  by (auto simp: selectStream_def new_call_def Let_def split: option.split sum.split prod.split dest!: holder_ask intro: holder_pair)

lemma holder_requestControl [simp]: "holder (requestControl ev ses i rt) = holder rt"
  by (auto simp: requestControl_def new_call_def Let_def split: option.split sum.split prod.split dest!: holder_ask)

lemma holder_command [simp]: "holder (owner_command ev action ses rt) = holder rt"
  by (cases action) (auto simp: owner_command_def new_call_def Let_def split: option.split sum.split prod.split dest!: holder_ask)

definition is_lease :: "rt_event \<Rightarrow> bool" where
  "is_lease e = (case e of Lease_Begins \<Rightarrow> True | Run_Lease _ \<Rightarrow> True | Lease_Ends \<Rightarrow> True | _ \<Rightarrow> False)"

lemma holder_step: "\<not> is_lease e \<Longrightarrow> holder (rt_step rt (ev, e)) = holder rt"
  by (cases e) (simp_all add: stop_every_def revalidate_def revokeApprovedClient_def Let_def session_revoked_def worker_exited_def is_lease_def)

text \<open>The next operation of the lease gives control only to the session and stream it was asked for, where the first answer allowed it.\<close>

lemma run_op_owner:
  assumes "ls_owner (run_op operation an l) = Some ow"
  shows "ls_owner l = Some ow \<or> an_active1 an \<and> (\<exists>avail. operation = Grant (ow_session ow) (ow_stream ow) avail (ow_explicit ow))"
proof (cases operation)
  case (Grant ses st avail expl)
  with assms show ?thesis
    by (auto simp: run_op_def run_grant_def release_def grant_permission_def remove_permission_def set_permitted_def Let_def
        split: if_splits answer.splits option.splits)
next
  case (Revoke ses)
  with assms show ?thesis
    by (auto simp: run_op_def run_revoke_def release_def remove_permission_def set_permitted_def Let_def
        split: if_splits answer.splits option.splits)
next
  case Renew
  with assms show ?thesis
    by (auto simp: run_op_def run_renew_def release_def grant_permission_def remove_permission_def set_permitted_def Let_def
        split: if_splits answer.splits option.splits)
qed

text \<open>What the parts of an operation do to the owner and the phase.\<close>

lemma begins_owner: "fst (holder (lease_begins ev rt)) = Some ow \<Longrightarrow> fst (holder rt) = Some ow"
  by (auto simp: lease_begins_def holder_def Let_def simp del: holder_owner split: lease_phase.splits list.splits if_splits)

lemma ends_owner: "fst (holder (lease_ends rt)) = fst (holder rt)"
  by (auto simp: lease_ends_def holder_def simp del: holder_owner split: lease_phase.split)

lemma ends_phase: "snd (holder (lease_ends rt)) = Under_Way operation active1 found \<Longrightarrow> snd (holder rt) = Under_Way operation active1 found"
  by (auto simp: lease_ends_def holder_def simp del: holder_owner split: lease_phase.splits)

lemma runs_phase: "snd (holder (run_lease ev an rt)) \<noteq> Under_Way operation active1 found"
proof -
  have h: "snd (holder (rt\<lparr>rt_phase := Settling, rt_lease := l\<rparr>)) = Settling" for l
    by (simp add: holder_def del: holder_owner)
  show ?thesis by (auto simp: run_lease_def Let_def h split: lease_phase.splits)
qed

lemma begins_phase:
  assumes "snd (holder (lease_begins ev rt)) = Under_Way operation active1 found" "snd (holder rt) \<noteq> Under_Way operation active1 found"
  shows "operation \<in> set (ls_queue (rt_lease rt)) \<and> active1 = first_question ev operation rt \<and> found = fst (holder rt)"
  using assms by (auto simp: lease_begins_def holder_def Let_def simp del: holder_owner split: lease_phase.splits list.splits)

lemma runs_owner:
  assumes "fst (holder (run_lease ev an rt)) = Some ow" "fst (holder rt) \<noteq> Some ow"
  shows "\<exists>operation active1 found. snd (holder rt) = Under_Way operation active1 found
    \<and> (found = Some ow \<or> active1 \<and> (\<exists>avail. operation = Grant (ow_session ow) (ow_stream ow) avail (ow_explicit ow)))"
proof -
  have h: "fst (holder (rt\<lparr>rt_phase := Settling, rt_lease := l\<rparr>)) = ls_owner l" for l
    by (simp add: holder_def del: holder_owner)
  obtain operation active1 found where p: "snd (holder rt) = Under_Way operation active1 found"
    using assms by (cases "snd (holder rt)") (simp_all add: run_lease_def)
  have "ls_owner (run_op operation (an\<lparr>an_active1 := active1\<rparr>) ((rt_lease rt)\<lparr>ls_owner := found\<rparr>)) = Some ow"
    using assms(1) p by (simp add: run_lease_def Let_def h)
  from run_op_owner [OF this] p show ?thesis by simp
qed

text \<open>A grant that waits was asked for, and the one that holds control got it, each at a moment of the run.\<close>

lemma run_snoc: "run step s (es @ [e]) = step (run step s es) e"
  by (simp add: run_append)

lemma grants_asked:
  "g \<in> grants_of (run rt_step (new_runtime r) es) \<Longrightarrow>
     \<exists>es1 ev e es2. es = es1 @ (ev, e) # es2 \<and> g \<in> permitted ev e (run rt_step (new_runtime r) es1)"
proof (induction es rule: rev_induct)
  case Nil
  then show ?case by (simp add: grants_of_def new_runtime_def new_lease_def)
next
  case (snoc x es)
  obtain ev e where x: "x = (ev, e)" by fastforce
  let ?rt = "run rt_step (new_runtime r) es"
  have "g \<in> permitted ev e ?rt \<or> g \<in> grants_of ?rt" using snoc.prems any_step [of ?rt ev e] by (auto simp: run_snoc x)
  then show ?case
  proof
    assume "g \<in> permitted ev e ?rt"
    then show ?thesis unfolding x by blast
  next
    assume "g \<in> grants_of ?rt"
    from snoc.IH [OF this] obtain es1 ev1 e1 es2 where "es = es1 @ (ev1, e1) # es2" "g \<in> permitted ev1 e1 (run rt_step (new_runtime r) es1)"
      by blast
    moreover from this have "es @ [x] = es1 @ (ev1, e1) # (es2 @ [x])" by simp
    ultimately show ?thesis by blast
  qed
qed

text \<open>An operation under way was begun at a moment of the run, with what it found then.\<close>

lemma under_way:
  "snd (holder (run rt_step (new_runtime r) es)) = Under_Way operation active1 found \<Longrightarrow>
     \<exists>es1 ev es2. es = es1 @ (ev, Lease_Begins) # es2 \<and> operation \<in> set (ls_queue (rt_lease (run rt_step (new_runtime r) es1)))
       \<and> active1 = first_question ev operation (run rt_step (new_runtime r) es1)
       \<and> found = fst (holder (run rt_step (new_runtime r) es1))"
proof (induction es rule: rev_induct)
  case Nil
  then show ?case by (simp add: holder_def new_runtime_def del: holder_owner)
next
  case (snoc x es)
  obtain ev e where x: "x = (ev, e)" by fastforce
  let ?rt = "run rt_step (new_runtime r) es"
  have step: "snd (holder (rt_step ?rt (ev, e))) = Under_Way operation active1 found" using snoc.prems by (simp add: run_snoc x)
  show ?case
  proof (cases "snd (holder ?rt) = Under_Way operation active1 found")
    case True
    from snoc.IH [OF this] obtain es1 ev1 es2 where "es = es1 @ (ev1, Lease_Begins) # es2"
      "operation \<in> set (ls_queue (rt_lease (run rt_step (new_runtime r) es1)))"
      "active1 = first_question ev1 operation (run rt_step (new_runtime r) es1)"
      "found = fst (holder (run rt_step (new_runtime r) es1))" by blast
    moreover from this(1) have "es @ [x] = es1 @ (ev1, Lease_Begins) # (es2 @ [x])" by simp
    ultimately show ?thesis by blast
  next
    case False
    have e: "e = Lease_Begins"
    proof (cases "is_lease e")
      case True
      then consider "e = Lease_Begins" | an where "e = Run_Lease an" | "e = Lease_Ends" by (cases e) (simp_all add: is_lease_def)
      then show ?thesis
      proof cases
        case (2 an)
        with step runs_phase [of ev an ?rt operation active1 found] show ?thesis by simp
      next
        case 3
        with step False ends_phase [of ?rt operation active1 found] show ?thesis by simp
      qed
    next
      case other: False
      with holder_step [OF other, of ?rt ev] step False show ?thesis by simp
    qed
    with step have "snd (holder (lease_begins ev ?rt)) = Under_Way operation active1 found" by simp
    from begins_phase [OF this False] show ?thesis unfolding x e by blast
  qed
qed

lemma holder_granted:
  "fst (holder (run rt_step (new_runtime r) es)) = Some ow \<Longrightarrow>
     \<exists>es1 ev es2 ev' an es3. es = es1 @ (ev, Lease_Begins) # es2 @ (ev', Run_Lease an) # es3
       \<and> currentControl ev (ow_session ow) (ow_stream ow) (ow_explicit ow) (run rt_step (new_runtime r) es1)
       \<and> (\<exists>avail. Grant (ow_session ow) (ow_stream ow) avail (ow_explicit ow) \<in> grants_of (run rt_step (new_runtime r) es1))"
proof (induction es rule: length_induct)
  case (1 es)
  show ?case
  proof (cases es rule: rev_cases)
    case Nil
    with 1 show ?thesis by (simp add: holder_def new_runtime_def new_lease_def del: holder_owner)
  next
    case (snoc fs x)
    obtain ev e where x: "x = (ev, e)" by fastforce
    let ?rt = "run rt_step (new_runtime r) fs"
    have step: "fst (holder (rt_step ?rt (ev, e))) = Some ow" using 1(2) by (simp add: snoc run_snoc x)
    have earlier: ?thesis if g: "fst (holder (run rt_step (new_runtime r) gs)) = Some ow" and gs: "es = gs @ hs" "hs \<noteq> []" for gs hs
    proof -
      have l: "length gs < length es" using gs by simp
      obtain es1 ev1 es2 ev2 an es3 where "gs = es1 @ (ev1, Lease_Begins) # es2 @ (ev2, Run_Lease an) # es3"
        "currentControl ev1 (ow_session ow) (ow_stream ow) (ow_explicit ow) (run rt_step (new_runtime r) es1)"
        "\<exists>avail. Grant (ow_session ow) (ow_stream ow) avail (ow_explicit ow) \<in> grants_of (run rt_step (new_runtime r) es1)"
        using 1(1) [rule_format, OF l g] by (elim exE conjE) (rule that, assumption+, rule exI)
      moreover from this(1) have "es = es1 @ (ev1, Lease_Begins) # es2 @ (ev2, Run_Lease an) # (es3 @ hs)" by (simp add: gs)
      ultimately show ?thesis by blast
    qed
    show ?thesis
    proof (cases "fst (holder ?rt) = Some ow")
      case True
      from earlier [OF this snoc] show ?thesis by simp
    next
      case False
      then obtain an where e: "e = Run_Lease an"
        using step holder_step [of e ?rt ev] begins_owner [of ev ?rt ow] ends_owner [of ?rt] by (cases e) (auto simp: is_lease_def)
      have "fst (holder (run_lease ev an ?rt)) = Some ow" using step by (simp add: e)
      from runs_owner [OF this False] obtain operation active1 found where u: "snd (holder ?rt) = Under_Way operation active1 found"
        "found = Some ow \<or> active1 \<and> (\<exists>avail. operation = Grant (ow_session ow) (ow_stream ow) avail (ow_explicit ow))" by blast
      from under_way [OF u(1)] obtain es1 ev1 es2 where b: "fs = es1 @ (ev1, Lease_Begins) # es2"
        "operation \<in> set (ls_queue (rt_lease (run rt_step (new_runtime r) es1)))"
        "active1 = first_question ev1 operation (run rt_step (new_runtime r) es1)" "found = fst (holder (run rt_step (new_runtime r) es1))"
        by blast
      from u(2) show ?thesis
      proof
        assume "found = Some ow"
        with b(4) have "fst (holder (run rt_step (new_runtime r) es1)) = Some ow" by simp
        then show ?thesis by (rule earlier [of _ "(ev1, Lease_Begins) # es2 @ [x]"]) (simp_all add: snoc b(1))
      next
        assume g: "active1 \<and> (\<exists>avail. operation = Grant (ow_session ow) (ow_stream ow) avail (ow_explicit ow))"
        then have "currentControl ev1 (ow_session ow) (ow_stream ow) (ow_explicit ow) (run rt_step (new_runtime r) es1)"
          "\<exists>avail. Grant (ow_session ow) (ow_stream ow) avail (ow_explicit ow) \<in> grants_of (run rt_step (new_runtime r) es1)"
          using b(2,3) by (auto simp: first_question_def grants_of_def)
        moreover have "es = es1 @ (ev1, Lease_Begins) # es2 @ (ev, Run_Lease an) # []" by (simp add: snoc b(1) x e)
        ultimately show ?thesis by blast
      qed
    qed
  qed
qed

section \<open>Properties\<close>

definition calm_env :: env where
  "calm_env = \<lparr>ev_now = 0,
     ev_sessions = [\<lparr>vs_id = ''s'', vs_approved = None, vs_generation = 0, vs_clientKey = ''192.168.1.7'', vs_device = ''PC'',
       vs_audio = True, vs_fps = Some 30\<rparr>],
     ev_policy = JObj [(''allowAudio'', JBool True)], ev_busy = False, ev_inventory = \<lparr>iv_rows = [], iv_revision = []\<rparr>,
     ev_defaultControl = ''available'', ev_auth = \<lambda>_. None, ev_workers = [''w''], ev_backends = [], ev_round = \<lambda>_. 0,
     ev_decimal = \<lambda>_. 0, ev_relayListening = True, ev_relayReason = None, ev_relayPort = 8443\<rparr>"

definition home_network :: client_network where
  "home_network = \<lparr>nw_internet = False, nw_hint = Some ''192.168.1.7'', nw_local = Some ''192.168.1.5''\<rparr>"

definition audio_events :: "(env \<times> rt_event) list" where
  "audio_events = [(calm_env, Offer_Audio ''w'' ''a'' ''s'' (Some sample_answer) home_network), (calm_env, Worker_Ready ''w''),
     (calm_env, Negotiated 0 None (Inr sample_answer)), (calm_env, Port_Checked 0 True),
     (calm_env, Addresses_Known 0 (Inr [''192.168.1.5''])), (calm_env, Relay_Answered 0 None), (calm_env, Offer_Goes_On 0 None)]"

text \<open>
  C6: a viewer gets an answer to an offer only when every check was passed for this very offer: its worker answered it
  with an answer that is well formed, the port in it is one the worker's network process owns, the addresses to
  announce were found, and the relay had confirmed the registration; the answer given is the worker's with the
  relay's port on those addresses. And at the end its session was still there and the policy still allowed it.
\<close>

theorem offer_answered_confirmed:
  assumes "(n, Offer_Answer ofr announced) \<in> set (rt_answers (run rt_step (new_runtime r) es))"
  shows "offer_confirmed es n announced \<and> still_allowed es n ofr"
proof -
  have "history_ok [] (new_runtime r)" by (simp add: history_ok_def new_runtime_def offer_answers_def)
  from history_run [OF this, of es] have "history_ok es (run rt_step (new_runtime r) es)" by simp
  moreover have "(n, Offer_Answer ofr announced) \<in> set (offer_answers (run rt_step (new_runtime r) es))"
    using assms by (simp add: offer_answers_def)
  ultimately show ?thesis unfolding history_ok_def by blast
qed

lemma sample_sdp:
  "iceCredentials sample_answer = Inr (''abcd'', ''abcdefghijklmnopqrstuv'')"
  "validateRelayAnswer sample_answer = Inr (''abcd'', ''abcdefghijklmnopqrstuv'', 40000)"
  "usable_addresses [''192.168.1.5''] = [''192.168.1.5'']"
  by code_simp+

lemma sample_good: "good_sdp (Some sample_answer)"
proof -
  have "starts_with sample_answer ''v=0'' \<and> length sample_answer \<le> 200" by code_simp
  then show ?thesis by (simp add: good_sdp_def)
qed

definition sample_announced :: string where
  "sample_announced = join_with crlf (concat (map (relay_line (ordered_addresses [''192.168.1.5'']) 8443) (split_crlf sample_answer)))"

lemma sample_announces: "announceRelay sample_answer [''192.168.1.5''] 8443 = Inr sample_announced"
  by (simp add: announceRelay_def sample_sdp sample_announced_def)

definition sample_audio :: offer where
  "sample_audio = \<lparr>of_session = ''s'', of_stream = ''a'', of_source = ''w'', of_plan = AudioPlan ''stereo-96k'',
     of_client = (''abcd'', ''abcdefghijklmnopqrstuv''), of_network = home_network\<rparr>"

theorem offer_answered_confirmed_witness:
  "(\<exists>ofr announced. rt_answers (run rt_step (new_runtime (fresh_registry small_limits)) audio_events) = [(0, Offer_Answer ofr announced)]
     \<and> offer_confirmed audio_events 0 announced \<and> still_allowed audio_events 0 ofr)"
proof -
  let ?rt = "run rt_step (new_runtime (fresh_registry small_limits)) audio_events"
  have "rt_answers ?rt = [(0, Offer_Answer sample_audio sample_announced)]"
    unfolding audio_events_def run_Cons run_Nil
    by (simp add: is_audio_def sample_sdp sample_good sample_announces sample_audio_def calm_env_def new_runtime_def fresh_registry_def
        ids_free_def offerAudio_def new_call_def active_session_def find_session_def audioOf_def stream_ids_def allows_audio_def
        truthy_field_def truthy.simps jfield_def audioFormat_def subscribe_offer_def subscribe_def plan_pixels_def AUDIO_FORMATS_def
        owned_streams_def open_source_def join_source_def set_registry_def outside_def set_task_def Let_def on_registry_def
        markReady_def negotiated_def port_checked_def addresses_known_def relay_answered_def offer_finishes_def still_valid_def
        transition_def next_states_def answer_task_def jhas_def)
  then have "(0, Offer_Answer sample_audio sample_announced) \<in> set (rt_answers ?rt)"
    "rt_answers ?rt = [(0, Offer_Answer sample_audio sample_announced)]" by simp_all
  from offer_answered_confirmed [OF this(1)] this(2) show ?thesis by blast
qed


definition one_viewer :: stream_registry where
  "one_viewer = \<lparr>rg_limits = small_limits,
     rg_sources = [(''w'', \<lparr>so_key = ''k'', so_plan = desktop_plan, so_pixels = 0, so_state = SReady, so_subscriptions = [''v'']\<rparr>)],
     rg_streams = [(''v'', \<lparr>sm_session = ''s'', sm_source = ''w'', sm_state = Live, sm_plan = desktop_plan\<rparr>)]\<rparr>"

definition control_events :: "(env \<times> rt_event) list" where
  "control_events = [(calm_env, Session_Connected ''s''), (calm_env, Select_Stream ''s'' ''v''), (calm_env, Request_Control ''s'' ''v''),
     (calm_env, Lease_Begins), (calm_env, Run_Lease all_well)]"

lemma calm_control:
  "rt_registry rt = one_viewer \<Longrightarrow> currentControl calm_env ''s'' ''v'' expl rt"
  by (simp add: currentControl_def find_session_def calm_env_def get_stream_def sourceOf_def one_viewer_def is_audio_def desktop_plan_def
      permission_of_def)


text \<open>The events that take from a session the right to ask for control: the host's, the session's end, its device's revocation.\<close>

definition takes_right :: "env \<Rightarrow> rt_event \<Rightarrow> string \<Rightarrow> bool" where
  "takes_right ev e ses \<longleftrightarrow>
     (case e of
        Session_Revoked i \<Rightarrow> i = ses
      | Owner_Command a i \<Rightarrow> a = Revoke_Control \<and> i = ses \<and> find_session ev ses \<noteq> None
      | Revoke_Client c \<Rightarrow> (\<exists>v \<in> set (ev_sessions ev). vs_id v = ses \<and> vs_approved v = Some c)
      | _ \<Rightarrow> False)"

lemma quiet_automatic_subset: "quiet a b \<Longrightarrow> set (rt_automatic b) \<subseteq> set (rt_automatic a)"
  by (simp add: quiet_def)

lemma right_taken:
  assumes "takes_right ev e ses"
  shows "ses \<notin> set (rt_automatic (rt_step rt (ev, e)))"
proof (cases e)
  case (Session_Revoked i)
  define a where "a = rt\<lparr>rt_automatic := removeAll i (rt_automatic rt), rt_selected := jdel i (rt_selected rt)\<rparr>"
  have "quiet a (stop_session ev i a)" by (rule quiet_stop_session [OF quiet_refl])
  from quiet_automatic_subset [OF this] have "ses \<notin> set (rt_automatic (stop_session ev i a))"
    using assms by (auto simp: a_def takes_right_def Session_Revoked)
  then show ?thesis by (simp add: Session_Revoked session_revoked_def a_def)
next
  case (Owner_Command a i)
  with assms show ?thesis by (auto simp: takes_right_def owner_command_def new_call_def Let_def set_task_def)
next
  case (Revoke_Client c)
  define affected where "affected = map vs_id (filter (\<lambda>v. vs_approved v = Some c) (ev_sessions ev))"
  define a where "a = rt\<lparr>rt_automatic := filter (\<lambda>i. i \<notin> set affected) (rt_automatic rt)\<rparr>"
  have "ses \<in> set affected" using assms by (auto simp: takes_right_def Revoke_Client affected_def)
  moreover have "quiet a (revoke_sessions affected a)" by (rule quiet_revoke_sessions [OF quiet_refl])
  from quiet_automatic_subset [OF this] have "set (rt_automatic (revoke_sessions affected a)) \<subseteq> set (filter (\<lambda>i. i \<notin> set affected) (rt_automatic rt))"
    by (simp add: a_def)
  ultimately have "ses \<notin> set (rt_automatic (revoke_sessions affected a))" by auto
  then show ?thesis by (simp add: Revoke_Client revokeApprovedClient_def a_def affected_def Let_def)
qed (use assms in \<open>simp_all add: takes_right_def\<close>)

lemma quiet_request: "ses \<notin> set (rt_automatic rt) \<Longrightarrow> quiet rt (requestControl ev ses st rt)"
  using quiet_answer [OF quiet_call [OF quiet_refl, of rt "rt_next rt + 1"]] by (simp add: requestControl_def new_call_def)

text \<open>
  C13: a viewer from whom the host took control, whose device was revoked or whose session ended cannot take it back
  itself. Until that session is admitted anew, nothing that happens lets it ask again: its control button stays off, and a
  request it sends all the same adds no grant to the lease.
\<close>

theorem revoked_cannot_ask:
  assumes "takes_right ev0 e0 ses" "Session_Connected ses \<notin> snd ` set es"
  shows "ses \<notin> set (rt_automatic (run rt_step rt ((ev0, e0) # es)))
    \<and> \<not> snd (controlState ev ses (run rt_step rt ((ev0, e0) # es)))
    \<and> grants_of (rt_step (run rt_step rt ((ev0, e0) # es)) (ev, Request_Control ses st))
        \<subseteq> grants_of (run rt_step rt ((ev0, e0) # es))"
proof -
  let ?rt = "run rt_step rt ((ev0, e0) # es)"
  have "\<forall>x \<in> set es. snd x \<noteq> Session_Connected ses" using assms(2) by force
  then have a: "ses \<notin> set (rt_automatic ?rt)" using automatic_run [OF right_taken [OF assms(1)]] by simp
  then have "\<not> snd (controlState ev ses ?rt)" by (simp add: controlState_def split: option.split)
  moreover have "quiet ?rt (requestControl ev ses st ?rt)" by (rule quiet_request [OF a])
  then have "grants_of (rt_step ?rt (ev, Request_Control ses st)) \<subseteq> grants_of ?rt" by (simp add: quiet_def)
  ultimately show ?thesis using a by blast
qed

theorem revoked_cannot_ask_witness:
  "takes_right calm_env (Owner_Command Revoke_Control ''s'') ''s''
   \<and> rt_automatic (run rt_step (new_runtime one_viewer) (take 2 control_events)) = [''s'']
   \<and> ''s'' \<notin> set (rt_automatic (run rt_step (run rt_step (new_runtime one_viewer) (take 2 control_events))
         [(calm_env, Owner_Command Revoke_Control ''s''), (calm_env, Select_Stream ''s'' ''v'')]))"
proof -
  have t: "takes_right calm_env (Owner_Command Revoke_Control ''s'') ''s''"
    by (simp add: takes_right_def find_session_def calm_env_def)
  have "rt_automatic (run rt_step (new_runtime one_viewer) (take 2 control_events)) = [''s'']"
    unfolding control_events_def
    by (simp add: permission_of_def session_connected_def new_runtime_def add_new_def selectStream_def select_now_def new_call_def answer_task_def
        is_live_def get_stream_def one_viewer_def is_audio_def desktop_plan_def find_session_def calm_env_def new_lease_def Let_def
        holder_def del: holder_owner)
  with t revoked_cannot_ask [OF t, of "[(calm_env, Select_Stream ''s'' ''v'')]"] show ?thesis by simp
qed

end
