(* ===== verification/CliText.thy ===== *)
theory CliText
  imports Json
begin

text \<open>
  The text side of the owner's console: \<^verbatim>\<open>apps/server/src/cli/tokenize.mjs\<close>, \<^verbatim>\<open>cli/arguments.mjs\<close> and
  \<^verbatim>\<open>cli/resolve.mjs\<close>. An error is its message; which of them are usage errors is not modelled.
\<close>

section \<open>Words\<close>

definition MAX_LINE :: nat where "MAX_LINE = 1024"

definition quote_mark :: char where "quote_mark = CHR 0x22"
definition backslash :: char where "backslash = CHR 0x5C"

text \<open>The loop of \<^verbatim>\<open>tokenize\<close>: the rest of the line, the word so far, whether it has started, whether a quote is open.\<close>

fun token_loop :: "string \<Rightarrow> string \<Rightarrow> bool \<Rightarrow> bool \<Rightarrow> string list \<Rightarrow> string list result" where
  "token_loop [] current started quoted tokens =
     (if quoted then Inl ''Unterminated quote.'' else Inr (if started then tokens @ [current] else tokens))"
| "token_loop (c # rest) current started quoted tokens =
     (if quoted \<and> c = backslash \<and> rest \<noteq> [] \<and> hd rest \<in> {quote_mark, backslash}
      then token_loop (tl rest) (current @ [hd rest]) started quoted tokens
      else if c = quote_mark then token_loop rest current True (\<not> quoted) tokens
      else if \<not> quoted \<and> is_space c then token_loop rest [] False quoted (if started then tokens @ [current] else tokens)
      else token_loop rest (current @ [c]) True quoted tokens)"

definition tokenize :: "string \<Rightarrow> string list result" where
  "tokenize line =
     (if MAX_LINE < length line then Inl (''Commands are limited to '' @ dec (int MAX_LINE) @ '' characters.'')
      else token_loop line [] False False [])"

section \<open>Arguments\<close>

datatype flag_kind = Boolean_Flag | Value_Flag

datatype flag_value = Flag_On | Flag_Text string

text \<open>\<^verbatim>\<open>token.slice(2).split(/=(.*)/s, 2)\<close>\<close>

definition split_flag :: "string \<Rightarrow> string \<times> string option" where
  "split_flag s =
     (let name = takeWhile (\<lambda>c. c \<noteq> CHR ''='') s
      in (name, if name = s then None else Some (drop (length name + 1) s)))"

fun flag_loop ::
  "(string, flag_kind) jmap \<Rightarrow> string list \<Rightarrow> string list \<Rightarrow> (string, flag_value) jmap \<Rightarrow> (string list \<times> (string, flag_value) jmap) result" where
  "flag_loop allowed [] positionals flags = Inr (positionals, flags)"
| "flag_loop allowed (token # tokens) positionals flags =
     (if \<not> starts_with token ''--'' then flag_loop allowed tokens (positionals @ [token]) flags
      else (let (name, inline) = split_flag (drop 2 token)
            in case jget allowed name of
                 None \<Rightarrow> Inl (''Unknown option --'' @ name @ ''.'')
               | Some kind \<Rightarrow>
                   if jhas flags name then Inl (''--'' @ name @ '' was given more than once.'')
                   else (case kind of
                       Boolean_Flag \<Rightarrow>
                         if inline \<noteq> None then Inl (''--'' @ name @ '' does not take a value.'')
                         else flag_loop allowed tokens positionals (jset name Flag_On flags)
                     | Value_Flag \<Rightarrow>
                         (case inline of
                            Some v \<Rightarrow> flag_loop allowed tokens positionals (jset name (Flag_Text v) flags)
                          | None \<Rightarrow>
                              (case tokens of
                                 [] \<Rightarrow> Inl (''--'' @ name @ '' needs a value.'')
                               | v # rest \<Rightarrow> flag_loop allowed rest positionals (jset name (Flag_Text v) flags))))))"

definition parseFlags :: "(string, flag_kind) jmap \<Rightarrow> string list \<Rightarrow> (string list \<times> (string, flag_value) jmap) result" where
  "parseFlags allowed tokens = flag_loop allowed tokens [] []"

definition expectArguments :: "string list \<Rightarrow> nat \<Rightarrow> nat \<Rightarrow> string option" where
  "expectArguments positionals least most =
     (if length positionals < least \<or> most < length positionals then Some ''Wrong number of arguments.'' else None)"

definition onOff :: "string \<Rightarrow> bool result" where
  "onOff v = (if v = ''on'' then Inr True else if v = ''off'' then Inr False else Inl ''Use on or off.'')"

definition decimal_number :: "string \<Rightarrow> int" where
  "decimal_number s = foldl (\<lambda>a c. a * 10 + (int (code c) - 48)) 0 s"

definition digits_up_to :: "nat \<Rightarrow> string \<Rightarrow> bool" where
  "digits_up_to n s \<longleftrightarrow> s \<noteq> [] \<and> length s \<le> n \<and> list_all is_digit s"

text \<open>\<^verbatim>\<open>/^(\d{1,5})x(\d{1,5})$/i\<close>\<close>

definition parseSize :: "string \<Rightarrow> (int \<times> int) result" where
  "parseSize v =
     (let left = takeWhile is_digit v; right = drop (length left + 1) v
      in if \<not> (digits_up_to 5 left \<and> length left < length v \<and> v ! length left \<in> {CHR ''x'', CHR ''X''} \<and> digits_up_to 5 right)
         then Inl ''Sizes use WIDTHxHEIGHT, for example 1920x1080.''
         else if decimal_number left mod 2 \<noteq> 0 \<or> decimal_number right mod 2 \<noteq> 0
         then Inl ''Output width and height must be even''
         else Inr (decimal_number left, decimal_number right))"

definition parseWhole :: "string \<Rightarrow> string \<Rightarrow> int result" where
  "parseWhole v label = (if digits_up_to 9 v then Inr (decimal_number v) else Inl (label @ '' must be a whole number.''))"

definition parseChoice :: "string \<Rightarrow> string list \<Rightarrow> string \<Rightarrow> string result" where
  "parseChoice v choices label =
     (if v \<in> set choices then Inr v
      else Inl (label @ '' must be '' @ join_with '', '' (butlast choices) @ '' or ''
             @ (if choices = [] then ''undefined'' else last choices) @ ''.''))"

section \<open>Selectors\<close>

text \<open>\<^verbatim>\<open>clean\<close>: without control characters.\<close>

definition clean :: "string \<Rightarrow> string" where
  "clean s = filter (\<lambda>c. \<not> (code c < 32 \<or> 127 \<le> code c \<and> code c < 160)) s"

text \<open>\<^verbatim>\<open>/^#?(\d{1,n})$/\<close>: the number, when the text is one.\<close>

definition row_number :: "nat \<Rightarrow> string \<Rightarrow> string option" where
  "row_number n s =
     (let digits = (case s of c # rest \<Rightarrow> if c = CHR ''#'' then rest else s | [] \<Rightarrow> s)
      in if digits_up_to n digits then Some digits else None)"

definition hex_ci :: "char \<Rightarrow> bool" where
  "hex_ci c \<longleftrightarrow> is_digit c \<or> 65 \<le> code c \<and> code c \<le> 70 \<or> 97 \<le> code c \<and> code c \<le> 102"

definition resolveDisplay :: "(int \<times> string) list \<Rightarrow> string \<Rightarrow> (int \<times> string) result" where
  "resolveDisplay displays selector =
     (case row_number 2 selector of
        Some digits \<Rightarrow>
          (case find (\<lambda>(number, _). number = decimal_number digits) displays of
             Some d \<Rightarrow> Inr d
           | None \<Rightarrow> Inl (''There is no display '' @ digits @ ''. Use displays to list them.''))
      | None \<Rightarrow>
          if \<not> (8 \<le> length selector \<and> length selector \<le> 64 \<and> list_all hex_ci selector)
          then Inl ''Choose a display by number, for example 2, or by an ID prefix of at least 8 characters.''
          else (case filter (\<lambda>(_, displayId). starts_with displayId (js_lower selector)) displays of
                  [] \<Rightarrow> Inl (''No display ID starts with '' @ selector @ ''. Use displays to list them.'')
                | [d] \<Rightarrow> Inr d
                | _ \<Rightarrow> Inl (''Display ID '' @ selector @ '' matches more than one display.'')))"

definition in_quotes :: "string \<Rightarrow> string" where
  "in_quotes s = quote_mark # s @ [quote_mark]"

definition resolveProfile :: "(string \<times> string) list \<Rightarrow> string \<Rightarrow> (string \<times> string) result" where
  "resolveProfile profiles selector =
     (let named = filter (\<lambda>(_, name). js_lower name = js_lower selector) profiles
      in case find (\<lambda>(profileId, _). profileId = selector) profiles of
           Some (exactId, exactName) \<Rightarrow>
             (case find (\<lambda>(profileId, _). profileId \<noteq> exactId) named of
                Some (otherId, _) \<Rightarrow>
                  Inl (in_quotes selector @ '' matches the ID of '' @ in_quotes (clean exactName)
                    @ '' and the name of another profile; use that profile's ID ('' @ otherId @ '') or ''
                    @ in_quotes (clean exactName) @ '' by name.'')
              | None \<Rightarrow> Inr (exactId, exactName))
         | None \<Rightarrow>
             (case named of
                [] \<Rightarrow> Inl (''No profile matches '' @ in_quotes selector @ ''. Use profiles to list them.'')
              | [p] \<Rightarrow> Inr p
              | _ \<Rightarrow> Inl (''More than one profile is named '' @ in_quotes selector @ ''; use its ID.'')))"

text \<open>\<^verbatim>\<open>SessionNumbers\<close>: numbers that stand for session ids.\<close>

record session_numbers =
  sn_numbers :: "(string, int) jmap"
  sn_next :: int

definition no_numbers :: session_numbers where
  "no_numbers = \<lparr>sn_numbers = [], sn_next = 1\<rparr>"

definition number_of :: "string \<Rightarrow> session_numbers \<Rightarrow> int \<times> session_numbers" where
  "number_of sessionId s =
     (case jget (sn_numbers s) sessionId of
        Some n \<Rightarrow> (n, s)
      | None \<Rightarrow> (sn_next s, s\<lparr>sn_numbers := jset sessionId (sn_next s) (sn_numbers s), sn_next := sn_next s + 1\<rparr>))"

definition prune_numbers :: "string list \<Rightarrow> session_numbers \<Rightarrow> session_numbers" where
  "prune_numbers activeIds s = s\<lparr>sn_numbers := jkeep (\<lambda>sessionId _. sessionId \<in> set activeIds) (sn_numbers s)\<rparr>"

text \<open>A row: its session and the ids of its streams.\<close>

definition resolveSession ::
  "(string \<times> string list) list \<Rightarrow> string \<Rightarrow> session_numbers \<Rightarrow> (string \<times> string list) result \<times> session_numbers" where
  "resolveSession rows selector s =
     (let s = fold (\<lambda>row s. snd (number_of (fst row) s)) rows s;
          found = (case row_number 6 selector of
              Some digits \<Rightarrow> find (\<lambda>row. jget (sn_numbers s) (fst row) = Some (decimal_number digits)) rows
            | None \<Rightarrow> find (\<lambda>row. selector \<in> set (snd row)) rows)
      in (case found of
            Some row \<Rightarrow> Inr row
          | None \<Rightarrow> Inl (''No connected device matches '' @ selector @ ''. Use sessions to list them.''), s))"

section \<open>Lemmas\<close>

text \<open>How a word is typed so that any text is one word.\<close>

definition quoted_word :: "string \<Rightarrow> string" where
  "quoted_word w = quote_mark # concat (map (\<lambda>c. if c = quote_mark \<or> c = backslash then [backslash, c] else [c]) w) @ [quote_mark]"

lemma marks [simp]: "backslash \<noteq> quote_mark" "quote_mark \<noteq> backslash" "is_space (CHR '' '')" "\<not> is_space quote_mark" "CHR '' '' \<noteq> quote_mark"
  by (simp_all add: backslash_def quote_mark_def is_space_def code_def)

lemma loop_quoted:
  "token_loop (concat (map (\<lambda>c. if c = quote_mark \<or> c = backslash then [backslash, c] else [c]) w) @ quote_mark # rest) current started True tokens
     = token_loop rest (current @ w) True False tokens"
proof (induction w arbitrary: current started)
  case (Cons c w)
  show ?case
  proof (cases "c = quote_mark \<or> c = backslash")
    case True
    then show ?thesis using Cons.IH [of "current @ [c]" started] by auto
  next
    case False
    then show ?thesis using Cons.IH [of "current @ [c]" True] by simp
  qed
qed simp

lemma loop_word: "token_loop (quoted_word w @ rest) [] False False tokens = token_loop rest w True False tokens"
  using loop_quoted [of w rest "[]" True tokens] by (simp add: quoted_word_def)

lemma loop_words:
  "ws \<noteq> [] \<Longrightarrow> token_loop (join_with '' '' (map quoted_word ws)) [] False False tokens = Inr (tokens @ ws)"
proof (induction ws arbitrary: tokens)
  case (Cons w ws)
  show ?case
  proof (cases ws)
    case Nil
    then show ?thesis using loop_word [of w "[]" tokens] by simp
  next
    case (Cons w' ws')
    then have "token_loop (join_with '' '' (map quoted_word (w # ws))) [] False False tokens
        = token_loop (join_with '' '' (map quoted_word ws)) [] False False (tokens @ [w])"
      using loop_word [of w _ tokens] by simp
    with Cons.IH [of "tokens @ [w]"] Cons show ?thesis by simp
  qed
qed simp


text \<open>The numbers that a sequence of uses hands out, each with its session.\<close>

datatype number_event = Number_Of string | Prune "string list"

fun handed_out :: "session_numbers \<Rightarrow> number_event list \<Rightarrow> (string \<times> int) list" where
  "handed_out s [] = []"
| "handed_out s (Number_Of i # es) = (i, fst (number_of i s)) # handed_out (snd (number_of i s)) es"
| "handed_out s (Prune ids # es) = handed_out (prune_numbers ids s) es"

definition numbers_ok :: "session_numbers \<Rightarrow> bool" where
  "numbers_ok s \<longleftrightarrow> (\<forall>i n. (i, n) \<in> set (sn_numbers s) \<longrightarrow> n < sn_next s)
     \<and> (\<forall>i j n. (i, n) \<in> set (sn_numbers s) \<longrightarrow> (j, n) \<in> set (sn_numbers s) \<longrightarrow> i = j)"

lemma number_new: "jget m k = None \<Longrightarrow> set (jset k v m) = insert (k, v) (set m)"
  by (induction m) (auto split: if_splits)

lemma number_of_ok: "numbers_ok s \<Longrightarrow> numbers_ok (snd (number_of i s))
    \<and> (i, fst (number_of i s)) \<in> set (sn_numbers (snd (number_of i s))) \<and> set (sn_numbers s) \<subseteq> set (sn_numbers (snd (number_of i s)))
    \<and> sn_next s \<le> sn_next (snd (number_of i s))
    \<and> (\<forall>(j, n) \<in> set (sn_numbers (snd (number_of i s))). (j, n) \<in> set (sn_numbers s) \<or> sn_next s \<le> n)"
proof (cases "jget (sn_numbers s) i")
  case None
  assume ok: "numbers_ok s"
  have rows: "set (sn_numbers (snd (number_of i s))) = insert (i, sn_next s) (set (sn_numbers s))"
    and n: "sn_next (snd (number_of i s)) = sn_next s + 1" "fst (number_of i s) = sn_next s"
    using None by (simp_all add: number_of_def number_new)
  have "numbers_ok (snd (number_of i s))"
    using ok unfolding numbers_ok_def rows n by fastforce
  with rows n show ?thesis by auto
next
  case (Some n)
  assume ok: "numbers_ok s"
  from Some have "number_of i s = (n, s)" by (simp add: number_of_def)
  with ok map_of_SomeD [OF Some] show ?thesis by auto
qed

lemma prune_ok: "numbers_ok s \<Longrightarrow> numbers_ok (prune_numbers ids s) \<and> set (sn_numbers (prune_numbers ids s)) \<subseteq> set (sn_numbers s)"
proof
  show fewer: "set (sn_numbers (prune_numbers ids s)) \<subseteq> set (sn_numbers s)"
    by (simp add: prune_numbers_def set_jkeep_subset)
  have "sn_next (prune_numbers ids s) = sn_next s" by (simp add: prune_numbers_def)
  then show "numbers_ok s \<Longrightarrow> numbers_ok (prune_numbers ids s)" using fewer by (simp add: numbers_ok_def) blast
qed

lemma handed_new: "numbers_ok s \<Longrightarrow> (i, n) \<in> set (handed_out s es) \<Longrightarrow> (i, n) \<in> set (sn_numbers s) \<or> sn_next s \<le> n"
proof (induction s es rule: handed_out.induct)
  case (2 s j es)
  note more = number_of_ok [OF 2(2), of j]
  show ?case
  proof (cases "(i, n) = (j, fst (number_of j s))")
    case True
    with more show ?thesis by auto
  next
    case False
    with 2 more have "(i, n) \<in> set (sn_numbers (snd (number_of j s))) \<or> sn_next (snd (number_of j s)) \<le> n" by auto
    with more show ?thesis by fastforce
  qed
next
  case (3 s ids es)
  with prune_ok [OF 3(2), of ids] show ?case by (auto simp: prune_numbers_def)
qed simp

lemma handed_inj:
  "numbers_ok s \<Longrightarrow> (i, n) \<in> set (handed_out s es) \<union> set (sn_numbers s) \<Longrightarrow> (j, n) \<in> set (handed_out s es) \<union> set (sn_numbers s)
     \<Longrightarrow> i = j"
proof (induction s es rule: handed_out.induct)
  case (1 s)
  then show ?case by (auto simp: numbers_ok_def)
next
  case (2 s k es)
  note more = number_of_ok [OF 2(2), of k]
  with 2 show ?case by (intro 2(1)) auto
next
  case (3 s ids es)
  let ?s = "prune_numbers ids s"
  have ok: "numbers_ok ?s" and fewer: "set (sn_numbers ?s) \<subseteq> set (sn_numbers s)" using prune_ok [OF 3(2)] by auto
  have old: "(x, n) \<in> set (sn_numbers s)" if "(x, n) \<in> set (handed_out ?s es)" "(y, n) \<in> set (sn_numbers s)" for x y
  proof -
    have "n < sn_next ?s" using that(2) 3(2) by (auto simp: prune_numbers_def numbers_ok_def)
    with handed_new [OF ok that(1)] fewer show ?thesis by auto
  qed
  show ?case
  proof (cases "(i, n) \<in> set (sn_numbers s) \<or> (j, n) \<in> set (sn_numbers s)")
    case True
    then have "(i, n) \<in> set (sn_numbers s)" "(j, n) \<in> set (sn_numbers s)" using old 3(3,4) by auto
    with 3(2) show ?thesis by (auto simp: numbers_ok_def)
  next
    case False
    with 3 ok show ?thesis by auto
  qed
qed

section \<open>Properties\<close>

text \<open>
  Any words can be typed. A line of words in double quotes, with a backslash before every quote and
  backslash in them, is read back as those words, whatever characters they have, empty ones included.
\<close>

theorem quoted_words_read_back:
  assumes "length (join_with '' '' (map quoted_word ws)) \<le> MAX_LINE"
  shows "tokenize (join_with '' '' (map quoted_word ws)) = Inr ws"
  using assms loop_words [of ws "[]"] by (cases "ws = []") (auto simp: tokenize_def)

theorem quoted_words_read_back_witness:
  "tokenize (join_with '' '' (map quoted_word [''a b'', [], [quote_mark, backslash]])) = Inr [''a b'', [], [quote_mark, backslash]]
   \<and> length (join_with '' '' (map quoted_word [''a b'', [], [quote_mark, backslash]])) = 15"
proof -
  have "length (join_with '' '' (map quoted_word [''a b'', [], [quote_mark, backslash]])) = 15" by code_simp
  with quoted_words_read_back [of "[''a b'', [], [quote_mark, backslash]]"] show ?thesis by (simp add: MAX_LINE_def)
qed

text \<open>
  A console number never means two sessions. Of all the numbers handed out in any sequence of uses and
  prunings, equal ones are of the same session, so a number that the owner read earlier cannot reach
  another device.
\<close>

theorem numbers_not_reused:
  "\<forall>(i, n) \<in> set (handed_out no_numbers es). \<forall>(j, m) \<in> set (handed_out no_numbers es). n = m \<longrightarrow> i = j"
proof -
  have "numbers_ok no_numbers" by (simp add: numbers_ok_def no_numbers_def)
  then show ?thesis using handed_inj [of no_numbers _ _ es] by fast
qed

theorem numbers_not_reused_witness:
  "handed_out no_numbers [Number_Of ''a'', Number_Of ''b'', Prune [''b''], Number_Of ''a'', Number_Of ''b'']
     = [(''a'', 1), (''b'', 2), (''a'', 3), (''b'', 2)]
   \<and> (''b'', 3) \<notin> set (handed_out no_numbers [Number_Of ''a'', Number_Of ''b'', Prune [''b''], Number_Of ''a'', Number_Of ''b''])"
proof -
  let ?es = "[Number_Of ''a'', Number_Of ''b'', Prune [''b''], Number_Of ''a'', Number_Of ''b'']"
  have "handed_out no_numbers ?es = [(''a'', 1), (''b'', 2), (''a'', 3), (''b'', 2)]" by code_simp
  moreover from this have "(''a'', 3) \<in> set (handed_out no_numbers ?es)" by simp
  with numbers_not_reused [of ?es] have "(''b'', 3) \<notin> set (handed_out no_numbers ?es)" by fastforce
  ultimately show ?thesis by blast
qed

end
