(* ===== verification/TrustPage.thy ===== *)
theory TrustPage
  imports Json
begin

text \<open>
  \<^verbatim>\<open>apps/web-client/src/trust-model.js\<close>: what the page that enrols a device shows for the host's answer. The page
  is reached without encryption, so what it may show depends on each state.
\<close>

section \<open>The device\<close>

fun contains :: "string \<Rightarrow> string \<Rightarrow> bool" where
  "contains [] part \<longleftrightarrow> part = []"
| "contains (c # cs) part \<longleftrightarrow> starts_with (c # cs) part \<or> contains cs part"

text \<open>\<open>touch\<close> is the number of touch points, 0 when it is not a finite number.\<close>

definition detectPlatform :: "json option \<Rightarrow> int \<Rightarrow> string" where
  "detectPlatform userAgent touch =
     (let agent = str_of userAgent; has = contains agent
      in if has ''iPhone'' \<or> has ''iPad'' \<or> has ''iPod'' then ''ios''
         else if has ''Macintosh'' \<and> 1 < touch then ''ios''
         else if has ''Android'' then ''android''
         else if has ''Windows'' then ''windows''
         else if has ''Macintosh'' \<or> has ''Mac OS X'' then ''macos''
         else if has ''CrOS'' then ''other''
         else if has ''Linux'' \<or> has ''X11'' then ''linux''
         else ''other'')"

section \<open>The fingerprint\<close>

definition BYTES_PER_GROUP :: nat where "BYTES_PER_GROUP = 4"

definition hex_letter :: "char \<Rightarrow> bool" where
  "hex_letter c \<longleftrightarrow> is_digit c \<or> 65 \<le> code c \<and> code c \<le> 70 \<or> 97 \<le> code c \<and> code c \<le> 102"

text \<open>\<^verbatim>\<open>/^[0-9A-Fa-f]{2}(?::[0-9A-Fa-f]{2}){31}$/\<close>\<close>

definition isSha256Fingerprint :: "json option \<Rightarrow> bool" where
  "isSha256Fingerprint v \<longleftrightarrow>
     is_str v \<and> length (split_on (CHR '':'') (str_of v)) = 32
     \<and> list_all (\<lambda>part. length part = 2 \<and> list_all hex_letter part) (split_on (CHR '':'') (str_of v))"

text \<open>The loop over the bytes: every group but the last ends with its separator.\<close>

function byte_groups :: "string list \<Rightarrow> string list" where
  "byte_groups bytes =
     (if bytes = [] then []
      else (let group = join_with '':'' (take BYTES_PER_GROUP bytes)
            in (if BYTES_PER_GROUP < length bytes then group @ '':'' else group) # byte_groups (drop BYTES_PER_GROUP bytes)))"
  by pat_completeness auto
termination by (relation "measure length") (auto simp: BYTES_PER_GROUP_def)

declare byte_groups.simps [simp del]

definition groupFingerprint :: "json option \<Rightarrow> string list option" where
  "groupFingerprint v =
     (if isSha256Fingerprint v then Some (byte_groups (split_on (CHR '':'') (str_of v))) else None)"

section \<open>Addresses\<close>

definition name_letter :: "char \<Rightarrow> bool" where
  "name_letter c \<longleftrightarrow> is_digit c \<or> 65 \<le> code c \<and> code c \<le> 90 \<or> 97 \<le> code c \<and> code c \<le> 122 \<or> c = CHR ''_''"

text \<open>\<^verbatim>\<open>location.hostname\<close>: a DNS name, an IPv4 address, or a bracketed IPv6 address.\<close>

definition is_hostname :: "string \<Rightarrow> bool" where
  "is_hostname s \<longleftrightarrow>
     3 \<le> length s \<and> hd s = CHR ''['' \<and> last s = CHR '']''
       \<and> list_all (\<lambda>c. hex_letter c \<or> c = CHR '':'' \<or> c = CHR ''.'') (butlast (tl s))
     \<or> s \<noteq> [] \<and> name_letter (hd s) \<and> name_letter (last s)
       \<and> list_all (\<lambda>c. name_letter c \<or> c = CHR ''.'' \<or> c = CHR ''-'') s"

definition secureAddress :: "json option \<Rightarrow> json option \<Rightarrow> string option" where
  "secureAddress hostname httpsPort =
     (case (hostname, httpsPort) of
        (Some (JStr name), Some (JInt port)) \<Rightarrow>
          if \<not> is_hostname name \<or> port < 1 \<or> 65535 < port then None
          else Some (''https://'' @ name @ (if port = 443 then [] else '':'' @ dec port) @ ''/'')
      | _ \<Rightarrow> None)"

definition isSameOriginPath :: "json option \<Rightarrow> bool" where
  "isSameOriginPath v \<longleftrightarrow>
     (case v of Some (JStr (a # b # _)) \<Rightarrow> a = CHR ''/'' \<and> b \<noteq> CHR ''/'' \<and> b \<noteq> CHR 0x5C | _ \<Rightarrow> False)"

section \<open>The view\<close>

datatype trust_state = Error_View | Unavailable_View | Inactive_View | Required_View | Unknown_View | Not_Required_View

record trust_view =
  tv_state :: trust_state
  tv_title :: string
  tv_fingerprint :: "(string \<times> string list) option"
  tv_compare :: bool
  tv_download :: "string option"
  tv_instructions :: bool
  tv_strategy :: "string option"
  tv_secure :: "string option"
  tv_retry :: bool

definition trust_view_of :: "trust_state \<Rightarrow> string \<Rightarrow> trust_view" where
  "trust_view_of st title =
     \<lparr>tv_state = st, tv_title = title, tv_fingerprint = None, tv_compare = False, tv_download = None, tv_instructions = False,
      tv_strategy = None, tv_secure = None, tv_retry = False\<rparr>"

definition ERROR_VIEW :: trust_view where
  "ERROR_VIEW = (trust_view_of Error_View ''Could not load the certificate details'')\<lparr>tv_retry := True\<rparr>"

definition UNAVAILABLE_VIEW :: trust_view where
  "UNAVAILABLE_VIEW = (trust_view_of Unavailable_View ''No certificate to offer right now'')\<lparr>tv_retry := True\<rparr>"

definition inactiveView :: trust_view where
  "inactiveView = (trust_view_of Inactive_View ''HTTPS is not running on this host'')\<lparr>tv_retry := True\<rparr>"

definition fingerprintView :: "json \<Rightarrow> (string \<times> string list) option" where
  "fingerprintView status =
     (case groupFingerprint (jfield ''fingerprint'' status) of
        Some groups \<Rightarrow> Some (str_of (jfield ''fingerprint'' status), groups)
      | None \<Rightarrow> None)"

definition describe_active :: "json \<Rightarrow> json option \<Rightarrow> trust_view" where
  "describe_active status hostname =
     (let fingerprint = fingerprintView status;
          strategy = (if is_str (jfield ''strategy'' status) then Some (str_of (jfield ''strategy'' status)) else None);
          secure = secureAddress hostname (jfield ''httpsPort'' status);
          enrolment = jfield ''enrolmentStatus'' status
      in if enrolment = Some (JStr ''required'')
         then (if fingerprint = None \<or> \<not> isSameOriginPath (jfield ''download'' status) then UNAVAILABLE_VIEW
               else (trust_view_of Required_View ''Install this host's certificate'')
                 \<lparr>tv_fingerprint := fingerprint, tv_compare := True, tv_download := Some (str_of (jfield ''download'' status)),
                  tv_instructions := True, tv_strategy := strategy, tv_secure := secure\<rparr>)
         else if enrolment = Some (JStr ''unknown'')
         then (trust_view_of Unknown_View ''Nothing to install on this device'')
                \<lparr>tv_fingerprint := fingerprint, tv_strategy := strategy, tv_secure := secure\<rparr>
         else if enrolment = Some (JStr ''not-required'')
         then (trust_view_of Not_Required_View ''No enrolment is needed for this host'')
                \<lparr>tv_fingerprint := fingerprint, tv_strategy := strategy, tv_secure := secure\<rparr>
         else UNAVAILABLE_VIEW)"

text \<open>\<open>outcome\<close>: the HTTP status and the body, or \<open>None\<close> when the request itself failed.\<close>

definition describeTrust :: "(int \<times> json) option \<Rightarrow> json option \<Rightarrow> trust_view" where
  "describeTrust outcome hostname =
     (case outcome of
        None \<Rightarrow> ERROR_VIEW
      | Some (httpStatus, status) \<Rightarrow>
          if httpStatus = 503 then inactiveView
          else if httpStatus \<noteq> 200 then ERROR_VIEW
          else if \<not> is_plain_object status \<or> \<not> is_bool (jfield ''active'' status) then ERROR_VIEW
          else if jfield ''active'' status = Some (JBool False) then inactiveView
          else describe_active status hostname)"

section \<open>Lemmas\<close>

lemma join_take_drop:
  "n < length xs \<Longrightarrow> 0 < n \<Longrightarrow> join_with s (take n xs) @ s @ join_with s (drop n xs) = join_with s xs"
proof (induction xs arbitrary: n)
  case (Cons x xs)
  show ?case
  proof (cases "n = 1")
    case True
    with Cons.prems show ?thesis by (cases xs) auto
  next
    case False
    with Cons.prems obtain m where n: "n = Suc m" "0 < m" by (cases n) auto
    with Cons.prems have "join_with s (take m xs) @ s @ join_with s (drop m xs) = join_with s xs" by (intro Cons.IH) auto
    moreover have "xs \<noteq> []" "take m xs \<noteq> []" using Cons.prems n by auto
    ultimately show ?thesis using n by (cases xs; cases m) auto
  qed
qed simp

lemma groups_whole: "concat (byte_groups bs) = join_with '':'' bs"
proof (induction bs rule: byte_groups.induct)
  case (1 bs)
  show ?case
  proof (cases "bs = []")
    case True
    then show ?thesis by (simp add: byte_groups.simps)
  next
    case False
    with 1 have "concat (byte_groups (drop BYTES_PER_GROUP bs)) = join_with '':'' (drop BYTES_PER_GROUP bs)" by simp
    with False join_take_drop [of BYTES_PER_GROUP bs "'':''"] show ?thesis
      by (subst byte_groups.simps) (auto simp: BYTES_PER_GROUP_def not_less Let_def)
  qed
qed

section \<open>Properties\<close>

text \<open>
  The page hands a file only where the host decided to. Whatever the answer contains, a download is shown exactly
  in the state in which a certificate is required, it is a path on the page's own origin, and with it come the
  whole fingerprint, in groups that join to exactly the reported text, and the instruction to compare it. Any address
  shown is an HTTPS one.
\<close>

theorem only_required_downloads:
  "(tv_download (describeTrust outcome hostname) \<noteq> None \<longleftrightarrow> tv_state (describeTrust outcome hostname) = Required_View)
   \<and> (\<forall>path. tv_download (describeTrust outcome hostname) = Some path \<longrightarrow>
        isSameOriginPath (Some (JStr path)) \<and> tv_compare (describeTrust outcome hostname)
        \<and> tv_fingerprint (describeTrust outcome hostname) \<noteq> None)
   \<and> (\<forall>text groups. tv_fingerprint (describeTrust outcome hostname) = Some (text, groups) \<longrightarrow>
        concat groups = text \<and> isSha256Fingerprint (Some (JStr text)))
   \<and> (\<forall>address. tv_secure (describeTrust outcome hostname) = Some address \<longrightarrow> starts_with address ''https://'')"
proof -
  have path: "isSameOriginPath (Some (JStr (str_of v)))" if "isSameOriginPath v" for v
    using that by (auto simp: isSameOriginPath_def str_of_def split: option.splits json.splits)
  have groups: "concat gs = t \<and> isSha256Fingerprint (Some (JStr t))" if "fingerprintView status = Some (t, gs)"
    for status t gs
  proof -
    from that have "isSha256Fingerprint (jfield ''fingerprint'' status)" "t = str_of (jfield ''fingerprint'' status)"
      "gs = byte_groups (split_on (CHR '':'') t)"
      by (auto simp: fingerprintView_def groupFingerprint_def split: if_splits)
    then show ?thesis
      by (auto simp: groups_whole join_split isSha256Fingerprint_def is_str_def str_of_def split: option.splits json.splits)
  qed
  have address: "starts_with a ''https://''" if "secureAddress h p = Some a" for h p a
    using that by (auto simp: secureAddress_def starts_with_def split: option.splits json.splits if_splits)
  show ?thesis
    using path groups address
    by (auto simp: describeTrust_def describe_active_def Let_def ERROR_VIEW_def UNAVAILABLE_VIEW_def inactiveView_def trust_view_of_def
        split: option.splits)
qed


definition sample_status :: json where
  "sample_status = JObj [(''active'', JBool True), (''enrolmentStatus'', JStr ''required''), (''download'', JStr ''/a''), (''httpsPort'', JInt 4383),
     (''fingerprint'', JStr (''0a'' @ concat (replicate 31 '':0a'')))]"

theorem only_required_downloads_witness:
  "tv_download (describeTrust (Some (200, sample_status)) (Some (JStr ''pc''))) = Some ''/a''
   \<and> tv_secure (describeTrust (Some (200, sample_status)) (Some (JStr ''pc''))) = Some ''https://pc:4383/''
   \<and> tv_state (describeTrust (Some (200, sample_status)) (Some (JStr ''pc''))) = Required_View
   \<and> isSameOriginPath (Some (JStr ''/a''))"
proof -
  have "tv_download (describeTrust (Some (200, sample_status)) (Some (JStr ''pc''))) = Some ''/a''"
    "tv_secure (describeTrust (Some (200, sample_status)) (Some (JStr ''pc''))) = Some ''https://pc:4383/''"
    by (code_simp+)
  with only_required_downloads [of "Some (200, sample_status)" "Some (JStr ''pc'')"] show ?thesis by simp
qed

end
