(* ===== verification/Der.thy ===== *)
theory Der
  imports Json "HOL-Library.Word" "HOL-Library.Code_Target_Nat"
begin

unbundle bit_operations_syntax

text \<open>
  \<^verbatim>\<open>apps/server/src/tls/der.mjs\<close>: the DER writer of the self-signed certificates. A buffer is a list of 8-bit
  words; storing a number in a buffer keeps its low eight bits. The functions that nest encodings take the
  encodings of their items. A date is its time in milliseconds.
\<close>

type_synonym octets = "8 word list"

section \<open>Tags, lengths and encodings\<close>

definition tag_boolean :: "8 word" where "tag_boolean = 0x01"
definition tag_integer :: "8 word" where "tag_integer = 0x02"
definition tag_bitString :: "8 word" where "tag_bitString = 0x03"
definition tag_octetString :: "8 word" where "tag_octetString = 0x04"
definition tag_null :: "8 word" where "tag_null = 0x05"
definition tag_oid :: "8 word" where "tag_oid = 0x06"
definition tag_utf8String :: "8 word" where "tag_utf8String = 0x0C"
definition tag_ia5String :: "8 word" where "tag_ia5String = 0x16"
definition tag_utcTime :: "8 word" where "tag_utcTime = 0x17"
definition tag_generalizedTime :: "8 word" where "tag_generalizedTime = 0x18"
definition tag_sequence :: "8 word" where "tag_sequence = 0x30"
definition tag_set :: "8 word" where "tag_set = 0x31"

text \<open>The loop of \<^verbatim>\<open>length\<close>: the bytes of a number, most significant first, none for zero.\<close>

fun size_bytes :: "nat \<Rightarrow> octets" where
  "size_bytes rest = (if rest = 0 then [] else size_bytes (rest div 256) @ [of_nat rest])"

declare size_bytes.simps [simp del]

definition der_length :: "nat \<Rightarrow> octets" where
  "der_length n = (if n < 0x80 then [of_nat n] else (0x80 OR of_nat (length (size_bytes n))) # size_bytes n)"

definition encode :: "8 word \<Rightarrow> octets \<Rightarrow> octets" where
  "encode tag content = tag # der_length (length content) @ content"

definition der_sequence :: "octets list \<Rightarrow> octets" where
  "der_sequence items = encode tag_sequence (concat items)"

definition der_set :: "octets list \<Rightarrow> octets" where
  "der_set items = encode tag_set (concat items)"

definition nullValue :: octets where
  "nullValue = encode tag_null []"

definition der_boolean :: "bool \<Rightarrow> octets" where
  "der_boolean v = encode tag_boolean [if v then 0xFF else 0]"

definition octetString :: "octets \<Rightarrow> octets" where
  "octetString bytes = encode tag_octetString bytes"

text \<open>UTF-8 of characters below 256.\<close>

definition char_byte :: "char \<Rightarrow> 8 word" where
  "char_byte c = of_nat (code c)"

definition utf8 :: "string \<Rightarrow> octets" where
  "utf8 s = concat (map (\<lambda>c. if code c < 128 then [char_byte c]
     else [0xC0 OR drop_bit 6 (char_byte c), 0x80 OR (char_byte c AND 0x3F)]) s)"

definition utf8String :: "string \<Rightarrow> octets" where
  "utf8String s = encode tag_utf8String (utf8 s)"

definition ia5String :: "string \<Rightarrow> octets result" where
  "ia5String s = (if \<exists>c \<in> set s. 128 \<le> code c then Inl ''IA5String must be ASCII''
     else Inr (encode tag_ia5String (map char_byte s)))"

section \<open>Integers\<close>

text \<open>The bytes of a number that is not negative: at least one.\<close>

fun big_bytes :: "nat \<Rightarrow> octets" where
  "big_bytes big = (if big div 256 = 0 then [of_nat big] else big_bytes (big div 256) @ [of_nat big])"

declare big_bytes.simps [simp del]

fun skip_zeros :: "octets \<Rightarrow> octets" where
  "skip_zeros (b # b' # bs) = (if b = 0 \<and> b' < 0x80 then skip_zeros (b' # bs) else b # b' # bs)"
| "skip_zeros bs = bs"

definition integer_content :: "octets \<Rightarrow> octets" where
  "integer_content bytes =
     (let bytes = skip_zeros bytes; bytes = (if bytes = [] then [0] else bytes)
      in if hd bytes AND 0x80 \<noteq> 0 then 0 # bytes else bytes)"

definition integer_bytes :: "octets \<Rightarrow> octets" where
  "integer_bytes bytes = encode tag_integer (integer_content bytes)"

definition integer_number :: "int \<Rightarrow> octets result" where
  "integer_number n = (if n < 0 then Inl ''Only non-negative integers are supported'' else Inr (integer_bytes (big_bytes (nat n))))"

section \<open>Bit strings\<close>

definition bitString :: "octets \<Rightarrow> octets" where
  "bitString bytes = encode tag_bitString (0 # bytes)"

definition set_named_bit :: "octets \<Rightarrow> nat \<Rightarrow> octets" where
  "set_named_bit bytes n = bytes[n div 8 := bytes ! (n div 8) OR drop_bit (n mod 8) 0x80]"

text \<open>Of no bits, \<^verbatim>\<open>Math.max\<close> is \<^verbatim>\<open>-Infinity\<close> and allocating the buffer throws.\<close>

definition namedBits :: "nat list \<Rightarrow> octets result" where
  "namedBits bits =
     (if bits = [] then Inl ''The value of \"size\" is out of range.''
      else (let highest = Max (set bits)
            in Inr (encode tag_bitString
                 (of_nat (7 - highest mod 8) # foldl set_named_bit (replicate (highest div 8 + 1) 0) bits))))"

section \<open>Object identifiers\<close>

definition decimal_value :: "string \<Rightarrow> nat" where
  "decimal_value s = foldl (\<lambda>a c. 10 * a + (code c - 48)) 0 s"

definition decimal_part :: "string \<Rightarrow> bool" where
  "decimal_part s \<longleftrightarrow> s \<noteq> [] \<and> list_all is_digit s"

text \<open>The bytes of an arc before its last: seven bits each, most significant first, with the top bit set.\<close>

fun arc_head :: "nat \<Rightarrow> octets" where
  "arc_head rest = (if rest = 0 then [] else arc_head (rest div 128) @ [of_nat (rest mod 128) OR 0x80])"

declare arc_head.simps [simp del]

definition arc_bytes :: "nat \<Rightarrow> octets" where
  "arc_bytes arc = arc_head (arc div 128) @ [of_nat (arc mod 128)]"

definition oid_arcs :: "string \<Rightarrow> nat list result" where
  "oid_arcs dotted =
     (let parts = split_on (CHR ''.'') dotted
      in if \<not> list_all decimal_part parts then Inl (''Invalid OID '' @ dotted)
         else (case map decimal_value parts of
             first # second # rest \<Rightarrow>
               if 2 < first \<or> first < 2 \<and> 39 < second then Inl (''Invalid OID '' @ dotted)
               else Inr ((first * 40 + second) # rest)
           | _ \<Rightarrow> Inl (''Invalid OID '' @ dotted)))"

definition oid :: "string \<Rightarrow> octets result" where
  "oid dotted = (case oid_arcs dotted of Inl e \<Rightarrow> Inl e | Inr arcs \<Rightarrow> Inr (encode tag_oid (concat (map arc_bytes arcs))))"

section \<open>Times\<close>

text \<open>The day of the Gregorian calendar that a count of days from 1 January 1970 names.\<close>

definition civil_day :: "int \<Rightarrow> int \<times> int \<times> int" where
  "civil_day days =
     (let z = days + 719468; era = z div 146097; doe = z mod 146097;
          yoe = (doe - doe div 1460 + doe div 36524 - doe div 146096) div 365;
          doy = doe - (365 * yoe + yoe div 4 - yoe div 100); mp = (5 * doy + 2) div 153;
          month = (if mp < 10 then mp + 3 else mp - 9)
      in (yoe + era * 400 + (if month \<le> 2 then 1 else 0), month, doy - (153 * mp + 2) div 5 + 1))"

definition two_digits :: "int \<Rightarrow> string" where
  "two_digits n = (if n < 10 then ''0'' else []) @ dec n"

definition der_time :: "int \<Rightarrow> octets result" where
  "der_time ms =
     (let seconds = ms div 1000; rest = seconds mod 86400;
          (year, month, day) = civil_day (seconds div 86400);
          digits = dec year @ two_digits month @ two_digits day @ two_digits (rest div 3600)
            @ two_digits (rest div 60 mod 60) @ two_digits (rest mod 60) @ ''Z''
      in if year < 1950 \<or> 9999 < year then Inl ''Certificate time out of range''
         else if year < 2050 then Inr (encode tag_utcTime (map char_byte (drop 2 digits)))
         else Inr (encode tag_generalizedTime (map char_byte digits)))"

section \<open>Context tags\<close>

definition explicit :: "8 word \<Rightarrow> octets \<Rightarrow> octets" where
  "explicit number inner = encode (0xA0 OR number) inner"

definition implicit :: "8 word \<Rightarrow> octets \<Rightarrow> octets" where
  "implicit number inner =
     encode (0x80 OR (inner ! 0 AND 0x20) OR number)
       (drop (if inner ! 1 < 0x80 then 2 else 2 + unat (inner ! 1 AND 0x7F)) inner)"

section \<open>Reading\<close>

text \<open>
  What X.690 says of an encoding, as a reader: the tag, the content and what follows. This is the
  specification of the writer, not code of the program.
\<close>

definition unsigned_value :: "octets \<Rightarrow> nat" where
  "unsigned_value bytes = foldl (\<lambda>a b. 256 * a + unat b) 0 bytes"

definition read_der :: "octets \<Rightarrow> (8 word \<times> octets \<times> octets) option" where
  "read_der bytes =
     (case bytes of
        tag # l # rest \<Rightarrow>
          (let (n, rest) = (if unat l < 128 then (unat l, rest)
                            else (unsigned_value (take (unat l - 128) rest), drop (unat l - 128) rest))
           in if length rest < n then None else Some (tag, take n rest, drop n rest))
      | _ \<Rightarrow> None)"

fun read_arcs :: "nat \<Rightarrow> octets \<Rightarrow> nat list" where
  "read_arcs a [] = []"
| "read_arcs a (b # bs) = (if unat b < 128 then (128 * a + unat b) # read_arcs 0 bs else read_arcs (128 * a + (unat b - 128)) bs)"

section \<open>Lemmas\<close>

lemma value_snoc [simp]: "unsigned_value (bs @ [b]) = 256 * unsigned_value bs + unat b"
  by (simp add: unsigned_value_def)

lemma value_Nil [simp]: "unsigned_value [] = 0"
  by (simp add: unsigned_value_def)

lemma unat_byte [simp]: "unat (of_nat n :: 8 word) = n mod 256"
  by (simp add: unat_of_nat)

lemma size_bytes_value [simp]: "unsigned_value (size_bytes n) = n"
proof (induction n rule: size_bytes.induct)
  case (1 n)
  then show ?case by (subst size_bytes.simps) simp
qed

lemma size_bytes_length: "n < 256 ^ k \<Longrightarrow> length (size_bytes n) \<le> k"
proof (induction n arbitrary: k rule: size_bytes.induct)
  case (1 n)
  show ?case
  proof (cases "n = 0")
    case True
    then show ?thesis by (simp add: size_bytes.simps)
  next
    case False
    with 1(2) obtain j where k: "k = Suc j" by (cases k) auto
    with 1(2) have "n div 256 < 256 ^ j" by (simp add: less_mult_imp_div_less mult.commute)
    from 1(1) [OF False this] False k show ?thesis by (subst size_bytes.simps) simp
  qed
qed

lemma long_form: "k < 128 \<Longrightarrow> unat ((0x80 :: 8 word) OR of_nat k) = 128 + k"
proof -
  have "list_all (\<lambda>k. unat ((0x80 :: 8 word) OR of_nat k) = 128 + k) [0..<128]" by code_simp
  then show "k < 128 \<Longrightarrow> unat ((0x80 :: 8 word) OR of_nat k) = 128 + k" by (auto simp: list_all_iff)
qed

lemma read_encode: "length content < 256 ^ 127 \<Longrightarrow> read_der (encode tag content @ rest) = Some (tag, content, rest)"
proof (cases "length content < 128")
  case True
  then show ?thesis by (simp add: encode_def der_length_def read_der_def)
next
  case False
  assume "length content < 256 ^ 127"
  then have "length (size_bytes (length content)) \<le> 127" by (rule size_bytes_length)
  then have "unat ((0x80 :: 8 word) OR of_nat (length (size_bytes (length content)))) = 128 + length (size_bytes (length content))"
    by (intro long_form) simp
  with False show ?thesis by (simp add: encode_def der_length_def read_der_def Let_def)
qed


lemma big_bytes_value [simp]: "unsigned_value (big_bytes n) = n"
proof (induction n rule: big_bytes.induct)
  case (1 n)
  then show ?case by (subst big_bytes.simps) (auto simp: unsigned_value_def)
qed

lemma value_zero [simp]: "unsigned_value (0 # bs) = unsigned_value bs"
  by (simp add: unsigned_value_def)

lemma skip_zeros_value [simp]: "unsigned_value (skip_zeros bs) = unsigned_value bs"
  by (induction bs rule: skip_zeros.induct) auto

lemma skip_zeros_least: "skip_zeros bs = b # b' # rest \<Longrightarrow> b = 0 \<Longrightarrow> 128 \<le> unat b'"
  by (induction bs rule: skip_zeros.induct) (auto simp: word_less_nat_alt split: if_splits)

lemma skip_zeros_Nil [simp]: "skip_zeros bs = [] \<longleftrightarrow> bs = []"
  by (induction bs rule: skip_zeros.induct) auto

lemma top_bit: "(b :: 8 word) AND 0x80 \<noteq> 0 \<longleftrightarrow> 128 \<le> unat b"
proof -
  have "list_all (\<lambda>k. ((of_nat k :: 8 word) AND 0x80 \<noteq> 0) = (128 \<le> k)) [0..<256]" by code_simp
  then have "k < 256 \<Longrightarrow> ((of_nat k :: 8 word) AND 0x80 \<noteq> 0) = (128 \<le> k)" for k by (simp add: list_all_iff)
  from this [of "unat b"] show ?thesis using unsigned_less [of b, where 'a = nat] by simp
qed

text \<open>The content of an integer: not negative, without a superfluous byte, and of the same value.\<close>

lemma integer_content_ok:
  "unsigned_value (integer_content bs) = unsigned_value bs \<and> integer_content bs \<noteq> [] \<and> unat (hd (integer_content bs)) < 128
   \<and> (1 < length (integer_content bs) \<longrightarrow> integer_content bs ! 0 \<noteq> 0 \<or> 128 \<le> unat (integer_content bs ! 1))"
proof (cases "skip_zeros bs")
  case Nil
  then show ?thesis by (simp add: integer_content_def)
next
  case (Cons b rest)
  then have v: "unsigned_value (b # rest) = unsigned_value bs" using skip_zeros_value [of bs] by simp
  show ?thesis
  proof (cases "128 \<le> unat b")
    case True
    then show ?thesis using Cons v by (simp add: integer_content_def top_bit)
  next
    case False
    have "b \<noteq> 0 \<or> 128 \<le> unat (hd rest)" if "rest \<noteq> []"
      using skip_zeros_least [of bs b "hd rest" "tl rest"] Cons that by auto
    with False show ?thesis using Cons v by (cases rest) (auto simp: integer_content_def top_bit)
  qed
qed

lemma low_arc: "n < 128 \<Longrightarrow> unat (of_nat n :: 8 word) = n"
  by simp

lemma high_arc: "n < 128 \<Longrightarrow> unat ((of_nat n :: 8 word) OR 0x80) = 128 + n"
  using long_form [of n] by (simp add: or.commute)

lemma read_arc_head: "\<exists>k. read_arcs a (arc_head n @ bs) = read_arcs (a * 128 ^ k + n) bs"
proof (induction n arbitrary: bs rule: arc_head.induct)
  case (1 n)
  show ?case
  proof (cases "n = 0")
    case True
    then show ?thesis by (auto simp: arc_head.simps intro: exI [of _ 0])
  next
    case False
    from 1 [OF False, of "(of_nat (n mod 128) OR 0x80) # bs"] obtain k where
      k: "read_arcs a (arc_head (n div 128) @ (of_nat (n mod 128) OR 0x80) # bs)
        = read_arcs (a * 128 ^ k + n div 128) ((of_nat (n mod 128) OR 0x80) # bs)" by auto
    have "read_arcs (a * 128 ^ k + n div 128) ((of_nat (n mod 128) OR 0x80) # bs) = read_arcs (a * 128 ^ Suc k + n) bs"
      by (simp add: high_arc algebra_simps)
    with k False have "read_arcs a (arc_head n @ bs) = read_arcs (a * 128 ^ Suc k + n) bs" by (subst arc_head.simps) simp
    then show ?thesis by blast
  qed
qed

lemma read_arc [simp]: "read_arcs 0 (arc_bytes n @ bs) = n # read_arcs 0 bs"
proof -
  obtain k where "read_arcs 0 (arc_head (n div 128) @ of_nat (n mod 128) # bs) = read_arcs (0 * 128 ^ k + n div 128) (of_nat (n mod 128) # bs)"
    using read_arc_head by blast
  then show ?thesis by (simp add: arc_bytes_def)
qed

lemma read_arcs_all: "read_arcs 0 (concat (map arc_bytes arcs)) = arcs"
  by (induction arcs) simp_all

lemma implicit_encode:
  assumes "length content < 256 ^ 127"
  shows "implicit number (encode tag content) = encode (0x80 OR (tag AND 0x20) OR number) content"
proof (cases "length content < 128")
  case True
  then show ?thesis by (simp add: implicit_def encode_def der_length_def word_less_nat_alt)
next
  case False
  have small: "length (size_bytes (length content)) \<le> 127" using assms by (rule size_bytes_length)
  then have long: "unat ((0x80 :: 8 word) OR of_nat (length (size_bytes (length content)))) = 128 + length (size_bytes (length content))"
    by (intro long_form) simp
  have "list_all (\<lambda>k. unat (((0x80 :: 8 word) OR of_nat k) AND 0x7F) = k) [0..<128]" by code_simp
  with small have "unat (((0x80 :: 8 word) OR of_nat (length (size_bytes (length content)))) AND 0x7F) = length (size_bytes (length content))"
    by (auto simp: list_all_iff)
  with long False show ?thesis by (simp add: implicit_def encode_def der_length_def word_less_nat_alt)
qed

section \<open>Properties\<close>

text \<open>
  C36: what is written reads back. An encoding of a content of any length that fits in memory reads back, by the
  rules of X.690, as its tag and its content, with what follows it left over; so do the integers, which read
  as the number they were given, without a superfluous byte; and an implicit tag replaces only the tag.
\<close>

theorem der_reads_back:
  assumes "length content < 256 ^ 127"
  shows "read_der (encode tag content @ rest) = Some (tag, content, rest)
    \<and> read_der (implicit number (encode tag content) @ rest) = Some (0x80 OR (tag AND 0x20) OR number, content, rest)"
  using assms by (simp add: read_encode implicit_encode)

theorem der_reads_back_witness:
  "read_der (encode 4 (replicate 300 7) @ [9]) = Some (4, replicate 300 7, [9]) \<and> length (encode 4 (replicate 300 7)) = 304"
proof -
  have "length (encode 4 (replicate 300 7)) = 304"
    by (simp add: encode_def der_length_def size_bytes.simps)
  moreover have "length (replicate 300 (7 :: 8 word)) < 256 ^ 127"
    using less_exp [of 300] by (simp only: length_replicate) simp
  ultimately show ?thesis using der_reads_back [of "replicate 300 7" 4 "[9]"] by blast
qed

text \<open>
  The numbers of a certificate read back. A non-negative integer is written with a content that has the number as its
  value, reads as not negative, and is the shortest that does; an object identifier is written so that
  reading it, seven bits a byte, gives its numbers, the first two joined as X.690 says.
\<close>

theorem numbers_read_back:
  "(integer_number n = Inr bytes \<longrightarrow>
      (\<exists>content. bytes = encode tag_integer content \<and> int (unsigned_value content) = n \<and> content \<noteq> [] \<and> unat (hd content) < 128
         \<and> (length content = 1 \<or> content ! 0 \<noteq> 0 \<or> 128 \<le> unat (content ! 1))))
   \<and> (oid dotted = Inr name \<longrightarrow>
      (\<exists>a b rest content. map decimal_value (split_on (CHR ''.'') dotted) = a # b # rest
         \<and> name = encode tag_oid content \<and> read_arcs 0 content = (a * 40 + b) # rest))"
proof (intro conjI impI)
  assume "integer_number n = Inr bytes"
  then have n: "0 \<le> n" "bytes = encode tag_integer (integer_content (big_bytes (nat n)))"
    by (auto simp: integer_number_def integer_bytes_def split: if_splits)
  let ?c = "integer_content (big_bytes (nat n))"
  have "length ?c = 1 \<or> 1 < length ?c" using integer_content_ok [of "big_bytes (nat n)"] by (cases ?c) auto
  with n integer_content_ok [of "big_bytes (nat n)"]
  show "\<exists>content. bytes = encode tag_integer content \<and> int (unsigned_value content) = n \<and> content \<noteq> [] \<and> unat (hd content) < 128
         \<and> (length content = 1 \<or> content ! 0 \<noteq> 0 \<or> 128 \<le> unat (content ! 1))"
    by (intro exI [of _ ?c]) auto
next
  assume "oid dotted = Inr name"
  then obtain arcs where "oid_arcs dotted = Inr arcs" and name: "name = encode tag_oid (concat (map arc_bytes arcs))"
    by (auto simp: oid_def split: sum.splits)
  then obtain a b rest where "map decimal_value (split_on (CHR ''.'') dotted) = a # b # rest" "arcs = (a * 40 + b) # rest"
    by (auto simp: oid_arcs_def Let_def split: if_splits list.splits)
  with name read_arcs_all [of arcs]
  show "\<exists>a b rest content. map decimal_value (split_on (CHR ''.'') dotted) = a # b # rest
         \<and> name = encode tag_oid content \<and> read_arcs 0 content = (a * 40 + b) # rest"
    by (intro exI [of _ a] exI [of _ b] exI [of _ rest] exI [of _ "concat (map arc_bytes arcs)"]) simp
qed

theorem numbers_read_back_witness:
  "integer_number 200 = Inr [2, 2, 0, 200] \<and> oid ''1.2.840'' = Inr [6, 3, 42, 0x86, 0x48]
   \<and> (\<exists>content. [2, 2, 0, 200] = encode tag_integer content \<and> int (unsigned_value content) = 200)
   \<and> (\<exists>content. [6, 3, 42, 0x86, 0x48] = encode tag_oid content \<and> read_arcs 0 content = [42, 840])"
proof -
  have i: "integer_number 200 = Inr [2, 2, 0, 200]" by code_simp
  have o: "oid ''1.2.840'' = Inr [6, 3, 42, 0x86, 0x48]" by code_simp
  have parts: "map decimal_value (split_on (CHR ''.'') ''1.2.840'') = [1, 2, 840]" by code_simp
  show ?thesis
    using numbers_read_back [of 200 "[2, 2, 0, 200]" "''1.2.840''" "[6, 3, 42, 0x86, 0x48]"] i o parts
    by (intro conjI) (auto simp del: split_on.simps)
qed

end
