(* ===== verification/TlsListener.thy ===== *)
theory TlsListener
  imports AccessSettings
begin

text \<open>
  The second listener of the server: \<^verbatim>\<open>tls/tls-settings.mjs\<close> (its settings), \<^verbatim>\<open>tls/ensure-certificate.mjs\<close> (which
  strategy provides the certificate), \<^verbatim>\<open>tls/anchor.mjs\<close> (what a device must trust), \<^verbatim>\<open>tls/certificate-names.mjs\<close>
  and \<^verbatim>\<open>tls/listener.mjs\<close> (binding, failing, rotating). A strategy is what it answers for the settings; a server
  is a number; a credential is its text. Log lines are not modelled.
\<close>

section \<open>Settings\<close>

definition tls_modes :: "string list" where
  "tls_modes = [''auto'', ''mkcert'', ''provided'', ''off'']"

definition DEFAULT_TLS_PORT :: int where "DEFAULT_TLS_PORT = 4383"
definition PLAINTEXT_PORT_DEFAULT :: int where "PLAINTEXT_PORT_DEFAULT = 4382"

definition TLS_DEFAULTS :: "(string \<times> json) list" where
  "TLS_DEFAULTS = [(''mode'', JStr ''auto''), (''port'', JInt DEFAULT_TLS_PORT), (''certificatePath'', JNull), (''keyPath'', JNull),
     (''pfxPath'', JNull), (''pfxPassphrase'', JNull)]"

definition path_check :: "json option \<Rightarrow> string \<Rightarrow> checks" where
  "path_check v label =
     [(v = Some JNull \<or> is_str v \<and> str_of v \<noteq> [], label @ '' must be a string path'')]"

definition given :: "string \<Rightarrow> (string \<times> json) list \<Rightarrow> bool" where
  "given key next \<longleftrightarrow> jget next key \<noteq> Some JNull"

definition provided_checks :: "(string \<times> json) list \<Rightarrow> checks" where
  "provided_checks next =
     (let hasCertificate = given ''certificatePath'' next; hasKey = given ''keyPath'' next; hasPfx = given ''pfxPath'' next;
          hasPair = (hasCertificate \<and> hasKey)
      in [(hasCertificate = hasKey, ''Certificate and key must be provided together''),
          (hasPair \<or> hasPfx, ''Provided mode requires a certificate and key pair or a PFX file''),
          (\<not> (hasPair \<and> hasPfx), ''Provide either a certificate and key pair or a PFX file, not both''),
          (hasPfx \<or> \<not> given ''pfxPassphrase'' next, ''PFX passphrase requires a PFX file'')])"

definition tls_checks :: "int \<Rightarrow> (string \<times> json) list \<Rightarrow> checks" where
  "tls_checks plaintextPort next =
     [(is_str (jget next ''mode'') \<and> str_of (jget next ''mode'') \<in> set tls_modes, ''TLS mode must be auto, mkcert, provided or off''),
      (safe_int 1 65535 (jget next ''port''), ''TLS port must be an integer from 1 to 65535''),
      (jget next ''port'' \<noteq> Some (JInt plaintextPort), ''TLS port must not be the same as the plaintext port'')]
     @ path_check (jget next ''certificatePath'') ''Certificate path'' @ path_check (jget next ''keyPath'') ''Key path''
     @ path_check (jget next ''pfxPath'') ''PFX path''
     @ [(jget next ''pfxPassphrase'' = Some JNull \<or> is_str (jget next ''pfxPassphrase''), ''PFX passphrase must be a string'')]
     @ (if jget next ''mode'' = Some (JStr ''provided'') then provided_checks next
        else [(\<not> given ''certificatePath'' next \<and> \<not> given ''keyPath'' next \<and> \<not> given ''pfxPath'' next
                 \<and> \<not> given ''pfxPassphrase'' next, ''Certificate settings are only used in provided mode'')])"

definition validateTlsSettings :: "int \<Rightarrow> json \<Rightarrow> json result" where
  "validateTlsSettings plaintextPort v =
     (if \<not> is_plain_object v then Inl ''TLS settings must be an object''
      else if \<not> list_all (jhas TLS_DEFAULTS) (jkeys (jspread v)) then Inl ''TLS settings has unknown fields''
      else (let next = merged TLS_DEFAULTS (jspread v) in checked (tls_checks plaintextPort next) (JObj next)))"

section \<open>The certificate\<close>

record cert =
  ct_issuer :: string
  ct_subject :: string
  ct_raw :: string

datatype provision = Provisioned string "cert option" "string list" | Not_Provisioned string

text \<open>A strategy: its name, whether it is available, and what it provides when asked with \<open>force\<close> or without.\<close>

record strategy =
  sg_name :: string
  sg_isAvailable :: "json \<Rightarrow> bool"
  sg_provision :: "json \<Rightarrow> bool \<Rightarrow> provision"

record ensured =
  en_ok :: bool
  en_attempted :: bool
  en_strategy :: "string option"
  en_credential :: "string option"
  en_anchor :: "cert option"
  en_warnings :: "string list"
  en_reasons :: "(string \<times> string) list"

definition failed_report :: "bool \<Rightarrow> (string \<times> string) list \<Rightarrow> ensured" where
  "failed_report attempted reasons =
     \<lparr>en_ok = False, en_attempted = attempted, en_strategy = None, en_credential = None, en_anchor = None, en_warnings = [],
      en_reasons = reasons\<rparr>"

definition en_reason :: "ensured \<Rightarrow> string option" where
  "en_reason r =
     (if \<not> en_ok r \<and> en_attempted r
      then Some (let text = join_with ''; '' (map (\<lambda>(name, reason). name @ '': '' @ reason) (en_reasons r))
                 in if text = [] then ''no TLS provisioning strategy is available'' else text)
      else None)"

definition tls_mode :: "json \<Rightarrow> string" where
  "tls_mode settings = str_of (jfield ''mode'' settings)"

definition candidate_strategies :: "strategy list \<Rightarrow> json \<Rightarrow> strategy list" where
  "candidate_strategies strategies settings =
     (if tls_mode settings = ''provided'' \<or> tls_mode settings = ''mkcert''
      then filter (\<lambda>s. sg_name s = tls_mode settings) strategies
      else filter (\<lambda>s. sg_name s \<noteq> ''mkcert'') strategies)"

fun walk_strategies :: "json \<Rightarrow> bool \<Rightarrow> (string \<times> string) list \<Rightarrow> strategy list \<Rightarrow> ensured" where
  "walk_strategies settings force reasons [] = failed_report True reasons"
| "walk_strategies settings force reasons (s # ss) =
     (if \<not> sg_isAvailable s settings
      then walk_strategies settings force (reasons @ [(sg_name s, sg_name s @ '' is not available'')]) ss
      else (case sg_provision s settings (if sg_name s = ''provided'' then False else force) of
              Provisioned credential anchor warnings \<Rightarrow>
                \<lparr>en_ok = True, en_attempted = True, en_strategy = Some (sg_name s), en_credential = Some credential,
                 en_anchor = anchor, en_warnings = warnings, en_reasons = reasons\<rparr>
            | Not_Provisioned reason \<Rightarrow> walk_strategies settings force (reasons @ [(sg_name s, reason)]) ss))"

definition ensureCertificate :: "strategy list \<Rightarrow> json \<Rightarrow> bool \<Rightarrow> ensured" where
  "ensureCertificate strategies settings force =
     (if tls_mode settings = ''off'' then failed_report False []
      else walk_strategies settings force [] (candidate_strategies strategies settings))"

definition certificateNames :: "string list \<times> string list \<Rightarrow> bool \<Rightarrow> string list \<Rightarrow> string list \<times> string list" where
  "certificateNames local remoteAccess publicHostnames =
     (if \<not> remoteAccess then local
      else (rev (fold (\<lambda>name names. if name \<in> set names then names else name # names)
                   (filter (\<lambda>name. isIP name = 0) publicHostnames) [''localhost'']),
            rev (fold (\<lambda>name names. if name \<in> set names then names else name # names)
                   (snd local @ filter (\<lambda>name. isIP name \<noteq> 0) publicHostnames) [])))"

section \<open>What a device must trust\<close>

datatype enrolment = Required | Unknown_Enrolment | Not_Required

record served =
  sd_strategy :: string
  sd_anchor :: "cert option"

record anchor_report =
  ar_active :: bool
  ar_enrolment :: "enrolment option"
  ar_strategy :: "string option"
  ar_anchor :: "cert option"
  ar_fingerprint :: "string option"

definition anchorReport :: "(cert \<Rightarrow> string) \<Rightarrow> served option \<Rightarrow> anchor_report" where
  "anchorReport certificateFingerprint result =
     (case (case result of Some r \<Rightarrow> sd_anchor r | None \<Rightarrow> None) of
        None \<Rightarrow> \<lparr>ar_active = False, ar_enrolment = None, ar_strategy = None, ar_anchor = None, ar_fingerprint = None\<rparr>
      | Some anchor \<Rightarrow>
          \<lparr>ar_active = True,
           ar_enrolment = Some (if ct_issuer anchor \<noteq> ct_subject anchor \<and> map_option sd_strategy result = Some ''provided''
                                then Unknown_Enrolment else Required),
           ar_strategy = map_option sd_strategy result, ar_anchor = Some anchor,
           ar_fingerprint = Some (certificateFingerprint anchor)\<rparr>)"

section \<open>The listener\<close>

datatype tls_phase = Idle | Binding nat

text \<open>
  \<open>tl_runs\<close> are the attempts that wait for the one under way; \<open>tl_results\<close> what a server was created with;
  \<open>tl_contexts\<close> the credential that a server hands to clients, as the calls of \<^verbatim>\<open>createServer\<close> and
  \<^verbatim>\<open>setSecureContext\<close> have left it.
\<close>

record tls_listener =
  tl_settings :: json
  tl_server :: "nat option"
  tl_boundPort :: "int option"
  tl_runs :: "bool list"
  tl_phase :: tls_phase
  tl_closed :: bool
  tl_served :: "served option"
  tl_failure :: "string option"
  tl_created :: nat
  tl_results :: "(nat, ensured) jmap"
  tl_contexts :: "nat \<Rightarrow> served option"

definition new_tls_listener :: "json \<Rightarrow> tls_listener" where
  "new_tls_listener settings =
     \<lparr>tl_settings = settings, tl_server = None, tl_boundPort = None, tl_runs = [], tl_phase = Idle, tl_closed = False,
      tl_served = None, tl_failure = None, tl_created = 0, tl_results = [], tl_contexts = (\<lambda>_. None)\<rparr>"

definition served_of :: "ensured \<Rightarrow> served" where
  "served_of r = \<lparr>sd_strategy = (case en_strategy r of Some name \<Rightarrow> name | None \<Rightarrow> []), sd_anchor = en_anchor r\<rparr>"

definition succeeded :: "ensured \<Rightarrow> tls_listener \<Rightarrow> tls_listener" where
  "succeeded r s = s\<lparr>tl_served := Some (served_of r), tl_failure := None\<rparr>"

text \<open>\<open>refused\<close> is the error of \<^verbatim>\<open>setSecureContext\<close> or of \<^verbatim>\<open>createServer\<close>.\<close>

definition rotate_tls :: "string option \<Rightarrow> nat \<Rightarrow> ensured \<Rightarrow> tls_listener \<Rightarrow> tls_listener" where
  "rotate_tls refused n r s =
     (case refused of
        None \<Rightarrow> succeeded r (s\<lparr>tl_contexts := (tl_contexts s)(n := Some (served_of r))\<rparr>)
      | Some message \<Rightarrow> s\<lparr>tl_failure := Some (''certificate rotation failed ('' @ message @ '')'')\<rparr>)"

definition bind_tls :: "string option \<Rightarrow> ensured \<Rightarrow> tls_listener \<Rightarrow> tls_listener" where
  "bind_tls refused r s =
     (case refused of
        Some message \<Rightarrow> s\<lparr>tl_failure := Some (''the credential could not be used ('' @ message @ '')'')\<rparr>
      | None \<Rightarrow>
          (let n = tl_created s
           in s\<lparr>tl_created := n + 1, tl_results := jset n r (tl_results s),
                tl_contexts := (tl_contexts s)(n := Some (served_of r)), tl_phase := Binding n\<rparr>))"

text \<open>The next run starts: \<open>certify\<close> are the strategies, or the error of an \<^verbatim>\<open>ensureCertificate\<close> that throws.\<close>

definition run_tls :: "string + strategy list \<Rightarrow> string option \<Rightarrow> tls_listener \<Rightarrow> tls_listener" where
  "run_tls certify refused s =
     (case (tl_phase s, tl_runs s) of
        (Idle, force # runs) \<Rightarrow>
          (let s = s\<lparr>tl_runs := runs\<rparr>;
               (result, reason) = (case certify of
                   Inr strategies \<Rightarrow>
                     (let r = ensureCertificate strategies (tl_settings s) force
                      in (r, case en_reason r of Some t \<Rightarrow> t | None \<Rightarrow> ''no TLS provisioning strategy is available''))
                 | Inl message \<Rightarrow> (failed_report True [], message))
           in if \<not> en_ok result then s\<lparr>tl_failure := Some reason\<rparr>
              else (case tl_server s of
                      Some n \<Rightarrow> rotate_tls refused n result s
                    | None \<Rightarrow> bind_tls refused result s))
      | _ \<Rightarrow> s)"

definition attempt_tls :: "bool \<Rightarrow> tls_listener \<Rightarrow> tls_listener" where
  "attempt_tls force s =
     (if tl_closed s \<or> tls_mode (tl_settings s) = ''off'' then s
      else (let forced = (force \<and> tls_mode (tl_settings s) \<noteq> ''provided'')
            in if \<not> forced \<and> (tl_runs s \<noteq> [] \<or> tl_phase s \<noteq> Idle) then s
               else s\<lparr>tl_runs := tl_runs s @ [forced]\<rparr>))"

definition tls_port :: "tls_listener \<Rightarrow> string" where
  "tls_port s = dec (int_of (jfield ''port'' (tl_settings s)))"

definition listening_tls :: "nat \<Rightarrow> int \<Rightarrow> tls_listener \<Rightarrow> tls_listener" where
  "listening_tls n port s =
     (if tl_phase s \<noteq> Binding n then s
      else (let s = s\<lparr>tl_phase := Idle\<rparr>
            in if tl_closed s then s
               else (case jget (tl_results s) n of
                       Some r \<Rightarrow> succeeded r (s\<lparr>tl_server := Some n, tl_boundPort := Some port\<rparr>)
                     | None \<Rightarrow> s)))"

text \<open>An error that \<^verbatim>\<open>listen\<close> throws, and one that the server reports while it binds or later.\<close>

definition listen_throws :: "nat \<Rightarrow> string \<Rightarrow> tls_listener \<Rightarrow> tls_listener" where
  "listen_throws n message s =
     (if tl_phase s \<noteq> Binding n then s
      else s\<lparr>tl_phase := Idle, tl_failure := Some (''listener error on port '' @ tls_port s @ '' ('' @ message @ '')'')\<rparr>)"

definition server_error :: "nat \<Rightarrow> string \<Rightarrow> string \<Rightarrow> tls_listener \<Rightarrow> tls_listener" where
  "server_error n errorCode message s =
     (let s = (if tl_server s = Some n then s\<lparr>tl_server := None, tl_boundPort := None, tl_served := None\<rparr> else s)
      in s\<lparr>tl_phase := (if tl_phase s = Binding n then Idle else tl_phase s),
           tl_failure := Some (if errorCode = ''EADDRINUSE'' then ''port '' @ tls_port s @ '' is already in use''
             else ''listener error on port '' @ tls_port s @ '' ('' @ message @ '')'')\<rparr>)"

definition close_tls :: "tls_listener \<Rightarrow> tls_listener" where
  "close_tls s = s\<lparr>tl_closed := True, tl_served := None, tl_server := None, tl_boundPort := None\<rparr>"

definition tls_status :: "tls_listener \<Rightarrow> bool \<times> int option" where
  "tls_status s = (tl_server s \<noteq> None, tl_boundPort s)"

definition tls_report :: "(cert \<Rightarrow> string) \<Rightarrow> tls_listener \<Rightarrow> anchor_report \<times> string option" where
  "tls_report certificateFingerprint s = (anchorReport certificateFingerprint (tl_served s), tl_failure s)"

datatype tls_event =
    Attempt bool
  | Run_Starts "string + strategy list" "string option"
  | Now_Listening nat int
  | Listen_Throws nat string
  | Server_Error nat string string
  | Close_Tls

fun tls_step :: "tls_listener \<Rightarrow> tls_event \<Rightarrow> tls_listener" where
  "tls_step s (Attempt force) = attempt_tls force s"
| "tls_step s (Run_Starts certify refused) = run_tls certify refused s"
| "tls_step s (Now_Listening n port) = listening_tls n port s"
| "tls_step s (Listen_Throws n message) = listen_throws n message s"
| "tls_step s (Server_Error n errorCode message) = server_error n errorCode message s"
| "tls_step s Close_Tls = close_tls s"

section \<open>Lemmas\<close>

text \<open>What is described is what is handed out.\<close>

definition tls_ok :: "tls_listener \<Rightarrow> bool" where
  "tls_ok s \<longleftrightarrow>
     (tl_server s = None \<and> tl_served s = None \<and> tl_boundPort s = None
      \<or> (\<exists>n v port. tl_server s = Some n \<and> tl_served s = Some v \<and> tl_contexts s n = Some v \<and> tl_boundPort s = Some port
           \<and> \<not> tl_closed s))
     \<and> (\<forall>n. tl_phase s = Binding n \<longrightarrow> tl_server s = None
           \<and> (\<exists>r. jget (tl_results s) n = Some r \<and> tl_contexts s n = Some (served_of r)))"

lemma run_tls_ok:
  assumes "tls_ok s"
  shows "tls_ok (run_tls certify refused s)"
proof (cases "tl_phase s = Idle \<and> tl_runs s \<noteq> []")
  case True
  then obtain force runs where runs: "tl_phase s = Idle" "tl_runs s = force # runs" by (cases "tl_runs s") auto
  have rotated: "tls_ok (rotate_tls refused n r (s\<lparr>tl_runs := runs\<rparr>))" if "tl_server s = Some n" for n r
    using assms runs(1) that by (auto simp: tls_ok_def rotate_tls_def succeeded_def split: option.splits)
  have bound: "tls_ok (bind_tls refused r (s\<lparr>tl_runs := runs\<rparr>))" if "tl_server s = None" for r
    using assms runs(1) that by (auto simp: tls_ok_def bind_tls_def Let_def split: option.splits)
  have failed: "tls_ok (s\<lparr>tl_runs := runs, tl_failure := f\<rparr>)" for f
    using assms runs(1) by (simp add: tls_ok_def split: option.splits)
  show ?thesis
    using runs rotated bound failed by (simp add: run_tls_def Let_def split: option.split prod.split sum.split)
next
  case False
  then show ?thesis using assms by (auto simp: run_tls_def split: tls_phase.splits list.splits)
qed

lemma listening_ok: "tls_ok s \<Longrightarrow> tls_ok (listening_tls n port s)"
  by (auto simp: listening_tls_def succeeded_def Let_def tls_ok_def)

lemma error_ok: "tls_ok s \<Longrightarrow> tls_ok (server_error n c m s)"
  by (auto simp: server_error_def Let_def tls_ok_def)

lemma tls_step_ok: "tls_ok s \<Longrightarrow> tls_ok (tls_step s e)"
proof (cases e)
  case (Attempt force)
  assume "tls_ok s"
  with Attempt show ?thesis by (auto simp: attempt_tls_def tls_ok_def Let_def)
next
  case (Run_Starts certify refused)
  assume "tls_ok s"
  with Run_Starts show ?thesis by (simp add: run_tls_ok)
next
  case (Listen_Throws n m)
  assume "tls_ok s"
  with Listen_Throws show ?thesis by (auto simp: listen_throws_def tls_ok_def)
next
  case Close_Tls
  assume "tls_ok s"
  with Close_Tls show ?thesis by (auto simp: close_tls_def tls_ok_def)
qed (simp_all add: listening_ok error_ok)

interpretation tls_listeners: step_system tls_step tls_ok
  by unfold_locales (rule tls_step_ok)

lemma tls_run_ok: "tls_ok (run tls_step (new_tls_listener settings) es)"
  by (rule tls_listeners.run_inv) (simp add: tls_ok_def new_tls_listener_def)

lemma walk_won:
  "en_ok (walk_strategies settings force reasons ss) \<Longrightarrow>
     \<exists>s \<in> set ss. en_strategy (walk_strategies settings force reasons ss) = Some (sg_name s) \<and> sg_isAvailable s settings
       \<and> (\<exists>c a w. sg_provision s settings (sg_name s \<noteq> ''provided'' \<and> force) = Provisioned c a w
            \<and> en_credential (walk_strategies settings force reasons ss) = Some c
            \<and> en_anchor (walk_strategies settings force reasons ss) = a)"
  by (induction settings force reasons ss rule: walk_strategies.induct)
    (auto simp: failed_report_def split: provision.splits if_splits)

section \<open>Properties\<close>

lemma first_error_one: "first_error ((fine, message) # cs) = None \<longleftrightarrow> fine \<and> first_error cs = None"
  by simp

lemma path_checked: "first_error (path_check v l) = None \<Longrightarrow> v = Some JNull \<or> (\<exists>t. v = Some (JStr t) \<and> t \<noteq> [])"
  by (auto simp: path_check_def is_str_def str_of_def split: if_splits option.splits json.splits)

lemma list_by_keys:
  assumes "map fst m = [a, b, c, d, e, f]" "distinct [a, b, c, d, e, f]"
  shows "\<exists>u v w x y z. m = [(a, u), (b, v), (c, w), (d, x), (e, y), (f, z)]"
  using assms(1) by (auto simp: map_eq_Cons_conv)

text \<open>
  C32: settings that validate are well formed. They are exactly the six fields, a known mode, a port from 1 to 65535 that is not
  the plaintext one, and the files as the mode needs them: in mode \<open>provided\<close> the paths of a certificate and its key, without
  a passphrase, or the path of a PFX file, with or without one, never both; in any other mode none of them. And
  each field that was given is kept, each other one is the default.
\<close>

theorem tls_settings_typed:
  assumes "validateTlsSettings plaintextPort v = Inr s"
  shows "\<exists>mode port cert key pfx passphrase.
    s = JObj [(''mode'', JStr mode), (''port'', JInt port), (''certificatePath'', cert), (''keyPath'', key), (''pfxPath'', pfx),
          (''pfxPassphrase'', passphrase)]
    \<and> mode \<in> {''auto'', ''mkcert'', ''provided'', ''off''} \<and> 1 \<le> port \<and> port \<le> 65535 \<and> port \<noteq> plaintextPort
    \<and> (if mode = ''provided''
       then (\<exists>c k. cert = JStr c \<and> key = JStr k \<and> c \<noteq> [] \<and> k \<noteq> [] \<and> pfx = JNull \<and> passphrase = JNull)
         \<or> (\<exists>x. cert = JNull \<and> key = JNull \<and> pfx = JStr x \<and> x \<noteq> [] \<and> (passphrase = JNull \<or> (\<exists>w. passphrase = JStr w)))
       else cert = JNull \<and> key = JNull \<and> pfx = JNull \<and> passphrase = JNull)
    \<and> (jmap_ok (jspread v) \<longrightarrow> (\<forall>k. jfield k s = (case jget (jspread v) k of Some x \<Rightarrow> Some x | None \<Rightarrow> jget TLS_DEFAULTS k)))"
proof -
  let ?m = "merged TLS_DEFAULTS (jspread v)"
  from assms have keys: "set (jkeys (jspread v)) \<subseteq> set (jkeys TLS_DEFAULTS)" and s: "s = JObj ?m"
    and ok: "first_error (tls_checks plaintextPort ?m) = None"
    by (auto simp: validateTlsSettings_def Let_def checked_Inr list_all_iff jhas_iff split: if_splits)
  have six: "jkeys ?m = jkeys TLS_DEFAULTS" using keys by (intro fold_jset_keys) auto
  then have "\<exists>u v w x y z. ?m = [(''mode'', u), (''port'', v), (''certificatePath'', w), (''keyPath'', x), (''pfxPath'', y), (''pfxPassphrase'', z)]"
    by (intro list_by_keys) (simp_all add: TLS_DEFAULTS_def)
  then obtain mode port cert key pfx pass where m: "?m = [(''mode'', mode), (''port'', port), (''certificatePath'', cert), (''keyPath'', key),
      (''pfxPath'', pfx), (''pfxPassphrase'', pass)]" by blast
  have get: "jget ?m ''mode'' = Some mode" "jget ?m ''port'' = Some port" "jget ?m ''certificatePath'' = Some cert"
    "jget ?m ''keyPath'' = Some key" "jget ?m ''pfxPath'' = Some pfx" "jget ?m ''pfxPassphrase'' = Some pass"
    by (simp_all add: m)
  have mode: "is_str (Some mode)" "str_of (Some mode) \<in> set tls_modes"
    and port: "safe_int 1 65535 (Some port)" "Some port \<noteq> Some (JInt plaintextPort)"
    and paths: "first_error (path_check (Some cert) ''Certificate path'') = None" "first_error (path_check (Some key) ''Key path'') = None"
      "first_error (path_check (Some pfx) ''PFX path'') = None"
    and pass: "Some pass = Some JNull \<or> is_str (Some pass)"
    and rest: "first_error (if Some mode = Some (JStr ''provided'') then provided_checks ?m
        else [(\<not> given ''certificatePath'' ?m \<and> \<not> given ''keyPath'' ?m \<and> \<not> given ''pfxPath'' ?m
                 \<and> \<not> given ''pfxPassphrase'' ?m, ''Certificate settings are only used in provided mode'')]) = None"
    using ok by (simp_all only: tls_checks_def first_error_pair first_error_one get append_Cons append_Nil not_False_eq_True)
  obtain mo where mo: "mode = JStr mo" "mo \<in> {''auto'', ''mkcert'', ''provided'', ''off''}"
    using mode by (auto simp: is_str_def str_of_def tls_modes_def split: json.splits)
  obtain po where po: "port = JInt po" "1 \<le> po" "po \<le> 65535" "po \<noteq> plaintextPort"
    using safe_intD [OF port(1)] port(2) by auto
  have is_given: "given ''certificatePath'' ?m = (cert \<noteq> JNull)" "given ''keyPath'' ?m = (key \<noteq> JNull)" "given ''pfxPath'' ?m = (pfx \<noteq> JNull)"
    "given ''pfxPassphrase'' ?m = (pass \<noteq> JNull)" by (simp_all add: given_def get)
  have files: "if mo = ''provided''
       then (\<exists>c k. cert = JStr c \<and> key = JStr k \<and> c \<noteq> [] \<and> k \<noteq> [] \<and> pfx = JNull \<and> pass = JNull)
         \<or> (\<exists>x. cert = JNull \<and> key = JNull \<and> pfx = JStr x \<and> x \<noteq> [] \<and> (pass = JNull \<or> (\<exists>w. pass = JStr w)))
       else cert = JNull \<and> key = JNull \<and> pfx = JNull \<and> pass = JNull"
  proof (cases "mo = ''provided''")
    case True
    have word: "pass = JNull \<or> (\<exists>w. pass = JStr w)" using pass by (auto simp: is_str_def split: json.splits)
    from rest True have "(cert \<noteq> JNull) = (key \<noteq> JNull)" "cert \<noteq> JNull \<and> key \<noteq> JNull \<or> pfx \<noteq> JNull"
      "\<not> ((cert \<noteq> JNull \<and> key \<noteq> JNull) \<and> pfx \<noteq> JNull)" "pfx \<noteq> JNull \<or> pass = JNull"
      by (auto simp add: mo provided_checks_def is_given Let_def split: if_split_asm)
    then show ?thesis using True word path_checked [OF paths(1)] path_checked [OF paths(2)] path_checked [OF paths(3)] by auto
  next
    case False
    then show ?thesis using rest by (simp add: mo is_given split: if_split_asm)
  qed
  have kept: "jfield k s = (case jget (jspread v) k of Some x \<Rightarrow> Some x | None \<Rightarrow> jget TLS_DEFAULTS k)" if "jmap_ok (jspread v)" for k
  proof (cases "jget (jspread v) k")
    case None
    then have "k \<notin> fst ` set (jspread v)" by (simp add: map_of_eq_None_iff)
    then show ?thesis using None merged_get_notin [of k "jspread v" TLS_DEFAULTS] by (simp add: s)
  next
    case (Some x)
    then show ?thesis using merged_get [OF that Some, of TLS_DEFAULTS] by (simp add: s)
  qed
  have whole: "s = JObj [(''mode'', JStr mo), (''port'', JInt po), (''certificatePath'', cert), (''keyPath'', key), (''pfxPath'', pfx),
      (''pfxPassphrase'', pass)]" using s m mo(1) po(1) by simp
  show ?thesis
    by (rule exI [of _ mo], rule exI [of _ po], rule exI [of _ cert], rule exI [of _ key], rule exI [of _ pfx], rule exI [of _ pass],
        intro conjI impI allI) (fact whole mo(2) po(2-4) files | rule kept, assumption)+
qed

theorem tls_settings_typed_witness:
  "validateTlsSettings 4382 (JObj [(''mode'', JStr ''provided''), (''pfxPath'', JStr ''a.pfx'')]) =
      Inr (JObj [(''mode'', JStr ''provided''), (''port'', JInt 4383), (''certificatePath'', JNull), (''keyPath'', JNull),
        (''pfxPath'', JStr ''a.pfx''), (''pfxPassphrase'', JNull)])
   \<and> (\<exists>mode port cert key pfx passphrase.
        JObj [(''mode'', JStr ''provided''), (''port'', JInt 4383), (''certificatePath'', JNull), (''keyPath'', JNull),
          (''pfxPath'', JStr ''a.pfx''), (''pfxPassphrase'', JNull)]
        = JObj [(''mode'', JStr mode), (''port'', JInt port), (''certificatePath'', cert), (''keyPath'', key), (''pfxPath'', pfx),
          (''pfxPassphrase'', passphrase)] \<and> 1 \<le> port \<and> port \<le> 65535)"
proof -
  have "validateTlsSettings 4382 (JObj [(''mode'', JStr ''provided''), (''pfxPath'', JStr ''a.pfx'')]) =
      Inr (JObj [(''mode'', JStr ''provided''), (''port'', JInt 4383), (''certificatePath'', JNull), (''keyPath'', JNull),
        (''pfxPath'', JStr ''a.pfx''), (''pfxPassphrase'', JNull)])" by code_simp
  with tls_settings_typed [OF this] show ?thesis by blast
qed

text \<open>
  C23: the report never describes a certificate that no client is handed. After any attempts, failed or
  forced, rotations, server errors and closes, in any order, what the listener describes as served is the
  credential that its bound server hands out now; with no bound server it describes nothing and is not
  active, and a closed listener stays so.
\<close>

theorem report_is_served:
  "tl_served (run tls_step (new_tls_listener settings) es)
     = (case tl_server (run tls_step (new_tls_listener settings) es) of
          None \<Rightarrow> None | Some n \<Rightarrow> tl_contexts (run tls_step (new_tls_listener settings) es) n)
   \<and> (fst (tls_status (run tls_step (new_tls_listener settings) es))
        \<longleftrightarrow> tl_served (run tls_step (new_tls_listener settings) es) \<noteq> None)
   \<and> \<not> (tl_closed (run tls_step (new_tls_listener settings) es) \<and> fst (tls_status (run tls_step (new_tls_listener settings) es)))"
  using tls_run_ok [of settings es] by (auto simp: tls_ok_def tls_status_def)

text \<open>
  C24: an operator's certificate is never replaced. In mode \<open>provided\<close> a certificate that is served was loaded by the
  strategy of that name, asked without \<open>force\<close>; in mode \<open>mkcert\<close> it comes from mkcert, in any other mode never; and
  with TLS off nothing is attempted.
\<close>

theorem provided_not_replaced:
  assumes "en_ok (ensureCertificate strategies settings force)"
  shows "\<exists>s \<in> set strategies. en_strategy (ensureCertificate strategies settings force) = Some (sg_name s)
      \<and> (\<exists>c a w. sg_provision s settings (sg_name s \<noteq> ''provided'' \<and> force) = Provisioned c a w
           \<and> en_credential (ensureCertificate strategies settings force) = Some c)
      \<and> (tls_mode settings = ''provided'' \<longrightarrow> sg_name s = ''provided'')
      \<and> (tls_mode settings = ''mkcert'' \<longleftrightarrow> sg_name s = ''mkcert'')
      \<and> tls_mode settings \<noteq> ''off''"
proof -
  have on: "tls_mode settings \<noteq> ''off''" using assms by (auto simp: ensureCertificate_def failed_report_def)
  with assms have won: "en_ok (walk_strategies settings force [] (candidate_strategies strategies settings))"
    by (simp add: ensureCertificate_def)
  let ?r = "walk_strategies settings force [] (candidate_strategies strategies settings)"
  have same: "ensureCertificate strategies settings force = ?r" using on by (simp add: ensureCertificate_def)
  from walk_won [OF won] obtain s where s: "s \<in> set (candidate_strategies strategies settings)" "en_strategy ?r = Some (sg_name s)"
    and c: "\<exists>c a w. sg_provision s settings (sg_name s \<noteq> ''provided'' \<and> force) = Provisioned c a w \<and> en_credential ?r = Some c"
    by blast
  have "s \<in> set strategies" "tls_mode settings = ''provided'' \<longrightarrow> sg_name s = ''provided''"
    "tls_mode settings = ''mkcert'' \<longleftrightarrow> sg_name s = ''mkcert''"
    using s(1) by (auto simp: candidate_strategies_def split: if_splits)
  with s(2) c on show ?thesis unfolding same by blast
qed

definition sample_strategies :: "strategy list" where
  "sample_strategies =
     [\<lparr>sg_name = ''provided'', sg_isAvailable = (\<lambda>_. True), sg_provision = (\<lambda>_ _. Not_Provisioned ''expired'')\<rparr>,
      \<lparr>sg_name = ''self-signed'', sg_isAvailable = (\<lambda>_. True), sg_provision = (\<lambda>_ _. Provisioned ''key'' None [])\<rparr>]"

theorem provided_not_replaced_witness:
  "en_strategy (ensureCertificate sample_strategies (JObj [(''mode'', JStr ''auto'')]) False) = Some ''self-signed''
   \<and> \<not> en_ok (ensureCertificate sample_strategies (JObj [(''mode'', JStr ''provided'')]) True)
   \<and> (\<exists>s \<in> set sample_strategies. en_strategy (ensureCertificate sample_strategies (JObj [(''mode'', JStr ''auto'')]) False)
        = Some (sg_name s))"
proof -
  have "en_ok (ensureCertificate sample_strategies (JObj [(''mode'', JStr ''auto'')]) False)" by code_simp
  from provided_not_replaced [OF this]
  have "\<exists>s \<in> set sample_strategies. en_strategy (ensureCertificate sample_strategies (JObj [(''mode'', JStr ''auto'')]) False)
      = Some (sg_name s)" by blast
  moreover have "en_strategy (ensureCertificate sample_strategies (JObj [(''mode'', JStr ''auto'')]) False) = Some ''self-signed''"
    "\<not> en_ok (ensureCertificate sample_strategies (JObj [(''mode'', JStr ''provided'')]) True)"
    by code_simp+
  ultimately show ?thesis by blast
qed

end
