(* ===== verification/LanListeners.thy ===== *)
theory LanListeners
  imports LocalScope
begin

text \<open>
  \<^verbatim>\<open>apps/server/src/lan-http-listeners.mjs\<close>: the plaintext listeners, on the loopback addresses and on the private
  addresses that the local-session scope names. Operations run one after another from a queue; each is one
  step, since what the others may change while it runs (\<^verbatim>\<open>closed\<close>) is read only at its start. Binding an address
  succeeds or fails as \<open>refused\<close> says. \<^verbatim>\<open>localhost\<close> is always wanted.
\<close>

section \<open>Which addresses\<close>

text \<open>\<^verbatim>\<open>/^f[cd][0-9a-f]{2}:/i\<close>\<close>

definition unique_local_text :: "string \<Rightarrow> bool" where
  "unique_local_text s \<longleftrightarrow>
     (case s of a # b # c # d # e # _ \<Rightarrow>
        a \<in> {CHR ''f'', CHR ''F''} \<and> b \<in> {CHR ''c'', CHR ''C'', CHR ''d'', CHR ''D''} \<and> is_hex c \<and> is_hex d \<and> e = CHR '':''
      | _ \<Rightarrow> False)"

definition privateHostAddress :: "string \<Rightarrow> bool" where
  "privateHostAddress address \<longleftrightarrow>
     CHR ''%'' \<notin> set address
     \<and> (if isIP address = 4
        then (case map (number_in 10) (split_on (CHR ''.'') address) of
                first # second # _ \<Rightarrow> first = 10 \<or> first = 172 \<and> 16 \<le> second \<and> second \<le> 31 \<or> first = 192 \<and> second = 168
              | _ \<Rightarrow> False)
        else isIP address = 6 \<and> unique_local_text address)"

definition normalizedPreference :: "string option \<Rightarrow> string" where
  "normalizedPreference v =
     (case v of
        None \<Rightarrow> ''0.0.0.0''
      | Some s \<Rightarrow>
          unbracket (js_trim s))"

definition desiredHttpAddresses :: "string list \<Rightarrow> string option \<Rightarrow> string list" where
  "desiredHttpAddresses bindAddresses hostPreference =
     (let preference = normalizedPreference hostPreference;
          eligible = remdups_first (filter privateHostAddress bindAddresses);
          permitted = (if preference \<in> {''0.0.0.0'', ''::''} then eligible else filter (\<lambda>address. address = preference) eligible)
      in [''127.0.0.1'', ''::1''] @ permitted)"

section \<open>State\<close>

datatype lan_op = Synchronize | Close_All

record lan_listeners =
  ll_preference :: "string option"
  ll_bound :: "string list"
  ll_queue :: "lan_op list"
  ll_started :: bool
  ll_closed :: bool
  ll_warned :: "string option"
  ll_log :: "string list"

definition createLanHttpListeners :: "string option \<Rightarrow> lan_listeners" where
  "createLanHttpListeners hostPreference =
     \<lparr>ll_preference = hostPreference, ll_bound = [], ll_queue = [], ll_started = False, ll_closed = False, ll_warned = None, ll_log = []\<rparr>"

section \<open>Operations\<close>

text \<open>\<^verbatim>\<open>bound\<close> is a map in the order of binding; what it maps to is the server of the address.\<close>

definition stopHost :: "string \<Rightarrow> lan_listeners \<Rightarrow> lan_listeners" where
  "stopHost host s = s\<lparr>ll_bound := filter (\<lambda>h. h \<noteq> host) (ll_bound s)\<rparr>"

text \<open>The connections that a bound server accepts: those the scope allows; a scope that throws allows none.\<close>

definition accepts_peer :: "scope \<Rightarrow> string option \<Rightarrow> bool" where
  "accepts_peer scope remoteAddress = (case scope_allows scope remoteAddress ''local'' of Inr b \<Rightarrow> b | Inl _ \<Rightarrow> False)"

definition bindHost :: "(string \<Rightarrow> string option) \<Rightarrow> string \<Rightarrow> lan_listeners \<Rightarrow> lan_listeners" where
  "bindHost refused host s =
     (case refused host of
        None \<Rightarrow> s\<lparr>ll_bound := add_new host (ll_bound s)\<rparr>
      | Some message \<Rightarrow> s\<lparr>ll_log := ll_log s @ [''Warning: local HTTP could not bind '' @ host @ '': '' @ message]\<rparr>)"

definition warn_preference :: "string list \<Rightarrow> lan_listeners \<Rightarrow> lan_listeners" where
  "warn_preference wanted s =
     (let preference = normalizedPreference (ll_preference s)
      in if preference \<notin> {''0.0.0.0'', ''::'', ''127.0.0.1'', ''::1'', ''localhost''} \<and> preference \<notin> set wanted
            \<and> ll_warned s \<noteq> Some preference
         then s\<lparr>ll_log := ll_log s @ [''Warning: HTTP bind preference '' @ preference
                  @ '' is not an eligible Private LAN address; HTTP is loopback-only.''], ll_warned := Some preference\<rparr>
         else s)"

fun stop_unwanted :: "string list \<Rightarrow> string list \<Rightarrow> lan_listeners \<Rightarrow> lan_listeners" where
  "stop_unwanted wanted [] s = s"
| "stop_unwanted wanted (host # hosts) s = stop_unwanted wanted hosts (if host \<in> set wanted then s else stopHost host s)"

fun bind_missing :: "(string \<Rightarrow> string option) \<Rightarrow> string list \<Rightarrow> lan_listeners \<Rightarrow> lan_listeners" where
  "bind_missing refused [] s = s"
| "bind_missing refused (host # hosts) s =
     bind_missing refused hosts (if host \<in> set (ll_bound s) then s else bindHost refused host s)"

text \<open>The result is the error that is thrown when the first loopback address cannot be bound.\<close>

definition synchronize :: "string list \<Rightarrow> (string \<Rightarrow> string option) \<Rightarrow> lan_listeners \<Rightarrow> string option \<times> lan_listeners" where
  "synchronize bindAddresses refused s =
     (if ll_closed s then (None, s)
      else (let wanted = desiredHttpAddresses bindAddresses (ll_preference s); s = warn_preference wanted s
            in case (if ''127.0.0.1'' \<in> set (ll_bound s) then None else refused ''127.0.0.1'') of
                 Some message \<Rightarrow> (Some message, s)
               | None \<Rightarrow>
                   (let s = s\<lparr>ll_bound := add_new ''127.0.0.1'' (ll_bound s)\<rparr>;
                        s = stop_unwanted wanted (ll_bound s) s
                    in (None, bind_missing refused wanted s))))"

definition close_all :: "lan_listeners \<Rightarrow> lan_listeners" where
  "close_all s = stop_unwanted [] (ll_bound s) s"

definition call_start :: "lan_listeners \<Rightarrow> string option \<times> lan_listeners" where
  "call_start s =
     (if ll_closed s then (Some ''LAN HTTP listeners are closed'', s)
      else (None, s\<lparr>ll_started := True, ll_queue := ll_queue s @ [Synchronize]\<rparr>))"

definition call_reconcile :: "lan_listeners \<Rightarrow> string option \<times> lan_listeners" where
  "call_reconcile s =
     (if \<not> ll_started s then (Some ''LAN HTTP listeners have not started'', s)
      else (None, s\<lparr>ll_queue := ll_queue s @ [Synchronize]\<rparr>))"

definition call_close :: "lan_listeners \<Rightarrow> lan_listeners" where
  "call_close s = s\<lparr>ll_closed := True, ll_queue := ll_queue s @ [Close_All]\<rparr>"

definition run_lan_op :: "string list \<Rightarrow> (string \<Rightarrow> string option) \<Rightarrow> lan_listeners \<Rightarrow> lan_listeners" where
  "run_lan_op bindAddresses refused s =
     (case ll_queue s of
        [] \<Rightarrow> s
      | Synchronize # queue \<Rightarrow> snd (synchronize bindAddresses refused (s\<lparr>ll_queue := queue\<rparr>))
      | Close_All # queue \<Rightarrow> close_all (s\<lparr>ll_queue := queue\<rparr>))"

datatype lan_event = Start_Lan | Reconcile_Lan | Close_Lan | Run_Lan "string list" "string \<Rightarrow> string option"

fun lan_step :: "lan_listeners \<Rightarrow> lan_event \<Rightarrow> lan_listeners" where
  "lan_step s Start_Lan = snd (call_start s)"
| "lan_step s Reconcile_Lan = snd (call_reconcile s)"
| "lan_step s Close_Lan = call_close s"
| "lan_step s (Run_Lan bindAddresses refused) = run_lan_op bindAddresses refused s"

section \<open>Lemmas\<close>

definition loopback_hosts :: "string set" where
  "loopback_hosts = {''127.0.0.1'', ''::1''}"

definition permitted_hosts :: "string option \<Rightarrow> string set" where
  "permitted_hosts hostPreference =
     loopback_hosts \<union> {a. privateHostAddress a
       \<and> (normalizedPreference hostPreference \<in> {''0.0.0.0'', ''::''} \<or> a = normalizedPreference hostPreference)}"

lemma desired_permitted: "set (desiredHttpAddresses bindAddresses p) \<subseteq> permitted_hosts p \<inter> (loopback_hosts \<union> set bindAddresses)"
  by (auto simp: desiredHttpAddresses_def Let_def permitted_hosts_def loopback_hosts_def remdups_first_def)

lemma warn_rest [simp]:
  "ll_bound (warn_preference w s) = ll_bound s" "ll_preference (warn_preference w s) = ll_preference s"
  "ll_closed (warn_preference w s) = ll_closed s" "ll_queue (warn_preference w s) = ll_queue s"
  by (simp_all add: warn_preference_def Let_def)

lemma stop_simps [simp]:
  "ll_bound (stopHost h s) = filter (\<lambda>x. x \<noteq> h) (ll_bound s)" "ll_preference (stopHost h s) = ll_preference s"
  "ll_closed (stopHost h s) = ll_closed s" "ll_queue (stopHost h s) = ll_queue s"
  by (simp_all add: stopHost_def)

lemma bind_simps [simp]:
  "set (ll_bound (bindHost refused h s)) = set (ll_bound s) \<union> (if refused h = None then {h} else {})"
  "ll_preference (bindHost refused h s) = ll_preference s" "ll_closed (bindHost refused h s) = ll_closed s"
  "ll_queue (bindHost refused h s) = ll_queue s"
  by (auto simp: bindHost_def split: option.splits)

lemma stop_unwanted_rest [simp]:
  "ll_preference (stop_unwanted wanted hosts s) = ll_preference s" "ll_closed (stop_unwanted wanted hosts s) = ll_closed s"
  "ll_queue (stop_unwanted wanted hosts s) = ll_queue s"
  by (induction wanted hosts s rule: stop_unwanted.induct) simp_all

lemma stop_unwanted_bound:
  "set (ll_bound (stop_unwanted wanted hosts s)) = {h \<in> set (ll_bound s). h \<in> set wanted \<or> h \<notin> set hosts}"
  by (induction wanted hosts s rule: stop_unwanted.induct) auto

lemma bind_missing_rest [simp]:
  "ll_preference (bind_missing refused hosts s) = ll_preference s" "ll_closed (bind_missing refused hosts s) = ll_closed s"
  "ll_queue (bind_missing refused hosts s) = ll_queue s"
  by (induction refused hosts s rule: bind_missing.induct) simp_all

lemma bind_missing_bound:
  "set (ll_bound (bind_missing refused hosts s)) = set (ll_bound s) \<union> {h \<in> set hosts. refused h = None}"
  by (induction refused hosts s rule: bind_missing.induct) auto

lemma close_bound: "ll_bound (close_all s) = []"
  using stop_unwanted_bound [of "[]" "ll_bound s" s] by (auto simp: close_all_def)

lemma close_rest [simp]:
  "ll_preference (close_all s) = ll_preference s" "ll_closed (close_all s) = ll_closed s" "ll_queue (close_all s) = ll_queue s"
  by (simp_all add: close_all_def)

lemma synchronize_rest:
  "ll_preference (snd (synchronize B refused s)) = ll_preference s" "ll_closed (snd (synchronize B refused s)) = ll_closed s"
  "ll_queue (snd (synchronize B refused s)) = ll_queue s"
  by (simp_all add: synchronize_def Let_def split: option.split)

lemma synchronize_bound:
  "fst (synchronize B refused s) = None \<Longrightarrow> \<not> ll_closed s \<Longrightarrow>
     set (ll_bound (snd (synchronize B refused s))) \<subseteq> set (desiredHttpAddresses B (ll_preference s))"
  by (auto simp: synchronize_def Let_def stop_unwanted_bound bind_missing_bound desiredHttpAddresses_def split: option.splits)

lemma synchronize_kept:
  "fst (synchronize B refused s) \<noteq> None \<or> ll_closed s \<Longrightarrow> ll_bound (snd (synchronize B refused s)) = ll_bound s"
  by (auto simp: synchronize_def Let_def split: option.splits if_splits)

definition lan_ok :: "string option \<Rightarrow> lan_listeners \<Rightarrow> bool" where
  "lan_ok p s \<longleftrightarrow> ll_preference s = p \<and> set (ll_bound s) \<subseteq> permitted_hosts p
     \<and> (ll_closed s \<longrightarrow> Close_All \<in> set (ll_queue s) \<or> ll_bound s = [])"

lemma synchronize_ok: "lan_ok p s \<Longrightarrow> lan_ok p (snd (synchronize B refused s))"
proof (cases "fst (synchronize B refused s) \<noteq> None \<or> ll_closed s")
  case True
  assume "lan_ok p s"
  with synchronize_kept [OF True] show ?thesis by (simp add: lan_ok_def synchronize_rest)
next
  case False
  assume "lan_ok p s"
  with synchronize_bound [of B refused s] False desired_permitted [of B p] show ?thesis
    by (auto simp: lan_ok_def synchronize_rest)
qed

lemma lan_step_ok: "lan_ok p s \<Longrightarrow> lan_ok p (lan_step s e)"
proof (cases e)
  case (Run_Lan B refused)
  assume ok: "lan_ok p s"
  show ?thesis
  proof (cases "ll_queue s")
    case (Cons c queue)
    show ?thesis
    proof (cases c)
      case Synchronize
      with ok Cons have "lan_ok p (s\<lparr>ll_queue := queue\<rparr>)" by (auto simp: lan_ok_def)
      from synchronize_ok [OF this] Synchronize Cons Run_Lan show ?thesis by (simp add: run_lan_op_def)
    next
      case Close_All
      with ok Cons Run_Lan show ?thesis by (simp add: run_lan_op_def lan_ok_def close_bound)
    qed
  qed (use ok Run_Lan in \<open>simp add: run_lan_op_def\<close>)
qed (auto simp: call_start_def call_reconcile_def call_close_def lan_ok_def)

interpretation lan_http: step_system lan_step "lan_ok p"
  by unfold_locales (rule lan_step_ok)

section \<open>Properties\<close>

text \<open>
  C16: plaintext stays on this PC and its private network. In every sequence of starts, reconciliations, closes
  and runs, whatever the scope names and whichever binds fail, only the loopback addresses and private
  addresses that the preference permits are bound; a reconciliation that succeeds leaves none that the
  scope no longer names; and once a close has run, none is bound again.
\<close>

theorem http_stays_private:
  assumes "s = run lan_step (createLanHttpListeners p) es"
  shows "set (ll_bound s) \<subseteq> permitted_hosts p
    \<and> (fst (synchronize bindAddresses refused s) = None \<and> \<not> ll_closed s \<longrightarrow>
         set (ll_bound (snd (synchronize bindAddresses refused s))) \<subseteq> permitted_hosts p \<inter> (loopback_hosts \<union> set bindAddresses))
    \<and> (ll_closed s \<and> ll_queue s = [] \<longrightarrow> ll_bound s = [])"
proof -
  have "lan_ok p (createLanHttpListeners p)" by (simp add: lan_ok_def createLanHttpListeners_def)
  from lan_http.run_inv [OF this, of es] have ok: "lan_ok p s" by (simp add: assms)
  with synchronize_bound [of bindAddresses refused s] desired_permitted [of bindAddresses p]
  have "set (ll_bound (snd (synchronize bindAddresses refused s))) \<subseteq> permitted_hosts p \<inter> (loopback_hosts \<union> set bindAddresses)"
    if "fst (synchronize bindAddresses refused s) = None" "\<not> ll_closed s" using that unfolding lan_ok_def by blast
  with ok show ?thesis unfolding lan_ok_def by auto
qed

definition sample_binds :: "lan_event list" where
  "sample_binds = [Start_Lan, Run_Lan [''10.0.0.5'', ''8.8.8.8'', ''192.168.1.2''] (\<lambda>h. if h = ''::1'' then Some ''busy'' else None)]"

theorem http_stays_private_witness:
  "ll_bound (run lan_step (createLanHttpListeners None) sample_binds) = [''127.0.0.1'', ''10.0.0.5'', ''192.168.1.2'']
   \<and> set (ll_bound (run lan_step (createLanHttpListeners None) sample_binds)) \<subseteq> permitted_hosts None"
proof -
  have "ll_bound (run lan_step (createLanHttpListeners None) sample_binds) = [''127.0.0.1'', ''10.0.0.5'', ''192.168.1.2'']"
    unfolding sample_binds_def run_Cons run_Nil by code_simp
  with http_stays_private [OF refl, of None sample_binds] show ?thesis by blast
qed

end
