(* ===== verification/PasswordEntry.thy ===== *)
theory PasswordEntry
  imports JsPrelude
begin

text \<open>
  \<^verbatim>\<open>apps/web-client/src/password-entry.js\<close>, lines 1 to 39: the one normal form of a connection code,
  shared by the browser page and the server, and the pure part of the entry field (which symbols
  are kept, where the caret goes). The rest of the file wires these functions to DOM events.
\<close>

section \<open>The normal form of a code\<close>

definition code_symbols :: string where
  "code_symbols = ''23456789ABCDEFGHJKMNPQRSTUVWXYZ''"

definition is_symbol :: "char \<Rightarrow> bool" where
  "is_symbol c \<longleftrightarrow> c \<in> set code_symbols"

text \<open>Four symbols, an optional dash, four symbols, and nothing else.\<close>

definition code_shape :: "string \<Rightarrow> bool" where
  "code_shape text =
     (let left = take 4 text;
          rest = drop 4 text;
          right = (if take 1 rest = ''-'' then drop 1 rest else rest)
      in length left = 4 \<and> list_all is_symbol left \<and> length right = 4 \<and> list_all is_symbol right)"

text \<open>The argument is \<open>None\<close> for a value that is not a string.\<close>

definition normalizePassword :: "string option \<Rightarrow> string option" where
  "normalizePassword value =
     (case value of
        None \<Rightarrow> None
      | Some v \<Rightarrow>
          (let text = js_upper (js_trim v)
           in if \<not> code_shape text then None
              else let symbols = remove1 (CHR ''-'') text
                   in Some (take 4 symbols @ ''-'' @ drop 4 symbols)))"

section \<open>The entry field\<close>

definition MAX_SYMBOLS :: nat where
  "MAX_SYMBOLS = 8"

definition symbolsIn :: "string \<Rightarrow> string" where
  "symbolsIn text = js_upper (filter is_alnum text)"

text \<open>
  \<^verbatim>\<open>acceptSymbols\<close> returns a value and a closure for the caret; the closure's captured variables are
  the fields of this record. Caret positions are natural numbers, as the DOM's are.
\<close>

record accepted =
  kept :: string
  shown :: string
  end_count :: nat
  cut_count :: nat
  source_value :: string

definition symbol_count :: "string \<Rightarrow> nat \<Rightarrow> nat" where
  "symbol_count value index = length (symbolsIn (take index value))"

definition acceptSymbols :: "string \<Rightarrow> nat \<Rightarrow> accepted" where
  "acceptSymbols value anchor =
     (let symbols = symbolsIn value;
          e = symbol_count value anchor;
          cut = min (length symbols - MAX_SYMBOLS) e;
          k = take MAX_SYMBOLS (take (e - cut) symbols @ drop e symbols)
      in \<lparr>kept = k,
          shown = (if 4 < length k then take 4 k @ ''-'' @ drop 4 k else k),
          end_count = e, cut_count = cut, source_value = value\<rparr>)"

definition entry_caret :: "accepted \<Rightarrow> nat \<Rightarrow> nat" where
  "entry_caret a index =
     (let n = symbol_count (source_value a) index;
          before = end_count a - cut_count a;
          mapped = min (length (kept a)) (if n \<le> before then n else max before (n - cut_count a))
      in mapped + (if 4 < mapped then 1 else 0))"

definition formatPasswordEntry :: "string \<Rightarrow> nat option \<Rightarrow> string \<times> nat" where
  "formatPasswordEntry value caret =
     (let c = (case caret of None \<Rightarrow> length value | Some c \<Rightarrow> c);
          a = acceptSymbols value c
      in (shown a, entry_caret a c))"

definition formatSegmentedPasswordEntry ::
  "string \<Rightarrow> nat option \<Rightarrow> nat option \<Rightarrow> string \<times> nat \<times> nat" where
  "formatSegmentedPasswordEntry value start stop =
     (let s = (case start of None \<Rightarrow> length value | Some c \<Rightarrow> c);
          e = (case stop of None \<Rightarrow> s | Some c \<Rightarrow> c);
          a = acceptSymbols value e
      in (shown a, entry_caret a s, entry_caret a e))"

section \<open>Lemmas\<close>

lemma symbol_facts:
  assumes "is_symbol c"
  shows "is_alnum c" and "\<not> is_space c" and "upper_char c = [c]" and "c \<noteq> CHR ''-''"
proof -
  have "list_all (\<lambda>c. is_alnum c \<and> \<not> is_space c \<and> upper_char c = [c] \<and> c \<noteq> CHR ''-'') code_symbols"
    by code_simp
  with assms show "is_alnum c" and "\<not> is_space c" and "upper_char c = [c]" and "c \<noteq> CHR ''-''"
    by (auto simp: is_symbol_def list_all_iff)
qed

lemma dash_facts: "\<not> is_space (CHR ''-'')" "upper_char (CHR ''-'') = ''-''" "\<not> is_symbol (CHR ''-'')"
  by code_simp+

lemma code_shape_cases:
  assumes "code_shape t"
  obtains a b where "length a = 4" "length b = 4" "list_all is_symbol a" "list_all is_symbol b"
    "t = a @ b \<or> t = a @ ''-'' @ b"
proof -
  define rest where "rest = drop 4 t"
  define right where "right = (if take 1 rest = ''-'' then drop 1 rest else rest)"
  have t: "t = take 4 t @ rest" by (simp add: rest_def)
  have "rest = right \<or> rest = ''-'' @ right"
    unfolding right_def by (metis append_take_drop_id)
  with t have "t = take 4 t @ right \<or> t = take 4 t @ ''-'' @ right"
    by metis
  moreover have "length (take 4 t) = 4 \<and> list_all is_symbol (take 4 t) \<and> length right = 4 \<and> list_all is_symbol right"
    using assms unfolding code_shape_def Let_def right_def rest_def .
  ultimately show thesis using that by blast
qed

lemma code_shapeI:
  assumes "length a = 4" "length b = 4" "list_all is_symbol a" "list_all is_symbol b"
  shows "code_shape (a @ ''-'' @ b)" and "code_shape (a @ b)"
proof -
  obtain x b' where b: "b = x # b'" using assms(2) by (cases b) auto
  have "x \<noteq> CHR ''-''" using assms(4) b symbol_facts(4) by auto
  with assms b show "code_shape (a @ ''-'' @ b)" and "code_shape (a @ b)"
    by (simp_all add: code_shape_def Let_def)
qed

lemma remove1_dash:
  assumes "length a = 4" "list_all is_symbol a" "list_all is_symbol b"
  shows "remove1 (CHR ''-'') (a @ ''-'' @ b) = a @ b" and "remove1 (CHR ''-'') (a @ b) = a @ b"
proof -
  have "CHR ''-'' \<notin> set a" "CHR ''-'' \<notin> set b"
    using assms dash_facts(3) by (auto simp: list_all_iff)
  then show "remove1 (CHR ''-'') (a @ ''-'' @ b) = a @ b" and "remove1 (CHR ''-'') (a @ b) = a @ b"
    by (simp_all add: remove1_append remove1_idem)
qed

lemma normal_text:
  assumes "list_all is_symbol a" "list_all is_symbol b"
  shows "js_upper (js_trim (a @ ''-'' @ b)) = a @ ''-'' @ b"
    and "js_upper (js_trim (a @ b)) = a @ b"
proof -
  have "\<forall>c \<in> set (a @ ''-'' @ b). \<not> is_space c \<and> upper_char c = [c]"
    using assms symbol_facts dash_facts by (auto simp: list_all_iff)
  then show "js_upper (js_trim (a @ ''-'' @ b)) = a @ ''-'' @ b"
    and "js_upper (js_trim (a @ b)) = a @ b"
    by (simp_all add: js_trim_id js_upper_id)
qed

text \<open>A code in the shown form is its own normal form.\<close>

lemma normalize_code:
  assumes "length a = 4" "length b = 4" "list_all is_symbol a" "list_all is_symbol b"
  shows "normalizePassword (Some (a @ ''-'' @ b)) = Some (a @ ''-'' @ b)"
    and "normalizePassword (Some (a @ b)) = Some (a @ ''-'' @ b)"
  using assms normal_text [OF assms(3,4)] code_shapeI [OF assms] remove1_dash [OF assms(1,3,4)]
  by (simp_all add: normalizePassword_def Let_def del: append.simps(2))

lemma normalize_SomeE:
  assumes "normalizePassword v = Some k"
  obtains a b where "length a = 4" "length b = 4" "list_all is_symbol a" "list_all is_symbol b"
    "k = a @ ''-'' @ b"
proof -
  from assms obtain s where v: "v = Some s" and sh: "code_shape (js_upper (js_trim s))"
    and k: "k = take 4 (remove1 (CHR ''-'') (js_upper (js_trim s))) @ ''-'' @
            drop 4 (remove1 (CHR ''-'') (js_upper (js_trim s)))"
    by (auto simp: normalizePassword_def Let_def split: option.splits if_splits)
  from sh obtain a b where ab: "length a = 4" "length b = 4" "list_all is_symbol a"
    "list_all is_symbol b" "js_upper (js_trim s) = a @ b \<or> js_upper (js_trim s) = a @ ''-'' @ b"
    by (rule code_shape_cases)
  then have "remove1 (CHR ''-'') (js_upper (js_trim s)) = a @ b"
    using remove1_dash by metis
  with ab k that show thesis by simp
qed

lemma normalize_idem: "normalizePassword v = Some k \<Longrightarrow> normalizePassword (Some k) = Some k"
  by (elim normalize_SomeE) (simp only: normalize_code)

subsection \<open>The entry field\<close>

lemma upper_char_alnum: "is_alnum c \<Longrightarrow> \<exists>d. upper_char c = [d]"
  by (auto simp: upper_char_def is_alnum_def is_digit_def is_upper_def is_lower_def)

lemma length_symbolsIn: "length (symbolsIn t) = length (filter is_alnum t)"
  by (induction t) (auto simp: symbolsIn_def js_upper_def dest!: upper_char_alnum)

lemma symbolsIn_append: "symbolsIn (a @ b) = symbolsIn a @ symbolsIn b"
  by (simp add: symbolsIn_def js_upper_def)

lemma symbol_count_le: "symbol_count v i \<le> length (symbolsIn v)"
  using symbolsIn_append [of "take i v" "drop i v"] by (simp add: symbol_count_def)

lemma symbol_count_mono: "i \<le> j \<Longrightarrow> symbol_count v i \<le> symbol_count v j"
proof -
  assume "i \<le> j"
  then have "take i v = take i (take j v)" by (simp add: min_def)
  then have "take j v = take i v @ drop i (take j v)" by (metis append_take_drop_id)
  then show ?thesis by (metis symbolsIn_append symbol_count_def length_append le_add1)
qed

lemma length_kept: "length (kept (acceptSymbols v i)) \<le> 8"
  unfolding acceptSymbols_def Let_def MAX_SYMBOLS_def by (simp only: accepted.select_convs length_take min.cobounded2)

lemma shown_kept: "shown (acceptSymbols v i) =
    (if 4 < length (kept (acceptSymbols v i))
     then take 4 (kept (acceptSymbols v i)) @ ''-'' @ drop 4 (kept (acceptSymbols v i))
     else kept (acceptSymbols v i))"
  unfolding acceptSymbols_def Let_def by (simp only: accepted.select_convs)

lemma length_shown: "length (shown (acceptSymbols v i)) =
    length (kept (acceptSymbols v i)) + (if 4 < length (kept (acceptSymbols v i)) then 1 else 0)"
  unfolding shown_kept by (cases "4 < length (kept (acceptSymbols v i))") simp_all

lemma entry_caret_le: "entry_caret (acceptSymbols v i) j \<le> length (shown (acceptSymbols v i))"
proof -
  have "min n m + (if 4 < min n m then 1 else 0) \<le> n + (if 4 < n then 1 else 0)" for n m :: nat
    by (cases "n \<le> m") (auto simp: min_def)
  then show ?thesis
    unfolding length_shown entry_caret_def Let_def .
qed

text \<open>The symbols kept when a text is inserted between two parts that fit together.\<close>

lemma kept_insert:
  assumes "length (symbolsIn pre) + length (symbolsIn post) \<le> 8"
  shows "kept (acceptSymbols (pre @ ins @ post) (length pre + length ins)) =
    symbolsIn pre @ take (8 - length (symbolsIn pre) - length (symbolsIn post)) (symbolsIn ins) @ symbolsIn post"
proof -
  let ?a = "symbolsIn pre" and ?b = "symbolsIn ins" and ?c = "symbolsIn post"
  have cnt: "symbol_count (pre @ ins @ post) (length pre + length ins) = length ?a + length ?b"
    by (simp add: symbol_count_def symbolsIn_append)
  let ?cut = "min (length ?a + length ?b + length ?c - 8) (length ?a + length ?b)"
  have cut: "?cut = length ?a + length ?b + length ?c - 8" using assms by simp
  have tk: "take (length ?a + length ?b - ?cut) (?a @ ?b @ ?c) =
      ?a @ take (8 - length ?a - length ?c) ?b"
  proof (cases "length ?a + length ?b + length ?c \<le> 8")
    case True
    then show ?thesis by simp
  next
    case False
    then have "length ?a + length ?b - ?cut = length ?a + (8 - length ?a - length ?c)"
      using assms cut by linarith
    moreover have "8 - length ?a - length ?c \<le> length ?b" using False by linarith
    ultimately show ?thesis by simp
  qed
  have dr: "drop (length ?a + length ?b) (?a @ ?b @ ?c) = ?c" by simp
  have "length (?a @ take (8 - length ?a - length ?c) ?b @ ?c) \<le> 8" using assms by simp
  then have all: "take 8 (?a @ take (8 - length ?a - length ?c) ?b @ ?c) =
      ?a @ take (8 - length ?a - length ?c) ?b @ ?c"
    by (rule take_all)
  have len: "length (symbolsIn (pre @ ins @ post)) = length ?a + length ?b + length ?c"
    by (simp add: symbolsIn_append)
  show ?thesis
    unfolding acceptSymbols_def Let_def MAX_SYMBOLS_def accepted.select_convs cnt len
    unfolding symbolsIn_append tk dr by (simp only: append_assoc all)
qed

section \<open>Properties\<close>

text \<open>
  The entry field never pushes out what was already entered. When the symbols before and after
  the insertion fit into a code, typing or pasting any text between them keeps both parts whole and
  in place and cuts only the inserted text, to the symbols that still fit; the caret stays inside
  the shown value.
\<close>

theorem entry_keeps_entered_symbols:
  assumes "length (symbolsIn pre) + length (symbolsIn post) \<le> 8"
  shows "kept (acceptSymbols (pre @ ins @ post) (length pre + length ins)) =
           symbolsIn pre @ take (8 - length (symbolsIn pre) - length (symbolsIn post)) (symbolsIn ins)
             @ symbolsIn post
         \<and> length (fst (formatPasswordEntry (pre @ ins @ post) (Some (length pre + length ins)))) \<le> 9
         \<and> snd (formatPasswordEntry (pre @ ins @ post) (Some (length pre + length ins)))
             \<le> length (fst (formatPasswordEntry (pre @ ins @ post) (Some (length pre + length ins))))"
proof (intro conjI)
  let ?a = "acceptSymbols (pre @ ins @ post) (length pre + length ins)"
  show "kept ?a = symbolsIn pre
      @ take (8 - length (symbolsIn pre) - length (symbolsIn post)) (symbolsIn ins) @ symbolsIn post"
    by (rule kept_insert [OF assms])
  show "length (fst (formatPasswordEntry (pre @ ins @ post) (Some (length pre + length ins)))) \<le> 9"
    using length_kept [of "pre @ ins @ post" "length pre + length ins"]
      length_shown [of "pre @ ins @ post" "length pre + length ins"]
    unfolding formatPasswordEntry_def Let_def by (simp split: if_splits)
  show "snd (formatPasswordEntry (pre @ ins @ post) (Some (length pre + length ins)))
      \<le> length (fst (formatPasswordEntry (pre @ ins @ post) (Some (length pre + length ins))))"
    unfolding formatPasswordEntry_def Let_def option.case fst_conv snd_conv by (rule entry_caret_le)
qed

theorem entry_keeps_entered_symbols_witness:
  "kept (acceptSymbols (''AB-'' @ ''xyzxyz'' @ ''9999'') (length ''AB-'' + length ''xyzxyz'')) = ''ABXY9999''"
proof -
  have h: "length (symbolsIn ''AB-'') + length (symbolsIn ''9999'') \<le> 8" by code_simp
  have e: "symbolsIn ''AB-'' @ take (8 - length (symbolsIn ''AB-'') - length (symbolsIn ''9999''))
      (symbolsIn ''xyzxyz'') @ symbolsIn ''9999'' = ''ABXY9999''"
    by code_simp
  show ?thesis
    using entry_keeps_entered_symbols [OF h, of "''xyzxyz''"] unfolding e by (rule conjunct1)
qed

end
