(* ===== verification/ConnectionKeys.thy ===== *)
theory ConnectionKeys
  imports PasswordEntry
begin

text \<open>
  \<^verbatim>\<open>apps/server/src/connection-keys.mjs\<close>: the registry of connection codes. The digest
  (\<^verbatim>\<open>createHash('sha256')\<close>) is the parameter \<open>H\<close>: no lemma assumes it injective unless it says so.
  \<^verbatim>\<open>randomBytes\<close> is a list of bytes the operation consumes in order, and an operation whose sampling
  loop has not ended when the list is used up has the value \<open>None\<close>. The clock reading and the fresh
  \<^verbatim>\<open>randomUUID\<close> are arguments, one reading for a synchronous call.
\<close>

section \<open>Data\<close>

type_synonym byte = "8 word"

definition CODE_ALPHABETS :: "(string, string) jmap" where
  "CODE_ALPHABETS = [(''letters-digits'', ''23456789ABCDEFGHJKMNPQRSTUVWXYZ''),
                     (''letters'', ''ABCDEFGHJKMNPQRSTUVWXYZ'')]"

datatype purpose = Session_Purpose | Setup_Purpose | Once_Purpose
datatype usage = Multi_Use | Single_Use

record attempt_limits =
  globalLimit :: jsvalue
  sourceLimit :: jsvalue

definition DEFAULT_LIMITS :: attempt_limits where
  "DEFAULT_LIMITS = \<lparr>globalLimit = Whole 20, sourceLimit = Whole 5\<rparr>"

record key_record =
  key_purpose :: purpose
  key_usage :: usage
  key_generation :: string
  key_globalLimit :: int
  key_sourceLimit :: int
  key_alphabet :: string
  key_createdAt :: int
  key_expiresAt :: "int option"

text \<open>What the admission budget is told about a live code.\<close>

record key_admission =
  adm_generation :: string
  adm_globalLimit :: int
  adm_sourceLimit :: int
  adm_purpose :: purpose
  adm_expiresAt :: "int option"
  adm_alphabet :: string

record registry =
  records :: "(string, key_record) jmap"
  sessionKey :: "string option"
  ephemeralKey :: "string option"
  reg_alphabet :: string

section \<open>Drawing a code\<close>

fun randomIndex :: "nat \<Rightarrow> byte list \<Rightarrow> (nat \<times> byte list) option" where
  "randomIndex limit [] = None"
| "randomIndex limit (b # bs) =
     (if unat b < (256 div limit) * limit then Some (unat b mod limit, bs) else randomIndex limit bs)"

text \<open>\<^verbatim>\<open>while (raw.length < 8) raw += symbols[randomIndex(symbols.length)]\<close>, for \<open>n\<close> more symbols.\<close>

fun draw :: "string \<Rightarrow> nat \<Rightarrow> byte list \<Rightarrow> (string \<times> byte list) option" where
  "draw symbols 0 bs = Some ([], bs)"
| "draw symbols (Suc n) bs =
     (case randomIndex (length symbols) bs of
        None \<Rightarrow> None
      | Some (i, bs') \<Rightarrow>
          (case draw symbols n bs' of
             None \<Rightarrow> None
           | Some (raw, bs'') \<Rightarrow> Some (symbols ! i # raw, bs'')))"

definition generate :: "string \<Rightarrow> byte list \<Rightarrow> (string \<times> byte list) option result" where
  "generate alphabet bs =
     (case jget CODE_ALPHABETS alphabet of
        None \<Rightarrow> Inl ''Invalid code alphabet''
      | Some symbols \<Rightarrow>
          Inr (map_option (\<lambda>(raw, bs'). (take 4 raw @ ''-'' @ drop 4 raw, bs')) (draw symbols 8 bs)))"

lemma randomIndex_shrinks: "randomIndex n bs = Some (i, bs') \<Longrightarrow> length bs' < length bs"
  by (induction bs) (auto split: if_splits)

lemma draw_shrinks: "draw symbols n bs = Some (raw, bs') \<Longrightarrow> length bs' + n \<le> length bs"
  by (induction symbols n bs arbitrary: raw bs' rule: draw.induct)
    (fastforce split: option.splits dest: randomIndex_shrinks)+

lemma generate_shrinks: "generate alphabet bs = Inr (Some (key, bs')) \<Longrightarrow> length bs' < length bs"
  by (auto simp: generate_def split: option.splits dest!: draw_shrinks)

text \<open>\<^verbatim>\<open>do { key = generate(alphabet) } while (records.has(digest(key)))\<close>.\<close>

function fresh_key ::
  "(string \<Rightarrow> string) \<Rightarrow> string \<Rightarrow> (string, key_record) jmap \<Rightarrow> byte list \<Rightarrow> (string \<times> byte list) option result"
where
  "fresh_key H alphabet recs bs =
     (case generate alphabet bs of
        Inl e \<Rightarrow> Inl e
      | Inr None \<Rightarrow> Inr None
      | Inr (Some (key, bs')) \<Rightarrow>
          if jhas recs (H key) then fresh_key H alphabet recs bs' else Inr (Some (key, bs')))"
  by pat_completeness auto
termination
  by (relation "measure (\<lambda>(H, alphabet, recs, bs). length bs)") (auto dest: generate_shrinks)

declare fresh_key.simps [simp del]

section \<open>Creating codes\<close>

definition boundedLimits :: "attempt_limits option \<Rightarrow> (int \<times> int) result" where
  "boundedLimits limits =
     (case limits of
        None \<Rightarrow> Inl ''Invalid connection-key attempt limits''
      | Some l \<Rightarrow>
          if \<not> whole_between 1 20 (globalLimit l) \<or> \<not> whole_between 1 5 (sourceLimit l)
             \<or> whole_value (globalLimit l) < whole_value (sourceLimit l)
          then Inl ''Invalid connection-key attempt limits''
          else Inr (whole_value (globalLimit l), whole_value (sourceLimit l)))"

text \<open>
  The private \<^verbatim>\<open>#create\<close>. The result is the new state and the code with its record, or the state and
  the error; the checks come before the first change.
\<close>

definition create_key ::
  "(string \<Rightarrow> string) \<Rightarrow> int \<Rightarrow> string \<Rightarrow> byte list \<Rightarrow> purpose \<Rightarrow> jsvalue option \<Rightarrow> usage \<Rightarrow> string
    \<Rightarrow> attempt_limits option \<Rightarrow> registry \<Rightarrow> (registry \<times> (string \<times> key_record) result) option"
where
  "create_key H now uuid bs prps ttlMs usg alphabet limits r =
     (if (case ttlMs of None \<Rightarrow> False | Some t \<Rightarrow> \<not> is_safe_integer t \<or> whole_value t < 1)
      then Some (r, Inl ''Invalid connection-key lifetime'')
      else if \<not> jhas CODE_ALPHABETS alphabet then Some (r, Inl ''Invalid code alphabet'')
      else case boundedLimits limits of
        Inl e \<Rightarrow> Some (r, Inl e)
      | Inr (g, s) \<Rightarrow>
          (let r1 = (case (usg, ephemeralKey r) of
                       (Single_Use, Some old) \<Rightarrow> r\<lparr>records := jdel (H old) (records r)\<rparr>
                     | _ \<Rightarrow> r)
           in case fresh_key H alphabet (records r1) bs of
                Inl e \<Rightarrow> Some (r1, Inl e)
              | Inr None \<Rightarrow> None
              | Inr (Some (key, bs')) \<Rightarrow>
                  (let record = \<lparr>key_purpose = prps, key_usage = usg, key_generation = uuid,
                         key_globalLimit = g, key_sourceLimit = s, key_alphabet = alphabet,
                         key_createdAt = now,
                         key_expiresAt = map_option (\<lambda>t. now + whole_value t) ttlMs\<rparr>;
                       r2 = r1\<lparr>records := jset (H key) record (records r1)\<rparr>;
                       r3 = (if usg = Single_Use then r2\<lparr>ephemeralKey := Some key\<rparr> else r2)
                   in Some (r3, Inr (key, record)))))"

text \<open>The old standing code is dropped before the new one is checked and drawn.\<close>

definition rotateSession ::
  "(string \<Rightarrow> string) \<Rightarrow> int \<Rightarrow> string \<Rightarrow> byte list \<Rightarrow> string option \<Rightarrow> attempt_limits option
    \<Rightarrow> registry \<Rightarrow> (registry \<times> string result) option"
where
  "rotateSession H now uuid bs alphabet limits r =
     (let r1 = (case sessionKey r of
                  None \<Rightarrow> r
                | Some old \<Rightarrow> r\<lparr>records := jdel (H old) (records r)\<rparr>);
          a = (case alphabet of None \<Rightarrow> reg_alphabet r | Some a \<Rightarrow> a);
          l = (case limits of None \<Rightarrow> DEFAULT_LIMITS | Some l \<Rightarrow> l)
      in case create_key H now uuid bs Session_Purpose None Multi_Use a (Some l) r1 of
           None \<Rightarrow> None
         | Some (r2, Inl e) \<Rightarrow> Some (r2, Inl e)
         | Some (r2, Inr (key, _)) \<Rightarrow> Some (r2\<lparr>sessionKey := Some key\<rparr>, Inr key))"

record create_options =
  opt_ttlMs :: "jsvalue option"
  opt_alphabet :: "string option"
  opt_limits :: "attempt_limits option"

definition single_use_key ::
  "(string \<Rightarrow> string) \<Rightarrow> int \<Rightarrow> string \<Rightarrow> byte list \<Rightarrow> purpose \<Rightarrow> create_options \<Rightarrow> registry
    \<Rightarrow> (registry \<times> (string \<times> key_record) result) option"
where
  "single_use_key H now uuid bs prps opts r =
     create_key H now uuid bs prps
       (Some (case opt_ttlMs opts of None \<Rightarrow> Whole 300000 | Some t \<Rightarrow> t)) Single_Use
       (case opt_alphabet opts of None \<Rightarrow> reg_alphabet r | Some a \<Rightarrow> a)
       (Some (case opt_limits opts of None \<Rightarrow> DEFAULT_LIMITS | Some l \<Rightarrow> l)) r"

definition createSetup where
  "createSetup H now uuid bs opts r = single_use_key H now uuid bs Setup_Purpose opts r"

definition createOneTimeConnection where
  "createOneTimeConnection H now uuid bs opts r = single_use_key H now uuid bs Once_Purpose opts r"

text \<open>The constructor: an empty registry with a first standing code.\<close>

definition new_registry ::
  "(string \<Rightarrow> string) \<Rightarrow> int \<Rightarrow> string \<Rightarrow> byte list \<Rightarrow> string \<Rightarrow> registry result option"
where
  "new_registry H now uuid bs alphabet =
     (let r = \<lparr>records = [], sessionKey = None, ephemeralKey = None, reg_alphabet = alphabet\<rparr>
      in if \<not> jhas CODE_ALPHABETS alphabet then Some (Inl ''Invalid code alphabet'')
         else case rotateSession H now uuid bs None None r of
           None \<Rightarrow> None
         | Some (r', Inl e) \<Rightarrow> Some (Inl e)
         | Some (r', Inr _) \<Rightarrow> Some (Inr r'))"

section \<open>Looking up and using codes\<close>

definition inspect :: "(string \<Rightarrow> string) \<Rightarrow> int \<Rightarrow> string option \<Rightarrow> registry \<Rightarrow> key_record option \<times> registry" where
  "inspect H now v r =
     (case normalizePassword v of
        None \<Rightarrow> (None, r)
      | Some key \<Rightarrow>
          (case jget (records r) (H key) of
             None \<Rightarrow> (None, r)
           | Some record \<Rightarrow>
               (case key_expiresAt record of
                  Some t \<Rightarrow>
                    if t \<le> now
                    then (None, r\<lparr>records := jdel (H key) (records r),
                                  ephemeralKey := (if ephemeralKey r = Some key then None
                                                   else ephemeralKey r)\<rparr>)
                    else (Some record, r)
                | None \<Rightarrow> (Some record, r))))"

definition use_key ::
  "(string \<Rightarrow> string) \<Rightarrow> int \<Rightarrow> string option \<Rightarrow> purpose \<Rightarrow> registry \<Rightarrow> key_record option \<times> registry" where
  "use_key H now v expected r =
     (let key = normalizePassword v;
          (found, r1) = inspect H now key r
      in case found of
           None \<Rightarrow> (None, r1)
         | Some record \<Rightarrow>
             if key_purpose record \<noteq> expected then (None, r1)
             else if key_usage record = Single_Use
             then (Some record, r1\<lparr>records := jdel (H (the key)) (records r1),
                                   ephemeralKey := (if ephemeralKey r1 = key then None
                                                    else ephemeralKey r1)\<rparr>)
             else (Some record, r1))"

definition clearPurpose :: "(string \<Rightarrow> string) \<Rightarrow> int \<Rightarrow> purpose \<Rightarrow> registry \<Rightarrow> registry" where
  "clearPurpose H now p r =
     (let r1 = r\<lparr>records := jkeep (\<lambda>_ record. key_purpose record \<noteq> p) (records r)\<rparr>
      in if p = Session_Purpose then r1\<lparr>sessionKey := None\<rparr>
         else case ephemeralKey r1 of
           None \<Rightarrow> r1
         | Some key \<Rightarrow>
             (let (found, r2) = inspect H now (Some key) r1
              in if found = None then r2\<lparr>ephemeralKey := None\<rparr> else r2))"

definition admission_of :: "key_record \<Rightarrow> key_admission" where
  "admission_of record =
     \<lparr>adm_generation = key_generation record, adm_globalLimit = key_globalLimit record,
      adm_sourceLimit = key_sourceLimit record, adm_purpose = key_purpose record,
      adm_expiresAt = key_expiresAt record, adm_alphabet = key_alphabet record\<rparr>"

definition active_key :: "(string \<Rightarrow> string) \<Rightarrow> int \<Rightarrow> string option \<Rightarrow> registry \<Rightarrow> key_admission option \<times> registry" where
  "active_key H now k r =
     (case k of
        None \<Rightarrow> (None, r)
      | Some key \<Rightarrow>
          (let (found, r1) = inspect H now (Some key) r in (map_option admission_of found, r1)))"

definition activeEphemeral where
  "activeEphemeral H now r = active_key H now (ephemeralKey r) r"

definition activeSession where
  "activeSession H now r = active_key H now (sessionKey r) r"

section \<open>Drawing: lemmas\<close>

lemma alphabet_symbols:
  assumes "jget CODE_ALPHABETS a = Some symbols"
  shows "symbols \<noteq> []" and "length symbols < 256" and "list_all is_symbol symbols" and "distinct symbols"
proof -
  have "list_all (\<lambda>(a, s). s \<noteq> [] \<and> length s < 256 \<and> list_all is_symbol s \<and> distinct s) CODE_ALPHABETS"
    by code_simp
  with jget_in_set [OF assms]
  show "symbols \<noteq> []" "length symbols < 256" "list_all is_symbol symbols" "distinct symbols"
    by (auto simp: list_all_iff)
qed

lemma randomIndex_bound: "randomIndex n bs = Some (i, bs') \<Longrightarrow> i < n"
proof (induction bs)
  case Nil
  then show ?case by simp
next
  case (Cons b bs)
  then show ?case
    by (cases "n = 0") (auto split: if_splits)
qed

lemma draw_length: "draw symbols n bs = Some (raw, bs') \<Longrightarrow> length raw = n"
  by (induction symbols n bs arbitrary: raw bs' rule: draw.induct) (auto split: option.splits)

lemma draw_set: "draw symbols n bs = Some (raw, bs') \<Longrightarrow> set raw \<subseteq> set symbols"
proof (induction symbols n bs arbitrary: raw bs' rule: draw.induct)
  case (2 symbols n bs)
  then show ?case
    by (fastforce split: option.splits dest: randomIndex_bound)
qed simp

lemma generate_shape:
  assumes "generate a bs = Inr (Some (key, bs'))"
  obtains x y where "length x = 4" "length y = 4" "list_all is_symbol x" "list_all is_symbol y"
    "key = x @ ''-'' @ y"
proof -
  from assms obtain symbols raw where s: "jget CODE_ALPHABETS a = Some symbols"
    and d: "draw symbols 8 bs = Some (raw, bs')" and k: "key = take 4 raw @ ''-'' @ drop 4 raw"
    by (auto simp: generate_def split: option.splits)
  have "list_all is_symbol raw"
    using draw_set [OF d] alphabet_symbols(3) [OF s] by (auto simp: list_all_iff)
  moreover have "length raw = 8" by (rule draw_length [OF d])
  ultimately show thesis
    using that [of "take 4 raw" "drop 4 raw"] k
    by (auto simp: list_all_iff dest: in_set_takeD in_set_dropD)
qed

lemma fresh_key_generated:
  "fresh_key H a recs bs = Inr (Some (key, bs')) \<Longrightarrow>
     \<not> jhas recs (H key) \<and> (\<exists>bs0. generate a bs0 = Inr (Some (key, bs')))"
proof (induction H a recs bs rule: fresh_key.induct)
  case (1 H a recs bs)
  from "1.prems" obtain k bs1 where g: "generate a bs = Inr (Some (k, bs1))"
    and r: "if jhas recs (H k) then fresh_key H a recs bs1 = Inr (Some (key, bs')) else k = key \<and> bs1 = bs'"
    by (auto simp: fresh_key.simps [of H a recs bs] split: sum.splits option.splits if_splits)
  show ?case
  proof (cases "jhas recs (H k)")
    case True
    with r "1.IH" [OF g refl refl True] show ?thesis by simp
  next
    case False
    with r g show ?thesis by auto
  qed
qed

lemma fresh_key_normal:
  "fresh_key H a recs bs = Inr (Some (key, bs')) \<Longrightarrow> normalizePassword (Some key) = Some key"
  by (metis fresh_key_generated generate_shape normalize_code(1))

subsection \<open>Every accepted byte gives each symbol the same weight\<close>

lemma accepted_residues:
  assumes "0 < n" "i < n"
  shows "card {b::nat. b < (k * n) \<and> b mod n = i} = k"
proof -
  have "bij_betw (\<lambda>q. q * n + i) {..<k} {b. b < k * n \<and> b mod n = i}"
  proof (rule bij_betw_byWitness [where f' = "\<lambda>b. b div n"])
    show "(\<lambda>q. q * n + i) ` {..<k} \<subseteq> {b. b < k * n \<and> b mod n = i}"
    proof (rule image_subsetI)
      fix q assume "q \<in> {..<k}"
      then have "Suc q * n \<le> k * n" by (intro mult_le_mono1) simp
      with assms show "q * n + i \<in> {b. b < k * n \<and> b mod n = i}" by simp
    qed
    show "(\<lambda>b. b div n) ` {b. b < k * n \<and> b mod n = i} \<subseteq> {..<k}"
      using assms by (auto simp: less_mult_imp_div_less)
  qed (use assms in auto)
  then show ?thesis by (metis bij_betw_same_card card_lessThan)
qed

lemma randomIndex_one_iff:
  "randomIndex n [b] = Some (i, []) \<longleftrightarrow> unat b < (256 div n) * n \<and> unat b mod n = i"
  by auto

lemma randomIndex_accepts: "\<exists>b \<in> set bs. unat b < (256 div n) * n \<Longrightarrow> randomIndex n bs \<noteq> None"
  by (induction bs) auto

section \<open>The registry invariant\<close>

text \<open>
  Whatever the digest is: the multi-use records are standing codes and sit under the digest of the
  current one, the single-use records sit under the digest of the current single-use code, and both
  codes are in normal form.
\<close>

definition record_place :: "(string \<Rightarrow> string) \<Rightarrow> registry \<Rightarrow> string \<Rightarrow> key_record \<Rightarrow> bool" where
  "record_place H r l record \<longleftrightarrow>
     (if key_usage record = Multi_Use
      then key_purpose record = Session_Purpose \<and> key_expiresAt record = None
           \<and> (\<exists>k. sessionKey r = Some k \<and> l = H k)
      else key_purpose record \<noteq> Session_Purpose \<and> (\<exists>k. ephemeralKey r = Some k \<and> l = H k))"

definition limits_ok :: "key_record \<Rightarrow> bool" where
  "limits_ok record \<longleftrightarrow> 1 \<le> key_sourceLimit record \<and> key_sourceLimit record \<le> 5
     \<and> key_globalLimit record \<le> 20 \<and> key_sourceLimit record \<le> key_globalLimit record"

definition normal_key :: "string option \<Rightarrow> bool" where
  "normal_key k \<longleftrightarrow> (case k of None \<Rightarrow> True | Some s \<Rightarrow> normalizePassword (Some s) = Some s)"

definition reg_inv :: "(string \<Rightarrow> string) \<Rightarrow> registry \<Rightarrow> bool" where
  "reg_inv H r \<longleftrightarrow> jmap_ok (records r) \<and> normal_key (sessionKey r) \<and> normal_key (ephemeralKey r)
     \<and> (\<forall>(l, record) \<in> set (records r). record_place H r l record)
     \<and> (\<forall>(l, record) \<in> set (records r). limits_ok record)"

subsection \<open>Creating\<close>

definition drop_ephemeral :: "(string \<Rightarrow> string) \<Rightarrow> usage \<Rightarrow> registry \<Rightarrow> registry" where
  "drop_ephemeral H usg r =
     (case (usg, ephemeralKey r) of
        (Single_Use, Some old) \<Rightarrow> r\<lparr>records := jdel (H old) (records r)\<rparr>
      | _ \<Rightarrow> r)"

lemma fresh_key_known_alphabet:
  "jhas CODE_ALPHABETS a \<Longrightarrow> fresh_key H a recs bs \<noteq> Inl e"
proof (induction H a recs bs rule: fresh_key.induct)
  case (1 H a recs bs)
  then obtain symbols where "jget CODE_ALPHABETS a = Some symbols" by (auto simp: jhas_def)
  then obtain g where g: "generate a bs = Inr g" by (simp add: generate_def)
  show ?case
  proof (cases g)
    case None
    with g show ?thesis by (simp add: fresh_key.simps [of H a recs bs])
  next
    case (Some kb)
    with g "1.IH" [OF g Some] "1.prems" show ?thesis
      by (simp add: fresh_key.simps [of H a recs bs] split: prod.splits)
  qed
qed

lemma boundedLimits_InrD:
  "boundedLimits l = Inr (g, s) \<Longrightarrow> 1 \<le> s \<and> s \<le> 5 \<and> g \<le> 20 \<and> s \<le> g"
  by (auto simp: boundedLimits_def whole_value_def dest!: whole_betweenE split: option.splits if_splits)

lemma create_key_Some:
  assumes "create_key H now uuid bs p ttl usg a l r = Some (r', out)"
  obtains (error) e where "out = Inl e" "r' = r"
  | (created) key rcd where "out = Inr (key, rcd)"
      "key_purpose rcd = p" "key_usage rcd = usg" "key_generation rcd = uuid"
      "key_expiresAt rcd = map_option (\<lambda>t. now + whole_value t) ttl"
      "limits_ok rcd"
      "normalizePassword (Some key) = Some key"
      "\<not> jhas (records (drop_ephemeral H usg r)) (H key)"
      "r' = (drop_ephemeral H usg r)
         \<lparr>records := jset (H key) rcd (records (drop_ephemeral H usg r)),
          ephemeralKey := (if usg = Single_Use then Some key else ephemeralKey r)\<rparr>"
proof (cases out)
  case (Inl e)
  with assms have "r' = r"
    using fresh_key_known_alphabet [of a H _ bs]
    by (auto simp: create_key_def drop_ephemeral_def [symmetric] Let_def
        split: if_splits sum.splits option.splits)
  with Inl error show thesis by blast
next
  case (Inr kr)
  then obtain key rcd where kr: "out = Inr (key, rcd)" by (cases kr) auto
  with assms obtain g s bs' where
    lim: "boundedLimits l = Inr (g, s)" and
    fr: "fresh_key H a (records (drop_ephemeral H usg r)) bs = Inr (Some (key, bs'))" and
    rec: "rcd = \<lparr>key_purpose = p, key_usage = usg, key_generation = uuid, key_globalLimit = g,
        key_sourceLimit = s, key_alphabet = a, key_createdAt = now,
        key_expiresAt = map_option (\<lambda>t. now + whole_value t) ttl\<rparr>" and
    r': "r' = (if usg = Single_Use
        then (drop_ephemeral H usg r)\<lparr>records := jset (H key) rcd (records (drop_ephemeral H usg r)),
              ephemeralKey := Some key\<rparr>
        else (drop_ephemeral H usg r)\<lparr>records := jset (H key) rcd (records (drop_ephemeral H usg r))\<rparr>)"
    unfolding create_key_def drop_ephemeral_def [symmetric] Let_def
    by (auto split: if_splits sum.splits option.splits)
  have eph: "usg \<noteq> Single_Use \<Longrightarrow> drop_ephemeral H usg r = r"
    by (cases usg) (simp_all add: drop_ephemeral_def)
  show thesis
  proof (rule created [OF kr])
    show "r' = (drop_ephemeral H usg r)\<lparr>records := jset (H key) rcd (records (drop_ephemeral H usg r)),
          ephemeralKey := (if usg = Single_Use then Some key else ephemeralKey r)\<rparr>"
      using r' eph by (cases "usg = Single_Use") simp_all
    show "normalizePassword (Some key) = Some key" by (rule fresh_key_normal [OF fr])
    show "\<not> jhas (records (drop_ephemeral H usg r)) (H key)"
      using fresh_key_generated [OF fr] by simp
  qed (use rec boundedLimits_InrD [OF lim] in \<open>auto simp: limits_ok_def\<close>)
qed

lemma drop_ephemeral_simps [simp]:
  "sessionKey (drop_ephemeral H u r) = sessionKey r"
  "ephemeralKey (drop_ephemeral H u r) = ephemeralKey r"
  "reg_alphabet (drop_ephemeral H u r) = reg_alphabet r"
  "drop_ephemeral H Multi_Use r = r"
  by (auto simp: drop_ephemeral_def split: usage.splits option.splits)

lemma drop_ephemeral_records:
  "(l, rcd) \<in> set (records (drop_ephemeral H Single_Use r)) \<longleftrightarrow>
     (l, rcd) \<in> set (records r) \<and> (\<forall>k. ephemeralKey r = Some k \<longrightarrow> l \<noteq> H k)"
  by (auto simp: drop_ephemeral_def set_jdel split: option.splits)

lemma reg_invI:
  assumes "jmap_ok (records r)" "normal_key (sessionKey r)" "normal_key (ephemeralKey r)"
    and "\<And>l rcd. (l, rcd) \<in> set (records r) \<Longrightarrow> record_place H r l rcd"
    and "\<And>l rcd. (l, rcd) \<in> set (records r) \<Longrightarrow> limits_ok rcd"
  shows "reg_inv H r"
  using assms by (auto simp: reg_inv_def)

lemma reg_invD:
  assumes "reg_inv H r"
  shows "jmap_ok (records r)" "normal_key (sessionKey r)" "normal_key (ephemeralKey r)"
    and "(l, rcd) \<in> set (records r) \<Longrightarrow> record_place H r l rcd"
    and "(l, rcd) \<in> set (records r) \<Longrightarrow> limits_ok rcd"
  using assms by (auto simp: reg_inv_def)

lemma reg_inv_single_use_key:
  assumes "reg_inv H r" "p \<noteq> Session_Purpose"
    and "single_use_key H now uuid bs p opts r = Some (r', out)"
  shows "reg_inv H r'"
proof -
  from assms(3) obtain ttl a l
    where "create_key H now uuid bs p ttl Single_Use a l r = Some (r', out)"
    by (auto simp: single_use_key_def)
  then show ?thesis
  proof (cases rule: create_key_Some)
    case error
    with assms(1) show ?thesis by simp
  next
    case (created key rcd)
    note inv = reg_invD [OF assms(1)]
    let ?r = "drop_ephemeral H Single_Use r"
    have ok: "jmap_ok (records ?r)"
      using inv(1) by (auto simp: drop_ephemeral_def split: option.splits)
    have old: "\<And>l rec. (l, rec) \<in> set (records ?r) \<Longrightarrow> key_usage rec = Multi_Use \<and> record_place H r l rec"
      using inv(4) by (fastforce simp: drop_ephemeral_records record_place_def split: if_splits)
    show ?thesis
    proof (rule reg_invI)
      show "record_place H r' l rec" if "(l, rec) \<in> set (records r')" for l rec
        using that created old [of l rec] assms(2)
        by (auto simp: set_jset ok record_place_def)
      show "limits_ok rec" if "(l, rec) \<in> set (records r')" for l rec
        using that created inv(5) [of l rec] by (auto simp: set_jset ok drop_ephemeral_records)
    qed (use created ok inv in \<open>auto simp: normal_key_def\<close>)
  qed
qed

lemma reg_inv_rotateSession:
  assumes "reg_inv H r" and "rotateSession H now uuid bs a l r = Some (r', out)"
  shows "reg_inv H r'"
proof -
  define r1 where "r1 = (case sessionKey r of None \<Rightarrow> r | Some old \<Rightarrow> r\<lparr>records := jdel (H old) (records r)\<rparr>)"
  note inv = reg_invD [OF assms(1)]
  have r1: "sessionKey r1 = sessionKey r" "ephemeralKey r1 = ephemeralKey r" "jmap_ok (records r1)"
    using inv(1) by (auto simp: r1_def split: option.splits)
  have sub: "(l, rec) \<in> set (records r) \<and> key_usage rec = Single_Use" if "(l, rec) \<in> set (records r1)" for l rec
    using that inv(4) [of l rec]
    by (cases "key_usage rec") (auto simp: r1_def set_jdel record_place_def split: option.splits)
  from assms(2) obtain a' l' r2 out2
    where c: "create_key H now uuid bs Session_Purpose None Multi_Use a' (Some l') r1 = Some (r2, out2)"
      and r': "(\<exists>e. out2 = Inl e \<and> r' = r2) \<or> (\<exists>key rec. out2 = Inr (key, rec) \<and> r' = r2\<lparr>sessionKey := Some key\<rparr>)"
    unfolding rotateSession_def Let_def r1_def [symmetric]
    by (auto split: option.splits sum.splits prod.splits)
  from c show ?thesis
  proof (cases rule: create_key_Some)
    case (error e)
    with r' have r'r1: "r' = r1" by auto
    show ?thesis
      unfolding r'r1
    proof (rule reg_invI)
      show "record_place H r1 l rec" if "(l, rec) \<in> set (records r1)" for l rec
        using sub [OF that] inv(4) [of l rec] r1 by (simp add: record_place_def)
      show "limits_ok rec" if "(l, rec) \<in> set (records r1)" for l rec
        using sub [OF that] inv(5) [of l rec] by simp
    qed (use r1 inv in auto)
  next
    case (created key rcd)
    with r' have r'eq: "r' = r1\<lparr>records := jset (H key) rcd (records r1), sessionKey := Some key\<rparr>"
      by auto
    show ?thesis
    proof (rule reg_invI)
      show "record_place H r' l rec" if "(l, rec) \<in> set (records r')" for l rec
        using that sub [of l rec] inv(4) [of l rec] r1 created
        by (auto simp: r'eq set_jset record_place_def)
      show "limits_ok rec" if "(l, rec) \<in> set (records r')" for l rec
        using that sub [of l rec] inv(5) [of l rec] r1 created by (auto simp: r'eq set_jset)
    qed (use created r1 inv in \<open>auto simp: r'eq normal_key_def\<close>)
  qed
qed

subsection \<open>Looking up and using\<close>

lemma inspect_cases:
  obtains (same) "snd (inspect H now v r) = r"
  | (expired) key where "normalizePassword v = Some key" "fst (inspect H now v r) = None"
      "snd (inspect H now v r) = r\<lparr>records := jdel (H key) (records r),
         ephemeralKey := (if ephemeralKey r = Some key then None else ephemeralKey r)\<rparr>"
proof (cases "normalizePassword v")
  case None
  then show thesis by (intro same) (simp add: inspect_def)
next
  case (Some key)
  show thesis
  proof (cases "\<exists>rcd t. jget (records r) (H key) = Some rcd \<and> key_expiresAt rcd = Some t \<and> t \<le> now")
    case True
    with Some show thesis by (intro expired [OF Some]) (auto simp: inspect_def)
  next
    case False
    with Some show thesis by (intro same) (auto simp: inspect_def split: option.splits)
  qed
qed

lemma inspect_Some:
  assumes "inspect H now v r = (Some rcd, r')"
  obtains key where "normalizePassword v = Some key" "jget (records r) (H key) = Some rcd"
    "r' = r" "\<And>t. key_expiresAt rcd = Some t \<Longrightarrow> now < t"
  using assms by (auto simp: inspect_def split: option.splits if_splits)

lemma remove_key_inv:
  assumes "reg_inv H r"
  shows "reg_inv H (r\<lparr>records := jdel (H key) (records r),
           ephemeralKey := (if ephemeralKey r = Some key then None else ephemeralKey r)\<rparr>)"
proof (rule reg_invI)
  note inv = reg_invD [OF assms]
  let ?r = "r\<lparr>records := jdel (H key) (records r),
              ephemeralKey := (if ephemeralKey r = Some key then None else ephemeralKey r)\<rparr>"
  show "record_place H ?r l rec" if "(l, rec) \<in> set (records ?r)" for l rec
    using that inv(4) [of l rec] by (auto simp: set_jdel record_place_def split: if_splits)
  show "limits_ok rec" if "(l, rec) \<in> set (records ?r)" for l rec
    using that inv(5) [of l rec] by (auto simp: set_jdel)
qed (use reg_invD [OF assms] in \<open>auto simp: normal_key_def\<close>)

lemma reg_inv_inspect: "reg_inv H r \<Longrightarrow> reg_inv H (snd (inspect H now v r))"
  by (cases rule: inspect_cases [of H now v r]) (simp_all add: remove_key_inv)

lemma use_key_eq:
  "use_key H now v p r =
     (case inspect H now v r of
        (None, r1) \<Rightarrow> (None, r1)
      | (Some rcd, r1) \<Rightarrow>
          if key_purpose rcd \<noteq> p then (None, r1)
          else if key_usage rcd = Single_Use
          then (Some rcd, r1\<lparr>records := jdel (H (the (normalizePassword v))) (records r1),
                 ephemeralKey := (if ephemeralKey r1 = normalizePassword v then None else ephemeralKey r1)\<rparr>)
          else (Some rcd, r1))"
proof -
  have "inspect H now (normalizePassword v) r = inspect H now v r"
  proof (cases "normalizePassword v")
    case None
    then show ?thesis by (simp add: inspect_def) (simp add: normalizePassword_def)
  next
    case (Some k)
    then show ?thesis by (simp add: inspect_def normalize_idem [OF Some])
  qed
  then show ?thesis
    by (simp add: use_key_def Let_def split: prod.splits option.splits)
qed

lemma reg_inv_use_key:
  assumes "reg_inv H r"
  shows "reg_inv H (snd (use_key H now v p r))"
proof (cases "inspect H now v r")
  case (Pair found r1)
  then have inv: "reg_inv H r1" using reg_inv_inspect [OF assms, of now v] by simp
  show ?thesis
  proof (cases found)
    case None
    with Pair inv show ?thesis by (simp add: use_key_eq)
  next
    case (Some rcd)
    with Pair obtain key where "normalizePassword v = Some key" by (auto elim: inspect_Some)
    with Pair Some inv remove_key_inv [OF inv, of key] show ?thesis by (simp add: use_key_eq)
  qed
qed

lemma reg_inv_clearPurpose:
  assumes "reg_inv H r"
  shows "reg_inv H (clearPurpose H now p r)"
proof -
  note inv = reg_invD [OF assms]
  let ?keep = "jkeep (\<lambda>_ rcd. key_purpose rcd \<noteq> p) (records r)"
  have sub: "\<And>l rec. (l, rec) \<in> set ?keep \<Longrightarrow> (l, rec) \<in> set (records r) \<and> key_purpose rec \<noteq> p"
    by (auto simp: jkeep_def)
  have kept: "reg_inv H (r\<lparr>records := ?keep\<rparr>)"
  proof (rule reg_invI)
    show "record_place H (r\<lparr>records := ?keep\<rparr>) l rec" if "(l, rec) \<in> set (records (r\<lparr>records := ?keep\<rparr>))" for l rec
      using that sub [of l rec] inv(4) [of l rec] by (simp add: record_place_def)
    show "limits_ok rec" if "(l, rec) \<in> set (records (r\<lparr>records := ?keep\<rparr>))" for l rec
      using that sub [of l rec] inv(5) [of l rec] by simp
  qed (use inv in auto)
  show ?thesis
  proof (cases "p = Session_Purpose")
    case True
    have "reg_inv H (r\<lparr>records := ?keep, sessionKey := None\<rparr>)"
    proof (rule reg_invI)
      show "record_place H (r\<lparr>records := ?keep, sessionKey := None\<rparr>) l rec"
        if "(l, rec) \<in> set (records (r\<lparr>records := ?keep, sessionKey := None\<rparr>))" for l rec
        using that sub [of l rec] inv(4) [of l rec] True by (auto simp: record_place_def split: if_splits)
      show "limits_ok rec" if "(l, rec) \<in> set (records (r\<lparr>records := ?keep, sessionKey := None\<rparr>))" for l rec
        using that sub [of l rec] inv(5) [of l rec] by simp
    qed (use inv in \<open>auto simp: normal_key_def\<close>)
    then show ?thesis using True by (simp add: clearPurpose_def Let_def)
  next
    case False
    show ?thesis
    proof (cases "ephemeralKey r")
      case None
      with False kept show ?thesis by (simp add: clearPurpose_def Let_def)
    next
      case (Some key)
      obtain found r2 where f: "inspect H now (Some key) (r\<lparr>records := ?keep\<rparr>) = (found, r2)"
        by (cases "inspect H now (Some key) (r\<lparr>records := ?keep\<rparr>)")
      have r2: "reg_inv H r2" using reg_inv_inspect [OF kept, of now "Some key"] f by simp
      have nk: "normalizePassword (Some key) = Some key"
        using inv(3) Some by (simp add: normal_key_def)
      have "reg_inv H (r2\<lparr>ephemeralKey := None\<rparr>)" if "found = None"
      proof -
        have e: "ephemeralKey r2 = None \<or> ephemeralKey r2 = Some key"
          and gone: "jget (records r2) (H key) = None"
          using f Some nk that by (auto simp: inspect_def split: option.splits if_splits)
        have multi: "\<And>l rec. (l, rec) \<in> set (records r2) \<Longrightarrow> key_usage rec = Multi_Use"
          using reg_invD(1,4) [OF r2] e gone
          by (fastforce simp: record_place_def in_set_jget split: if_splits)
        show ?thesis
        proof (rule reg_invI)
          show "record_place H (r2\<lparr>ephemeralKey := None\<rparr>) l rec"
            if "(l, rec) \<in> set (records (r2\<lparr>ephemeralKey := None\<rparr>))" for l rec
            using that multi [of l rec] reg_invD(4) [OF r2, of l rec] by (auto simp: record_place_def)
        qed (use reg_invD [OF r2] in \<open>auto simp: normal_key_def\<close>)
      qed
      with False Some f r2 show ?thesis by (simp add: clearPurpose_def Let_def)
    qed
  qed
qed

section \<open>The registry as a system of operations\<close>

datatype key_event =
    Rotate_Session int string "byte list" "string option" "attempt_limits option"
  | Create_Setup int string "byte list" create_options
  | Create_Once int string "byte list" create_options
  | Inspect int "string option"
  | Use int "string option" purpose
  | Clear_Purpose int purpose
  | Active_Ephemeral int
  | Active_Session int

text \<open>One call; a call whose sampling loop does not end leaves no later state.\<close>

fun registry_step :: "(string \<Rightarrow> string) \<Rightarrow> registry \<Rightarrow> key_event \<Rightarrow> registry" where
  "registry_step H r (Rotate_Session now uuid bs a l) =
     (case rotateSession H now uuid bs a l r of None \<Rightarrow> r | Some (r', _) \<Rightarrow> r')"
| "registry_step H r (Create_Setup now uuid bs opts) =
     (case createSetup H now uuid bs opts r of None \<Rightarrow> r | Some (r', _) \<Rightarrow> r')"
| "registry_step H r (Create_Once now uuid bs opts) =
     (case createOneTimeConnection H now uuid bs opts r of None \<Rightarrow> r | Some (r', _) \<Rightarrow> r')"
| "registry_step H r (Inspect now v) = snd (inspect H now v r)"
| "registry_step H r (Use now v p) = snd (use_key H now v p r)"
| "registry_step H r (Clear_Purpose now p) = clearPurpose H now p r"
| "registry_step H r (Active_Ephemeral now) = snd (activeEphemeral H now r)"
| "registry_step H r (Active_Session now) = snd (activeSession H now r)"

lemma reg_inv_active: "reg_inv H r \<Longrightarrow> reg_inv H (snd (active_key H now k r))"
  using reg_inv_inspect [of H r now k]
  by (auto simp: active_key_def split: option.splits prod.splits)

interpretation keys: step_system "registry_step H" "reg_inv H" for H
proof
  fix r e
  assume "reg_inv H r"
  then show "reg_inv H (registry_step H r e)"
    by (cases e)
      (auto simp: createSetup_def createOneTimeConnection_def activeEphemeral_def activeSession_def
        split: option.splits
        intro: reg_inv_rotateSession reg_inv_single_use_key reg_inv_inspect reg_inv_use_key
          reg_inv_clearPurpose reg_inv_active)
qed

lemma reg_inv_new:
  assumes "new_registry H now uuid bs a = Some (Inr r)"
  shows "reg_inv H r"
proof -
  let ?r0 = "\<lparr>records = [], sessionKey = None, ephemeralKey = None, reg_alphabet = a\<rparr>"
  have "reg_inv H ?r0" by (rule reg_invI) (simp_all add: normal_key_def)
  moreover from assms obtain out where "rotateSession H now uuid bs None None ?r0 = Some (r, out)"
    by (auto simp: new_registry_def Let_def split: if_splits option.splits sum.splits)
  ultimately show ?thesis by (rule reg_inv_rotateSession)
qed

text \<open>Using a single-use code, against every operation that issues no single-use code.\<close>

definition spend_code ::
  "(string \<Rightarrow> string) \<Rightarrow> int \<times> purpose \<Rightarrow> string \<Rightarrow> registry \<Rightarrow> bool \<times> registry" where
  "spend_code H a key r =
     (case use_key H (fst a) (Some key) (snd a) r of
        (None, r') \<Rightarrow> (False, r')
      | (Some record, r') \<Rightarrow> (key_usage record = Single_Use, r'))"

definition step_without_issue :: "(string \<Rightarrow> string) \<Rightarrow> registry \<Rightarrow> key_event \<Rightarrow> registry" where
  "step_without_issue H r e =
     (case e of Create_Setup _ _ _ _ \<Rightarrow> r | Create_Once _ _ _ _ \<Rightarrow> r | _ \<Rightarrow> registry_step H r e)"

definition code_live :: "(string \<Rightarrow> string) \<Rightarrow> registry \<Rightarrow> string \<Rightarrow> bool" where
  "code_live H r key \<longleftrightarrow>
     (\<exists>k rec. normalizePassword (Some key) = Some k \<and> (H k, rec) \<in> set (records r)
        \<and> key_usage rec = Single_Use)"

definition fewer_single :: "registry \<Rightarrow> registry \<Rightarrow> bool" where
  "fewer_single r r' \<longleftrightarrow>
     (\<forall>l rec. (l, rec) \<in> set (records r') \<and> key_usage rec = Single_Use \<longrightarrow> (l, rec) \<in> set (records r))"

lemma fewer_single_refl: "fewer_single r r"
  by (simp add: fewer_single_def)

lemma fewer_single_dead: "fewer_single r r' \<Longrightarrow> \<not> code_live H r key \<Longrightarrow> \<not> code_live H r' key"
  unfolding fewer_single_def code_live_def by blast

lemma fewer_single_inspect: "fewer_single r (snd (inspect H now v r))"
  by (cases rule: inspect_cases [of H now v r]) (simp_all add: fewer_single_def set_jdel)

lemma fewer_single_use: "fewer_single r (snd (use_key H now v p r))"
  using fewer_single_inspect [of r H now v]
  by (auto simp: use_key_eq fewer_single_def set_jdel split: option.splits prod.splits)

lemma fewer_single_active: "fewer_single r (snd (active_key H now k r))"
  using fewer_single_inspect [of r H now k]
  by (auto simp: active_key_def fewer_single_refl split: option.splits prod.splits)

lemma fewer_single_trans: "fewer_single r r' \<Longrightarrow> fewer_single r' r'' \<Longrightarrow> fewer_single r r''"
  by (simp add: fewer_single_def)

lemma fewer_single_same: "records r' = records r \<Longrightarrow> fewer_single r r'"
  by (simp add: fewer_single_def)

lemma fewer_single_clear: "fewer_single r (clearPurpose H now p r)"
proof -
  let ?r1 = "r\<lparr>records := jkeep (\<lambda>_ rec. key_purpose rec \<noteq> p) (records r)\<rparr>"
  have keep: "fewer_single r ?r1" by (auto simp: fewer_single_def jkeep_def)
  have "\<exists>v. records (clearPurpose H now p r) = records (snd (inspect H now v ?r1))"
  proof (cases "p = Session_Purpose \<or> ephemeralKey r = None")
    case True
    then have "records (clearPurpose H now p r) = records (snd (inspect H now None ?r1))"
      by (auto simp: clearPurpose_def Let_def inspect_def normalizePassword_def)
    then show ?thesis ..
  next
    case False
    then have "records (clearPurpose H now p r) = records (snd (inspect H now (ephemeralKey r) ?r1))"
      by (auto simp: clearPurpose_def Let_def split: prod.splits)
    then show ?thesis ..
  qed
  then obtain v where v: "records (clearPurpose H now p r) = records (snd (inspect H now v ?r1))" ..
  from keep fewer_single_inspect have "fewer_single r (snd (inspect H now v ?r1))"
    by (rule fewer_single_trans)
  then show ?thesis using fewer_single_trans fewer_single_same [OF v] by blast
qed

lemma fewer_single_rotate:
  assumes "rotateSession H now uuid bs a l r = Some (r', out)"
  shows "fewer_single r r'"
proof -
  define r1 where "r1 = (case sessionKey r of None \<Rightarrow> r | Some old \<Rightarrow> r\<lparr>records := jdel (H old) (records r)\<rparr>)"
  have sub: "set (records r1) \<subseteq> set (records r)"
    by (auto simp: r1_def set_jdel split: option.splits)
  from assms obtain a' l' r2 out2
    where c: "create_key H now uuid bs Session_Purpose None Multi_Use a' (Some l') r1 = Some (r2, out2)"
      and r': "records r' = records r2"
    unfolding rotateSession_def Let_def r1_def [symmetric]
    by (auto split: option.splits sum.splits prod.splits)
  from c show ?thesis
  proof (cases rule: create_key_Some)
    case (error e)
    with r' sub show ?thesis by (auto simp: fewer_single_def)
  next
    case (created key rec)
    then have "set (records r2) \<subseteq> insert (H key, rec) (set (records r1))"
      using set_jset_subset by fastforce
    with r' sub created(3) show ?thesis by (auto simp: fewer_single_def)
  qed
qed

lemma fewer_single_step: "fewer_single r (step_without_issue H r e)"
proof (cases e)
  case (Rotate_Session now uuid bs a l)
  then show ?thesis
    by (auto simp: step_without_issue_def fewer_single_refl split: option.splits
        intro: fewer_single_rotate)
qed (simp_all add: step_without_issue_def fewer_single_refl fewer_single_inspect fewer_single_use
      fewer_single_clear fewer_single_active activeEphemeral_def activeSession_def)

lemma spend_code_True:
  assumes "fst (spend_code H a key r)"
  obtains k rec where "normalizePassword (Some key) = Some k" "jget (records r) (H k) = Some rec"
    "key_usage rec = Single_Use" "records (snd (spend_code H a key r)) = jdel (H k) (records r)"
proof -
  from assms obtain rec r' where u: "use_key H (fst a) (Some key) (snd a) r = (Some rec, r')"
    and s: "key_usage rec = Single_Use"
    by (auto simp: spend_code_def split: option.splits prod.splits)
  from u obtain r1 where i: "inspect H (fst a) (Some key) r = (Some rec, r1)"
    by (auto simp: use_key_eq split: option.splits prod.splits if_splits)
  from i show thesis
  proof (rule inspect_Some)
    fix k
    assume k: "normalizePassword (Some key) = Some k" "jget (records r) (H k) = Some rec" "r1 = r"
    with u i s have "records r' = jdel (H k) (records r)"
      by (auto simp: use_key_eq split: if_splits)
    with that k s u show thesis by (simp add: spend_code_def)
  qed
qed

lemma fewer_single_spend: "fewer_single r (snd (spend_code H a key r))"
  using fewer_single_use [of r H "fst a" "Some key" "snd a"]
  by (auto simp: spend_code_def split: option.splits prod.splits)

interpretation code_once: one_shot "spend_code H" "step_without_issue H" "code_live H" for H
proof
  fix a key r
  assume "fst (spend_code H a key r)"
  then show "code_live H r key"
    by (rule spend_code_True) (auto simp: code_live_def dest: jget_in_set)
next
  fix a key r
  assume "fst (spend_code H a key r)"
  then show "\<not> code_live H (snd (spend_code H a key r)) key"
    by (rule spend_code_True) (simp add: code_live_def set_jdel)
next
  fix r key a u
  assume "\<not> code_live H r key"
  then show "\<not> code_live H (snd (spend_code H a u r)) key"
    by (rule fewer_single_dead [OF fewer_single_spend])
next
  fix r key e
  assume "\<not> code_live H r key"
  then show "\<not> code_live H (step_without_issue H r e) key"
    by (rule fewer_single_dead [OF fewer_single_step])
qed

section \<open>Properties\<close>

text \<open>
  The sampling of one symbol is unbiased. For an alphabet of up to 256 symbols, every symbol is
  selected by exactly the same number of the 256 byte values; the bytes that would favour the first
  symbols are rejected.
\<close>

theorem randomIndex_unbiased:
  assumes "0 < n" "n \<le> 256" "i < n"
  shows "card {b. randomIndex n [b] = Some (i, [])} = 256 div n"
proof -
  let ?S = "{m::nat. m < (256 div n) * n \<and> m mod n = i}"
  have le: "(256 div n) * n \<le> 256" by simp
  have "bij_betw (unat :: byte \<Rightarrow> nat) {b. randomIndex n [b] = Some (i, [])} ?S"
  proof (rule bij_betw_byWitness [where f' = "of_nat"])
    have small: "unat (of_nat m :: byte) = m" if "m < (256 div n) * n" for m
    proof -
      have "m < 2 ^ LENGTH(8)" using less_le_trans [OF that le] by simp
      then show ?thesis by (simp add: unat_of_nat take_bit_nat_eq_self)
    qed
    then show "(of_nat :: nat \<Rightarrow> byte) ` ?S \<subseteq> {b. randomIndex n [b] = Some (i, [])}"
      and "\<forall>m \<in> ?S. unat (of_nat m :: byte) = m"
      by (auto simp: randomIndex_one_iff)
  qed (auto simp: randomIndex_one_iff)
  then have "card {b :: byte. randomIndex n [b] = Some (i, [])} = card ?S"
    by (rule bij_betw_same_card)
  also have "\<dots> = 256 div n" by (rule accepted_residues [OF assms(1,3)])
  finally show ?thesis .
qed

theorem randomIndex_unbiased_witness:
  "card {b. randomIndex 31 [b] = Some (30, [])} = 8"
  using randomIndex_unbiased [of 31 30] by simp

lemma record_at:
  assumes "reg_inv H r" "(l, x) \<in> set (records r)"
  shows "record_place H r l x"
  using assms unfolding reg_inv_def by blast

text \<open>Of the records of one kind only one can be there, as all are filed under the digest of one code.\<close>

lemma one_of_kind:
  assumes "jmap_ok m" "\<And>l x. (l, x) \<in> set m \<Longrightarrow> p x \<Longrightarrow> l = k"
  shows "length (filter p (jvals m)) \<le> 1"
proof -
  have "set (map fst (filter (\<lambda>q. p (snd q)) m)) \<subseteq> {k}" using assms(2) by auto
  moreover have "distinct (map fst (filter (\<lambda>q. p (snd q)) m))" using assms(1) by (simp add: jmap_ok_def distinct_map_filter)
  ultimately have "length (map fst (filter (\<lambda>q. p (snd q)) m)) \<le> card {k}" by (metis card_mono distinct_card finite.emptyI finite.insertI)
  then show ?thesis by (simp add: filter_map comp_def)
qed

lemma inspected_record:
  assumes "inspect H t v r = (Some x, r')"
  shows "\<exists>key. normalizePassword v = Some key \<and> (H key, x) \<in> set (records r)"
  using assms by (auto simp: inspect_def split: option.splits if_splits dest: map_of_SomeD)

text \<open>
  C2: whatever sequence of calls was made on a new registry and whatever the digest is, at most one standing code
  and at most one single-use code are live: the standing code that was drawn last, which may be used many times,
  and the single-use code that was drawn last. A code that was replaced is not found any more, unless its digest is that of
  the one in its place.
\<close>

theorem registry_two_codes:
  assumes "new_registry H now uuid bs a = Some (Inr r0)" "r = run (registry_step H) r0 es"
  shows "length (filter (\<lambda>x. key_purpose x = Session_Purpose) (jvals (records r))) \<le> 1
    \<and> length (filter (\<lambda>x. key_purpose x \<noteq> Session_Purpose) (jvals (records r))) \<le> 1
    \<and> (\<forall>t v x r'. inspect H t v r = (Some x, r') \<longrightarrow>
         (\<exists>key current. normalizePassword v = Some key \<and> H key = H current
            \<and> (if key_purpose x = Session_Purpose then sessionKey r = Some current \<and> key_usage x = Multi_Use
               else ephemeralKey r = Some current \<and> key_usage x = Single_Use)))"
proof -
  have inv: "reg_inv H r" unfolding assms(2) by (rule keys.run_inv [OF reg_inv_new [OF assms(1)]])
  then have ok: "jmap_ok (records r)" by (simp add: reg_inv_def)
  have "length (filter (\<lambda>x. key_purpose x = Session_Purpose) (jvals (records r))) \<le> 1"
    by (rule one_of_kind [OF ok, of _ "H (the (sessionKey r))"]) (auto simp: record_place_def dest!: record_at [OF inv] split: if_splits)
  moreover have "length (filter (\<lambda>x. key_purpose x \<noteq> Session_Purpose) (jvals (records r))) \<le> 1"
    by (rule one_of_kind [OF ok, of _ "H (the (ephemeralKey r))"]) (auto simp: record_place_def dest!: record_at [OF inv] split: if_splits)
  moreover have "\<exists>key current. normalizePassword v = Some key \<and> H key = H current
      \<and> (if key_purpose x = Session_Purpose then sessionKey r = Some current \<and> key_usage x = Multi_Use
         else ephemeralKey r = Some current \<and> key_usage x = Single_Use)"
    if i: "inspect H t v r = (Some x, r')" for t v x r'
  proof -
    from inspected_record [OF i] obtain key where key: "normalizePassword v = Some key" "(H key, x) \<in> set (records r)" by blast
    from record_at [OF inv key(2)] key(1) show ?thesis by (cases "key_usage x") (auto simp: record_place_def split: if_splits)
  qed
  ultimately show ?thesis by blast
qed

theorem registry_two_codes_witness:
  "\<exists>r. new_registry id 0 ''u0'' (replicate 8 0) ''letters'' = Some (Inr r) \<and>
       length (filter (\<lambda>x. key_purpose x \<noteq> Session_Purpose) (jvals (records (run (registry_step id) r
         [Create_Once 5 ''u1'' (replicate 8 1) \<lparr>opt_ttlMs = None, opt_alphabet = None, opt_limits = None\<rparr>,
          Create_Once 6 ''u2'' (replicate 8 2) \<lparr>opt_ttlMs = None, opt_alphabet = None, opt_limits = None\<rparr>])))) \<le> 1
     \<and> fst (inspect id 7 (Some ''BBBB-BBBB'') (run (registry_step id) r
         [Create_Once 5 ''u1'' (replicate 8 1) \<lparr>opt_ttlMs = None, opt_alphabet = None, opt_limits = None\<rparr>])) \<noteq> None"
proof -
  have "(case new_registry id 0 ''u0'' (replicate 8 0) ''letters'' of
      Some (Inr r) \<Rightarrow> fst (inspect id 7 (Some ''BBBB-BBBB'') (run (registry_step id) r
         [Create_Once 5 ''u1'' (replicate 8 1) \<lparr>opt_ttlMs = None, opt_alphabet = None, opt_limits = None\<rparr>])) \<noteq> None
    | _ \<Rightarrow> False)"
    by code_simp
  then obtain r where r: "new_registry id 0 ''u0'' (replicate 8 0) ''letters'' = Some (Inr r)"
    "fst (inspect id 7 (Some ''BBBB-BBBB'') (run (registry_step id) r
         [Create_Once 5 ''u1'' (replicate 8 1) \<lparr>opt_ttlMs = None, opt_alphabet = None, opt_limits = None\<rparr>])) \<noteq> None"
    by (auto split: option.splits sum.splits)
  then show ?thesis using registry_two_codes [OF r(1) refl] by blast
qed

text \<open>
  C1: a single-use code is accepted at most once, in every sequence of uses (of this and other codes,
  at any times) and of other registry operations that issues no new single-use code. The digest is
  arbitrary.
\<close>

theorem single_use_code_once:
  "times_spent (spend_code H) (step_without_issue H) key r es \<le> 1"
  by (rule code_once.spent_at_most_once)

lemma lowered_symbol:
  assumes "is_symbol c"
  shows "\<not> is_space (lower_char c)" and "upper_char (lower_char c) = [c]" and "lower_char c \<noteq> CHR ''-''"
proof -
  have "list_all (\<lambda>c. is_digit c \<or> is_upper c) code_symbols" by code_simp
  with assms have "is_digit c \<or> is_upper c" by (auto simp: is_symbol_def list_all_iff)
  then have "(code (lower_char c) = code c \<and> is_digit c) \<or> (code (lower_char c) = code c + 32 \<and> is_upper c)"
    by (auto simp: lower_char_def code_char_of is_upper_def is_digit_def)
  then show "\<not> is_space (lower_char c)" and "upper_char (lower_char c) = [c]" and "lower_char c \<noteq> CHR ''-''"
    using code_dash
    by (auto simp: upper_char_def is_space_def is_lower_def is_upper_def is_digit_def code_inject char_of_code
        dest: arg_cong [where f = code])
qed

lemma lower_dash: "lower_char (CHR ''-'') = CHR ''-''"
  by code_simp

lemma js_upper_lower: "list_all is_symbol s \<Longrightarrow> js_upper (js_lower s) = s"
  by (induction s) (simp_all add: js_upper_def js_lower_def lowered_symbol)

lemma js_upper_append: "js_upper (a @ b) = js_upper a @ js_upper b"
  by (simp add: js_upper_def)

lemma normalize_typed:
  assumes xy: "length x = 4" "length y = 4" "list_all is_symbol x" "list_all is_symbol y"
    and pad: "\<forall>c \<in> set p. is_space c" "\<forall>c \<in> set q. is_space c"
    and mid: "\<forall>c \<in> set t. \<not> is_space c" "js_upper t = x @ y \<or> js_upper t = x @ ''-'' @ y"
  shows "normalizePassword (Some (p @ t @ q)) = Some (x @ ''-'' @ y)"
proof -
  have "js_trim (p @ t @ q) = t" by (rule js_trim_pad [OF pad mid(1)])
  moreover have "code_shape (js_upper t) \<and> remove1 (CHR ''-'') (js_upper t) = x @ y"
    using mid(2) code_shapeI [OF xy] remove1_dash [OF xy(1,3,4)] by metis
  ultimately have "normalizePassword (Some (p @ t @ q)) = Some (take 4 (x @ y) @ ''-'' @ drop 4 (x @ y))"
    unfolding normalizePassword_def Let_def option.case by simp
  then show ?thesis using xy(1) by simp
qed

text \<open>
  Every code the generator makes is recognised however it is typed: with any white space around
  it, in capitals or small letters, with or without the dash, it has exactly that code as its normal
  form.
\<close>

theorem generated_code_recognised:
  assumes "generate a bs = Inr (Some (key, bs'))"
    and "\<forall>c \<in> set p. is_space c" "\<forall>c \<in> set q. is_space c"
  shows "normalizePassword (Some (p @ key @ q)) = Some key
    \<and> normalizePassword (Some (p @ js_lower key @ q)) = Some key
    \<and> normalizePassword (Some (p @ js_lower (remove1 (CHR ''-'') key) @ q)) = Some key"
  using assms(1)
proof (rule generate_shape)
  fix x y
  assume xy: "length x = 4" "length y = 4" "list_all is_symbol x" "list_all is_symbol y"
    and key: "key = x @ ''-'' @ y"
  have "\<forall>c \<in> set key. upper_char c = [c]"
    using xy symbol_facts(3) dash_facts(2) by (auto simp: key list_all_iff)
  then have up: "js_upper key = x @ ''-'' @ y"
    by (simp only: js_upper_id key)
  have low: "js_upper (js_lower key) = x @ ''-'' @ y" "js_upper (js_lower (x @ y)) = x @ y"
    using js_upper_lower [OF xy(3)] js_upper_lower [OF xy(4)] dash_facts(2)
    by (simp_all add: key js_upper_append js_lower_def lower_dash)
      (simp add: js_upper_def dash_facts(2))
  have ns: "\<forall>c \<in> set key. \<not> is_space c" "\<forall>c \<in> set (js_lower key). \<not> is_space c"
    "\<forall>c \<in> set (js_lower (x @ y)). \<not> is_space c"
    using xy symbol_facts(2) lowered_symbol(1) dash_facts(1)
    by (auto simp: key js_lower_def lower_dash list_all_iff)
  have "remove1 (CHR ''-'') key = x @ y"
    unfolding key by (rule remove1_dash(1) [OF xy(1,3,4)])
  then show ?thesis
    using normalize_typed [OF xy assms(2,3) ns(1)] normalize_typed [OF xy assms(2,3) ns(2)]
      normalize_typed [OF xy assms(2,3) ns(3)] up low
    by (simp add: key)
qed

theorem generated_code_recognised_witness:
  "normalizePassword (Some (''  '' @ js_lower (remove1 (CHR ''-'') ''ABCD-ABCD'') @ '' '')) = Some ''ABCD-ABCD''"
proof -
  have g: "generate ''letters'' [0, 1, 2, 3, 23, 24, 25, 26] = Inr (Some (''ABCD-ABCD'', []))"
    by code_simp
  have p: "\<forall>c \<in> set ''  ''. is_space c" and q: "\<forall>c \<in> set '' ''. is_space c"
    by code_simp+
  show ?thesis using generated_code_recognised [OF g p q] by blast
qed

end
