(* ===== verification/SessionStore.thy ===== *)
theory SessionStore
  imports ConnectionKeys MediaModes
begin

text \<open>
  \<^verbatim>\<open>apps/server/src/session-store.mjs\<close>: the viewer sessions, their expiry, the admission of a
  viewer by connection code or as an approved client, and the rate limit on wrong codes. The
  callbacks \<^verbatim>\<open>onRevoke\<close> and \<^verbatim>\<open>onConnect\<close> are recorded in call order. The session limit is read at each
  admission (the source accepts a function), so it is an argument of the operations that read it;
  a fresh \<^verbatim>\<open>randomUUID\<close> is an argument too.
\<close>

section \<open>State\<close>

record ('p, 'd) session =
  s_sessionId :: string
  s_clientKey :: string
  s_approvedClientId :: "string option"
  s_approvedGeneration :: "int option"
  s_device :: string
  s_createdAt :: int
  s_lastSeenAt :: int
  s_controlEnabled :: bool
  s_profile :: "'p option"
  s_audio :: audio_mode
  s_display :: "'d option"
  s_inventoryRevision :: "string option"
  s_policyRevision :: "int option"

datatype session_call = Revoked string | Connected string

record store_config =
  sessionTtlMs :: int
  maxAttempts :: nat
  windowMs :: int

record ('p, 'd) store =
  sessions :: "(string, ('p, 'd) session) jmap"
  failedAttempts :: "(string, int list) jmap"
  store_keys :: registry
  store_password :: "string option"
  calls :: "session_call list"

definition default_config :: store_config where
  "default_config = \<lparr>sessionTtlMs = 20000, maxAttempts = 5, windowMs = 60 * 1000\<rparr>"

definition isValidPasswordFormat :: "string option \<Rightarrow> bool" where
  "isValidPasswordFormat v =
     (case v of None \<Rightarrow> False
      | Some s \<Rightarrow> length s = 9 \<and> s ! 4 = CHR ''-''
          \<and> list_all is_symbol (take 4 s) \<and> list_all is_symbol (drop 5 s))"

definition maxSessions :: "jsvalue \<Rightarrow> int result" where
  "maxSessions limit =
     (if \<not> whole_between 1 64 limit then Inl ''Invalid session limit'' else Inr (whole_value limit))"

definition new_store :: "registry \<Rightarrow> jsvalue \<Rightarrow> ('p, 'd) store result" where
  "new_store reg limit =
     (case maxSessions limit of
        Inl e \<Rightarrow> Inl e
      | Inr _ \<Rightarrow> Inr \<lparr>sessions = [], failedAttempts = [], store_keys = reg,
                        store_password = sessionKey reg, calls = []\<rparr>)"

section \<open>Removal and expiry\<close>

definition disconnect :: "string \<Rightarrow> ('p, 'd) store \<Rightarrow> bool \<times> ('p, 'd) store" where
  "disconnect sid st =
     (if \<not> jhas (sessions st) sid then (False, st)
      else (True, st\<lparr>sessions := jdel sid (sessions st), calls := calls st @ [Revoked sid]\<rparr>))"

definition expired :: "store_config \<Rightarrow> int \<Rightarrow> ('p, 'd) session \<Rightarrow> bool" where
  "expired cfg now s \<longleftrightarrow> sessionTtlMs cfg \<le> now - s_lastSeenAt s"

definition disconnect_all :: "string list \<Rightarrow> ('p, 'd) store \<Rightarrow> ('p, 'd) store" where
  "disconnect_all sids st = fold (\<lambda>sid st. snd (disconnect sid st)) sids st"

definition sweep :: "store_config \<Rightarrow> int \<Rightarrow> ('p, 'd) store \<Rightarrow> ('p, 'd) store" where
  "sweep cfg now st =
     (let st1 = disconnect_all (map fst (filter (\<lambda>(_, s). expired cfg now s) (sessions st))) st
      in st1\<lparr>failedAttempts :=
            jkeep (\<lambda>_ ts. ts \<noteq> []) (jmapv (\<lambda>ts. recent ts now (windowMs cfg)) (failedAttempts st1))\<rparr>)"

definition list_sessions :: "store_config \<Rightarrow> int \<Rightarrow> ('p, 'd) store \<Rightarrow> ('p, 'd) session list \<times> ('p, 'd) store" where
  "list_sessions cfg now st = (let st1 = sweep cfg now st in (jvals (sessions st1), st1))"

definition peek :: "store_config \<Rightarrow> int \<Rightarrow> string \<Rightarrow> ('p, 'd) store \<Rightarrow> ('p, 'd) session option \<times> ('p, 'd) store" where
  "peek cfg now sid st =
     (case jget (sessions st) sid of
        None \<Rightarrow> (None, st)
      | Some s \<Rightarrow> if expired cfg now s then (None, snd (disconnect sid st)) else (Some s, st))"

definition get :: "store_config \<Rightarrow> int \<Rightarrow> string \<Rightarrow> ('p, 'd) store \<Rightarrow> ('p, 'd) session option \<times> ('p, 'd) store" where
  "get cfg now sid st =
     (case peek cfg now sid st of
        (None, st1) \<Rightarrow> (None, st1)
      | (Some s, st1) \<Rightarrow>
          (let s' = s\<lparr>s_lastSeenAt := now\<rparr> in (Some s', st1\<lparr>sessions := jset sid s' (sessions st1)\<rparr>)))"

section \<open>Admission\<close>

datatype admission = Admitted string | Refused string

definition device_of :: "string \<Rightarrow> string" where
  "device_of userAgent =
     (if contains_ci ''iPhone'' userAgent then ''iPhone''
      else if contains_ci ''iPad'' userAgent then ''iPad''
      else if contains_ci ''Macintosh'' userAgent then ''Mac browser''
      else if contains_ci ''Windows'' userAgent then ''Windows browser''
      else if contains_ci ''Android'' userAgent then ''Android device''
      else ''Browser client'')"

definition createSession ::
  "int \<Rightarrow> string \<Rightarrow> string \<Rightarrow> string \<Rightarrow> (string \<times> int) option \<Rightarrow> ('p, 'd) store \<Rightarrow> admission \<times> ('p, 'd) store" where
  "createSession now uuid clientKey userAgent approved st =
     (Admitted uuid,
      st\<lparr>sessions := jset uuid
            \<lparr>s_sessionId = uuid, s_clientKey = clientKey,
             s_approvedClientId = map_option fst approved,
             s_approvedGeneration = map_option snd approved,
             s_device = device_of userAgent, s_createdAt = now, s_lastSeenAt = now,
             s_controlEnabled = False, s_profile = None, s_audio = chooseAudioMode None,
             s_display = None, s_inventoryRevision = None, s_policyRevision = None\<rparr> (sessions st),
          calls := calls st @ [Connected uuid]\<rparr>)"

text \<open>
  The order is the source's: expiry, the limit on wrong codes, the look at the code, the session
  limit, and only then the use of the code. An error leaves the store as far as it got.
\<close>

definition connect ::
  "(string \<Rightarrow> string) \<Rightarrow> store_config \<Rightarrow> int \<Rightarrow> jsvalue \<Rightarrow> string \<Rightarrow> string option \<Rightarrow> string \<Rightarrow> string
    \<Rightarrow> ('p, 'd) store \<Rightarrow> admission result \<times> ('p, 'd) store" where
  "connect H cfg now limit uuid pw clientKey userAgent st0 =
     (let st1 = sweep cfg now st0;
          fa = jevict 1024 clientKey (failedAttempts st1);
          st2 = st1\<lparr>failedAttempts := fa\<rparr>;
          attempts = recent (case jget fa clientKey of Some ts \<Rightarrow> ts | None \<Rightarrow> []) now (windowMs cfg)
      in if maxAttempts cfg \<le> length attempts
         then (Inr (Refused ''rate-limited''), st2\<lparr>failedAttempts := jset clientKey attempts fa\<rparr>)
         else
           (let (found, reg) = inspect H now pw (store_keys st2);
                st3 = st2\<lparr>store_keys := reg\<rparr>
            in case found of
                 None \<Rightarrow> (Inr (Refused ''invalid-password''),
                          st3\<lparr>failedAttempts := jset clientKey (attempts @ [now]) fa\<rparr>)
               | Some rec \<Rightarrow>
                   if key_purpose rec \<notin> {Session_Purpose, Once_Purpose}
                   then (Inr (Refused ''invalid-password''),
                         st3\<lparr>failedAttempts := jset clientKey (attempts @ [now]) fa\<rparr>)
                   else case maxSessions limit of
                     Inl e \<Rightarrow> (Inl e, st3)
                   | Inr lim \<Rightarrow>
                       if lim \<le> int (length (sessions st3)) then (Inr (Refused ''busy''), st3)
                       else
                         (let (used, reg2) = use_key H now pw (key_purpose rec) (store_keys st3);
                              st4 = st3\<lparr>store_keys := reg2\<rparr>
                          in if used = None then (Inr (Refused ''invalid-password''), st4)
                             else
                               (let (a, st5) = createSession now uuid clientKey userAgent None
                                      (st4\<lparr>failedAttempts := jdel clientKey fa\<rparr>)
                                in (Inr a, st5)))))"

text \<open>An approved client is its id and generation; an absent client or an empty id is refused.\<close>

definition connectApproved ::
  "store_config \<Rightarrow> int \<Rightarrow> jsvalue \<Rightarrow> string \<Rightarrow> (string \<times> int) option \<Rightarrow> string \<Rightarrow> string
    \<Rightarrow> ('p, 'd) store \<Rightarrow> admission result \<times> ('p, 'd) store" where
  "connectApproved cfg now limit uuid approved clientKey userAgent st0 =
     (let st1 = sweep cfg now st0
      in case approved of
           None \<Rightarrow> (Inr (Refused ''invalid-client''), st1)
         | Some (cid, gen) \<Rightarrow>
             if cid = [] then (Inr (Refused ''invalid-client''), st1)
             else if \<exists>s \<in> set (jvals (sessions st1)). s_approvedClientId s = Some cid
             then (Inr (Refused ''already-in-use''), st1)
             else case maxSessions limit of
               Inl e \<Rightarrow> (Inl e, st1)
             | Inr lim \<Rightarrow>
                 if lim \<le> int (length (sessions st1)) then (Inr (Refused ''busy''), st1)
                 else (let (a, st2) = createSession now uuid clientKey userAgent (Some (cid, gen)) st1
                       in (Inr a, st2)))"

definition replaceSession ::
  "store_config \<Rightarrow> int \<Rightarrow> string \<Rightarrow> string \<Rightarrow> ('p, 'd) store \<Rightarrow> admission \<times> ('p, 'd) store" where
  "replaceSession cfg now uuid sid st =
     (case get cfg now sid st of
        (None, st1) \<Rightarrow> (Refused ''inactive-session'', st1)
      | (Some previous, st1) \<Rightarrow>
          (let st2 = snd (disconnect sid st1)
           in (Admitted uuid,
               st2\<lparr>sessions := jset uuid
                 (previous\<lparr>s_sessionId := uuid, s_createdAt := now, s_lastSeenAt := now,
                           s_controlEnabled := False\<rparr>) (sessions st2)\<rparr>)))"

section \<open>Updates of one session\<close>

definition setControl :: "store_config \<Rightarrow> int \<Rightarrow> string \<Rightarrow> bool \<Rightarrow> ('p, 'd) store \<Rightarrow> bool option \<times> ('p, 'd) store" where
  "setControl cfg now sid enabled st =
     (case get cfg now sid st of
        (None, st1) \<Rightarrow> (None, st1)
      | (Some s, st1) \<Rightarrow>
          (Some enabled, st1\<lparr>sessions := jset sid (s\<lparr>s_controlEnabled := enabled, s_lastSeenAt := now\<rparr>) (sessions st1)\<rparr>))"

definition update_session ::
  "(('p, 'd) session \<Rightarrow> ('p, 'd) session) \<Rightarrow> string \<Rightarrow> ('p, 'd) store \<Rightarrow> bool \<times> ('p, 'd) store" where
  "update_session f sid st =
     (case jget (sessions st) sid of
        None \<Rightarrow> (False, st)
      | Some s \<Rightarrow> (True, st\<lparr>sessions := jset sid (f s) (sessions st)\<rparr>))"

definition setProfile :: "'p \<Rightarrow> string \<Rightarrow> ('p, 'd) store \<Rightarrow> bool \<times> ('p, 'd) store" where
  "setProfile profile = update_session (s_profile_update (\<lambda>_. Some profile))"

definition setDisplay :: "'d option \<Rightarrow> string option \<Rightarrow> string \<Rightarrow> ('p, 'd) store \<Rightarrow> ('p, 'd) store" where
  "setDisplay display revision sid st =
     snd (update_session (\<lambda>s. s\<lparr>s_display := display, s_inventoryRevision := revision\<rparr>) sid st)"

definition setAudio :: "audio_mode \<Rightarrow> string \<Rightarrow> ('p, 'd) store \<Rightarrow> bool \<times> ('p, 'd) store" where
  "setAudio audio = update_session (s_audio_update (\<lambda>_. audio))"

definition setPolicyRevision :: "int option \<Rightarrow> string \<Rightarrow> ('p, 'd) store \<Rightarrow> ('p, 'd) store" where
  "setPolicyRevision revision sid st = snd (update_session (s_policyRevision_update (\<lambda>_. revision)) sid st)"

section \<open>The standing code\<close>

definition rotateConnectionKey ::
  "(string \<Rightarrow> string) \<Rightarrow> int \<Rightarrow> string \<Rightarrow> byte list \<Rightarrow> string option \<Rightarrow> attempt_limits option
    \<Rightarrow> ('p, 'd) store \<Rightarrow> (string result \<times> ('p, 'd) store) option" where
  "rotateConnectionKey H now uuid bs alphabet limits st =
     (case rotateSession H now uuid bs alphabet limits (store_keys st) of
        None \<Rightarrow> None
      | Some (reg, Inl e) \<Rightarrow> Some (Inl e, st\<lparr>store_keys := reg\<rparr>)
      | Some (reg, Inr key) \<Rightarrow> Some (Inr key, st\<lparr>store_keys := reg, store_password := Some key\<rparr>))"

definition rotatePassword ::
  "(string \<Rightarrow> string) \<Rightarrow> int \<Rightarrow> string \<Rightarrow> byte list \<Rightarrow> ('p, 'd) store \<Rightarrow> (string result \<times> ('p, 'd) store) option" where
  "rotatePassword H now uuid bs st =
     rotateConnectionKey H now uuid bs None None (disconnect_all (jkeys (sessions st)) st)"

definition stop_store where
  "stop_store H now uuid bs st = map_option snd (rotatePassword H now uuid bs st)"

section \<open>Operations as events\<close>

datatype ('p, 'd) store_event =
    Connect int jsvalue string "string option" string string
  | Connect_Approved int jsvalue string "(string \<times> int) option" string string
  | Get int string
  | Peek int string
  | Replace int string string
  | Set_Control int string bool
  | Set_Profile 'p string
  | Set_Display "'d option" "string option" string
  | Set_Audio audio_mode string
  | Set_Policy_Revision "int option" string
  | Disconnect string
  | Sweep int
  | Rotate_Key int string "byte list" "string option" "attempt_limits option"
  | Rotate_Password int string "byte list"

fun store_step ::
  "(string \<Rightarrow> string) \<Rightarrow> store_config \<Rightarrow> ('p, 'd) store \<Rightarrow> ('p, 'd) store_event \<Rightarrow> ('p, 'd) store" where
  "store_step H cfg st (Connect now limit uuid pw ck ua) = snd (connect H cfg now limit uuid pw ck ua st)"
| "store_step H cfg st (Connect_Approved now limit uuid ac ck ua) = snd (connectApproved cfg now limit uuid ac ck ua st)"
| "store_step H cfg st (Get now sid) = snd (get cfg now sid st)"
| "store_step H cfg st (Peek now sid) = snd (peek cfg now sid st)"
| "store_step H cfg st (Replace now uuid sid) = snd (replaceSession cfg now uuid sid st)"
| "store_step H cfg st (Set_Control now sid b) = snd (setControl cfg now sid b st)"
| "store_step H cfg st (Set_Profile p sid) = snd (setProfile p sid st)"
| "store_step H cfg st (Set_Display d rv sid) = setDisplay d rv sid st"
| "store_step H cfg st (Set_Audio a sid) = snd (setAudio a sid st)"
| "store_step H cfg st (Set_Policy_Revision rv sid) = setPolicyRevision rv sid st"
| "store_step H cfg st (Disconnect sid) = snd (disconnect sid st)"
| "store_step H cfg st (Sweep now) = sweep cfg now st"
| "store_step H cfg st (Rotate_Key now uuid bs a l) =
     (case rotateConnectionKey H now uuid bs a l st of None \<Rightarrow> st | Some (_, st') \<Rightarrow> st')"
| "store_step H cfg st (Rotate_Password now uuid bs) =
     (case rotatePassword H now uuid bs st of None \<Rightarrow> disconnect_all (jkeys (sessions st)) st | Some (_, st') \<Rightarrow> st')"

section \<open>The session table\<close>

definition one_per_client :: "(string, ('p, 'd) session) jmap \<Rightarrow> bool" where
  "one_per_client m \<longleftrightarrow> (\<forall>p \<in> set m. \<forall>q \<in> set m. s_approvedClientId (snd p) \<noteq> None
     \<and> s_approvedClientId (snd p) = s_approvedClientId (snd q) \<longrightarrow> p = q)"

definition sess_inv :: "(string, ('p, 'd) session) jmap \<Rightarrow> bool" where
  "sess_inv m \<longleftrightarrow> jmap_ok m \<and> length m \<le> 64 \<and> (\<forall>p \<in> set m. s_sessionId (snd p) = fst p)
     \<and> one_per_client m"

lemma sess_inv_subset:
  assumes "sess_inv m" "set m' \<subseteq> set m" "jmap_ok m'" "length m' \<le> length m"
  shows "sess_inv m'"
proof -
  have "one_per_client m'" using assms(1,2) unfolding sess_inv_def one_per_client_def by blast
  moreover have "\<forall>p \<in> set m'. s_sessionId (snd p) = fst p" using assms(1,2) unfolding sess_inv_def by blast
  ultimately show ?thesis using assms by (simp add: sess_inv_def)
qed

lemma sess_inv_jdel: "sess_inv m \<Longrightarrow> sess_inv (jdel k m)"
  by (rule sess_inv_subset) (auto simp: set_jdel length_jdel_le sess_inv_def)

lemma sess_inv_jkeep: "sess_inv m \<Longrightarrow> sess_inv (jkeep p m)"
  by (rule sess_inv_subset) (auto simp: jkeep_def length_jkeep_le sess_inv_def distinct_map_filter jmap_ok_def)

lemma sess_inv_put:
  assumes "sess_inv m" "s_sessionId s = sid" "length (jset sid s m) \<le> 64"
    and new: "\<forall>q \<in> set m. fst q \<noteq> sid \<and> s_approvedClientId s \<noteq> None \<longrightarrow>
      s_approvedClientId (snd q) \<noteq> s_approvedClientId s"
  shows "sess_inv (jset sid s m)"
proof -
  have ok: "jmap_ok m" using assms(1) by (simp add: sess_inv_def)
  have old: "one_per_client m" using assms(1) by (simp add: sess_inv_def)
  have "p = q" if "p \<in> set (jset sid s m)" "q \<in> set (jset sid s m)"
    "s_approvedClientId (snd p) \<noteq> None" "s_approvedClientId (snd p) = s_approvedClientId (snd q)" for p q
  proof -
    have "p = (sid, s) \<or> p \<in> set m \<and> fst p \<noteq> sid" "q = (sid, s) \<or> q \<in> set m \<and> fst q \<noteq> sid"
      using that(1,2) unfolding set_jset [OF ok] by auto
    then show ?thesis using that(3,4) new old unfolding one_per_client_def by (metis snd_conv)
  qed
  then have "one_per_client (jset sid s m)" unfolding one_per_client_def by blast
  moreover have "\<forall>p \<in> set (jset sid s m). s_sessionId (snd p) = fst p"
    unfolding set_jset [OF ok] using assms(1,2) by (auto simp: sess_inv_def)
  ultimately show ?thesis using assms(3) ok by (simp add: sess_inv_def)
qed

lemma sess_inv_replace:
  assumes "sess_inv m" "jget m sid = Some s" "s_sessionId s' = s_sessionId s"
    and "s_approvedClientId s' = s_approvedClientId s"
  shows "sess_inv (jset sid s' m)"
proof (rule sess_inv_put [OF assms(1)])
  have mem: "(sid, s) \<in> set m" using assms(2) by (rule jget_in_set)
  then show "s_sessionId s' = sid" using assms(1,3) by (auto simp: sess_inv_def)
  show "length (jset sid s' m) \<le> 64"
    using assms(1,2) by (simp add: length_jset jhas_def sess_inv_def)
  show "\<forall>q \<in> set m. fst q \<noteq> sid \<and> s_approvedClientId s' \<noteq> None \<longrightarrow>
      s_approvedClientId (snd q) \<noteq> s_approvedClientId s'"
    using assms(1,4) mem unfolding sess_inv_def one_per_client_def by (metis fst_conv snd_conv)
qed

lemma disconnect_simps [simp]:
  "sessions (snd (disconnect sid st)) = jdel sid (sessions st)"
  "failedAttempts (snd (disconnect sid st)) = failedAttempts st"
  "store_keys (snd (disconnect sid st)) = store_keys st"
  "store_password (snd (disconnect sid st)) = store_password st"
  "calls (snd (disconnect sid st)) = calls st @ (if jhas (sessions st) sid then [Revoked sid] else [])"
  by (simp_all add: disconnect_def jhas_def map_of_eq_None_iff)

lemma disconnect_all_same [simp]:
  "failedAttempts (disconnect_all sids st) = failedAttempts st"
  "store_keys (disconnect_all sids st) = store_keys st"
  "store_password (disconnect_all sids st) = store_password st"
  by (induction sids arbitrary: st) (simp_all add: disconnect_all_def)

lemma disconnect_all_sessions:
  "sessions (disconnect_all sids st) = jkeep (\<lambda>k _. k \<notin> set sids) (sessions st)"
proof (induction sids arbitrary: st)
  case Nil
  then show ?case by (simp add: disconnect_all_def jkeep_def case_prod_beta)
next
  case (Cons sid sids)
  have "disconnect_all (sid # sids) st = disconnect_all sids (snd (disconnect sid st))"
    by (simp add: disconnect_all_def)
  then show ?case
    by (auto simp: Cons.IH jkeep_def AList.delete_eq intro!: filter_cong)
qed

lemma disconnect_all_calls:
  assumes "distinct sids" "set sids \<subseteq> set (jkeys (sessions st))"
  shows "calls (disconnect_all sids st) = calls st @ map Revoked sids"
  using assms
proof (induction sids arbitrary: st)
  case Nil
  then show ?case by (simp add: disconnect_all_def)
next
  case (Cons sid sids)
  have e: "disconnect_all (sid # sids) st = disconnect_all sids (snd (disconnect sid st))"
    by (simp add: disconnect_all_def)
  have "set sids \<subseteq> set (jkeys (sessions (snd (disconnect sid st))))"
    using Cons.prems by (auto simp: set_jdel) force
  with Cons show ?case unfolding e by (simp add: jhas_iff)
qed

section \<open>The invariant\<close>

definition rows_inv :: "store_config \<Rightarrow> (string, int list) jmap \<Rightarrow> bool" where
  "rows_inv cfg m \<longleftrightarrow> jmap_ok m \<and> length m \<le> 1024 \<and> (\<forall>(ck, ts) \<in> set m. length ts \<le> maxAttempts cfg)"

definition store_inv :: "(string \<Rightarrow> string) \<Rightarrow> store_config \<Rightarrow> ('p, 'd) store \<Rightarrow> bool" where
  "store_inv H cfg st \<longleftrightarrow> sess_inv (sessions st) \<and> rows_inv cfg (failedAttempts st) \<and> reg_inv H (store_keys st)"

lemma rows_inv_jset:
  assumes "rows_inv cfg m" "length ts \<le> maxAttempts cfg"
  shows "rows_inv cfg (jset ck ts (jevict 1024 ck m))"
proof -
  have ok: "jmap_ok (jevict 1024 ck m)" using assms(1) by (simp add: rows_inv_def)
  have "length (jset ck ts (jevict 1024 ck m)) \<le> 1024"
    using assms(1) by (intro length_jevict_jset) (simp_all add: rows_inv_def)
  moreover have "\<forall>(ck', ts') \<in> set (jset ck ts (jevict 1024 ck m)). length ts' \<le> maxAttempts cfg"
    unfolding set_jset [OF ok] using assms set_jevict [of 1024 ck m] by (auto simp: rows_inv_def)
  ultimately show ?thesis using ok by (simp add: rows_inv_def)
qed

lemma rows_inv_subset:
  "rows_inv cfg m \<Longrightarrow> set m' \<subseteq> set m \<Longrightarrow> jmap_ok m' \<Longrightarrow> length m' \<le> length m \<Longrightarrow> rows_inv cfg m'"
  by (fastforce simp: rows_inv_def)

lemma rows_inv_jevict: "rows_inv cfg m \<Longrightarrow> rows_inv cfg (jevict n ck m)"
  by (rule rows_inv_subset [OF _ set_jevict]) (auto simp: rows_inv_def jevict_def jmap_ok_def drop_map [symmetric])

lemma rows_inv_jdel: "rows_inv cfg m \<Longrightarrow> rows_inv cfg (jdel ck m)"
  by (rule rows_inv_subset) (auto simp: set_jdel length_jdel_le rows_inv_def)

lemma rows_inv_swept:
  assumes "rows_inv cfg m"
  shows "rows_inv cfg (jkeep (\<lambda>_ ts. ts \<noteq> []) (jmapv (\<lambda>ts. recent ts now w) m))"
proof -
  have "rows_inv cfg (jmapv (\<lambda>ts. recent ts now w) m)"
    using assms by (fastforce simp: rows_inv_def jmapv_def jmap_ok_def comp_def case_prod_beta
        intro: order_trans [OF length_recent_le])
  then show ?thesis
    by (rule rows_inv_subset [OF _ set_jkeep_subset])
      (use assms in \<open>simp_all only: rows_inv_def jmap_ok_jkeep jmap_ok_jmapv length_jkeep_le\<close>)
qed

lemma sweep_simps [simp]:
  "sessions (sweep cfg now st) = jkeep (\<lambda>k _. k \<notin> set (map fst (filter (\<lambda>(_, s). expired cfg now s) (sessions st)))) (sessions st)"
  "failedAttempts (sweep cfg now st) =
     jkeep (\<lambda>_ ts. ts \<noteq> []) (jmapv (\<lambda>ts. recent ts now (windowMs cfg)) (failedAttempts st))"
  "store_keys (sweep cfg now st) = store_keys st"
  by (simp_all add: sweep_def Let_def disconnect_all_sessions)

lemma store_inv_sweep: "store_inv H cfg st \<Longrightarrow> store_inv H cfg (sweep cfg now st)"
  by (simp add: store_inv_def sess_inv_jkeep rows_inv_swept del: set_map)

lemma store_inv_disconnect: "store_inv H cfg st \<Longrightarrow> store_inv H cfg (snd (disconnect sid st))"
  by (simp add: store_inv_def sess_inv_jdel)

lemma store_inv_disconnect_all: "store_inv H cfg st \<Longrightarrow> store_inv H cfg (disconnect_all sids st)"
  by (simp add: store_inv_def disconnect_all_sessions sess_inv_jkeep)

lemma store_inv_peek: "store_inv H cfg st \<Longrightarrow> store_inv H cfg (snd (peek cfg now sid st))"
  by (simp add: peek_def store_inv_disconnect split: option.splits)

lemma peek_Some: "peek cfg now sid st = (Some s, st') \<Longrightarrow>
    st' = st \<and> jget (sessions st) sid = Some s \<and> \<not> expired cfg now s"
  by (auto simp: peek_def split: option.splits if_splits)

lemma get_Some: "get cfg now sid st = (Some s', st') \<Longrightarrow> \<exists>s. jget (sessions st) sid = Some s
    \<and> \<not> expired cfg now s \<and> s' = s\<lparr>s_lastSeenAt := now\<rparr>
    \<and> st' = st\<lparr>sessions := jset sid s' (sessions st)\<rparr>"
  by (auto simp: get_def Let_def split: option.splits prod.splits dest!: peek_Some)

lemma get_None: "get cfg now sid st = (None, st') \<Longrightarrow> st' = snd (peek cfg now sid st)"
  by (auto simp: get_def Let_def split: option.splits prod.splits)

lemma store_inv_replace:
  assumes "store_inv H cfg st" "jget (sessions st) sid = Some s" "s_sessionId s' = s_sessionId s"
    "s_approvedClientId s' = s_approvedClientId s"
  shows "store_inv H cfg (st\<lparr>sessions := jset sid s' (sessions st)\<rparr>)"
  using assms by (auto simp: store_inv_def intro: sess_inv_replace)

lemma store_inv_get: "store_inv H cfg st \<Longrightarrow> store_inv H cfg (snd (get cfg now sid st))"
proof (cases "get cfg now sid st")
  case (Pair r st')
  assume inv: "store_inv H cfg st"
  show ?thesis
  proof (cases r)
    case None
    with Pair inv show ?thesis by (auto dest!: get_None intro: store_inv_peek)
  next
    case (Some s')
    with Pair inv show ?thesis by (auto dest!: get_Some intro: store_inv_replace)
  qed
qed

lemma createSession_parts:
  "sessions (snd (createSession now uuid ck ua ac st)) = jset uuid
     \<lparr>s_sessionId = uuid, s_clientKey = ck, s_approvedClientId = map_option fst ac,
      s_approvedGeneration = map_option snd ac, s_device = device_of ua, s_createdAt = now,
      s_lastSeenAt = now, s_controlEnabled = False, s_profile = None, s_audio = chooseAudioMode None,
      s_display = None, s_inventoryRevision = None, s_policyRevision = None\<rparr> (sessions st)"
  "failedAttempts (snd (createSession now uuid ck ua ac st)) = failedAttempts st"
  "store_keys (snd (createSession now uuid ck ua ac st)) = store_keys st"
  "calls (snd (createSession now uuid ck ua ac st)) = calls st @ [Connected uuid]"
  "fst (createSession now uuid ck ua ac st) = Admitted uuid"
  by (simp_all add: createSession_def)

lemma store_inv_createSession:
  assumes inv: "store_inv H cfg st" and room: "length (sessions st) < 64"
    and new: "\<And>c s. map_option fst ac = Some c \<Longrightarrow> s \<in> set (jvals (sessions st)) \<Longrightarrow> s_approvedClientId s \<noteq> Some c"
  shows "store_inv H cfg (snd (createSession now uuid ck ua ac st))"
proof -
  have "\<forall>q \<in> set (sessions st). map_option fst ac \<noteq> None \<longrightarrow> s_approvedClientId (snd q) \<noteq> map_option fst ac"
    using new by (metis in_set_zipE list.set_map imageI option.exhaust)
  then show ?thesis
    using inv room unfolding store_inv_def createSession_parts
    by (intro conjI sess_inv_put) (auto simp: length_jset)
qed

lemma maxSessions_bound: "maxSessions limit = Inr lim \<Longrightarrow> 1 \<le> lim \<and> lim \<le> 64 \<and> limit = Whole lim"
  by (cases limit) (auto simp: maxSessions_def whole_between_def whole_value_def split: if_splits)

lemma createSession_D:
  "createSession now uuid ck ua ac st = (a, st') \<Longrightarrow>
    a = Admitted uuid \<and> st' = snd (createSession now uuid ck ua ac st)"
  using createSession_parts(5) [of now uuid ck ua ac st] by simp

text \<open>The outcomes of \<open>connect\<close>: a refusal leaves the swept sessions; an admission adds one to them.\<close>

lemma connect_cases:
  assumes "connect H cfg now limit uuid pw ck ua st = (r, st')"
  obtains (refused) "\<And>sid. r \<noteq> Inr (Admitted sid)" "sessions st' = sessions (sweep cfg now st)"
      "calls st' = calls (sweep cfg now st)"
  | (admitted) reg lim where "r = Inr (Admitted uuid)" "maxSessions limit = Inr lim"
      "int (length (sessions (sweep cfg now st))) < lim"
      "st' = snd (createSession now uuid ck ua None ((sweep cfg now st)
        \<lparr>store_keys := reg, failedAttempts := jdel ck (jevict 1024 ck (failedAttempts (sweep cfg now st)))\<rparr>))"
proof (cases "\<exists>sid. r = Inr (Admitted sid)")
  case False
  with assms have "sessions st' = sessions (sweep cfg now st)" "calls st' = calls (sweep cfg now st)"
    unfolding connect_def Let_def
    by (auto simp: createSession_def split: if_splits prod.splits option.splits sum.splits simp del: sweep_simps)
  with False refused show thesis by blast
next
  case True
  with assms have "\<exists>reg lim. r = Inr (Admitted uuid) \<and> maxSessions limit = Inr lim
      \<and> int (length (sessions (sweep cfg now st))) < lim
      \<and> st' = snd (createSession now uuid ck ua None ((sweep cfg now st)
        \<lparr>store_keys := reg, failedAttempts := jdel ck (jevict 1024 ck (failedAttempts (sweep cfg now st)))\<rparr>))"
    unfolding connect_def Let_def
    by (auto simp: not_le split: if_splits prod.splits option.splits sum.splits simp del: sweep_simps
        dest!: createSession_D)
  with admitted show thesis by blast
qed

lemma connectApproved_cases:
  assumes "connectApproved cfg now limit uuid ac ck ua st = (r, st')"
  obtains (refused) "\<And>sid. r \<noteq> Inr (Admitted sid)" "st' = sweep cfg now st"
  | (admitted) cid gen lim where "r = Inr (Admitted uuid)" "maxSessions limit = Inr lim" "ac = Some (cid, gen)"
      "int (length (sessions (sweep cfg now st))) < lim"
      "\<And>s. s \<in> set (jvals (sessions (sweep cfg now st))) \<Longrightarrow> s_approvedClientId s \<noteq> Some cid"
      "st' = snd (createSession now uuid ck ua ac (sweep cfg now st))"
proof (cases "\<exists>sid. r = Inr (Admitted sid)")
  case False
  with assms have "st' = sweep cfg now st"
    unfolding connectApproved_def Let_def
    by (auto split: if_splits prod.splits option.splits sum.splits simp del: sweep_simps dest!: createSession_D)
  with False refused show thesis by blast
next
  case True
  with assms have "\<exists>cid gen lim. r = Inr (Admitted uuid) \<and> maxSessions limit = Inr lim \<and> ac = Some (cid, gen)
      \<and> int (length (sessions (sweep cfg now st))) < lim
      \<and> (\<forall>s \<in> set (jvals (sessions (sweep cfg now st))). s_approvedClientId s \<noteq> Some cid)
      \<and> st' = snd (createSession now uuid ck ua ac (sweep cfg now st))"
    unfolding connectApproved_def Let_def
    by (auto simp: not_le split: if_splits prod.splits option.splits sum.splits simp del: sweep_simps
        dest!: createSession_D)
  with admitted show thesis by blast
qed

lemma use_after_inspect:
  assumes "inspect H now pw r = (Some rec, r1)"
  shows "fst (use_key H now pw (key_purpose rec) r1) \<noteq> None"
proof -
  from assms have "r1 = r" by (rule inspect_Some)
  with assms show ?thesis by (simp add: use_key_eq)
qed

abbreviation attempts_of :: "store_config \<Rightarrow> int \<Rightarrow> string \<Rightarrow> ('p, 'd) store \<Rightarrow> int list" where
  "attempts_of cfg now ck st \<equiv>
     recent (case jget (jevict 1024 ck (failedAttempts (sweep cfg now st))) ck of Some ts \<Rightarrow> ts | None \<Rightarrow> [])
       now (windowMs cfg)"

lemma connect_rows:
  assumes "connect H cfg now limit uuid pw ck ua st = (r, st')"
  obtains (limited) "r = Inr (Refused ''rate-limited'')" "maxAttempts cfg \<le> length (attempts_of cfg now ck st)"
      "failedAttempts st' = jset ck (attempts_of cfg now ck st) (jevict 1024 ck (failedAttempts (sweep cfg now st)))"
      "store_keys st' = store_keys st"
  | (wrong) "r = Inr (Refused ''invalid-password'')" "length (attempts_of cfg now ck st) < maxAttempts cfg"
      "failedAttempts st' = jset ck (attempts_of cfg now ck st @ [now]) (jevict 1024 ck (failedAttempts (sweep cfg now st)))"
      "store_keys st' = snd (inspect H now pw (store_keys st))"
  | (other) "r = Inr (Refused ''busy'') \<or> (\<exists>e. r = Inl e)"
      "failedAttempts st' = jevict 1024 ck (failedAttempts (sweep cfg now st))"
      "store_keys st' = snd (inspect H now pw (store_keys st))"
  | (admitted) rec where "r = Inr (Admitted uuid)"
      "failedAttempts st' = jdel ck (jevict 1024 ck (failedAttempts (sweep cfg now st)))"
      "fst (inspect H now pw (store_keys st)) = Some rec"
      "store_keys st' = snd (use_key H now pw (key_purpose rec) (snd (inspect H now pw (store_keys st))))"
proof (cases "maxAttempts cfg \<le> length (attempts_of cfg now ck st)")
  case True
  with assms limited show thesis by (auto simp: connect_def Let_def)
next
  case False
  note few = this
  obtain found reg where i: "inspect H now pw (store_keys st) = (found, reg)" by fastforce
  show thesis
  proof (cases "found = None \<or> key_purpose (the found) \<notin> {Session_Purpose, Once_Purpose}")
    case True
    with assms few i wrong show thesis
      by (auto simp: connect_def Let_def simp del: sweep_simps(1,2) split: option.splits)
  next
    case False
    then obtain rec where rec: "found = Some rec" "key_purpose rec \<in> {Session_Purpose, Once_Purpose}" by auto
    obtain used reg2 where u: "use_key H now pw (key_purpose rec) reg = (Some used, reg2)"
      using use_after_inspect [OF i [unfolded rec(1)]] by (metis option.exhaust prod.collapse)
    show thesis
    proof (cases "\<exists>sid. r = Inr (Admitted sid)")
      case True
      with assms few i rec u have "r = Inr (Admitted uuid)
        \<and> failedAttempts st' = jdel ck (jevict 1024 ck (failedAttempts (sweep cfg now st))) \<and> store_keys st' = reg2"
        unfolding connect_def Let_def
        by (auto simp: createSession_parts simp del: sweep_simps(1,2) split: if_splits prod.splits sum.splits
            dest!: createSession_D)
      with admitted i rec u show thesis by simp
    next
      case no: False
      with assms few i rec u have "(r = Inr (Refused ''busy'') \<or> (\<exists>e. r = Inl e))
        \<and> failedAttempts st' = jevict 1024 ck (failedAttempts (sweep cfg now st)) \<and> store_keys st' = reg"
        unfolding connect_def Let_def
        by (auto simp del: sweep_simps(1,2) split: if_splits prod.splits sum.splits dest!: createSession_D)
      with other i show thesis by simp
    qed
  qed
qed

lemma store_inv_connect:
  assumes inv: "store_inv H cfg st"
  shows "store_inv H cfg (snd (connect H cfg now limit uuid pw ck ua st))"
proof -
  obtain r st' where c: "connect H cfg now limit uuid pw ck ua st = (r, st')" by fastforce
  note sw = store_inv_sweep [OF inv, of now]
  have "sess_inv (sessions st')"
    using c
  proof (cases rule: connect_cases)
    case refused
    with sw show ?thesis by (simp add: store_inv_def)
  next
    case (admitted reg lim)
    have "store_inv H cfg ((sweep cfg now st)\<lparr>store_keys := store_keys st, failedAttempts := []\<rparr>)"
      using sw inv by (simp add: store_inv_def rows_inv_def)
    moreover have "length (sessions (sweep cfg now st)) < 64"
      using admitted(2,3) maxSessions_bound by fastforce
    ultimately have "store_inv H cfg (snd (createSession now uuid ck ua None
        ((sweep cfg now st)\<lparr>store_keys := store_keys st, failedAttempts := []\<rparr>)))"
      by (intro store_inv_createSession) simp_all
    then show ?thesis by (simp add: store_inv_def admitted(4) createSession_parts)
  qed
  moreover have "rows_inv cfg (failedAttempts st') \<and> reg_inv H (store_keys st')"
  proof -
    have rows: "rows_inv cfg (failedAttempts (sweep cfg now st))" and regs: "reg_inv H (store_keys st)"
      using sw inv by (simp_all add: store_inv_def)
    have att: "length (attempts_of cfg now ck st) \<le> maxAttempts cfg"
    proof -
      have "rows_inv cfg (jevict 1024 ck (failedAttempts (sweep cfg now st)))" using rows by (rule rows_inv_jevict)
      then have "length (case jget (jevict 1024 ck (failedAttempts (sweep cfg now st))) ck of Some ts \<Rightarrow> ts | None \<Rightarrow> [])
          \<le> maxAttempts cfg"
        by (auto simp: rows_inv_def split: option.splits dest!: jget_in_set)
      then show ?thesis using length_recent_le order_trans by blast
    qed
    from c show ?thesis
    proof (cases rule: connect_rows)
      case limited
      with rows regs att show ?thesis by (simp add: rows_inv_jset del: sweep_simps)
    next
      case wrong
      with rows regs show ?thesis by (simp add: rows_inv_jset reg_inv_inspect del: sweep_simps)
    next
      case other
      with rows regs show ?thesis by (simp add: rows_inv_jevict reg_inv_inspect del: sweep_simps)
    next
      case (admitted rec)
      with rows regs show ?thesis
        by (simp add: rows_inv_jdel rows_inv_jevict reg_inv_inspect reg_inv_use_key del: sweep_simps)
    qed
  qed
  ultimately show ?thesis using c by (simp add: store_inv_def)
qed

lemma rotateConnectionKey_parts:
  assumes "rotateConnectionKey H now uuid bs a l st = Some (r, st')"
  shows "sessions st' = sessions st" "failedAttempts st' = failedAttempts st" "calls st' = calls st"
    and "reg_inv H (store_keys st) \<Longrightarrow> reg_inv H (store_keys st')"
proof -
  from assms obtain reg out where rot: "rotateSession H now uuid bs a l (store_keys st) = Some (reg, out)"
    and st': "store_keys st' = reg" "sessions st' = sessions st \<and> failedAttempts st' = failedAttempts st \<and> calls st' = calls st"
    by (auto simp: rotateConnectionKey_def split: option.splits sum.splits)
  from st'(2) show "sessions st' = sessions st" "failedAttempts st' = failedAttempts st" "calls st' = calls st"
    by simp_all
  assume "reg_inv H (store_keys st)"
  from reg_inv_rotateSession [OF this rot] show "reg_inv H (store_keys st')" by (simp add: st'(1))
qed

lemma store_inv_rotate:
  assumes "store_inv H cfg st" "rotateConnectionKey H now uuid bs a l st = Some (r, st')"
  shows "store_inv H cfg st'"
  using assms(1) rotateConnectionKey_parts [OF assms(2)] by (simp add: store_inv_def)

lemma store_inv_update:
  assumes "store_inv H cfg st" "\<And>s. s_sessionId (f s) = s_sessionId s"
    "\<And>s. s_approvedClientId (f s) = s_approvedClientId s"
  shows "store_inv H cfg (snd (update_session f sid st))"
  using assms by (auto simp: update_session_def split: option.splits intro: store_inv_replace)

lemma store_inv_replaceSession:
  assumes inv: "store_inv H cfg st"
  shows "store_inv H cfg (snd (replaceSession cfg now uuid sid st))"
proof (cases "get cfg now sid st")
  case (Pair r st1)
  note inv1 = store_inv_get [OF inv, of now sid, unfolded Pair snd_conv]
  show ?thesis
  proof (cases r)
    case None
    with Pair inv1 show ?thesis by (simp add: replaceSession_def)
  next
    case (Some s)
    from Pair Some obtain s0 where s0: "st1 = st\<lparr>sessions := jset sid s (sessions st)\<rparr>"
      by (auto dest!: get_Some)
    then have s: "jget (sessions st1) sid = Some s" by simp
    let ?m = "sessions st1"
    let ?s = "s\<lparr>s_sessionId := uuid, s_createdAt := now, s_lastSeenAt := now, s_controlEnabled := False\<rparr>"
    have m: "sess_inv ?m" "jmap_ok ?m" using inv1 by (simp_all add: store_inv_def sess_inv_def)
    have "0 < length ?m" using s by (cases ?m) auto
    then have len: "length (jdel sid ?m) < 64"
      using alist_map.size_del [OF m(2), of sid] s m(1) by (simp add: sess_inv_def) arith
    have "sess_inv (jset uuid ?s (jdel sid ?m))"
    proof (rule sess_inv_put)
      show "sess_inv (jdel sid ?m)" using m(1) by (rule sess_inv_jdel)
      show "length (jset uuid ?s (jdel sid ?m)) \<le> 64" using len by (simp add: length_jset)
      have "s_approvedClientId (snd q) \<noteq> s_approvedClientId s"
        if "q \<in> set ?m" "fst q \<noteq> sid" "s_approvedClientId s \<noteq> None" for q
        using m(1) that jget_in_set [OF s] unfolding sess_inv_def one_per_client_def by (metis fst_conv snd_conv)
      then show "\<forall>q \<in> set (jdel sid ?m). fst q \<noteq> uuid \<and> s_approvedClientId ?s \<noteq> None \<longrightarrow>
          s_approvedClientId (snd q) \<noteq> s_approvedClientId ?s"
        by (auto simp: set_jdel)
    qed simp
    with Pair Some inv1 show ?thesis by (simp add: replaceSession_def Let_def store_inv_def)
  qed
qed

interpretation viewer_sessions: step_system "store_step H cfg" "store_inv H cfg" for H cfg
proof
  fix st :: "('a, 'b) store" and e
  assume inv: "store_inv H cfg st"
  show "store_inv H cfg (store_step H cfg st e)"
  proof (cases e)
    case (Connect now limit uuid pw ck ua)
    with inv show ?thesis by (simp add: store_inv_connect)
  next
    case (Connect_Approved now limit uuid ac ck ua)
    obtain r st' where c: "connectApproved cfg now limit uuid ac ck ua st = (r, st')" by fastforce
    have "store_inv H cfg st'"
      using c
    proof (cases rule: connectApproved_cases)
      case refused
      with inv show ?thesis by (simp add: store_inv_sweep del: sweep_simps)
    next
      case (admitted cid gen lim)
      then have "length (sessions (sweep cfg now st)) < 64" using maxSessions_bound by fastforce
      with admitted inv show ?thesis
        by (auto intro!: store_inv_createSession store_inv_sweep simp del: sweep_simps)
    qed
    with c Connect_Approved show ?thesis by simp
  next
    case (Set_Control now sid b)
    with inv show ?thesis
      by (auto simp: setControl_def store_inv_get split: prod.splits option.splits
          dest!: get_Some get_None intro!: store_inv_peek store_inv_replace)
  next
    case (Rotate_Password now uuid bs)
    with inv show ?thesis
      by (auto simp: rotatePassword_def store_inv_disconnect_all split: option.splits
          intro: store_inv_rotate [OF store_inv_disconnect_all])
  next
    case (Rotate_Key now uuid bs a l)
    with inv show ?thesis by (auto split: option.splits intro: store_inv_rotate)
  qed (use inv in \<open>simp_all add: store_inv_get store_inv_peek store_inv_replaceSession store_inv_update
      setProfile_def setDisplay_def setAudio_def setPolicyRevision_def store_inv_disconnect store_inv_sweep
      del: sweep_simps\<close>)
qed

section \<open>The record of revocations\<close>

definition live_ids :: "('p, 'd) store \<Rightarrow> string set" where
  "live_ids st = set (jkeys (sessions st))"

definition shed :: "('p, 'd) store \<Rightarrow> ('p, 'd) store \<Rightarrow> bool" where
  "shed st st' \<longleftrightarrow> (\<exists>gone. calls st' = calls st @ map Revoked gone \<and> distinct gone
     \<and> set gone = live_ids st - live_ids st' \<and> live_ids st' \<subseteq> live_ids st)"

text \<open>Every id that left was revoked once; at most one id arrived.\<close>

definition logged :: "('p, 'd) store \<Rightarrow> ('p, 'd) store \<Rightarrow> bool" where
  "logged st st' \<longleftrightarrow> (\<exists>gone new. calls st' = calls st @ map Revoked gone @ map Connected new
     \<and> distinct gone \<and> set gone = live_ids st - live_ids st' \<and> length new \<le> 1)"

lemma live_ids_jset [simp]: "live_ids (st\<lparr>sessions := jset sid s m\<rparr>) = insert sid (set (jkeys m))"
  by (simp add: live_ids_def)

lemma shed_same: "live_ids st' = live_ids st \<Longrightarrow> calls st' = calls st \<Longrightarrow> shed st st'"
  unfolding shed_def by (intro exI [of _ "[]"]) simp

lemma shed_trans: "shed st st1 \<Longrightarrow> shed st1 st2 \<Longrightarrow> shed st st2"
proof -
  assume "shed st st1" "shed st1 st2"
  then obtain g1 g2 where "calls st2 = calls st @ map Revoked (g1 @ g2)" "distinct g1" "distinct g2"
    "set g1 = live_ids st - live_ids st1" "set g2 = live_ids st1 - live_ids st2"
    "live_ids st1 \<subseteq> live_ids st" "live_ids st2 \<subseteq> live_ids st1"
    unfolding shed_def by auto
  then show ?thesis
    unfolding shed_def by (intro exI [of _ "g1 @ g2"]) auto
qed

lemma shed_disconnect: "shed st (snd (disconnect sid st))"
proof (cases "jhas (sessions st) sid")
  case True
  then show ?thesis
    unfolding shed_def by (intro exI [of _ "[sid]"]) (auto simp: live_ids_def set_jdel jhas_iff)
next
  case False
  then show ?thesis by (intro shed_same) (auto simp: live_ids_def disconnect_def)
qed

lemma shed_disconnect_all: "shed st (disconnect_all sids st)"
proof (induction sids arbitrary: st)
  case Nil
  then show ?case by (simp add: disconnect_all_def shed_same)
next
  case (Cons sid sids)
  have "disconnect_all (sid # sids) st = disconnect_all sids (snd (disconnect sid st))"
    by (simp add: disconnect_all_def)
  then show ?case using shed_trans [OF shed_disconnect Cons.IH] by metis
qed

lemma shed_sweep: "shed st (sweep cfg now st)"
  unfolding sweep_def Let_def by (rule shed_trans [OF shed_disconnect_all shed_same]) (simp_all add: live_ids_def)

lemma shed_peek: "shed st (snd (peek cfg now sid st))"
  by (simp add: peek_def shed_disconnect shed_same split: option.splits)

lemma live_ids_known: "jget (sessions st) sid = Some s \<Longrightarrow> sid \<in> live_ids st"
  by (force simp: live_ids_def dest: jget_in_set)

lemma shed_get: "shed st (snd (get cfg now sid st))"
proof (cases "get cfg now sid st")
  case (Pair r st')
  show ?thesis
  proof (cases r)
    case None
    with Pair shed_peek show ?thesis by (metis get_None snd_conv)
  next
    case (Some s)
    with Pair obtain s0 where "jget (sessions st) sid = Some s0" "st' = st\<lparr>sessions := jset sid s (sessions st)\<rparr>"
      by (auto dest: get_Some)
    with Pair show ?thesis
      by (auto intro!: shed_same dest!: live_ids_known simp: live_ids_def insert_absorb)
  qed
qed

lemma shed_logged: "shed st st' \<Longrightarrow> logged st st'"
  unfolding shed_def logged_def by (metis append_Nil2 bot_nat_0.extremum list.map(1) list.size(3))

lemma shed_add_logged:
  assumes "shed st st1" "live_ids st2 = insert uuid (live_ids st1)" "uuid \<notin> live_ids st"
    and "calls st2 = calls st1 @ map Connected new" "length new \<le> 1"
  shows "logged st st2"
  using assms unfolding shed_def logged_def by fastforce

lemma live_ids_createSession:
  "live_ids (snd (createSession now uuid ck ua ac st)) = insert uuid (live_ids st)"
  by (simp add: live_ids_def createSession_parts)

lemma shed_update:
  "jget (sessions st) sid = Some s \<Longrightarrow> shed st (st\<lparr>sessions := jset sid s' (sessions st)\<rparr>)"
  by (rule shed_same) (auto simp: insert_absorb live_ids_def dest: live_ids_known)

lemma shed_update_session: "shed st (snd (update_session f sid st))"
  by (auto simp: update_session_def shed_same intro: shed_update split: option.splits)

lemma shed_setControl: "shed st (snd (setControl cfg now sid b st))"
proof (cases "get cfg now sid st")
  case (Pair r st1)
  note s1 = shed_get [of st cfg now sid, unfolded Pair snd_conv]
  show ?thesis
  proof (cases r)
    case None
    with Pair s1 show ?thesis by (simp add: setControl_def)
  next
    case (Some s)
    with Pair have "jget (sessions st1) sid = Some s" by (auto dest!: get_Some)
    with Pair Some show ?thesis
      by (simp add: setControl_def) (rule shed_trans [OF s1 shed_update])
  qed
qed

lemma logged_connect:
  assumes "uuid \<notin> live_ids st"
  shows "logged st (snd (connect H cfg now limit uuid pw ck ua st))"
proof -
  obtain r st' where c: "connect H cfg now limit uuid pw ck ua st = (r, st')" by fastforce
  from c have "logged st st'"
  proof (cases rule: connect_cases)
    case refused
    then show ?thesis
      by (intro shed_logged shed_trans [OF shed_sweep [of st cfg now] shed_same])
        (simp_all add: live_ids_def del: sweep_simps)
  next
    case (admitted reg lim)
    then show ?thesis
      using assms
      by (intro shed_add_logged [OF shed_sweep [of st cfg now], where new = "[uuid]"])
        (simp_all add: createSession_parts live_ids_def del: sweep_simps)
  qed
  with c show ?thesis by simp
qed

lemma logged_connectApproved:
  assumes "uuid \<notin> live_ids st"
  shows "logged st (snd (connectApproved cfg now limit uuid ac ck ua st))"
proof -
  obtain r st' where c: "connectApproved cfg now limit uuid ac ck ua st = (r, st')" by fastforce
  from c have "logged st st'"
  proof (cases rule: connectApproved_cases)
    case refused
    then show ?thesis by (simp add: shed_logged shed_sweep del: sweep_simps)
  next
    case (admitted cid gen lim)
    then show ?thesis
      using assms
      by (intro shed_add_logged [OF shed_sweep [of st cfg now], where new = "[uuid]"])
        (simp_all add: live_ids_createSession createSession_parts del: sweep_simps)
  qed
  with c show ?thesis by simp
qed

lemma logged_replaceSession:
  assumes "uuid \<notin> live_ids st"
  shows "logged st (snd (replaceSession cfg now uuid sid st))"
proof (cases "get cfg now sid st")
  case (Pair r st1)
  note s1 = shed_get [of st cfg now sid, unfolded Pair snd_conv]
  show ?thesis
  proof (cases r)
    case None
    with Pair s1 show ?thesis by (simp add: replaceSession_def shed_logged)
  next
    case (Some s)
    with Pair assms show ?thesis
      by (intro shed_add_logged [OF shed_trans [OF s1 shed_disconnect [of st1 sid]], of _ uuid "[]"])
        (simp_all add: replaceSession_def Let_def live_ids_def)
  qed
qed

lemma shed_rotate: "rotateConnectionKey H now uuid bs a l st = Some (r, st') \<Longrightarrow> shed st st'"
  by (rule shed_same) (simp_all add: live_ids_def rotateConnectionKey_parts)

lemma shed_rotatePassword: "rotatePassword H now uuid bs st = Some (r, st') \<Longrightarrow> shed st st'"
  unfolding rotatePassword_def by (rule shed_trans [OF shed_disconnect_all shed_rotate])

text \<open>The fresh ids an event brings.\<close>

fun fresh_in :: "('p, 'd) store \<Rightarrow> ('p, 'd) store_event \<Rightarrow> bool" where
  "fresh_in st (Connect _ _ uuid _ _ _) = (uuid \<notin> live_ids st)"
| "fresh_in st (Connect_Approved _ _ uuid _ _ _) = (uuid \<notin> live_ids st)"
| "fresh_in st (Replace _ uuid _) = (uuid \<notin> live_ids st)"
| "fresh_in st _ = True"

lemmas shed_rules = shed_get shed_peek shed_disconnect shed_sweep shed_update_session shed_setControl
  shed_disconnect_all

lemma logged_step:
  assumes fresh: "fresh_in st e"
  shows "logged st (store_step H cfg st e)"
proof (cases e)
  case (Rotate_Password now uuid bs)
  then show ?thesis
    by (auto intro: shed_logged shed_rotatePassword shed_rules split: option.splits)
next
  case (Rotate_Key now uuid bs a l)
  then show ?thesis
    by (auto intro: shed_logged shed_rotate shed_same split: option.splits)
qed (use fresh in \<open>simp_all add: logged_connect logged_connectApproved logged_replaceSession shed_logged shed_rules
      setProfile_def setDisplay_def setAudio_def setPolicyRevision_def del: sweep_simps\<close>)

section \<open>The limit on wrong codes\<close>

text \<open>
  A wrong code by \<open>k\<close> counts; an admission by code of \<open>k\<close> forgets its row; nothing else of \<open>k\<close> or of
  others changes what later limits see of it.
\<close>

definition wrong_code ::
  "(string \<Rightarrow> string) \<Rightarrow> store_config \<Rightarrow> string \<Rightarrow> ('p, 'd) store_event \<Rightarrow> int \<Rightarrow> ('p, 'd) store
    \<Rightarrow> effect \<times> ('p, 'd) store" where
  "wrong_code H cfg k e now st =
     (case e of
        Connect now' limit uuid pw ck ua \<Rightarrow>
          (case connect H cfg now' limit uuid pw ck ua st of (r, st') \<Rightarrow>
             (if ck \<noteq> k then Unchanged
              else if r = Inr (Refused ''invalid-password'') then Counted
              else if \<exists>sid. r = Inr (Admitted sid) then Cleared else Unchanged, st'))
      | _ \<Rightarrow> (Unchanged, store_step H cfg st e))"

definition row_of :: "string \<Rightarrow> ('p, 'd) store \<Rightarrow> int list" where
  "row_of k st = (case jget (failedAttempts st) k of Some ts \<Rightarrow> ts | None \<Rightarrow> [])"

text \<open>
  Calls at time \<open>now\<close> by the client addresses \<open>K\<close>. With more than 1024 addresses the oldest row
  makes room, and its client starts afresh.
\<close>

fun at_time :: "string set \<Rightarrow> ('p, 'd) store_event \<Rightarrow> int \<Rightarrow> bool" where
  "at_time K (Connect now' _ _ _ ck _) now = (now' = now \<and> ck \<in> K)"
| "at_time K (Connect_Approved now' _ _ _ _ _) now = (now' = now)"
| "at_time K (Sweep now') now = (now' = now)"
| "at_time K _ now = True"

definition rows_of_clients :: "string set \<Rightarrow> ('p, 'd) store \<Rightarrow> bool" where
  "rows_of_clients K st \<longleftrightarrow> finite K \<and> card K \<le> 1024 \<and> jmap_ok (failedAttempts st)
     \<and> set (jkeys (failedAttempts st)) \<subseteq> K"

lemma evict_none:
  assumes "finite K" "card K \<le> 1024" "jmap_ok m" "set (jkeys m) \<subseteq> K" "ck \<in> K"
  shows "jevict 1024 ck m = m"
proof (cases "jhas m ck")
  case True
  then show ?thesis by (simp add: jevict_def)
next
  case False
  then have "set (jkeys m) \<subseteq> K - {ck}" using assms(4) by (auto simp: jhas_iff)
  then have "card (set (jkeys m)) \<le> card (K - {ck})" using assms(1) by (intro card_mono) auto
  moreover have "card (K - {ck}) < card K" using assms(1,5) by (intro card_Diff1_less)
  moreover have "card (set (jkeys m)) = length (jkeys m)"
    using assms(3) unfolding jmap_ok_def by (rule distinct_card)
  ultimately have "length m < 1024" using assms(2) by simp
  then show ?thesis by (simp add: jevict_def)
qed

lemma row_of_sweep:
  "jmap_ok (failedAttempts st) \<Longrightarrow> row_of k (sweep cfg now st) = recent (row_of k st) now (windowMs cfg)"
  by (simp add: row_of_def jget_jkeep split: option.splits)

lemma recent_twice: "recent (recent ts now w) now w = recent ts now w"
  by (simp add: recent_recent)

lemma failed_rows_kept:
  assumes "wrong_code H cfg k e now st = (eff, st')" "\<And>n l u p c a. e \<noteq> Connect n l u p c a"
    "\<And>n. e \<noteq> Sweep n" "\<And>n l u p c a. e \<noteq> Connect_Approved n l u p c a"
  shows "eff = Unchanged \<and> failedAttempts st' = failedAttempts st"
proof -
  have peek: "failedAttempts (snd (peek cfg n sid st)) = failedAttempts st" for n sid
    by (simp add: peek_def split: option.splits)
  have get: "failedAttempts (snd (get cfg n sid st)) = failedAttempts st" for n sid
    using peek [of n sid] by (auto simp: get_def Let_def split: prod.splits option.splits)
  from assms show ?thesis
    using peek get
    by (cases e) (auto simp: wrong_code_def replaceSession_def setControl_def setProfile_def setDisplay_def
        setAudio_def setPolicyRevision_def update_session_def rotatePassword_def rotateConnectionKey_parts Let_def
        split: option.splits prod.splits dest: rotateConnectionKey_parts(2), (metis snd_conv)+)
qed

lemma jkeys_swept: "set (jkeys (jkeep p (jmapv f m))) \<subseteq> set (jkeys m)"
  using set_jkeep_subset [of p "jmapv f m"] by (metis image_mono list.set_map jkeys_jmapv)

lemma rows_of_clients_sweep: "rows_of_clients K st \<Longrightarrow> rows_of_clients K (sweep cfg now st)"
  unfolding rows_of_clients_def sweep_simps by (simp only: jmap_ok_jkeep jmap_ok_jmapv subset_trans [OF jkeys_swept])

lemma attempts_of_row:
  assumes "rows_of_clients K st" "ck \<in> K"
  shows "jevict 1024 ck (failedAttempts (sweep cfg now st)) = failedAttempts (sweep cfg now st)"
    and "recent (case jget (failedAttempts (sweep cfg now st)) ck of Some ts \<Rightarrow> ts | None \<Rightarrow> []) now (windowMs cfg)
      = recent (row_of ck st) now (windowMs cfg)"
proof -
  have sw: "rows_of_clients K (sweep cfg now st)" using assms(1) by (rule rows_of_clients_sweep)
  then show "jevict 1024 ck (failedAttempts (sweep cfg now st)) = failedAttempts (sweep cfg now st)"
    using assms(2) evict_none [of K "failedAttempts (sweep cfg now st)" ck] unfolding rows_of_clients_def by blast
  have "row_of ck (sweep cfg now st) = recent (row_of ck st) now (windowMs cfg)"
    using assms(1) by (intro row_of_sweep) (simp add: rows_of_clients_def)
  then have "recent (row_of ck (sweep cfg now st)) now (windowMs cfg) = recent (row_of ck st) now (windowMs cfg)"
    by (simp only: recent_twice)
  then show "recent (case jget (failedAttempts (sweep cfg now st)) ck of Some ts \<Rightarrow> ts | None \<Rightarrow> []) now (windowMs cfg)
      = recent (row_of ck st) now (windowMs cfg)"
    unfolding row_of_def [of ck "sweep cfg now st"] .
qed

text \<open>What one call does to the row of \<open>k\<close>.\<close>

lemma wrong_code_row:
  assumes inv: "rows_of_clients K st" and ok: "at_time K e now" and w: "wrong_code H cfg k e now st = (eff, st')"
  shows "rows_of_clients K st' \<and> (case eff of
      Counted \<Rightarrow> length (recent (row_of k st) now (windowMs cfg)) < maxAttempts cfg
        \<and> row_of k st' = recent (row_of k st) now (windowMs cfg) @ [now]
    | Unchanged \<Rightarrow> row_of k st' = row_of k st \<or> row_of k st' = recent (row_of k st) now (windowMs cfg)
    | Cleared \<Rightarrow> row_of k st' = [])"
proof -
  note sw = rows_of_clients_sweep [OF inv, of cfg now]
  have jm: "jmap_ok (failedAttempts st)" "jmap_ok (failedAttempts (sweep cfg now st))"
    using inv sw by (simp_all add: rows_of_clients_def)
  note rs = row_of_sweep [OF jm(1), of _ cfg now]
  show ?thesis
  proof (cases "\<exists>l u p c a. e = Connect now l u p c a")
    case True
    then obtain l u p ck a where e: "e = Connect now l u p ck a" by blast
    with ok have ck: "ck \<in> K" by simp
    note row = attempts_of_row [OF inv ck, of cfg now]
    obtain r where c: "connect H cfg now l u p ck a st = (r, st')"
      using w e by (auto simp: wrong_code_def split: prod.splits)
    have eff: "eff = (if ck \<noteq> k then Unchanged else if r = Inr (Refused ''invalid-password'') then Counted
        else if \<exists>sid. r = Inr (Admitted sid) then Cleared else Unchanged)"
      using w e c by (simp add: wrong_code_def)
    from c show ?thesis
    proof (cases rule: connect_rows)
      case limited
      then have "failedAttempts st' = jset ck (recent (row_of ck st) now (windowMs cfg)) (failedAttempts (sweep cfg now st))"
        by (simp only: row)
      with limited(1) eff rs [of k] sw ck show ?thesis
        by (auto simp: rows_of_clients_def row_of_def simp del: sweep_simps)
    next
      case wrong
      then have "failedAttempts st' = jset ck (recent (row_of ck st) now (windowMs cfg) @ [now]) (failedAttempts (sweep cfg now st))"
        and "length (recent (row_of ck st) now (windowMs cfg)) < maxAttempts cfg"
        by (simp_all only: row)
      with wrong(1) eff rs [of k] sw ck show ?thesis
        by (auto simp: rows_of_clients_def row_of_def simp del: sweep_simps)
    next
      case other
      then have "failedAttempts st' = failedAttempts (sweep cfg now st)" by (simp only: row)
      with other(1) eff rs [of k] sw show ?thesis
        by (auto simp: rows_of_clients_def row_of_def simp del: sweep_simps)
    next
      case (admitted rcd)
      then have "failedAttempts st' = jdel ck (failedAttempts (sweep cfg now st))" by (simp only: row)
      with admitted(1) eff rs [of k] sw show ?thesis
        by (auto simp: rows_of_clients_def row_of_def set_jdel simp del: sweep_simps)
    qed
  next
    case no: False
    show ?thesis
    proof (cases "e = Sweep now \<or> (\<exists>l u p c a. e = Connect_Approved now l u p c a)")
      case True
      then have "eff = Unchanged" using w by (auto simp: wrong_code_def)
      moreover have "failedAttempts st' = failedAttempts (sweep cfg now st)"
      proof (cases "e = Sweep now")
        case True
        with w show ?thesis by (simp add: wrong_code_def del: sweep_simps)
      next
        case False
        with True obtain l u ac ck a where "e = Connect_Approved now l u ac ck a" by blast
        with w obtain r where "connectApproved cfg now l u ac ck a st = (r, st')"
          by (cases "connectApproved cfg now l u ac ck a st") (simp add: wrong_code_def)
        then show ?thesis
          by (cases rule: connectApproved_cases) (simp_all add: createSession_parts del: sweep_simps)
      qed
      ultimately show ?thesis using sw rs [of k] by (simp add: rows_of_clients_def row_of_def del: sweep_simps)
    next
      case False
      have "eff = Unchanged \<and> failedAttempts st' = failedAttempts st"
        using no False ok by (intro failed_rows_kept [OF w]) auto
      with inv show ?thesis by (simp add: rows_of_clients_def row_of_def)
    qed
  qed
qed

interpretation wrong_codes: window_limiter "wrong_code H cfg k" "row_of k" "maxAttempts cfg" "windowMs cfg"
    "rows_of_clients K" "at_time K" "\<lambda>_. start" for H cfg k K start
proof
  fix st :: "('a, 'b) store" and e now eff st'
  assume a: "rows_of_clients K st" "at_time K e now" "wrong_code H cfg k e now st = (eff, st')" and "start \<le> now"
  then show "rows_of_clients K st' \<and> start \<le> now" using wrong_code_row [OF a] by blast
next
  fix st :: "('a, 'b) store" and e now st'
  assume a: "rows_of_clients K st" "at_time K e now" "wrong_code H cfg k e now st = (Counted, st')"
  show "length (recent (row_of k st) now (windowMs cfg)) < maxAttempts cfg"
    using wrong_code_row [OF a] by simp
  fix t :: int
  assume "now \<le> t"
  then show "recent (row_of k st') t (windowMs cfg) = recent (row_of k st @ [now]) t (windowMs cfg)"
    using wrong_code_row [OF a] by (simp add: recent_append recent_recent)
next
  fix st :: "('a, 'b) store" and e now st' and t :: int
  assume a: "rows_of_clients K st" "at_time K e now" "wrong_code H cfg k e now st = (Unchanged, st')" "now \<le> t"
  show "recent (row_of k st') t (windowMs cfg) = recent (row_of k st) t (windowMs cfg)"
    using wrong_code_row [OF a(1-3)] a(4) by (auto simp: recent_recent)
next
  fix st :: "('a, 'b) store" and e now st'
  assume a: "rows_of_clients K st" "at_time K e now" "wrong_code H cfg k e now st = (Cleared, st')"
  show "row_of k st' = []" using wrong_code_row [OF a] by simp
qed

section \<open>Properties\<close>

lemma store_inv_new: "new_store reg limit = Inr st \<Longrightarrow> reg_inv H reg \<Longrightarrow> store_inv H cfg st"
  by (auto simp: new_store_def store_inv_def sess_inv_def one_per_client_def rows_inv_def split: sum.splits)

text \<open>
  C4: after any sequence of calls on a new store there are at most 64 sessions, every session is
  filed under its own id, no approved client has two sessions, and the memory for wrong codes is
  bounded: at most 1024 clients with at most \<open>maxAttempts\<close> times each.
\<close>

theorem sessions_bounded:
  assumes "new_registry H now uuid bs a = Some (Inr reg)" "new_store reg limit = Inr st"
    and "st' = run (store_step H cfg) st es"
  shows "length (sessions st') \<le> 64
    \<and> (\<forall>p \<in> set (sessions st'). s_sessionId (snd p) = fst p)
    \<and> (\<forall>p \<in> set (sessions st'). \<forall>q \<in> set (sessions st').
         s_approvedClientId (snd p) \<noteq> None \<and> s_approvedClientId (snd p) = s_approvedClientId (snd q) \<longrightarrow> p = q)
    \<and> length (failedAttempts st') \<le> 1024
    \<and> (\<forall>(ck, ts) \<in> set (failedAttempts st'). length ts \<le> maxAttempts cfg)"
proof -
  have "store_inv H cfg st'"
    unfolding assms(3) by (rule viewer_sessions.run_inv [OF store_inv_new [OF assms(2) reg_inv_new [OF assms(1)]]])
  then have s: "length (sessions st') \<le> 64" "\<forall>p \<in> set (sessions st'). s_sessionId (snd p) = fst p"
      "one_per_client (sessions st')" and r: "rows_inv cfg (failedAttempts st')"
    by (simp_all add: store_inv_def sess_inv_def)
  then show ?thesis unfolding one_per_client_def rows_inv_def by blast
qed

theorem sessions_bounded_witness:
  "\<exists>reg st. new_registry id 0 ''u0'' (replicate 8 0) ''letters'' = Some (Inr reg) \<and> new_store reg (Whole 2) = Inr st
     \<and> length (sessions (run (store_step id default_config) (st :: (numbers, string) store)
         [Connect_Approved 0 (Whole 2) ''s1'' (Some (''c1'', 1)) ''10.0.0.1'' ''iPhone'',
          Connect 5 (Whole 2) ''s2'' (Some ''AAAA-AAAA'') ''10.0.0.2'' '''',
          Connect_Approved 7 (Whole 2) ''s3'' (Some (''c1'', 1)) ''10.0.0.1'' '''']) ) \<le> 64"
proof -
  have "is_ok (the (new_registry id 0 ''u0'' (replicate 8 0) ''letters''))
    \<and> new_registry id 0 ''u0'' (replicate 8 0) ''letters'' \<noteq> None"
    by code_simp
  then obtain reg where r: "new_registry id 0 ''u0'' (replicate 8 0) ''letters'' = Some (Inr reg)"
    by (auto simp: is_ok_def split: sum.splits)
  obtain st :: "(numbers, string) store" where st: "new_store reg (Whole 2) = Inr st"
    by (simp add: new_store_def maxSessions_def whole_between_def whole_value_def)
  show ?thesis using sessions_bounded [OF r st refl] r st by blast
qed

text \<open>
  C9: wrong codes are limited. Whatever sequence of calls a store receives, from up to 1024 client
  addresses, the wrong codes it answered for one client since that client's last admission by code
  never number more than \<open>maxAttempts\<close> in any window of \<open>windowMs\<close>.
\<close>

theorem wrong_codes_limited:
  assumes "new_store reg limit = Inr st" "finite K" "card K \<le> 1024"
    and "\<forall>(now, e) \<in> set es. at_time K e now" "sorted (map fst es)"
  shows "window_count (counted_log (wrong_code H cfg k) [] st es) T (windowMs cfg) \<le> maxAttempts cfg"
proof (rule wrong_codes.limit_from_start [where start = "fst (hd es)", OF _ _ assms(4,5)])
  show "rows_of_clients K st" using assms(1-3) by (auto simp: new_store_def rows_of_clients_def split: sum.splits)
  show "row_of k st = []" using assms(1) by (auto simp: new_store_def row_of_def split: sum.splits)
  show "fst (hd es) \<le> fst (hd es)" ..
qed

definition guess_store :: "(numbers, string) store" where
  "guess_store = \<lparr>sessions = [], failedAttempts = [],
     store_keys = \<lparr>records = [], sessionKey = None, ephemeralKey = None, reg_alphabet = ''letters''\<rparr>,
     store_password = None, calls = []\<rparr>"

theorem wrong_codes_limited_witness:
  "window_count (counted_log (wrong_code id default_config ''c'') [] guess_store
     [(0, Connect 0 (Whole 1) ''u'' (Some ''AAAA-AAAA'') ''c'' ''''),
      (4, Connect 4 (Whole 1) ''u'' None ''d'' ''''),
      (9, Connect 9 (Whole 1) ''u'' (Some ''AAAA-AAAB'') ''c'' '''')]) 9 60000 \<le> 5"
proof -
  have n: "new_store \<lparr>records = [], sessionKey = None, ephemeralKey = None, reg_alphabet = ''letters''\<rparr> (Whole 1)
      = Inr guess_store"
    by (simp add: new_store_def maxSessions_def whole_between_def whole_value_def guess_store_def)
  show ?thesis
    using wrong_codes_limited [OF n, of "{''c'', ''d''}" "[(0, Connect 0 (Whole 1) ''u'' (Some ''AAAA-AAAA'') ''c'' ''''),
      (4, Connect 4 (Whole 1) ''u'' None ''d'' ''''),
      (9, Connect 9 (Whole 1) ''u'' (Some ''AAAA-AAAB'') ''c'' '''')]" id default_config "''c''" 9]
    by (simp add: default_config_def)
qed

text \<open>
  An admission by code respects the limit of that moment, and its code was live, of a purpose
  that admits viewers, and is used up if it is a single-use code.
\<close>

theorem connect_admits:
  assumes "connect H cfg now limit uuid pw ck ua st = (Inr (Admitted sid), st')"
  shows "sid = uuid \<and> (\<exists>lim. limit = Whole lim \<and> 1 \<le> lim \<and> lim \<le> 64 \<and> int (length (sessions st')) \<le> lim)
    \<and> (\<exists>key rec. normalizePassword pw = Some key \<and> jget (records (store_keys st)) (H key) = Some rec
         \<and> (\<forall>t. key_expiresAt rec = Some t \<longrightarrow> now < t)
         \<and> (key_usage rec = Single_Use \<longrightarrow> records (store_keys st') = jdel (H key) (records (store_keys st)))
         \<and> (key_usage rec = Multi_Use \<longrightarrow> store_keys st' = store_keys st))
    \<and> (\<exists>s. jget (sessions st') sid = Some s \<and> s_lastSeenAt s = now \<and> \<not> s_controlEnabled s
         \<and> s_approvedClientId s = None)"
  using assms
proof (cases rule: connect_cases)
  case refused
  then show ?thesis by blast
next
  case (admitted reg lim)
  have "length (sessions st') \<le> Suc (length (sessions (sweep cfg now st)))"
    using admitted(4) by (simp add: createSession_parts length_jset del: sweep_simps)
  then have n: "limit = Whole lim \<and> 1 \<le> lim \<and> lim \<le> 64 \<and> int (length (sessions st')) \<le> lim"
    using maxSessions_bound [OF admitted(2)] admitted(3) by linarith
  have s: "\<exists>s. jget (sessions st') uuid = Some s \<and> s_lastSeenAt s = now \<and> \<not> s_controlEnabled s
      \<and> s_approvedClientId s = None"
    using admitted(4) by (simp add: createSession_parts)
  from assms obtain rec where rec: "fst (inspect H now pw (store_keys st)) = Some rec"
    and k: "store_keys st' = snd (use_key H now pw (key_purpose rec) (snd (inspect H now pw (store_keys st))))"
    by (cases rule: connect_rows) auto
  obtain r1 where i: "inspect H now pw (store_keys st) = (Some rec, r1)" using rec by (metis prod.collapse)
  obtain key where key: "normalizePassword pw = Some key" "jget (records (store_keys st)) (H key) = Some rec"
    "r1 = store_keys st" "\<forall>t. key_expiresAt rec = Some t \<longrightarrow> now < t"
    using inspect_Some [OF i] by metis
  have "(key_usage rec = Single_Use \<longrightarrow> records (store_keys st') = jdel (H key) (records (store_keys st)))
      \<and> (key_usage rec = Multi_Use \<longrightarrow> store_keys st' = store_keys st)"
    unfolding k using i key by (simp add: use_key_eq)
  with n s key admitted(1) show ?thesis by blast
qed

theorem connect_admits_witness:
  "\<exists>st'. connect id default_config 5 (Whole 1) ''s1'' (Some ''AAAA-AAAA'') ''10.0.0.9'' ''''
     (guess_store\<lparr>store_keys := \<lparr>records = [(''AAAA-AAAA'', \<lparr>key_purpose = Once_Purpose, key_usage = Single_Use,
         key_generation = ''g'', key_globalLimit = 20, key_sourceLimit = 5, key_alphabet = ''letters'',
         key_createdAt = 0, key_expiresAt = Some 10\<rparr>)], sessionKey = None, ephemeralKey = Some ''AAAA-AAAA'',
         reg_alphabet = ''letters''\<rparr>\<rparr>) = (Inr (Admitted ''s1''), st')
     \<and> records (store_keys st') = [] \<and> (\<exists>s. jget (sessions st') ''s1'' = Some s \<and> \<not> s_controlEnabled s)"
proof -
  let ?st = "guess_store\<lparr>store_keys := \<lparr>records = [(''AAAA-AAAA'', \<lparr>key_purpose = Once_Purpose, key_usage = Single_Use,
         key_generation = ''g'', key_globalLimit = 20, key_sourceLimit = 5, key_alphabet = ''letters'',
         key_createdAt = 0, key_expiresAt = Some 10\<rparr>)], sessionKey = None, ephemeralKey = Some ''AAAA-AAAA'',
         reg_alphabet = ''letters''\<rparr>\<rparr>"
  let ?c = "connect id default_config 5 (Whole 1) ''s1'' (Some ''AAAA-AAAA'') ''10.0.0.9'' '''' ?st"
  have p: "normalizePassword (Some ''AAAA-AAAA'') = Some ''AAAA-AAAA''"
    by code_simp
  have "fst ?c = Inr (Admitted ''s1'')" and r: "records (store_keys (snd ?c)) = []"
    by (simp_all add: connect_def sweep_def disconnect_all_def guess_store_def default_config_def Let_def
        inspect_def use_key_def p jkeep_def jmapv_def jevict_def maxSessions_def whole_between_def whole_value_def
        createSession_def split: prod.split)
  then have c: "?c = (Inr (Admitted ''s1''), snd ?c)" by (metis prod.collapse)
  show ?thesis using connect_admits [OF c] c r by blast
qed

text \<open>
  C11: no session leaves the table without its revocation being reported, and none is reported
  twice or without leaving: one call reports exactly the ids that left, each once. Fresh session
  ids are new.
\<close>

theorem revocations_exact:
  assumes "fresh_in st e"
  shows "\<exists>gone new. calls (store_step H cfg st e) = calls st @ map Revoked gone @ map Connected new
    \<and> distinct gone \<and> length new \<le> 1
    \<and> set gone = set (jkeys (sessions st)) - set (jkeys (sessions (store_step H cfg st e)))"
  using logged_step [OF assms, of H cfg] unfolding logged_def live_ids_def by blast

theorem revocations_exact_witness:
  "\<exists>gone new. calls (store_step id default_config guess_store
       (Connect_Approved 0 (Whole 1) ''s1'' (Some (''c1'', 1)) ''10.0.0.1'' '''')) = map Revoked gone @ map Connected new"
proof -
  have f: "fresh_in guess_store (Connect_Approved 0 (Whole 1) ''s1'' (Some (''c1'', 1)) ''10.0.0.1'' '''')"
    by (simp add: guess_store_def live_ids_def)
  have "calls guess_store = []" by (simp add: guess_store_def)
  with revocations_exact [OF f, of id default_config] show ?thesis by (metis append_Nil)
qed

end
