(* ===== verification/AdmissionBudget.thy ===== *)
theory AdmissionBudget
  imports ConnectionKeys PeerNetwork "HOL-Library.Multiset"
begin

text \<open>
  \<^verbatim>\<open>apps/server/src/admission-budget.mjs\<close>: the budgets that bound guessing and load. A class of codes
  has a cap on failures plus pending attempts, overall and per source; sign-in, registration and
  status calls have rolling windows; password hashing has a cap on concurrent runs. The source
  shares mutable objects between the maps and the closures it hands out: class and row objects
  carry an identity number here, and the closures of a key start or a sign-in are entries of a
  table, removed when the closure has run.
\<close>

section \<open>State\<close>

record source_row =
  row_oid :: nat
  row_failures :: int
  row_pending :: int

record class_state =
  cls_oid :: nat
  cls_generation :: string
  cls_failures :: int
  cls_pending :: int
  cls_sources :: "(string, source_row) jmap"

record rolling_state =
  rl_global :: "int list"
  rl_sources :: "(string, int list) jmap"
  rl_identities :: "(string, int list) jmap"

record reservation =
  rs_kind :: string
  rs_class :: nat
  rs_source :: string
  rs_row :: nat

record signin =
  si_kind :: string
  si_allowed :: bool
  si_assigned :: bool

record budget =
  maxSources :: nat
  classes :: "(string, class_state) jmap"
  rolling :: "(string, rolling_state) jmap"
  lastNow :: int
  activeScrypt :: nat
  starts :: "(nat, reservation list) jmap"
  signins :: "(nat, signin) jmap"
  next_oid :: nat

definition new_budget :: "jsvalue \<Rightarrow> budget result" where
  "new_budget limit =
     (case limit of
        Whole n \<Rightarrow> if n < 1 then Inl ''Invalid admission source limit''
          else Inr \<lparr>maxSources = nat n, classes = [], rolling = [], lastNow = 0, activeScrypt = 0,
                    starts = [], signins = [], next_oid = 0\<rparr>
      | NotWhole \<Rightarrow> Inl ''Invalid admission source limit'')"

definition MINUTE :: int where "MINUTE = 60000"
definition MAX_SCRYPT :: nat where "MAX_SCRYPT = 4"

definition sourceKey :: "string \<Rightarrow> string" where
  "sourceKey source = sourceGroup (Some source)"

text \<open>The row limits per minute, overall and per source.\<close>

definition CREDENTIALS :: "nat \<times> nat" where "CREDENTIALS = (600, 10)"
definition STATUS :: "nat \<times> nat" where "STATUS = (1200, 60)"

definition scopeOf :: "bool \<Rightarrow> string" where
  "scopeOf internet = (if internet then ''internet'' else ''local'')"

text \<open>The clock never goes back.\<close>

definition tick :: "int \<Rightarrow> budget \<Rightarrow> int \<times> budget" where
  "tick now b = (let t = max (lastNow b) now in (t, b\<lparr>lastNow := t\<rparr>))"

text \<open>
  A row used again moves to the end; a new row takes the place of the least recently used one.
\<close>

definition boundedRow :: "nat \<Rightarrow> 'k \<Rightarrow> 'v \<Rightarrow> ('k, 'v) jmap \<Rightarrow> 'v \<times> ('k, 'v) jmap" where
  "boundedRow cap k new m =
     (case jget m k of
        Some row \<Rightarrow> (row, jset k row (jdel k m))
      | None \<Rightarrow> (new, jset k new (if cap \<le> length m then drop 1 m else m)))"

section \<open>Classes of codes\<close>

definition valid_policy :: "key_admission \<Rightarrow> bool" where
  "valid_policy c \<longleftrightarrow> 1 \<le> adm_globalLimit c \<and> adm_globalLimit c \<le> 20
     \<and> 1 \<le> adm_sourceLimit c \<and> adm_sourceLimit c \<le> 5 \<and> adm_sourceLimit c \<le> adm_globalLimit c"

definition class_for :: "string \<Rightarrow> string \<Rightarrow> budget \<Rightarrow> class_state \<times> budget" where
  "class_for kind generation b =
     (case jget (classes b) kind of
        Some c \<Rightarrow>
          if cls_generation c = generation then (c, b)
          else (let c' = \<lparr>cls_oid = next_oid b, cls_generation = generation, cls_failures = 0,
                          cls_pending = 0, cls_sources = []\<rparr>
                in (c', b\<lparr>classes := jset kind c' (classes b), next_oid := Suc (next_oid b)\<rparr>))
      | None \<Rightarrow>
          (let c' = \<lparr>cls_oid = next_oid b, cls_generation = generation, cls_failures = 0,
                     cls_pending = 0, cls_sources = []\<rparr>
           in (c', b\<lparr>classes := jset kind c' (classes b), next_oid := Suc (next_oid b)\<rparr>)))"

definition reserveClass ::
  "string \<Rightarrow> string \<Rightarrow> key_admission option \<Rightarrow> budget \<Rightarrow> reservation option result \<times> budget" where
  "reserveClass kind source config b =
     (case config of
        None \<Rightarrow> (Inr None, b)
      | Some cfg \<Rightarrow>
          if \<not> valid_policy cfg then (Inl ''Invalid key-admission policy'', b)
          else
            (let (c, b1) = class_for kind (adm_generation cfg) b
             in if adm_globalLimit cfg \<le> cls_failures c + cls_pending c then (Inr None, b1)
                else
                  (let sourceId = sourceKey source;
                       (row, sources) = boundedRow (maxSources b1) sourceId
                          \<lparr>row_oid = next_oid b1, row_failures = 0, row_pending = 0\<rparr> (cls_sources c);
                       b2 = b1\<lparr>next_oid := Suc (next_oid b1)\<rparr>
                   in if adm_sourceLimit cfg \<le> row_failures row + row_pending row
                      then (Inr None, b2\<lparr>classes := jset kind (c\<lparr>cls_sources := sources\<rparr>) (classes b2)\<rparr>)
                      else
                        (let row' = row\<lparr>row_pending := row_pending row + 1\<rparr>;
                             c' = c\<lparr>cls_pending := cls_pending c + 1, cls_sources := jset sourceId row' sources\<rparr>
                         in (Inr (Some \<lparr>rs_kind = kind, rs_class = cls_oid c, rs_source = sourceId,
                                        rs_row = row_oid row\<rparr>),
                             b2\<lparr>classes := jset kind c' (classes b2)\<rparr>)))))"

definition accepts :: "string \<Rightarrow> purpose \<Rightarrow> bool" where
  "accepts kind p =
     (if kind = ''session'' then p = Session_Purpose else p = Setup_Purpose \<or> p = Once_Purpose)"

text \<open>
  The end of one reservation. \<open>failed\<close> is the source's \<^verbatim>\<open>outcome === false\<close>. A class object or a row
  that left its map is no longer read by anyone, so what the source still writes to it is dropped.
\<close>

definition finish_class :: "bool \<Rightarrow> reservation \<Rightarrow> budget \<Rightarrow> budget" where
  "finish_class failed r b =
     (case jget (classes b) (rs_kind r) of
        None \<Rightarrow> b
      | Some c \<Rightarrow>
          if cls_oid c \<noteq> rs_class r then b
          else
            (let sources =
                   (case jget (cls_sources c) (rs_source r) of
                      Some row \<Rightarrow>
                        if row_oid row = rs_row r
                        then jset (rs_source r)
                               (row\<lparr>row_pending := row_pending row - 1,
                                    row_failures := row_failures row + (if failed then 1 else 0)\<rparr>)
                               (cls_sources c)
                        else cls_sources c
                    | None \<Rightarrow> cls_sources c)
             in b\<lparr>classes := jset (rs_kind r)
                    (c\<lparr>cls_pending := cls_pending c - 1,
                       cls_failures := cls_failures c + (if failed then 1 else 0),
                       cls_sources := sources\<rparr>) (classes b)\<rparr>))"

section \<open>Rolling windows\<close>

definition empty_rolling :: rolling_state where
  "empty_rolling = \<lparr>rl_global = [], rl_sources = [], rl_identities = []\<rparr>"

definition reserveRolling ::
  "string \<Rightarrow> string \<Rightarrow> nat \<Rightarrow> nat \<Rightarrow> int \<Rightarrow> int \<Rightarrow> budget \<Rightarrow> bool \<times> budget" where
  "reserveRolling kind source gLimit sLimit windowMs clock b0 =
     (let (now, b) = tick clock b0;
          state = (case jget (rolling b) kind of Some s \<Rightarrow> s | None \<Rightarrow> empty_rolling);
          global = recent (rl_global state) now windowMs;
          state1 = state\<lparr>rl_global := global\<rparr>
      in if gLimit \<le> length global then (False, b\<lparr>rolling := jset kind state1 (rolling b)\<rparr>)
         else
           (let (times, sources) = boundedRow (maxSources b) (sourceKey source) [] (rl_sources state1);
                times1 = recent times now windowMs
            in if sLimit \<le> length times1
               then (False, b\<lparr>rolling := jset kind
                       (state1\<lparr>rl_sources := jset (sourceKey source) times1 sources\<rparr>) (rolling b)\<rparr>)
               else (True, b\<lparr>rolling := jset kind
                       (state1\<lparr>rl_global := global @ [now],
                               rl_sources := jset (sourceKey source) (times1 @ [now]) sources\<rparr>) (rolling b)\<rparr>)))"

definition reserveIdentity :: "string \<Rightarrow> string \<Rightarrow> nat \<Rightarrow> int \<Rightarrow> int \<Rightarrow> budget \<Rightarrow> bool \<times> budget" where
  "reserveIdentity kind identity limit windowMs clock b0 =
     (let (now, b) = tick clock b0;
          state = (case jget (rolling b) kind of Some s \<Rightarrow> s | None \<Rightarrow> empty_rolling);
          (times, rows) = boundedRow (maxSources b) (take 128 identity) [] (rl_identities state);
          times1 = recent times now windowMs
      in if limit \<le> length times1
         then (False, b\<lparr>rolling := jset kind
                (state\<lparr>rl_identities := jset (take 128 identity) times1 rows\<rparr>) (rolling b)\<rparr>)
         else (True, b\<lparr>rolling := jset kind
                (state\<lparr>rl_identities := jset (take 128 identity) (times1 @ [now]) rows\<rparr>) (rolling b)\<rparr>))"

section \<open>The operations handed out\<close>

text \<open>
  The token of a granted key start. When the second class throws, the first reservation stays.
\<close>

definition beginKeyStart ::
  "int \<Rightarrow> string \<Rightarrow> key_admission option \<Rightarrow> key_admission option \<Rightarrow> budget \<Rightarrow> nat option result \<times> budget" where
  "beginKeyStart clock source ephemeral session b0 =
     (let (allowed, b1) = reserveRolling ''key-start'' source 120 10 MINUTE clock b0
      in if \<not> allowed then (Inr None, b1)
         else
           (case reserveClass ''ephemeral'' source ephemeral b1 of
              (Inl e, b2) \<Rightarrow> (Inl e, b2)
            | (Inr r1, b2) \<Rightarrow>
                (case reserveClass ''session'' source session b2 of
                   (Inl e, b3) \<Rightarrow> (Inl e, b3)
                 | (Inr r2, b3) \<Rightarrow>
                     (let reserved = (case r1 of Some r \<Rightarrow> [r] | None \<Rightarrow> []) @ (case r2 of Some r \<Rightarrow> [r] | None \<Rightarrow> [])
                      in if reserved = [] then (Inr None, b3)
                         else (Inr (Some (next_oid b3)),
                               b3\<lparr>starts := jset (next_oid b3) reserved (starts b3),
                                  next_oid := Suc (next_oid b3)\<rparr>)))))"

definition allowsPurpose :: "reservation list \<Rightarrow> purpose \<Rightarrow> bool" where
  "allowsPurpose reserved p \<longleftrightarrow> (\<exists>r \<in> set reserved. accepts (rs_kind r) p)"

definition finishKeyStart :: "nat \<Rightarrow> purpose option \<Rightarrow> bool \<Rightarrow> budget \<Rightarrow> budget" where
  "finishKeyStart tok purpose valid b =
     (case jget (starts b) tok of
        None \<Rightarrow> b
      | Some reserved \<Rightarrow>
          (let accepted = (valid \<and> (case purpose of Some p \<Rightarrow> allowsPurpose reserved p | None \<Rightarrow> False))
           in fold (finish_class (\<not> accepted)) reserved (b\<lparr>starts := jdel tok (starts b)\<rparr>)))"

definition cancelKeyStart :: "nat \<Rightarrow> budget \<Rightarrow> budget" where
  "cancelKeyStart tok b =
     (case jget (starts b) tok of
        None \<Rightarrow> b
      | Some reserved \<Rightarrow> fold (finish_class False) reserved (b\<lparr>starts := jdel tok (starts b)\<rparr>))"

definition assignIdentity :: "int \<Rightarrow> nat \<Rightarrow> string option \<Rightarrow> budget \<Rightarrow> bool \<times> budget" where
  "assignIdentity clock tok identity b =
     (case jget (signins b) tok of
        None \<Rightarrow> (False, b)
      | Some s \<Rightarrow>
          if \<not> si_allowed s \<or> si_assigned s then (False, b)
          else reserveIdentity (si_kind s) (case identity of Some i \<Rightarrow> i | None \<Rightarrow> ''unknown'') 10 MINUTE clock
                 (b\<lparr>signins := jset tok (s\<lparr>si_assigned := True\<rparr>) (signins b)\<rparr>))"

definition credentials_kind :: "bool \<Rightarrow> string" where
  "credentials_kind internet = ''credentials:'' @ scopeOf internet"

definition beginSignIn :: "int \<Rightarrow> string \<Rightarrow> string option \<Rightarrow> bool \<Rightarrow> budget \<Rightarrow> (bool \<times> nat) \<times> budget" where
  "beginSignIn clock source clientId internet b0 =
     (let (allowed, b1) = reserveRolling (credentials_kind internet) source (fst CREDENTIALS) (snd CREDENTIALS)
            MINUTE clock b0;
          tok = next_oid b1;
          b2 = b1\<lparr>signins := jset tok \<lparr>si_kind = credentials_kind internet, si_allowed = allowed,
                   si_assigned = False\<rparr> (signins b1), next_oid := Suc tok\<rparr>
      in if \<not> allowed then ((False, tok), b2)
         else case clientId of
           None \<Rightarrow> ((True, tok), b2)
         | Some cid \<Rightarrow> (let (ok, b3) = assignIdentity clock tok (Some cid) b2 in ((ok, tok), b3)))"

definition beginRegistration :: "int \<Rightarrow> string \<Rightarrow> bool \<Rightarrow> budget \<Rightarrow> bool \<times> budget" where
  "beginRegistration clock source internet b =
     reserveRolling (credentials_kind internet) source (fst CREDENTIALS) (snd CREDENTIALS) MINUTE clock b"

definition beginStatus :: "int \<Rightarrow> string \<Rightarrow> bool \<Rightarrow> budget \<Rightarrow> bool \<times> budget" where
  "beginStatus clock source internet b =
     reserveRolling (''status:'' @ scopeOf internet) source (fst STATUS) (snd STATUS) MINUTE clock b"

text \<open>\<^verbatim>\<open>withScrypt\<close> before its \<^verbatim>\<open>await\<close>, and its \<^verbatim>\<open>finally\<close>. The error has HTTP status 503.\<close>

definition scrypt_begin :: "budget \<Rightarrow> unit result \<times> budget" where
  "scrypt_begin b =
     (if MAX_SCRYPT \<le> activeScrypt b then (Inl ''Password verification busy'', b)
      else (Inr (), b\<lparr>activeScrypt := activeScrypt b + 1\<rparr>))"

definition scrypt_end :: "budget \<Rightarrow> budget" where
  "scrypt_end b = b\<lparr>activeScrypt := activeScrypt b - 1\<rparr>"

record class_stats =
  st_generation :: "string option"
  st_failures :: int
  st_pending :: int
  st_sources :: nat

definition class_summary :: "string \<Rightarrow> budget \<Rightarrow> class_stats" where
  "class_summary kind b =
     (case jget (classes b) kind of
        Some c \<Rightarrow> \<lparr>st_generation = Some (cls_generation c), st_failures = cls_failures c,
                   st_pending = cls_pending c, st_sources = length (cls_sources c)\<rparr>
      | None \<Rightarrow> \<lparr>st_generation = None, st_failures = 0, st_pending = 0, st_sources = 0\<rparr>)"

definition stats :: "budget \<Rightarrow> class_stats \<times> class_stats \<times> nat" where
  "stats b = (class_summary ''ephemeral'' b, class_summary ''session'' b, activeScrypt b)"

section \<open>Operations as events\<close>

datatype budget_event =
    Key_Start int string "key_admission option" "key_admission option"
  | Finish_Start nat "purpose option" bool
  | Cancel_Start nat
  | Sign_In int string "string option" bool
  | Assign_Identity int nat "string option"
  | Registration int string bool
  | Status_Poll int string bool
  | Scrypt_Begin
  | Scrypt_End

fun budget_step :: "budget \<Rightarrow> budget_event \<Rightarrow> budget" where
  "budget_step b (Key_Start clock source e s) = snd (beginKeyStart clock source e s b)"
| "budget_step b (Finish_Start tok p valid) = finishKeyStart tok p valid b"
| "budget_step b (Cancel_Start tok) = cancelKeyStart tok b"
| "budget_step b (Sign_In clock source cid internet) = snd (beginSignIn clock source cid internet b)"
| "budget_step b (Assign_Identity clock tok i) = snd (assignIdentity clock tok i b)"
| "budget_step b (Registration clock source internet) = snd (beginRegistration clock source internet b)"
| "budget_step b (Status_Poll clock source internet) = snd (beginStatus clock source internet b)"
| "budget_step b Scrypt_Begin = snd (scrypt_begin b)"
| "budget_step b Scrypt_End = scrypt_end b"

section \<open>Rows\<close>

lemma boundedRow_cases:
  assumes "boundedRow cap k new m = (row, m')" "jmap_ok m"
  shows "jmap_ok m' \<and> jget m' k = Some row \<and> (row = new \<or> jget m k = Some row)
    \<and> (\<forall>k' v. jget m' k' = Some v \<longrightarrow> k' = k \<and> v = row \<or> jget m k' = Some v)"
proof (cases "jget m k")
  case None
  let ?d = "if cap \<le> length m then drop 1 m else m"
  have ok: "jmap_ok ?d" using assms(2) by (cases m) (auto simp: jmap_ok_def)
  have sub: "jget m k' = Some v" if "jget ?d k' = Some v" for k' v
  proof -
    have "(k', v) \<in> set m" using jget_in_set [OF that] by (auto dest: in_set_dropD split: if_splits)
    then show ?thesis using in_set_jget [OF assms(2)] by blast
  qed
  have "(new, jset k new ?d) = (row, m')" using assms(1) None unfolding boundedRow_def by (simp only: option.case)
  then have e: "row = new" "m' = jset k new ?d" by (blast dest: prod.inject [THEN iffD1] sym)+
  show ?thesis
    unfolding e using ok sub by (simp only: jmap_ok_jset jget_jset) (metis option.inject)
next
  case (Some r)
  then have e: "row = r" "m' = jset k r (jdel k m)" using assms(1) by (auto simp: boundedRow_def)
  show ?thesis unfolding e using assms(2) Some by (simp split: if_splits)
qed

lemma boundedRow_length:
  assumes "boundedRow cap k new m = (row, m')" "jmap_ok m" "length m \<le> cap" "0 < cap"
  shows "length m' \<le> cap"
proof (cases "jget m k")
  case None
  then have "\<not> jhas m k" by (simp add: jhas_def)
  moreover have "\<not> jhas (drop 1 m) k" using \<open>\<not> jhas m k\<close> by (auto simp: jhas_iff dest: in_set_dropD)
  ultimately show ?thesis using assms None by (auto simp: boundedRow_def length_jset split: if_splits)
next
  case (Some r)
  have "0 < length m" using Some by (cases m) auto
  then have "length m' = length m"
    using assms(1,2) Some alist_map.move_to_end_size [OF assms(2) Some] by (auto simp: boundedRow_def)
  with assms(3) show ?thesis by simp
qed

section \<open>The caps\<close>

definition counts :: "string \<Rightarrow> nat \<Rightarrow> reservation list \<Rightarrow> int" where
  "counts kind oid rs = int (length (filter (\<lambda>r. rs_kind r = kind \<and> rs_class r = oid) rs))"

definition open_list :: "budget \<Rightarrow> reservation list" where
  "open_list b = concat (jvals (starts b))"

text \<open>
  \<open>L\<close> and \<open>S\<close> give the limits of a generation. \<open>rs\<close> are the open reservations, \<open>n\<close> bounds the identity
  numbers in use and \<open>cap\<close> the rows.
\<close>

definition class_ok ::
  "(string \<Rightarrow> int) \<Rightarrow> (string \<Rightarrow> int) \<Rightarrow> nat \<Rightarrow> nat \<Rightarrow> reservation list \<Rightarrow> string \<Rightarrow> class_state \<Rightarrow> bool" where
  "class_ok L S n cap rs kind c \<longleftrightarrow>
     cls_oid c < n \<and> cls_pending c = counts kind (cls_oid c) rs \<and> 0 \<le> cls_failures c
     \<and> cls_failures c + cls_pending c \<le> L (cls_generation c)
     \<and> jmap_ok (cls_sources c) \<and> length (cls_sources c) \<le> cap
     \<and> (\<forall>src row. jget (cls_sources c) src = Some row \<longrightarrow>
          row_failures row + row_pending row \<le> S (cls_generation c))"

definition caps_inv :: "(string \<Rightarrow> int) \<Rightarrow> (string \<Rightarrow> int) \<Rightarrow> reservation list \<Rightarrow> budget \<Rightarrow> bool" where
  "caps_inv L S ex b \<longleftrightarrow> 0 < maxSources b \<and> jmap_ok (classes b) \<and> jmap_ok (starts b)
     \<and> (\<forall>kind c. jget (classes b) kind = Some c \<longrightarrow>
          class_ok L S (next_oid b) (maxSources b) (ex @ open_list b) kind c)
     \<and> (\<forall>r \<in> set (ex @ open_list b). rs_class r < next_oid b)
     \<and> (\<forall>tok. jhas (starts b) tok \<longrightarrow> tok < next_oid b)"

lemma caps_invD:
  assumes "caps_inv L S ex b"
  shows "0 < maxSources b" "jmap_ok (classes b)" "jmap_ok (starts b)"
    and "jget (classes b) kind = Some c \<Longrightarrow> class_ok L S (next_oid b) (maxSources b) (ex @ open_list b) kind c"
    and "r \<in> set ex \<Longrightarrow> rs_class r < next_oid b" "r \<in> set (open_list b) \<Longrightarrow> rs_class r < next_oid b"
    and "jhas (starts b) tok \<Longrightarrow> tok < next_oid b"
  using assms by (simp_all add: caps_inv_def)

lemma caps_invI:
  assumes "0 < maxSources b" "jmap_ok (classes b)" "jmap_ok (starts b)"
    and "\<And>kind c. jget (classes b) kind = Some c \<Longrightarrow>
      class_ok L S (next_oid b) (maxSources b) (ex @ open_list b) kind c"
    and "\<And>r. r \<in> set ex \<Longrightarrow> rs_class r < next_oid b" "\<And>r. r \<in> set (open_list b) \<Longrightarrow> rs_class r < next_oid b"
    and "\<And>tok. jhas (starts b) tok \<Longrightarrow> tok < next_oid b"
  shows "caps_inv L S ex b"
  using assms by (auto simp: caps_inv_def)

lemma counts_Nil [simp]: "counts kind oid [] = 0"
  by (simp add: counts_def)

lemma counts_append [simp]: "counts kind oid (rs @ rs') = counts kind oid rs + counts kind oid rs'"
  by (simp add: counts_def)

lemma counts_Cons: "counts kind oid (r # rs) =
    (if rs_kind r = kind \<and> rs_class r = oid then 1 else 0) + counts kind oid rs"
  by (simp add: counts_def)

lemma counts_fresh: "\<forall>r \<in> set rs. rs_class r < oid \<Longrightarrow> counts kind oid rs = 0"
  by (auto simp: counts_def filter_empty_conv)

lemma counts_nonneg: "0 \<le> counts kind oid rs"
  by (simp add: counts_def)

lemma class_ok_more:
  "class_ok L S n cap rs kind c \<Longrightarrow> n \<le> n' \<Longrightarrow> (\<And>oid. counts kind oid rs' = counts kind oid rs) \<Longrightarrow>
    class_ok L S n' cap rs' kind c"
  by (auto simp: class_ok_def)

lemma class_ok_Suc: "class_ok L S n cap rs kind c \<Longrightarrow> class_ok L S (Suc n) cap rs kind c"
  by (rule class_ok_more [OF _ le_SucI [OF order_refl] refl])

definition limits_agree :: "(string \<Rightarrow> int) \<Rightarrow> (string \<Rightarrow> int) \<Rightarrow> key_admission option \<Rightarrow> bool" where
  "limits_agree L S config \<longleftrightarrow>
     (case config of None \<Rightarrow> True
      | Some c \<Rightarrow> valid_policy c \<and> adm_globalLimit c = L (adm_generation c) \<and> adm_sourceLimit c = S (adm_generation c))"

lemma caps_inv_class_for:
  assumes inv: "caps_inv L S ex b" and f: "class_for kind g b = (c, b1)" and L: "0 \<le> L g"
  shows "caps_inv L S ex b1 \<and> jget (classes b1) kind = Some c \<and> cls_generation c = g
    \<and> maxSources b1 = maxSources b \<and> starts b1 = starts b"
proof (cases "\<exists>c0. jget (classes b) kind = Some c0 \<and> cls_generation c0 = g")
  case True
  with f inv show ?thesis by (auto simp: class_for_def)
next
  case False
  let ?c = "\<lparr>cls_oid = next_oid b, cls_generation = g, cls_failures = 0, cls_pending = 0, cls_sources = []\<rparr>"
  have c: "c = ?c" "b1 = b\<lparr>classes := jset kind ?c (classes b), next_oid := Suc (next_oid b)\<rparr>"
    using f False by (auto simp: class_for_def Let_def split: option.splits if_splits)
  have "counts kind (next_oid b) (ex @ open_list b) = 0"
    using inv by (intro counts_fresh) (auto simp: caps_inv_def)
  then have "class_ok L S (Suc (next_oid b)) (maxSources b) (ex @ open_list b) kind ?c"
    using L inv by (simp add: class_ok_def caps_inv_def)
  then show ?thesis
    using inv unfolding c caps_inv_def
    by (auto simp: open_list_def less_Suc_eq intro: class_ok_Suc)
qed

lemma caps_inv_put:
  assumes inv: "caps_inv L S ex b" and n: "next_oid b \<le> n'" "ex' = ex @ new"
    and c: "class_ok L S n' (maxSources b) (ex' @ open_list b) kind c"
    and new: "\<forall>r \<in> set new. rs_class r < n' \<and> rs_kind r = kind"
  shows "caps_inv L S ex' (b\<lparr>classes := jset kind c (classes b), next_oid := n'\<rparr>)"
proof (rule caps_invI)
  note old = caps_invD [OF inv]
  show "0 < maxSources (b\<lparr>classes := jset kind c (classes b), next_oid := n'\<rparr>)"
    "jmap_ok (classes (b\<lparr>classes := jset kind c (classes b), next_oid := n'\<rparr>))"
    "jmap_ok (starts (b\<lparr>classes := jset kind c (classes b), next_oid := n'\<rparr>))"
    using old(1-3) by simp_all
  have same: "open_list (b\<lparr>classes := jset kind c (classes b), next_oid := n'\<rparr>) = open_list b"
    by (simp add: open_list_def)
  {
    fix r
    assume "r \<in> set ex'"
    then have "rs_class r < n'" using new n old(5) less_le_trans by fastforce
    then show "rs_class r < next_oid (b\<lparr>classes := jset kind c (classes b), next_oid := n'\<rparr>)" by simp
  next
    fix r
    assume "r \<in> set (open_list (b\<lparr>classes := jset kind c (classes b), next_oid := n'\<rparr>))"
    then have "rs_class r < n'" using old(6) n(1) less_le_trans unfolding same by blast
    then show "rs_class r < next_oid (b\<lparr>classes := jset kind c (classes b), next_oid := n'\<rparr>)" by simp
  next
    fix tok
    assume "jhas (starts (b\<lparr>classes := jset kind c (classes b), next_oid := n'\<rparr>)) tok"
    then have "tok < n'" using old(7) n(1) less_le_trans by fastforce
    then show "tok < next_oid (b\<lparr>classes := jset kind c (classes b), next_oid := n'\<rparr>)" by simp
  next
    fix k d
    assume k: "jget (classes (b\<lparr>classes := jset kind c (classes b), next_oid := n'\<rparr>)) k = Some d"
    have "class_ok L S n' (maxSources b) (ex' @ open_list b) k d"
    proof (cases "k = kind")
      case True
      with k c show ?thesis by simp
    next
      case False
      with k have "jget (classes b) k = Some d" by simp
      note d = old(4) [OF this]
      have "counts k oid new = 0" for oid using new False by (auto simp: counts_def filter_empty_conv)
      then show ?thesis unfolding n(2) by (intro class_ok_more [OF d n(1)]) simp
    qed
    then show "class_ok L S (next_oid (b\<lparr>classes := jset kind c (classes b), next_oid := n'\<rparr>))
        (maxSources (b\<lparr>classes := jset kind c (classes b), next_oid := n'\<rparr>))
        (ex' @ open_list (b\<lparr>classes := jset kind c (classes b), next_oid := n'\<rparr>)) k d"
      unfolding same by simp
  }
qed

lemma caps_inv_next:
  assumes inv: "caps_inv L S ex b" and n: "next_oid b \<le> n"
  shows "caps_inv L S ex (b\<lparr>next_oid := n\<rparr>)"
proof -
  note old = caps_invD [OF inv]
  have same: "open_list (b\<lparr>next_oid := n\<rparr>) = open_list b" by (simp add: open_list_def)
  show ?thesis
    by (rule caps_invI, unfold same)
      (use old n class_ok_more [OF old(4) n refl] less_le_trans in \<open>simp_all, blast+\<close>)
qed

lemma caps_inv_reserveClass:
  assumes inv: "caps_inv L S ex b" and r: "reserveClass kind source config b = (res, b')" and lim: "limits_agree L S config"
  shows "\<exists>ro. res = Inr ro \<and> caps_inv L S (ex @ (case ro of Some x \<Rightarrow> [x] | None \<Rightarrow> [])) b'
    \<and> maxSources b' = maxSources b \<and> starts b' = starts b"
proof (cases config)
  case None
  with r inv show ?thesis by (auto simp: reserveClass_def)
next
  case (Some cfg)
  have v: "valid_policy cfg" "adm_globalLimit cfg = L (adm_generation cfg)" "adm_sourceLimit cfg = S (adm_generation cfg)"
    using lim Some by (simp_all add: limits_agree_def)
  have L: "0 \<le> L (adm_generation cfg)" "0 \<le> S (adm_generation cfg)" using v by (simp_all add: valid_policy_def)
  obtain c b1 where f: "class_for kind (adm_generation cfg) b = (c, b1)" by fastforce
  note cf = caps_inv_class_for [OF inv f L(1)]
  then have inv1: "caps_inv L S ex b1" and g: "cls_generation c = adm_generation cfg" and c: "jget (classes b1) kind = Some c"
    and same: "maxSources b1 = maxSources b" "starts b1 = starts b" by simp_all
  note ok = caps_invD(4) [OF inv1 c]
  show ?thesis
  proof (cases "adm_globalLimit cfg \<le> cls_failures c + cls_pending c")
    case True
    with r Some v f inv1 same show ?thesis by (auto simp: reserveClass_def)
  next
    case room: False
    let ?new = "\<lparr>row_oid = next_oid b1, row_failures = 0, row_pending = 0\<rparr>"
    obtain row sources where br: "boundedRow (maxSources b1) (sourceKey source) ?new (cls_sources c) = (row, sources)"
      by fastforce
    have src: "jmap_ok (cls_sources c)" "length (cls_sources c) \<le> maxSources b1" using ok by (simp_all add: class_ok_def)
    note rows = boundedRow_cases [OF br src(1)]
    have len: "length sources \<le> maxSources b1" using boundedRow_length [OF br src] caps_invD(1) [OF inv1] by blast
    have row: "row_failures row + row_pending row \<le> S (cls_generation c)"
      using rows ok L(2) g by (auto simp: class_ok_def)
    have bound: "row_failures v + row_pending v \<le> S (cls_generation c)" if "jget sources k = Some v" for k v
      using rows that row ok by (auto simp: class_ok_def)
    let ?b2 = "b1\<lparr>next_oid := Suc (next_oid b1)\<rparr>"
    show ?thesis
    proof (cases "adm_sourceLimit cfg \<le> row_failures row + row_pending row")
      case True
      let ?c = "c\<lparr>cls_sources := sources\<rparr>"
      have "class_ok L S (Suc (next_oid b1)) (maxSources b1) (ex @ open_list b1) kind ?c"
        using class_ok_Suc [OF ok] rows len bound by (simp add: class_ok_def)
      then have "caps_inv L S ex (b1\<lparr>classes := jset kind ?c (classes b1), next_oid := Suc (next_oid b1)\<rparr>)"
        by (intro caps_inv_put [OF inv1, where new = "[]"]) simp_all
      moreover have "res = Inr None" "b' = b1\<lparr>classes := jset kind ?c (classes b1), next_oid := Suc (next_oid b1)\<rparr>"
        using r Some v(1) f room br True by (auto simp: reserveClass_def Let_def)
      ultimately show ?thesis using same by simp
    next
      case False
      let ?row = "row\<lparr>row_pending := row_pending row + 1\<rparr>"
      let ?c = "c\<lparr>cls_pending := cls_pending c + 1, cls_sources := jset (sourceKey source) ?row sources\<rparr>"
      let ?r = "\<lparr>rs_kind = kind, rs_class = cls_oid c, rs_source = sourceKey source, rs_row = row_oid row\<rparr>"
      have fit: "row_failures row + (row_pending row + 1) \<le> S (cls_generation c)"
        "cls_failures c + (cls_pending c + 1) \<le> L (cls_generation c)"
        using False room v g by simp_all
      have "jhas sources (sourceKey source)" using rows by (simp add: jhas_def)
      then have "length (jset (sourceKey source) ?row sources) \<le> maxSources b1" using len by (simp add: length_jset)
      then have "class_ok L S (Suc (next_oid b1)) (maxSources b1) ((ex @ [?r]) @ open_list b1) kind ?c"
        using class_ok_Suc [OF ok] rows bound fit by (auto simp: class_ok_def counts_Cons)
      moreover have "cls_oid c < next_oid b1" using ok by (simp add: class_ok_def)
      ultimately have "caps_inv L S (ex @ [?r]) (b1\<lparr>classes := jset kind ?c (classes b1), next_oid := Suc (next_oid b1)\<rparr>)"
        by (intro caps_inv_put [OF inv1, where new = "[?r]"]) simp_all
      moreover have "res = Inr (Some ?r)" "b' = b1\<lparr>classes := jset kind ?c (classes b1), next_oid := Suc (next_oid b1)\<rparr>"
        using r Some v(1) f room br False by (auto simp: reserveClass_def Let_def)
      ultimately show ?thesis using same by simp
    qed
  qed
qed

lemma caps_inv_finish_class:
  assumes inv: "caps_inv L S (r # rs) b"
  shows "caps_inv L S rs (finish_class failed r b) \<and> maxSources (finish_class failed r b) = maxSources b
    \<and> starts (finish_class failed r b) = starts b"
proof -
  note old = caps_invD [OF inv]
  have same: "maxSources (finish_class failed r b) = maxSources b" "starts (finish_class failed r b) = starts b"
    "next_oid (finish_class failed r b) = next_oid b"
    by (simp_all add: finish_class_def Let_def split: option.splits)
  have ol: "open_list (finish_class failed r b) = open_list b" by (simp add: open_list_def same)
  have "class_ok L S (next_oid b) (maxSources b) (rs @ open_list b) k d"
    if k: "jget (classes (finish_class failed r b)) k = Some d" for k d
  proof (cases "\<exists>c. jget (classes b) (rs_kind r) = Some c \<and> cls_oid c = rs_class r \<and> k = rs_kind r")
    case True
    then obtain c where c: "jget (classes b) (rs_kind r) = Some c" "cls_oid c = rs_class r" "k = rs_kind r" by blast
    note ok = old(4) [OF c(1)]
    define sources where "sources = (case jget (cls_sources c) (rs_source r) of
        Some row \<Rightarrow> if row_oid row = rs_row r then jset (rs_source r) (row\<lparr>row_pending := row_pending row - 1,
            row_failures := row_failures row + (if failed then 1 else 0)\<rparr>) (cls_sources c) else cls_sources c
      | None \<Rightarrow> cls_sources c)"
    have d: "d = c\<lparr>cls_pending := cls_pending c - 1, cls_failures := cls_failures c + (if failed then 1 else 0),
        cls_sources := sources\<rparr>"
      using k c unfolding finish_class_def sources_def by (simp add: Let_def)
    have "length sources = length (cls_sources c)" "jmap_ok sources"
      using ok by (auto simp: sources_def class_ok_def length_jset jhas_def split: option.splits)
    moreover have "row_failures v + row_pending v \<le> S (cls_generation c)" if "jget sources s = Some v" for s v
      using that ok unfolding sources_def class_ok_def
      by (auto split: option.splits if_splits) fastforce+
    ultimately show ?thesis
      using ok c(2,3) by (auto simp: d class_ok_def counts_Cons)
  next
    case False
    then have kd: "jget (classes b) k = Some d" "\<not> (rs_kind r = k \<and> rs_class r = cls_oid d)"
      using k by (auto simp: finish_class_def Let_def split: option.splits if_splits)
    have "counts k (cls_oid d) ((r # rs) @ open_list b) = counts k (cls_oid d) (rs @ open_list b)"
      using kd(2) by (auto simp: counts_Cons)
    then show ?thesis using old(4) [OF kd(1)] by (simp add: class_ok_def)
  qed
  moreover have "jmap_ok (classes (finish_class failed r b))"
    using old(2) by (simp add: finish_class_def Let_def split: option.splits)
  ultimately show ?thesis
    using old unfolding same ol
    by (intro conjI caps_invI, unfold same ol) auto
qed

section \<open>Every operation keeps the caps\<close>

lemma tick_parts [simp]:
  "classes (snd (tick clock b)) = classes b" "starts (snd (tick clock b)) = starts b"
  "maxSources (snd (tick clock b)) = maxSources b" "next_oid (snd (tick clock b)) = next_oid b"
  "activeScrypt (snd (tick clock b)) = activeScrypt b" "rolling (snd (tick clock b)) = rolling b"
  "signins (snd (tick clock b)) = signins b"
  by (simp_all add: tick_def Let_def)

definition same_classes :: "budget \<Rightarrow> budget \<Rightarrow> bool" where
  "same_classes b b' \<longleftrightarrow> classes b' = classes b \<and> starts b' = starts b \<and> maxSources b' = maxSources b
     \<and> next_oid b \<le> next_oid b' \<and> activeScrypt b' = activeScrypt b"

lemma same_classes_rolling: "same_classes b (snd (reserveRolling kind source g s w clock b))"
  by (simp add: reserveRolling_def same_classes_def Let_def case_prod_beta)

lemma same_classes_identity: "same_classes b (snd (reserveIdentity kind i l w clock b))"
  by (simp add: reserveIdentity_def same_classes_def Let_def case_prod_beta)

lemma same_classes_trans: "same_classes b b1 \<Longrightarrow> same_classes b1 b2 \<Longrightarrow> same_classes b b2"
  by (auto simp: same_classes_def)

lemma same_classes_assign: "same_classes b (snd (assignIdentity clock tok i b))"
proof (cases "jget (signins b) tok")
  case None
  then show ?thesis by (simp add: assignIdentity_def same_classes_def)
next
  case (Some s)
  then show ?thesis
    using same_classes_identity [of "b\<lparr>signins := jset tok (s\<lparr>si_assigned := True\<rparr>) (signins b)\<rparr>" "si_kind s"]
    by (auto simp: assignIdentity_def same_classes_def)
qed

lemma same_classes_signin: "same_classes b (snd (beginSignIn clock source cid internet b))"
proof -
  obtain allowed b1 where r: "reserveRolling (credentials_kind internet) source (fst CREDENTIALS) (snd CREDENTIALS)
      MINUTE clock b = (allowed, b1)" by fastforce
  have "same_classes b b1" using same_classes_rolling [of b] r by (metis snd_conv)
  moreover have "same_classes b1 (b1\<lparr>signins := m, next_oid := Suc (next_oid b1)\<rparr>)" for m
    by (simp add: same_classes_def)
  ultimately show ?thesis
    using same_classes_assign same_classes_trans r
    by (auto simp: beginSignIn_def Let_def case_prod_beta split: option.splits) blast+
qed

lemma caps_inv_same: "caps_inv L S ex b \<Longrightarrow> same_classes b b' \<Longrightarrow> caps_inv L S ex b'"
proof -
  assume inv: "caps_inv L S ex b" and s: "same_classes b b'"
  then have "caps_inv L S ex (b\<lparr>next_oid := next_oid b'\<rparr>)"
    by (intro caps_inv_next) (simp_all add: same_classes_def)
  with s show ?thesis by (simp add: caps_inv_def same_classes_def open_list_def)
qed

lemma counts_mset: "mset rs = mset rs' \<Longrightarrow> counts kind oid rs = counts kind oid rs'"
proof -
  assume "mset rs = mset rs'"
  then have "mset (filter (\<lambda>r. rs_kind r = kind \<and> rs_class r = oid) rs)
      = mset (filter (\<lambda>r. rs_kind r = kind \<and> rs_class r = oid) rs')" by simp
  then show ?thesis unfolding counts_def by (rule arg_cong [OF mset_eq_length])
qed

lemma mset_concat_jdel:
  "jmap_ok m \<Longrightarrow> jget m k = Some rs \<Longrightarrow> mset (concat (jvals m)) = mset rs + mset (concat (jvals (jdel k m)))"
proof (induction m)
  case Nil
  then show ?case by simp
next
  case (Cons p m)
  then show ?case
    by (cases p) (auto simp: jmap_ok_def map_of_eq_None_iff AList.delete_idem split: if_splits)
qed

lemma concat_jset_new: "\<not> jhas m k \<Longrightarrow> concat (jvals (jset k rs m)) = concat (jvals m) @ rs"
  by (induction m) (auto simp: jhas_def split: if_splits)

lemma caps_inv_open:
  assumes inv: "caps_inv L S rs b"
  shows "caps_inv L S [] (b\<lparr>starts := jset (next_oid b) rs (starts b), next_oid := Suc (next_oid b)\<rparr>)"
proof -
  note old = caps_invD [OF inv]
  let ?b = "b\<lparr>starts := jset (next_oid b) rs (starts b), next_oid := Suc (next_oid b)\<rparr>"
  have new: "\<not> jhas (starts b) (next_oid b)" using old(7) by blast
  have ol: "open_list ?b = open_list b @ rs" by (simp add: open_list_def concat_jset_new [OF new])
  have "class_ok L S (Suc (next_oid b)) (maxSources b) (open_list b @ rs) k c" if "jget (classes b) k = Some c" for k c
    by (rule class_ok_more [OF old(4) [OF that]]) simp_all
  moreover have "rs_class r < Suc (next_oid b)" if "r \<in> set rs \<union> set (open_list b)" for r
    using that old(5,6) less_SucI by blast
  moreover have "tok < Suc (next_oid b)" if "jhas (jset (next_oid b) rs (starts b)) tok" for tok
    using that old(7) less_SucI by fastforce
  ultimately show ?thesis
    using old(1-3) by (intro caps_invI, unfold ol) auto
qed

lemma caps_inv_close:
  assumes inv: "caps_inv L S [] b" and t: "jget (starts b) tok = Some rs"
  shows "caps_inv L S rs (b\<lparr>starts := jdel tok (starts b)\<rparr>)"
proof -
  note old = caps_invD [OF inv]
  let ?b = "b\<lparr>starts := jdel tok (starts b)\<rparr>"
  have m: "mset (open_list b) = mset (rs @ open_list ?b)"
    using mset_concat_jdel [OF old(3) t] by (simp add: open_list_def)
  then have s: "set (open_list b) = set rs \<union> set (open_list ?b)" by (metis set_append set_mset_mset)
  have "class_ok L S (next_oid b) (maxSources b) (rs @ open_list ?b) k c" if "jget (classes b) k = Some c" for k c
    using old(4) [OF that] counts_mset [OF m] by (simp add: class_ok_def)
  then show ?thesis
    using old s by (intro caps_invI) auto
qed

lemma caps_inv_finish_all:
  "caps_inv L S rs b \<Longrightarrow> caps_inv L S [] (fold (finish_class failed) rs b)"
  by (induction rs arbitrary: b) (simp_all add: caps_inv_finish_class)

lemma finish_class_scrypt [simp]: "activeScrypt (finish_class failed r b) = activeScrypt b"
  by (simp add: finish_class_def Let_def split: option.splits)

lemma fold_finish_scrypt [simp]: "activeScrypt (fold (finish_class failed) rs b) = activeScrypt b"
  by (induction rs arbitrary: b) simp_all

lemma reserveClass_scrypt: "activeScrypt (snd (reserveClass kind source config b)) = activeScrypt b"
  by (auto simp: reserveClass_def class_for_def Let_def split: option.splits prod.splits if_splits)

fun start_allowed :: "(string \<Rightarrow> int) \<Rightarrow> (string \<Rightarrow> int) \<Rightarrow> budget_event \<Rightarrow> bool" where
  "start_allowed L S (Key_Start _ _ e s) = (limits_agree L S e \<and> limits_agree L S s)"
| "start_allowed L S _ = True"

definition budget_inv :: "(string \<Rightarrow> int) \<Rightarrow> (string \<Rightarrow> int) \<Rightarrow> budget \<Rightarrow> bool" where
  "budget_inv L S b \<longleftrightarrow> caps_inv L S [] b \<and> activeScrypt b \<le> MAX_SCRYPT"

lemma budget_inv_same: "budget_inv L S b \<Longrightarrow> same_classes b b' \<Longrightarrow> budget_inv L S b'"
  using caps_inv_same by (auto simp: budget_inv_def same_classes_def)

lemma budget_inv_key_start:
  assumes inv: "budget_inv L S b" and lim: "limits_agree L S e" "limits_agree L S s"
  shows "budget_inv L S (snd (beginKeyStart clock source e s b))"
proof -
  obtain allowed b1 where r: "reserveRolling ''key-start'' source 120 10 MINUTE clock b = (allowed, b1)" by fastforce
  have inv1: "budget_inv L S b1" using budget_inv_same [OF inv same_classes_rolling] r by (metis snd_conv)
  show ?thesis
  proof (cases allowed)
    case False
    with r inv1 show ?thesis by (simp add: beginKeyStart_def)
  next
    case True
    obtain x2 b2 where r2: "reserveClass ''ephemeral'' source e b1 = (x2, b2)" by fastforce
    from caps_inv_reserveClass [OF _ r2 lim(1), of "[]"] inv1 obtain ro2
      where x2: "x2 = Inr ro2" and inv2: "caps_inv L S (case ro2 of Some x \<Rightarrow> [x] | None \<Rightarrow> []) b2"
      by (auto simp: budget_inv_def)
    obtain x3 b3 where r3: "reserveClass ''session'' source s b2 = (x3, b3)" by fastforce
    from caps_inv_reserveClass [OF inv2 r3 lim(2)] obtain ro3 where x3: "x3 = Inr ro3"
      and inv3: "caps_inv L S ((case ro2 of Some x \<Rightarrow> [x] | None \<Rightarrow> []) @ (case ro3 of Some x \<Rightarrow> [x] | None \<Rightarrow> [])) b3"
      by blast
    have "activeScrypt b3 = activeScrypt b1" using reserveClass_scrypt r2 r3 by (metis snd_conv)
    then have "activeScrypt b3 \<le> MAX_SCRYPT" using inv1 by (simp add: budget_inv_def)
    then show ?thesis
      using r True r2 r3 x2 x3 inv3 caps_inv_open [OF inv3]
      by (auto simp: beginKeyStart_def budget_inv_def Let_def)
  qed
qed

interpretation admission_caps: guarded_system budget_step "budget_inv L S" "start_allowed L S" for L S
proof
  fix b e
  assume inv: "budget_inv L S b" and ok: "start_allowed L S e"
  show "budget_inv L S (budget_step b e)"
  proof (cases e)
    case (Key_Start clock source x y)
    with inv ok show ?thesis by (simp add: budget_inv_key_start)
  next
    case (Finish_Start tok p valid)
    with inv show ?thesis
      by (auto simp: finishKeyStart_def Let_def budget_inv_def split: option.splits
          intro!: caps_inv_finish_all caps_inv_close)
  next
    case (Cancel_Start tok)
    with inv show ?thesis
      by (auto simp: cancelKeyStart_def budget_inv_def split: option.splits intro!: caps_inv_finish_all caps_inv_close)
  next
    case (Scrypt_Begin)
    with inv show ?thesis
      by (auto simp: scrypt_begin_def budget_inv_def caps_inv_def open_list_def)
  next
    case Scrypt_End
    with inv show ?thesis by (auto simp: scrypt_end_def budget_inv_def caps_inv_def open_list_def)
  next
    case (Sign_In clock source cid internet)
    with budget_inv_same [OF inv same_classes_signin] show ?thesis by simp
  next
    case (Assign_Identity clock tok i)
    with budget_inv_same [OF inv same_classes_assign] show ?thesis by simp
  next
    case (Registration clock source internet)
    with budget_inv_same [OF inv same_classes_rolling] show ?thesis by (simp add: beginRegistration_def)
  next
    case (Status_Poll clock source internet)
    with budget_inv_same [OF inv same_classes_rolling] show ?thesis by (simp add: beginStatus_def)
  qed
qed

section \<open>The accounts are exact\<close>

text \<open>
  What wrong guesses have spent, read off the calls alone: the reservations of the key starts that were ended as wrong.
  A predicate tells the reservations apart, of one class or of one row of a source.
\<close>

definition of_class :: "string \<Rightarrow> nat \<Rightarrow> reservation \<Rightarrow> bool" where
  "of_class kind oid r \<longleftrightarrow> rs_kind r = kind \<and> rs_class r = oid"

definition of_row :: "string \<Rightarrow> nat \<Rightarrow> string \<Rightarrow> nat \<Rightarrow> reservation \<Rightarrow> bool" where
  "of_row kind oid source row r \<longleftrightarrow> of_class kind oid r \<and> rs_source r = source \<and> rs_row r = row"

definition tally :: "(reservation \<Rightarrow> bool) \<Rightarrow> reservation list \<Rightarrow> int" where
  "tally p rs = int (length (filter p rs))"

definition wrong_guess :: "(reservation \<Rightarrow> bool) \<Rightarrow> budget \<Rightarrow> budget_event \<Rightarrow> int" where
  "wrong_guess p b e =
     (case e of
        Finish_Start tok purpose valid \<Rightarrow>
          (case jget (starts b) tok of
             None \<Rightarrow> 0
           | Some reserved \<Rightarrow>
               if valid \<and> (case purpose of Some q \<Rightarrow> allowsPurpose reserved q | None \<Rightarrow> False) then 0 else tally p reserved)
      | _ \<Rightarrow> 0)"

fun wrong_guesses :: "(reservation \<Rightarrow> bool) \<Rightarrow> budget \<Rightarrow> budget_event list \<Rightarrow> int" where
  "wrong_guesses p b [] = 0"
| "wrong_guesses p b (e # es) = wrong_guess p b e + wrong_guesses p (budget_step b e) es"

text \<open>\<open>T\<close> gives what has been spent before.\<close>

definition row_exact ::
  "((reservation \<Rightarrow> bool) \<Rightarrow> int) \<Rightarrow> nat \<Rightarrow> reservation list \<Rightarrow> string \<Rightarrow> nat \<Rightarrow> string \<Rightarrow> source_row \<Rightarrow> bool" where
  "row_exact T n rs kind oid source row \<longleftrightarrow> row_oid row < n \<and> row_failures row = T (of_row kind oid source (row_oid row))
     \<and> row_pending row = tally (of_row kind oid source (row_oid row)) rs"

definition class_exact :: "((reservation \<Rightarrow> bool) \<Rightarrow> int) \<Rightarrow> nat \<Rightarrow> reservation list \<Rightarrow> string \<Rightarrow> class_state \<Rightarrow> bool" where
  "class_exact T n rs kind c \<longleftrightarrow> cls_oid c < n \<and> cls_failures c = T (of_class kind (cls_oid c)) \<and> jmap_ok (cls_sources c)
     \<and> (\<forall>source row. jget (cls_sources c) source = Some row \<longrightarrow> row_exact T n rs kind (cls_oid c) source row)"

definition unspent :: "((reservation \<Rightarrow> bool) \<Rightarrow> int) \<Rightarrow> nat \<Rightarrow> reservation list \<Rightarrow> bool" where
  "unspent T n rs \<longleftrightarrow> (\<forall>r \<in> set rs. rs_class r < n \<and> rs_row r < n)
     \<and> (\<forall>p. (\<forall>r. p r \<longrightarrow> n \<le> rs_class r \<or> n \<le> rs_row r) \<longrightarrow> T p = 0)"

definition exact :: "((reservation \<Rightarrow> bool) \<Rightarrow> int) \<Rightarrow> reservation list \<Rightarrow> budget \<Rightarrow> bool" where
  "exact T ex b \<longleftrightarrow> jmap_ok (starts b) \<and> (\<forall>tok. jhas (starts b) tok \<longrightarrow> tok < next_oid b)
     \<and> unspent T (next_oid b) (ex @ open_list b)
     \<and> (\<forall>kind c. jget (classes b) kind = Some c \<longrightarrow> class_exact T (next_oid b) (ex @ open_list b) kind c)"

lemma exactD:
  assumes "exact T ex b"
  shows "jmap_ok (starts b)" "jhas (starts b) tok \<Longrightarrow> tok < next_oid b" "unspent T (next_oid b) (ex @ open_list b)"
    "jget (classes b) kind = Some c \<Longrightarrow> class_exact T (next_oid b) (ex @ open_list b) kind c"
  using assms by (simp_all add: exact_def)

lemma tally_simps [simp]: "tally p [] = 0" "tally p (r # rs) = (if p r then 1 else 0) + tally p rs" "tally p (xs @ ys) = tally p xs + tally p ys"
  by (simp_all add: tally_def)

lemma tally_mset: "mset rs = mset rs' \<Longrightarrow> tally p rs = tally p rs'"
  unfolding tally_def by (metis mset_filter size_mset)

lemma unspentD:
  assumes "unspent T n rs"
  shows "n \<le> oid \<Longrightarrow> T (of_class kind oid) = 0" "n \<le> row \<Longrightarrow> T (of_row kind oid source row) = 0"
    "n \<le> row \<Longrightarrow> tally (of_row kind oid source row) rs = 0"
proof -
  have zero: "T p = 0" if "\<And>r. p r \<Longrightarrow> n \<le> rs_class r \<or> n \<le> rs_row r" for p using assms that unfolding unspent_def by blast
  show "n \<le> oid \<Longrightarrow> T (of_class kind oid) = 0" "n \<le> row \<Longrightarrow> T (of_row kind oid source row) = 0"
    by (rule zero; simp add: of_class_def of_row_def)+
  show "n \<le> row \<Longrightarrow> tally (of_row kind oid source row) rs = 0"
    using assms by (auto simp: unspent_def tally_def of_row_def filter_empty_conv dest!: bspec)
qed

lemma unspent_more: "unspent T n rs \<Longrightarrow> n \<le> n' \<Longrightarrow> set rs' \<subseteq> set rs \<Longrightarrow> unspent T n' rs'"
  unfolding unspent_def by (blast intro: less_le_trans order_trans)

lemma unspent_add: "unspent T n rs \<Longrightarrow> rs_class r < n \<Longrightarrow> rs_row r < n \<Longrightarrow> unspent T n (r # rs)"
  unfolding unspent_def by simp

lemma class_exact_more:
  "class_exact T n rs kind c \<Longrightarrow> n \<le> n' \<Longrightarrow> (\<And>p. tally p rs' = tally p rs) \<Longrightarrow> class_exact T n' rs' kind c"
  unfolding class_exact_def row_exact_def by (metis less_le_trans)

lemma exact_grow: "exact T ex b \<Longrightarrow> next_oid b \<le> n \<Longrightarrow> exact T ex (b\<lparr>next_oid := n\<rparr>)"
proof -
  assume e: "exact T ex b" and n: "next_oid b \<le> n"
  note old = exactD [OF e]
  have ol: "open_list (b\<lparr>next_oid := n\<rparr>) = open_list b" by (simp add: open_list_def)
  have "class_exact T n (ex @ open_list b) k c" if "jget (classes b) k = Some c" for k c
    by (rule class_exact_more [OF old(4) [OF that] n]) simp
  moreover have "tok < n" if "jhas (starts b) tok" for tok using old(2) [OF that] n by simp
  ultimately show ?thesis using old(1) unspent_more [OF old(3) n order_refl] unfolding exact_def ol by simp
qed

lemma exact_same: "exact T ex b \<Longrightarrow> same_classes b b' \<Longrightarrow> exact T ex b'"
proof -
  assume "exact T ex b" and s: "same_classes b b'"
  then have "exact T ex (b\<lparr>next_oid := next_oid b'\<rparr>)" by (intro exact_grow) (simp_all add: same_classes_def)
  with s show ?thesis by (simp add: exact_def same_classes_def open_list_def)
qed

text \<open>A class is put back, with its identity, changed rows and new reservations \<open>new\<close>.\<close>

lemma exact_put:
  assumes e: "exact T ex b" and c: "class_exact T n (ex @ new @ open_list b) kind c" "next_oid b \<le> n"
    and new: "\<And>r. r \<in> set new \<Longrightarrow> rs_class r < n \<and> rs_row r < n"
    and other: "\<And>k d source row. k \<noteq> kind \<Longrightarrow> tally (of_row k d source row) new = 0"
  shows "exact T (ex @ new) (b\<lparr>classes := jset kind c (classes b), next_oid := n\<rparr>)"
proof -
  note old = exactD [OF e]
  let ?b = "b\<lparr>classes := jset kind c (classes b), next_oid := n\<rparr>"
  have ol: "open_list ?b = open_list b" by (simp add: open_list_def)
  have "class_exact T n (ex @ new @ open_list b) k d" if "jget (classes b) k = Some d" "k \<noteq> kind" for k d
  proof -
    have "tally (of_row k o' source row) (ex @ new @ open_list b) = tally (of_row k o' source row) (ex @ open_list b)" for o' source row
      using other [OF that(2)] by simp
    then show ?thesis using old(4) [OF that(1)] c(2) unfolding class_exact_def row_exact_def by (metis less_le_trans)
  qed
  moreover have "unspent T n (ex @ new @ open_list b)"
    using unspent_more [OF old(3) c(2) order_refl] new unfolding unspent_def by auto
  moreover have "tok < n" if "jhas (starts b) tok" for tok using old(2) [OF that] c(2) by simp
  ultimately show ?thesis
    using old(1) c(1) unfolding exact_def ol by auto
qed

lemma exact_class_for:
  assumes e: "exact T ex b" and f: "class_for kind g b = (c, b1)"
  shows "exact T ex b1 \<and> jget (classes b1) kind = Some c \<and> starts b1 = starts b"
proof (cases "\<exists>c0. jget (classes b) kind = Some c0 \<and> cls_generation c0 = g")
  case True
  with f e show ?thesis by (auto simp: class_for_def)
next
  case False
  let ?c = "\<lparr>cls_oid = next_oid b, cls_generation = g, cls_failures = 0, cls_pending = 0, cls_sources = []\<rparr>"
  have c: "c = ?c" "b1 = b\<lparr>classes := jset kind ?c (classes b), next_oid := Suc (next_oid b)\<rparr>"
    using f False by (auto simp: class_for_def Let_def split: option.splits if_splits)
  have "class_exact T (Suc (next_oid b)) (ex @ [] @ open_list b) kind ?c"
    using unspentD(1) [OF exactD(3) [OF e]] by (simp add: class_exact_def jmap_ok_def)
  from exact_put [OF e this] show ?thesis by (simp add: c)
qed

lemma exact_reserve:
  assumes e: "exact T ex b" and r: "reserveClass kind source config b = (res, b')" and v: "\<And>cfg. config = Some cfg \<Longrightarrow> valid_policy cfg"
  shows "\<exists>ro. res = Inr ro \<and> exact T (ex @ (case ro of Some x \<Rightarrow> [x] | None \<Rightarrow> [])) b' \<and> starts b' = starts b"
proof (cases config)
  case None
  with r e show ?thesis by (auto simp: reserveClass_def)
next
  case (Some cfg)
  note v = v [OF Some]
  obtain c b1 where f: "class_for kind (adm_generation cfg) b = (c, b1)" by fastforce
  from exact_class_for [OF e f] have e1: "exact T ex b1" and c: "jget (classes b1) kind = Some c" and same: "starts b1 = starts b" by simp_all
  have ce: "class_exact T (next_oid b1) (ex @ open_list b1) kind c" by (rule exactD(4) [OF e1 c])
  show ?thesis
  proof (cases "adm_globalLimit cfg \<le> cls_failures c + cls_pending c")
    case True
    with r Some v f e1 same show ?thesis by (auto simp: reserveClass_def)
  next
    case room: False
    let ?n = "next_oid b1"
    let ?new = "\<lparr>row_oid = ?n, row_failures = 0, row_pending = 0\<rparr>"
    obtain row sources where br: "boundedRow (maxSources b1) (sourceKey source) ?new (cls_sources c) = (row, sources)" by fastforce
    have ok: "jmap_ok (cls_sources c)" using ce by (simp add: class_exact_def)
    note rows = boundedRow_cases [OF br ok]
    have fresh: "row_exact T (Suc ?n) (ex @ open_list b1) kind (cls_oid c) s ?new" for s
      using unspentD(2,3) [OF exactD(3) [OF e1]] by (simp add: row_exact_def)
    have old: "row_exact T (Suc ?n) (ex @ open_list b1) kind (cls_oid c) s w" if "jget (cls_sources c) s = Some w" for s w
      using ce that by (simp add: class_exact_def row_exact_def less_SucI)
    have at: "row_exact T (Suc ?n) (ex @ open_list b1) kind (cls_oid c) s w" if "jget sources s = Some w" for s w
      using that rows fresh old by metis
    show ?thesis
    proof (cases "adm_sourceLimit cfg \<le> row_failures row + row_pending row")
      case True
      have "class_exact T (Suc ?n) (ex @ [] @ open_list b1) kind (c\<lparr>cls_sources := sources\<rparr>)"
        using ce rows at by (simp add: class_exact_def)
      from exact_put [OF e1 this] have "exact T ex (b1\<lparr>classes := jset kind (c\<lparr>cls_sources := sources\<rparr>) (classes b1), next_oid := Suc ?n\<rparr>)"
        by simp
      moreover have "res = Inr None" "b' = b1\<lparr>classes := jset kind (c\<lparr>cls_sources := sources\<rparr>) (classes b1), next_oid := Suc ?n\<rparr>"
        using r Some v f room br True by (auto simp: reserveClass_def Let_def)
      ultimately show ?thesis using same by simp
    next
      case False
      let ?row = "row\<lparr>row_pending := row_pending row + 1\<rparr>"
      let ?c = "c\<lparr>cls_pending := cls_pending c + 1, cls_sources := jset (sourceKey source) ?row sources\<rparr>"
      let ?r = "\<lparr>rs_kind = kind, rs_class = cls_oid c, rs_source = sourceKey source, rs_row = row_oid row\<rparr>"
      have here: "row_exact T (Suc ?n) (ex @ open_list b1) kind (cls_oid c) (sourceKey source) row" using at rows by blast
      have "class_exact T (Suc ?n) (ex @ [?r] @ open_list b1) kind ?c"
        using ce rows at here by (auto simp: class_exact_def row_exact_def of_row_def of_class_def)
      moreover have "cls_oid c < Suc ?n" "row_oid row < Suc ?n" using ce here by (simp_all add: class_exact_def row_exact_def)
      ultimately have "exact T (ex @ [?r]) (b1\<lparr>classes := jset kind ?c (classes b1), next_oid := Suc ?n\<rparr>)"
        by (intro exact_put [OF e1]) (auto simp: of_row_def of_class_def)
      moreover have "res = Inr (Some ?r)" "b' = b1\<lparr>classes := jset kind ?c (classes b1), next_oid := Suc ?n\<rparr>"
        using r Some v f room br False by (auto simp: reserveClass_def Let_def)
      ultimately show ?thesis using same by simp
    qed
  qed
qed

lemma exact_finish:
  assumes e: "exact T (r # rs) b"
  shows "exact (\<lambda>p. T p + (if failed \<and> p r then 1 else 0)) rs (finish_class failed r b)"
proof -
  let ?T = "\<lambda>p. T p + (if failed \<and> p r then 1 else 0)" and ?b = "finish_class failed r b"
  note old = exactD [OF e]
  have same: "starts ?b = starts b" "next_oid ?b = next_oid b" by (simp_all add: finish_class_def Let_def split: option.splits)
  have ol: "open_list ?b = open_list b" by (simp add: open_list_def same)
  have "unspent ?T (next_oid b) (rs @ open_list b)" using old(3) by (fastforce simp: unspent_def)
  moreover have "class_exact ?T (next_oid b) (rs @ open_list b) k d" if k: "jget (classes ?b) k = Some d" for k d
  proof (cases "\<exists>c. jget (classes b) (rs_kind r) = Some c \<and> cls_oid c = rs_class r \<and> k = rs_kind r")
    case True
    then obtain c where c: "jget (classes b) (rs_kind r) = Some c" "cls_oid c = rs_class r" "k = rs_kind r" by blast
    note ce = old(4) [OF c(1)]
    define sources where "sources = (case jget (cls_sources c) (rs_source r) of
        Some row \<Rightarrow> if row_oid row = rs_row r then jset (rs_source r) (row\<lparr>row_pending := row_pending row - 1,
            row_failures := row_failures row + (if failed then 1 else 0)\<rparr>) (cls_sources c) else cls_sources c
      | None \<Rightarrow> cls_sources c)"
    have d: "d = c\<lparr>cls_pending := cls_pending c - 1, cls_failures := cls_failures c + (if failed then 1 else 0), cls_sources := sources\<rparr>"
      using k c unfolding finish_class_def sources_def by (simp add: Let_def)
    have row: "row_exact ?T (next_oid b) (rs @ open_list b) k (cls_oid c) s w" if w: "jget sources s = Some w" for s w
    proof (cases "s = rs_source r \<and> (\<exists>row. jget (cls_sources c) s = Some row \<and> row_oid row = rs_row r)")
      case True
      then obtain row where row: "jget (cls_sources c) s = Some row" "row_oid row = rs_row r" "s = rs_source r" by blast
      then have "w = row\<lparr>row_pending := row_pending row - 1, row_failures := row_failures row + (if failed then 1 else 0)\<rparr>"
        using w by (simp add: sources_def)
      moreover have "row_exact T (next_oid b) ((r # rs) @ open_list b) k (cls_oid c) s row" using ce row(1) c(3) by (simp add: class_exact_def)
      moreover have "of_row k (cls_oid c) s (row_oid row) r" using c row by (simp add: of_row_def of_class_def)
      ultimately show ?thesis by (simp add: row_exact_def)
    next
      case False
      then have w0: "jget (cls_sources c) s = Some w" and no: "\<not> (s = rs_source r \<and> row_oid w = rs_row r)"
        using w by (auto simp: sources_def split: option.splits if_splits)
      have "row_exact T (next_oid b) ((r # rs) @ open_list b) k (cls_oid c) s w" using ce w0 c(3) by (simp add: class_exact_def)
      then show ?thesis using no by (auto simp: row_exact_def of_row_def)
    qed
    have "jmap_ok sources" using ce by (auto simp: sources_def class_exact_def split: option.splits)
    moreover have "of_class k (cls_oid c) r" using c by (simp add: of_class_def)
    ultimately show ?thesis using ce row c(3) by (simp add: d class_exact_def)
  next
    case False
    then have kd: "jget (classes b) k = Some d" "\<not> of_class k (cls_oid d) r"
      using k by (auto simp: finish_class_def Let_def of_class_def split: option.splits if_splits)
    then show ?thesis using old(4) [OF kd(1)] by (auto simp: class_exact_def row_exact_def of_row_def)
  qed
  ultimately show ?thesis using old(1,2) unfolding exact_def same ol by blast
qed

lemma exact_finish_all: "exact T rs b \<Longrightarrow> exact (\<lambda>p. T p + (if failed then tally p rs else 0)) [] (fold (finish_class failed) rs b)"
proof (induction rs arbitrary: T b)
  case (Cons r rs)
  have "(\<lambda>p. T p + (if failed then tally p (r # rs) else 0)) = (\<lambda>p. T p + (if failed \<and> p r then 1 else 0) + (if failed then tally p rs else 0))"
    by auto
  with Cons.IH [OF exact_finish [OF Cons.prems, of failed]] show ?case by (simp only: fold_simps)
next
  case Nil
  then show ?case by (cases failed) simp_all
qed

lemma exact_open: "exact T rs b \<Longrightarrow> exact T [] (b\<lparr>starts := jset (next_oid b) rs (starts b), next_oid := Suc (next_oid b)\<rparr>)"
proof -
  assume e: "exact T rs b"
  note old = exactD [OF e]
  let ?b = "b\<lparr>starts := jset (next_oid b) rs (starts b), next_oid := Suc (next_oid b)\<rparr>"
  have "\<not> jhas (starts b) (next_oid b)" using old(2) by blast
  then have ol: "open_list ?b = open_list b @ rs" by (simp add: open_list_def concat_jset_new)
  have "unspent T (Suc (next_oid b)) (open_list b @ rs)" by (rule unspent_more [OF old(3)]) auto
  moreover have "class_exact T (Suc (next_oid b)) (open_list b @ rs) k c" if "jget (classes b) k = Some c" for k c
    by (rule class_exact_more [OF old(4) [OF that]]) simp_all
  ultimately show ?thesis using old(1,2) unfolding exact_def ol by (auto simp: less_SucI)
qed

lemma exact_close: "exact T [] b \<Longrightarrow> jget (starts b) tok = Some rs \<Longrightarrow> exact T rs (b\<lparr>starts := jdel tok (starts b)\<rparr>)"
proof -
  assume e: "exact T [] b" and t: "jget (starts b) tok = Some rs"
  note old = exactD [OF e]
  let ?b = "b\<lparr>starts := jdel tok (starts b)\<rparr>"
  have m: "mset (open_list b) = mset (rs @ open_list ?b)" using mset_concat_jdel [OF old(1) t] by (simp add: open_list_def)
  then have "set (rs @ open_list ?b) = set (open_list b)" by (metis set_mset_mset)
  then have "unspent T (next_oid b) (rs @ open_list ?b)" using unspent_more [OF old(3) order_refl] by simp
  moreover have "class_exact T (next_oid b) (rs @ open_list ?b) k c" if "jget (classes b) k = Some c" for k c
    by (rule class_exact_more [OF old(4) [OF that]]) (simp_all only: append_Nil order_refl tally_mset [OF m])
  ultimately show ?thesis using old(1,2) unfolding exact_def by simp
qed

lemma exact_key_start:
  assumes e: "exact T [] b" and lim: "limits_agree L S x" "limits_agree L S y"
  shows "exact T [] (snd (beginKeyStart clock source x y b))"
proof -
  have v: "valid_policy cfg" if "x = Some cfg \<or> y = Some cfg" for cfg using lim that by (auto simp: limits_agree_def)
  obtain allowed b1 where r: "reserveRolling ''key-start'' source 120 10 MINUTE clock b = (allowed, b1)" by fastforce
  have e1: "exact T [] b1" using exact_same [OF e same_classes_rolling] r by (metis snd_conv)
  show ?thesis
  proof (cases allowed)
    case False
    with r e1 show ?thesis by (simp add: beginKeyStart_def)
  next
    case True
    obtain x2 b2 where r2: "reserveClass ''ephemeral'' source x b1 = (x2, b2)" by fastforce
    obtain ro2 where x2: "x2 = Inr ro2" and e2: "exact T (case ro2 of Some x \<Rightarrow> [x] | None \<Rightarrow> []) b2"
      using exact_reserve [OF e1 r2] v by auto
    obtain x3 b3 where r3: "reserveClass ''session'' source y b2 = (x3, b3)" by fastforce
    obtain ro3 where x3: "x3 = Inr ro3"
      and e3: "exact T ((case ro2 of Some x \<Rightarrow> [x] | None \<Rightarrow> []) @ (case ro3 of Some x \<Rightarrow> [x] | None \<Rightarrow> [])) b3"
      using exact_reserve [OF e2 r3] v by auto
    show ?thesis using r True r2 r3 x2 x3 e3 exact_open [OF e3] by (auto simp: beginKeyStart_def Let_def)
  qed
qed

lemma exact_step:
  assumes e: "exact T [] b" and ok: "start_allowed L S ev"
  shows "exact (\<lambda>p. T p + wrong_guess p b ev) [] (budget_step b ev)"
proof (cases ev)
  case (Key_Start clock source x y)
  with e ok show ?thesis using exact_key_start [of T b L S] by (simp add: wrong_guess_def)
next
  case (Finish_Start tok q valid)
  show ?thesis
  proof (cases "jget (starts b) tok")
    case None
    with e Finish_Start show ?thesis by (simp add: finishKeyStart_def wrong_guess_def)
  next
    case (Some rs)
    let ?good = "valid \<and> (case q of Some p \<Rightarrow> allowsPurpose rs p | None \<Rightarrow> False)"
    have "(\<lambda>p. T p + wrong_guess p b ev) = (\<lambda>p. T p + (if \<not> ?good then tally p rs else 0))"
      using Finish_Start Some by (auto simp: wrong_guess_def)
    then show ?thesis using exact_finish_all [OF exact_close [OF e Some], of "\<not> ?good"] Finish_Start Some
      by (simp only: budget_step.simps finishKeyStart_def option.case Let_def)
  qed
next
  case (Cancel_Start tok)
  show ?thesis
  proof (cases "jget (starts b) tok")
    case None
    with e Cancel_Start show ?thesis by (simp add: cancelKeyStart_def wrong_guess_def)
  next
    case (Some rs)
    from exact_finish_all [OF exact_close [OF e Some], of False] show ?thesis
      using Cancel_Start Some by (simp add: cancelKeyStart_def wrong_guess_def)
  qed
next
  case (Sign_In clock source cid internet)
  with exact_same [OF e same_classes_signin] show ?thesis by (simp add: wrong_guess_def)
next
  case (Assign_Identity clock tok i)
  with exact_same [OF e same_classes_assign] show ?thesis by (simp add: wrong_guess_def)
next
  case (Registration clock source internet)
  with exact_same [OF e same_classes_rolling] show ?thesis by (simp add: beginRegistration_def wrong_guess_def)
next
  case (Status_Poll clock source internet)
  with exact_same [OF e same_classes_rolling] show ?thesis by (simp add: beginStatus_def wrong_guess_def)
qed (use e in \<open>simp_all add: scrypt_begin_def scrypt_end_def wrong_guess_def exact_def open_list_def\<close>)

lemma exact_run:
  "exact T [] b \<Longrightarrow> list_all (start_allowed L S) es \<Longrightarrow> exact (\<lambda>p. T p + wrong_guesses p b es) [] (run budget_step b es)"
proof (induction es arbitrary: T b)
  case (Cons ev es)
  have ok: "start_allowed L S ev" "list_all (start_allowed L S) es" using Cons.prems(2) by simp_all
  from Cons.IH [OF exact_step [OF Cons.prems(1) ok(1)] ok(2)] show ?case by (simp add: add.assoc)
qed simp

section \<open>The rolling windows\<close>

definition global_row :: "string \<Rightarrow> budget \<Rightarrow> int list" where
  "global_row K b = (case jget (rolling b) K of Some s \<Rightarrow> rl_global s | None \<Rightarrow> [])"

definition global_limit :: "string \<Rightarrow> nat" where
  "global_limit K = (if K = ''key-start'' then 120
     else if K = ''credentials:internet'' \<or> K = ''credentials:local'' then 600 else 1200)"

lemma reserveRolling_row:
  assumes "reserveRolling kind source g s w now b = (ok, b')" "lastNow b \<le> now"
  shows "lastNow b' = now \<and> (K \<noteq> kind \<longrightarrow> global_row K b' = global_row K b)
    \<and> (ok \<longrightarrow> length (recent (global_row kind b) now w) < g
         \<and> global_row kind b' = recent (global_row kind b) now w @ [now])
    \<and> (\<not> ok \<longrightarrow> global_row kind b' = recent (global_row kind b) now w)"
  using assms
  by (auto simp: reserveRolling_def global_row_def Let_def tick_def empty_rolling_def max_def case_prod_beta
      split: if_splits option.splits)

lemma reserveIdentity_row:
  assumes "lastNow b \<le> now"
  shows "lastNow (snd (reserveIdentity kind i l w now b)) = now
    \<and> global_row K (snd (reserveIdentity kind i l w now b)) = global_row K b"
  using assms
  by (auto simp: reserveIdentity_def global_row_def Let_def tick_def empty_rolling_def max_def case_prod_beta
      split: option.splits)

lemma assignIdentity_row:
  assumes "lastNow b \<le> now"
  shows "lastNow (snd (assignIdentity now tok i b)) \<le> now
    \<and> global_row K (snd (assignIdentity now tok i b)) = global_row K b"
proof (cases "jget (signins b) tok")
  case None
  with assms show ?thesis by (simp add: assignIdentity_def)
next
  case (Some s)
  then show ?thesis
    using assms reserveIdentity_row [of "b\<lparr>signins := jset tok (s\<lparr>si_assigned := True\<rparr>) (signins b)\<rparr>" now "si_kind s"]
    by (auto simp: assignIdentity_def global_row_def)
qed

lemma reserveClass_rolling: "reserveClass kind source config b = (r, b') \<Longrightarrow> rolling b' = rolling b \<and> lastNow b' = lastNow b"
  by (auto simp: reserveClass_def class_for_def Let_def split: option.splits prod.splits if_splits)

lemma finish_class_rolling: "rolling (finish_class f r b) = rolling b \<and> lastNow (finish_class f r b) = lastNow b"
  by (simp add: finish_class_def Let_def split: option.splits)

lemma fold_finish_rolling:
  "rolling (fold (finish_class f) rs b) = rolling b \<and> lastNow (fold (finish_class f) rs b) = lastNow b"
  by (induction rs arbitrary: b) (simp_all add: finish_class_rolling)

lemma keyStart_rolling:
  assumes "reserveRolling ''key-start'' source 120 10 MINUTE now b = (ok, b1)"
  shows "rolling (snd (beginKeyStart now source e s b)) = rolling b1
    \<and> lastNow (snd (beginKeyStart now source e s b)) = lastNow b1"
  using assms
  by (auto simp: beginKeyStart_def Let_def split: prod.splits sum.splits dest!: reserveClass_rolling)

text \<open>The rolling reservation that an event makes: its kind, source and limits.\<close>

fun rolling_part :: "budget_event \<Rightarrow> (string \<times> string \<times> nat \<times> nat) option" where
  "rolling_part (Key_Start _ source _ _) = Some (''key-start'', source, 120, 10)"
| "rolling_part (Sign_In _ source _ internet) = Some (credentials_kind internet, source, fst CREDENTIALS, snd CREDENTIALS)"
| "rolling_part (Registration _ source internet) = Some (credentials_kind internet, source, fst CREDENTIALS, snd CREDENTIALS)"
| "rolling_part (Status_Poll _ source internet) = Some (''status:'' @ scopeOf internet, source, fst STATUS, snd STATUS)"
| "rolling_part _ = None"

definition passes_window :: "string \<Rightarrow> budget_event \<Rightarrow> int \<Rightarrow> budget \<Rightarrow> effect \<times> budget" where
  "passes_window K e now b =
     (case rolling_part e of
        Some (kind, source, g, s) \<Rightarrow>
          (if kind = K \<and> fst (reserveRolling kind source g s MINUTE now b) then Counted else Unchanged, budget_step b e)
      | None \<Rightarrow> (Unchanged, budget_step b e))"

fun event_at :: "budget_event \<Rightarrow> int \<Rightarrow> bool" where
  "event_at (Key_Start clock _ _ _) now = (clock = now)"
| "event_at (Sign_In clock _ _ _) now = (clock = now)"
| "event_at (Assign_Identity clock _ _) now = (clock = now)"
| "event_at (Registration clock _ _) now = (clock = now)"
| "event_at (Status_Poll clock _ _) now = (clock = now)"
| "event_at _ now = True"

lemma global_limit_kinds:
  "global_limit (credentials_kind internet) = 600" "global_limit (''status:'' @ scopeOf internet) = 1200"
  "global_limit ''key-start'' = 120"
  by (cases internet; simp add: global_limit_def credentials_kind_def scopeOf_def)+

lemma beginSignIn_state:
  assumes "reserveRolling (credentials_kind internet) source (fst CREDENTIALS) (snd CREDENTIALS) MINUTE now b = (ok, b1)"
    and "b2 = b1\<lparr>signins := jset (next_oid b1) \<lparr>si_kind = credentials_kind internet, si_allowed = ok,
                   si_assigned = False\<rparr> (signins b1), next_oid := Suc (next_oid b1)\<rparr>"
  shows "\<exists>i. snd (beginSignIn now source cid internet b) = b2
    \<or> snd (beginSignIn now source cid internet b) = snd (assignIdentity now (next_oid b1) i b2)"
  using assms(1) unfolding assms(2) by (auto simp: beginSignIn_def Let_def case_prod_beta split: option.splits)

lemma signIn_row:
  assumes r: "reserveRolling (credentials_kind internet) source (fst CREDENTIALS) (snd CREDENTIALS) MINUTE now b = (ok, b1)"
    and l: "lastNow b1 \<le> now"
  shows "global_row K (snd (beginSignIn now source cid internet b)) = global_row K b1
    \<and> lastNow (snd (beginSignIn now source cid internet b)) \<le> now"
proof -
  define b2 where "b2 = b1\<lparr>signins := jset (next_oid b1) \<lparr>si_kind = credentials_kind internet, si_allowed = ok,
                   si_assigned = False\<rparr> (signins b1), next_oid := Suc (next_oid b1)\<rparr>"
  have b2: "lastNow b2 \<le> now" "global_row K b2 = global_row K b1" using l by (simp_all add: b2_def global_row_def)
  obtain i where "snd (beginSignIn now source cid internet b) = b2
      \<or> snd (beginSignIn now source cid internet b) = snd (assignIdentity now (next_oid b1) i b2)"
    using beginSignIn_state [OF r b2_def] by blast
  then show ?thesis using b2 assignIdentity_row [OF b2(1)] by auto
qed

lemma rolling_part_row:
  assumes "event_at e now" "lastNow b \<le> now" "rolling_part e = Some (kind, source, g, s)"
    and "reserveRolling kind source g s MINUTE now b = (ok, b1)"
  shows "global_row K (budget_step b e) = global_row K b1 \<and> lastNow (budget_step b e) \<le> now \<and> g = global_limit kind"
proof -
  have l: "lastNow b1 = now" using reserveRolling_row [OF assms(4,2)] by blast
  show ?thesis
  proof (cases e)
    case (Key_Start clock src x y)
    with assms l keyStart_rolling [of source now b ok b1 x y] show ?thesis
      by (auto simp: global_row_def global_limit_def)
  next
    case (Sign_In clock src cid internet)
    with assms l signIn_row [of internet source now b ok b1 K cid] show ?thesis
      by (auto simp: global_limit_kinds) (simp_all add: CREDENTIALS_def)
  next
    case (Registration clock src internet)
    with assms l show ?thesis
      by (auto simp: beginRegistration_def global_limit_kinds) (simp_all add: CREDENTIALS_def)
  next
    case (Status_Poll clock src internet)
    with assms l show ?thesis
      by (auto simp: beginStatus_def global_limit_kinds [simplified]) (simp_all add: STATUS_def)

  qed (use assms in simp_all)
qed

lemma no_rolling_part_row:
  assumes "event_at e now" "lastNow b \<le> now" "rolling_part e = None"
  shows "global_row K (budget_step b e) = global_row K b \<and> lastNow (budget_step b e) \<le> now"
proof (cases e)
  case (Assign_Identity clock tok i)
  with assms assignIdentity_row show ?thesis by simp
next
  case (Finish_Start tok p valid)
  with assms fold_finish_rolling show ?thesis
    by (auto simp: finishKeyStart_def global_row_def Let_def split: option.splits)
next
  case (Cancel_Start tok)
  with assms fold_finish_rolling show ?thesis
    by (auto simp: cancelKeyStart_def global_row_def Let_def split: option.splits)
qed (use assms in \<open>simp_all add: scrypt_begin_def scrypt_end_def global_row_def\<close>)

lemma passes_window_row:
  assumes "event_at e now" "lastNow b \<le> now" "passes_window K e now b = (eff, b')"
  shows "lastNow b' \<le> now \<and> (case eff of
      Counted \<Rightarrow> length (recent (global_row K b) now MINUTE) < global_limit K
        \<and> global_row K b' = recent (global_row K b) now MINUTE @ [now]
    | Unchanged \<Rightarrow> global_row K b' = global_row K b \<or> global_row K b' = recent (global_row K b) now MINUTE
    | Cleared \<Rightarrow> False)"
proof (cases "rolling_part e")
  case None
  with assms no_rolling_part_row [OF assms(1,2) None, of K] show ?thesis by (auto simp: passes_window_def)
next
  case (Some p)
  obtain kind source g s where p: "p = (kind, source, g, s)" by (cases p) auto
  obtain ok b1 where r: "reserveRolling kind source g s MINUTE now b = (ok, b1)" by fastforce
  note row = rolling_part_row [OF assms(1,2) Some [unfolded p] r, of K]
  note rr = reserveRolling_row [OF r assms(2), of K]
  have "eff = (if kind = K \<and> ok then Counted else Unchanged)" "b' = budget_step b e"
    using assms(3) Some p r by (auto simp: passes_window_def)
  then show ?thesis using row rr by auto
qed

interpretation rolling_windows: window_limiter "passes_window K" "global_row K" "global_limit K" MINUTE
    "\<lambda>_. True" event_at lastNow for K
proof
  fix b e now eff b'
  assume a: "event_at e now" "lastNow b \<le> now" "passes_window K e now b = (eff, b')"
  show "True \<and> lastNow b' \<le> now" using passes_window_row [OF a] by blast
next
  fix b e now b'
  assume a: "event_at e now" "lastNow b \<le> now" "passes_window K e now b = (Counted, b')"
  show "length (recent (global_row K b) now MINUTE) < global_limit K" using passes_window_row [OF a] by simp
  fix t :: int
  assume "now \<le> t"
  then show "recent (global_row K b') t MINUTE = recent (global_row K b @ [now]) t MINUTE"
    using passes_window_row [OF a] by (simp add: recent_append recent_recent)
next
  fix b e now b' and t :: int
  assume a: "event_at e now" "lastNow b \<le> now" "passes_window K e now b = (Unchanged, b')" "now \<le> t"
  show "recent (global_row K b') t MINUTE = recent (global_row K b) t MINUTE"
    using passes_window_row [OF a(1-3)] a(4) by (auto simp: recent_recent)
next
  fix b e now b'
  assume a: "event_at e now" "lastNow b \<le> now" "passes_window K e now b = (Cleared, b')"
  show "global_row K b' = []" using passes_window_row [OF a] by simp
qed

section \<open>Properties\<close>

lemma budget_inv_new: "new_budget limit = Inr b \<Longrightarrow> budget_inv L S b"
  by (auto simp: new_budget_def budget_inv_def caps_inv_def open_list_def jhas_def split: jsvalue.splits if_splits)

lemma exact_new: "new_budget limit = Inr b \<Longrightarrow> exact (\<lambda>_. 0) [] b"
  by (auto simp: new_budget_def exact_def unspent_def open_list_def jhas_def jmap_ok_def split: jsvalue.splits if_splits)


text \<open>The moments of the calls that were answered well.\<close>

fun lets_pass :: "string \<Rightarrow> budget \<Rightarrow> budget_event \<Rightarrow> bool" where
  "lets_pass K b (Key_Start clock source e s) =
     (K = ''key-start'' \<and> (case fst (beginKeyStart clock source e s b) of Inr (Some _) \<Rightarrow> True | _ \<Rightarrow> False))"
| "lets_pass K b (Sign_In clock source cid internet) =
     (K = credentials_kind internet \<and> fst (fst (beginSignIn clock source cid internet b)))"
| "lets_pass K b (Registration clock source internet) = (K = credentials_kind internet \<and> fst (beginRegistration clock source internet b))"
| "lets_pass K b (Status_Poll clock source internet) = (K = ''status:'' @ scopeOf internet \<and> fst (beginStatus clock source internet b))"
| "lets_pass K b _ = False"

fun passed_log :: "string \<Rightarrow> budget \<Rightarrow> (int \<times> budget_event) list \<Rightarrow> int list" where
  "passed_log K b [] = []"
| "passed_log K b ((now, e) # es) = (if lets_pass K b e then [now] else []) @ passed_log K (budget_step b e) es"

lemma lets_pass_counted:
  assumes "lets_pass K b e" "event_at e now"
  shows "passes_window K e now b = (Counted, budget_step b e)"
proof (cases e)
  case (Key_Start clock source x y)
  obtain allowed b1 where r: "reserveRolling ''key-start'' source 120 10 MINUTE now b = (allowed, b1)" by fastforce
  have allowed using assms Key_Start r by (cases allowed) (simp_all add: beginKeyStart_def)
  then show ?thesis using assms Key_Start r by (simp add: passes_window_def)
next
  case (Sign_In clock source cid internet)
  obtain allowed b1 where r: "reserveRolling (credentials_kind internet) source (fst CREDENTIALS) (snd CREDENTIALS) MINUTE now b = (allowed, b1)"
    by fastforce
  have allowed using assms Sign_In r by (cases allowed) (simp_all add: beginSignIn_def Let_def)
  then show ?thesis using assms Sign_In r by (simp add: passes_window_def case_prod_beta)
next
  case (Registration clock source internet)
  then show ?thesis using assms by (simp add: passes_window_def beginRegistration_def case_prod_beta)
next
  case (Status_Poll clock source internet)
  then show ?thesis using assms by (simp add: passes_window_def beginStatus_def case_prod_beta)
qed (use assms in simp_all)

lemma passes_window_next: "snd (passes_window K e now b) = budget_step b e" "fst (passes_window K e now b) \<noteq> Cleared"
  by (simp_all add: passes_window_def split: option.split)

lemma window_count_append: "window_count (xs @ ys) T w = window_count xs T w + window_count ys T w"
  by (simp add: window_count_def)

lemma passed_log_counted:
  assumes "\<forall>(now, e) \<in> set es. event_at e now"
  shows "window_count log T w + window_count (passed_log K b es) T w \<le> window_count (counted_log (passes_window K) log b es) T w"
  using assms
proof (induction es arbitrary: b log)
  case (Cons x es)
  obtain now e where x: "x = (now, e)" by fastforce
  have rest: "\<forall>(now, e) \<in> set es. event_at e now" and at: "event_at e now" using Cons.prems by (auto simp: x)
  show ?case
  proof (cases "fst (passes_window K e now b)")
    case Counted
    then have p: "passes_window K e now b = (Counted, budget_step b e)" using passes_window_next(1) [of K e now b] by (simp add: prod_eq_iff)
    have "window_count (log @ (if lets_pass K b e then [now] else [])) T w \<le> window_count (log @ [now]) T w"
      by (simp add: window_count_append)
    with Cons.IH [OF rest, of "log @ [now]" "budget_step b e"] show ?thesis by (simp add: x p window_count_append)
  next
    case Unchanged
    then have p: "passes_window K e now b = (Unchanged, budget_step b e)" using passes_window_next(1) [of K e now b] by (simp add: prod_eq_iff)
    then have "\<not> lets_pass K b e" using lets_pass_counted [OF _ at] by auto
    with Cons.IH [OF rest, of log "budget_step b e"] show ?thesis by (simp add: x p)
  qed (use passes_window_next(2) [of K e now b] in simp)
qed simp

text \<open>
  C17: the rolling windows. In every sequence of calls, at most 120 key starts, 600 sign-ins and
  registrations, or 1200 status calls of one scope are answered well in any minute, by the answers the calls
  give; and the windows of the internet and of the local network are separate kinds.
\<close>

theorem window_admissions:
  assumes "new_budget limit = Inr b" "\<forall>(now, e) \<in> set es. event_at e now" "sorted (map fst es)"
    and "\<forall>(now, e) \<in> set es. 0 \<le> now"
  shows "window_count (passed_log K b es) T 60000 \<le> global_limit K"
proof -
  have "lastNow b = 0" "global_row K b = []"
    using assms(1) by (auto simp: new_budget_def global_row_def split: jsvalue.splits if_splits)
  moreover have "es \<noteq> [] \<Longrightarrow> 0 \<le> fst (hd es)" using assms(4) by (cases es) auto
  ultimately have "window_count (counted_log (passes_window K) [] b es) T 60000 \<le> global_limit K"
    using rolling_windows.limit_from_start [where K = K and s = b and es = es and T = T] assms(2,3)
    by (simp add: MINUTE_def)
  with passed_log_counted [OF assms(2), of "[]" T 60000 K b] show ?thesis by simp
qed

definition sample_config :: key_admission where
  "sample_config = \<lparr>adm_generation = ''g'', adm_globalLimit = 2, adm_sourceLimit = 1,
     adm_purpose = Session_Purpose, adm_expiresAt = None, adm_alphabet = ''letters''\<rparr>"

definition sample_starts :: "budget_event list" where
  "sample_starts = [Key_Start 5 ''10.0.0.1'' None (Some sample_config), Key_Start 6 ''10.0.0.1'' None (Some sample_config),
     Key_Start 7 ''10.0.0.2'' None (Some sample_config), Finish_Start 2 None False]"


theorem window_admissions_witness:
  "\<exists>b. new_budget (Whole 8) = Inr b \<and> passed_log ''key-start'' b [(5, Key_Start 5 ''10.0.0.1'' None (Some sample_config))] = [5]
     \<and> window_count (passed_log ''key-start'' b [(5, Key_Start 5 ''10.0.0.1'' None (Some sample_config))]) 5 60000 \<le> 120"
proof -
  obtain b where b: "new_budget (Whole 8) = Inr b" by (simp add: new_budget_def)
  have "(case new_budget (Whole 8) of Inr b \<Rightarrow>
      passed_log ''key-start'' b [(5, Key_Start 5 ''10.0.0.1'' None (Some sample_config))] = [5] | _ \<Rightarrow> False)" by code_simp
  with window_admissions [OF b, of "[(5, Key_Start 5 ''10.0.0.1'' None (Some sample_config))]" "''key-start''" 5] b
  show ?thesis by (simp add: global_limit_def)
qed

end
