(* ===== verification/CodeIssuance.thy ===== *)
theory CodeIssuance
  imports SessionStore AdmissionBudget
begin

text \<open>
  \<^verbatim>\<open>apps/server/src/code-issuance.mjs\<close> (which codes the owner may issue and what the status view says of
  them) and \<^verbatim>\<open>server-limits.mjs\<close> (connections per source). The settings are what \<^verbatim>\<open>access.snapshot()\<close>
  delivers.
\<close>

section \<open>Issuing codes\<close>

record issue_settings =
  is_defaultCodeAlphabet :: string
  is_connectionMode :: string
  is_shortCodeTtlSeconds :: int
  is_shortCodeMaxFailures :: int
  is_shortCodePerSourceMaxFailures :: int
  is_sessionPasswordMaxFailures :: int

definition issue_limits :: "issue_settings \<Rightarrow> bool \<Rightarrow> attempt_limits" where
  "issue_limits s ephemeral =
     \<lparr>globalLimit = Whole (if ephemeral then is_shortCodeMaxFailures s else is_sessionPasswordMaxFailures s),
      sourceLimit = Whole (min (if ephemeral then is_shortCodePerSourceMaxFailures s else 5)
        (if ephemeral then is_shortCodeMaxFailures s else is_sessionPasswordMaxFailures s))\<rparr>"

definition issue_options :: "issue_settings \<Rightarrow> string option \<Rightarrow> bool \<Rightarrow> (string \<times> attempt_limits) result" where
  "issue_options s requested ephemeral =
     (let alphabet = (case requested of Some a \<Rightarrow> a | None \<Rightarrow> is_defaultCodeAlphabet s)
      in if \<not> jhas CODE_ALPHABETS alphabet then Inl ''Invalid code alphabet''
         else Inr (alphabet, issue_limits s ephemeral))"

text \<open>An issued code with its record, and the store after it; \<open>None\<close> when the random bytes ran out.\<close>

definition with_keys ::
  "('p, 'd) store \<Rightarrow> (registry \<times> (string \<times> key_record) result) option
    \<Rightarrow> ((string \<times> key_record) result \<times> ('p, 'd) store) option" where
  "with_keys st r = map_option (\<lambda>(reg, out). (out, st\<lparr>store_keys := reg\<rparr>)) r"

definition ephemeral_options :: "issue_settings \<Rightarrow> string \<Rightarrow> attempt_limits \<Rightarrow> create_options" where
  "ephemeral_options s alphabet limits =
     \<lparr>opt_ttlMs = Some (Whole (is_shortCodeTtlSeconds s * 1000)), opt_alphabet = Some alphabet,
      opt_limits = Some limits\<rparr>"

definition issue_oneTime ::
  "(string \<Rightarrow> string) \<Rightarrow> int \<Rightarrow> string \<Rightarrow> byte list \<Rightarrow> issue_settings \<Rightarrow> string option \<Rightarrow> ('p, 'd) store
    \<Rightarrow> ((string \<times> key_record) result \<times> ('p, 'd) store) option" where
  "issue_oneTime H now uuid bs s requested st =
     (case issue_options s requested True of
        Inl e \<Rightarrow> Some (Inl e, st)
      | Inr (alphabet, limits) \<Rightarrow>
          if is_connectionMode s = ''approved-only''
          then Some (Inl ''Ordinary connection keys are not enabled'', st)
          else with_keys st (createOneTimeConnection H now uuid bs (ephemeral_options s alphabet limits) (store_keys st)))"

definition issue_setup ::
  "(string \<Rightarrow> string) \<Rightarrow> int \<Rightarrow> string \<Rightarrow> byte list \<Rightarrow> issue_settings \<Rightarrow> string option \<Rightarrow> ('p, 'd) store
    \<Rightarrow> ((string \<times> key_record) result \<times> ('p, 'd) store) option" where
  "issue_setup H now uuid bs s requested st =
     (case issue_options s requested True of
        Inl e \<Rightarrow> Some (Inl e, st)
      | Inr (alphabet, limits) \<Rightarrow>
          with_keys st (createSetup H now uuid bs (ephemeral_options s alphabet limits) (store_keys st)))"

definition issue_rotateSession ::
  "(string \<Rightarrow> string) \<Rightarrow> int \<Rightarrow> string \<Rightarrow> byte list \<Rightarrow> issue_settings \<Rightarrow> string option \<Rightarrow> ('p, 'd) store
    \<Rightarrow> ((string \<times> string \<times> key_admission option) result \<times> ('p, 'd) store) option" where
  "issue_rotateSession H now uuid bs s requested st =
     (case issue_options s requested False of
        Inl e \<Rightarrow> Some (Inl e, st)
      | Inr (alphabet, limits) \<Rightarrow>
          (case rotateConnectionKey H now uuid bs (Some alphabet) (Some limits) st of
             None \<Rightarrow> None
           | Some (Inl e, st1) \<Rightarrow> Some (Inl e, st1)
           | Some (Inr key, st1) \<Rightarrow>
               (let (adm, reg) = activeSession H now (store_keys st1)
                in Some (Inr (key, alphabet, adm), st1\<lparr>store_keys := reg\<rparr>))))"

record code_status =
  cs_purpose :: purpose
  cs_alphabet :: string
  cs_expiresAt :: "int option"
  cs_failures :: int
  cs_globalLimit :: int
  cs_locked :: bool

definition describe :: "key_admission option \<Rightarrow> class_stats option \<Rightarrow> code_status option" where
  "describe rec counter =
     (case rec of
        None \<Rightarrow> None
      | Some r \<Rightarrow>
          (let failures = (case counter of
                 Some c \<Rightarrow> if st_generation c = Some (adm_generation r) then st_failures c else 0
               | None \<Rightarrow> 0)
           in Some \<lparr>cs_purpose = adm_purpose r, cs_alphabet = adm_alphabet r, cs_expiresAt = adm_expiresAt r,
                    cs_failures = failures, cs_globalLimit = adm_globalLimit r,
                    cs_locked = (adm_globalLimit r \<le> failures)\<rparr>))"

definition issue_status ::
  "(string \<Rightarrow> string) \<Rightarrow> int \<Rightarrow> budget option \<Rightarrow> ('p, 'd) store
    \<Rightarrow> (code_status option \<times> code_status option) \<times> ('p, 'd) store" where
  "issue_status H now admission st =
     (let attempts = map_option stats admission;
          (e, reg1) = activeEphemeral H now (store_keys st);
          (s, reg2) = activeSession H now reg1
      in ((describe e (map_option fst attempts), describe s (map_option (\<lambda>a. fst (snd a)) attempts)),
          st\<lparr>store_keys := reg2\<rparr>))"

section \<open>Connections per source\<close>

definition maxConnectionsPerSource :: nat where "maxConnectionsPerSource = 12"

text \<open>
  The listener's table of open connections. A socket is its remote address; it is destroyed at once
  (\<open>False\<close>) or accepted, and an accepted counted socket closes once.
\<close>

definition counted_source :: "string option \<Rightarrow> string option" where
  "counted_source remote =
     (let address = plainAddress remote
      in if address = [] \<or> address = ''::1'' \<or> starts_with address ''127.'' then None
         else Some (sourceGroup (Some address)))"

definition on_connection :: "string option \<Rightarrow> (string, nat) jmap \<Rightarrow> bool \<times> (string, nat) jmap" where
  "on_connection remote opened =
     (case counted_source remote of
        None \<Rightarrow> (True, opened)
      | Some source \<Rightarrow>
          (let count = (case jget opened source of Some n \<Rightarrow> n | None \<Rightarrow> 0)
           in if maxConnectionsPerSource \<le> count then (False, opened)
              else (True, jset source (count + 1) opened)))"

definition on_close :: "string option \<Rightarrow> (string, nat) jmap \<Rightarrow> (string, nat) jmap" where
  "on_close remote opened =
     (case counted_source remote of
        None \<Rightarrow> opened
      | Some source \<Rightarrow>
          (let left = (case jget opened source of Some n \<Rightarrow> n - 1 | None \<Rightarrow> 0)
           in if 0 < left then jset source left opened else jdel source opened))"

text \<open>
  A listener with its live sockets: the table and the remote addresses of the accepted sockets that
  have not closed.
\<close>

datatype socket_event = Arrives "string option" | Closes nat

definition socket_step ::
  "(string, nat) jmap \<times> string option list \<Rightarrow> socket_event \<Rightarrow> (string, nat) jmap \<times> string option list" where
  "socket_step s e =
     (case e of
        Arrives remote \<Rightarrow>
          (let (accepted, opened) = on_connection remote (fst s)
           in (opened, if accepted then snd s @ [remote] else snd s))
      | Closes i \<Rightarrow>
          if i < length (snd s) then (on_close (snd s ! i) (fst s), take i (snd s) @ drop (Suc i) (snd s)) else s)"

definition sockets_of :: "string \<Rightarrow> string option list \<Rightarrow> nat" where
  "sockets_of source live = length (filter (\<lambda>r. counted_source r = Some source) live)"

definition open_count :: "(string, nat) jmap \<Rightarrow> string \<Rightarrow> nat" where
  "open_count opened source = (case jget opened source of Some n \<Rightarrow> n | None \<Rightarrow> 0)"

definition socket_inv :: "(string, nat) jmap \<times> string option list \<Rightarrow> bool" where
  "socket_inv s \<longleftrightarrow> (\<forall>source. open_count (fst s) source = sockets_of source (snd s)
     \<and> jget (fst s) source \<noteq> Some 0 \<and> sockets_of source (snd s) \<le> maxConnectionsPerSource)"

lemma open_count_jset [simp]: "open_count (jset k n m) source = (if source = k then n else open_count m source)"
  by (simp add: open_count_def)

lemma open_count_jdel [simp]: "open_count (jdel k m) source = (if source = k then 0 else open_count m source)"
  by (simp add: open_count_def)

lemma on_connection_eq:
  "on_connection remote opened =
     (case counted_source remote of
        None \<Rightarrow> (True, opened)
      | Some source \<Rightarrow>
          if maxConnectionsPerSource \<le> open_count opened source then (False, opened)
          else (True, jset source (open_count opened source + 1) opened))"
  by (cases "counted_source remote") (simp_all add: on_connection_def open_count_def Let_def)

lemma on_close_eq:
  "on_close remote opened =
     (case counted_source remote of
        None \<Rightarrow> opened
      | Some source \<Rightarrow>
          if 1 < open_count opened source then jset source (open_count opened source - 1) opened
          else jdel source opened)"
  by (auto simp: on_close_def open_count_def Let_def split: option.splits)

lemma sockets_of_snoc: "sockets_of source (live @ [r]) =
    sockets_of source live + (if counted_source r = Some source then 1 else 0)"
  by (simp add: sockets_of_def)

lemma sockets_of_remove:
  assumes "i < length live"
  shows "sockets_of source live =
    sockets_of source (take i live @ drop (Suc i) live) + (if counted_source (live ! i) = Some source then 1 else 0)"
proof -
  have "live = take i live @ live ! i # drop (Suc i) live" using assms by (rule id_take_nth_drop)
  then have "sockets_of source live = sockets_of source (take i live @ live ! i # drop (Suc i) live)" by metis
  then show ?thesis by (simp add: sockets_of_def)
qed

lemma socket_inv_arrives:
  assumes "socket_inv s"
  shows "socket_inv (socket_step s (Arrives remote))"
proof (cases "counted_source remote")
  case None
  then have "sockets_of k (snd s @ [remote]) = sockets_of k (snd s)" for k by (simp add: sockets_of_snoc)
  with None assms show ?thesis by (simp add: socket_step_def on_connection_eq socket_inv_def)
next
  case (Some source)
  then have n: "sockets_of k (snd s @ [remote]) = sockets_of k (snd s) + (if k = source then 1 else 0)" for k
    by (simp add: sockets_of_snoc)
  show ?thesis
  proof (cases "maxConnectionsPerSource \<le> open_count (fst s) source")
    case True
    with Some assms show ?thesis by (simp add: socket_step_def on_connection_eq)
  next
    case False
    then have "socket_step s (Arrives remote) = (jset source (open_count (fst s) source + 1) (fst s), snd s @ [remote])"
      using Some by (simp add: socket_step_def on_connection_eq)
    then show ?thesis using assms False by (auto simp: socket_inv_def n)
  qed
qed

lemma socket_inv_closes:
  assumes inv: "socket_inv s" and i: "i < length (snd s)"
  shows "socket_inv (socket_step s (Closes i))"
proof -
  let ?live = "take i (snd s) @ drop (Suc i) (snd s)"
  have step: "socket_step s (Closes i) = (on_close (snd s ! i) (fst s), ?live)"
    using i by (simp add: socket_step_def)
  note rem = sockets_of_remove [OF i]
  show ?thesis
  proof (cases "counted_source (snd s ! i)")
    case None
    then have "sockets_of k ?live = sockets_of k (snd s)" for k using rem [of k] by simp
    with None inv show ?thesis by (simp add: step on_close_eq socket_inv_def)
  next
    case (Some source)
    then have n: "sockets_of k (snd s) = sockets_of k ?live + (if k = source then 1 else 0)" for k
      using rem [of k] by simp
    have c: "on_close (snd s ! i) (fst s) = (if 1 < open_count (fst s) source
        then jset source (open_count (fst s) source - 1) (fst s) else jdel source (fst s))"
      using Some by (simp add: on_close_eq)
    have old: "open_count (fst s) k = sockets_of k (snd s)" "jget (fst s) k \<noteq> Some 0"
      "sockets_of k (snd s) \<le> maxConnectionsPerSource" for k
      using inv by (simp_all add: socket_inv_def)
    have "sockets_of k ?live \<le> maxConnectionsPerSource" for k using old(3) [of k] n [of k] by simp
    moreover have "open_count (on_close (snd s ! i) (fst s)) k = sockets_of k ?live" for k
      unfolding c using old(1) [of k] n [of k] old(1) [of source] n [of source] by auto
    moreover have "jget (on_close (snd s ! i) (fst s)) k \<noteq> Some 0" for k
      unfolding c using old(2) [of k] by simp
    ultimately show ?thesis by (simp add: step socket_inv_def)
  qed
qed

interpretation sockets: step_system socket_step socket_inv
proof
  fix s e
  assume inv: "socket_inv s"
  show "socket_inv (socket_step s e)"
  proof (cases e)
    case (Closes i)
    with inv socket_inv_closes [OF inv, of i] show ?thesis
      by (cases "i < length (snd s)") (simp_all add: socket_step_def)
  qed (simp add: socket_inv_arrives [OF inv])
qed

section \<open>Issuing: lemmas\<close>

lemma fresh_key_no_error:
  "jhas CODE_ALPHABETS a \<Longrightarrow> fresh_key H a recs bs \<noteq> Inl e"
proof (induction H a recs bs rule: fresh_key.induct)
  case (1 H a recs bs)
  have g: "generate a bs \<noteq> Inl x" for x using 1(2) by (auto simp: generate_def jhas_def split: option.splits)
  show ?case
    using 1 g by (subst fresh_key.simps) (auto split: sum.splits option.splits prod.splits)
qed

lemma create_key_succeeds:
  assumes "jhas CODE_ALPHABETS a" "boundedLimits limits = Inr gs" "is_safe_integer t" "1 \<le> whole_value t"
    and "create_key H now uuid bs p (Some t) usg a limits r = Some (r', out)"
  shows "is_ok out"
proof (rule ccontr)
  assume "\<not> is_ok out"
  then obtain e where "out = Inl e" by (cases out) auto
  with assms fresh_key_no_error [OF assms(1)] show False
    by (auto simp: create_key_def Let_def split: option.splits sum.splits prod.splits)
qed

lemma issue_limits_bounded:
  assumes "1 \<le> is_shortCodeMaxFailures s" "is_shortCodeMaxFailures s \<le> 20"
    and "1 \<le> is_shortCodePerSourceMaxFailures s" "is_shortCodePerSourceMaxFailures s \<le> 5"
  shows "boundedLimits (Some (issue_limits s True))
    = Inr (is_shortCodeMaxFailures s, min (is_shortCodePerSourceMaxFailures s) (is_shortCodeMaxFailures s))"
  using assms by (simp add: boundedLimits_def issue_limits_def whole_between_def whole_value_def)

section \<open>Properties\<close>

text \<open>
  C30: one machine cannot hold every connection. In every sequence of arriving and closing sockets the
  table counts exactly the live sockets of each source, no source has more than 12, and a source
  without a live socket takes no entry.
\<close>

theorem connections_per_source:
  "sockets_of source (snd (run socket_step ([], []) es)) \<le> 12
    \<and> jget (fst (run socket_step ([], []) es)) source =
        (if sockets_of source (snd (run socket_step ([], []) es)) = 0 then None
         else Some (sockets_of source (snd (run socket_step ([], []) es))))"
proof -
  have "socket_inv ([], [])" by (simp add: socket_inv_def sockets_of_def open_count_def)
  then have "socket_inv (run socket_step ([], []) es)" by (rule sockets.run_inv)
  then have i: "open_count (fst (run socket_step ([], []) es)) source = sockets_of source (snd (run socket_step ([], []) es))"
    "jget (fst (run socket_step ([], []) es)) source \<noteq> Some 0"
    "sockets_of source (snd (run socket_step ([], []) es)) \<le> 12"
    unfolding socket_inv_def maxConnectionsPerSource_def by blast+
  show ?thesis
    using i by (cases "jget (fst (run socket_step ([], []) es)) source") (simp_all add: open_count_def)
qed

text \<open>
  A code issued by the owner's commands always has valid limits when the settings are in their
  documented ranges, so issuing fails only on an unknown alphabet or, for an ordinary one-time code,
  in the approved-only mode.
\<close>

theorem issuing_succeeds:
  assumes "1 \<le> is_shortCodeMaxFailures s" "is_shortCodeMaxFailures s \<le> 20"
    and "1 \<le> is_shortCodePerSourceMaxFailures s" "is_shortCodePerSourceMaxFailures s \<le> 5"
    and "1 \<le> is_shortCodeTtlSeconds s" "is_shortCodeTtlSeconds s \<le> 86400"
    and "issue_oneTime H now uuid bs s requested st = Some (Inl e, st')"
  shows "e = ''Ordinary connection keys are not enabled'' \<and> is_connectionMode s = ''approved-only''
    \<or> e = ''Invalid code alphabet''
      \<and> \<not> jhas CODE_ALPHABETS (case requested of Some a \<Rightarrow> a | None \<Rightarrow> is_defaultCodeAlphabet s)"
proof (cases "issue_options s requested True")
  case (Inl x)
  with assms(7) have "e = x" by (simp add: issue_oneTime_def)
  with Inl show ?thesis by (auto simp: issue_options_def Let_def split: if_splits)
next
  case (Inr p)
  obtain a l where p: "p = (a, l)" by fastforce
  then have a: "jhas CODE_ALPHABETS a" "l = issue_limits s True"
    using Inr by (auto simp: issue_options_def Let_def split: if_splits)
  show ?thesis
  proof (cases "is_connectionMode s = ''approved-only''")
    case True
    with assms(7) Inr p show ?thesis by (simp add: issue_oneTime_def)
  next
    case False
    then obtain reg where "createOneTimeConnection H now uuid bs (ephemeral_options s a l) (store_keys st) = Some (reg, Inl e)"
      using assms(7) Inr p by (auto simp: issue_oneTime_def with_keys_def)
    then have c: "create_key H now uuid bs Once_Purpose (Some (Whole (is_shortCodeTtlSeconds s * 1000))) Single_Use a (Some l)
        (store_keys st) = Some (reg, Inl e)"
      by (simp add: createOneTimeConnection_def single_use_key_def ephemeral_options_def)
    have "is_ok (Inl e :: (string \<times> key_record) result)"
    proof (rule create_key_succeeds [OF a(1) _ _ _ c])
      show "boundedLimits (Some l) = Inr (is_shortCodeMaxFailures s,
          min (is_shortCodePerSourceMaxFailures s) (is_shortCodeMaxFailures s))"
        unfolding a(2) by (rule issue_limits_bounded [OF assms(1-4)])
      show "is_safe_integer (Whole (is_shortCodeTtlSeconds s * 1000))" "1 \<le> whole_value (Whole (is_shortCodeTtlSeconds s * 1000))"
        using assms(5,6) by (simp_all add: is_safe_integer_def whole_value_def MAX_SAFE_INTEGER_def)
    qed
    then show ?thesis by simp
  qed
qed

theorem issuing_succeeds_witness:
  "issue_oneTime id 0 ''u'' [] \<lparr>is_defaultCodeAlphabet = ''letters'', is_connectionMode = ''approved-only'',
     is_shortCodeTtlSeconds = 300, is_shortCodeMaxFailures = 20, is_shortCodePerSourceMaxFailures = 5,
     is_sessionPasswordMaxFailures = 20\<rparr> None guess_store = Some (Inl ''Ordinary connection keys are not enabled'', guess_store)"
proof -
  let ?s = "\<lparr>is_defaultCodeAlphabet = ''letters'', is_connectionMode = ''approved-only'',
     is_shortCodeTtlSeconds = 300, is_shortCodeMaxFailures = 20, is_shortCodePerSourceMaxFailures = 5,
     is_sessionPasswordMaxFailures = 20\<rparr>"
  have e: "\<exists>e. issue_oneTime id 0 ''u'' [] ?s None guess_store = Some (Inl e, guess_store)"
    and j: "jhas CODE_ALPHABETS ''letters''"
    by (simp_all add: issue_oneTime_def issue_options_def jhas_def CODE_ALPHABETS_def Let_def)
  then obtain e where e: "issue_oneTime id 0 ''u'' [] ?s None guess_store = Some (Inl e, guess_store)" by blast
  have "e = ''Ordinary connection keys are not enabled''"
    using issuing_succeeds [OF _ _ _ _ _ _ e] j by simp
  with e show ?thesis by simp
qed



end
