(* ===== verification/PolicyStore.thy ===== *)
theory PolicyStore
  imports PolicyEdits LockedFile
begin

text \<open>
  \<^verbatim>\<open>apps/server/src/stream-policy-store.mjs\<close>: the policy file and its store, as operations of the shared
  file of \<open>LockedFile\<close>, and \<^verbatim>\<open>policy-controller.mjs\<close>. A file is what reading it gives. The comparison of
  two \<^verbatim>\<open>JSON.stringify\<close> texts is comparison of the values, keys in order.
\<close>

section \<open>The store\<close>

datatype stored_file = Missing | Unreadable string | TooLong | Stored json

definition readPolicy :: "stored_file \<Rightarrow> json option result" where
  "readPolicy file =
     (case file of
        Missing \<Rightarrow> Inr None
      | Unreadable e \<Rightarrow> Inl e
      | TooLong \<Rightarrow> Inl ''Stream policy exceeds 64 KiB''
      | Stored v \<Rightarrow> (case validateStreamPolicy v of Inl e \<Rightarrow> Inl e | Inr p \<Rightarrow> Inr (Some p)))"

record policy_store =
  po_value :: json
  po_persisted :: bool

definition new_policy_store :: "json \<Rightarrow> bool \<Rightarrow> policy_store result" where
  "new_policy_store value persisted =
     (case validateStreamPolicy value of
        Inl e \<Rightarrow> Inl e | Inr v \<Rightarrow> Inr \<lparr>po_value = v, po_persisted = persisted\<rparr>)"

definition open_policy :: "stored_file \<Rightarrow> policy_store result" where
  "open_policy file =
     (case readPolicy file of
        Inl e \<Rightarrow> Inl e
      | Inr None \<Rightarrow> new_policy_store defaultStreamPolicy False
      | Inr (Some v) \<Rightarrow> new_policy_store v True)"

text \<open>\<^verbatim>\<open>replace\<close> captures the candidate when it is called; its commit is queued.\<close>

type_synonym policy_request = "json \<times> json option"

definition submit_policy :: "policy_request \<Rightarrow> policy_request result" where
  "submit_policy q =
     (case validateStreamPolicy (fst q) of Inl e \<Rightarrow> Inl e | Inr next \<Rightarrow> Inr (next, snd q))"

definition prepare_policy :: "policy_store \<Rightarrow> policy_request \<Rightarrow> json result" where
  "prepare_policy st q =
     (if snd q \<noteq> jfield ''revision'' (po_value st) \<or> jfield ''revision'' (fst q) \<noteq> snd q
      then Inl ''Configuration changed; reload before saving (revision conflict)'' else Inr (fst q))"

definition confirm_policy :: "policy_store \<Rightarrow> json \<Rightarrow> stored_file \<Rightarrow> json result" where
  "confirm_policy st next file =
     (case readPolicy file of
        Inl e \<Rightarrow> Inl e
      | Inr disk \<Rightarrow>
          if (disk \<noteq> None) \<noteq> po_persisted st \<or> (disk \<noteq> None \<and> disk \<noteq> Some (po_value st))
          then Inl ''Configuration changed on disk; reload before saving''
          else validateStreamPolicy (put_field ''revision'' (JInt (int_of (jfield ''revision'' next) + 1)) next))"

definition policy_ops :: "(policy_store, policy_request, json, stored_file) store_ops" where
  "policy_ops =
     \<lparr>so_open = open_policy, so_submit = submit_policy, so_prepare = prepare_policy, so_confirm = confirm_policy,
      so_file = Stored, so_adopt = (\<lambda>next. \<lparr>po_value = next, po_persisted = True\<rparr>)\<rparr>"

section \<open>Lemmas\<close>

definition revision_of :: "json \<Rightarrow> int" where
  "revision_of v = int_of (jfield ''revision'' v)"

text \<open>The revision of a file: an absent file stands for the default policy.\<close>

definition file_revision :: "stored_file \<Rightarrow> int" where
  "file_revision file = (case readPolicy file of Inr (Some v) \<Rightarrow> revision_of v | _ \<Rightarrow> 0)"

definition store_ok :: "policy_store \<Rightarrow> bool" where
  "store_ok st \<longleftrightarrow> (\<not> po_persisted st \<longrightarrow> revision_of (po_value st) = 0)"

lemma index_key_digits: "list_all is_digit (index_key i)"
  by (simp add: index_key_def dec_pos_digits)

text \<open>Only a plain object passes the validation: an array turns into an object with index keys.\<close>

lemma validated_is_object:
  assumes "validateStreamPolicy x = Inr v"
  shows "is_plain_object x"
proof -
  have scalar: "is_object_like x"
  proof (rule ccontr)
    assume "\<not> is_object_like x"
    then have "upgrade_policy x = x" by (simp add: upgrade_policy_def Let_def with_default_def)
    moreover have "policy_valid (upgrade_policy x)" using assms unfolding validate_Inr by blast
    ultimately have "policy_valid x" by simp
    then show False using policy_validD(1) [of x] \<open>\<not> is_object_like x\<close> by auto
  qed
  show ?thesis
  proof (cases x)
  case (JArr xs)
  have keys: "\<not> jhas (jspread (JArr xs)) k" if "\<not> list_all is_digit k" for k
    using that index_key_digits by (auto simp: jspread_def jhas_iff set_zip)
  have letters: "\<not> list_all is_digit ''displaySharing''" "\<not> list_all is_digit ''schemaVersion''"
    by (simp_all add: is_digit_def code_def)
  define m where "m = jset ''displaySharing'' JNull (jspread (JArr xs))"
  have m: "with_default ''displaySharing'' JNull x = JObj m"
    using keys [OF letters(1)] by (simp add: with_default_def JArr is_object_like_def has_own_def m_def)
  have no_schema: "\<not> jhas m ''schemaVersion''" using keys [OF letters(2)] by (simp add: m_def)
  have "with_default ''displaySharing'' JNull (JObj m) = JObj m" by (simp add: with_default_obj m_def)
  then have "upgrade_policy x = upgrade_policy (JObj m)" unfolding upgrade_policy_def m by (simp only:)
  then have v: "v = upgrade_policy (JObj m)" "policy_valid v" using assms unfolding validate_Inr by metis+
  have "jfield ''schemaVersion'' v = jget m ''schemaVersion''"
    using upgrade_field [of "''schemaVersion''" m] v(1) by (simp add: filled_keys_def)
  moreover obtain m' where "v = JObj m'" "jhas m' ''schemaVersion''"
    using policy_validD(1) [OF v(2)] by (auto simp: POLICY_KEYS_def)
  ultimately show ?thesis using no_schema by (simp add: jhas_def)
next
  case (JObj m)
  then show ?thesis by (simp add: is_plain_object_def)
  qed (use scalar in \<open>auto simp: is_object_like_def\<close>)
qed

lemma validated_revision:
  assumes "validateStreamPolicy x = Inr v"
  shows "jfield ''revision'' v = jfield ''revision'' x"
proof -
  obtain m where "x = JObj m" using validated_is_object [OF assms] by (auto simp: is_plain_object_def split: json.splits)
  with assms show ?thesis using upgrade_field [of "''revision''" m] unfolding validate_Inr by (simp add: filled_keys_def)
qed

lemma validated_again: "validateStreamPolicy x = Inr v \<Longrightarrow> validateStreamPolicy v = Inr v"
  unfolding validate_Inr using upgrade_policy_id by metis

lemma default_revision: "revision_of defaultStreamPolicy = 0"
  by (simp add: revision_of_def defaultStreamPolicy_def int_of_def)

lemma confirm_policy_Inr:
  assumes "confirm_policy st n file = Inr n'"
  shows "(readPolicy file = Inr None \<and> \<not> po_persisted st) \<or> readPolicy file = Inr (Some (po_value st))"
    and "validateStreamPolicy (put_field ''revision'' (JInt (revision_of n + 1)) n) = Inr n'"
  using assms by (auto simp: confirm_policy_def revision_of_def split: sum.splits if_splits)

lemma confirmed_revision:
  assumes "confirm_policy st n file = Inr n'"
  shows "file_revision (Stored n') = revision_of n + 1"
proof -
  let ?x = "put_field ''revision'' (JInt (revision_of n + 1)) n"
  note v = confirm_policy_Inr(2) [OF assms]
  have "is_plain_object n" using validated_is_object [OF v] by (cases n) (simp_all add: put_field_def is_plain_object_def)
  then have "jfield ''revision'' ?x = Some (JInt (revision_of n + 1))"
    by (auto simp: is_plain_object_def split: json.splits)
  then have "revision_of n' = revision_of n + 1" using validated_revision [OF v] by (simp add: revision_of_def int_of_def)
  then show ?thesis using validated_again [OF v] by (simp add: file_revision_def readPolicy_def)
qed

interpretation policy: locked_file policy_ops store_ok "\<lambda>_. True" "\<lambda>st. revision_of (po_value st)" revision_of file_revision
proof
  show "so_open policy_ops f = Inr v \<Longrightarrow> store_ok v" for f v
    using validated_revision [of defaultStreamPolicy] default_revision
    by (auto simp: policy_ops_def open_policy_def new_policy_store_def store_ok_def revision_of_def split: sum.splits option.splits)
  show "store_ok (so_adopt policy_ops n)" for n by (simp add: policy_ops_def store_ok_def)
  show "so_prepare policy_ops v q = Inr n \<Longrightarrow> True \<and> revision_of n = revision_of (po_value v)" for v q n
    by (auto simp: policy_ops_def prepare_policy_def revision_of_def split: if_splits)
  show "store_ok v \<Longrightarrow> so_confirm policy_ops v n f = Inr n' \<Longrightarrow> file_revision f = revision_of (po_value v)" for v n f n'
    using confirm_policy_Inr(1) [of v n f n'] by (auto simp: policy_ops_def file_revision_def store_ok_def)
  show "so_confirm policy_ops v n f = Inr n' \<Longrightarrow> revision_of n = revision_of (po_value v) \<Longrightarrow>
      True \<and> file_revision (so_file policy_ops n') = revision_of (po_value v) + 1" for v n f n'
    using confirmed_revision by (simp add: policy_ops_def)
qed

section \<open>Properties\<close>

text \<open>
  C10: no two processes overwrite each other's policy. In every interleaving of any number of stores that
  share the policy file, with file operations failing and processes ending anywhere, one store at a time
  is between its lock and its release, and each content written follows the one before it with the next
  revision.
\<close>

theorem policy_updates_not_lost:
  assumes "(locked_step policy_ops)\<^sup>*\<^sup>* s t" "all_closed s"
  shows "chained (sh_file s) (sh_log t) (sh_file t)
    \<and> (\<forall>(old, new) \<in> set (sh_log t). file_revision new = file_revision old + 1)
    \<and> file_revision (sh_file t) = file_revision (sh_file s) + int (length (sh_log t))
    \<and> (\<forall>i j. is_holder (phase_of i t) \<and> is_holder (phase_of j t) \<longrightarrow> i = j)"
proof -
  from policy.no_lost_update [OF assms]
  have c: "chained (sh_file s) (sh_log t) (sh_file t)" "\<forall>(old, new) \<in> set (sh_log t). file_revision new = file_revision old + 1"
    and h: "\<forall>i j. is_holder (phase_of i t) \<and> is_holder (phase_of j t) \<longrightarrow> i = j" by blast+
  from chained_count [OF c] c h show ?thesis by blast
qed

text \<open>
  A change that is still current is saved. If the store's next request has a valid candidate with the
  revision the store remembers, the file still holds what the store remembers, and nobody holds the lock,
  then the steps of the commit lead to the candidate in the file under the next revision, the store
  remembering it, and the lock free.
\<close>

theorem current_change_saved:
  assumes "phase_of i s = Idle" "st_queue (sh_store s i) = (c, r) # qs" "\<not> sh_lock s"
    and "jfield ''revision'' (po_value (st_value (sh_store s i))) = r" "jfield ''revision'' c = r"
    and "readPolicy (sh_file s) = (if po_persisted (st_value (sh_store s i))
           then Inr (Some (po_value (st_value (sh_store s i)))) else Inr None)"
    and "validateStreamPolicy (put_field ''revision'' (JInt (revision_of c + 1)) c) = Inr n"
  shows "\<exists>t. (locked_step policy_ops)\<^sup>*\<^sup>* s t \<and> sh_file t = Stored n \<and> file_revision (sh_file t) = revision_of c + 1
    \<and> sh_store t i = \<lparr>st_value = \<lparr>po_value = n, po_persisted = True\<rparr>, st_queue = qs, st_phase = Idle\<rparr> \<and> \<not> sh_lock t"
proof -
  have p: "so_prepare policy_ops (st_value (sh_store s i)) (c, r) = Inr c"
    using assms(4,5) by (simp add: policy_ops_def prepare_policy_def)
  have f: "so_confirm policy_ops (st_value (sh_store s i)) c (sh_file s) = Inr n"
    using assms(6,7) by (simp add: policy_ops_def confirm_policy_def revision_of_def)
  from commit_completes [OF assms(1-3) p f]
  obtain t where t: "(locked_step policy_ops)\<^sup>*\<^sup>* s t" "sh_file t = Stored n"
    "sh_store t i = \<lparr>st_value = \<lparr>po_value = n, po_persisted = True\<rparr>, st_queue = qs, st_phase = Idle\<rparr>" "\<not> sh_lock t"
    by (auto simp: policy_ops_def)
  moreover have "file_revision (Stored n) = revision_of c + 1"
    using confirmed_revision f by (simp add: policy_ops_def)
  ultimately show ?thesis by metis
qed

text \<open>A store of the default policy that has been asked to turn the sound off.\<close>

definition sample_change :: json where
  "sample_change = put_field ''allowAudio'' (JBool False) defaultStreamPolicy"

definition waiting_store :: "(policy_store, policy_request, json, stored_file) shared" where
  "waiting_store =
     \<lparr>sh_file = Missing, sh_lock = False,
      sh_store = (\<lambda>i. \<lparr>st_value = \<lparr>po_value = defaultStreamPolicy, po_persisted = False\<rparr>,
        st_queue = (if i = 0 then [(sample_change, Some (JInt 0))] else []),
        st_phase = (if i = 0 then Idle else Closed)\<rparr>),
      sh_log = []\<rparr>"

lemma sample_change_valid:
  "validateStreamPolicy sample_change = Inr sample_change"
  "validateStreamPolicy (put_field ''revision'' (JInt 1) sample_change) = Inr (put_field ''revision'' (JInt 1) sample_change)"
  by code_simp+

lemma sample_change_revision: "jfield ''revision'' sample_change = Some (JInt 0)" "jfield ''revision'' defaultStreamPolicy = Some (JInt 0)"
  by code_simp+

theorem current_change_saved_witness:
  "\<exists>t. (locked_step policy_ops)\<^sup>*\<^sup>* waiting_store t \<and> file_revision (sh_file t) = 1 \<and> \<not> sh_lock t"
proof -
  have r: "revision_of sample_change = 0" by (simp add: revision_of_def sample_change_revision int_of_def)
  have s: "phase_of 0 waiting_store = Idle" "st_queue (sh_store waiting_store 0) = [(sample_change, Some (JInt 0))]"
    "\<not> sh_lock waiting_store" "st_value (sh_store waiting_store 0) = \<lparr>po_value = defaultStreamPolicy, po_persisted = False\<rparr>"
    "readPolicy (sh_file waiting_store) = Inr None"
    by (simp_all add: waiting_store_def phase_of_def readPolicy_def)
  have "jfield ''revision'' (po_value (st_value (sh_store waiting_store 0))) = Some (JInt 0)"
    unfolding s(4) by (simp add: sample_change_revision(2))
  moreover have "readPolicy (sh_file waiting_store) = (if po_persisted (st_value (sh_store waiting_store 0))
      then Inr (Some (po_value (st_value (sh_store waiting_store 0)))) else Inr None)"
    unfolding s(4,5) by simp
  moreover have "validateStreamPolicy (put_field ''revision'' (JInt (revision_of sample_change + 1)) sample_change)
      = Inr (put_field ''revision'' (JInt 1) sample_change)"
    unfolding r using sample_change_valid(2) by simp
  ultimately have "\<exists>t. (locked_step policy_ops)\<^sup>*\<^sup>* waiting_store t \<and> sh_file t = Stored (put_field ''revision'' (JInt 1) sample_change)
      \<and> file_revision (sh_file t) = revision_of sample_change + 1
      \<and> sh_store t 0 = \<lparr>st_value = \<lparr>po_value = put_field ''revision'' (JInt 1) sample_change, po_persisted = True\<rparr>,
          st_queue = [], st_phase = Idle\<rparr> \<and> \<not> sh_lock t"
    by (intro current_change_saved [OF s(1,2,3) _ sample_change_revision(1)])
  then show ?thesis unfolding r by auto
qed

text \<open>The same store before it is opened: the run starts with every store closed.\<close>

definition closed_store :: "(policy_store, policy_request, json, stored_file) shared" where
  "closed_store = waiting_store\<lparr>sh_store := (\<lambda>i. \<lparr>st_value = \<lparr>po_value = defaultStreamPolicy, po_persisted = False\<rparr>,
     st_queue = [], st_phase = Closed\<rparr>)\<rparr>"

theorem policy_updates_not_lost_witness:
  "\<exists>t. (locked_step policy_ops)\<^sup>*\<^sup>* closed_store t \<and> phase_of 0 t = Idle
    \<and> file_revision (sh_file t) = file_revision (sh_file closed_store) + int (length (sh_log t))"
proof -
  have "so_open policy_ops (sh_file closed_store) = Inr \<lparr>po_value = defaultStreamPolicy, po_persisted = False\<rparr>"
    using default_policy_valid
    by (simp add: policy_ops_def open_policy_def readPolicy_def new_policy_store_def closed_store_def waiting_store_def)
  then have "locked_step policy_ops closed_store
      (put_store 0 \<lparr>st_value = \<lparr>po_value = defaultStreamPolicy, po_persisted = False\<rparr>, st_queue = [], st_phase = Idle\<rparr> closed_store)"
    (is "locked_step _ _ ?t")
    by (intro opened) (simp_all add: closed_store_def phase_of_def)
  then have r: "(locked_step policy_ops)\<^sup>*\<^sup>* closed_store ?t" by simp
  moreover have "all_closed closed_store" by (simp add: all_closed_def closed_store_def waiting_store_def phase_of_def)
  ultimately show ?thesis
    using policy_updates_not_lost [of closed_store ?t] by (intro exI [of _ ?t]) (simp add: phase_of_def)
qed

section \<open>The controller\<close>

text \<open>
  A change of the policy through the controller: the store's replacement is awaited, then every session
  that is connected at that moment is disconnected and the media are shut down. The state is the
  controller's flag with the connected sessions.
\<close>

record controller =
  co_busy :: bool
  co_sessions :: "string list"
  co_media :: bool

definition begin_replace :: "bool \<Rightarrow> controller \<Rightarrow> controller result" where
  "begin_replace disconnect s =
     (if co_busy s then Inl ''A configuration change is already in progress''
      else if co_sessions s \<noteq> [] \<and> \<not> disconnect
        then Inl ''Confirm disconnecting connected clients before applying changes''
      else Inr (s\<lparr>co_busy := True\<rparr>))"

text \<open>What follows the store's answer: a failure only clears the flag.\<close>

definition end_replace :: "'a result \<Rightarrow> controller \<Rightarrow> controller" where
  "end_replace answer s =
     (case answer of
        Inl e \<Rightarrow> s\<lparr>co_busy := False\<rparr>
      | Inr v \<Rightarrow> s\<lparr>co_busy := False, co_sessions := [], co_media := False\<rparr>)"

end
