(* ===== verification/ViewerGrants.thy ===== *)
theory ViewerGrants
  imports LocalScope
begin

text \<open>
  \<^verbatim>\<open>apps/server/src/viewer-asset-grants.mjs\<close>: the cookie with which a viewer page loads its assets. The
  random token is an argument; the session store's answer (\<^verbatim>\<open>peek\<close>: the client's address of a live session)
  is a parameter.
\<close>

section \<open>The cookie\<close>

definition COOKIE_NAME :: string where "COOKIE_NAME = ''vidvnc-viewer''"

definition token_char :: "char \<Rightarrow> bool" where
  "token_char c \<longleftrightarrow> is_alnum c \<or> c = CHR ''_'' \<or> c = CHR ''-''"

text \<open>\<^verbatim>\<open>/^[A-Za-z0-9_-]{43}$/\<close>.\<close>

definition is_token :: "string \<Rightarrow> bool" where
  "is_token s \<longleftrightarrow> length s = 43 \<and> list_all token_char s"

definition normalizePeer :: "string option \<Rightarrow> string option" where
  "normalizePeer peer = normalizedPeer peer"

text \<open>The name and value of a piece, split at its first equals sign.\<close>

definition cookie_value :: "string \<Rightarrow> string option" where
  "cookie_value piece =
     (let entry = js_trim piece; name = takeWhile (\<lambda>c. c \<noteq> CHR ''='') entry
      in if CHR ''='' \<notin> set entry \<or> name \<noteq> COOKIE_NAME then None else Some (drop (length name + 1) entry))"

text \<open>Two cookies of the name are none.\<close>

definition readViewerCookie :: "string option \<Rightarrow> string option" where
  "readViewerCookie header =
     (case header of
        None \<Rightarrow> None
      | Some h \<Rightarrow>
          if length h > 4096 then None
          else (case filter (\<lambda>v. v \<noteq> None) (map cookie_value (split_on (CHR '';'') h)) of
                  [Some v] \<Rightarrow> if is_token v then Some v else None
                | _ \<Rightarrow> None))"

definition viewerCookie :: "string \<Rightarrow> bool \<Rightarrow> string" where
  "viewerCookie token secure =
     COOKIE_NAME @ ''='' @ token @ ''; Path=/viewer; HttpOnly; SameSite=Strict'' @ (if secure then ''; Secure'' else '''')"

definition clearViewerCookie :: "bool \<Rightarrow> string" where
  "clearViewerCookie secure =
     COOKIE_NAME @ ''=; Path=/viewer; HttpOnly; SameSite=Strict; Max-Age=0'' @ (if secure then ''; Secure'' else '''')"

section \<open>The grants\<close>

record grant =
  vg_session :: string
  vg_peer :: string

record grants =
  byToken :: "(string, grant) jmap"
  bySession :: "(string, string) jmap"

definition revoke_grant :: "string \<Rightarrow> grants \<Rightarrow> grants" where
  "revoke_grant sessionId s =
     s\<lparr>byToken := (case jget (bySession s) sessionId of Some t \<Rightarrow> jdel t (byToken s) | None \<Rightarrow> byToken s),
       bySession := jdel sessionId (bySession s)\<rparr>"

text \<open>
  Tokens are drawn until one is not in use: \<open>drawn\<close> are the draws, and with all of them in use the loop
  goes on (\<open>None\<close>). The session's earlier grant is revoked first.
\<close>

definition issue_grant :: "string \<Rightarrow> string option \<Rightarrow> string list \<Rightarrow> grants \<Rightarrow> string option result \<times> grants" where
  "issue_grant sessionId peer drawn s =
     (case normalizePeer peer of
        None \<Rightarrow> (Inl ''Cannot issue a viewer grant without a session and peer'', s)
      | Some p \<Rightarrow>
          if sessionId = [] \<or> p = [] then (Inl ''Cannot issue a viewer grant without a session and peer'', s)
          else (let s = revoke_grant sessionId s
                in case find (\<lambda>t. \<not> jhas (byToken s) t) drawn of
                     None \<Rightarrow> (Inr None, s)
                   | Some token \<Rightarrow>
                       (Inr (Some token), s\<lparr>byToken := jset token \<lparr>vg_session = sessionId, vg_peer = p\<rparr> (byToken s),
                          bySession := jset sessionId token (bySession s)\<rparr>)))"

definition sessionFor ::
  "string option \<Rightarrow> string option \<Rightarrow> (string \<Rightarrow> string option) \<Rightarrow> grants \<Rightarrow> string option \<times> grants" where
  "sessionFor header peer peek s =
     (case (readViewerCookie header, normalizePeer peer) of
        (Some token, Some p) \<Rightarrow>
          if p = [] then (None, s)
          else (case jget (byToken s) token of
                  None \<Rightarrow> (None, s)
                | Some g \<Rightarrow>
                    if vg_peer g \<noteq> p then (None, s)
                    else (case peek (vg_session g) of
                            None \<Rightarrow> (None, revoke_grant (vg_session g) s)
                          | Some clientKey \<Rightarrow>
                              (if normalizePeer (Some clientKey) = Some p then Some (vg_session g) else None, s)))
      | _ \<Rightarrow> (None, s))"

definition allows_asset :: "string option \<Rightarrow> string option \<Rightarrow> (string \<Rightarrow> string option) \<Rightarrow> grants \<Rightarrow> bool \<times> grants" where
  "allows_asset header peer peek s = (fst (sessionFor header peer peek s) \<noteq> None, snd (sessionFor header peer peek s))"

definition no_grants :: grants where
  "no_grants = \<lparr>byToken = [], bySession = []\<rparr>"

text \<open>The calls with the session store's answers; the store's sessions change between calls.\<close>

datatype grant_event =
    IssueGrant string "string option" "string list"
  | RevokeGrant string
  | ClearGrants
  | AskSession "string option" "string option" "string \<Rightarrow> string option"

fun grant_step :: "grants \<Rightarrow> grant_event \<Rightarrow> grants" where
  "grant_step s (IssueGrant ses peer drawn) = snd (issue_grant ses peer drawn s)"
| "grant_step s (RevokeGrant ses) = revoke_grant ses s"
| "grant_step s ClearGrants = no_grants"
| "grant_step s (AskSession header peer peek) = snd (sessionFor header peer peek s)"

section \<open>Lemmas\<close>

definition grants_ok :: "grants \<Rightarrow> bool" where
  "grants_ok s \<longleftrightarrow> jmap_ok (byToken s) \<and> jmap_ok (bySession s)
     \<and> (\<forall>t g. jget (byToken s) t = Some g \<longrightarrow> jget (bySession s) (vg_session g) = Some t)
     \<and> (\<forall>ses t. jget (bySession s) ses = Some t \<longrightarrow> (\<exists>g. jget (byToken s) t = Some g \<and> vg_session g = ses))"

lemma grants_okI:
  assumes "jmap_ok (byToken s)" "jmap_ok (bySession s)"
    and "\<And>t g. jget (byToken s) t = Some g \<Longrightarrow> jget (bySession s) (vg_session g) = Some t"
    and "\<And>ses t. jget (bySession s) ses = Some t \<Longrightarrow> \<exists>g. jget (byToken s) t = Some g \<and> vg_session g = ses"
  shows "grants_ok s"
  using assms unfolding grants_ok_def by blast

lemma grants_okD:
  assumes "grants_ok s"
  shows "jget (byToken s) t = Some g \<Longrightarrow> jget (bySession s) (vg_session g) = Some t"
    and "jget (bySession s) ses = Some t \<Longrightarrow> \<exists>g. jget (byToken s) t = Some g \<and> vg_session g = ses"
    and "jmap_ok (byToken s)" "jmap_ok (bySession s)"
  using assms unfolding grants_ok_def by blast+

lemma revoke_ok:
  assumes "grants_ok s"
  shows "grants_ok (revoke_grant ses s)"
proof (rule grants_okI, goal_cases)
  case (3 t g)
  have "vg_session g \<noteq> ses"
  proof
    assume "vg_session g = ses"
    with 3 grants_okD(1) [OF assms, of t g] show False by (auto simp: revoke_grant_def split: option.splits if_splits)
  qed
  with 3 grants_okD(1) [OF assms, of t g] show ?case by (auto simp: revoke_grant_def split: option.splits if_splits)
next
  case (4 u t)
  then obtain g where g: "jget (byToken s) t = Some g" "vg_session g = u" "u \<noteq> ses"
    using grants_okD(2) [OF assms, of u t] by (auto simp: revoke_grant_def split: if_splits)
  have "jget (bySession s) ses \<noteq> Some t" using grants_okD(2) [OF assms, of ses t] g by auto
  with g show ?case by (auto simp: revoke_grant_def split: option.splits)
qed (use grants_okD(3,4) [OF assms] in \<open>auto simp: revoke_grant_def split: option.splits\<close>)

lemma revoked: "jget (bySession (revoke_grant ses s)) ses = None"
  by (simp add: revoke_grant_def)

lemma issue_ok:
  assumes "grants_ok s"
  shows "grants_ok (snd (issue_grant ses peer drawn s))"
proof -
  let ?s = "revoke_grant ses s"
  have ok: "grants_ok ?s" by (rule revoke_ok [OF assms])
  have fresh: "grants_ok (?s\<lparr>byToken := jset t \<lparr>vg_session = ses, vg_peer = p\<rparr> (byToken ?s), bySession := jset ses t (bySession ?s)\<rparr>)"
    if "\<not> jhas (byToken ?s) t" for t p
  proof (rule grants_okI, goal_cases)
    case (3 u g)
    then show ?case using grants_okD(1) [OF ok, of u g] revoked [of ses s] by (auto split: if_splits)
  next
    case (4 v u)
    then show ?case using grants_okD(2) [OF ok, of v u] that by (auto simp: jhas_def split: if_splits)
  qed (use grants_okD(3,4) [OF ok] in simp_all)
  show ?thesis
    using assms ok fresh by (auto simp: issue_grant_def Let_def find_Some_iff split: option.splits)
qed

lemma grant_step_ok: "grants_ok s \<Longrightarrow> grants_ok (grant_step s e)"
  by (cases e) (auto simp: issue_ok revoke_ok sessionFor_def no_grants_def grants_ok_def [of no_grants] split: option.splits
      intro: revoke_ok, simp add: grants_ok_def)

interpretation viewer_grants: step_system grant_step grants_ok
  by unfold_locales (rule grant_step_ok)

section \<open>Properties\<close>

text \<open>
  A viewer's assets go only to the viewer they were granted to. Whatever calls were made before, a
  request is taken for a session only with exactly one cookie of the name, holding the last token issued
  for that session, from the address the token was issued to, while the session is live for that same
  address.
\<close>

theorem grant_bound_to_peer:
  assumes "fst (sessionFor header peer peek (run grant_step no_grants es)) = Some ses"
  shows "\<exists>token p key. readViewerCookie header = Some token \<and> is_token token \<and> normalizePeer peer = Some p
    \<and> jget (bySession (run grant_step no_grants es)) ses = Some token
    \<and> jget (byToken (run grant_step no_grants es)) token = Some \<lparr>vg_session = ses, vg_peer = p\<rparr>
    \<and> peek ses = Some key \<and> normalizePeer (Some key) = Some p"
proof -
  let ?s = "run grant_step no_grants es"
  have "grants_ok no_grants" by (simp add: grants_ok_def no_grants_def)
  then have ok: "grants_ok ?s" by (rule viewer_grants.run_inv)
  obtain token p g key where f: "readViewerCookie header = Some token" "normalizePeer peer = Some p"
    "jget (byToken ?s) token = Some g" "vg_peer g = p" "vg_session g = ses" "peek ses = Some key" "normalizePeer (Some key) = Some p"
    using assms by (auto simp: sessionFor_def split: option.splits if_splits)
  have "is_token token" using f(1) by (auto simp: readViewerCookie_def split: option.splits list.splits if_splits)
  moreover have "g = \<lparr>vg_session = ses, vg_peer = p\<rparr>" using f(4,5) by (cases g) simp
  moreover have "jget (bySession ?s) ses = Some token" using grants_okD(1) [OF ok f(3)] f(5) by simp
  ultimately show ?thesis using f by blast
qed

definition sample_token :: string where
  "sample_token = ''ABCDEFGHIJKLMNOPQRSTUVWXYZabcdefghijklmnopq''"

theorem grant_bound_to_peer_witness:
  "fst (sessionFor (Some (''a=b; vidvnc-viewer='' @ sample_token)) (Some ''::ffff:10.0.0.7'') (\<lambda>_. Some ''10.0.0.7'')
      (run grant_step no_grants [IssueGrant ''s1'' (Some ''10.0.0.7'') [sample_token]])) = Some ''s1''
   \<and> fst (sessionFor (Some (''a=b; vidvnc-viewer='' @ sample_token)) (Some ''10.0.0.8'') (\<lambda>_. Some ''10.0.0.7'')
      (run grant_step no_grants [IssueGrant ''s1'' (Some ''10.0.0.7'') [sample_token]])) = None
   \<and> (\<exists>p. jget (byToken (run grant_step no_grants [IssueGrant ''s1'' (Some ''10.0.0.7'') [sample_token]])) sample_token
      = Some \<lparr>vg_session = ''s1'', vg_peer = p\<rparr>)"
proof -
  let ?h = "Some (''a=b; vidvnc-viewer='' @ sample_token)"
  let ?es = "[IssueGrant ''s1'' (Some ''10.0.0.7'') [sample_token]]"
  have a: "fst (sessionFor ?h (Some ''::ffff:10.0.0.7'') (\<lambda>_. Some ''10.0.0.7'') (run grant_step no_grants ?es)) = Some ''s1''"
    unfolding run_Cons run_Nil by code_simp
  have b: "fst (sessionFor ?h (Some ''10.0.0.8'') (\<lambda>_. Some ''10.0.0.7'') (run grant_step no_grants ?es)) = None"
    unfolding run_Cons run_Nil by code_simp
  have t: "readViewerCookie ?h = Some sample_token" by code_simp
  from grant_bound_to_peer [OF a] t have "\<exists>p. jget (byToken (run grant_step no_grants ?es)) sample_token = Some \<lparr>vg_session = ''s1'', vg_peer = p\<rparr>"
    by auto
  with a b show ?thesis by blast
qed

lemma token_chars: "is_token t \<Longrightarrow> c \<in> set t \<Longrightarrow> c \<noteq> CHR '';'' \<and> c \<noteq> CHR ''='' \<and> \<not> is_space c"
  by (auto simp: is_token_def list_all_iff token_char_def is_alnum_def is_digit_def is_upper_def is_lower_def is_space_def code_def)

text \<open>
  The cookie the server sets is the cookie it reads: the browser returns the name and the value, alone
  or among other cookies of other names, and the token comes back.
\<close>

theorem viewer_cookie_roundtrip:
  assumes "is_token token"
  shows "readViewerCookie (Some (takeWhile (\<lambda>c. c \<noteq> CHR '';'') (viewerCookie token secure))) = Some token"
proof -
  have sent: "takeWhile (\<lambda>c. c \<noteq> CHR '';'') (viewerCookie token secure) = COOKIE_NAME @ ''='' @ token" (is "_ = ?c")
    using token_chars [OF assms] unfolding viewerCookie_def by (simp add: COOKIE_NAME_def takeWhile_append2)
  have plain: "\<forall>c \<in> set ?c. \<not> is_space c" "CHR '';'' \<notin> set ?c"
    using token_chars [OF assms] by (auto simp: COOKIE_NAME_def is_space_def code_def)
  have "js_trim ?c = ?c" using plain(1) by (rule js_trim_id)
  then have "cookie_value ?c = Some token" by (simp add: cookie_value_def Let_def COOKIE_NAME_def)
  moreover have "length ?c \<le> 4096" using assms by (simp add: is_token_def COOKIE_NAME_def)
  ultimately show ?thesis using assms plain(2) unfolding sent by (simp add: readViewerCookie_def split_on_no_char)
qed

theorem viewer_cookie_roundtrip_witness: "readViewerCookie (Some (''vidvnc-viewer='' @ sample_token)) = Some sample_token"
proof -
  have "is_token sample_token" by code_simp
  from viewer_cookie_roundtrip [OF this] show ?thesis
    by (simp add: viewerCookie_def COOKIE_NAME_def sample_token_def)
qed

end
