(* ===== verification/LatencyProbes.thy ===== *)
theory LatencyProbes
  imports Json PeerNetwork Complex_Main
begin

text \<open>
  \<^verbatim>\<open>apps/server/src/latency-results.mjs\<close> and \<^verbatim>\<open>latency-probes.mjs\<close>: the measurements a viewer runs for
  Diagnostics, one at a time per server, and the check of the results it reports. The clock readings of one
  call, which does not suspend, are one argument; so are the drawn ids and the test whether the measurement's
  session still has its stream.
\<close>

section \<open>Numbers\<close>

text \<open>
  The value of a decimal text. A number that is not an integer is known by the text \<^verbatim>\<open>String(n)\<close>, which
  lies on the same side of every bound below as the number, since the bounds are integers.
\<close>

definition dec_value :: "string \<Rightarrow> rat" where
  "dec_value s =
     (let negative = starts_with s ''-''; t = (if negative then drop 1 s else s);
          mantissa = takeWhile (\<lambda>c. c \<noteq> CHR ''e'') t; ex = drop (length mantissa + 1) t;
          whole = takeWhile (\<lambda>c. c \<noteq> CHR ''.'') mantissa; fraction = drop (length whole + 1) mantissa;
          e = (if starts_with ex ''-'' then - number_in 10 (drop 1 ex)
               else number_in 10 (if starts_with ex ''+'' then drop 1 ex else ex));
          m = of_int (number_in 10 (whole @ fraction)) / 10 ^ length fraction;
          v = (if 0 \<le> e then m * 10 ^ nat e else m / 10 ^ nat (- e))
      in if negative then - v else v)"

text \<open>\<^verbatim>\<open>typeof value === 'number' && Number.isFinite(value)\<close>, and the value.\<close>

definition finite_number :: "json option \<Rightarrow> rat option" where
  "finite_number v =
     (case v of
        Some (JInt n) \<Rightarrow> Some (of_int n)
      | Some (JDec s) \<Rightarrow> if s \<in> {''Infinity'', ''-Infinity'', ''NaN''} then None else Some (dec_value s)
      | _ \<Rightarrow> None)"

section \<open>Results\<close>

definition LATENCY_REASONS :: "string list" where
  "LATENCY_REASONS = [''no-control'', ''no-probe-page'', ''unsupported'', ''cancelled'', ''stream-changed'', ''control-lost'']"

definition MAX_MS :: int where "MAX_MS = 60000"
definition MAX_COUNT :: int where "MAX_COUNT = 1000"
definition MAX_VIDEO_SIDE :: int where "MAX_VIDEO_SIDE = 16384"
definition MAX_BROWSER :: nat where "MAX_BROWSER = 200"
definition MAX_CLOCK_OFFSET :: int where "MAX_CLOCK_OFFSET = 86400000"

definition RECEIVER_FIELDS :: "string list" where
  "RECEIVER_FIELDS = [''decodeFps'', ''jitterBufferMs'', ''decodeMs'', ''rttMs'', ''lostInterval'', ''framesDropped'']"

definition bad_results :: "'a result" where "bad_results = Inl ''Invalid latency results''"

definition object_of :: "json option \<Rightarrow> string list \<Rightarrow> bool" where
  "object_of v keys \<longleftrightarrow>
     (case v of Some (JObj m) \<Rightarrow> length m = length keys \<and> (\<forall>key \<in> set keys. jhas m key) | _ \<Rightarrow> False)"

definition json_field :: "string \<Rightarrow> json option \<Rightarrow> json option" where
  "json_field key v = (case v of Some x \<Rightarrow> jfield key x | None \<Rightarrow> None)"

definition result_integer :: "json option \<Rightarrow> int \<Rightarrow> json result" where
  "result_integer v maximum =
     (case v of Some (JInt n) \<Rightarrow> if n < 0 \<or> maximum < n then bad_results else Inr (JInt n) | _ \<Rightarrow> bad_results)"

definition milliseconds :: "json option \<Rightarrow> int \<Rightarrow> json result" where
  "milliseconds v minimum =
     (case (v, finite_number v) of
        (Some x, Some n) \<Rightarrow> if n < of_int minimum \<or> of_int MAX_MS < n then bad_results else Inr x
      | _ \<Rightarrow> bad_results)"

text \<open>An object literal whose fields are computed in order; the first that throws ends it.\<close>

fun fields_of :: "(string \<times> json result) list \<Rightarrow> (string \<times> json) list result" where
  "fields_of [] = Inr []"
| "fields_of ((key, r) # rs) =
     (case r of
        Inl e \<Rightarrow> Inl e
      | Inr x \<Rightarrow> (case fields_of rs of Inl e \<Rightarrow> Inl e | Inr m \<Rightarrow> Inr ((key, x) # m)))"

definition literal :: "(string \<times> json result) list \<Rightarrow> json result" where
  "literal rs = (case fields_of rs of Inl e \<Rightarrow> Inl e | Inr m \<Rightarrow> Inr (JObj m))"

definition timing :: "int \<Rightarrow> json option \<Rightarrow> json result" where
  "timing minimum v =
     (if json_field ''count'' v = Some (JInt 0)
      then (if object_of v [''count''] then Inr (JObj [(''count'', JInt 0)]) else bad_results)
      else if \<not> object_of v [''count'', ''min'', ''median'', ''p95'', ''max''] then bad_results
      else literal [(''count'', result_integer (json_field ''count'' v) MAX_COUNT),
             (''min'', milliseconds (json_field ''min'' v) minimum), (''median'', milliseconds (json_field ''median'' v) minimum),
             (''p95'', milliseconds (json_field ''p95'' v) minimum), (''max'', milliseconds (json_field ''max'' v) minimum)])"

definition clock_offset :: "json option \<Rightarrow> json result" where
  "clock_offset v =
     (case (v, finite_number v) of
        (Some x, Some n) \<Rightarrow> if of_int MAX_CLOCK_OFFSET < \<bar>n\<bar> then bad_results else Inr x
      | _ \<Rightarrow> bad_results)"

definition result_clock :: "json option \<Rightarrow> json result" where
  "result_clock v =
     (if v = Some JNull then Inr JNull
      else if \<not> object_of v [''offsetMs'', ''uncertaintyMs''] then bad_results
      else literal [(''offsetMs'', clock_offset (json_field ''offsetMs'' v)),
             (''uncertaintyMs'', milliseconds (json_field ''uncertaintyMs'' v) 0)])"

definition moveAndKey :: "json option \<Rightarrow> json result" where
  "moveAndKey v =
     (if \<not> object_of v [''move'', ''key''] then bad_results
      else literal [(''move'', timing 0 (json_field ''move'' v)), (''key'', timing 0 (json_field ''key'' v))])"

definition result_browser :: "json option \<Rightarrow> json result" where
  "result_browser v =
     (case v of Some (JStr s) \<Rightarrow> if MAX_BROWSER < length s then bad_results else Inr (JStr s) | _ \<Rightarrow> bad_results)"

definition receiver_entry :: "json option \<Rightarrow> json result" where
  "receiver_entry v =
     (case v of
        Some JNull \<Rightarrow> Inr JNull
      | Some x \<Rightarrow> if finite_number v = None then bad_results else Inr x
      | None \<Rightarrow> bad_results)"

definition RESULT_FIELDS :: "string list" where
  "RESULT_FIELDS = [''handToGlassMs'', ''handToReceiveMs'', ''glassToGlassMs'', ''dragMs'', ''timeouts'', ''clock'', ''overhead'',
     ''receiver'', ''video'', ''browser'']"

definition result_drag :: "json option \<Rightarrow> json result" where
  "result_drag v =
     (if \<not> object_of v [''follow'', ''settle''] then bad_results
      else literal [(''follow'', timing 0 (json_field ''follow'' v)), (''settle'', timing 0 (json_field ''settle'' v))])"

definition result_timeouts :: "json option \<Rightarrow> json result" where
  "result_timeouts v =
     (if \<not> object_of v [''move'', ''key'', ''drag''] then bad_results
      else literal (map (\<lambda>key. (key, result_integer (json_field key v) MAX_COUNT)) [''move'', ''key'', ''drag'']))"

definition result_overhead :: "json option \<Rightarrow> json result" where
  "result_overhead v =
     (if \<not> object_of v [''callbackMs'', ''skippedFrames''] then bad_results
      else literal [(''callbackMs'', timing 0 (json_field ''callbackMs'' v)),
             (''skippedFrames'', result_integer (json_field ''skippedFrames'' v) MAX_SAFE_INTEGER)])"

definition result_receiver :: "json option \<Rightarrow> json result" where
  "result_receiver v =
     (if \<not> object_of v RECEIVER_FIELDS then bad_results
      else literal (map (\<lambda>key. (key, receiver_entry (json_field key v))) RECEIVER_FIELDS))"

definition result_video :: "json option \<Rightarrow> json result" where
  "result_video v =
     (if \<not> object_of v [''width'', ''height''] then bad_results
      else literal (map (\<lambda>key. (key, result_integer (json_field key v) MAX_VIDEO_SIDE)) [''width'', ''height'']))"

text \<open>Every error is the same, so the order of the checks does not show.\<close>

definition validateLatencyResults :: "json option \<Rightarrow> json result" where
  "validateLatencyResults v =
     (if \<not> object_of v RESULT_FIELDS then bad_results
      else literal [(''handToGlassMs'', moveAndKey (json_field ''handToGlassMs'' v)),
             (''handToReceiveMs'', moveAndKey (json_field ''handToReceiveMs'' v)),
             (''glassToGlassMs'', timing (- MAX_MS) (json_field ''glassToGlassMs'' v)),
             (''dragMs'', result_drag (json_field ''dragMs'' v)),
             (''timeouts'', result_timeouts (json_field ''timeouts'' v)),
             (''clock'', result_clock (json_field ''clock'' v)),
             (''overhead'', result_overhead (json_field ''overhead'' v)),
             (''receiver'', result_receiver (json_field ''receiver'' v)),
             (''video'', result_video (json_field ''video'' v)),
             (''browser'', result_browser (json_field ''browser'' v))])"

section \<open>Measurements\<close>

record measurement =
  me_id :: string
  me_stream :: string
  me_session :: string
  me_state :: string
  me_reason :: "string option"
  me_requestedAt :: int
  me_runningAt :: "int option"
  me_plannedMs :: "int option"
  me_endedAt :: "int option"
  me_results :: "json option"
  me_pickedUp :: bool

record probes =
  pb_active :: "measurement option"
  pb_history :: "(string, measurement list) jmap"

definition PICKUP_TIMEOUT_MS :: int where "PICKUP_TIMEOUT_MS = 15000"
definition RUN_TIMEOUT_MS :: int where "RUN_TIMEOUT_MS = 120000"
definition HISTORY :: nat where "HISTORY = 5"

definition REPORT_FIELDS :: "string list" where
  "REPORT_FIELDS = [''streamId'', ''id'', ''state'', ''reason'', ''results'', ''plannedMs'']"

definition new_probes :: probes where
  "new_probes = \<lparr>pb_active = None, pb_history = []\<rparr>"

definition finish_probe :: "string \<Rightarrow> string option \<Rightarrow> json option \<Rightarrow> int \<Rightarrow> probes \<Rightarrow> probes" where
  "finish_probe state reason results now s =
     (case pb_active s of
        None \<Rightarrow> s
      | Some active \<Rightarrow>
          (let ended = active\<lparr>me_state := state, me_reason := reason, me_results := results, me_endedAt := Some now\<rparr>;
               old = (case jget (pb_history s) (me_stream active) of Some h \<Rightarrow> h | None \<Rightarrow> [])
           in s\<lparr>pb_active := None, pb_history := jset (me_stream active) (take HISTORY (ended # old)) (pb_history s)\<rparr>))"

text \<open>\<open>live\<close> tells whether a session still has a stream.\<close>

definition settle_probe :: "(string \<Rightarrow> string \<Rightarrow> bool) \<Rightarrow> int \<Rightarrow> probes \<Rightarrow> probes" where
  "settle_probe live now s =
     (case pb_active s of
        None \<Rightarrow> s
      | Some active \<Rightarrow>
          if \<not> live (me_session active) (me_stream active) then finish_probe ''failed'' (Some ''ended'') None now s
          else if me_state active = ''requested'' \<and> PICKUP_TIMEOUT_MS < now - me_requestedAt active
          then finish_probe ''failed'' (Some ''expired'') None now s
          else if me_state active = ''running'' \<and> RUN_TIMEOUT_MS < now - (case me_runningAt active of Some t \<Rightarrow> t | None \<Rightarrow> 0)
          then finish_probe ''failed'' (Some ''expired'') None now s
          else s)"

definition request_probe ::
  "(string \<Rightarrow> string \<Rightarrow> bool) \<Rightarrow> int \<Rightarrow> string \<Rightarrow> string \<Rightarrow> string \<Rightarrow> probes \<Rightarrow> string result \<times> probes" where
  "request_probe live now drawn streamId sessionId s =
     (let s = settle_probe live now s
      in if pb_active s \<noteq> None then (Inl ''A measurement is already running'', s)
         else (Inr drawn, s\<lparr>pb_active := Some \<lparr>me_id = drawn, me_stream = streamId, me_session = sessionId, me_state = ''requested'',
             me_reason = None, me_requestedAt = now, me_runningAt = None, me_plannedMs = None, me_endedAt = None,
             me_results = None, me_pickedUp = False\<rparr>\<rparr>))"

definition pickup_probe :: "(string \<Rightarrow> string \<Rightarrow> bool) \<Rightarrow> int \<Rightarrow> string \<Rightarrow> string \<Rightarrow> probes \<Rightarrow> string option \<times> probes" where
  "pickup_probe live now sessionId streamId s =
     (let s = settle_probe live now s
      in case pb_active s of
           None \<Rightarrow> (None, s)
         | Some active \<Rightarrow>
             if me_state active \<noteq> ''requested'' \<or> me_pickedUp active \<or> me_session active \<noteq> sessionId \<or> me_stream active \<noteq> streamId
             then (None, s)
             else (Some (me_id active), s\<lparr>pb_active := Some (active\<lparr>me_pickedUp := True\<rparr>)\<rparr>))"

text \<open>What a viewer reports: a running measurement with the planned time, a reason it failed, or results.\<close>

datatype report_kind = Runs "int option" | Fails string | Delivers json | Invalid_Report

definition planned_ms :: "json option \<Rightarrow> int option option" where
  "planned_ms v =
     (case v of
        None \<Rightarrow> Some None
      | Some (JInt n) \<Rightarrow> if 0 \<le> n \<and> n \<le> RUN_TIMEOUT_MS then Some (Some n) else None
      | _ \<Rightarrow> None)"

definition report_of :: "measurement \<Rightarrow> (string \<times> json) list \<Rightarrow> report_kind" where
  "report_of active body =
     (let state = jget body ''state''; reason = jget body ''reason''; results = jget body ''results'';
          planned = jget body ''plannedMs''
      in if \<exists>key \<in> set (jkeys body). key \<notin> set REPORT_FIELDS then Invalid_Report
         else if state = Some (JStr ''running'') \<and> me_state active = ''requested'' \<and> reason = None \<and> results = None
                 \<and> planned_ms planned \<noteq> None
         then Runs (the (planned_ms planned))
         else if state = Some (JStr ''failed'') \<and> is_str reason \<and> str_of reason \<in> set LATENCY_REASONS \<and> results = None \<and> planned = None
         then Fails (str_of reason)
         else if state = Some (JStr ''done'') \<and> me_state active = ''running'' \<and> reason = None \<and> planned = None
         then (case validateLatencyResults results of Inr r \<Rightarrow> Delivers r | Inl _ \<Rightarrow> Invalid_Report)
         else Invalid_Report)"

definition report_probe ::
  "(string \<Rightarrow> string \<Rightarrow> bool) \<Rightarrow> int \<Rightarrow> string \<Rightarrow> (string \<times> json) list \<Rightarrow> probes \<Rightarrow> bool result \<times> probes" where
  "report_probe live now sessionId body s =
     (let s = settle_probe live now s
      in case pb_active s of
           None \<Rightarrow> (Inr False, s)
         | Some active \<Rightarrow>
             if jget body ''id'' \<noteq> Some (JStr (me_id active)) \<or> me_session active \<noteq> sessionId
                \<or> jget body ''streamId'' \<noteq> Some (JStr (me_stream active))
             then (Inr False, s)
             else (case report_of active body of
                 Runs planned \<Rightarrow> (Inr True,
                   s\<lparr>pb_active := Some (active\<lparr>me_state := ''running'', me_runningAt := Some now, me_plannedMs := planned\<rparr>)\<rparr>)
               | Fails reason \<Rightarrow> (Inr True, finish_probe ''failed'' (Some reason) None now s)
               | Delivers r \<Rightarrow> (Inr True, finish_probe ''done'' None (Some r) now s)
               | Invalid_Report \<Rightarrow> (Inl ''Invalid latency report'', finish_probe ''failed'' (Some ''invalid-report'') None now s)))"

definition current_probe ::
  "(string \<Rightarrow> string \<Rightarrow> bool) \<Rightarrow> int \<Rightarrow> string \<Rightarrow> string \<Rightarrow> string \<Rightarrow> probes \<Rightarrow> bool \<times> probes" where
  "current_probe live now sessionId streamId pid s =
     (let s = settle_probe live now s
      in ((case pb_active s of
             None \<Rightarrow> False
           | Some active \<Rightarrow> me_id active = pid \<and> me_session active = sessionId \<and> me_stream active = streamId), s))"

definition cancel_probe :: "(string \<Rightarrow> string \<Rightarrow> bool) \<Rightarrow> int \<Rightarrow> string \<Rightarrow> probes \<Rightarrow> bool \<times> probes" where
  "cancel_probe live now pid s =
     (let s = settle_probe live now s
      in case pb_active s of
           None \<Rightarrow> (False, s)
         | Some active \<Rightarrow>
             if me_id active \<noteq> pid then (False, s) else (True, finish_probe ''failed'' (Some ''host-cancelled'') None now s))"

definition allowsAsset :: "(string \<Rightarrow> string \<Rightarrow> bool) \<Rightarrow> int \<Rightarrow> string \<Rightarrow> probes \<Rightarrow> bool \<times> probes" where
  "allowsAsset live now sessionId s =
     (let s = settle_probe live now s
      in ((case pb_active s of Some active \<Rightarrow> me_session active = sessionId | None \<Rightarrow> False), s))"

text \<open>A view leaves out the stream, the session and the pick-up mark.\<close>

record probe_view =
  pv_id :: string
  pv_state :: string
  pv_reason :: "string option"
  pv_requestedAt :: int
  pv_runningAt :: "int option"
  pv_plannedMs :: "int option"
  pv_endedAt :: "int option"
  pv_results :: "json option"

definition view :: "measurement \<Rightarrow> probe_view" where
  "view m = \<lparr>pv_id = me_id m, pv_state = me_state m, pv_reason = me_reason m, pv_requestedAt = me_requestedAt m,
     pv_runningAt = me_runningAt m, pv_plannedMs = me_plannedMs m, pv_endedAt = me_endedAt m, pv_results = me_results m\<rparr>"

definition snapshot_probes ::
  "(string \<Rightarrow> string \<Rightarrow> bool) \<Rightarrow> int \<Rightarrow> string \<Rightarrow> probes \<Rightarrow> (probe_view option \<times> probe_view list) \<times> probes" where
  "snapshot_probes live now streamId s =
     (let s = settle_probe live now s
      in (((case pb_active s of Some active \<Rightarrow> if me_stream active = streamId then Some (view active) else None | None \<Rightarrow> None),
           map view (case jget (pb_history s) streamId of Some h \<Rightarrow> h | None \<Rightarrow> [])), s))"

section \<open>Lemmas on results\<close>

lemma literal_Inr:
  "literal rs = Inr r \<longleftrightarrow> (\<exists>xs. r = JObj (zip (map fst rs) xs) \<and> map snd rs = map Inr xs)"
proof -
  have fo: "fields_of rs = Inr m \<longleftrightarrow> (\<exists>xs. m = zip (map fst rs) xs \<and> map snd rs = map Inr xs)" for m
  proof (induction rs arbitrary: m)
    case Nil
    then show ?case by auto
  next
    case (Cons a rs)
    obtain key x where a: "a = (key, x)" by fastforce
    show ?case
    proof
      assume "fields_of (a # rs) = Inr m"
      then obtain y m' where y: "x = Inr y" "fields_of rs = Inr m'" "m = (key, y) # m'"
        by (auto simp: a split: sum.splits)
      then obtain xs where "m' = zip (map fst rs) xs" "map snd rs = map Inr xs" using Cons.IH by blast
      with y a show "\<exists>xs. m = zip (map fst (a # rs)) xs \<and> map snd (a # rs) = map Inr xs"
        by (intro exI [of _ "y # xs"]) simp
    next
      assume "\<exists>xs. m = zip (map fst (a # rs)) xs \<and> map snd (a # rs) = map Inr xs"
      then obtain y xs where xs: "m = (key, y) # zip (map fst rs) xs" "x = Inr y" "map snd rs = map Inr xs"
        by (auto simp: a map_eq_Cons_conv Cons_eq_map_conv)
      then have "fields_of rs = Inr (zip (map fst rs) xs)" using Cons.IH by blast
      with xs a show "fields_of (a # rs) = Inr m" by simp
    qed
  qed
  have "literal rs = Inr r \<longleftrightarrow> (\<exists>m. r = JObj m \<and> fields_of rs = Inr m)"
    by (auto simp: literal_def split: sum.splits)
  then show ?thesis unfolding fo by blast
qed

lemma bad_results_not [simp]: "bad_results \<noteq> Inr x" "(bad_results = Inr x) = False"
  by (simp_all add: bad_results_def)

text \<open>A check accepts what it returns, unchanged.\<close>

definition settles :: "(json option \<Rightarrow> json result) \<Rightarrow> bool" where
  "settles f \<longleftrightarrow> (\<forall>v r. f v = Inr r \<longrightarrow> f (Some r) = Inr r)"

lemma settlesD: "settles f \<Longrightarrow> f v = Inr r \<Longrightarrow> f (Some r) = Inr r"
  by (auto simp: settles_def)

text \<open>An object check that reads each of its fields with a check of the field.\<close>

definition fields_check :: "string list \<Rightarrow> (json option \<Rightarrow> json result) list \<Rightarrow> json option \<Rightarrow> json result" where
  "fields_check keys fs v =
     (if \<not> object_of v keys then bad_results
      else literal (map (\<lambda>(key, f). (key, f (json_field key v))) (zip keys fs)))"

lemma zip_lookup: "distinct keys \<Longrightarrow> length xs = length keys \<Longrightarrow> i < length keys \<Longrightarrow> map_of (zip keys xs) (keys ! i) = Some (xs ! i)"
  by (simp add: map_of_zip_nth)

lemma fields_check_settles:
  assumes "distinct keys" "length fs = length keys" "\<forall>f \<in> set fs. settles f"
  shows "settles (fields_check keys fs)"
  unfolding settles_def
proof (intro allI impI)
  fix v r
  assume r: "fields_check keys fs v = Inr r"
  define rs where "rs = map (\<lambda>(key, f). (key, f (json_field key v))) (zip keys fs)"
  have "literal rs = Inr r" using r by (simp add: fields_check_def rs_def split: if_splits)
  then obtain xs where xs: "r = JObj (zip (map fst rs) xs)" "map snd rs = map Inr xs" by (auto simp: literal_Inr)
  have keys: "map fst rs = keys"
    using assms(2) by (intro nth_equalityI) (auto simp: rs_def case_prod_beta)
  have len: "length xs = length keys" using arg_cong [OF xs(2), of length] assms(2) by (simp add: rs_def)
  have nth: "(fs ! i) (json_field (keys ! i) v) = Inr (xs ! i)" if "i < length keys" for i
    using arg_cong [OF xs(2), of "\<lambda>l. l ! i"] that assms(2) len by (simp add: rs_def)
  have "fst ` set (zip keys xs) = set keys" using len by (metis list.set_map map_fst_zip)
  then have ob: "object_of (Some r) keys"
    using len by (simp add: object_of_def xs(1) keys jhas_iff)
  have get: "json_field (keys ! i) (Some r) = Some (xs ! i)" if "i < length keys" for i
    using zip_lookup [OF assms(1) len that] by (simp add: json_field_def xs(1) keys)
  have "(fs ! i) (json_field (keys ! i) (Some r)) = Inr (xs ! i)" if "i < length keys" for i
    using settlesD [of "fs ! i" "json_field (keys ! i) v" "xs ! i"] nth [OF that] assms(2,3) that get [OF that] by simp
  then have "map snd (map (\<lambda>(key, f). (key, f (json_field key (Some r)))) (zip keys fs)) = map Inr xs"
    using assms(2) len by (intro nth_equalityI) simp_all
  moreover have "map fst (map (\<lambda>(key, f). (key, f (json_field key (Some r)))) (zip keys fs)) = keys"
    using assms(2) by (intro nth_equalityI) (auto simp: case_prod_beta)
  ultimately have "literal (map (\<lambda>(key, f). (key, f (json_field key (Some r)))) (zip keys fs)) = Inr r"
    unfolding literal_Inr using xs(1) keys by metis
  with ob show "fields_check keys fs (Some r) = Inr r" by (simp add: fields_check_def)
qed

lemma result_integer_settles: "settles (\<lambda>v. result_integer v maximum)"
  by (auto simp: settles_def result_integer_def split: option.splits json.splits if_splits)

lemma milliseconds_settles: "settles (\<lambda>v. milliseconds v minimum)"
  by (auto simp: settles_def milliseconds_def split: option.splits if_splits)

lemma clock_offset_settles: "settles clock_offset"
  by (auto simp: settles_def clock_offset_def split: option.splits if_splits)

lemma receiver_entry_settles: "settles receiver_entry"
  by (auto simp: settles_def receiver_entry_def split: option.splits json.splits if_splits)

lemma result_browser_settles: "settles result_browser"
  by (auto simp: settles_def result_browser_def split: option.splits json.splits if_splits)

lemmas number_settles = result_integer_settles milliseconds_settles clock_offset_settles receiver_entry_settles
  result_browser_settles

definition full_timing :: "int \<Rightarrow> json option \<Rightarrow> json result" where
  "full_timing minimum = fields_check [''count'', ''min'', ''median'', ''p95'', ''max'']
     ((\<lambda>v. result_integer v MAX_COUNT) # replicate 4 (\<lambda>v. milliseconds v minimum))"

lemma timing_alt:
  "timing minimum v =
     (if json_field ''count'' v = Some (JInt 0)
      then (if object_of v [''count''] then Inr (JObj [(''count'', JInt 0)]) else bad_results)
      else full_timing minimum v)"
  by (simp add: timing_def full_timing_def fields_check_def eval_nat_numeral)

lemma timing_settles: "settles (timing minimum)"
  unfolding settles_def
proof (intro allI impI)
  fix v r
  assume r: "timing minimum v = Inr r"
  have full: "settles (full_timing minimum)"
    unfolding full_timing_def by (rule fields_check_settles) (auto simp: number_settles)
  show "timing minimum (Some r) = Inr r"
  proof (cases "json_field ''count'' v = Some (JInt 0)")
    case True
    then have "r = JObj [(''count'', JInt 0)]" using r by (simp add: timing_alt split: if_splits)
    then show ?thesis by (simp add: timing_alt json_field_def object_of_def jhas_def)
  next
    case False
    then have f: "full_timing minimum v = Inr r" using r by (simp add: timing_alt)
    then have "full_timing minimum (Some r) = Inr r" by (rule settlesD [OF full])
    moreover have "json_field ''count'' (Some r) = json_field ''count'' v"
    proof -
      obtain n where "json_field ''count'' v = Some (JInt n)" "json_field ''count'' (Some r) = Some (JInt n)"
        using f by (auto simp: full_timing_def fields_check_def literal_Inr eval_nat_numeral Cons_eq_map_conv map_eq_Cons_conv
            result_integer_def json_field_def split: if_splits option.splits json.splits)
      then show ?thesis by simp
    qed
    ultimately show ?thesis using False by (simp add: timing_alt)
  qed
qed

lemma alts:
  "moveAndKey = fields_check [''move'', ''key''] [timing 0, timing 0]"
  "result_drag = fields_check [''follow'', ''settle''] [timing 0, timing 0]"
  "result_timeouts = fields_check [''move'', ''key'', ''drag''] (replicate 3 (\<lambda>v. result_integer v MAX_COUNT))"
  "result_overhead = fields_check [''callbackMs'', ''skippedFrames''] [timing 0, \<lambda>v. result_integer v MAX_SAFE_INTEGER]"
  "result_receiver = fields_check RECEIVER_FIELDS (replicate 6 receiver_entry)"
  "result_video = fields_check [''width'', ''height''] (replicate 2 (\<lambda>v. result_integer v MAX_VIDEO_SIDE))"
  "validateLatencyResults = fields_check RESULT_FIELDS [moveAndKey, moveAndKey, timing (- MAX_MS), result_drag, result_timeouts,
     result_clock, result_overhead, result_receiver, result_video, result_browser]"
  by (simp_all add: fun_eq_iff fields_check_def moveAndKey_def result_drag_def result_timeouts_def result_overhead_def
      result_receiver_def RECEIVER_FIELDS_def result_video_def validateLatencyResults_def RESULT_FIELDS_def eval_nat_numeral)

lemma result_clock_settles: "settles result_clock"
proof -
  define f where "f = fields_check [''offsetMs'', ''uncertaintyMs''] [clock_offset, \<lambda>v. milliseconds v 0]"
  have f: "settles f" unfolding f_def by (rule fields_check_settles) (auto simp: number_settles)
  have c: "result_clock v = (if v = Some JNull then Inr JNull else f v)" for v
    by (simp add: result_clock_def f_def fields_check_def)
  have "f (Some r) = Inr r \<Longrightarrow> r \<noteq> JNull" for r
    by (auto simp: f_def fields_check_def object_of_def)
  with f show ?thesis unfolding settles_def c by (metis option.inject sum.inject(2))
qed

lemma object_settles:
  "settles moveAndKey" "settles result_drag" "settles result_timeouts" "settles result_overhead" "settles result_receiver"
  "settles result_video"
  unfolding alts by (rule fields_check_settles; auto simp: number_settles timing_settles RECEIVER_FIELDS_def)+

lemma results_settle: "settles validateLatencyResults"
  unfolding alts(7)
  by (rule fields_check_settles) (auto simp: number_settles object_settles timing_settles result_clock_settles RESULT_FIELDS_def)


section \<open>Calls\<close>

text \<open>A call names the streams that are live at the time and the time.\<close>

datatype probe_event =
    Asks "string \<Rightarrow> string \<Rightarrow> bool" int string string string
  | PicksUp "string \<Rightarrow> string \<Rightarrow> bool" int string string
  | Reports "string \<Rightarrow> string \<Rightarrow> bool" int string "(string \<times> json) list"
  | AsksCurrent "string \<Rightarrow> string \<Rightarrow> bool" int string string string
  | Cancels "string \<Rightarrow> string \<Rightarrow> bool" int string
  | AsksAsset "string \<Rightarrow> string \<Rightarrow> bool" int string
  | Looks "string \<Rightarrow> string \<Rightarrow> bool" int string

fun probe_step :: "probes \<Rightarrow> probe_event \<Rightarrow> probes" where
  "probe_step s (Asks live now drawn st ses) = snd (request_probe live now drawn st ses s)"
| "probe_step s (PicksUp live now ses st) = snd (pickup_probe live now ses st s)"
| "probe_step s (Reports live now ses body) = snd (report_probe live now ses body s)"
| "probe_step s (AsksCurrent live now ses st pid) = snd (current_probe live now ses st pid s)"
| "probe_step s (Cancels live now pid) = snd (cancel_probe live now pid s)"
| "probe_step s (AsksAsset live now ses) = snd (allowsAsset live now ses s)"
| "probe_step s (Looks live now st) = snd (snapshot_probes live now st s)"

text \<open>A measurement in progress, and one that has ended.\<close>

definition in_progress :: "measurement \<Rightarrow> bool" where
  "in_progress m \<longleftrightarrow> me_endedAt m = None \<and> me_results m = None \<and> me_reason m = None
     \<and> (me_state m = ''requested'' \<and> me_runningAt m = None \<or> me_state m = ''running'' \<and> me_runningAt m \<noteq> None)"

definition has_ended :: "measurement \<Rightarrow> bool" where
  "has_ended m \<longleftrightarrow> me_endedAt m \<noteq> None
     \<and> (me_state m = ''done'' \<and> me_reason m = None \<and> me_runningAt m \<noteq> None
          \<and> (\<exists>r. me_results m = Some r \<and> validateLatencyResults (Some r) = Inr r)
        \<or> me_state m = ''failed'' \<and> me_results m = None \<and> me_reason m \<noteq> None)"

definition history_ok :: "string \<Rightarrow> measurement list \<Rightarrow> bool" where
  "history_ok st h \<longleftrightarrow> length h \<le> HISTORY \<and> (\<forall>m \<in> set h. me_stream m = st \<and> has_ended m)"

definition probes_ok :: "probes \<Rightarrow> bool" where
  "probes_ok s \<longleftrightarrow> (\<forall>m. pb_active s = Some m \<longrightarrow> in_progress m)
     \<and> (\<forall>st h. jget (pb_history s) st = Some h \<longrightarrow> history_ok st h)"

lemma finish_ok:
  assumes "probes_ok s" "pb_active s = Some m"
    "state = ''failed'' \<and> reason \<noteq> None \<and> results = None
       \<or> state = ''done'' \<and> reason = None \<and> me_state m = ''running'' \<and> (\<exists>r. results = Some r \<and> validateLatencyResults (Some r) = Inr r)"
  shows "probes_ok (finish_probe state reason results now s)"
proof -
  define ended where "ended = m\<lparr>me_state := state, me_reason := reason, me_results := results, me_endedAt := Some now\<rparr>"
  have m: "in_progress m" using assms(1,2) by (simp add: probes_ok_def)
  then have e: "has_ended ended" "me_stream ended = me_stream m"
    using assms(3) by (auto simp: ended_def has_ended_def in_progress_def)
  define old where "old = (case jget (pb_history s) (me_stream m) of Some h \<Rightarrow> h | None \<Rightarrow> [])"
  have "history_ok (me_stream m) old"
    using assms(1) by (auto simp: old_def probes_ok_def history_ok_def split: option.splits)
  then have "history_ok (me_stream m) (take HISTORY (ended # old))"
    using e set_take_subset [of HISTORY "ended # old"] by (auto simp: history_ok_def)
  then show ?thesis
    using assms(1) by (simp add: probes_ok_def finish_probe_def assms(2) Let_def flip: ended_def old_def)
qed

lemma finish_failed_ok: "probes_ok s \<Longrightarrow> probes_ok (finish_probe ''failed'' (Some reason) None now s)"
proof (cases "pb_active s")
  case None
  then show "probes_ok s \<Longrightarrow> ?thesis" by (simp add: finish_probe_def)
next
  case (Some m)
  then show "probes_ok s \<Longrightarrow> ?thesis" by (intro finish_ok) simp_all
qed

lemma settle_ok: "probes_ok s \<Longrightarrow> probes_ok (settle_probe live now s)"
  by (auto simp: settle_probe_def finish_failed_ok split: option.split)

lemma active_update_ok: "probes_ok s \<Longrightarrow> in_progress m \<Longrightarrow> probes_ok (s\<lparr>pb_active := Some m\<rparr>)"
  by (simp add: probes_ok_def)

lemma probes_active: "probes_ok s \<Longrightarrow> pb_active s = Some m \<Longrightarrow> in_progress m"
  by (simp add: probes_ok_def)

lemma report_ok:
  assumes "probes_ok s"
  shows "probes_ok (snd (report_probe live now ses body s))"
proof -
  define t where "t = settle_probe live now s"
  have t: "probes_ok t" unfolding t_def by (rule settle_ok [OF assms])
  show ?thesis
  proof (cases "pb_active t")
    case None
    then show ?thesis using t by (simp add: report_probe_def flip: t_def)
  next
    case (Some m)
    note p = probes_active [OF t Some]
    have runs: "report_of m body = Runs planned \<Longrightarrow> me_state m = ''requested''" for planned
      by (auto simp: report_of_def Let_def split: if_splits sum.splits)
    have delivers: "report_of m body = Delivers r \<Longrightarrow> me_state m = ''running'' \<and> validateLatencyResults (Some r) = Inr r" for r
      using settlesD [OF results_settle] by (auto simp: report_of_def Let_def split: if_splits sum.splits)
    have "probes_ok (t\<lparr>pb_active := Some (m\<lparr>me_state := ''running'', me_runningAt := Some now, me_plannedMs := planned\<rparr>)\<rparr>)"
      for planned
      using t p by (intro active_update_ok) (simp_all add: in_progress_def)
    moreover have "report_of m body = Delivers r \<Longrightarrow> probes_ok (finish_probe ''done'' None (Some r) now t)" for r
      using delivers [of r] t Some by (intro finish_ok [of t m]) auto
    ultimately show ?thesis using t Some
      by (auto simp: report_probe_def finish_failed_ok simp flip: t_def split: report_kind.split)
  qed
qed

lemma probe_step_ok: "probes_ok s \<Longrightarrow> probes_ok (probe_step s e)"
proof (cases e)
  case (Asks live now drawn st ses)
  assume "probes_ok s"
  then have "probes_ok (settle_probe live now s)" by (rule settle_ok)
  then show ?thesis using Asks
    by (auto simp: request_probe_def Let_def in_progress_def intro!: active_update_ok)
next
  case (PicksUp live now ses st)
  assume "probes_ok s"
  then have t: "probes_ok (settle_probe live now s)" by (rule settle_ok)
  then show ?thesis using PicksUp probes_active [OF t]
    by (auto simp: pickup_probe_def Let_def in_progress_def split: option.split intro!: active_update_ok)
next
  case (Cancels live now pid)
  assume "probes_ok s"
  then have t: "probes_ok (settle_probe live now s)" by (rule settle_ok)
  then show ?thesis using Cancels
    by (auto simp: cancel_probe_def Let_def finish_failed_ok split: option.split)
qed (auto simp: report_ok current_probe_def allowsAsset_def snapshot_probes_def Let_def settle_ok)

interpretation latency: step_system probe_step probes_ok
  by unfold_locales (rule probe_step_ok)

lemma new_probes_ok: "probes_ok new_probes"
  by (simp add: probes_ok_def new_probes_def)

section \<open>Properties\<close>

text \<open>
  The check of results returns a form it accepts again unchanged: the ten fields in order, each a copy of
  what was checked, so what is kept is exactly what was checked.
\<close>

theorem results_fixed:
  "validateLatencyResults v = Inr r \<Longrightarrow> validateLatencyResults (Some r) = Inr r \<and> (\<exists>m. r = JObj m \<and> jkeys m = RESULT_FIELDS)"
proof
  assume r: "validateLatencyResults v = Inr r"
  then show "validateLatencyResults (Some r) = Inr r" by (rule settlesD [OF results_settle])
  show "\<exists>m. r = JObj m \<and> jkeys m = RESULT_FIELDS"
    using r by (auto simp: validateLatencyResults_def RESULT_FIELDS_def literal_Inr Cons_eq_map_conv split: if_splits)
qed

definition sample_results :: json where
  "sample_results = (let none = JObj [(''count'', JInt 0)]; pair = JObj [(''move'', none), (''key'', none)] in
     JObj [(''browser'', JStr ''Firefox''), (''handToGlassMs'', pair), (''handToReceiveMs'', pair), (''glassToGlassMs'', none),
       (''dragMs'', JObj [(''settle'', none), (''follow'', none)]),
       (''timeouts'', JObj [(''move'', JInt 0), (''key'', JInt 2), (''drag'', JInt 0)]), (''clock'', JNull),
       (''overhead'', JObj [(''callbackMs'', none), (''skippedFrames'', JInt 7)]),
       (''receiver'', JObj (map (\<lambda>key. (key, JNull)) RECEIVER_FIELDS)), (''video'', JObj [(''width'', JInt 1920), (''height'', JInt 1080)])])"

theorem results_fixed_witness:
  "\<exists>r. validateLatencyResults (Some sample_results) = Inr r \<and> validateLatencyResults (Some r) = Inr r \<and> r \<noteq> sample_results"
proof -
  have "is_ok (validateLatencyResults (Some sample_results))" by code_simp
  then obtain r where r: "validateLatencyResults (Some sample_results) = Inr r" by (auto simp: is_ok_def split: sum.splits)
  have "hd (jkeys m) = ''browser''" if "sample_results = JObj m" for m
    using that by (auto simp: sample_results_def Let_def)
  moreover have "hd RESULT_FIELDS \<noteq> ''browser''" by (simp add: RESULT_FIELDS_def)
  ultimately have "r \<noteq> sample_results" using results_fixed [OF r] by metis
  with results_fixed [OF r] r show ?thesis by blast
qed

text \<open>
  After any calls, at any times and whichever streams end, at most the last five measurements of a stream
  are kept; each has ended, with a reason and no results or as done, and then its results have passed the check.
  The measurement in progress, if any, has no results and no end.
\<close>

theorem measurements_recorded:
  "(\<forall>st h. jget (pb_history (run probe_step new_probes es)) st = Some h \<longrightarrow>
      length h \<le> 5 \<and> (\<forall>m \<in> set h. me_stream m = st \<and> has_ended m))
   \<and> (\<forall>m. pb_active (run probe_step new_probes es) = Some m \<longrightarrow> in_progress m)"
  using latency.run_inv [OF new_probes_ok, of es] by (simp add: probes_ok_def history_ok_def HISTORY_def)

lemma settled_active:
  assumes "pb_active (settle_probe live now s) = Some m"
  shows "pb_active s = Some m \<and> live (me_session m) (me_stream m)
    \<and> (me_state m = ''requested'' \<longrightarrow> now - me_requestedAt m \<le> 15000)
    \<and> (\<forall>t. me_state m = ''running'' \<and> me_runningAt m = Some t \<longrightarrow> now - t \<le> 120000)"
  using assms
  by (auto simp: settle_probe_def finish_probe_def Let_def PICKUP_TIMEOUT_MS_def RUN_TIMEOUT_MS_def split: option.splits if_splits)

definition sample_run :: "probe_event list" where
  "sample_run = [Asks (\<lambda>_ _. True) 0 ''p1'' ''st'' ''ses'', PicksUp (\<lambda>_ _. True) 10 ''ses'' ''st'',
     Reports (\<lambda>_ _. True) 20 ''ses'' [(''id'', JStr ''p1''), (''streamId'', JStr ''st''), (''state'', JStr ''running''), (''plannedMs'', JInt 900)],
     Reports (\<lambda>_ _. True) 950 ''ses'' [(''id'', JStr ''p1''), (''streamId'', JStr ''st''), (''state'', JStr ''done''), (''results'', sample_results)]]"

theorem measurements_recorded_witness:
  "\<exists>m. jget (pb_history (run probe_step new_probes sample_run)) ''st'' = Some [m] \<and> me_state m = ''done'' \<and> has_ended m"
proof -
  have c: "map_option (map me_state) (jget (pb_history (run probe_step new_probes sample_run)) ''st'') = Some [''done'']"
    unfolding sample_run_def run_Cons run_Nil by code_simp
  then obtain h where h: "jget (pb_history (run probe_step new_probes sample_run)) ''st'' = Some h" "map me_state h = [''done'']"
    by auto
  moreover have "\<forall>m \<in> set h. me_stream m = ''st'' \<and> has_ended m" using measurements_recorded [of sample_run] h(1) by blast
  ultimately show ?thesis by (auto simp: Cons_eq_map_conv map_eq_Cons_conv)
qed

text \<open>
  A measurement that viewers and streams forget cannot block the server: whatever happened before, a new one is
  refused only while one is in progress whose stream is live, requested at most 15 seconds ago or running for at
  most two minutes.
\<close>

theorem busy_is_bounded:
  "fst (request_probe live now drawn st ses (run probe_step new_probes es)) = Inl e \<Longrightarrow>
     \<exists>m. pb_active (run probe_step new_probes es) = Some m \<and> live (me_session m) (me_stream m)
       \<and> (me_state m = ''requested'' \<and> now - me_requestedAt m \<le> 15000
          \<or> me_state m = ''running'' \<and> (\<exists>t. me_runningAt m = Some t \<and> now - t \<le> 120000))"
proof -
  define s where "s = run probe_step new_probes es"
  assume "fst (request_probe live now drawn st ses (run probe_step new_probes es)) = Inl e"
  then obtain m where m: "pb_active (settle_probe live now s) = Some m"
    by (cases "pb_active (settle_probe live now s)") (auto simp: request_probe_def Let_def simp flip: s_def)
  note a = settled_active [OF m]
  have "in_progress m" using latency.run_inv [OF new_probes_ok, of es] a by (simp add: probes_ok_def s_def)
  then show ?thesis using a unfolding s_def [symmetric] in_progress_def by blast
qed

theorem busy_is_bounded_witness:
  "\<exists>m. pb_active (run probe_step new_probes (take 3 sample_run)) = Some m \<and> me_state m = ''running''"
proof -
  have r: "fst (request_probe (\<lambda>_ _. True) 100000 ''p2'' ''st'' ''ses'' (run probe_step new_probes (take 3 sample_run)))
      = Inl ''A measurement is already running''"
    "map_option me_state (pb_active (run probe_step new_probes (take 3 sample_run))) = Some ''running''"
    unfolding sample_run_def take_Suc_Cons take_0 numeral_3_eq_3 run_Cons run_Nil by code_simp+
  from busy_is_bounded [OF r(1)] r(2) show ?thesis by auto
qed

end
