(* ===== verification/RelaySupervisor.thy ===== *)
theory RelaySupervisor
  imports Json
begin

text \<open>
  \<^verbatim>\<open>apps/server/src/media-relay.mjs\<close>: the server's side of the media relay process: starting it, its messages,
  its restarts after an exit, and the registrations that wait for its answer. A child process is a number, the
  call of \<open>allow\<close> that a promise belongs to is a number, and what is written to a child, logged, called back and
  settled is kept in order. \<open>parse\<close> is \<^verbatim>\<open>JSON.parse\<close>, \<open>None\<close> where it throws.
\<close>

section \<open>How the relay is started\<close>

text \<open>\<^verbatim>\<open>relayLaunch\<close>: sandboxed, refused, without a sandbox but with a warning, or the plain default.\<close>

datatype relay_launch = Sandboxed | Launch_Refused string | Unsandboxed string | Plain_Launch

definition relayLaunch :: "string option \<Rightarrow> bool \<Rightarrow> string \<Rightarrow> (string \<Rightarrow> bool) \<Rightarrow> relay_launch" where
  "relayLaunch executable packaged platform exists =
     (let shown = (case executable of Some e \<Rightarrow> e | None \<Rightarrow> ''undefined'')
      in if platform = ''win32'' then Sandboxed
         else if platform \<noteq> ''darwin'' then Plain_Launch
         else if (case executable of Some e \<Rightarrow> e \<noteq> [] \<and> exists e | None \<Rightarrow> False) then Sandboxed
         else if packaged then Launch_Refused (''the sandbox launcher ('' @ shown @ '') is missing; reinstall VidVNC'')
         else Unsandboxed (''The media relay runs without a sandbox: build the media worker ('' @ shown @ '').''))"

definition sandbox_arguments :: "string \<Rightarrow> string \<Rightarrow> string list \<Rightarrow> string \<Rightarrow> string list" where
  "sandbox_arguments platform node permissionFlags bundle =
     [''--sandbox'', ''--'', node] @ (if platform = ''darwin'' then [''--jitless'', ''--openssl-config=/dev/null''] else [])
       @ permissionFlags @ [''--input-type=module'', ''-e'', bundle]"

section \<open>State\<close>

definition UNAUTHENTICATED :: "string list" where
  "UNAUTHENTICATED = [''budget'', ''malformed'', ''unknown-ufrag'', ''bad-integrity'', ''username'']"

definition RELAY_RESTARTS_limit :: nat where "RELAY_RESTARTS_limit = 3"
definition RELAY_RESTARTS_windowMs :: int where "RELAY_RESTARTS_windowMs = 60000"
definition startTimeoutMs :: int where "startTimeoutMs = 5000"

datatype relay_state = Stopped | Starting | Listening | Unavailable

datatype outcome = Resolved | Rejected_With string

record supervisor =
  sv_state :: relay_state
  sv_reason :: "string option"
  sv_port :: "int option"
  sv_families :: "json option"
  sv_metrics :: "json option"
  sv_child :: "nat option"
  sv_launched :: nat
  sv_buffered :: "(nat, string) jmap"
  sv_starting :: "nat list"
  sv_pending :: "(string, nat) jmap"
  sv_restarts :: "int list"
  sv_stopping :: bool
  sv_refused :: "string option"
  sv_summary :: "int option \<times> int"
  sv_sent :: "(nat \<times> json) list"
  sv_log :: "string list"
  sv_events :: "json list"
  sv_exits :: nat
  sv_killed :: "nat list"
  sv_settled :: "(nat \<times> outcome) list"

definition new_supervisor :: "string option \<Rightarrow> supervisor" where
  "new_supervisor refused =
     \<lparr>sv_state = Stopped, sv_reason = None, sv_port = None, sv_families = Some (JArr []), sv_metrics = None, sv_child = None,
      sv_launched = 0, sv_buffered = [], sv_starting = [], sv_pending = [], sv_restarts = [], sv_stopping = False,
      sv_refused = refused, sv_summary = (None, 0), sv_sent = [], sv_log = [], sv_events = [], sv_exits = 0, sv_killed = [],
      sv_settled = []\<rparr>"

definition listening :: "supervisor \<Rightarrow> bool" where
  "listening s \<longleftrightarrow> sv_state s = Listening"

definition log_line :: "string \<Rightarrow> supervisor \<Rightarrow> supervisor" where
  "log_line line s = s\<lparr>sv_log := sv_log s @ [line]\<rparr>"

definition settle :: "nat \<Rightarrow> outcome \<Rightarrow> supervisor \<Rightarrow> supervisor" where
  "settle n result s = s\<lparr>sv_settled := sv_settled s @ [(n, result)]\<rparr>"

definition write_child :: "json \<Rightarrow> supervisor \<Rightarrow> supervisor" where
  "write_child message s = (case sv_child s of None \<Rightarrow> s | Some c \<Rightarrow> s\<lparr>sv_sent := sv_sent s @ [(c, message)]\<rparr>)"

section \<open>Starting\<close>

definition unavailable :: "string \<Rightarrow> supervisor \<Rightarrow> supervisor" where
  "unavailable reason s =
     log_line (''Media is unavailable: '' @ reason) (s\<lparr>sv_state := Unavailable, sv_reason := Some reason\<rparr>)"

definition start_supervisor :: "int \<Rightarrow> supervisor \<Rightarrow> supervisor" where
  "start_supervisor port s =
     (let s = s\<lparr>sv_stopping := False, sv_port := Some port, sv_state := Starting, sv_reason := None\<rparr>
      in case sv_refused s of
           Some refused \<Rightarrow> unavailable refused s
         | None \<Rightarrow>
             (let c = sv_launched s
              in write_child (JObj [(''type'', JStr ''start''), (''port'', JInt port)])
                   (s\<lparr>sv_child := Some c, sv_launched := c + 1, sv_starting := sv_starting s @ [c],
                      sv_buffered := jset c [] (sv_buffered s)\<rparr>)))"

definition start_timeout :: "nat \<Rightarrow> supervisor \<Rightarrow> supervisor" where
  "start_timeout c s =
     (if c \<notin> set (sv_starting s) then s
      else (let s = unavailable (''the media relay did not start within '' @ dec startTimeoutMs @ '' ms'')
                  (s\<lparr>sv_starting := removeAll c (sv_starting s)\<rparr>)
            in s\<lparr>sv_killed := sv_killed s @ [c]\<rparr>))"

text \<open>\<^verbatim>\<open>#onStarted\<close> and \<^verbatim>\<open>#onEarlyExit\<close> of the child \<open>c\<close>.\<close>

definition on_started :: "nat \<Rightarrow> json \<Rightarrow> supervisor \<Rightarrow> supervisor" where
  "on_started c message s =
     (let s = s\<lparr>sv_starting := removeAll c (sv_starting s)\<rparr>; port = (case sv_port s of Some p \<Rightarrow> dec p | None \<Rightarrow> ''null'')
      in if jfield ''type'' message = Some (JStr ''ready'')
         then log_line (''Media relay listening on UDP '' @ show_field ''port'' message @ '' (''
                  @ join_with '', '' (map show_value (arr_of (jfield ''families'' message))) @ '').'')
                (s\<lparr>sv_state := Listening, sv_families := jfield ''families'' message\<rparr>)
         else unavailable
           (if jfield ''code'' message = Some (JStr ''EADDRINUSE'')
            then ''UDP '' @ port @ '' is in use by another program. Choose another media port.''
            else if jfield ''code'' message = Some (JStr ''EACCES'')
            then ''UDP '' @ port @ '' cannot be used (access denied). Choose another media port.''
            else ''the media relay could not listen on UDP '' @ port @ '': '' @ show_field ''message'' message) s)"

definition on_early_exit :: "nat \<Rightarrow> string \<Rightarrow> supervisor \<Rightarrow> supervisor" where
  "on_early_exit c stderr s =
     unavailable (''the media relay stopped while starting'' @ (if stderr = [] then [] else '': '' @ js_trim stderr))
       (s\<lparr>sv_starting := removeAll c (sv_starting s)\<rparr>)"

section \<open>Messages of the child\<close>

definition dropped_of :: "json option \<Rightarrow> string \<Rightarrow> int" where
  "dropped_of metrics reason =
     (case metrics of Some m \<Rightarrow> (case jfield ''dropped'' m of Some d \<Rightarrow> int_of (jfield reason d) | None \<Rightarrow> 0) | None \<Rightarrow> 0)"

definition summarise :: "int \<Rightarrow> supervisor \<Rightarrow> supervisor" where
  "summarise now s =
     (if (case fst (sv_summary s) of None \<Rightarrow> False | Some at \<Rightarrow> now - at < 60000) then s
      else (let dropped = sum_list (map (dropped_of (sv_metrics s)) UNAUTHENTICATED); since = dropped - snd (sv_summary s);
                detail = join_with '', '' (map (\<lambda>reason. reason @ '' '' @ dec (dropped_of (sv_metrics s) reason))
                           (filter (\<lambda>reason. dropped_of (sv_metrics s) reason \<noteq> 0) UNAUTHENTICATED));
                s = (if 0 < since
                     then log_line (''Media relay dropped '' @ dec since @ '' unauthenticated datagram(s) (totals: '' @ detail @ '').'') s
                     else s)
            in s\<lparr>sv_summary := (Some now, dropped)\<rparr>))"

definition metrics_of :: "json \<Rightarrow> json" where
  "metrics_of message =
     JObj (concat (map (\<lambda>key. case jfield key message of Some v \<Rightarrow> [(key, v)] | None \<Rightarrow> [])
       [''dropped'', ''forwarded'', ''addressDiffers'', ''registrations'', ''pins'']))"

definition emit_event :: "json \<Rightarrow> supervisor \<Rightarrow> supervisor" where
  "emit_event message s = s\<lparr>sv_events := sv_events s @ [message]\<rparr>"

definition on_answer :: "json \<Rightarrow> supervisor \<Rightarrow> supervisor" where
  "on_answer message s =
     (let streamId = str_of (jfield ''streamId'' message)
      in case (if is_str (jfield ''streamId'' message) then jget (sv_pending s) streamId else None) of
           None \<Rightarrow> s
         | Some n \<Rightarrow>
             settle n (if jfield ''type'' message = Some (JStr ''allowed'') then Resolved
                       else Rejected_With (''The media relay refused the stream: '' @ show_field ''reason'' message))
               (s\<lparr>sv_pending := jdel streamId (sv_pending s)\<rparr>))"

definition on_message :: "int \<Rightarrow> nat \<Rightarrow> json \<Rightarrow> supervisor \<Rightarrow> supervisor" where
  "on_message now c message s =
     (let ty = str_of (jfield ''type'' message); stream = ''[relay '' @ show_field ''streamId'' message @ ''] ''
      in if ty = ''ready'' \<or> ty = ''failed'' then on_started c message s
         else if ty = ''allowed'' \<or> ty = ''refused'' then on_answer message s
         else if ty = ''metrics'' then summarise now (s\<lparr>sv_metrics := Some (metrics_of message)\<rparr>)
         else if ty = ''pinned''
         then emit_event message (log_line (stream @ ''Media path authenticated from '' @ show_field ''tuple'' message
                  @ (if jfield ''hintMatched'' message = Some (JBool False) then '' (differs from the HTTPS address)'' else [])
                  @ ''.'') s)
         else if ty = ''unpinned''
         then emit_event message (log_line (stream @ ''Media path '' @ show_field ''tuple'' message @ '' ended (''
                  @ show_field ''reason'' message @ '').'') s)
         else if ty = ''expired''
         then emit_event message (log_line (stream @ ''No authenticated media within the time limit.'') s)
         else if ty = ''address-differs'' then emit_event message s
         else s)"

text \<open>Text from the child's standard output: whole lines are read, and handled while it is the current child.\<close>

definition on_output :: "(string \<Rightarrow> json option) \<Rightarrow> int \<Rightarrow> nat \<Rightarrow> string \<Rightarrow> supervisor \<Rightarrow> supervisor" where
  "on_output parse now c chunk s =
     (let parts = split_on (CHR 0x0A) ((case jget (sv_buffered s) c of Some b \<Rightarrow> b | None \<Rightarrow> []) @ chunk)
      in fold (\<lambda>line s. case parse line of
                  None \<Rightarrow> s
                | Some message \<Rightarrow> if sv_child s = Some c then on_message now c message s else s)
           (butlast parts) (s\<lparr>sv_buffered := jset c (last parts) (sv_buffered s)\<rparr>))"

section \<open>The child's end\<close>

definition reject_pending :: "supervisor \<Rightarrow> supervisor" where
  "reject_pending s =
     s\<lparr>sv_settled := sv_settled s @ map (\<lambda>n. (n, Rejected_With ''The media relay stopped'')) (jvals (sv_pending s)),
       sv_pending := []\<rparr>"

definition on_exit :: "int \<Rightarrow> nat \<Rightarrow> string \<Rightarrow> string \<Rightarrow> int \<Rightarrow> supervisor \<Rightarrow> supervisor" where
  "on_exit now c how stderr port s =
     (if sv_child s \<noteq> Some c then s
      else (let s = reject_pending (s\<lparr>sv_child := None\<rparr>)
            in if sv_state s = Starting then on_early_exit c stderr s
               else if sv_stopping s then s\<lparr>sv_state := Stopped\<rparr>
               else (let wasListening = listening s; s = log_line (''Media relay exited ('' @ how @ ''); every stream stopped.'') s;
                         s = s\<lparr>sv_exits := sv_exits s + 1\<rparr>; kept = recent (sv_restarts s) now RELAY_RESTARTS_windowMs
                     in if \<not> wasListening then s
                        else if RELAY_RESTARTS_limit \<le> length kept
                        then unavailable ''the media relay stopped repeatedly; restart VidVNC to try again'' (s\<lparr>sv_restarts := kept\<rparr>)
                        else start_supervisor port (s\<lparr>sv_restarts := kept @ [now]\<rparr>))))"

section \<open>Calls\<close>

definition revoke_stream :: "string \<Rightarrow> supervisor \<Rightarrow> supervisor" where
  "revoke_stream streamId s = write_child (JObj [(''type'', JStr ''revoke''), (''streamId'', JStr streamId)]) s"

text \<open>\<open>n\<close> is the call; the registration's fields follow the type.\<close>

definition allow_stream :: "nat \<Rightarrow> string \<Rightarrow> (string \<times> json) list \<Rightarrow> supervisor \<Rightarrow> supervisor" where
  "allow_stream n streamId registration s =
     (if \<not> listening s \<or> sv_child s = None
      then settle n (Rejected_With (''Media is unavailable: ''
             @ (case sv_reason s of Some r \<Rightarrow> r | None \<Rightarrow> ''the relay is not running''))) s
      else if jhas (sv_pending s) streamId then settle n (Rejected_With ''Duplicate relay registration'') s
      else write_child (JObj (fold (\<lambda>(key, v). jset key v) registration [(''type'', JStr ''allow'')]))
             (s\<lparr>sv_pending := jset streamId n (sv_pending s)\<rparr>))"

definition allow_timeout :: "string \<Rightarrow> supervisor \<Rightarrow> supervisor" where
  "allow_timeout streamId s =
     (case jget (sv_pending s) streamId of
        None \<Rightarrow> s
      | Some n \<Rightarrow> settle n (Rejected_With ''The media relay did not confirm the stream in time'')
                  (revoke_stream streamId (s\<lparr>sv_pending := jdel streamId (sv_pending s)\<rparr>)))"

definition stop_supervisor :: "supervisor \<Rightarrow> supervisor" where
  "stop_supervisor s =
     (let s = s\<lparr>sv_stopping := True\<rparr>
      in if sv_child s = None then s\<lparr>sv_state := Stopped\<rparr> else write_child (JObj [(''type'', JStr ''stop'')]) s)"

text \<open>The time limit of a stop, and \<^verbatim>\<open>restart\<close> after the stop it waits for.\<close>

definition stop_timeout :: "nat \<Rightarrow> supervisor \<Rightarrow> supervisor" where
  "stop_timeout c s = s\<lparr>sv_killed := sv_killed s @ [c]\<rparr>"

definition end_restart :: "int \<Rightarrow> supervisor \<Rightarrow> supervisor" where
  "end_restart port s = start_supervisor port (s\<lparr>sv_exits := sv_exits s + 1, sv_restarts := []\<rparr>)"

record relay_status =
  rs_state :: relay_state
  rs_port :: "int option"
  rs_families :: "json option"
  rs_reason :: "string option"
  rs_metrics :: "json option"

definition supervisor_status :: "supervisor \<Rightarrow> relay_status" where
  "supervisor_status s = \<lparr>rs_state = sv_state s, rs_port = sv_port s, rs_families = sv_families s, rs_reason = sv_reason s,
     rs_metrics = sv_metrics s\<rparr>"

section \<open>Events\<close>

datatype supervisor_event =
    Call_Start int
  | Start_Timer nat
  | Child_Output nat string
  | Child_Exit nat string string int
  | Call_Allow nat string "(string \<times> json) list"
  | Allow_Timer string
  | Call_Revoke string
  | Call_Stop
  | Stop_Timer nat
  | Restart_Goes_On int

fun supervisor_step :: "(string \<Rightarrow> json option) \<Rightarrow> supervisor \<Rightarrow> int \<times> supervisor_event \<Rightarrow> supervisor" where
  "supervisor_step parse s (now, Call_Start port) = start_supervisor port s"
| "supervisor_step parse s (now, Start_Timer c) = start_timeout c s"
| "supervisor_step parse s (now, Child_Output c chunk) = on_output parse now c chunk s"
| "supervisor_step parse s (now, Child_Exit c how stderr port) = on_exit now c how stderr port s"
| "supervisor_step parse s (now, Call_Allow n streamId registration) = allow_stream n streamId registration s"
| "supervisor_step parse s (now, Allow_Timer streamId) = allow_timeout streamId s"
| "supervisor_step parse s (now, Call_Revoke streamId) = revoke_stream streamId s"
| "supervisor_step parse s (now, Call_Stop) = stop_supervisor s"
| "supervisor_step parse s (now, Stop_Timer c) = stop_timeout c s"
| "supervisor_step parse s (now, Restart_Goes_On port) = end_restart port s"

section \<open>Lemmas\<close>

lemma log_simps [simp]:
  "sv_restarts (log_line l s) = sv_restarts s" "sv_pending (log_line l s) = sv_pending s" "sv_child (log_line l s) = sv_child s"
  "sv_settled (log_line l s) = sv_settled s" "sv_launched (log_line l s) = sv_launched s" "sv_state (log_line l s) = sv_state s"
  "sv_refused (log_line l s) = sv_refused s"
  by (simp_all add: log_line_def)

lemma write_simps [simp]:
  "sv_restarts (write_child m s) = sv_restarts s" "sv_pending (write_child m s) = sv_pending s" "sv_child (write_child m s) = sv_child s"
  "sv_settled (write_child m s) = sv_settled s" "sv_launched (write_child m s) = sv_launched s" "sv_state (write_child m s) = sv_state s"
  by (simp_all add: write_child_def split: option.split)

lemma settle_simps [simp]:
  "sv_restarts (settle n r s) = sv_restarts s" "sv_pending (settle n r s) = sv_pending s" "sv_child (settle n r s) = sv_child s"
  "sv_launched (settle n r s) = sv_launched s" "sv_settled (settle n r s) = sv_settled s @ [(n, r)]"
  by (simp_all add: settle_def)

lemma unavailable_simps [simp]:
  "sv_restarts (unavailable r s) = sv_restarts s" "sv_pending (unavailable r s) = sv_pending s" "sv_child (unavailable r s) = sv_child s"
  "sv_settled (unavailable r s) = sv_settled s" "sv_launched (unavailable r s) = sv_launched s" "sv_state (unavailable r s) = Unavailable"
  by (simp_all add: unavailable_def)

lemma started_simps [simp]:
  "sv_restarts (on_started c m s) = sv_restarts s" "sv_pending (on_started c m s) = sv_pending s" "sv_child (on_started c m s) = sv_child s"
  "sv_settled (on_started c m s) = sv_settled s" "sv_launched (on_started c m s) = sv_launched s"
  by (simp_all add: on_started_def Let_def)

lemma early_simps [simp]:
  "sv_restarts (on_early_exit c e s) = sv_restarts s" "sv_pending (on_early_exit c e s) = sv_pending s"
  "sv_child (on_early_exit c e s) = sv_child s" "sv_settled (on_early_exit c e s) = sv_settled s"
  "sv_launched (on_early_exit c e s) = sv_launched s"
  by (simp_all add: on_early_exit_def)

lemma emit_simps [simp]:
  "sv_restarts (emit_event m s) = sv_restarts s" "sv_pending (emit_event m s) = sv_pending s" "sv_child (emit_event m s) = sv_child s"
  "sv_settled (emit_event m s) = sv_settled s" "sv_launched (emit_event m s) = sv_launched s"
  by (simp_all add: emit_event_def)

lemma summarise_simps [simp]:
  "sv_restarts (summarise now s) = sv_restarts s" "sv_pending (summarise now s) = sv_pending s" "sv_child (summarise now s) = sv_child s"
  "sv_settled (summarise now s) = sv_settled s" "sv_launched (summarise now s) = sv_launched s"
  by (simp_all add: summarise_def Let_def)

lemma revoke_simps [simp]:
  "sv_restarts (revoke_stream i s) = sv_restarts s" "sv_pending (revoke_stream i s) = sv_pending s" "sv_child (revoke_stream i s) = sv_child s"
  "sv_settled (revoke_stream i s) = sv_settled s" "sv_launched (revoke_stream i s) = sv_launched s"
  by (simp_all add: revoke_stream_def)

lemma start_simps [simp]:
  "sv_restarts (start_supervisor port s) = sv_restarts s" "sv_pending (start_supervisor port s) = sv_pending s"
  "sv_settled (start_supervisor port s) = sv_settled s"
  by (simp_all add: start_supervisor_def Let_def split: option.split)

lemma start_child: "sv_child (start_supervisor port s) = None \<longrightarrow> sv_child s = None"
  by (simp add: start_supervisor_def Let_def split: option.split)

lemma timeout_simps [simp]:
  "sv_restarts (start_timeout c s) = sv_restarts s" "sv_pending (start_timeout c s) = sv_pending s"
  "sv_settled (start_timeout c s) = sv_settled s" "sv_child (start_timeout c s) = sv_child s"
  "sv_launched (start_timeout c s) = sv_launched s"
  by (simp_all add: start_timeout_def Let_def)

text \<open>Every call of \<open>allow\<close> is settled or waits, and waits only while there is a child.\<close>

definition calls_kept :: "(nat \<Rightarrow> nat) \<Rightarrow> supervisor \<Rightarrow> bool" where
  "calls_kept made s \<longleftrightarrow>
     (\<forall>n. count_list (map fst (sv_settled s)) n + count_list (jvals (sv_pending s)) n = made n)
     \<and> (sv_child s = None \<longrightarrow> sv_pending s = []) \<and> jmap_ok (sv_pending s)"

lemma calls_kept_same:
  "sv_settled s' = sv_settled s \<Longrightarrow> sv_pending s' = sv_pending s \<Longrightarrow> (sv_child s' = None \<longrightarrow> sv_child s = None) \<Longrightarrow>
     calls_kept made s \<Longrightarrow> calls_kept made s'"
  by (auto simp: calls_kept_def)

lemma count_jdel: "jget m k = Some n \<Longrightarrow> jmap_ok m \<Longrightarrow> count_list (jvals m) x = count_list (jvals (jdel k m)) x + (if x = n then 1 else 0)"
proof (induction m)
  case (Cons row m)
  obtain j v where row: "row = (j, v)" by (cases row)
  show ?case
  proof (cases "j = k")
    case True
    with Cons.prems row have "jdel k m = m" by (auto simp: jmap_ok_def delete_conv intro!: filter_True)
    with True Cons.prems row show ?thesis by (auto simp: delete_conv)
  next
    case False
    with Cons row show ?thesis by (auto simp: jmap_ok_def)
  qed
qed simp


lemma count_jset: "\<not> jhas m k \<Longrightarrow> count_list (jvals (jset k v m)) x = count_list (jvals m) x + (if x = v then 1 else 0)"
  by (induction m) (auto simp: jhas_def split: if_splits)

definition is_allow :: "nat \<Rightarrow> int \<times> supervisor_event \<Rightarrow> bool" where
  "is_allow n e = (case e of (_, Call_Allow m _ _) \<Rightarrow> m = n | _ \<Rightarrow> False)"

lemma settled_kept:
  assumes "calls_kept made s" "jget (sv_pending s) k = Some n"
    and "sv_settled s' = sv_settled s @ [(n, r)]" "sv_pending s' = jdel k (sv_pending s)" "sv_child s' = sv_child s"
  shows "calls_kept made s'"
proof -
  have "count_list (map fst (sv_settled s')) x + count_list (jvals (sv_pending s')) x = made x" for x
  proof -
    have "count_list (map fst (sv_settled s)) x + count_list (jvals (sv_pending s)) x = made x"
      using assms(1) by (simp add: calls_kept_def)
    with count_jdel [OF assms(2), of x] assms(1,3,4) show ?thesis by (simp add: calls_kept_def split: if_splits)
  qed
  with assms show ?thesis by (auto simp: calls_kept_def)
qed

lemma answer_kept: "calls_kept made s \<Longrightarrow> calls_kept made (on_answer m s)"
proof (cases "is_str (jfield ''streamId'' m) \<and> (\<exists>n. jget (sv_pending s) (str_of (jfield ''streamId'' m)) = Some n)")
  case True
  assume kept: "calls_kept made s"
  from True obtain n where n: "is_str (jfield ''streamId'' m)" "jget (sv_pending s) (str_of (jfield ''streamId'' m)) = Some n" by auto
  show ?thesis by (rule settled_kept [OF kept n(2)]) (auto simp: on_answer_def Let_def n)
qed (auto simp: on_answer_def Let_def split: option.splits)

lemma message_kept: "calls_kept made s \<Longrightarrow> calls_kept made (on_message now c m s)"
  by (auto simp: on_message_def Let_def answer_kept elim!: calls_kept_same [rotated 3])

lemma output_kept: "calls_kept made s \<Longrightarrow> calls_kept made (on_output parse now c chunk s)"
  unfolding on_output_def Let_def
  by (rule fold_invariant [where P = "calls_kept made" and Q = "\<lambda>_. True"])
    (auto simp: message_kept split: option.splits elim!: calls_kept_same [rotated 3])

lemma allow_timer_kept: "calls_kept made s \<Longrightarrow> calls_kept made (allow_timeout i s)"
proof (cases "jget (sv_pending s) i")
  case (Some n)
  assume kept: "calls_kept made s"
  show ?thesis by (rule settled_kept [OF kept Some]) (simp_all add: allow_timeout_def Some)
qed (simp add: allow_timeout_def)

lemma allow_kept:
  "calls_kept made s \<Longrightarrow> calls_kept (\<lambda>m. made m + (if m = n then 1 else 0)) (allow_stream n i r s)"
  by (auto simp: allow_stream_def calls_kept_def count_jset)

lemma reject_kept: "calls_kept made s \<Longrightarrow> calls_kept made (reject_pending (s\<lparr>sv_child := None\<rparr>))"
  by (simp add: calls_kept_def reject_pending_def comp_def)

lemma exit_kept: "calls_kept made s \<Longrightarrow> calls_kept made (on_exit now c how stderr port s)"
proof -
  assume kept: "calls_kept made s"
  note rejected = reject_kept [OF this]
  have started: "calls_kept made (start_supervisor port t)" if "calls_kept made t" for t
    using start_child [of port t] by (rule calls_kept_same [OF _ _ _ that, rotated 2]) simp_all
  have changed: "calls_kept made t" if "sv_settled t = sv_settled (reject_pending (s\<lparr>sv_child := None\<rparr>))"
    "sv_pending t = []" for t
    using rejected that by (simp add: calls_kept_def reject_pending_def)
  show ?thesis
    unfolding on_exit_def Let_def using kept
    by (auto intro!: started changed) (auto simp: reject_pending_def)
qed

lemma step_kept:
  "calls_kept made s \<Longrightarrow> calls_kept (\<lambda>n. made n + (if is_allow n e then 1 else 0)) (supervisor_step parse s e)"
proof (cases e)
  case (Pair now x)
  assume kept: "calls_kept made s"
  show ?thesis
  proof (cases x)
    case (Call_Allow n i r)
    with allow_kept [OF kept, of n i r] Pair show ?thesis by (simp add: is_allow_def eq_commute)
  next
    case (Child_Output c chunk)
    with output_kept [OF kept] Pair show ?thesis by (simp add: is_allow_def)
  next
    case (Child_Exit c how stderr port)
    with exit_kept [OF kept] Pair show ?thesis by (simp add: is_allow_def)
  next
    case (Allow_Timer i)
    with allow_timer_kept [OF kept] Pair show ?thesis by (simp add: is_allow_def)
  next
    case (Call_Start port)
    with calls_kept_same [OF _ _ start_child kept] Pair show ?thesis by (simp add: is_allow_def)
  next
    case (Restart_Goes_On port)
    let ?t = "s\<lparr>sv_exits := sv_exits s + 1, sv_restarts := []\<rparr>"
    have "calls_kept made ?t" using kept by (rule calls_kept_same [rotated 3]) simp_all
    from calls_kept_same [OF _ _ start_child this] Restart_Goes_On Pair show ?thesis by (simp add: is_allow_def end_restart_def)
  qed (use kept Pair in \<open>simp_all add: is_allow_def calls_kept_same [OF _ _ _ kept] stop_supervisor_def stop_timeout_def Let_def\<close>)
qed

lemma run_kept:
  "calls_kept made s \<Longrightarrow> calls_kept (\<lambda>n. made n + length (filter (is_allow n) es)) (run (supervisor_step parse) s es)"
proof (induction es arbitrary: made s)
  case (Cons e es)
  have "(\<lambda>n. made n + (if is_allow n e then 1 else 0) + length (filter (is_allow n) es))
      = (\<lambda>n. made n + length (filter (is_allow n) (e # es)))" by auto
  with Cons.IH [OF step_kept [OF Cons.prems, of e parse]] show ?case by simp
qed simp

text \<open>A restart after an exit is counted; \<^verbatim>\<open>restart\<close> forgets the row.\<close>

definition restart_attempt :: "(string \<Rightarrow> json option) \<Rightarrow> supervisor_event \<Rightarrow> int \<Rightarrow> supervisor \<Rightarrow> effect \<times> supervisor" where
  "restart_attempt parse e now s =
     (let s' = supervisor_step parse s (now, e)
      in ((case e of
             Child_Exit _ _ _ _ \<Rightarrow> if sv_launched s' = sv_launched s then Unchanged else Counted
           | Restart_Goes_On _ \<Rightarrow> Cleared
           | _ \<Rightarrow> Unchanged), s'))"

lemma refused_simps [simp]:
  "sv_refused (write_child m s) = sv_refused s" "sv_refused (settle n r s) = sv_refused s"
  "sv_refused (unavailable reason s) = sv_refused s" "sv_refused (start_supervisor port s) = sv_refused s"
  "sv_refused (start_timeout c s) = sv_refused s" "sv_refused (on_started c m s) = sv_refused s"
  "sv_refused (on_early_exit c e s) = sv_refused s" "sv_refused (emit_event m s) = sv_refused s"
  "sv_refused (summarise now s) = sv_refused s" "sv_refused (revoke_stream i s) = sv_refused s"
  by (simp_all add: write_child_def settle_def unavailable_def start_supervisor_def start_timeout_def on_started_def
      on_early_exit_def emit_event_def summarise_def revoke_stream_def Let_def split: option.split)

lemma message_rest [simp]:
  "sv_restarts (on_message now c m s) = sv_restarts s" "sv_refused (on_message now c m s) = sv_refused s"
  by (auto simp: on_message_def on_answer_def Let_def split: option.splits)

lemma output_rest [simp]:
  "sv_restarts (on_output parse now c chunk s) = sv_restarts s \<and> sv_refused (on_output parse now c chunk s) = sv_refused s"
  unfolding on_output_def Let_def
  by (rule fold_invariant [where P = "\<lambda>t. sv_restarts t = sv_restarts s \<and> sv_refused t = sv_refused s" and Q = "\<lambda>_. True"])
    (auto split: option.splits)

lemma step_refused [simp]: "sv_refused (supervisor_step parse s (now, e)) = sv_refused s"
  by (cases e) (auto simp: on_exit_def reject_pending_def allow_stream_def allow_timeout_def stop_supervisor_def stop_timeout_def
      end_restart_def Let_def split: option.splits)

lemma step_rest: "fst (restart_attempt parse e now s) = Unchanged \<Longrightarrow> (\<nexists>c h e' p. e = Child_Exit c h e' p) \<Longrightarrow>
    sv_restarts (supervisor_step parse s (now, e)) = sv_restarts s"
  by (cases e) (auto simp: restart_attempt_def Let_def allow_stream_def allow_timeout_def stop_supervisor_def stop_timeout_def
      split: option.splits)

lemma exit_cases:
  assumes "sv_refused s = None"
  shows "(sv_launched (on_exit now c how e port s) \<noteq> sv_launched s \<and> length (recent (sv_restarts s) now 60000) < 3
      \<and> sv_restarts (on_exit now c how e port s) = recent (sv_restarts s) now 60000 @ [now])
    \<or> (sv_launched (on_exit now c how e port s) = sv_launched s
      \<and> sv_restarts (on_exit now c how e port s) \<in> {sv_restarts s, recent (sv_restarts s) now 60000})"
  using assms unfolding on_exit_def
  by (simp add: Let_def reject_pending_def RELAY_RESTARTS_windowMs_def RELAY_RESTARTS_limit_def start_supervisor_def)

lemma counted_exit:
  assumes "sv_refused s = None" "restart_attempt parse e now s = (Counted, s')"
  shows "length (recent (sv_restarts s) now 60000) < 3 \<and> sv_restarts s' = recent (sv_restarts s) now 60000 @ [now]"
proof -
  from assms(2) obtain c how e' port where e: "e = Child_Exit c how e' port" and s': "s' = on_exit now c how e' port s"
    and "sv_launched s' \<noteq> sv_launched s"
    by (auto simp: restart_attempt_def Let_def split: supervisor_event.splits if_splits)
  then show ?thesis using exit_cases [OF assms(1), of now c how e' port] by auto
qed

lemma unchanged_rest:
  assumes "sv_refused s = None" "restart_attempt parse e now s = (Unchanged, s')"
  shows "sv_restarts s' \<in> {sv_restarts s, recent (sv_restarts s) now 60000}"
proof (cases "\<exists>c how e' port. e = Child_Exit c how e' port")
  case True
  then obtain c how e' port where e: "e = Child_Exit c how e' port" by auto
  with assms(2) have "s' = on_exit now c how e' port s" "sv_launched s' = sv_launched s"
    by (auto simp: restart_attempt_def Let_def split: if_splits)
  then show ?thesis using exit_cases [OF assms(1), of now c how e' port] by auto
next
  case False
  have "fst (restart_attempt parse e now s) = Unchanged" using assms(2) by simp
  moreover have "s' = supervisor_step parse s (now, e)" using assms(2) by (simp add: restart_attempt_def Let_def)
  ultimately show ?thesis using step_rest [of parse e now s] False by auto
qed

interpretation relay_restarts:
  window_limiter "restart_attempt parse" sv_restarts 3 60000 "\<lambda>s. sv_refused s = None" "\<lambda>_ _. True" "\<lambda>_. start"
proof unfold_locales
  fix s s' :: supervisor and e and now t :: int and eff
  assume inv: "sv_refused s = None"
  show "sv_refused s' = None \<and> start \<le> now" if "start \<le> now" "restart_attempt parse e now s = (eff, s')"
    using that inv by (auto simp: restart_attempt_def Let_def)
  show "length (recent (sv_restarts s) now 60000) < 3" if "restart_attempt parse e now s = (Counted, s')"
    using counted_exit [OF inv that] by simp
  show "recent (sv_restarts s') t 60000 = recent (sv_restarts s @ [now]) t 60000"
    if "restart_attempt parse e now s = (Counted, s')" "now \<le> t"
    using counted_exit [OF inv that(1)] that(2) by (simp add: recent_append recent_recent)
  show "recent (sv_restarts s') t 60000 = recent (sv_restarts s) t 60000"
    if "restart_attempt parse e now s = (Unchanged, s')" "now \<le> t"
    using unchanged_rest [OF inv that(1)] that(2) by (auto simp: recent_recent)
  show "sv_restarts s' = []" if "restart_attempt parse e now s = (Cleared, s')"
    using that by (auto simp: restart_attempt_def Let_def end_restart_def split: supervisor_event.splits if_splits)
qed

section \<open>Properties\<close>

text \<open>
  C19: the relay process is restarted on its own at most three times in any minute, whatever it prints and
  however often it ends, until the owner restarts it.
\<close>

theorem restarts_limited:
  assumes "sorted (map fst es)"
  shows "window_count (counted_log (restart_attempt parse) [] (new_supervisor None) es) t 60000 \<le> 3"
  by (rule relay_restarts.limit_from_start [where start = "fst (hd es)"]) (use assms in \<open>auto simp: new_supervisor_def\<close>)

definition ready_line :: string where "ready_line = ''ready'' @ [CHR 0x0A]"

definition sample_parse :: "string \<Rightarrow> json option" where
  "sample_parse line = (if line = ''ready'' then Some (JObj [(''type'', JStr ''ready''), (''families'', JArr [])]) else None)"

definition sample_exits :: "(int \<times> supervisor_event) list" where
  "sample_exits = (0, Call_Start 7)
     # concat (map (\<lambda>c. [(int c, Child_Output c ready_line), (int c, Child_Exit c [] [] 7)]) [0, 1, 2, 3])"

theorem restarts_limited_witness:
  "counted_log (restart_attempt sample_parse) [] (new_supervisor None) sample_exits = [0, 1, 2]
   \<and> window_count (counted_log (restart_attempt sample_parse) [] (new_supervisor None) sample_exits) 5 60000 \<le> 3"
proof -
  have "sorted (map fst sample_exits)" by (simp add: sample_exits_def)
  moreover have "counted_log (restart_attempt sample_parse) [] (new_supervisor None) sample_exits = [0, 1, 2]"
    unfolding sample_exits_def by code_simp
  ultimately show ?thesis using restarts_limited [of sample_exits sample_parse 5] by simp
qed

text \<open>
  C26: every registration of a stream is answered once. In every sequence of calls, messages, timers and
  exits, each call of \<open>allow\<close> either still waits or has been settled, exactly once, and none waits when the
  relay process has ended.
\<close>

theorem registrations_answered:
  "count_list (map fst (sv_settled (run (supervisor_step parse) (new_supervisor refused) es))) n
     + count_list (jvals (sv_pending (run (supervisor_step parse) (new_supervisor refused) es))) n
     = length (filter (is_allow n) es)
   \<and> (sv_child (run (supervisor_step parse) (new_supervisor refused) es) = None \<longrightarrow>
       sv_pending (run (supervisor_step parse) (new_supervisor refused) es) = [])"
proof -
  have "calls_kept (\<lambda>_. 0) (new_supervisor refused)" by (simp add: calls_kept_def new_supervisor_def)
  from run_kept [OF this, of es parse] show ?thesis by (auto simp: calls_kept_def)
qed

definition sample_calls :: "(int \<times> supervisor_event) list" where
  "sample_calls = [(0, Call_Start 7), (1, Child_Output 0 ready_line), (2, Call_Allow 5 ''s'' []), (3, Call_Stop),
     (4, Child_Exit 0 [] [] 7)]"

theorem registrations_answered_witness:
  "sv_settled (run (supervisor_step sample_parse) (new_supervisor None) sample_calls)
     = [(5, Rejected_With ''The media relay stopped'')]
   \<and> sv_pending (run (supervisor_step sample_parse) (new_supervisor None) sample_calls) = []"
proof -
  have "sv_settled (run (supervisor_step sample_parse) (new_supervisor None) sample_calls)
      = [(5, Rejected_With ''The media relay stopped'')]"
    and "sv_child (run (supervisor_step sample_parse) (new_supervisor None) sample_calls) = None"
    unfolding sample_calls_def run_Cons run_Nil by code_simp+
  with registrations_answered [of sample_parse None sample_calls 5] show ?thesis by simp
qed

end
