(* ===== verification/NetworkConfirmation.thy ===== *)
theory NetworkConfirmation
  imports LocalScope "HOL-Library.List_Lexorder" "HOL-Library.Char_ord"
begin

text \<open>
  \<^verbatim>\<open>apps/server/src/network-confirmation.mjs\<close>: the owner's answer for each network, before the server binds
  to it. A network is known by a digest of its subnets and its router, an argument here. A decision waits in
  a queue, writes the file and only then counts, and the networks may be looked at again meanwhile: calls,
  runs and ends of writes are separate steps. An id in the file that is no string, which the form of ids does
  not rule out, is taken for an error: this class writes strings only.
\<close>

section \<open>The file\<close>

record known_row =
  kr_id :: string
  kr_subnets :: "string list"
  kr_router :: "string option"
  kr_allow :: bool
  kr_decidedAt :: int

definition SCHEMA_VERSION :: int where "SCHEMA_VERSION = 1"
definition MAX_KNOWN_NETWORKS :: nat where "MAX_KNOWN_NETWORKS = 256"

definition network_id :: "string \<Rightarrow> bool" where
  "network_id s \<longleftrightarrow> length s = 16 \<and> list_all (\<lambda>c. is_digit c \<or> 97 \<le> code c \<and> code c \<le> 102) s"

definition bad_networks :: string where "bad_networks = ''Invalid known networks file''"

definition row_valid :: "known_row \<Rightarrow> bool" where
  "row_valid row \<longleftrightarrow> network_id (kr_id row) \<and> kr_subnets row \<noteq> [] \<and> length (kr_subnets row) \<le> 16
     \<and> (\<forall>subnet \<in> set (kr_subnets row). length subnet \<le> 64)
     \<and> (case kr_router row of Some r \<Rightarrow> length r \<le> 17 | None \<Rightarrow> True) \<and> \<bar>kr_decidedAt row\<bar> \<le> MAX_SAFE_INTEGER"

definition rows_valid :: "known_row list \<Rightarrow> bool" where
  "rows_valid rows \<longleftrightarrow> length rows \<le> MAX_KNOWN_NETWORKS \<and> distinct (map kr_id rows) \<and> list_all row_valid rows"

text \<open>A row of the file: an object with the five keys and no other.\<close>

definition subnet_texts :: "json list \<Rightarrow> string list option" where
  "subnet_texts xs = those (map (\<lambda>x. case x of JStr s \<Rightarrow> Some s | _ \<Rightarrow> None) xs)"

definition parse_row :: "json \<Rightarrow> known_row option" where
  "parse_row v =
     (if \<exists>key \<in> set (jkeys (obj_of (Some v))). key \<notin> {''id'', ''subnets'', ''router'', ''allow'', ''decidedAt''} then None
      else (case (jfield ''id'' v, jfield ''subnets'' v, jfield ''router'' v, jfield ''allow'' v, jfield ''decidedAt'' v) of
        (Some (JStr i), Some (JArr subnets), Some router, Some (JBool allow), Some (JInt at)) \<Rightarrow>
          (case (subnet_texts subnets, router) of
             (Some ss, JNull) \<Rightarrow> Some \<lparr>kr_id = i, kr_subnets = ss, kr_router = None, kr_allow = allow, kr_decidedAt = at\<rparr>
           | (Some ss, JStr r) \<Rightarrow> Some \<lparr>kr_id = i, kr_subnets = ss, kr_router = Some r, kr_allow = allow, kr_decidedAt = at\<rparr>
           | _ \<Rightarrow> None)
      | _ \<Rightarrow> None))"

definition validate_networks :: "json \<Rightarrow> known_row list result" where
  "validate_networks v =
     (case v of
        JObj m \<Rightarrow>
          (case (jget m ''schemaVersion'', jget m ''networks'') of
             (Some (JInt version), Some (JArr rows)) \<Rightarrow>
               (case those (map parse_row rows) of
                  Some known \<Rightarrow>
                    if version = SCHEMA_VERSION \<and> rows_valid known \<and> set (jkeys m) \<subseteq> {''schemaVersion'', ''networks''} then Inr known
                    else Inl bad_networks
                | None \<Rightarrow> Inl bad_networks)
           | _ \<Rightarrow> Inl bad_networks)
      | _ \<Rightarrow> Inl bad_networks)"

text \<open>What reading the file gives: it is missing, it cannot be read, it is no JSON, or it holds a value.\<close>

datatype networks_file = Absent | Read_Error string | Not_Json | Holds json

definition read_networks :: "networks_file \<Rightarrow> known_row list result" where
  "read_networks file =
     (case file of
        Absent \<Rightarrow> Inr []
      | Read_Error e \<Rightarrow> Inl e
      | Not_Json \<Rightarrow> Inl bad_networks
      | Holds v \<Rightarrow> validate_networks v)"

definition row_json :: "known_row \<Rightarrow> json" where
  "row_json row = JObj [(''id'', JStr (kr_id row)), (''subnets'', JArr (map JStr (kr_subnets row))),
     (''router'', case kr_router row of Some r \<Rightarrow> JStr r | None \<Rightarrow> JNull), (''allow'', JBool (kr_allow row)),
     (''decidedAt'', JInt (kr_decidedAt row))]"

definition networks_json :: "known_row list \<Rightarrow> json" where
  "networks_json rows = JObj [(''schemaVersion'', JInt SCHEMA_VERSION), (''networks'', JArr (map row_json rows))]"

section \<open>Networks\<close>

record link =
  lk_interface :: "string option"
  lk_kind :: string
  lk_router :: "string option"
  lk_ipv4 :: "string list"
  lk_ipv6 :: "string list"

record seen_network =
  sn_id :: string
  sn_subnets :: "string list"
  sn_router :: "string option"
  sn_interface :: "string option"
  sn_kind :: string

definition link_key :: "lan_adapter \<Rightarrow> string" where
  "link_key row = (case la_interface row of Some i \<Rightarrow> i | None \<Rightarrow> la_address row)"

definition row_subnet :: "lan_adapter \<Rightarrow> string option result" where
  "row_subnet row =
     (case eligibleAdapter row of
        Inl e \<Rightarrow> Inl e
      | Inr False \<Rightarrow> Inr None
      | Inr True \<Rightarrow> subnetOf (la_address row) (la_prefixLength row))"

definition add_link :: "lan_adapter \<Rightarrow> string \<Rightarrow> (string, link) jmap \<Rightarrow> (string, link) jmap" where
  "add_link row subnet links =
     (let entry = (case jget links (link_key row) of
            Some l \<Rightarrow> l
          | None \<Rightarrow> \<lparr>lk_interface = la_interface row, lk_kind = la_kind row, lk_router = la_router row, lk_ipv4 = [], lk_ipv6 = []\<rparr>)
      in jset (link_key row)
           (if CHR '':'' \<in> set subnet then entry\<lparr>lk_ipv6 := add_new subnet (lk_ipv6 entry)\<rparr>
            else entry\<lparr>lk_ipv4 := add_new subnet (lk_ipv4 entry)\<rparr>) links)"

fun links_of :: "lan_adapter list \<Rightarrow> (string, link) jmap \<Rightarrow> (string, link) jmap result" where
  "links_of [] links = Inr links"
| "links_of (row # rows) links =
     (case row_subnet row of
        Inl e \<Rightarrow> Inl e
      | Inr None \<Rightarrow> links_of rows links
      | Inr (Some subnet) \<Rightarrow> links_of rows (if subnet = [] then links else add_link row subnet links))"

text \<open>\<open>digest\<close> is the SHA-256 of a text, in hexadecimal digits.\<close>

definition network_of_link :: "(string \<Rightarrow> string) \<Rightarrow> link \<Rightarrow> seen_network" where
  "network_of_link digest l =
     (let subnets = sort (if lk_ipv4 l \<noteq> [] then lk_ipv4 l else lk_ipv6 l)
      in \<lparr>sn_id = take 16 (digest (join_with '','' subnets @ ''|'' @ (case lk_router l of Some r \<Rightarrow> r | None \<Rightarrow> []))),
          sn_subnets = subnets, sn_router = lk_router l, sn_interface = lk_interface l, sn_kind = lk_kind l\<rparr>)"

definition networksOf :: "(string \<Rightarrow> string) \<Rightarrow> lan_adapter list \<Rightarrow> (string, seen_network) jmap result" where
  "networksOf digest rows =
     (case links_of rows [] of Inl e \<Rightarrow> Inl e | Inr links \<Rightarrow> Inr (jmapv (network_of_link digest) links))"

section \<open>Known networks\<close>

record pending_network =
  pn_network :: seen_network
  pn_firstSeenAt :: int

record known_networks =
  kn_rows :: "known_row list"
  kn_pending :: "(string, pending_network) jmap"
  kn_queue :: "(string \<times> bool option) list"
  kn_writing :: "(string \<times> known_row list) option"

definition open_networks :: "networks_file \<Rightarrow> known_networks result" where
  "open_networks file =
     (case read_networks file of
        Inl e \<Rightarrow> Inl e
      | Inr rows \<Rightarrow> Inr \<lparr>kn_rows = rows, kn_pending = [], kn_queue = [], kn_writing = None\<rparr>)"

definition decisions :: "known_row list \<Rightarrow> (string, bool) jmap" where
  "decisions rows = fold (\<lambda>row m. jset (kr_id row) (kr_allow row) m) rows []"

definition pending_of :: "int \<Rightarrow> known_networks \<Rightarrow> seen_network list \<Rightarrow> (string, pending_network) jmap" where
  "pending_of now s networks =
     fold (\<lambda>n m. if jhas (decisions (kn_rows s)) (sn_id n) then m
            else jset (sn_id n) \<lparr>pn_network = n, pn_firstSeenAt =
                (case jget (kn_pending s) (sn_id n) of Some p \<Rightarrow> pn_firstSeenAt p | None \<Rightarrow> now)\<rparr> m) networks []"

definition mark_row :: "known_row list \<Rightarrow> (string, seen_network) jmap \<Rightarrow> lan_adapter \<Rightarrow> lan_adapter" where
  "mark_row rows networks row =
     (case jget networks (link_key row) of
        Some n \<Rightarrow> if jget (decisions rows) (sn_id n) = Some True then row else row\<lparr>la_profile := Some ''Public''\<rparr>
      | None \<Rightarrow> row\<lparr>la_profile := Some ''Public''\<rparr>)"

definition apply_rows ::
  "(string \<Rightarrow> string) \<Rightarrow> int \<Rightarrow> lan_adapter list \<Rightarrow> known_networks \<Rightarrow> lan_adapter list result \<times> known_networks" where
  "apply_rows digest now rows s =
     (case networksOf digest rows of
        Inl e \<Rightarrow> (Inl e, s)
      | Inr networks \<Rightarrow>
          (Inr (map (mark_row (kn_rows s) networks) rows), s\<lparr>kn_pending := pending_of now s (jvals networks)\<rparr>))"

definition pending_networks :: "known_networks \<Rightarrow> pending_network list" where
  "pending_networks s = jvals (kn_pending s)"

text \<open>A call of \<^verbatim>\<open>decide\<close> waits its turn; \<open>None\<close> is an answer that is not a boolean.\<close>

definition call_decide :: "string \<Rightarrow> bool option \<Rightarrow> known_networks \<Rightarrow> known_networks" where
  "call_decide nid allow s = s\<lparr>kn_queue := kn_queue s @ [(nid, allow)]\<rparr>"

definition find_seen :: "string \<Rightarrow> known_networks \<Rightarrow> (string list \<times> string option) option" where
  "find_seen nid s =
     (case jget (kn_pending s) nid of
        Some p \<Rightarrow> Some (sn_subnets (pn_network p), sn_router (pn_network p))
      | None \<Rightarrow> map_option (\<lambda>row. (kr_subnets row, kr_router row)) (find (\<lambda>row. kr_id row = nid) (kn_rows s)))"

definition next_rows :: "known_row \<Rightarrow> known_row list \<Rightarrow> known_row list" where
  "next_rows row rows =
     (let all = sort_key kr_decidedAt (filter (\<lambda>known. kr_id known \<noteq> kr_id row) rows @ [row])
      in drop (length all - MAX_KNOWN_NETWORKS) all)"

text \<open>The first part of the operation at the head of the queue, up to the write.\<close>

definition begin_decide :: "int \<Rightarrow> known_networks \<Rightarrow> string option \<times> known_networks" where
  "begin_decide now s =
     (case (kn_writing s, kn_queue s) of
        (None, (nid, allow) # rest) \<Rightarrow>
          (let s = s\<lparr>kn_queue := rest\<rparr>
           in if \<not> network_id nid then (Some ''Unknown network'', s)
              else (case allow of
                  None \<Rightarrow> (Some ''Invalid network decision'', s)
                | Some a \<Rightarrow>
                    (case find_seen nid s of
                       None \<Rightarrow> (Some ''Unknown network'', s)
                     | Some (subnets, router) \<Rightarrow>
                         (let rows = next_rows \<lparr>kr_id = nid, kr_subnets = subnets, kr_router = router, kr_allow = a, kr_decidedAt = now\<rparr>
                                (kn_rows s)
                          in if rows_valid rows then (None, s\<lparr>kn_writing := Some (nid, rows)\<rparr>) else (Some bad_networks, s)))))
      | _ \<Rightarrow> (None, s))"

text \<open>The end of the write, which may have failed.\<close>

definition end_decide :: "bool \<Rightarrow> known_networks \<Rightarrow> known_networks" where
  "end_decide written s =
     (case kn_writing s of
        None \<Rightarrow> s
      | Some (nid, rows) \<Rightarrow>
          if written then s\<lparr>kn_writing := None, kn_rows := rows, kn_pending := jdel nid (kn_pending s)\<rparr>
          else s\<lparr>kn_writing := None\<rparr>)"

section \<open>Steps\<close>

datatype known_event =
    Sees int "lan_adapter list"
  | Calls_Decide string "bool option"
  | Begins_Decide int
  | Ends_Write bool

fun known_step :: "(string \<Rightarrow> string) \<Rightarrow> known_networks \<Rightarrow> known_event \<Rightarrow> known_networks" where
  "known_step digest s (Sees now rows) = snd (apply_rows digest now rows s)"
| "known_step digest s (Calls_Decide nid allow) = call_decide nid allow s"
| "known_step digest s (Begins_Decide now) = snd (begin_decide now s)"
| "known_step digest s (Ends_Write written) = end_decide written s"

definition known_ids :: "known_row list \<Rightarrow> string set" where
  "known_ids rows = kr_id ` set rows"

definition known_ok :: "known_networks \<Rightarrow> bool" where
  "known_ok s \<longleftrightarrow> rows_valid (kn_rows s) \<and> fst ` set (kn_pending s) \<inter> known_ids (kn_rows s) = {}
     \<and> (\<forall>nid rows. kn_writing s = Some (nid, rows) \<longrightarrow> rows_valid rows \<and> known_ids rows \<subseteq> insert nid (known_ids (kn_rows s)))"

section \<open>Lemmas\<close>

lemma decisions_fold:
  "jget (fold (\<lambda>row m. jset (kr_id row) (kr_allow row) m) rows m) i = Some a \<Longrightarrow>
     jget m i = Some a \<or> (\<exists>row \<in> set rows. kr_id row = i \<and> kr_allow row = a)"
  by (induction rows arbitrary: m) (fastforce split: if_splits)+

lemma decisions_keys:
  "jget (fold (\<lambda>row m. jset (kr_id row) (kr_allow row) m) rows m) i \<noteq> None \<longleftrightarrow> jget m i \<noteq> None \<or> i \<in> known_ids rows"
  by (induction rows arbitrary: m) (auto simp: known_ids_def)

lemma decisions_has: "jhas (decisions rows) i \<longleftrightarrow> i \<in> known_ids rows"
  using decisions_keys [of rows "[]" i] by (simp add: jhas_def decisions_def)

lemma decisions_row: "jget (decisions rows) i = Some a \<Longrightarrow> \<exists>row \<in> set rows. kr_id row = i \<and> kr_allow row = a"
  using decisions_fold [of rows "[]" i a] by (simp add: decisions_def)

lemma distinct_row: "distinct (map kr_id rows) \<Longrightarrow> r \<in> set rows \<Longrightarrow> r' \<in> set rows \<Longrightarrow> kr_id r = kr_id r' \<Longrightarrow> r = r'"
  by (metis distinct_map inj_onD)

lemma pending_keys:
  "fst ` set (fold (\<lambda>n m. if jhas d (sn_id n) then m else jset (sn_id n) (f n) m) networks m)
     \<subseteq> fst ` set m \<union> {i. \<not> jhas d i}"
proof (induction networks arbitrary: m)
  case (Cons n networks)
  show ?case
  proof (cases "jhas d (sn_id n)")
    case True
    then show ?thesis using Cons.IH [of m] by simp
  next
    case False
    then show ?thesis using Cons.IH [of "jset (sn_id n) (f n) m"] by auto
  qed
qed simp

lemma jdel_keys: "fst ` set (jdel k m) = fst ` set m - {k}"
  by (metis delete_keys list.set_map set_removeAll)

lemma pending_of_keys: "fst ` set (pending_of now s networks) \<inter> known_ids (kn_rows s) = {}"
proof -
  have "fst ` set (pending_of now s networks) \<subseteq> fst ` set ([] :: (string, pending_network) jmap) \<union> {i. \<not> jhas (decisions (kn_rows s)) i}"
    unfolding pending_of_def
    by (rule pending_keys [where f = "\<lambda>n. \<lparr>pn_network = n, pn_firstSeenAt =
      (case jget (kn_pending s) (sn_id n) of Some p \<Rightarrow> pn_firstSeenAt p | None \<Rightarrow> now)\<rparr>"])
  then show ?thesis by (auto simp: decisions_has)
qed

lemma next_rows_ids: "known_ids (next_rows row rows) \<subseteq> insert (kr_id row) (known_ids rows)"
  using set_drop_subset by (fastforce simp: next_rows_def Let_def known_ids_def)

lemma begin_decide_ok: "known_ok s \<Longrightarrow> known_ok (snd (begin_decide now s))"
proof -
  assume ok: "known_ok s"
  have q: "known_ok (s\<lparr>kn_queue := rest\<rparr>)" for rest using ok by (simp add: known_ok_def)
  have w: "known_ok (s\<lparr>kn_queue := rest, kn_writing := Some (nid, next_rows row (kn_rows s))\<rparr>)"
    if "rows_valid (next_rows row (kn_rows s))" "kr_id row = nid" for rest nid row
    using ok that next_rows_ids [of row "kn_rows s"] by (simp add: known_ok_def)
  show ?thesis
    using ok q w by (auto simp: begin_decide_def Let_def split: option.split list.split prod.split)
qed

lemma end_decide_ok: "known_ok s \<Longrightarrow> known_ok (end_decide written s)"
  by (auto simp: end_decide_def known_ok_def jdel_keys split: option.splits)

lemma known_step_ok: "known_ok s \<Longrightarrow> known_ok (known_step digest s e)"
proof (cases e)
  case (Sees now rows)
  assume "known_ok s"
  then show ?thesis using Sees pending_of_keys by (auto simp: apply_rows_def known_ok_def split: sum.split)
next
  case (Begins_Decide now)
  then show "known_ok s \<Longrightarrow> ?thesis" by (simp add: begin_decide_ok)
next
  case (Ends_Write written)
  then show "known_ok s \<Longrightarrow> ?thesis" by (simp add: end_decide_ok)
qed (simp add: known_ok_def call_decide_def)

interpretation known: step_system "known_step digest" known_ok for digest
  by unfold_locales (rule known_step_ok)

lemma those_map_some: "(\<And>x. x \<in> set xs \<Longrightarrow> f x = Some (g x)) \<Longrightarrow> those (map f xs) = Some (map g xs)"
  by (induction xs) auto

lemma parse_row_json: "parse_row (row_json row) = Some row"
  by (cases "kr_router row")
    (simp_all add: parse_row_def row_json_def obj_of_def subnet_texts_def those_map_some comp_def)

lemma validate_written: "rows_valid rows \<Longrightarrow> validate_networks (networks_json rows) = Inr rows"
  by (simp add: validate_networks_def networks_json_def those_map_some parse_row_json comp_def SCHEMA_VERSION_def)

lemma validate_valid: "validate_networks v = Inr rows \<Longrightarrow> rows_valid rows"
  by (auto simp: validate_networks_def split: json.splits option.splits if_splits)

lemma open_ok: "open_networks file = Inr s \<Longrightarrow> known_ok s \<and> kn_writing s = None"
proof -
  have e: "rows_valid []" by (simp add: rows_valid_def MAX_KNOWN_NETWORKS_def)
  show "open_networks file = Inr s \<Longrightarrow> ?thesis"
    using e validate_valid by (auto simp: open_networks_def read_networks_def known_ok_def split: networks_file.splits sum.splits)
qed

lemma eligible_private:
  "eligibleAdapters None out = Inr es \<Longrightarrow> (a, n) \<in> set es \<Longrightarrow>
     \<exists>row \<in> set out. la_address row = a \<and> la_profile row = Some ''Private'' \<and> eligibleAdapter row = Inr True"
proof (induction out arbitrary: es)
  case (Cons row out)
  have p: "profile_of None row = Some ''Private'' \<Longrightarrow> la_profile row = Some ''Private''"
    by (auto simp: profile_of_def split: option.splits)
  show ?case
  proof (cases "profile_of None row \<noteq> Some ''Private'' \<or> eligibleAdapter row \<noteq> Inr True")
    case True
    then have "eligibleAdapters None out = Inr es"
      using Cons.prems(1) by (auto split: if_splits sum.splits bool.splits)
    then show ?thesis using Cons by auto
  next
    case False
    then show ?thesis using Cons p
      by (auto split: if_splits sum.splits bool.splits option.splits)
  qed
qed simp

section \<open>Properties\<close>

text \<open>
  The server never takes for its local network one the owner has not allowed. Whatever was looked at and decided
  before, an address is eligible for the scope, among the rows as they are marked, only if the network of its
  interface is in the list of known networks, and every decision there for that network allows it.
\<close>

theorem only_allowed_networks:
  assumes "open_networks file = Inr s0" "apply_rows digest now rows (run (known_step digest) s0 es) = (Inr out, s')"
    and "eligibleAdapters None out = Inr eligible" "(address, n) \<in> set eligible"
  shows "\<exists>row \<in> set rows. \<exists>networks net. la_address row = address \<and> networksOf digest rows = Inr networks
    \<and> jget networks (link_key row) = Some net
    \<and> (\<exists>k \<in> set (kn_rows (run (known_step digest) s0 es)). kr_id k = sn_id net)
    \<and> (\<forall>k \<in> set (kn_rows (run (known_step digest) s0 es)). kr_id k = sn_id net \<longrightarrow> kr_allow k)"
proof -
  define s where "s = run (known_step digest) s0 es"
  have ok: "known_ok s" using open_ok [OF assms(1)] known.run_inv unfolding s_def by blast
  obtain networks where nets: "networksOf digest rows = Inr networks" "out = map (mark_row (kn_rows s) networks) rows"
    using assms(2) by (auto simp: apply_rows_def s_def split: sum.splits)
  obtain r where r: "r \<in> set out" "la_address r = address" "la_profile r = Some ''Private''"
    using eligible_private [OF assms(3,4)] by blast
  then obtain row where row: "row \<in> set rows" "r = mark_row (kn_rows s) networks row" using nets(2) by auto
  obtain net where net: "jget networks (link_key row) = Some net" "jget (decisions (kn_rows s)) (sn_id net) = Some True" "r = row"
    using row(2) r(3) by (auto simp: mark_row_def split: option.splits if_splits)
  obtain k where k: "k \<in> set (kn_rows s)" "kr_id k = sn_id net" "kr_allow k" using decisions_row [OF net(2)] by auto
  have "distinct (map kr_id (kn_rows s))" using ok by (simp add: known_ok_def rows_valid_def)
  then have "\<forall>k' \<in> set (kn_rows s). kr_id k' = sn_id net \<longrightarrow> kr_allow k'" using k distinct_row by metis
  with k net row r(2) nets(1) show ?thesis unfolding s_def [symmetric] by blast
qed

text \<open>
  The list of known networks stays sound under any interleaving of looks, decisions and writes: at most 256 rows,
  no network twice, none both decided and pending; and every list that is written is read back as it was.
\<close>

theorem known_networks_sound:
  assumes "open_networks file = Inr s0"
  shows "length (kn_rows (run (known_step digest) s0 es)) \<le> 256
    \<and> distinct (map kr_id (kn_rows (run (known_step digest) s0 es)))
    \<and> (\<forall>k \<in> set (kn_rows (run (known_step digest) s0 es)). \<not> jhas (kn_pending (run (known_step digest) s0 es)) (kr_id k))
    \<and> (\<forall>nid rows. kn_writing (run (known_step digest) s0 es) = Some (nid, rows) \<longrightarrow>
         read_networks (Holds (networks_json rows)) = Inr rows)"
proof -
  have ok: "known_ok (run (known_step digest) s0 es)" using open_ok [OF assms] known.run_inv by blast
  then have "\<forall>k \<in> set (kn_rows (run (known_step digest) s0 es)). \<not> jhas (kn_pending (run (known_step digest) s0 es)) (kr_id k)"
    by (auto simp: known_ok_def jhas_iff known_ids_def)
  with ok show ?thesis
    by (simp add: known_ok_def rows_valid_def MAX_KNOWN_NETWORKS_def read_networks_def validate_written)
qed

definition wifi_row :: lan_adapter where
  "wifi_row = \<lparr>la_address = ''192.168.1.10'', la_prefixLength = Whole 24, la_physical = True, la_up = True,
     la_kind = ''wifi'', la_profile = Some ''Private'', la_interfaceIndex = 3, la_interface = Some ''en0'', la_router = Some ''aa:bb''\<rparr>"

text \<open>A digest for the samples: the text itself in hexadecimal-like letters.\<close>

definition toy_digest :: "string \<Rightarrow> string" where
  "toy_digest s = map (\<lambda>c. if is_digit c then c else CHR ''a'') s"

definition allowed_row :: known_row where
  "allowed_row = \<lparr>kr_id = ''192a168a1a0a24aa'', kr_subnets = [''192.168.1.0/24''], kr_router = Some ''aa:bb'', kr_allow = True,
     kr_decidedAt = 6\<rparr>"

definition opened :: known_networks where
  "opened = \<lparr>kn_rows = [allowed_row], kn_pending = [], kn_queue = [], kn_writing = None\<rparr>"

lemma opened_file: "open_networks (Holds (networks_json [allowed_row])) = Inr opened"
proof -
  have "rows_valid [allowed_row]"
    unfolding rows_valid_def allowed_row_def row_valid_def network_id_def MAX_KNOWN_NETWORKS_def MAX_SAFE_INTEGER_def
    by (simp add: is_digit_def code_def)
  then show ?thesis by (simp add: open_networks_def read_networks_def validate_written opened_def)
qed

theorem only_allowed_networks_witness:
  "\<exists>out s'. apply_rows toy_digest 8 [wifi_row] (run (known_step toy_digest) opened []) = (Inr out, s')
     \<and> eligibleAdapters None out \<noteq> Inr []
     \<and> (\<exists>networks net. networksOf toy_digest [wifi_row] = Inr networks \<and> jget networks (link_key wifi_row) = Some net
          \<and> sn_id net = kr_id allowed_row)"
proof -
  have c: "(case apply_rows toy_digest 8 [wifi_row] opened of (Inr out, _) \<Rightarrow> out = [wifi_row] | _ \<Rightarrow> False)"
    by code_simp
  then obtain s' where a: "apply_rows toy_digest 8 [wifi_row] (run (known_step toy_digest) opened []) = (Inr [wifi_row], s')"
    by (auto split: prod.splits sum.splits)
  have "(case eligibleAdapters None [wifi_row] of Inr es \<Rightarrow> map fst es = [''192.168.1.10''] | Inl _ \<Rightarrow> False)" by code_simp
  then obtain n where e: "eligibleAdapters None [wifi_row] = Inr [(''192.168.1.10'', n)]"
    by (auto split: sum.splits)
  have rows: "kn_rows (run (known_step toy_digest) opened []) = [allowed_row]" by (simp add: opened_def)
  have "(''192.168.1.10'', n) \<in> set [(''192.168.1.10'', n)]" by simp
  from only_allowed_networks [OF opened_file a e this] have "\<exists>networks net. networksOf toy_digest [wifi_row] = Inr networks
      \<and> jget networks (link_key wifi_row) = Some net \<and> sn_id net = kr_id allowed_row"
    unfolding rows by (metis empty_iff empty_set set_ConsD)
  with a e show ?thesis by (intro exI [of _ "[wifi_row]"] exI [of _ s']) simp
qed

theorem known_networks_sound_witness:
  "kn_rows (run (known_step toy_digest) opened [Calls_Decide ''x'' None, Begins_Decide 3]) = [allowed_row]
   \<and> distinct (map kr_id (kn_rows (run (known_step toy_digest) opened [Calls_Decide ''x'' None, Begins_Decide 3])))
   \<and> \<not> jhas (kn_pending (run (known_step toy_digest) opened [Calls_Decide ''x'' None, Begins_Decide 3])) (kr_id allowed_row)"
proof -
  have r: "kn_rows (run (known_step toy_digest) opened [Calls_Decide ''x'' None, Begins_Decide 3]) = [allowed_row]"
    by (simp add: opened_def call_decide_def begin_decide_def network_id_def)
  then have "allowed_row \<in> set (kn_rows (run (known_step toy_digest) opened [Calls_Decide ''x'' None, Begins_Decide 3]))"
    by simp
  with r show ?thesis using known_networks_sound [OF opened_file, of toy_digest "[Calls_Decide ''x'' None, Begins_Decide 3]"] by blast
qed

end
