(* ===== verification/Stun.thy ===== *)
theory Stun
  imports JsPrelude "HOL-Library.Code_Target_Nat"
begin

unbundle bit_operations_syntax

text \<open>
  \<^verbatim>\<open>apps/server/src/media-relay/stun.mjs\<close>: the structural check of a STUN message and the check of its
  integrity, on bytes. HMAC-SHA1 is an argument, a function of the key and the message bytes.
\<close>

section \<open>Bytes\<close>

type_synonym bytes = "8 word list"

definition byte_at :: "bytes \<Rightarrow> nat \<Rightarrow> nat" where
  "byte_at b i = unat (b ! i)"

definition readUInt16BE :: "bytes \<Rightarrow> nat \<Rightarrow> nat" where
  "readUInt16BE b i = byte_at b i * 256 + byte_at b (i + 1)"

definition readUInt32BE :: "bytes \<Rightarrow> nat \<Rightarrow> 32 word" where
  "readUInt32BE b i = word_of_nat (readUInt16BE b i * 65536 + readUInt16BE b (i + 2))"

definition subarray :: "bytes \<Rightarrow> nat \<Rightarrow> nat \<Rightarrow> bytes" where
  "subarray b from until = drop from (take until b)"

text \<open>\<^verbatim>\<open>value.toString('latin1')\<close> and \<^verbatim>\<open>Buffer.from(s, 'utf8')\<close> for the ASCII texts the relay holds.\<close>

definition latin1 :: "bytes \<Rightarrow> string" where
  "latin1 b = map (\<lambda>x. char_of (unat x)) b"

definition ascii_bytes :: "string \<Rightarrow> bytes" where
  "ascii_bytes s = map (\<lambda>c. word_of_nat (code c)) s"

section \<open>Constants\<close>

definition MAGIC_COOKIE :: "32 word" where "MAGIC_COOKIE = 0x2112a442"
definition MAX_STUN_BYTES :: nat where "MAX_STUN_BYTES = 1280"
definition bindingRequest :: nat where "bindingRequest = 0x0001"
definition bindingSuccess :: nat where "bindingSuccess = 0x0101"
definition bindingError :: nat where "bindingError = 0x0111"
definition HEADER_BYTES :: nat where "HEADER_BYTES = 20"
definition MAX_ATTRIBUTES :: nat where "MAX_ATTRIBUTES = 32"
definition USERNAME :: nat where "USERNAME = 0x0006"
definition MESSAGE_INTEGRITY :: nat where "MESSAGE_INTEGRITY = 0x0008"
definition MESSAGE_INTEGRITY_SHA256 :: nat where "MESSAGE_INTEGRITY_SHA256 = 0x001c"
definition FINGERPRINT :: nat where "FINGERPRINT = 0x8028"
definition FINGERPRINT_XOR :: "32 word" where "FINGERPRINT_XOR = 0x5354554e"

definition KNOWN_TYPES :: "nat list" where
  "KNOWN_TYPES = [bindingRequest, bindingSuccess, bindingError]"

text \<open>The CRC table, and the checksum over it.\<close>

definition crc_bit :: "32 word \<Rightarrow> 32 word" where
  "crc_bit c = (if c AND 1 = 0 then drop_bit 1 c else 0xedb88320 XOR drop_bit 1 c)"

definition crc_entry :: "nat \<Rightarrow> 32 word" where
  "crc_entry n = (crc_bit ^^ 8) (word_of_nat n)"

definition CRC_TABLE :: "32 word list" where
  "CRC_TABLE = map crc_entry [0..<256]"

definition crc_step :: "32 word \<Rightarrow> 8 word \<Rightarrow> 32 word" where
  "crc_step crc byte = CRC_TABLE ! unat ((crc XOR ucast byte) AND 0xff) XOR drop_bit 8 crc"

definition crc32 :: "bytes \<Rightarrow> 32 word" where
  "crc32 b = foldl crc_step 0xffffffff b XOR 0xffffffff"

section \<open>The structural check\<close>

definition validUsername :: "bytes \<Rightarrow> bool" where
  "validUsername b \<longleftrightarrow> 3 \<le> length b \<and> length b \<le> 512 \<and> list_all (\<lambda>x. 0x21 \<le> x \<and> x \<le> 0x7e) b
     \<and> length (filter (\<lambda>x. x = 0x3a) b) = 1"

record scan =
  sc_username :: "string option"
  sc_integrity :: "nat option"
  sc_fingerprint :: "nat option"
  sc_sha256 :: bool

text \<open>One attribute of the loop, with its value in range; \<open>next\<close> is where the following one starts.\<close>

definition attribute_end :: "bytes \<Rightarrow> nat \<Rightarrow> nat" where
  "attribute_end b offset = offset + 4 + (readUInt16BE b (offset + 2) + 3) div 4 * 4"

definition scan_attribute :: "bytes \<Rightarrow> nat \<Rightarrow> scan \<Rightarrow> scan option" where
  "scan_attribute b offset s =
     (let attr = readUInt16BE b offset; len = readUInt16BE b (offset + 2); val = subarray b (offset + 4) (offset + 4 + len)
      in if sc_fingerprint s \<noteq> None then None
         else if sc_integrity s \<noteq> None \<and> attr \<noteq> FINGERPRINT \<and> attr \<noteq> MESSAGE_INTEGRITY_SHA256 then None
         else if attr = USERNAME
         then (if sc_username s \<noteq> None \<or> \<not> validUsername val then None else Some (s\<lparr>sc_username := Some (latin1 val)\<rparr>))
         else if attr = MESSAGE_INTEGRITY
         then (if sc_integrity s \<noteq> None \<or> len \<noteq> 20 then None else Some (s\<lparr>sc_integrity := Some offset\<rparr>))
         else if attr = MESSAGE_INTEGRITY_SHA256
         then (if sc_integrity s = None \<or> sc_sha256 s \<or> len < 16 \<or> 32 < len \<or> len mod 4 \<noteq> 0 then None
               else Some (s\<lparr>sc_sha256 := True\<rparr>))
         else if attr = FINGERPRINT
         then (if len \<noteq> 4 \<or> attribute_end b offset \<noteq> length b then None else Some (s\<lparr>sc_fingerprint := Some offset\<rparr>))
         else Some s)"

text \<open>The loop: every attribute moves the offset on by at least its header.\<close>

function scan_attributes :: "bytes \<Rightarrow> nat \<Rightarrow> nat \<Rightarrow> scan \<Rightarrow> scan option" where
  "scan_attributes b count offset s =
     (if length b \<le> offset then Some s
      else if MAX_ATTRIBUTES < count + 1 \<or> length b < offset + 4 \<or> length b < attribute_end b offset then None
      else (case scan_attribute b offset s of
              None \<Rightarrow> None
            | Some s' \<Rightarrow> scan_attributes b (count + 1) (attribute_end b offset) s'))"
  by pat_completeness auto
termination by (relation "measure (\<lambda>(b, _, offset, _). length b - offset)") (auto simp: attribute_end_def)

declare scan_attributes.simps [simp del]

record stun =
  st_type :: nat
  st_transactionId :: bytes
  st_username :: "string option"
  st_integrityOffset :: nat
  st_fingerprintOffset :: "nat option"

definition no_attributes :: scan where
  "no_attributes = \<lparr>sc_username = None, sc_integrity = None, sc_fingerprint = None, sc_sha256 = False\<rparr>"

definition fingerprint_matches :: "bytes \<Rightarrow> nat option \<Rightarrow> bool" where
  "fingerprint_matches b fingerprint =
     (case fingerprint of
        None \<Rightarrow> True
      | Some offset \<Rightarrow> readUInt32BE b (offset + 4) = crc32 (take offset b) XOR FINGERPRINT_XOR)"

definition parseStun :: "bytes \<Rightarrow> stun option" where
  "parseStun b =
     (if length b < HEADER_BYTES \<or> MAX_STUN_BYTES < length b then None
      else if 64 \<le> byte_at b 0 then None
      else (let ty = readUInt16BE b 0; len = readUInt16BE b 2
            in if ty \<notin> set KNOWN_TYPES then None
               else if len mod 4 \<noteq> 0 \<or> len \<noteq> length b - HEADER_BYTES then None
               else if readUInt32BE b 4 \<noteq> MAGIC_COOKIE then None
               else (case scan_attributes b 0 HEADER_BYTES no_attributes of
                   None \<Rightarrow> None
                 | Some s \<Rightarrow>
                     (case sc_integrity s of
                        None \<Rightarrow> None
                      | Some integrity \<Rightarrow>
                          if ty = bindingRequest \<and> sc_username s = None then None
                          else if \<not> fingerprint_matches b (sc_fingerprint s) then None
                          else Some \<lparr>st_type = ty, st_transactionId = subarray b 8 20, st_username = sc_username s,
                                 st_integrityOffset = integrity, st_fingerprintOffset = sc_fingerprint s\<rparr>))))"

section \<open>Integrity\<close>

text \<open>\<^verbatim>\<open>header.writeUInt16BE(n, 2)\<close> on the first 20 bytes.\<close>

definition integrity_header :: "bytes \<Rightarrow> nat \<Rightarrow> bytes" where
  "integrity_header b n =
     (take HEADER_BYTES b)[2 := word_of_nat (n div 256), 3 := word_of_nat (n mod 256)]"

definition verifyIntegrity :: "(bytes \<Rightarrow> bytes \<Rightarrow> bytes) \<Rightarrow> bytes \<Rightarrow> stun \<Rightarrow> string \<Rightarrow> bool" where
  "verifyIntegrity hmac b parsed password \<longleftrightarrow>
     password \<noteq> []
     \<and> (let until = st_integrityOffset parsed
        in hmac (ascii_bytes password)
             (integrity_header b (until + 24 - HEADER_BYTES) @ subarray b HEADER_BYTES until)
           = subarray b (until + 4) (until + 24))"

definition receiverUfrag :: "stun \<Rightarrow> string option" where
  "receiverUfrag parsed = map_option (takeWhile (\<lambda>c. c \<noteq> CHR '':'')) (st_username parsed)"

section \<open>What a parsed message is\<close>

definition name_ok :: "string \<Rightarrow> bool" where
  "name_ok u \<longleftrightarrow> length (filter (\<lambda>c. c = CHR '':'') u) = 1"

definition scan_ok :: "bytes \<Rightarrow> scan \<Rightarrow> bool" where
  "scan_ok b s \<longleftrightarrow> (\<forall>i. sc_integrity s = Some i \<longrightarrow> HEADER_BYTES \<le> i \<and> i + 24 \<le> length b)
     \<and> (\<forall>i. sc_fingerprint s = Some i \<longrightarrow> i + 8 \<le> length b) \<and> (\<forall>u. sc_username s = Some u \<longrightarrow> name_ok u)"

lemma latin1_colon: "char_of (unat (x :: 8 word)) = CHR '':'' \<longleftrightarrow> x = 0x3a"
proof -
  have "unat x < 256" using unsigned_less [of x, where 'a = nat] by simp
  then have "code (char_of (unat x)) = unat x" by (simp add: code_char_of)
  moreover have "code (CHR '':'') = 58" by (simp add: code_def)
  ultimately have "char_of (unat x) = CHR '':'' \<longleftrightarrow> unat x = 58" by (metis code_inject)
  moreover have "unat x = 58 \<longleftrightarrow> x = 58"
  proof
    assume "unat x = 58"
    moreover have "x = word_of_nat (unat x)" by simp
    ultimately show "x = 58" by simp
  qed simp
  ultimately show ?thesis by simp
qed

lemma username_ok: "validUsername b \<Longrightarrow> name_ok (latin1 b)"
  by (simp add: validUsername_def name_ok_def latin1_def filter_map comp_def latin1_colon)

lemma scan_attribute_ok:
  assumes "scan_ok b s" "scan_attribute b offset s = Some s'" "HEADER_BYTES \<le> offset" "attribute_end b offset \<le> length b"
  shows "scan_ok b s'"
  using assms
  by (auto simp: scan_attribute_def scan_ok_def Let_def attribute_end_def username_ok split: if_splits)

lemma scan_attributes_ok:
  "scan_attributes b count offset s = Some t \<Longrightarrow> scan_ok b s \<Longrightarrow> HEADER_BYTES \<le> offset \<Longrightarrow> scan_ok b t"
proof (induction b count offset s rule: scan_attributes.induct)
  case (1 b count offset s)
  show ?case
  proof (cases "length b \<le> offset")
    case True
    then show ?thesis using 1(2,3) by (simp add: scan_attributes.simps)
  next
    case False
    obtain s' where s': "scan_attribute b offset s = Some s'" "scan_attributes b (count + 1) (attribute_end b offset) s' = Some t"
      "\<not> (MAX_ATTRIBUTES < count + 1 \<or> length b < offset + 4 \<or> length b < attribute_end b offset)"
      using 1(2) False by (subst (asm) scan_attributes.simps) (auto split: if_splits option.splits)
    have "scan_ok b s'" using scan_attribute_ok [OF 1(3) s'(1) 1(4)] s'(3) by simp
    moreover have "HEADER_BYTES \<le> attribute_end b offset" using 1(4) by (simp add: attribute_end_def)
    ultimately show ?thesis using 1(1) [OF False s'(3) s'(1)] s'(2) by simp
  qed
qed

lemma no_attributes_ok: "scan_ok b no_attributes"
  by (simp add: scan_ok_def no_attributes_def)

lemma one_colon: "name_ok u \<Longrightarrow> \<exists>l r. u = l @ '':'' @ r \<and> CHR '':'' \<notin> set l \<and> CHR '':'' \<notin> set r"
proof -
  assume n: "name_ok u"
  have "CHR '':'' \<in> set u"
  proof (rule ccontr)
    assume "CHR '':'' \<notin> set u"
    then have "filter (\<lambda>c. c = CHR '':'') u = []" by (auto simp: filter_empty_conv)
    with n show False by (simp add: name_ok_def)
  qed
  then obtain l r where u: "u = l @ CHR '':'' # r" "CHR '':'' \<notin> set l" by (meson split_list_first)
  with n have "filter (\<lambda>c. c = CHR '':'') r = []" by (simp add: name_ok_def)
  then have "CHR '':'' \<notin> set r" by (auto simp: filter_empty_conv)
  with u show ?thesis by auto
qed

lemma parse_scan:
  assumes "parseStun b = Some p"
  shows "\<exists>s. scan_ok b s \<and> sc_integrity s = Some (st_integrityOffset p) \<and> sc_username s = st_username p
     \<and> (st_type p = bindingRequest \<longrightarrow> sc_username s \<noteq> None) \<and> length b \<le> MAX_STUN_BYTES \<and> HEADER_BYTES \<le> length b"
proof -
  obtain s where s: "scan_attributes b 0 HEADER_BYTES no_attributes = Some s" "sc_integrity s = Some (st_integrityOffset p)"
    "sc_username s = st_username p" "st_type p = bindingRequest \<longrightarrow> sc_username s \<noteq> None"
    "length b \<le> MAX_STUN_BYTES" "HEADER_BYTES \<le> length b"
    using assms by (auto simp: parseStun_def Let_def split: if_splits option.splits)
  moreover have "scan_ok b s" by (rule scan_attributes_ok [OF s(1) no_attributes_ok order_refl])
  ultimately show ?thesis by blast
qed

text \<open>
  The check of the integrity of a message that has been parsed reads and writes within it: the code it compares is
  twenty bytes long, so the comparison cannot throw, and the length it writes fits the header's field. A request
  has a user name with one colon, whose first half is the receiver's.
\<close>

theorem parsed_in_range:
  "parseStun b = Some p \<Longrightarrow>
     20 \<le> st_integrityOffset p \<and> st_integrityOffset p + 24 \<le> length b \<and> length b \<le> 1280
     \<and> length (subarray b (st_integrityOffset p + 4) (st_integrityOffset p + 24)) = 20
     \<and> st_integrityOffset p + 24 - HEADER_BYTES < 65536
     \<and> (st_type p = bindingRequest \<longrightarrow>
         (\<exists>l r. st_username p = Some (l @ '':'' @ r) \<and> receiverUfrag p = Some l \<and> CHR '':'' \<notin> set r))"
proof -
  assume p: "parseStun b = Some p"
  obtain s where s: "scan_ok b s" "sc_integrity s = Some (st_integrityOffset p)" "sc_username s = st_username p"
    "st_type p = bindingRequest \<longrightarrow> sc_username s \<noteq> None" "length b \<le> MAX_STUN_BYTES" "HEADER_BYTES \<le> length b"
    using parse_scan [OF p] by blast
  then have r: "20 \<le> st_integrityOffset p" "st_integrityOffset p + 24 \<le> length b" "length b \<le> 1280"
    by (simp_all add: scan_ok_def HEADER_BYTES_def MAX_STUN_BYTES_def)
  have "\<exists>l r. st_username p = Some (l @ '':'' @ r) \<and> receiverUfrag p = Some l \<and> CHR '':'' \<notin> set r" if "st_type p = bindingRequest"
  proof -
    note request = that
    obtain u where u: "st_username p = Some u" using request s(3,4) by auto
    with s(1,3) have n: "name_ok u" by (simp add: scan_ok_def)
    obtain l r where lr: "u = l @ '':'' @ r" "CHR '':'' \<notin> set l" "CHR '':'' \<notin> set r" using one_colon [OF n] by blast
    have "takeWhile (\<lambda>c. c \<noteq> CHR '':'') (l @ '':'' @ r) = l" using lr(2) by (subst takeWhile_append2) auto
    with u lr show ?thesis by (auto simp: receiverUfrag_def)
  qed
  with r show ?thesis by (simp add: subarray_def HEADER_BYTES_def)
qed

definition plain_request :: bytes where
  "plain_request = [0, 1, 0, 40, 0x21, 0x12, 0xa4, 0x42, 1, 2, 3, 4, 5, 6, 7, 8, 9, 10, 11, 12,
     0, 6, 0, 9, 0x61, 0x62, 0x63, 0x64, 0x3a, 0x65, 0x66, 0x67, 0x68, 0, 0, 0, 0, 8, 0, 20] @ replicate 20 0"

theorem parsed_in_range_witness:
  "\<exists>p. parseStun plain_request = Some p \<and> st_integrityOffset p + 24 \<le> length plain_request"
proof -
  have "map_option st_type (parseStun plain_request) = Some 1" by code_simp
  then obtain p where "parseStun plain_request = Some p" by auto
  with parsed_in_range [OF this] show ?thesis by blast
qed

end
