(* ===== verification/MediaRelay.thy ===== *)
theory MediaRelay
  imports Stun Json PeerNetwork SdpCandidates "HOL-Library.Code_Target_Nat"
begin

text \<open>
  \<^verbatim>\<open>apps/server/src/media-relay/relay.mjs\<close>: the relay between the clients of the public media port and the
  workers' sockets on the loopback interface. Sockets are known by numbers; what is sent and reported is a
  log. An address and port that has authenticated is a pin, with a socket of its own that queues datagrams
  until it is bound; a closed socket delivers nothing. A call's clock readings are one argument.
\<close>

section \<open>Registrations\<close>

record relay_limits =
  rl_registrations :: nat
  rl_perUfrag :: nat
  rl_pinsPerRegistration :: nat
  rl_hintLanePerSecond :: nat
  rl_strangerPerSource :: nat
  rl_strangerTotal :: nat
  rl_pinIdleMs :: int
  rl_queuedPerPin :: nat

definition RELAY_LIMITS :: relay_limits where
  "RELAY_LIMITS = \<lparr>rl_registrations = 64, rl_perUfrag = 4, rl_pinsPerRegistration = 4, rl_hintLanePerSecond = 200,
     rl_strangerPerSource = 50, rl_strangerTotal = 5000, rl_pinIdleMs = 30000, rl_queuedPerPin = 16\<rparr>"

definition maxExpiresMs :: int where "maxExpiresMs = 15000"

text \<open>The keys of a registration as the \<^verbatim>\<open>allow\<close> command carries them.\<close>

record allowed =
  al_streamId :: string
  al_ufrag :: string
  al_pwd :: string
  al_clientUfrag :: string
  al_clientPwd :: string
  al_workerPort :: int
  al_clientHint :: "string option"
  al_expiresMs :: int

definition stream_id_text :: "string \<Rightarrow> bool" where
  "stream_id_text s \<longleftrightarrow> 1 \<le> length s \<and> length s \<le> 64 \<and> list_all (\<lambda>c. is_alnum c \<or> c = CHR ''-'') s"

definition iceString :: "json option \<Rightarrow> nat \<Rightarrow> bool" where
  "iceString v least \<longleftrightarrow>
     (case v of Some (JStr s) \<Rightarrow> least \<le> length s \<and> length s \<le> 256 \<and> ice_text s | _ \<Rightarrow> False)"

definition hint_of :: "json option \<Rightarrow> string option option" where
  "hint_of v =
     (case v of
        None \<Rightarrow> Some None
      | Some JNull \<Rightarrow> Some None
      | Some (JStr s) \<Rightarrow> if isIP (plainAddress (Some s)) \<noteq> 0 then Some (Some s) else None
      | _ \<Rightarrow> None)"

definition whole_in :: "int \<Rightarrow> int \<Rightarrow> json option \<Rightarrow> bool" where
  "whole_in lo hi v \<longleftrightarrow> (case v of Some (JInt n) \<Rightarrow> lo \<le> n \<and> n \<le> hi | _ \<Rightarrow> False)"

definition validateAllow :: "json \<Rightarrow> allowed result" where
  "validateAllow message =
     (let f = (\<lambda>key. jfield key message)
      in if \<not> is_str (f ''streamId'') \<or> \<not> stream_id_text (str_of (f ''streamId'')) \<or> \<not> iceString (f ''ufrag'') 4
            \<or> \<not> iceString (f ''clientUfrag'') 4 \<or> \<not> iceString (f ''pwd'') 22 \<or> \<not> iceString (f ''clientPwd'') 22
            \<or> \<not> whole_in 1024 65535 (f ''workerPort'') \<or> hint_of (f ''clientHint'') = None
            \<or> \<not> whole_in 1 maxExpiresMs (f ''expiresMs'')
         then Inl ''Invalid relay registration''
         else Inr \<lparr>al_streamId = str_of (f ''streamId''), al_ufrag = str_of (f ''ufrag''), al_pwd = str_of (f ''pwd''),
                al_clientUfrag = str_of (f ''clientUfrag''), al_clientPwd = str_of (f ''clientPwd''),
                al_workerPort = int_of (f ''workerPort''), al_clientHint = the (hint_of (f ''clientHint'')),
                al_expiresMs = int_of (f ''expiresMs'')\<rparr>)"

definition tupleText :: "string \<Rightarrow> int \<Rightarrow> string" where
  "tupleText plain port =
     (if isIP plain = 6 then ''['' @ plain @ '']:'' @ dec port else plain @ '':'' @ dec port)"

datatype datagram_class = Stun_Class | Dtls_Class | Rtp_Class

definition datagramClass :: "nat \<Rightarrow> datagram_class option" where
  "datagramClass byte =
     (if byte \<le> 3 then Some Stun_Class
      else if 20 \<le> byte \<and> byte \<le> 63 then Some Dtls_Class
      else if 128 \<le> byte \<and> byte \<le> 191 then Some Rtp_Class else None)"

section \<open>The state\<close>

record registration =
  rg_allowed :: allowed
  rg_hintGroup :: "string option"
  rg_hintFamily :: nat
  rg_expiresAt :: int
  rg_pinnedOnce :: bool
  rg_mismatchReported :: bool
  rg_pins :: "string list"

record pin =
  pn_sendAddress :: string
  pn_port :: int
  pn_streamId :: string
  pn_lastSeen :: int
  pn_ready :: bool
  pn_waiting :: "bytes list"
  pn_socket :: nat

record rate_window =
  rw_start :: "int option"
  rw_total :: nat
  rw_perSource :: "(string, nat) jmap"
  rw_perRegistration :: "(string, nat) jmap"

datatype drop_reason = Budget | Malformed | Unknown_Ufrag | Bad_Integrity | Username | Class | Cross_Registration | Pins | Loopback_Source

datatype relay_output =
    Expired string
  | Address_Differs string string
  | Pinned string string "bool option"
  | Unpinned string string string
  | To_Worker nat int bytes
  | To_Client string int bytes
  | Dropped drop_reason

record relay =
  ry_limits :: relay_limits
  ry_public :: bool
  ry_registrations :: "(string, registration) jmap"
  ry_byUfrag :: "(string, string list) jmap"
  ry_byHint :: "(string, string list) jmap"
  ry_pins :: "(string, pin) jmap"
  ry_window :: rate_window
  ry_sockets :: nat
  ry_addressDiffers :: nat
  ry_log :: "relay_output list"

definition new_relay :: "relay_limits \<Rightarrow> relay" where
  "new_relay limits = \<lparr>ry_limits = limits, ry_public = False, ry_registrations = [], ry_byUfrag = [], ry_byHint = [], ry_pins = [],
     ry_window = \<lparr>rw_start = None, rw_total = 0, rw_perSource = [], rw_perRegistration = []\<rparr>, ry_sockets = 0,
     ry_addressDiffers = 0, ry_log = []\<rparr>"

definition emit :: "relay_output \<Rightarrow> relay \<Rightarrow> relay" where
  "emit e s = s\<lparr>ry_log := ry_log s @ [e]\<rparr>"

definition drop_datagram :: "drop_reason \<Rightarrow> relay \<Rightarrow> relay" where
  "drop_datagram reason s = emit (Dropped reason) s"

text \<open>The counters of \<^verbatim>\<open>metrics\<close>, read off the log.\<close>

definition dropped_count :: "drop_reason \<Rightarrow> relay \<Rightarrow> nat" where
  "dropped_count reason s = length (filter (\<lambda>e. e = Dropped reason) (ry_log s))"

definition to_worker_counts :: "relay \<Rightarrow> nat \<times> nat" where
  "to_worker_counts s =
     (let ms = concat (map (\<lambda>e. case e of To_Worker _ _ m \<Rightarrow> [m] | _ \<Rightarrow> []) (ry_log s)) in (length ms, sum_list (map length ms)))"

definition index_add :: "string \<Rightarrow> string \<Rightarrow> (string, string list) jmap \<Rightarrow> (string, string list) jmap" where
  "index_add key v m = jset key (add_new v (case jget m key of Some vs \<Rightarrow> vs | None \<Rightarrow> [])) m"

definition index_del :: "string \<Rightarrow> string \<Rightarrow> (string, string list) jmap \<Rightarrow> (string, string list) jmap" where
  "index_del key v m =
     (case jget m key of
        None \<Rightarrow> m
      | Some vs \<Rightarrow> if removeAll v vs = [] then jdel key m else jset key (removeAll v vs) m)"

section \<open>Starting\<close>

text \<open>\<open>bind6\<close> and \<open>bind4\<close> are the outcomes of the two binds, with the code of an error.\<close>

definition start_relay :: "jsvalue \<Rightarrow> string + unit \<Rightarrow> string + unit \<Rightarrow> relay \<Rightarrow> string list result \<times> relay" where
  "start_relay port bind6 bind4 s =
     (if \<not> whole_between 1024 65535 port then (Inl ''Invalid port'', s)
      else (case bind6 of
          Inr _ \<Rightarrow> (Inr [''ipv6'', ''ipv4''], s\<lparr>ry_public := True\<rparr>)
        | Inl code6 \<Rightarrow>
            if code6 = ''EADDRINUSE'' then (Inl code6, s)
            else (case bind4 of
                Inr _ \<Rightarrow> (Inr [''ipv4''], s\<lparr>ry_public := True\<rparr>)
              | Inl code4 \<Rightarrow> (Inl code4, s))))"

section \<open>Registering and revoking\<close>

definition allow_relay :: "int \<Rightarrow> json \<Rightarrow> relay \<Rightarrow> string result \<times> relay" where
  "allow_relay now message s =
     (case validateAllow message of
        Inl e \<Rightarrow> (Inl e, s)
      | Inr a \<Rightarrow>
          if jhas (ry_registrations s) (al_streamId a) then (Inl ''Duplicate relay registration'', s)
          else if rl_registrations (ry_limits s) \<le> length (ry_registrations s) then (Inl ''Relay registration limit reached'', s)
          else if (case jget (ry_byUfrag s) (al_ufrag a) of Some sharing \<Rightarrow> rl_perUfrag (ry_limits s) \<le> length sharing | None \<Rightarrow> False)
          then (Inl ''Too many registrations share this ufrag'', s)
          else (let hint = map_option (\<lambda>h. plainAddress (Some h)) (al_clientHint a);
                    r = \<lparr>rg_allowed = a, rg_hintGroup = map_option (\<lambda>h. sourceGroup (Some h)) hint,
                      rg_hintFamily = (case hint of Some h \<Rightarrow> isIP h | None \<Rightarrow> 0), rg_expiresAt = now + al_expiresMs a,
                      rg_pinnedOnce = False, rg_mismatchReported = False, rg_pins = []\<rparr>
                in (Inr (al_streamId a),
                    s\<lparr>ry_registrations := jset (al_streamId a) r (ry_registrations s),
                      ry_byUfrag := index_add (al_ufrag a) (al_streamId a) (ry_byUfrag s),
                      ry_byHint := (case rg_hintGroup r of
                          Some g \<Rightarrow> if g = [] then ry_byHint s else index_add g (al_streamId a) (ry_byHint s)
                        | None \<Rightarrow> ry_byHint s)\<rparr>)))"

definition update_registration :: "string \<Rightarrow> (registration \<Rightarrow> registration) \<Rightarrow> relay \<Rightarrow> relay" where
  "update_registration streamId f s =
     (case jget (ry_registrations s) streamId of
        None \<Rightarrow> s
      | Some r \<Rightarrow> s\<lparr>ry_registrations := jset streamId (f r) (ry_registrations s)\<rparr>)"

definition unpin :: "string \<Rightarrow> string \<Rightarrow> relay \<Rightarrow> relay" where
  "unpin reason key s =
     (case jget (ry_pins s) key of
        None \<Rightarrow> s
      | Some p \<Rightarrow>
          emit (Unpinned (pn_streamId p) (tupleText (takeWhile (\<lambda>c. c \<noteq> CHR ''|'') key) (pn_port p)) reason)
            (update_registration (pn_streamId p) (\<lambda>r. r\<lparr>rg_pins := removeAll key (rg_pins r)\<rparr>)
              (s\<lparr>ry_pins := jdel key (ry_pins s)\<rparr>)))"

definition forget_registration :: "string \<Rightarrow> registration \<Rightarrow> relay \<Rightarrow> relay" where
  "forget_registration streamId r s =
     s\<lparr>ry_registrations := jdel streamId (ry_registrations s),
       ry_byUfrag := index_del (al_ufrag (rg_allowed r)) streamId (ry_byUfrag s),
       ry_byHint := (case rg_hintGroup r of
           Some g \<Rightarrow> if g = [] then ry_byHint s else index_del g streamId (ry_byHint s)
         | None \<Rightarrow> ry_byHint s),
       ry_window := (ry_window s)\<lparr>rw_perRegistration := jdel streamId (rw_perRegistration (ry_window s))\<rparr>\<rparr>"

definition revoke_relay :: "string \<Rightarrow> relay \<Rightarrow> bool \<times> relay" where
  "revoke_relay streamId s =
     (case jget (ry_registrations s) streamId of
        None \<Rightarrow> (False, s)
      | Some r \<Rightarrow> (True, forget_registration streamId r (fold (unpin ''revoked'') (rg_pins r) s)))"

definition sweep_registrations :: "int \<Rightarrow> relay \<Rightarrow> relay" where
  "sweep_registrations now s =
     fold (\<lambda>(streamId, r) s. if \<not> rg_pinnedOnce r \<and> rg_expiresAt r \<le> now
            then emit (Expired streamId) (snd (revoke_relay streamId s)) else s) (ry_registrations s) s"

definition sweep_pins :: "int \<Rightarrow> relay \<Rightarrow> relay" where
  "sweep_pins now s =
     fold (\<lambda>(key, p) s. if rl_pinIdleMs (ry_limits s) \<le> now - pn_lastSeen p then unpin ''idle'' key s else s) (ry_pins s) s"

definition sweep_relay :: "int \<Rightarrow> relay \<Rightarrow> relay" where
  "sweep_relay now s = sweep_pins now (sweep_registrations now s)"

definition close_relay :: "relay \<Rightarrow> relay" where
  "close_relay s = (fold (\<lambda>streamId s. snd (revoke_relay streamId s)) (jkeys (ry_registrations s)) s)\<lparr>ry_public := False\<rparr>"

section \<open>Datagrams\<close>

text \<open>Two lanes: senders whose address matches a registration's hint, and everyone else.\<close>

definition fresh_window :: "int \<Rightarrow> rate_window \<Rightarrow> rate_window" where
  "fresh_window now w =
     (if (case rw_start w of Some t \<Rightarrow> 1000 \<le> now - t | None \<Rightarrow> True)
      then \<lparr>rw_start = Some now, rw_total = 0, rw_perSource = [], rw_perRegistration = []\<rparr> else w)"

definition count_in :: "string \<Rightarrow> (string, nat) jmap \<Rightarrow> nat" where
  "count_in key m = (case jget m key of Some n \<Rightarrow> n | None \<Rightarrow> 0)"

definition take_budget :: "relay_limits \<Rightarrow> string list option \<Rightarrow> string \<Rightarrow> rate_window \<Rightarrow> bool \<times> rate_window" where
  "take_budget limits hinted grp w =
     (case find (\<lambda>streamId. count_in streamId (rw_perRegistration w) < rl_hintLanePerSecond limits)
             (case hinted of Some ids \<Rightarrow> ids | None \<Rightarrow> []) of
        Some streamId \<Rightarrow>
          (True, w\<lparr>rw_perRegistration := jset streamId (count_in streamId (rw_perRegistration w) + 1) (rw_perRegistration w)\<rparr>)
      | None \<Rightarrow>
          if rl_strangerTotal limits \<le> rw_total w then (False, w)
          else if rl_strangerPerSource limits \<le> count_in grp (rw_perSource w) then (False, w)
          else (True, w\<lparr>rw_perSource := jset grp (count_in grp (rw_perSource w) + 1) (rw_perSource w),
                   rw_total := rw_total w + 1\<rparr>))"

definition budget_relay :: "int \<Rightarrow> string \<Rightarrow> relay \<Rightarrow> bool \<times> relay" where
  "budget_relay now plain s =
     (let grp = sourceGroup (Some plain);
          (ok, w) = take_budget (ry_limits s) (jget (ry_byHint s) grp) grp (fresh_window now (ry_window s))
      in (ok, s\<lparr>ry_window := w\<rparr>))"

definition update_pin :: "string \<Rightarrow> (pin \<Rightarrow> pin) \<Rightarrow> relay \<Rightarrow> relay" where
  "update_pin key f s =
     (case jget (ry_pins s) key of None \<Rightarrow> s | Some p \<Rightarrow> s\<lparr>ry_pins := jset key (f p) (ry_pins s)\<rparr>)"

definition worker_port :: "relay \<Rightarrow> pin \<Rightarrow> int" where
  "worker_port s p =
     (case jget (ry_registrations s) (pn_streamId p) of Some r \<Rightarrow> al_workerPort (rg_allowed r) | None \<Rightarrow> 0)"

definition to_worker :: "int \<Rightarrow> string \<Rightarrow> bytes \<Rightarrow> relay \<Rightarrow> relay" where
  "to_worker now key message s =
     (let s = update_pin key (\<lambda>p. p\<lparr>pn_lastSeen := now\<rparr>) s
      in case jget (ry_pins s) key of
           None \<Rightarrow> s
         | Some p \<Rightarrow>
             if \<not> pn_ready p
             then (if length (pn_waiting p) < rl_queuedPerPin (ry_limits s)
                   then update_pin key (\<lambda>p. p\<lparr>pn_waiting := pn_waiting p @ [message]\<rparr>) s else s)
             else emit (To_Worker (pn_socket p) (worker_port s p) message) s)"

definition expected_username :: "allowed \<Rightarrow> string" where
  "expected_username a = al_ufrag a @ '':'' @ al_clientUfrag a"

definition from_pinned :: "(bytes \<Rightarrow> bytes \<Rightarrow> bytes) \<Rightarrow> int \<Rightarrow> string \<Rightarrow> registration \<Rightarrow> bytes \<Rightarrow> relay \<Rightarrow> relay" where
  "from_pinned hmac now key r message s =
     (let a = rg_allowed r
      in case (if message = [] then None else datagramClass (byte_at message 0)) of
           None \<Rightarrow> drop_datagram Class s
         | Some Stun_Class \<Rightarrow>
             (case parseStun message of
                None \<Rightarrow> drop_datagram Malformed s
              | Some parsed \<Rightarrow>
                  if st_type parsed = bindingRequest
                  then (if st_username parsed \<noteq> Some (expected_username a)
                        then drop_datagram (if (case receiverUfrag parsed of Some u \<Rightarrow> jhas (ry_byUfrag s) u | None \<Rightarrow> False)
                               then Cross_Registration else Unknown_Ufrag) s
                        else if \<not> verifyIntegrity hmac message parsed (al_pwd a) then drop_datagram Bad_Integrity s
                        else to_worker now key message s)
                  else if \<not> verifyIntegrity hmac message parsed (al_clientPwd a) then drop_datagram Bad_Integrity s
                  else to_worker now key message s)
         | Some _ \<Rightarrow> to_worker now key message s)"

definition add_pin :: "int \<Rightarrow> string \<Rightarrow> string \<Rightarrow> string \<Rightarrow> int \<Rightarrow> relay \<Rightarrow> relay" where
  "add_pin now streamId key address port s =
     update_registration streamId (\<lambda>r. r\<lparr>rg_pins := add_new key (rg_pins r)\<rparr>)
       (s\<lparr>ry_pins := jset key \<lparr>pn_sendAddress = address, pn_port = port, pn_streamId = streamId, pn_lastSeen = now,
            pn_ready = False, pn_waiting = [], pn_socket = ry_sockets s\<rparr> (ry_pins s),
          ry_sockets := ry_sockets s + 1\<rparr>)"

definition report_mismatch :: "string \<Rightarrow> registration \<Rightarrow> string \<Rightarrow> relay \<Rightarrow> relay" where
  "report_mismatch streamId r tuple s =
     (let s = s\<lparr>ry_addressDiffers := ry_addressDiffers s + 1\<rparr>
      in if rg_mismatchReported r then s
         else emit (Address_Differs streamId tuple) (update_registration streamId (\<lambda>r. r\<lparr>rg_mismatchReported := True\<rparr>) s))"

definition hint_match :: "registration \<Rightarrow> string \<Rightarrow> bool option" where
  "hint_match r plain =
     (case rg_hintGroup r of
        Some g \<Rightarrow> if g \<noteq> [] \<and> rg_hintFamily r = isIP plain then Some (sourceGroup (Some plain) = g) else None
      | None \<Rightarrow> None)"

definition accept_pin :: "int \<Rightarrow> string \<Rightarrow> registration \<Rightarrow> string \<Rightarrow> string \<Rightarrow> string \<Rightarrow> int \<Rightarrow> bytes \<Rightarrow> relay \<Rightarrow> relay" where
  "accept_pin now streamId r plain key address port message s =
     (let tuple = tupleText plain port; matched = hint_match r plain;
          s = (if matched = Some False then report_mismatch streamId r tuple s else s);
          s = update_registration streamId (\<lambda>r. r\<lparr>rg_pinnedOnce := True\<rparr>) (add_pin now streamId key address port s)
      in to_worker now key message (emit (Pinned streamId tuple matched) s))"

text \<open>The registration whose password a message was made with.\<close>

definition verified_by :: "(bytes \<Rightarrow> bytes \<Rightarrow> bytes) \<Rightarrow> bytes \<Rightarrow> stun \<Rightarrow> relay \<Rightarrow> string \<Rightarrow> bool" where
  "verified_by hmac message parsed s streamId \<longleftrightarrow>
     (case jget (ry_registrations s) streamId of
        Some r \<Rightarrow> verifyIntegrity hmac message parsed (al_pwd (rg_allowed r))
      | None \<Rightarrow> False)"

definition pin_key :: "string \<Rightarrow> int \<Rightarrow> string" where
  "pin_key plain port = plain @ ''|'' @ dec port"

definition from_stranger :: "(bytes \<Rightarrow> bytes \<Rightarrow> bytes) \<Rightarrow> int \<Rightarrow> string \<Rightarrow> string \<Rightarrow> int \<Rightarrow> bytes \<Rightarrow> relay \<Rightarrow> relay" where
  "from_stranger hmac now plain address port message s =
     (case budget_relay now plain s of
        (False, s) \<Rightarrow> drop_datagram Budget s
      | (True, s) \<Rightarrow>
          (case parseStun message of
             None \<Rightarrow> drop_datagram Malformed s
           | Some parsed \<Rightarrow>
               if st_type parsed \<noteq> bindingRequest then drop_datagram Malformed s
               else (case (case receiverUfrag parsed of Some u \<Rightarrow> jget (ry_byUfrag s) u | None \<Rightarrow> None) of
                   None \<Rightarrow> drop_datagram Unknown_Ufrag s
                 | Some candidates \<Rightarrow>
                     (case find (verified_by hmac message parsed s) candidates of
                        None \<Rightarrow> drop_datagram Bad_Integrity s
                      | Some streamId \<Rightarrow>
                          (case jget (ry_registrations s) streamId of
                             None \<Rightarrow> s
                           | Some r \<Rightarrow>
                               if st_username parsed \<noteq> Some (expected_username (rg_allowed r)) then drop_datagram Username s
                               else if rl_pinsPerRegistration (ry_limits s) \<le> length (rg_pins r) then drop_datagram Pins s
                               else accept_pin now streamId r plain (pin_key plain port) address port message s)))))"

definition receive_relay :: "(bytes \<Rightarrow> bytes \<Rightarrow> bytes) \<Rightarrow> int \<Rightarrow> string \<Rightarrow> int \<Rightarrow> bytes \<Rightarrow> relay \<Rightarrow> relay" where
  "receive_relay hmac now address port message s =
     (let plain = plainAddress (Some address); key = pin_key plain port
      in case jget (ry_pins s) key of
           Some p \<Rightarrow>
             (case jget (ry_registrations s) (pn_streamId p) of
                Some r \<Rightarrow> from_pinned hmac now key r message s
              | None \<Rightarrow> s)
         | None \<Rightarrow> from_stranger hmac now plain address port message s)"

text \<open>A pin's socket has been bound, or has received a datagram.\<close>

definition key_of_socket :: "nat \<Rightarrow> relay \<Rightarrow> string option" where
  "key_of_socket sock s = map_option fst (find (\<lambda>(key, p). pn_socket p = sock) (ry_pins s))"

definition socket_bound :: "int \<Rightarrow> nat \<Rightarrow> relay \<Rightarrow> relay" where
  "socket_bound now sock s =
     (case key_of_socket sock s of
        None \<Rightarrow> s
      | Some key \<Rightarrow>
          (case jget (ry_pins s) key of
             None \<Rightarrow> s
           | Some p \<Rightarrow> fold (to_worker now key) (pn_waiting p)
               (update_pin key (\<lambda>p. p\<lparr>pn_ready := True, pn_waiting := []\<rparr>) s)))"

definition from_worker :: "int \<Rightarrow> nat \<Rightarrow> string \<Rightarrow> int \<Rightarrow> bytes \<Rightarrow> relay \<Rightarrow> relay" where
  "from_worker now sock address port message s =
     (case key_of_socket sock s of
        None \<Rightarrow> s
      | Some key \<Rightarrow>
          (case jget (ry_pins s) key of
             None \<Rightarrow> s
           | Some p \<Rightarrow>
               if plainAddress (Some address) \<noteq> ''127.0.0.1'' \<or> port \<noteq> worker_port s p then drop_datagram Loopback_Source s
               else (let s = update_pin key (\<lambda>p. p\<lparr>pn_lastSeen := now\<rparr>) s
                     in if ry_public s then emit (To_Client (pn_sendAddress p) (pn_port p) message) s else s)))"

section \<open>Events\<close>

datatype relay_event =
    Allows int json
  | Revokes string
  | Sweeps int
  | Receives int string int bytes
  | Binds int nat
  | Worker_Sends int nat string int bytes
  | Closes_Relay

fun relay_step :: "(bytes \<Rightarrow> bytes \<Rightarrow> bytes) \<Rightarrow> relay \<Rightarrow> relay_event \<Rightarrow> relay" where
  "relay_step hmac s (Allows now message) = snd (allow_relay now message s)"
| "relay_step hmac s (Revokes streamId) = snd (revoke_relay streamId s)"
| "relay_step hmac s (Sweeps now) = sweep_relay now s"
| "relay_step hmac s (Receives now address port message) = receive_relay hmac now address port message s"
| "relay_step hmac s (Binds now sock) = socket_bound now sock s"
| "relay_step hmac s (Worker_Sends now sock address port message) = from_worker now sock address port message s"
| "relay_step hmac s Closes_Relay = close_relay s"

section \<open>What has come in\<close>

definition authentic :: "(bytes \<Rightarrow> bytes \<Rightarrow> bytes) \<Rightarrow> allowed \<Rightarrow> bytes \<Rightarrow> bool" where
  "authentic hmac a message \<longleftrightarrow>
     (\<exists>parsed. parseStun message = Some parsed \<and> st_type parsed = bindingRequest
        \<and> st_username parsed = Some (expected_username a) \<and> verifyIntegrity hmac message parsed (al_pwd a))"

definition came :: "relay_event list \<Rightarrow> string \<Rightarrow> bytes \<Rightarrow> bool" where
  "came es key message \<longleftrightarrow>
     (\<exists>now address port. Receives now address port message \<in> set es \<and> key = pin_key (plainAddress (Some address)) port)"

definition registered :: "relay_event list \<Rightarrow> allowed \<Rightarrow> bool" where
  "registered es a \<longleftrightarrow> (\<exists>now message. Allows now message \<in> set es \<and> validateAllow message = Inr a)"

definition authed :: "(bytes \<Rightarrow> bytes \<Rightarrow> bytes) \<Rightarrow> relay_event list \<Rightarrow> string \<Rightarrow> allowed \<Rightarrow> bool" where
  "authed hmac es key a \<longleftrightarrow> registered es a \<and> (\<exists>message. came es key message \<and> authentic hmac a message)"

definition pin_ok :: "(bytes \<Rightarrow> bytes \<Rightarrow> bytes) \<Rightarrow> relay_event list \<Rightarrow> relay \<Rightarrow> string \<Rightarrow> pin \<Rightarrow> bool" where
  "pin_ok hmac es s key p \<longleftrightarrow>
     (\<exists>r. jget (ry_registrations s) (pn_streamId p) = Some r \<and> key \<in> set (rg_pins r) \<and> authed hmac es key (rg_allowed r))
     \<and> (\<forall>m \<in> set (pn_waiting p). came es key m) \<and> length (pn_waiting p) \<le> rl_queuedPerPin (ry_limits s)"

definition registration_ok :: "relay_event list \<Rightarrow> relay \<Rightarrow> registration \<Rightarrow> bool" where
  "registration_ok es s r \<longleftrightarrow> registered es (rg_allowed r) \<and> length (rg_pins r) \<le> rl_pinsPerRegistration (ry_limits s)"

definition output_ok :: "(bytes \<Rightarrow> bytes \<Rightarrow> bytes) \<Rightarrow> relay_event list \<Rightarrow> relay_output \<Rightarrow> bool" where
  "output_ok hmac es e \<longleftrightarrow>
     (case e of
        To_Worker sock port message \<Rightarrow> \<exists>key a. came es key message \<and> authed hmac es key a \<and> port = al_workerPort a
      | _ \<Rightarrow> True)"

definition relay_ok :: "(bytes \<Rightarrow> bytes \<Rightarrow> bytes) \<Rightarrow> relay_event list \<Rightarrow> relay \<Rightarrow> bool" where
  "relay_ok hmac es s \<longleftrightarrow>
     (\<forall>key p. jget (ry_pins s) key = Some p \<longrightarrow> pin_ok hmac es s key p)
     \<and> (\<forall>streamId r. jget (ry_registrations s) streamId = Some r \<longrightarrow> registration_ok es s r)
     \<and> (\<forall>e \<in> set (ry_log s). output_ok hmac es e)
     \<and> length (ry_registrations s) \<le> rl_registrations (ry_limits s)"

lemma came_mono: "came es key m \<Longrightarrow> came (es @ es') key m"
  by (auto simp: came_def)

lemma registered_mono: "registered es a \<Longrightarrow> registered (es @ es') a"
  by (auto simp: registered_def)

lemma authed_mono: "authed hmac es key a \<Longrightarrow> authed hmac (es @ es') key a"
  unfolding authed_def using came_mono registered_mono by blast

lemma relay_ok_mono: "relay_ok hmac es s \<Longrightarrow> relay_ok hmac (es @ es') s"
  unfolding relay_ok_def pin_ok_def registration_ok_def output_ok_def
  by (fastforce intro: came_mono registered_mono authed_mono split: relay_output.splits)

lemma relay_pin: "relay_ok hmac es s \<Longrightarrow> jget (ry_pins s) key = Some p \<Longrightarrow> pin_ok hmac es s key p"
  by (simp add: relay_ok_def)

lemma relay_reg: "relay_ok hmac es s \<Longrightarrow> jget (ry_registrations s) streamId = Some r \<Longrightarrow> registration_ok es s r"
  by (simp add: relay_ok_def)

section \<open>Steps on the log\<close>

lemma relay_ok_emit: "relay_ok hmac es s \<Longrightarrow> output_ok hmac es e \<Longrightarrow> relay_ok hmac es (emit e s)"
  by (simp add: relay_ok_def emit_def pin_ok_def registration_ok_def)

lemma output_ok_simps [simp]:
  "output_ok hmac es (Expired a)" "output_ok hmac es (Address_Differs a b)" "output_ok hmac es (Pinned a b c)"
  "output_ok hmac es (Unpinned a b d)" "output_ok hmac es (To_Client a n m)" "output_ok hmac es (Dropped reason)"
  by (simp_all add: output_ok_def)

lemma relay_ok_drop: "relay_ok hmac es s \<Longrightarrow> relay_ok hmac es (drop_datagram reason s)"
  by (simp add: drop_datagram_def relay_ok_emit)

lemma relay_ok_window: "relay_ok hmac es (s\<lparr>ry_window := w\<rparr>) = relay_ok hmac es s"
  by (simp add: relay_ok_def pin_ok_def registration_ok_def)

lemma relay_ok_differs: "relay_ok hmac es (s\<lparr>ry_addressDiffers := n\<rparr>) = relay_ok hmac es s"
  by (simp add: relay_ok_def pin_ok_def registration_ok_def)

lemma relay_ok_update_registration:
  assumes "relay_ok hmac es s" "\<And>r. rg_allowed (f r) = rg_allowed r" "\<And>r. rg_pins (f r) = rg_pins r"
  shows "relay_ok hmac es (update_registration streamId f s)"
proof (cases "jget (ry_registrations s) streamId")
  case None
  then show ?thesis using assms(1) by (simp add: update_registration_def)
next
  case (Some r)
  then show ?thesis using assms
    by (fastforce simp: update_registration_def relay_ok_def pin_ok_def registration_ok_def length_jset jhas_def)
qed

lemma relay_ok_update_pin:
  assumes "relay_ok hmac es s" "\<And>p. pn_streamId (f p) = pn_streamId p"
    and "\<And>p. jget (ry_pins s) key = Some p \<Longrightarrow>
           (\<forall>m \<in> set (pn_waiting (f p)). came es key m) \<and> length (pn_waiting (f p)) \<le> rl_queuedPerPin (ry_limits s)"
  shows "relay_ok hmac es (update_pin key f s)"
proof (cases "jget (ry_pins s) key")
  case None
  then show ?thesis using assms(1) by (simp add: update_pin_def)
next
  case (Some p)
  then show ?thesis using assms
    by (fastforce simp: update_pin_def relay_ok_def pin_ok_def registration_ok_def)
qed

section \<open>Unpinning and revoking\<close>

lemma relay_ok_unpin: "relay_ok hmac es s \<Longrightarrow> relay_ok hmac es (unpin reason key s)"
proof (cases "jget (ry_pins s) key")
  case None
  then show "relay_ok hmac es s \<Longrightarrow> ?thesis" by (simp add: unpin_def)
next
  case (Some p)
  assume ok: "relay_ok hmac es s"
  then obtain r where r: "jget (ry_registrations s) (pn_streamId p) = Some r"
    using relay_pin [OF ok Some] by (auto simp: pin_ok_def)
  define t where "t = s\<lparr>ry_pins := jdel key (ry_pins s),
    ry_registrations := jset (pn_streamId p) (r\<lparr>rg_pins := removeAll key (rg_pins r)\<rparr>) (ry_registrations s)\<rparr>"
  have pins: "pin_ok hmac es t k q" if "jget (ry_pins t) k = Some q" for k q
    using relay_pin [OF ok, of k q] that r by (auto simp: t_def pin_ok_def split: if_splits)
  have regs: "registration_ok es t q" if "jget (ry_registrations t) sid = Some q" for sid q
  proof (cases "sid = pn_streamId p")
    case True
    then show ?thesis using relay_reg [OF ok r] that order_trans [OF length_removeAll_less_eq [of key "rg_pins r"]]
      by (auto simp: t_def registration_ok_def)
  next
    case False
    then have "jget (ry_registrations s) sid = Some q" using that by (simp add: t_def)
    then show ?thesis using relay_reg [OF ok] by (simp add: t_def registration_ok_def)
  qed
  have "relay_ok hmac es t"
    using pins regs ok r unfolding relay_ok_def by (simp add: t_def length_jset jhas_def)
  then show ?thesis using Some r by (simp add: unpin_def update_registration_def relay_ok_emit flip: t_def)
qed

lemma relay_ok_unpins: "relay_ok hmac es s \<Longrightarrow> relay_ok hmac es (fold (unpin reason) keys s)"
  by (induction keys arbitrary: s) (simp_all add: relay_ok_unpin)

lemma unpin_pins: "jget (ry_pins (unpin reason key s)) k = (if k = key then None else jget (ry_pins s) k)"
  by (auto simp: unpin_def update_registration_def emit_def split: option.split)

lemma unpins_pins: "jget (ry_pins (fold (unpin reason) keys s)) k = (if k \<in> set keys then None else jget (ry_pins s) k)"
  by (induction keys arbitrary: s) (simp_all add: unpin_pins)

lemma unpin_limits [simp]: "ry_limits (unpin reason key s) = ry_limits s"
  by (auto simp: unpin_def update_registration_def emit_def split: option.split)

lemma unpin_allowed:
  "map_option rg_allowed (jget (ry_registrations (unpin reason key s)) sid) = map_option rg_allowed (jget (ry_registrations s) sid)"
  by (auto simp: unpin_def update_registration_def emit_def split: option.split)

lemma length_jdel: "length (jdel k m) \<le> length m"
  by (simp add: AList.delete_eq)

lemma relay_ok_revoke: "relay_ok hmac es s \<Longrightarrow> relay_ok hmac es (snd (revoke_relay streamId s))"
proof (cases "jget (ry_registrations s) streamId")
  case None
  then show "relay_ok hmac es s \<Longrightarrow> ?thesis" by (simp add: revoke_relay_def)
next
  case (Some r)
  assume ok: "relay_ok hmac es s"
  define t where "t = fold (unpin ''revoked'') (rg_pins r) s"
  have t: "relay_ok hmac es t" unfolding t_def by (rule relay_ok_unpins [OF ok])
  have other: "pn_streamId p \<noteq> streamId" if "jget (ry_pins t) key = Some p" for key p
  proof
    assume sid: "pn_streamId p = streamId"
    have "key \<notin> set (rg_pins r)" "jget (ry_pins s) key = Some p" using that by (auto simp: t_def unpins_pins split: if_splits)
    with relay_pin [OF ok, of key p] Some sid show False by (auto simp: pin_ok_def)
  qed
  have "relay_ok hmac es (forget_registration streamId r t)"
    using t other order_trans [OF length_jdel, of "ry_registrations t" _ streamId]
    by (auto simp: relay_ok_def forget_registration_def pin_ok_def registration_ok_def)
  with Some show ?thesis by (simp add: revoke_relay_def flip: t_def)
qed

lemma relay_ok_expire: "relay_ok hmac es s \<Longrightarrow> relay_ok hmac es (emit (Expired streamId) (snd (revoke_relay streamId s)))"
  by (intro relay_ok_emit relay_ok_revoke) simp_all

lemma relay_ok_sweep: "relay_ok hmac es s \<Longrightarrow> relay_ok hmac es (sweep_relay now s)"
  unfolding sweep_relay_def sweep_registrations_def sweep_pins_def
  by (intro fold_invariant [where P = "relay_ok hmac es" and Q = "\<lambda>_. True"])
    (auto intro: relay_ok_expire relay_ok_unpin)

lemma relay_ok_close: "relay_ok hmac es s \<Longrightarrow> relay_ok hmac es (close_relay s)"
proof -
  assume "relay_ok hmac es s"
  then have "relay_ok hmac es (fold (\<lambda>streamId s. snd (revoke_relay streamId s)) (jkeys (ry_registrations s)) s)"
    by (intro fold_invariant [where P = "relay_ok hmac es" and Q = "\<lambda>_. True"]) (auto intro: relay_ok_revoke)
  then show ?thesis by (simp add: close_relay_def relay_ok_def pin_ok_def registration_ok_def)
qed

section \<open>Registering\<close>

lemma relay_ok_allow:
  assumes "relay_ok hmac es s" "Allows now message \<in> set es"
  shows "relay_ok hmac es (snd (allow_relay now message s))"
proof (cases "fst (allow_relay now message s)")
  case (Inl e)
  then have "snd (allow_relay now message s) = s"
    by (auto simp: allow_relay_def Let_def split: sum.splits if_splits)
  with assms show ?thesis by simp
next
  case (Inr sid)
  then obtain a where a: "validateAllow message = Inr a" "\<not> jhas (ry_registrations s) (al_streamId a)"
      "length (ry_registrations s) < rl_registrations (ry_limits s)"
    by (auto simp: allow_relay_def Let_def split: sum.splits if_splits)
  have reg: "registered es a" using a(1) assms(2) by (auto simp: registered_def)
  obtain r u h where s': "snd (allow_relay now message s) = s\<lparr>ry_registrations := jset (al_streamId a) r (ry_registrations s),
        ry_byUfrag := u, ry_byHint := h\<rparr>" "rg_allowed r = a" "rg_pins r = []"
    using Inr a by (auto simp: allow_relay_def Let_def split: if_splits)
  have "pn_streamId p \<noteq> al_streamId a" if "jget (ry_pins s) key = Some p" for key p
    using relay_pin [OF assms(1) that] a(2) by (auto simp: pin_ok_def jhas_def)
  then show ?thesis using assms(1) a reg s'
    by (auto simp: relay_ok_def pin_ok_def registration_ok_def length_jset split: if_splits)
qed

section \<open>Datagrams\<close>

lemma update_pin_simps [simp]:
  "ry_registrations (update_pin key f s) = ry_registrations s" "ry_limits (update_pin key f s) = ry_limits s"
  by (auto simp: update_pin_def split: option.split)

lemma update_pin_get:
  "jget (ry_pins (update_pin key f s)) k = (if k = key then map_option f (jget (ry_pins s) k) else jget (ry_pins s) k)"
  by (auto simp: update_pin_def split: option.split)

lemma relay_ok_to_worker:
  assumes "relay_ok hmac es s" "came es key message"
  shows "relay_ok hmac es (to_worker now key message s)"
proof -
  define t where "t = update_pin key (\<lambda>p. p\<lparr>pn_lastSeen := now\<rparr>) s"
  have t: "relay_ok hmac es t"
    unfolding t_def using assms(1) relay_pin [OF assms(1)] by (intro relay_ok_update_pin) (auto simp: pin_ok_def)
  show ?thesis
  proof (cases "jget (ry_pins t) key")
    case None
    with t show ?thesis by (simp add: to_worker_def flip: t_def)
  next
    case (Some p)
    note p = relay_pin [OF t Some]
    have "relay_ok hmac es (update_pin key (\<lambda>p. p\<lparr>pn_waiting := pn_waiting p @ [message]\<rparr>) t)"
      if "length (pn_waiting p) < rl_queuedPerPin (ry_limits t)"
      using t p that assms(2) Some by (intro relay_ok_update_pin) (auto simp: pin_ok_def)
    moreover have "output_ok hmac es (To_Worker (pn_socket p) (worker_port t p) message)"
    proof -
      obtain r where "jget (ry_registrations t) (pn_streamId p) = Some r" "authed hmac es key (rg_allowed r)"
        using p by (auto simp: pin_ok_def)
      then show ?thesis using assms(2) unfolding output_ok_def worker_port_def by auto
    qed
    ultimately show ?thesis using t Some by (simp add: to_worker_def relay_ok_emit Let_def flip: t_def)
  qed
qed

lemma relay_ok_from_pinned:
  assumes "relay_ok hmac es s" "came es key message"
  shows "relay_ok hmac es (from_pinned hmac now key r message s)"
  using relay_ok_to_worker [OF assms] relay_ok_drop [OF assms(1)]
  by (auto simp: from_pinned_def Let_def split: option.split datagram_class.split)

lemma relay_ok_add_pin:
  assumes "relay_ok hmac es s" "jget (ry_registrations s) streamId = Some r" "authed hmac es key (rg_allowed r)"
    and "length (rg_pins r) < rl_pinsPerRegistration (ry_limits s)" "jget (ry_pins s) key = None"
  shows "relay_ok hmac es (add_pin now streamId key address port s)"
proof -
  define p where "p = \<lparr>pn_sendAddress = address, pn_port = port, pn_streamId = streamId, pn_lastSeen = now,
            pn_ready = False, pn_waiting = [], pn_socket = ry_sockets s\<rparr>"
  define t where "t = s\<lparr>ry_pins := jset key p (ry_pins s), ry_sockets := ry_sockets s + 1,
    ry_registrations := jset streamId (r\<lparr>rg_pins := add_new key (rg_pins r)\<rparr>) (ry_registrations s)\<rparr>"
  have len: "length (add_new key (rg_pins r)) \<le> rl_pinsPerRegistration (ry_limits s)"
    using assms(4) by (simp add: add_new_def)
  have pins: "pin_ok hmac es t k q" if "jget (ry_pins t) k = Some q" for k q
  proof (cases "k = key")
    case True
    then have "q = p" using that by (simp add: t_def)
    then show ?thesis using assms(3) True by (simp add: pin_ok_def t_def p_def)
  next
    case False
    then have "pin_ok hmac es s k q" using that relay_pin [OF assms(1)] by (simp add: t_def)
    then show ?thesis using assms(2) by (auto simp: pin_ok_def t_def)
  qed
  have regs: "registration_ok es t q" if "jget (ry_registrations t) sid = Some q" for sid q
    using that relay_reg [OF assms(1)] relay_reg [OF assms(1,2)] len
    by (cases "sid = streamId") (auto simp: t_def registration_ok_def)
  have "relay_ok hmac es t"
    using pins regs assms(1,2) unfolding relay_ok_def by (simp add: t_def length_jset jhas_def)
  then show ?thesis using assms(2) by (simp add: add_pin_def update_registration_def t_def p_def)
qed

lemma report_mismatch_facts:
  "jget (ry_registrations (report_mismatch streamId r tuple s)) k =
     (if k = streamId \<and> \<not> rg_mismatchReported r then map_option (\<lambda>r. r\<lparr>rg_mismatchReported := True\<rparr>) (jget (ry_registrations s) k)
      else jget (ry_registrations s) k)"
  "ry_pins (report_mismatch streamId r tuple s) = ry_pins s" "ry_limits (report_mismatch streamId r tuple s) = ry_limits s"
  by (auto simp: report_mismatch_def Let_def emit_def update_registration_def split: option.split)

lemma relay_ok_report_mismatch: "relay_ok hmac es s \<Longrightarrow> relay_ok hmac es (report_mismatch streamId r tuple s)"
  by (auto simp: report_mismatch_def Let_def relay_ok_differs intro!: relay_ok_emit relay_ok_update_registration)

lemma relay_ok_accept_pin:
  assumes "relay_ok hmac es s" "jget (ry_registrations s) streamId = Some r" "authed hmac es key (rg_allowed r)"
    and "length (rg_pins r) < rl_pinsPerRegistration (ry_limits s)" "jget (ry_pins s) key = None" "came es key message"
  shows "relay_ok hmac es (accept_pin now streamId r plain key address port message s)"
proof -
  define t where "t = (if hint_match r plain = Some False then report_mismatch streamId r (tupleText plain port) s else s)"
  have t: "relay_ok hmac es t" "jget (ry_pins t) key = None" "ry_limits t = ry_limits s"
    using assms(1,5) relay_ok_report_mismatch [OF assms(1)] by (simp_all add: t_def report_mismatch_facts)
  obtain q where q: "jget (ry_registrations t) streamId = Some q" "rg_allowed q = rg_allowed r" "rg_pins q = rg_pins r"
  proof -
    have "\<exists>q. jget (ry_registrations t) streamId = Some q \<and> rg_allowed q = rg_allowed r \<and> rg_pins q = rg_pins r"
      using assms(2) by (simp add: t_def report_mismatch_facts)
    then show thesis using that by blast
  qed
  have a: "relay_ok hmac es (add_pin now streamId key address port t)"
    using t q assms(3,4) by (intro relay_ok_add_pin [of _ _ _ _ q]) simp_all
  have "relay_ok hmac es (update_registration streamId (\<lambda>r. r\<lparr>rg_pinnedOnce := True\<rparr>) (add_pin now streamId key address port t))"
    by (rule relay_ok_update_registration [OF a]) simp_all
  then show ?thesis
    unfolding accept_pin_def Let_def t_def [symmetric] by (intro relay_ok_to_worker relay_ok_emit assms(6)) simp_all
qed

lemma budget_relay_facts: "budget_relay now plain s = (ok, t) \<Longrightarrow> \<exists>w. t = s\<lparr>ry_window := w\<rparr>"
  by (auto simp: budget_relay_def Let_def split: prod.splits)

lemma relay_ok_from_stranger:
  assumes "relay_ok hmac es s" "came es (pin_key plain port) message" "jget (ry_pins s) (pin_key plain port) = None"
  shows "relay_ok hmac es (from_stranger hmac now plain address port message s)"
proof -
  obtain ok t where b: "budget_relay now plain s = (ok, t)" by fastforce
  obtain w where w: "t = s\<lparr>ry_window := w\<rparr>" using budget_relay_facts [OF b] by blast
  have t: "relay_ok hmac es t" "jget (ry_pins t) (pin_key plain port) = None"
    using assms(1,3) by (simp_all add: w relay_ok_window)
  have acc: "relay_ok hmac es (accept_pin now streamId r plain (pin_key plain port) address port message t)"
    if "parseStun message = Some parsed" "st_type parsed = bindingRequest" "find (verified_by hmac message parsed t) ids = Some streamId"
      "jget (ry_registrations t) streamId = Some r" "st_username parsed = Some (expected_username (rg_allowed r))"
      "\<not> rl_pinsPerRegistration (ry_limits t) \<le> length (rg_pins r)" for parsed ids streamId r
  proof (rule relay_ok_accept_pin [OF t(1) that(4)])
    have "verified_by hmac message parsed t streamId" using find_in_set [OF that(3)] by simp
    then have "authentic hmac (rg_allowed r) message"
      using that by (auto simp: authentic_def verified_by_def)
    then show "authed hmac es (pin_key plain port) (rg_allowed r)"
      using assms(2) relay_reg [OF t(1) that(4)] by (auto simp: authed_def registration_ok_def)
  qed (use t assms(2) that in auto)
  show ?thesis
    using acc t(1) unfolding from_stranger_def b
    by (auto simp: relay_ok_drop split: option.split bool.split)
qed

lemma relay_ok_receive:
  assumes "relay_ok hmac es s" "Receives now address port message \<in> set es"
  shows "relay_ok hmac es (receive_relay hmac now address port message s)"
proof -
  have c: "came es (pin_key (plainAddress (Some address)) port) message" using assms(2) by (auto simp: came_def)
  show ?thesis
    using relay_ok_from_pinned [OF assms(1) c] relay_ok_from_stranger [OF assms(1) c] assms(1)
    by (auto simp: receive_relay_def Let_def split: option.split)
qed

lemma relay_ok_bound: "relay_ok hmac es s \<Longrightarrow> relay_ok hmac es (socket_bound now sock s)"
proof -
  assume ok: "relay_ok hmac es s"
  have "relay_ok hmac es (fold (to_worker now key) (pn_waiting p) (update_pin key (\<lambda>p. p\<lparr>pn_ready := True, pn_waiting := []\<rparr>) s))"
    if "jget (ry_pins s) key = Some p" for key p
    using relay_pin [OF ok that]
    by (intro fold_invariant [where P = "relay_ok hmac es" and Q = "came es key"] relay_ok_update_pin [OF ok] relay_ok_to_worker)
      (auto simp: pin_ok_def)
  then show ?thesis using ok by (auto simp: socket_bound_def split: option.split)
qed

lemma relay_ok_from_worker: "relay_ok hmac es s \<Longrightarrow> relay_ok hmac es (from_worker now sock address port message s)"
proof -
  assume ok: "relay_ok hmac es s"
  have "relay_ok hmac es (update_pin key (\<lambda>p. p\<lparr>pn_lastSeen := now\<rparr>) s)" for key
    using relay_pin [OF ok] by (intro relay_ok_update_pin [OF ok]) (auto simp: pin_ok_def)
  then show ?thesis using ok
    by (auto simp: from_worker_def Let_def relay_ok_drop relay_ok_emit split: option.split)
qed

lemma relay_ok_step: "relay_ok hmac es s \<Longrightarrow> e \<in> set es \<Longrightarrow> relay_ok hmac es (relay_step hmac s e)"
  by (cases e) (simp_all add: relay_ok_allow relay_ok_revoke relay_ok_sweep relay_ok_receive relay_ok_bound relay_ok_from_worker
      relay_ok_close)

lemma relay_ok_run:
  assumes "relay_ok hmac es s" "set fs \<subseteq> set es"
  shows "relay_ok hmac es (run (relay_step hmac) s fs)"
  using assms by (induction fs arbitrary: s) (simp_all add: relay_ok_step)

lemma new_relay_ok: "relay_ok hmac es (new_relay limits)"
  by (simp add: relay_ok_def new_relay_def)


section \<open>Bounds\<close>

definition window_ok :: "relay_limits \<Rightarrow> rate_window \<Rightarrow> bool" where
  "window_ok limits w \<longleftrightarrow> rw_total w \<le> rl_strangerTotal limits \<and> (\<forall>g. count_in g (rw_perSource w) \<le> rl_strangerPerSource limits)
     \<and> (\<forall>streamId. count_in streamId (rw_perRegistration w) \<le> rl_hintLanePerSecond limits)"

lemma count_in_jset [simp]: "count_in k' (jset k n m) = (if k' = k then n else count_in k' m)"
  by (simp add: count_in_def)

lemma take_budget_ok:
  assumes "window_ok limits w" "take_budget limits hinted grp w = (ok, w')"
  shows "window_ok limits w'"
proof (cases "find (\<lambda>streamId. count_in streamId (rw_perRegistration w) < rl_hintLanePerSecond limits)
             (case hinted of Some ids \<Rightarrow> ids | None \<Rightarrow> [])")
  case None
  then show ?thesis using assms by (auto simp: take_budget_def window_ok_def split: if_splits)
next
  case (Some streamId)
  then show ?thesis using assms find_in_set [OF Some] by (auto simp: take_budget_def window_ok_def)
qed

lemma fresh_window_ok: "window_ok limits w \<Longrightarrow> window_ok limits (fresh_window now w)"
  by (simp add: fresh_window_def window_ok_def count_in_def)

text \<open>Only \<open>budget_relay\<close> and the end of a registration touch the window, and nothing the limits.\<close>

lemma emit_window [simp]: "ry_window (emit e s) = ry_window s" "ry_limits (emit e s) = ry_limits s"
  by (simp_all add: emit_def)

lemma update_registration_window [simp]:
  "ry_window (update_registration streamId f s) = ry_window s" "ry_limits (update_registration streamId f s) = ry_limits s"
  by (auto simp: update_registration_def split: option.split)

lemma update_pin_window [simp]: "ry_window (update_pin key f s) = ry_window s"
  by (auto simp: update_pin_def split: option.split)

lemma drop_window [simp]: "ry_window (drop_datagram reason s) = ry_window s" "ry_limits (drop_datagram reason s) = ry_limits s"
  by (simp_all add: drop_datagram_def)

lemma unpin_window [simp]: "ry_window (unpin reason key s) = ry_window s"
  by (simp add: unpin_def split: option.split)

lemma to_worker_window [simp]: "ry_window (to_worker now key message s) = ry_window s" "ry_limits (to_worker now key message s) = ry_limits s"
  by (simp_all add: to_worker_def Let_def split: option.split)

lemma from_pinned_window [simp]:
  "ry_window (from_pinned hmac now key r message s) = ry_window s" "ry_limits (from_pinned hmac now key r message s) = ry_limits s"
  by (simp_all add: from_pinned_def Let_def split: option.split datagram_class.split)

lemma accept_pin_window [simp]:
  "ry_window (accept_pin now streamId r plain key address port message s) = ry_window s"
  "ry_limits (accept_pin now streamId r plain key address port message s) = ry_limits s"
  by (simp_all add: accept_pin_def add_pin_def report_mismatch_def Let_def)

definition bounds_ok :: "relay \<Rightarrow> bool" where
  "bounds_ok s \<longleftrightarrow> window_ok (ry_limits s) (ry_window s)"

lemma bounds_simps [simp]: "bounds_ok (emit e s) = bounds_ok s" "bounds_ok (unpin reason key s) = bounds_ok s"
  by (simp_all add: bounds_ok_def)

lemma bounds_revoke: "bounds_ok s \<Longrightarrow> bounds_ok (snd (revoke_relay streamId s)) \<and> ry_limits (snd (revoke_relay streamId s)) = ry_limits s"
proof -
  have "ry_window (fold (unpin reason) keys s) = ry_window s \<and> ry_limits (fold (unpin reason) keys s) = ry_limits s" for reason keys
    by (induction keys arbitrary: s) simp_all
  then show "bounds_ok s \<Longrightarrow> ?thesis"
    by (auto simp: revoke_relay_def forget_registration_def bounds_ok_def window_ok_def count_in_def split: option.splits)
qed

lemma bounds_from_stranger:
  assumes "bounds_ok s"
  shows "bounds_ok (from_stranger hmac now plain address port message s)
    \<and> ry_limits (from_stranger hmac now plain address port message s) = ry_limits s"
proof -
  obtain ok t where b: "budget_relay now plain s = (ok, t)" by fastforce
  then obtain w where w: "t = s\<lparr>ry_window := w\<rparr>" "take_budget (ry_limits s) (jget (ry_byHint s) (sourceGroup (Some plain)))
      (sourceGroup (Some plain)) (fresh_window now (ry_window s)) = (ok, w)"
    by (auto simp: budget_relay_def Let_def split: prod.splits)
  have "window_ok (ry_limits s) w"
    using take_budget_ok [OF fresh_window_ok w(2)] assms by (simp add: bounds_ok_def)
  then have t: "bounds_ok t" "ry_limits t = ry_limits s" by (simp_all add: w(1) bounds_ok_def)
  then show ?thesis unfolding from_stranger_def b
    by (auto simp: bounds_ok_def split: option.split bool.split)
qed

lemma bounds_step: "bounds_ok s \<Longrightarrow> bounds_ok (relay_step hmac s e) \<and> ry_limits (relay_step hmac s e) = ry_limits s"
proof (cases e)
  case (Sweeps now)
  assume ok: "bounds_ok s"
  define P where "P t = (bounds_ok t \<and> ry_limits t = ry_limits s)" for t
  have "P (sweep_relay now s)"
    unfolding sweep_relay_def sweep_registrations_def sweep_pins_def
    by (intro fold_invariant [where P = P and Q = "\<lambda>_. True"])
      (use ok in \<open>auto simp: P_def bounds_revoke\<close>)
  then show ?thesis by (simp add: Sweeps P_def)
next
  case Closes_Relay
  assume ok: "bounds_ok s"
  define P where "P t = (bounds_ok t \<and> ry_limits t = ry_limits s)" for t
  have "P (fold (\<lambda>streamId s. snd (revoke_relay streamId s)) (jkeys (ry_registrations s)) s)"
    using ok bounds_revoke by (intro fold_invariant [where P = P and Q = "\<lambda>_. True"]) (auto simp: P_def)
  then show ?thesis by (auto simp: Closes_Relay close_relay_def P_def bounds_ok_def)
next
  case (Receives now address port message)
  assume ok: "bounds_ok s"
  then have "bounds_ok (receive_relay hmac now address port message s) \<and> ry_limits (receive_relay hmac now address port message s) = ry_limits s"
    unfolding receive_relay_def Let_def using bounds_from_stranger [OF ok]
    by (simp add: bounds_ok_def [of "from_pinned _ _ _ _ _ _"] split: option.split) (simp add: bounds_ok_def)
  then show ?thesis by (simp add: Receives)
next
  case (Binds now sock)
  assume ok: "bounds_ok s"
  have "ry_window (fold (to_worker now key) ms t) = ry_window t \<and> ry_limits (fold (to_worker now key) ms t) = ry_limits t" for key ms t
    by (induction ms arbitrary: t) simp_all
  then show ?thesis using ok Binds by (simp add: socket_bound_def bounds_ok_def split: option.split)
next
  case (Revokes streamId)
  then show "bounds_ok s \<Longrightarrow> ?thesis" using bounds_revoke by simp
qed (auto simp: allow_relay_def Let_def from_worker_def bounds_ok_def split: option.split sum.split)

section \<open>What gets past the budget\<close>

text \<open>
  The group of the sender of a datagram that no pin claims and that was not dropped by the budget, so that it was parsed; and, over
  a stretch of events, these groups with the registrations whose hint they matched at that moment.
\<close>

definition parsed_from :: "(bytes \<Rightarrow> bytes \<Rightarrow> bytes) \<Rightarrow> relay \<Rightarrow> relay_event \<Rightarrow> string option" where
  "parsed_from hmac s e =
     (case e of
        Receives now address port message \<Rightarrow>
          (let plain = plainAddress (Some address)
           in if jget (ry_pins s) (pin_key plain port) = None
                 \<and> ry_log (receive_relay hmac now address port message s) \<noteq> ry_log s @ [Dropped Budget]
              then Some (sourceGroup (Some plain)) else None)
      | _ \<Rightarrow> None)"

definition hinted_by :: "relay \<Rightarrow> string \<Rightarrow> string list" where
  "hinted_by s g = (case jget (ry_byHint s) g of Some ids \<Rightarrow> ids | None \<Rightarrow> [])"

fun parsed_log :: "(bytes \<Rightarrow> bytes \<Rightarrow> bytes) \<Rightarrow> relay \<Rightarrow> relay_event list \<Rightarrow> (string \<times> string list) list" where
  "parsed_log hmac s [] = []"
| "parsed_log hmac s (e # es) =
     (case parsed_from hmac s e of Some g \<Rightarrow> [(g, hinted_by s g)] | None \<Rightarrow> []) @ parsed_log hmac (relay_step hmac s e) es"

definition in_second :: "int \<Rightarrow> relay_event \<Rightarrow> bool" where
  "in_second t e = (case e of Receives now _ _ _ \<Rightarrow> t \<le> now \<and> now < t + 1000 | _ \<Rightarrow> True)"

text \<open>The events that leave every registration as it is.\<close>

definition keeps_registrations :: "relay_event \<Rightarrow> bool" where
  "keeps_registrations e = (case e of Receives _ _ _ _ \<Rightarrow> True | Binds _ _ \<Rightarrow> True | Worker_Sends _ _ _ _ _ \<Rightarrow> True | _ \<Rightarrow> False)"

text \<open>
  What may still be let past from now on within the second that starts at \<open>t\<close>, when \<open>\<mu>\<close> counts what the window has
  let past: what is left of this window and, if it began before, a whole other one.
\<close>

definition room :: "(rate_window \<Rightarrow> nat) \<Rightarrow> nat \<Rightarrow> int \<Rightarrow> rate_window \<Rightarrow> nat" where
  "room \<mu> lim t w = (lim - \<mu> w) + (case rw_start w of Some x \<Rightarrow> if t \<le> x then 0 else lim | None \<Rightarrow> lim)"

definition empties :: "(rate_window \<Rightarrow> nat) \<Rightarrow> bool" where
  "empties \<mu> \<longleftrightarrow> (\<forall>now. \<mu> \<lparr>rw_start = Some now, rw_total = 0, rw_perSource = [], rw_perRegistration = []\<rparr> = 0)"

lemma room_twice: "room \<mu> lim t w \<le> 2 * lim"
  by (auto simp: room_def split: option.split)

lemma room_fresh:
  assumes "empties \<mu>" "t \<le> now" "now < t + 1000" "\<mu> w \<le> lim"
  shows "room \<mu> lim t (fresh_window now w) \<le> room \<mu> lim t w"
  using assms by (auto simp: room_def fresh_window_def empties_def split: option.split)

lemma room_spent:
  assumes "rw_start w' = rw_start w" "\<mu> w + n \<le> \<mu> w'" "\<mu> w' \<le> lim"
  shows "n + room \<mu> lim t w' \<le> room \<mu> lim t w"
  using assms by (auto simp: room_def split: option.split)

lemma take_start: "take_budget limits hinted grp w = (ok, w') \<Longrightarrow> rw_start w' = rw_start w"
  by (auto simp: take_budget_def split: option.splits if_splits)

lemma stranger_budget:
  "ry_window (from_stranger hmac now plain address port message s) = ry_window (snd (budget_relay now plain s))"
  by (auto simp: from_stranger_def split: prod.split option.split bool.split)

lemma stranger_refused:
  "\<not> fst (budget_relay now plain s) \<Longrightarrow> ry_log (from_stranger hmac now plain address port message s) = ry_log s @ [Dropped Budget]"
  by (cases "budget_relay now plain s") (auto simp: from_stranger_def drop_datagram_def emit_def budget_relay_def Let_def split: prod.splits)

text \<open>One datagram uses up as much room as it takes.\<close>

lemma receive_room:
  assumes e: "e = Receives now address port message" and t: "in_second t e" and \<mu>: "empties \<mu>"
    and bound: "\<And>w. window_ok (ry_limits s) w \<Longrightarrow> \<mu> w \<le> lim"
    and counts: "\<And>g w w' ok. take_budget (ry_limits s) (jget (ry_byHint s) g) g w = (ok, w') \<Longrightarrow>
        \<mu> w + (if ok \<and> K (g, hinted_by s g) then 1 else 0) \<le> \<mu> w'"
    and s: "bounds_ok s"
  shows "length (filter K (case parsed_from hmac s e of Some g \<Rightarrow> [(g, hinted_by s g)] | None \<Rightarrow> []))
      + room \<mu> lim t (ry_window (relay_step hmac s e)) \<le> room \<mu> lim t (ry_window s)"
proof -
  let ?plain = "plainAddress (Some address)" let ?g = "sourceGroup (Some (plainAddress (Some address)))"
  show ?thesis
  proof (cases "jget (ry_pins s) (pin_key ?plain port)")
    case (Some p)
    then have "ry_window (relay_step hmac s e) = ry_window s"
      by (auto simp: e receive_relay_def Let_def split: option.split)
    then show ?thesis using Some by (simp add: e parsed_from_def Let_def)
  next
    case None
    let ?f = "fresh_window now (ry_window s)"
    obtain ok w where w: "take_budget (ry_limits s) (jget (ry_byHint s) ?g) ?g ?f = (ok, w)" by fastforce
    then have b: "budget_relay now ?plain s = (ok, s\<lparr>ry_window := w\<rparr>)" by (simp add: budget_relay_def Let_def)
    have step: "receive_relay hmac now address port message s = from_stranger hmac now ?plain address port message s"
      using None by (simp add: receive_relay_def Let_def)
    have win: "ry_window (relay_step hmac s e) = w" by (simp add: e step stranger_budget b)
    have fine: "window_ok (ry_limits s) ?f" using s by (simp add: bounds_ok_def fresh_window_ok)
    have "room \<mu> lim t ?f \<le> room \<mu> lim t (ry_window s)"
      using t s by (intro room_fresh [OF \<mu>] bound) (simp_all add: e in_second_def bounds_ok_def)
    moreover have "(if ok \<and> K (?g, hinted_by s ?g) then 1 else 0) + room \<mu> lim t w \<le> room \<mu> lim t ?f"
      by (rule room_spent [OF take_start [OF w] counts [OF w] bound [OF take_budget_ok [OF fine w]]])
    moreover have "parsed_from hmac s e = None" if "\<not> ok"
      using stranger_refused [of now ?plain s hmac address port message] that by (simp add: b e parsed_from_def Let_def step)
    moreover have "parsed_from hmac s e = None \<or> parsed_from hmac s e = Some ?g"
      by (simp add: e parsed_from_def Let_def)
    ultimately show ?thesis unfolding win by (cases ok) (auto split: if_splits)
  qed
qed

text \<open>No other event starts a window or takes back what strangers have used.\<close>

definition same_window :: "rate_window \<Rightarrow> rate_window \<Rightarrow> bool" where
  "same_window v w \<longleftrightarrow> rw_start w = rw_start v \<and> rw_total w = rw_total v \<and> rw_perSource w = rw_perSource v"

lemma revoke_window: "same_window (ry_window s) (ry_window (snd (revoke_relay streamId s)))"
proof -
  have "ry_window (fold (unpin reason) keys s) = ry_window s" for reason keys
    by (induction keys arbitrary: s) simp_all
  then show ?thesis by (simp add: revoke_relay_def forget_registration_def same_window_def split: option.split)
qed

lemma same_window_trans: "same_window u v \<Longrightarrow> same_window v w \<Longrightarrow> same_window u w"
  by (simp add: same_window_def)

lemma other_window:
  assumes "\<nexists>now address port message. e = Receives now address port message"
  shows "same_window (ry_window s) (ry_window (relay_step hmac s e))"
proof -
  have refl: "same_window v v" for v by (simp add: same_window_def)
  define P where "P u = same_window (ry_window s) (ry_window u)" for u :: relay
  have revoke: "P u \<Longrightarrow> P (snd (revoke_relay streamId u))" for streamId and u :: relay
    unfolding P_def by (rule same_window_trans [OF _ revoke_window])
  have sweep: "P (sweep_relay now s)" for now
    unfolding sweep_relay_def sweep_registrations_def sweep_pins_def
    by (intro fold_invariant [where P = P and Q = "\<lambda>_. True"]) (auto simp: P_def refl revoke [unfolded P_def])
  have close: "P (fold (\<lambda>streamId s. snd (revoke_relay streamId s)) ids s)" for ids
    by (intro fold_invariant [where P = P and Q = "\<lambda>_. True"]) (auto simp: P_def refl revoke [unfolded P_def])
  have bound: "ry_window (fold (to_worker now key) ms u) = ry_window u" for now key ms u
    by (induction ms arbitrary: u) simp_all
  show ?thesis
  proof (cases e)
    case (Sweeps now)
    with sweep show ?thesis by (simp add: P_def)
  next
    case Closes_Relay
    with close show ?thesis by (simp add: P_def close_relay_def)
  qed (use assms in \<open>auto simp: refl revoke_window allow_relay_def Let_def from_worker_def socket_bound_def bound split: option.split sum.split\<close>)
qed

lemma keeps_hints:
  assumes "keeps_registrations e"
  shows "ry_byHint (relay_step hmac s e) = ry_byHint s"
    and "\<nexists>now address port message. e = Receives now address port message \<Longrightarrow> ry_window (relay_step hmac s e) = ry_window s"
proof -
  have upd [simp]: "ry_byHint (update_pin key f u) = ry_byHint u" "ry_byHint (update_registration i h u) = ry_byHint u"
      "ry_byHint (emit out u) = ry_byHint u" "ry_byHint (drop_datagram reason u) = ry_byHint u"
    for key f u i h out reason
    by (simp_all add: update_pin_def update_registration_def emit_def drop_datagram_def split: option.split)
  have to [simp]: "ry_byHint (to_worker now key message u) = ry_byHint u" for now key message u
    by (simp add: to_worker_def Let_def split: option.split)
  have many [simp]: "ry_byHint (fold (to_worker now key) ms u) = ry_byHint u" "ry_window (fold (to_worker now key) ms u) = ry_window u"
    for now key ms u
    by (induction ms arbitrary: u) simp_all
  have pinned [simp]: "ry_byHint (from_pinned hmac now key r message u) = ry_byHint u" for now key r message u
    by (simp add: from_pinned_def Let_def split: option.split datagram_class.split)
  have accept [simp]: "ry_byHint (accept_pin now i r plain key address port message u) = ry_byHint u" for now i r plain key address port message u
    by (simp add: accept_pin_def add_pin_def report_mismatch_def Let_def)
  have stranger [simp]: "ry_byHint (from_stranger hmac now plain address port message u) = ry_byHint u" for now plain address port message u
    by (auto simp: from_stranger_def budget_relay_def Let_def split: prod.split option.split bool.split)
  show "ry_byHint (relay_step hmac s e) = ry_byHint s"
    using assms by (cases e) (auto simp: keeps_registrations_def receive_relay_def socket_bound_def from_worker_def Let_def split: option.split)
  show "ry_window (relay_step hmac s e) = ry_window s" if "\<nexists>now address port message. e = Receives now address port message"
    using assms that by (cases e) (auto simp: keeps_registrations_def socket_bound_def from_worker_def Let_def split: option.split)
qed

text \<open>Over a stretch of events within a second, as many as there was room for.\<close>

lemma parsed_room:
  assumes \<mu>: "empties \<mu>" and bound: "\<And>w. window_ok limits w \<Longrightarrow> \<mu> w \<le> lim"
    and inv: "\<And>s e. Q s \<Longrightarrow> J e \<Longrightarrow> Q (relay_step hmac s e)"
    and other: "\<And>s e. J e \<Longrightarrow> \<nexists>now address port message. e = Receives now address port message \<Longrightarrow>
        \<mu> (ry_window s) \<le> \<mu> (ry_window (relay_step hmac s e))"
    and counts: "\<And>s g w w' ok. Q s \<Longrightarrow> take_budget limits (jget (ry_byHint s) g) g w = (ok, w') \<Longrightarrow>
        \<mu> w + (if ok \<and> K (g, hinted_by s g) then 1 else 0) \<le> \<mu> w'"
  shows "bounds_ok s \<Longrightarrow> ry_limits s = limits \<Longrightarrow> Q s \<Longrightarrow> \<forall>e \<in> set es. in_second t e \<and> J e \<Longrightarrow>
    length (filter K (parsed_log hmac s es)) \<le> room \<mu> lim t (ry_window s)"
proof (induction es arbitrary: s)
  case (Cons e es)
  let ?s = "relay_step hmac s e"
  have e: "in_second t e" "J e" and es: "\<forall>e \<in> set es. in_second t e \<and> J e" using Cons.prems by auto
  have s': "bounds_ok ?s" "ry_limits ?s = limits" using bounds_step [of s hmac e] Cons.prems by auto
  have "length (filter K (case parsed_from hmac s e of Some g \<Rightarrow> [(g, hinted_by s g)] | None \<Rightarrow> []))
      + room \<mu> lim t (ry_window ?s) \<le> room \<mu> lim t (ry_window s)"
  proof (cases "\<exists>now address port message. e = Receives now address port message")
    case True
    then obtain now address port message where r: "e = Receives now address port message" by blast
    show ?thesis
    proof (rule receive_room [OF r e(1) \<mu>])
      show "\<mu> w + (if ok \<and> K (g, hinted_by s g) then 1 else 0) \<le> \<mu> w'"
        if "take_budget (ry_limits s) (jget (ry_byHint s) g) g w = (ok, w')" for g w w' ok
        using counts [OF Cons.prems(3), of g w ok w'] that Cons.prems(2) by simp
    qed (use Cons.prems(1,2) bound in simp_all)
  next
    case False
    then have "parsed_from hmac s e = None" by (cases e) (simp_all add: parsed_from_def)
    moreover from False have "rw_start (ry_window ?s) = rw_start (ry_window s)" using other_window [of e s hmac] by (simp add: same_window_def)
    then have "0 + room \<mu> lim t (ry_window ?s) \<le> room \<mu> lim t (ry_window s)"
      by (rule room_spent) (use other [OF e(2) False] bound s' in \<open>simp_all add: bounds_ok_def\<close>)
    ultimately show ?thesis by simp
  qed
  moreover have "length (filter K (parsed_log hmac ?s es)) \<le> room \<mu> lim t (ry_window ?s)"
    by (rule Cons.IH [OF s' inv [OF Cons.prems(3) e(2)] es])
  ultimately show ?case by simp
qed simp

lemma unhinted_find: "hinted_by s g = [] \<Longrightarrow> (case jget (ry_byHint s) g of Some ids \<Rightarrow> ids | None \<Rightarrow> []) = []"
  by (simp add: hinted_by_def)

lemma strangers_parsed:
  assumes "bounds_ok s" "\<forall>e \<in> set es. in_second t e"
  shows "length (filter (\<lambda>(g, ids). ids = []) (parsed_log hmac s es)) \<le> 2 * rl_strangerTotal (ry_limits s)"
proof -
  have "length (filter (\<lambda>(g, ids). ids = []) (parsed_log hmac s es)) \<le> room rw_total (rl_strangerTotal (ry_limits s)) t (ry_window s)"
  proof (rule parsed_room [where Q = "\<lambda>_. True" and J = "\<lambda>_. True"])
    show "rw_total (ry_window u) \<le> rw_total (ry_window (relay_step hmac u e))"
      if "\<nexists>now address port message. e = Receives now address port message" for u e
      using other_window [OF that, of u hmac] by (simp add: same_window_def)
    show "rw_total w + (if ok \<and> (case (g, hinted_by u g) of (g, ids) \<Rightarrow> ids = []) then 1 else 0) \<le> rw_total w'"
      if "take_budget (ry_limits s) (jget (ry_byHint u) g) g w = (ok, w')" for u g w w' ok
      using that by (auto simp: take_budget_def hinted_by_def split: option.splits if_splits)
  qed (use assms in \<open>auto simp: empties_def window_ok_def\<close>)
  then show ?thesis by (rule order_trans [OF _ room_twice])
qed

lemma group_parsed:
  assumes "bounds_ok s" "\<forall>e \<in> set es. in_second t e"
  shows "length (filter (\<lambda>(h, ids). h = g \<and> ids = []) (parsed_log hmac s es)) \<le> 2 * rl_strangerPerSource (ry_limits s)"
proof -
  have "length (filter (\<lambda>(h, ids). h = g \<and> ids = []) (parsed_log hmac s es))
      \<le> room (\<lambda>w. count_in g (rw_perSource w)) (rl_strangerPerSource (ry_limits s)) t (ry_window s)"
  proof (rule parsed_room [where Q = "\<lambda>_. True" and J = "\<lambda>_. True"])
    show "count_in g (rw_perSource (ry_window u)) \<le> count_in g (rw_perSource (ry_window (relay_step hmac u e)))"
      if "\<nexists>now address port message. e = Receives now address port message" for u e
      using other_window [OF that, of u hmac] by (simp add: same_window_def)
    show "count_in g (rw_perSource w) + (if ok \<and> (case (h, hinted_by u h) of (h, ids) \<Rightarrow> h = g \<and> ids = []) then 1 else 0)
        \<le> count_in g (rw_perSource w')"
      if "take_budget (ry_limits s) (jget (ry_byHint u) h) h w = (ok, w')" for u h w w' ok
      using that by (auto simp: take_budget_def hinted_by_def split: option.splits if_splits)
  qed (use assms in \<open>auto simp: empties_def window_ok_def count_in_def\<close>)
  then show ?thesis by (rule order_trans [OF _ room_twice])
qed

text \<open>A source that matches hints has the lanes of those registrations besides.\<close>

definition lanes :: "string \<Rightarrow> string list \<Rightarrow> rate_window \<Rightarrow> nat" where
  "lanes g ids w = count_in g (rw_perSource w) + sum_list (map (\<lambda>i. count_in i (rw_perRegistration w)) ids)"

lemma sum_list_raised:
  assumes "\<And>i. f i \<le> (h i :: nat)"
  shows "sum_list (map f ids) \<le> sum_list (map h ids)" and "i \<in> set ids \<Longrightarrow> f i < h i \<Longrightarrow> sum_list (map f ids) < sum_list (map h ids)"
proof -
  show all: "sum_list (map f ids) \<le> sum_list (map h ids)" for ids by (rule sum_list_mono) (rule assms)
  show "sum_list (map f ids) < sum_list (map h ids)" if "i \<in> set ids" "f i < h i"
    using that
  proof (induction ids)
    case (Cons k ids)
    then show ?case using all [of ids] assms [of k] by (cases "k = i") (auto intro: add_less_le_mono add_le_less_mono)
  qed simp
qed

lemma sum_list_capped: "(\<And>i. f i \<le> (c :: nat)) \<Longrightarrow> sum_list (map f ids) \<le> c * length ids"
  by (induction ids) (auto simp: add_mono)

lemma lanes_taken:
  assumes w: "take_budget limits hinted h w = (ok, w')" and ids: "h = g \<Longrightarrow> (case hinted of Some is \<Rightarrow> is | None \<Rightarrow> []) = ids"
  shows "lanes g ids w + (if ok \<and> h = g then 1 else 0) \<le> lanes g ids w'"
proof (cases "find (\<lambda>i. count_in i (rw_perRegistration w) < rl_hintLanePerSecond limits) (case hinted of Some is \<Rightarrow> is | None \<Rightarrow> [])")
  case None
  then show ?thesis using w by (auto simp: take_budget_def lanes_def split: if_splits)
next
  case (Some i)
  then have w': "w' = w\<lparr>rw_perRegistration := jset i (count_in i (rw_perRegistration w) + 1) (rw_perRegistration w)\<rparr>"
    using w by (simp add: take_budget_def)
  have up: "count_in k (rw_perRegistration w) \<le> count_in k (rw_perRegistration w')" for k by (simp add: w')
  let ?m = "\<lambda>v. sum_list (map (\<lambda>k. count_in k (rw_perRegistration v)) ids)"
  have "?m w \<le> ?m w'" by (rule sum_list_raised(1)) (rule up)
  moreover have "?m w < ?m w'" if "h = g"
    by (rule sum_list_raised(2) [where i = i]) (use up find_in_set [OF Some] ids [OF that] in \<open>simp_all add: w'\<close>)
  ultimately show ?thesis unfolding lanes_def using w' by auto
qed

lemma hinted_parsed:
  assumes "bounds_ok s" "\<forall>e \<in> set es. in_second t e \<and> keeps_registrations e"
  shows "length (filter (\<lambda>(h, ids). h = g) (parsed_log hmac s es))
    \<le> 2 * (rl_strangerPerSource (ry_limits s) + rl_hintLanePerSecond (ry_limits s) * length (hinted_by s g))"
proof -
  let ?ids = "hinted_by s g"
  let ?lim = "rl_strangerPerSource (ry_limits s) + rl_hintLanePerSecond (ry_limits s) * length ?ids"
  have "length (filter (\<lambda>(h, ids). h = g) (parsed_log hmac s es)) \<le> room (lanes g ?ids) ?lim t (ry_window s)"
  proof (rule parsed_room [where Q = "\<lambda>u. hinted_by u g = ?ids" and J = keeps_registrations])
    show "hinted_by (relay_step hmac u e) g = ?ids" if "hinted_by u g = ?ids" "keeps_registrations e" for u e
      using that keeps_hints(1) [OF that(2), of hmac u] by (simp add: hinted_by_def)
    show "lanes g ?ids (ry_window u) \<le> lanes g ?ids (ry_window (relay_step hmac u e))"
      if "keeps_registrations e" "\<nexists>now address port message. e = Receives now address port message" for u e
      using keeps_hints(2) [OF that, of hmac u] by simp
    show "lanes g ?ids w + (if ok \<and> (case (h, hinted_by u h) of (h, ids) \<Rightarrow> h = g) then 1 else 0) \<le> lanes g ?ids w'"
      if "hinted_by u g = ?ids" "take_budget (ry_limits s) (jget (ry_byHint u) h) h w = (ok, w')" for u h w w' ok
      using lanes_taken [OF that(2), of g ?ids] that(1) by (simp add: hinted_by_def)
    show "lanes g ?ids w \<le> ?lim" if "window_ok (ry_limits s) w" for w
      unfolding lanes_def using that by (intro add_mono sum_list_capped) (auto simp: window_ok_def)
    show "empties (lanes g ?ids)" by (simp add: empties_def lanes_def count_in_def)
  qed (use assms in simp_all)
  then show ?thesis by (rule order_trans [OF _ room_twice])
qed

interpretation relay_window: step_system "relay_step hmac" "\<lambda>s. bounds_ok s \<and> ry_limits s = limits" for hmac limits
  by unfold_locales (use bounds_step in blast)

lemma relay_runs: "relay_ok hmac es (run (relay_step hmac) (new_relay limits) es)"
  by (rule relay_ok_run [OF new_relay_ok]) simp

lemma relay_run_bounds:
  "bounds_ok (run (relay_step hmac) (new_relay limits) es) \<and> ry_limits (run (relay_step hmac) (new_relay limits) es) = limits"
proof (rule relay_window.run_inv)
  show "bounds_ok (new_relay limits) \<and> ry_limits (new_relay limits) = limits"
    by (simp add: bounds_ok_def new_relay_def window_ok_def count_in_def)
qed

section \<open>Properties\<close>

text \<open>
  C3: a datagram reaches a worker's port only from an address and port that has proved the password of a
  stream registered with that port: among the events there is the registration, a binding request from that
  address with the registration's user name and a valid integrity, and the datagram itself, from there.
\<close>

theorem only_authenticated_forwarded:
  "To_Worker sock port message \<in> set (ry_log (run (relay_step hmac) (new_relay limits) es)) \<Longrightarrow>
     \<exists>key a. came es key message \<and> registered es a \<and> port = al_workerPort a
       \<and> (\<exists>request. came es key request \<and> authentic hmac a request)"
  using relay_runs [of hmac es limits] by (fastforce simp: relay_ok_def output_ok_def authed_def)

definition sample_registration :: json where
  "sample_registration = JObj [(''type'', JStr ''allow''), (''streamId'', JStr ''s-1''), (''ufrag'', JStr ''abcd''),
     (''pwd'', JStr ''abcdefghijklmnopqrstuv''), (''clientUfrag'', JStr ''efgh''), (''clientPwd'', JStr ''abcdefghijklmnopqrstuv''),
     (''workerPort'', JInt 40000), (''expiresMs'', JInt 10000)]"

text \<open>The code of a message under a sample key: twenty zeros.\<close>

definition sample_hmac :: "bytes \<Rightarrow> bytes \<Rightarrow> bytes" where
  "sample_hmac key message = replicate 20 0"

definition sample_events :: "relay_event list" where
  "sample_events = [Allows 0 sample_registration, Receives 1 ''8.8.8.8'' 5000 plain_request, Binds 2 0]"

theorem only_authenticated_forwarded_witness:
  "ry_log (run (relay_step sample_hmac) (new_relay RELAY_LIMITS) sample_events)
     = [Pinned ''s-1'' ''8.8.8.8:5000'' None, To_Worker 0 40000 plain_request]
   \<and> (\<exists>key a. came sample_events key plain_request \<and> registered sample_events a \<and> al_workerPort a = 40000)"
proof
  show l: "ry_log (run (relay_step sample_hmac) (new_relay RELAY_LIMITS) sample_events)
     = [Pinned ''s-1'' ''8.8.8.8:5000'' None, To_Worker 0 40000 plain_request]"
    unfolding sample_events_def run_Cons run_Nil by code_simp
  have "To_Worker 0 40000 plain_request \<in> set (ry_log (run (relay_step sample_hmac) (new_relay RELAY_LIMITS) sample_events))"
    unfolding l by simp
  from only_authenticated_forwarded [OF this]
  show "\<exists>key a. came sample_events key plain_request \<and> registered sample_events a \<and> al_workerPort a = 40000" by metis
qed

text \<open>
  C33: whatever comes in, the relay stays within its limits. At any moment there are at most 64 registrations, four pins of each
  and 16 datagrams that wait for a pin's socket, and every pin belongs to a live registration, so none outlives
  a revocation. From any moment on, of the datagrams that arrive within one second from senders without a pin, at most 10000
  from senders that match no hint are parsed, and at most 100 from one source group: the limits of two windows, which the second
  may touch. While the registrations stay as they are, a group that matches hints gets at most 400 more for each of them.
\<close>

theorem relay_bounded:
  assumes "s = run (relay_step hmac) (new_relay RELAY_LIMITS) es" and "\<forall>e \<in> set fs. in_second t e"
  shows "length (ry_registrations s) \<le> 64
    \<and> (\<forall>streamId r. jget (ry_registrations s) streamId = Some r \<longrightarrow> length (rg_pins r) \<le> 4)
    \<and> (\<forall>key p. jget (ry_pins s) key = Some p \<longrightarrow> length (pn_waiting p) \<le> 16 \<and> jhas (ry_registrations s) (pn_streamId p))
    \<and> length (filter (\<lambda>(g, ids). ids = []) (parsed_log hmac s fs)) \<le> 10000
    \<and> (\<forall>g. length (filter (\<lambda>(h, ids). h = g \<and> ids = []) (parsed_log hmac s fs)) \<le> 100)
    \<and> (list_all keeps_registrations fs \<longrightarrow>
        (\<forall>g. length (filter (\<lambda>(h, ids). h = g) (parsed_log hmac s fs)) \<le> 100 + 400 * length (hinted_by s g)))"
proof -
  note b = relay_run_bounds [of hmac RELAY_LIMITS es, folded assms(1)]
  note ok = relay_runs [of hmac es RELAY_LIMITS, folded assms(1)]
  have limits: "ry_limits s = RELAY_LIMITS" "bounds_ok s" using b by simp_all
  have "length (rg_pins r) \<le> 4" if "jget (ry_registrations s) streamId = Some r" for streamId r
    using relay_reg [OF ok that] b by (simp add: registration_ok_def RELAY_LIMITS_def)
  moreover have "length (pn_waiting p) \<le> 16 \<and> jhas (ry_registrations s) (pn_streamId p)" if "jget (ry_pins s) key = Some p" for key p
    using relay_pin [OF ok that] b by (auto simp: pin_ok_def RELAY_LIMITS_def jhas_def)
  moreover have "length (ry_registrations s) \<le> 64" using ok b by (simp add: relay_ok_def RELAY_LIMITS_def)
  moreover have "length (filter (\<lambda>(g, ids). ids = []) (parsed_log hmac s fs)) \<le> 10000"
    using strangers_parsed [OF limits(2) assms(2), of hmac] by (simp add: limits(1) RELAY_LIMITS_def)
  moreover have "length (filter (\<lambda>(h, ids). h = g \<and> ids = []) (parsed_log hmac s fs)) \<le> 100" for g
    using group_parsed [OF limits(2) assms(2), of g hmac] by (simp add: limits(1) RELAY_LIMITS_def)
  moreover have "length (filter (\<lambda>(h, ids). h = g) (parsed_log hmac s fs)) \<le> 100 + 400 * length (hinted_by s g)"
    if "list_all keeps_registrations fs" for g
    using hinted_parsed [OF limits(2), of fs t g hmac] assms(2) that by (simp add: limits(1) RELAY_LIMITS_def list_all_iff)
  ultimately show ?thesis by blast
qed

theorem relay_bounded_witness:
  "length (ry_registrations (run (relay_step sample_hmac) (new_relay RELAY_LIMITS) sample_events)) = 1
   \<and> parsed_log sample_hmac (run (relay_step sample_hmac) (new_relay RELAY_LIMITS) sample_events)
        [Receives 3 ''9.9.9.9'' 6000 plain_request, Receives 4 ''8.8.8.8'' 5000 plain_request] = [(''9.9.9.9'', [])]
   \<and> length (filter (\<lambda>(g, ids). ids = []) (parsed_log sample_hmac (run (relay_step sample_hmac) (new_relay RELAY_LIMITS) sample_events)
        [Receives 3 ''9.9.9.9'' 6000 plain_request, Receives 4 ''8.8.8.8'' 5000 plain_request])) \<le> 10000"
proof (intro conjI)
  show "length (ry_registrations (run (relay_step sample_hmac) (new_relay RELAY_LIMITS) sample_events)) = 1"
    unfolding sample_events_def run_Cons run_Nil by code_simp
  show "parsed_log sample_hmac (run (relay_step sample_hmac) (new_relay RELAY_LIMITS) sample_events)
        [Receives 3 ''9.9.9.9'' 6000 plain_request, Receives 4 ''8.8.8.8'' 5000 plain_request] = [(''9.9.9.9'', [])]"
    unfolding sample_events_def run_Cons run_Nil by code_simp
  show "length (filter (\<lambda>(g, ids). ids = []) (parsed_log sample_hmac (run (relay_step sample_hmac) (new_relay RELAY_LIMITS) sample_events)
        [Receives 3 ''9.9.9.9'' 6000 plain_request, Receives 4 ''8.8.8.8'' 5000 plain_request])) \<le> 10000"
    using relay_bounded [OF refl, of "[Receives 3 ''9.9.9.9'' 6000 plain_request, Receives 4 ''8.8.8.8'' 5000 plain_request]" 0
        sample_hmac sample_events] by (simp add: in_second_def)
qed

end
