(* ===== verification/RelayProtocol.thy ===== *)
theory RelayProtocol
  imports MediaRelay
begin

text \<open>
  \<^verbatim>\<open>apps/server/src/media-relay/protocol.mjs\<close>: the relay process's command loop. Text from the parent's pipe
  is collected and cut into lines; each line is a command, handled in order, one at a time. An invalid command
  ends the process. \<open>parse\<close> is \<^verbatim>\<open>JSON.parse\<close>, \<open>None\<close> where it throws. The handling of a command is one step: while
  the start is being awaited only the pipe can act, and when that ends the process nothing follows.
\<close>

section \<open>State\<close>

definition MAX_LINE_BYTES :: int where "MAX_LINE_BYTES = 4096"

datatype reply =
    Ready int "string list"
  | Failed string
  | Allowed string
  | Refused string string

record process =
  pr_core :: relay
  pr_started :: bool
  pr_finished :: "nat option"
  pr_buffered :: string
  pr_queue :: "json list"
  pr_errors :: "string list"
  pr_replies :: "reply list"

definition new_process :: process where
  "new_process = \<lparr>pr_core = new_relay RELAY_LIMITS, pr_started = False, pr_finished = None, pr_buffered = [], pr_queue = [],
     pr_errors = [], pr_replies = []\<rparr>"

section \<open>The end\<close>

definition finish_process :: "nat \<Rightarrow> string option \<Rightarrow> process \<Rightarrow> process" where
  "finish_process exit_code reason s =
     (if pr_finished s \<noteq> None then s
      else s\<lparr>pr_finished := Some exit_code, pr_core := close_relay (pr_core s),
             pr_errors := pr_errors s @ (case reason of Some r \<Rightarrow> [''media-relay: '' @ r] | None \<Rightarrow> [])\<rparr>)"

definition send_reply :: "reply \<Rightarrow> process \<Rightarrow> process" where
  "send_reply r s = s\<lparr>pr_replies := pr_replies s @ [r]\<rparr>"

section \<open>Commands\<close>

text \<open>\<open>bind6\<close> and \<open>bind4\<close> are the outcomes of the binds that a start makes.\<close>

definition port_value :: "json option \<Rightarrow> jsvalue" where
  "port_value v = (case v of Some (JInt n) \<Rightarrow> Whole n | _ \<Rightarrow> NotWhole)"

definition handle_start :: "string + unit \<Rightarrow> string + unit \<Rightarrow> json \<Rightarrow> process \<Rightarrow> process" where
  "handle_start bind6 bind4 message s =
     (let s = s\<lparr>pr_started := True\<rparr>; port = port_value (jfield ''port'' message)
      in case start_relay port bind6 bind4 (pr_core s) of
           (Inr families, core) \<Rightarrow> send_reply (Ready (whole_value port) families) (s\<lparr>pr_core := core\<rparr>)
         | (Inl e, core) \<Rightarrow> finish_process 1 None (send_reply (Failed e) (s\<lparr>pr_core := core\<rparr>)))"

definition handle_allow :: "int \<Rightarrow> json \<Rightarrow> process \<Rightarrow> process" where
  "handle_allow now message s =
     (case allow_relay now message (pr_core s) of
        (Inr streamId, core) \<Rightarrow> send_reply (Allowed streamId) (s\<lparr>pr_core := core\<rparr>)
      | (Inl e, core) \<Rightarrow>
          if e = ''Invalid relay registration'' then finish_process 2 (Some e) s
          else send_reply (Refused (str_of (jfield ''streamId'' message)) e) s)"

definition handle_command :: "int \<Rightarrow> string + unit \<Rightarrow> string + unit \<Rightarrow> json \<Rightarrow> process \<Rightarrow> process" where
  "handle_command now bind6 bind4 message s =
     (let ty = jfield ''type'' message
      in if ty = Some (JStr ''start'') \<and> \<not> pr_started s then handle_start bind6 bind4 message s
         else if \<not> pr_started s then finish_process 2 (Some ''a command arrived before start'') s
         else if ty = Some (JStr ''allow'') then handle_allow now message s
         else if ty = Some (JStr ''revoke'') \<and> is_str (jfield ''streamId'' message)
         then s\<lparr>pr_core := snd (revoke_relay (str_of (jfield ''streamId'' message)) (pr_core s))\<rparr>
         else if ty = Some (JStr ''stop'') then finish_process 0 None s
         else finish_process 2 (Some ''invalid command'') s)"

section \<open>The pipe\<close>

text \<open>
  The lines of the text so far and what is left after the last line end; an unreadable line stops the reading,
  with the rest still in the buffer.
\<close>

fun read_lines :: "(string \<Rightarrow> json option) \<Rightarrow> string list \<Rightarrow> string \<Rightarrow> process \<Rightarrow> process" where
  "read_lines parse [] rest s =
     (let s = s\<lparr>pr_buffered := rest\<rparr>
      in if MAX_LINE_BYTES < byteLength rest then finish_process 2 (Some ''command too long'') s else s)"
| "read_lines parse (line # lines) rest s =
     (case parse line of
        None \<Rightarrow> finish_process 2 (Some ''unreadable command'')
                  (s\<lparr>pr_buffered := join_with [CHR 0x0A] (lines @ [rest])\<rparr>)
      | Some message \<Rightarrow> read_lines parse lines rest (s\<lparr>pr_queue := pr_queue s @ [message]\<rparr>))"

definition on_data :: "(string \<Rightarrow> json option) \<Rightarrow> string \<Rightarrow> process \<Rightarrow> process" where
  "on_data parse chunk s =
     (if pr_finished s \<noteq> None then s
      else (let parts = split_on (CHR 0x0A) (pr_buffered s @ chunk) in read_lines parse (butlast parts) (last parts) s))"

definition on_end :: "process \<Rightarrow> process" where
  "on_end s = finish_process 0 None s"

text \<open>The command at the head of the queue; a finished process handles no more.\<close>

definition run_command :: "int \<Rightarrow> string + unit \<Rightarrow> string + unit \<Rightarrow> process \<Rightarrow> process" where
  "run_command now bind6 bind4 s =
     (case pr_queue s of
        [] \<Rightarrow> s
      | message # queue \<Rightarrow>
          (let s = s\<lparr>pr_queue := queue\<rparr>
           in if pr_finished s \<noteq> None then s else handle_command now bind6 bind4 message s))"

text \<open>
  The rest of the process between a start and the end: its timers and its sockets. Registering, revoking and
  closing are the commands' and the end's alone.
\<close>

definition timer_or_socket :: "relay_event \<Rightarrow> bool" where
  "timer_or_socket e \<longleftrightarrow> (case e of Allows _ _ \<Rightarrow> False | Revokes _ \<Rightarrow> False | Closes_Relay \<Rightarrow> False | _ \<Rightarrow> True)"

definition relay_event_step :: "(bytes \<Rightarrow> bytes \<Rightarrow> bytes) \<Rightarrow> relay_event \<Rightarrow> process \<Rightarrow> process" where
  "relay_event_step hmac e s =
     (if \<not> pr_started s \<or> pr_finished s \<noteq> None \<or> \<not> timer_or_socket e then s
      else s\<lparr>pr_core := relay_step hmac (pr_core s) e\<rparr>)"

section \<open>Events\<close>

datatype process_event =
    Data string
  | Pipe_Ends
  | Runs_Command int "string + unit" "string + unit"
  | Relays relay_event

fun process_step ::
  "(bytes \<Rightarrow> bytes \<Rightarrow> bytes) \<Rightarrow> (string \<Rightarrow> json option) \<Rightarrow> process \<Rightarrow> process_event \<Rightarrow> process" where
  "process_step hmac parse s (Data chunk) = on_data parse chunk s"
| "process_step hmac parse s Pipe_Ends = on_end s"
| "process_step hmac parse s (Runs_Command now bind6 bind4) = run_command now bind6 bind4 s"
| "process_step hmac parse s (Relays e) = relay_event_step hmac e s"

definition idle_core :: "relay \<Rightarrow> bool" where
  "idle_core s \<longleftrightarrow> ry_registrations s = [] \<and> ry_pins s = [] \<and> \<not> ry_public s"

definition core_ok :: "(bytes \<Rightarrow> bytes \<Rightarrow> bytes) \<Rightarrow> relay \<Rightarrow> bool" where
  "core_ok hmac s \<longleftrightarrow> (\<exists>es. relay_ok hmac es s)"

definition process_ok :: "(bytes \<Rightarrow> bytes \<Rightarrow> bytes) \<Rightarrow> process \<Rightarrow> bool" where
  "process_ok hmac s \<longleftrightarrow> core_ok hmac (pr_core s)
     \<and> (pr_finished s \<noteq> None \<longrightarrow> idle_core (pr_core s))
     \<and> (\<not> pr_started s \<longrightarrow> pr_replies s = [] \<and> ry_registrations (pr_core s) = [])"

section \<open>Lemmas\<close>

lemma empty_jmap: "(\<And>k. jget m k = None) \<Longrightarrow> m = []"
  by (cases m) (auto simp: map_of_eq_None_iff split: if_splits, metis option.distinct(1))

lemma unpins_allowed:
  "map_option rg_allowed (jget (ry_registrations (fold (unpin reason) keys s)) sid) = map_option rg_allowed (jget (ry_registrations s) sid)"
  by (induction keys arbitrary: s) (simp_all add: unpin_allowed)

lemma revoke_keys:
  "jget (ry_registrations (snd (revoke_relay streamId s))) k = None \<longleftrightarrow> k = streamId \<or> jget (ry_registrations s) k = None"
proof (cases "jget (ry_registrations s) streamId")
  case None
  then show ?thesis by (auto simp: revoke_relay_def)
next
  case (Some r)
  have "jget (ry_registrations (fold (unpin ''revoked'') (rg_pins r) s)) k = None \<longleftrightarrow> jget (ry_registrations s) k = None"
    using unpins_allowed [of "''revoked''" "rg_pins r" s k] by (metis map_option_is_None)
  with Some show ?thesis by (auto simp: revoke_relay_def forget_registration_def)
qed

lemma close_registrations: "ry_registrations (close_relay s) = []"
proof -
  have f: "jget (ry_registrations (fold (\<lambda>streamId s. snd (revoke_relay streamId s)) ids s)) k = None
      \<longleftrightarrow> k \<in> set ids \<or> jget (ry_registrations s) k = None" for ids k
    by (induction ids arbitrary: s) (auto simp: revoke_keys)
  have "jget (ry_registrations (close_relay s)) k = None" for k
    using f [of "jkeys (ry_registrations s)" k] by (simp add: close_relay_def) (simp add: map_of_eq_None_iff)
  then show ?thesis by (rule empty_jmap)
qed

lemma no_registration_no_pin: "relay_ok hmac es s \<Longrightarrow> ry_registrations s = [] \<Longrightarrow> ry_pins s = []"
  by (rule empty_jmap) (auto simp: relay_ok_def pin_ok_def intro: ccontr)

lemma close_idle: "relay_ok hmac es s \<Longrightarrow> idle_core (close_relay s)"
  using no_registration_no_pin [OF relay_ok_close close_registrations]
  by (simp add: idle_core_def close_registrations) (simp add: close_relay_def)

lemma finish_process_ok:
  "core_ok hmac (pr_core s) \<Longrightarrow> (pr_finished s \<noteq> None \<Longrightarrow> idle_core (pr_core s)) \<Longrightarrow>
     (\<not> pr_started s \<Longrightarrow> pr_replies s = [] \<and> ry_registrations (pr_core s) = []) \<Longrightarrow> process_ok hmac (finish_process exit_code reason s)"
  using relay_ok_close close_idle close_registrations unfolding process_ok_def finish_process_def core_ok_def
  by (auto split: if_splits) blast+

lemma process_finish: "process_ok hmac s \<Longrightarrow> process_ok hmac (finish_process exit_code reason s)"
  by (rule finish_process_ok) (auto simp: process_ok_def)

lemma relay_ok_public: "relay_ok hmac es (s\<lparr>ry_public := b\<rparr>) = relay_ok hmac es s"
  by (simp add: relay_ok_def pin_ok_def registration_ok_def)

lemma core_step: "core_ok hmac s \<Longrightarrow> core_ok hmac (relay_step hmac s e)"
proof -
  assume "core_ok hmac s"
  then obtain es where "relay_ok hmac (es @ [e]) s" unfolding core_ok_def using relay_ok_mono by blast
  then have "relay_ok hmac (es @ [e]) (relay_step hmac s e)" by (rule relay_ok_step) simp
  then show ?thesis by (auto simp: core_ok_def)
qed

lemma core_allow: "core_ok hmac s \<Longrightarrow> core_ok hmac (snd (allow_relay now message s))"
  using core_step [of hmac s "Allows now message"] by simp

lemma handle_ok:
  assumes "process_ok hmac s" "pr_finished s = None"
  shows "process_ok hmac (handle_command now bind6 bind4 message s)"
proof -
  have core: "core_ok hmac (pr_core s)" using assms(1) by (simp add: process_ok_def)
  have start: "process_ok hmac (handle_start bind6 bind4 message s)"
  proof -
    obtain r core' where st: "start_relay (port_value (jfield ''port'' message)) bind6 bind4 (pr_core s) = (r, core')" by fastforce
    then have "core' = pr_core s \<or> core' = (pr_core s)\<lparr>ry_public := True\<rparr>"
      by (auto simp: start_relay_def split: if_splits sum.splits)
    then have c: "core_ok hmac core'" using core by (auto simp: core_ok_def relay_ok_public)
    show ?thesis
      using c assms(2) by (cases r) (auto simp: handle_start_def Let_def st send_reply_def process_ok_def [of _ "send_reply _ _"]
          process_ok_def [of _ "_\<lparr>pr_replies := _\<rparr>"] intro!: finish_process_ok)
  qed
  have allow: "process_ok hmac (handle_allow now message s)" if "pr_started s"
  proof -
    obtain r core' where al: "allow_relay now message (pr_core s) = (r, core')" by fastforce
    then have c: "core_ok hmac core'" using core_allow [OF core, of now message] by simp
    show ?thesis
    proof (cases r)
      case (Inl e)
      then show ?thesis using assms(1) that process_finish [OF assms(1)]
        by (auto simp: handle_allow_def al send_reply_def process_ok_def [of _ "s\<lparr>pr_replies := _\<rparr>"])
          (auto simp: process_ok_def)
    next
      case (Inr streamId)
      then show ?thesis using c assms that by (auto simp: handle_allow_def al send_reply_def process_ok_def)
    qed
  qed
  have revoke: "process_ok hmac (s\<lparr>pr_core := snd (revoke_relay sid (pr_core s))\<rparr>)" if "pr_started s" for sid
    using core_step [OF core, of "Revokes sid"] assms that by (simp add: process_ok_def)
  show ?thesis using start allow revoke process_finish [OF assms(1)]
    by (auto simp: handle_command_def Let_def)
qed

lemma read_lines_ok: "process_ok hmac s \<Longrightarrow> process_ok hmac (read_lines parse lines rest s)"
proof (induction lines arbitrary: s)
  case Nil
  then have "process_ok hmac (s\<lparr>pr_buffered := rest\<rparr>)" by (simp add: process_ok_def)
  then show ?case by (simp add: Let_def process_finish)
next
  case (Cons line lines)
  then have "process_ok hmac (s\<lparr>pr_buffered := b\<rparr>)" "process_ok hmac (s\<lparr>pr_queue := q\<rparr>)" for b q
    by (simp_all add: process_ok_def)
  with Cons show ?case by (simp add: process_finish split: option.split)
qed

lemma process_step_ok: "process_ok hmac s \<Longrightarrow> process_ok hmac (process_step hmac parse s e)"
proof (cases e)
  case (Data chunk)
  then show "process_ok hmac s \<Longrightarrow> ?thesis" by (simp add: on_data_def Let_def read_lines_ok)
next
  case Pipe_Ends
  then show "process_ok hmac s \<Longrightarrow> ?thesis" by (simp add: on_end_def process_finish)
next
  case (Runs_Command now bind6 bind4)
  assume ok: "process_ok hmac s"
  then have "process_ok hmac (s\<lparr>pr_queue := q\<rparr>)" for q by (simp add: process_ok_def)
  then show ?thesis using ok Runs_Command handle_ok
    by (auto simp: run_command_def Let_def split: list.split)
next
  case (Relays e)
  assume ok: "process_ok hmac s"
  then show ?thesis using Relays core_step [of hmac "pr_core s" e]
    by (auto simp: relay_event_step_def process_ok_def)
qed

interpretation relay_process: step_system "process_step hmac parse" "process_ok hmac" for hmac parse
  by unfold_locales (rule process_step_ok)

lemma new_process_ok: "process_ok hmac new_process"
  using new_relay_ok by (auto simp: process_ok_def new_process_def core_ok_def) (simp_all add: new_relay_def)

text \<open>An ended process does nothing but count its queue down.\<close>

lemma finished_step:
  "pr_finished s \<noteq> None \<Longrightarrow> pr_core (process_step hmac parse s e) = pr_core s \<and> pr_replies (process_step hmac parse s e) = pr_replies s
     \<and> pr_finished (process_step hmac parse s e) = pr_finished s"
  by (cases e) (auto simp: on_data_def on_end_def finish_process_def run_command_def Let_def relay_event_step_def split: list.split)

lemma finished_run:
  "pr_finished s \<noteq> None \<Longrightarrow> pr_core (run (process_step hmac parse) s es) = pr_core s
     \<and> pr_replies (run (process_step hmac parse) s es) = pr_replies s
     \<and> pr_finished (run (process_step hmac parse) s es) = pr_finished s"
proof (induction es arbitrary: s)
  case (Cons e es)
  note f = finished_step [OF Cons.prems, of hmac parse e]
  then have "pr_finished (process_step hmac parse s e) \<noteq> None" using Cons.prems by simp
  from Cons.IH [OF this] f show ?case by simp
qed simp

section \<open>Properties\<close>

text \<open>
  C34: the relay process fails closed. Once it has ended, by an invalid, unreadable or overlong command, a failed start or
  the end of the pipe, nothing is registered or pinned, the public port is closed, and nothing that still
  comes in changes the relay or is answered; and before a start nothing is registered or answered.
\<close>

theorem process_fails_closed:
  "(pr_finished (run (process_step hmac parse) new_process es) \<noteq> None \<longrightarrow>
      idle_core (pr_core (run (process_step hmac parse) new_process es))
      \<and> pr_core (run (process_step hmac parse) new_process (es @ fs)) = pr_core (run (process_step hmac parse) new_process es)
      \<and> pr_replies (run (process_step hmac parse) new_process (es @ fs)) = pr_replies (run (process_step hmac parse) new_process es))
   \<and> (\<not> pr_started (run (process_step hmac parse) new_process es) \<longrightarrow>
      pr_replies (run (process_step hmac parse) new_process es) = []
      \<and> ry_registrations (pr_core (run (process_step hmac parse) new_process es)) = [])"
proof -
  have a: "run (process_step hmac parse) new_process (es @ fs)
      = run (process_step hmac parse) (run (process_step hmac parse) new_process es) fs"
    by (simp add: run_def)
  have "process_ok hmac (run (process_step hmac parse) new_process es)"
    by (rule relay_process.run_inv [OF new_process_ok])
  then show ?thesis unfolding a process_ok_def using finished_run by blast
qed

text \<open>A sample reader of two commands.\<close>

definition sample_parse :: "string \<Rightarrow> json option" where
  "sample_parse line =
     (if line = ''start'' then Some (JObj [(''type'', JStr ''start''), (''port'', JInt 8443)])
      else if line = ''allow'' then Some sample_registration else None)"

definition sample_session :: "process_event list" where
  "sample_session = [Data (''start'' @ [CHR 0x0A] @ ''al''), Runs_Command 0 (Inr ()) (Inr ()), Data (''low'' @ [CHR 0x0A]),
     Runs_Command 1 (Inr ()) (Inr ())]"

theorem process_fails_closed_witness:
  "length (ry_registrations (pr_core (run (process_step sample_hmac sample_parse) new_process sample_session))) = 1
   \<and> pr_finished (run (process_step sample_hmac sample_parse) new_process (sample_session @ [Data (''?'' @ [CHR 0x0A])])) = Some 2
   \<and> idle_core (pr_core (run (process_step sample_hmac sample_parse) new_process (sample_session @ [Data (''?'' @ [CHR 0x0A])])))"
proof (intro conjI)
  show "length (ry_registrations (pr_core (run (process_step sample_hmac sample_parse) new_process sample_session))) = 1"
    unfolding sample_session_def run_Cons run_Nil by code_simp
  show f: "pr_finished (run (process_step sample_hmac sample_parse) new_process (sample_session @ [Data (''?'' @ [CHR 0x0A])])) = Some 2"
    unfolding sample_session_def append_Cons append_Nil run_Cons run_Nil by code_simp
  then show "idle_core (pr_core (run (process_step sample_hmac sample_parse) new_process (sample_session @ [Data (''?'' @ [CHR 0x0A])])))"
    using process_fails_closed [of sample_hmac sample_parse "sample_session @ [Data (''?'' @ [CHR 0x0A])]"] by simp
qed

end
