(* ===== verification/Spec2Isabelle.thy ===== *)
theory Spec2Isabelle
  imports NativeMedia StreamRuntime CliText Displays TrustPage Der TlsListener LanListeners CodeIssuance PolicyStore StreamRegistry ControlLease
    ViewerGrants SdpCandidates ApprovedClients LatencyProbes RelaySupervisor NetworkConfirmation RelayProtocol
begin

text \<open>
  VidVNC shares the screen of a PC with browsers. A server (\<^verbatim>\<open>apps/server/src\<close>) admits viewers by connection codes or as
  approved devices, resolves the stream each gets under the owner's policy, starts media workers, and relays the
  media; a web client (\<^verbatim>\<open>apps/web-client/src\<close>) shows it. This library models the parts of the server that decide who
  is let in, from where, to what, and with which limits, and the pure parts of the client. Paths below are relative to
  these two directories.

  Admission. \<open>PasswordEntry\<close> (\<^verbatim>\<open>password-entry.js\<close>) is the form of a code, \<open>ConnectionKeys\<close> (\<^verbatim>\<open>connection-keys.mjs\<close>) the
  codes that are live, \<open>AdmissionBudget\<close> (\<^verbatim>\<open>admission-budget.mjs\<close>) the limits on guessing, \<open>SessionStore\<close>
  (\<^verbatim>\<open>session-store.mjs\<close>) the sessions and what ends them, \<open>CodeIssuance\<close> (\<^verbatim>\<open>code-issuance.mjs\<close>, \<^verbatim>\<open>server-limits.mjs\<close>)
  the owner's codes and the limit of connections, \<open>ApprovedClients\<close> (\<^verbatim>\<open>approved-clients.mjs\<close>) the devices that the owner
  approved, \<open>ViewerGrants\<close> (\<^verbatim>\<open>viewer-asset-grants.mjs\<close>) the tokens for the viewer's files. The store uses the registry
  and the budget; a session's end calls back and revokes grants, streams and the lease.

  Where from. \<open>PeerNetwork\<close> (\<^verbatim>\<open>peer-network.mjs\<close>, \<^verbatim>\<open>relay-addresses.mjs\<close>) reads addresses and says which count as the
  internet; \<open>LocalScope\<close> (\<^verbatim>\<open>local-session-scope.mjs\<close>) is the part of the network that may use the standing code,
  \<open>NetworkConfirmation\<close> (\<^verbatim>\<open>network-confirmation.mjs\<close>) the owner's answer for each network, \<open>LanListeners\<close>
  (\<^verbatim>\<open>lan-http-listeners.mjs\<close>) the addresses that are bound, \<open>TlsListener\<close> (\<^verbatim>\<open>tls/listener.mjs\<close>, \<^verbatim>\<open>tls-settings.mjs\<close>,
  \<^verbatim>\<open>ensure-certificate.mjs\<close>, \<^verbatim>\<open>anchor.mjs\<close>) the encrypted listener, \<open>Der\<close> (\<^verbatim>\<open>tls/der.mjs\<close>) the writer of its
  certificates and \<open>TrustPage\<close> (\<^verbatim>\<open>trust-model.js\<close>) what a device is told to trust.

  What is streamed. \<open>StreamPolicy\<close> (\<^verbatim>\<open>stream-policy.mjs\<close>) validates the policy and resolves a plan, \<open>PolicyEdits\<close>
  (\<^verbatim>\<open>cli/policy-edits.mjs\<close>, \<^verbatim>\<open>profile-order.mjs\<close>) edits it, \<open>Displays\<close> (\<^verbatim>\<open>displays.mjs\<close>) chooses the display, \<open>MediaModes\<close>
  the tables of codecs and modes, \<open>StreamRegistry\<close> (\<^verbatim>\<open>stream-registry.mjs\<close>) who shares which encoder, \<open>ControlLease\<close>
  (\<^verbatim>\<open>control-lease.mjs\<close>) who may use keyboard and mouse, \<open>LatencyProbes\<close> (\<^verbatim>\<open>latency-probes.mjs\<close>,
  \<^verbatim>\<open>latency-results.mjs\<close>) the measurements. \<open>LockedFile\<close> is the way both settings stores save; \<open>PolicyStore\<close>
  (\<^verbatim>\<open>stream-policy-store.mjs\<close>, \<^verbatim>\<open>policy-controller.mjs\<close>) and \<open>AccessSettings\<close> (\<^verbatim>\<open>access-settings.mjs\<close>) use it.
  \<open>CliText\<close> (\<^verbatim>\<open>cli/tokenize.mjs\<close>, \<^verbatim>\<open>arguments.mjs\<close>, \<^verbatim>\<open>resolve.mjs\<close>) is the text side of the console.

  How media flows. \<open>SdpCandidates\<close> (\<^verbatim>\<open>sdp-candidates.mjs\<close>) rewrites offers and answers, \<open>Stun\<close> and \<open>MediaRelay\<close>
  (\<^verbatim>\<open>media-relay/stun.mjs\<close>, \<^verbatim>\<open>relay.mjs\<close>) check and forward datagrams, \<open>RelayProtocol\<close> (\<^verbatim>\<open>media-relay/protocol.mjs\<close>) is the
  relay process's command loop and \<open>RelaySupervisor\<close> (\<^verbatim>\<open>media-relay.mjs\<close>) the server's side of it. \<open>NativeMedia\<close>
  (\<^verbatim>\<open>native-media.mjs\<close>) keeps the worker processes and the calls that wait for their lines, \<open>StreamHealth\<close>
  (\<^verbatim>\<open>recovery.mjs\<close>, \<^verbatim>\<open>diagnostics.mjs\<close>, \<^verbatim>\<open>session-stability.mjs\<close>) judges the samples of receivers and encoders, and \<open>StreamRuntime\<close> (\<^verbatim>\<open>stream-runtime.mjs\<close>)
  drives registry, lease, workers and relay for all sessions: an offer is a task that goes on at each answer it waited for.

  \<open>JsPrelude\<close> and \<open>Json\<close> hold what all share: a JavaScript map as an association list in insertion order, texts,
  time windows, JSON values and checks. Their locales state what components rely on: \<open>js_map\<close>, \<open>step_system\<close> and
  \<open>guarded_system\<close> (an invariant along any calls), \<open>one_shot\<close> (a token accepted once), \<open>window_limiter\<close> (at most so many
  counted events in any window). Every one is interpreted on the code's own definitions, in the component that
  provides it.

  How the code is read. A class is a record of its fields, a method a function from the state (and what it reads
  from outside) to its result and the state after it, an error \<open>Inl\<close> its message. Code that waits is cut at its
  waits: each part between two is one step, and the steps of different calls come in any order. Clock readings, random
  bytes, fresh ids, digests, file contents, outcomes of writes, binds and derivations, and what resolvers, strategies
  and workers answer are arguments, so a theorem holds for all of them. Characters are those below 256; where a number
  may be a fraction the theory says how it is read.

  What is shown. Invariants and safety along every sequence of steps (codes, sessions, limits, approvals, the lease,
  grants, the relay, the listeners), equality with a reference (source groups), refinement of the shared-file contract,
  round trips (DER, words of a line), bounds, and that calls are answered. A sampler that rejects bytes
  returns an option: its theorems say what it returns when the bytes suffice, and that a suitable byte suffices. The
  other loops are structural or come with a measure; no fuel is used. The search for a free profile id is bounded by
  the number of ids taken.

  Not modelled: the HTTP routes (\<^verbatim>\<open>http-app.mjs\<close>: Node's URL parser and sockets), the start of the server (\<^verbatim>\<open>main.mjs\<close>), the
  certificate strategies (files, tools and cryptography of the system), console output, the pages of the web client
  (DOM, WebRTC, fractions of measurements), packaging and tools. Their parts that the models need are arguments.

  What modelling showed: wrong passwords of sign-ins that wait together count once
  (\<open>ApprovedClients.parallel_signins_count_once\<close>); an address with a zone makes the local scope throw
  (\<open>LocalScope.zone_address_throws\<close>); offers with bare line feeds pass both candidate filters
  (\<open>SdpCandidates.bare_line_feed_kept\<close>), and a worker's answer can carry a second candidate past the checks behind one
  (\<open>SdpCandidates.smuggled_candidate\<close>); a worker's line \<^verbatim>\<open>null\<close>, or a control result that nothing asked for, makes the
  handler throw (\<open>NativeMedia.null_line_throws\<close>, \<open>NativeMedia.unasked_result_throws\<close>); one IPv6 address written with a
  dotted end is in another limit group (\<open>PeerNetwork.dotted_other_group\<close>); a very wide or tall screen can be encoded below the lower limit of its side
  (\<open>StreamPolicy.outputSize_in_limits\<close>); a failed rotation loses the standing code; a relay stopped while it starts is
  reported as unavailable; a rejection during an approval's write is overwritten.
\<close>

end
